(* ===== verification/Prelude.thy ===== *)
theory Prelude
  imports
    Main
    "HOL-Library.AList"
    "HOL-Library.Char_ord"
    "HOL-Library.List_Lexorder"
    "HOL-Library.Multiset"
begin

text \<open>
  What the components share: the model's names for Go's scalar types, the standard
  library operations the source uses (\<open>time\<close>, \<open>strings\<close>, \<open>strconv\<close>,
  \<open>sort\<close>), and the generic lemmas on lists, options and association lists that carry
  the component proofs.

  Conventions of the whole development.
  \<^item> A Go \<open>string\<close> or \<open>[]byte\<close> is a \<open>string\<close>, a list of bytes; \<open>length\<close> is
    Go's \<open>len\<close>. The order on strings is Go's bytewise order (Char_ord, List_Lexorder).
  \<^item> A Go \<open>map\<close> is an association list with distinct keys. The order of the list is the
    order a \<open>range\<close> loop happens to visit; a theorem about every such list therefore holds
    for every iteration order.
  \<^item> An instant is an \<open>int\<close>, nanoseconds since the Unix epoch; a duration is an \<open>int\<close>,
    nanoseconds. \<open>zero_time\<close> is Go's zero \<open>time.Time\<close>.
  \<^item> A Go slice is a list. Nil and empty slices are distinguished only where the code does.
\<close>

named_theorems go_simps \<open>unfolding rules of the standard library models\<close>
named_theorems go_intros \<open>introduction rules of the component invariants\<close>

type_synonym instant = int
type_synonym duration = int
type_synonym ('k, 'v) gomap = "('k \<times> 'v) list"

section \<open>Integers of 64 bits\<close>

definition min_int64 :: int where "min_int64 = - (2 ^ 63)"
definition max_int64 :: int where "max_int64 = 2 ^ 63 - 1"

definition in_int64 :: "int \<Rightarrow> bool" where
  "in_int64 x \<longleftrightarrow> min_int64 \<le> x \<and> x \<le> max_int64"

text \<open>Two's complement wrap-around of \<open>int64\<close> arithmetic.\<close>

definition wrap64 :: "int \<Rightarrow> int" where
  "wrap64 x = (x + 2 ^ 63) mod 2 ^ 64 - 2 ^ 63"

lemma wrap64_id: "in_int64 x \<Longrightarrow> wrap64 x = x"
  by (simp add: wrap64_def in_int64_def min_int64_def max_int64_def)

lemma wrap64_range: "in_int64 (wrap64 x)"
proof -
  have "0 \<le> (x + 2 ^ 63) mod 2 ^ 64" and "(x + 2 ^ 63) mod 2 ^ 64 < 2 ^ 64"
    by simp_all
  then show ?thesis
    by (simp add: wrap64_def in_int64_def min_int64_def max_int64_def)
qed

lemma wrap64_below:
  assumes "- (2 ^ 64) < d" and "d < - (2 ^ 63)"
  shows "wrap64 d = d + 2 ^ 64"
proof -
  have "(d + 2 ^ 63) mod 2 ^ 64 = (d + 2 ^ 63 + 2 ^ 64) mod 2 ^ 64"
    by (rule mod_add_self2 [symmetric])
  also have "\<dots> = d + 2 ^ 63 + 2 ^ 64"
    by (rule mod_pos_pos_trivial) (use assms in simp_all)
  finally show ?thesis by (simp add: wrap64_def)
qed

lemma wrap64_above:
  assumes "d < 2 ^ 64" and "2 ^ 63 \<le> d"
  shows "wrap64 d = d - 2 ^ 64"
proof -
  have "(d + 2 ^ 63) mod 2 ^ 64 = (d + 2 ^ 63 - 2 ^ 64) mod 2 ^ 64"
    by (rule minus_mod_self2 [symmetric])
  also have "\<dots> = d + 2 ^ 63 - 2 ^ 64"
    by (rule mod_pos_pos_trivial) (use assms in simp_all)
  finally show ?thesis by (simp add: wrap64_def)
qed

section \<open>Time\<close>

definition second :: duration where "second = 1000000000"
definition minute :: duration where "minute = 60 * second"
definition hour :: duration where "hour = 60 * minute"

definition zero_time :: instant where "zero_time = - 62135596800 * second"

definition is_zero :: "instant \<Rightarrow> bool" where "is_zero t \<longleftrightarrow> t = zero_time"

text \<open>\<open>t.Sub(u)\<close> saturates at the bounds of \<open>time.Duration\<close>.\<close>

definition time_sub :: "instant \<Rightarrow> instant \<Rightarrow> duration" where
  "time_sub t u = max min_int64 (min max_int64 (t - u))"

definition time_before :: "instant \<Rightarrow> instant \<Rightarrow> bool" where "time_before t u \<longleftrightarrow> t < u"
definition time_after :: "instant \<Rightarrow> instant \<Rightarrow> bool" where "time_after t u \<longleftrightarrow> t > u"

text \<open>\<open>t.Unix()\<close>: whole seconds, rounded towards the past.\<close>

definition time_unix :: "instant \<Rightarrow> int" where "time_unix t = t div second"

definition unix_time :: "int \<Rightarrow> instant" where "unix_time s = s * second"

lemma time_sub_exact: "in_int64 (t - u) \<Longrightarrow> time_sub t u = t - u"
  by (simp add: time_sub_def in_int64_def)

lemma time_sub_less_iff:
  assumes "min_int64 < w" and "w \<le> max_int64"
  shows "time_sub t u < w \<longleftrightarrow> t - u < w"
  using assms by (auto simp: time_sub_def)

lemma second_pos [simp]: "0 < second"
  by (simp add: second_def)

lemma unix_time_unix [simp]: "time_unix (unix_time s) = s"
  by (simp add: time_unix_def unix_time_def second_def)

lemma time_unix_mono: "t \<le> u \<Longrightarrow> time_unix t \<le> time_unix u"
  by (simp add: time_unix_def zdiv_mono1)

section \<open>Division truncated towards zero\<close>

text \<open>Go's \<open>/\<close> and \<open>%\<close> on signed integers (the divisor is never zero where it is used).\<close>

definition quo :: "int \<Rightarrow> int \<Rightarrow> int" where
  "quo a b = sgn a * sgn b * (\<bar>a\<bar> div \<bar>b\<bar>)"

definition rem :: "int \<Rightarrow> int \<Rightarrow> int" where
  "rem a b = a - b * quo a b"

lemma quo_nonneg: "0 \<le> a \<Longrightarrow> 0 < b \<Longrightarrow> quo a b = a div b"
  by (cases "a = 0") (simp_all add: quo_def)

lemma rem_nonneg: "0 \<le> a \<Longrightarrow> 0 < b \<Longrightarrow> rem a b = a mod b"
  by (simp add: rem_def quo_nonneg minus_mult_div_eq_mod)

section \<open>Strings\<close>

definition byte :: "char \<Rightarrow> nat" where "byte c = of_char c"

definition has_prefix :: "string \<Rightarrow> string \<Rightarrow> bool" where
  "has_prefix s p \<longleftrightarrow> take (length p) s = p"

definition has_suffix :: "string \<Rightarrow> string \<Rightarrow> bool" where
  "has_suffix s p \<longleftrightarrow> has_prefix (rev s) (rev p)"

fun str_contains :: "string \<Rightarrow> string \<Rightarrow> bool" where
  "str_contains [] sub \<longleftrightarrow> sub = []"
| "str_contains (c # cs) sub \<longleftrightarrow> has_prefix (c # cs) sub \<or> str_contains cs sub"

text \<open>\<open>strings.IndexByte\<close>, and \<open>strings.Cut\<close> at one byte.\<close>

fun index_byte :: "string \<Rightarrow> char \<Rightarrow> nat option" where
  "index_byte [] c = None"
| "index_byte (x # xs) c = (if x = c then Some 0 else map_option Suc (index_byte xs c))"

fun split_on :: "char \<Rightarrow> string \<Rightarrow> string list" where
  "split_on c [] = [[]]"
| "split_on c (x # xs) =
     (if x = c then [] # split_on c xs
      else case split_on c xs of [] \<Rightarrow> [[x]] | w # ws \<Rightarrow> (x # w) # ws)"

fun str_join :: "string \<Rightarrow> string list \<Rightarrow> string" where
  "str_join sep [] = []"
| "str_join sep [x] = x"
| "str_join sep (x # y # ys) = x @ sep @ str_join sep (y # ys)"

lemma has_prefix_append [simp]: "has_prefix (p @ s) p"
  by (simp add: has_prefix_def)

lemma has_prefix_iff: "has_prefix s p \<longleftrightarrow> (\<exists>r. s = p @ r)"
proof
  assume "has_prefix s p"
  then have "s = p @ drop (length p) s"
    by (metis append_take_drop_id has_prefix_def)
  then show "\<exists>r. s = p @ r" ..
qed (auto simp: has_prefix_def)

lemma str_contains_iff: "str_contains s sub \<longleftrightarrow> (\<exists>l r. s = l @ sub @ r)"
proof (induction s)
  case Nil
  then show ?case by simp
next
  case (Cons c cs)
  have "(\<exists>l r. c # cs = l @ sub @ r) \<longleftrightarrow> (\<exists>r. c # cs = sub @ r) \<or> (\<exists>l r. cs = l @ sub @ r)"
    by (metis append_Cons append_eq_Cons_conv)
  with Cons show ?case by (simp add: has_prefix_iff)
qed

lemma index_byte_None: "index_byte s c = None \<longleftrightarrow> c \<notin> set s"
  by (induction s) auto

lemma index_byte_append: "c \<notin> set s \<Longrightarrow> index_byte (s @ c # t) c = Some (length s)"
  by (induction s) auto

lemma index_byte_Some: "index_byte s c = Some i \<Longrightarrow> i < length s \<and> s ! i = c \<and> c \<notin> set (take i s)"
  by (induction s arbitrary: i) (auto split: if_splits)

lemma split_on_nonempty [simp]: "split_on c s \<noteq> []"
  by (induction s) (auto split: list.splits)

lemma str_join_split_on: "str_join [c] (split_on c s) = s"
proof (induction s)
  case Nil
  then show ?case by simp
next
  case (Cons x xs)
  note IH = this
  show ?case
  proof (cases "split_on c xs")
    case (Cons w ws)
    with IH show ?thesis by (cases ws) auto
  qed simp
qed

text \<open>
  \<open>strings.TrimSpace\<close>: the UTF-8 encodings of the code points \<open>unicode.IsSpace\<close> accepts.
  UTF-8 is self-synchronising, so a leading (trailing) space rune is a leading (trailing)
  occurrence of its encoding, and a stray byte is never one.
\<close>

definition space_encodings :: "string list" where
  "space_encodings =
     [[CHR 0x09], [CHR 0x0A], [CHR 0x0B], [CHR 0x0C], [CHR 0x0D], [CHR 0x20],
      [CHR 0xC2, CHR 0x85], [CHR 0xC2, CHR 0xA0], [CHR 0xE1, CHR 0x9A, CHR 0x80],
      [CHR 0xE2, CHR 0x80, CHR 0x80], [CHR 0xE2, CHR 0x80, CHR 0x81],
      [CHR 0xE2, CHR 0x80, CHR 0x82], [CHR 0xE2, CHR 0x80, CHR 0x83],
      [CHR 0xE2, CHR 0x80, CHR 0x84], [CHR 0xE2, CHR 0x80, CHR 0x85],
      [CHR 0xE2, CHR 0x80, CHR 0x86], [CHR 0xE2, CHR 0x80, CHR 0x87],
      [CHR 0xE2, CHR 0x80, CHR 0x88], [CHR 0xE2, CHR 0x80, CHR 0x89],
      [CHR 0xE2, CHR 0x80, CHR 0x8A], [CHR 0xE2, CHR 0x80, CHR 0xA8],
      [CHR 0xE2, CHR 0x80, CHR 0xA9], [CHR 0xE2, CHR 0x80, CHR 0xAF],
      [CHR 0xE2, CHR 0x81, CHR 0x9F], [CHR 0xE3, CHR 0x80, CHR 0x80]]"

text \<open>Drop leading occurrences of any of the given non-empty words.\<close>

fun trim_left_words :: "nat \<Rightarrow> string list \<Rightarrow> string \<Rightarrow> string" where
  "trim_left_words 0 ws s = s"
| "trim_left_words (Suc n) ws s =
     (case find (\<lambda>w. w \<noteq> [] \<and> has_prefix s w) ws of
        None \<Rightarrow> s
      | Some w \<Rightarrow> trim_left_words n ws (drop (length w) s))"

definition trim_space :: "string \<Rightarrow> string" where
  "trim_space s =
     (let l = trim_left_words (length s) space_encodings s
      in rev (trim_left_words (length l) (map rev space_encodings) (rev l)))"

text \<open>\<open>strings.Fields\<close>: the words between those encodings; the first argument is the rest of one being skipped.\<close>

fun fields_from :: "nat \<Rightarrow> string \<Rightarrow> string \<Rightarrow> string list" where
  "fields_from skip word [] = (if word = [] then [] else [word])"
| "fields_from (Suc k) word (c # cs) = fields_from k word cs"
| "fields_from 0 word (c # cs) =
     (case find (\<lambda>w. has_prefix (c # cs) w) space_encodings of
        Some w \<Rightarrow> (if word = [] then [] else [word]) @ fields_from (length w - 1) [] cs
      | None \<Rightarrow> fields_from 0 (word @ [c]) cs)"

definition str_fields :: "string \<Rightarrow> string list" where "str_fields s = fields_from 0 [] s"

lemma trim_left_words_enough:
  "length s \<le> n \<Longrightarrow> find (\<lambda>w. w \<noteq> [] \<and> has_prefix (trim_left_words n ws s) w) ws = None"
proof (induction n arbitrary: s)
  case 0
  then show ?case by (simp add: find_None_iff has_prefix_def)
next
  case (Suc n)
  show ?case
  proof (cases "find (\<lambda>w. w \<noteq> [] \<and> has_prefix s w) ws")
    case None
    then show ?thesis by simp
  next
    case (Some w)
    then have "w \<noteq> []" by (auto simp: find_Some_iff)
    with Suc.prems have "length (drop (length w) s) \<le> n"
      by (cases w) auto
    from Suc.IH [OF this] Some show ?thesis by simp
  qed
qed

lemma trim_left_words_suffix: "\<exists>p. s = p @ trim_left_words n ws s"
proof (induction n arbitrary: s)
  case (Suc n)
  show ?case
  proof (cases "find (\<lambda>w. w \<noteq> [] \<and> has_prefix s w) ws")
    case (Some w)
    from Suc [of "drop (length w) s"] obtain p
      where "drop (length w) s = p @ trim_left_words n ws (drop (length w) s)" by blast
    then have "s = (take (length w) s @ p) @ trim_left_words n ws (drop (length w) s)"
      by (metis append.assoc append_take_drop_id)
    with Some have "s = (take (length w) s @ p) @ trim_left_words (Suc n) ws s" by simp
    then show ?thesis by blast
  qed simp
qed simp

lemma trim_space_infix: "\<exists>l r. s = l @ trim_space s @ r"
proof -
  let ?l = "trim_left_words (length s) space_encodings s"
  obtain p where p: "s = p @ ?l" using trim_left_words_suffix by blast
  obtain q where "rev ?l = q @ trim_left_words (length ?l) (map rev space_encodings) (rev ?l)"
    using trim_left_words_suffix by blast
  then have "?l = trim_space s @ rev q"
    by (metis rev_append rev_rev_ident trim_space_def)
  with p have "s = p @ trim_space s @ rev q" by metis
  then show ?thesis by blast
qed

lemma set_trim_space: "set (trim_space s) \<subseteq> set s"
  using trim_space_infix [of s] by (metis Un_upper1 Un_upper2 order_trans set_append)

text \<open>ASCII control characters, the bytes the header parsers refuse.\<close>

definition control_byte :: "char \<Rightarrow> bool" where
  "control_byte c \<longleftrightarrow> byte c < 0x20 \<or> byte c = 0x7F"

text \<open>\<open>strconv.FormatInt(n, 10)\<close>.\<close>

definition digit_char :: "nat \<Rightarrow> char" where "digit_char d = char_of (48 + d)"

fun nat_digits :: "nat \<Rightarrow> string" where
  "nat_digits n = (if n < 10 then [digit_char n] else nat_digits (n div 10) @ [digit_char (n mod 10)])"

declare nat_digits.simps [simp del]

definition itoa :: "int \<Rightarrow> string" where
  "itoa n = (if n < 0 then CHR ''-'' # nat_digits (nat (- n)) else nat_digits (nat n))"

text \<open>\<open>strconv.ParseInt(s, 10, 64)\<close>: an optional sign, at least one decimal digit, in range.\<close>

definition digit_of :: "char \<Rightarrow> nat option" where
  "digit_of c = (if 48 \<le> byte c \<and> byte c \<le> 57 then Some (byte c - 48) else None)"

fun parse_digits :: "nat \<Rightarrow> string \<Rightarrow> nat option" where
  "parse_digits acc [] = Some acc"
| "parse_digits acc (c # cs) =
     (case digit_of c of None \<Rightarrow> None | Some d \<Rightarrow> parse_digits (10 * acc + d) cs)"

definition parse_unsigned :: "string \<Rightarrow> nat option" where
  "parse_unsigned s = (if s = [] then None else parse_digits 0 s)"

definition parse_int64 :: "string \<Rightarrow> int option" where
  "parse_int64 s =
     (let (neg, body) =
        (case s of [] \<Rightarrow> (False, [])
         | c # cs \<Rightarrow> if c = CHR ''-'' then (True, cs) else if c = CHR ''+'' then (False, cs) else (False, s))
      in case parse_unsigned body of
           None \<Rightarrow> None
         | Some n \<Rightarrow>
             (let v = (if neg then - int n else int n)
              in if in_int64 v then Some v else None))"

lemma byte_digit_char: "d < 10 \<Longrightarrow> byte (digit_char d) = 48 + d"
  by (simp add: byte_def digit_char_def)

lemma digit_of_digit_char [simp]: "d < 10 \<Longrightarrow> digit_of (digit_char d) = Some d"
  by (simp add: digit_of_def byte_digit_char)

lemma parse_digits_append:
  "parse_digits acc (s @ t) = (case parse_digits acc s of None \<Rightarrow> None | Some a \<Rightarrow> parse_digits a t)"
  by (induction acc s rule: parse_digits.induct) (auto split: option.splits)

lemma parse_nat_digits: "parse_digits 0 (nat_digits n) = Some n"
proof (induction n rule: nat_digits.induct)
  case (1 n)
  show ?case
  proof (cases "n < 10")
    case True
    then show ?thesis by (simp add: nat_digits.simps [of n])
  next
    case False
    with 1 show ?thesis
      by (simp add: nat_digits.simps [of n] parse_digits_append)
  qed
qed

lemma nat_digits_bytes: "c \<in> set (nat_digits n) \<Longrightarrow> 48 \<le> byte c \<and> byte c \<le> 57"
proof (induction n rule: nat_digits.induct)
  case (1 n)
  then show ?case
    by (subst (asm) nat_digits.simps [of n])
      (cases "n < 10", auto simp: byte_digit_char)
qed

lemma nat_digits_Nil [simp]: "nat_digits n \<noteq> []"
  by (subst nat_digits.simps) simp

lemma byte_minus [simp]: "byte (CHR ''-'') = 45" and byte_plus [simp]: "byte (CHR ''+'') = 43"
  and byte_dot [simp]: "byte (CHR ''.'') = 46" and byte_nul [simp]: "byte (CHR 0x00) = 0"
  by (simp_all add: byte_def)

lemma byte_inject: "byte a = byte b \<longleftrightarrow> a = b"
  by (simp add: byte_def)

lemma itoa_bytes: "c \<in> set (itoa n) \<Longrightarrow> byte c = 45 \<or> 48 \<le> byte c \<and> byte c \<le> 57"
  by (auto simp: itoa_def split: if_splits dest: nat_digits_bytes)

lemma itoa_no_dot [simp]: "CHR ''.'' \<notin> set (itoa n)"
  using itoa_bytes [of "CHR ''.''" n] by auto

lemma itoa_no_nul [simp]: "CHR 0x00 \<notin> set (itoa n)"
  using itoa_bytes [of "CHR 0x00" n] by auto

lemma parse_int64_itoa: "in_int64 n \<Longrightarrow> parse_int64 (itoa n) = Some n"
proof (cases "n < 0")
  case True
  assume "in_int64 n"
  with True show ?thesis
    by (simp add: parse_int64_def itoa_def parse_unsigned_def parse_nat_digits)
next
  case False
  assume n: "in_int64 n"
  obtain c cs where c: "nat_digits (nat n) = c # cs"
    by (cases "nat_digits (nat n)") auto
  then have "48 \<le> byte c" using nat_digits_bytes [of c "nat n"] by simp
  then have "c \<noteq> CHR ''-''" and "c \<noteq> CHR ''+''" by auto
  with False n c parse_nat_digits [of "nat n"] show ?thesis
    by (simp add: parse_int64_def itoa_def parse_unsigned_def)
qed

lemma itoa_inject: "itoa m = itoa n \<Longrightarrow> m = n"
proof -
  assume eq: "itoa m = itoa n"
  have neg: "k < 0 \<longleftrightarrow> hd (itoa k) = CHR ''-''" for k
    using nat_digits_bytes [of "hd (nat_digits (nat k))" "nat k"]
    by (auto simp: itoa_def)
  have same: "m < 0 \<longleftrightarrow> n < 0" using eq neg by metis
  have nd: "nat_digits a = nat_digits b \<Longrightarrow> a = b" for a b
    by (metis option.inject parse_nat_digits)
  from eq same show "m = n"
    by (auto simp: itoa_def split: if_splits dest!: nd)
qed

section \<open>Sorting by a comparator\<close>

text \<open>
  \<open>sort.Slice\<close> leaves a permutation ordered by \<open>lt\<close>. Every comparator the source passes
  breaks ties by a unique key or is used where ties are equal, so the permutation is
  determined; the model is insertion by \<open>lt\<close>.
\<close>

fun insert_by :: "('a \<Rightarrow> 'a \<Rightarrow> bool) \<Rightarrow> 'a \<Rightarrow> 'a list \<Rightarrow> 'a list" where
  "insert_by lt x [] = [x]"
| "insert_by lt x (y # ys) = (if lt y x then y # insert_by lt x ys else x # y # ys)"

definition sort_by :: "('a \<Rightarrow> 'a \<Rightarrow> bool) \<Rightarrow> 'a list \<Rightarrow> 'a list" where
  "sort_by lt xs = foldr (insert_by lt) xs []"

lemma mset_insert_by [simp]: "mset (insert_by lt x ys) = add_mset x (mset ys)"
  by (induction ys) auto

lemma mset_sort_by [simp]: "mset (sort_by lt xs) = mset xs"
  by (induction xs) (simp_all add: sort_by_def)

lemma set_sort_by [simp]: "set (sort_by lt xs) = set xs"
  by (metis mset_sort_by set_mset_mset)

lemma length_sort_by [simp]: "length (sort_by lt xs) = length xs"
  by (metis mset_sort_by size_mset)

lemma sort_by_Nil [simp]: "sort_by lt [] = []"
  by (simp add: sort_by_def)

lemma distinct_sort_by [simp]: "distinct (sort_by lt xs) = distinct xs"
  by (metis mset_eq_imp_distinct_iff mset_sort_by)

text \<open>The contract of a comparator: a strict weak order.\<close>

locale strict_weak_order =
  fixes lt :: "'a \<Rightarrow> 'a \<Rightarrow> bool"
  assumes less_asym: "lt a b \<Longrightarrow> \<not> lt b a"
    and less_neg_trans: "\<not> lt b a \<Longrightarrow> \<not> lt c b \<Longrightarrow> \<not> lt c a"
begin

lemma sorted_insert_by:
  "sorted_wrt (\<lambda>a b. \<not> lt b a) ys \<Longrightarrow> sorted_wrt (\<lambda>a b. \<not> lt b a) (insert_by lt x ys)"
proof (induction ys)
  case Nil
  then show ?case by simp
next
  case (Cons y ys)
  have set: "set (insert_by lt x ys) = insert x (set ys)"
    by (metis mset_insert_by set_mset_add_mset_insert set_mset_mset)
  show ?case
  proof (cases "lt y x")
    case True
    with Cons show ?thesis by (auto simp: set dest: less_asym)
  next
    case False
    with Cons.prems have "\<not> lt z x" if "z \<in> set ys" for z
      using that less_neg_trans [of y x z] by auto
    with False Cons.prems show ?thesis by auto
  qed
qed

lemma sorted_sort_by: "sorted_wrt (\<lambda>a b. \<not> lt b a) (sort_by lt xs)"
  unfolding sort_by_def by (induction xs) (simp_all add: sorted_insert_by)

end

text \<open>Where it tells any two different elements of a list apart, the sorted order is unique.\<close>

context strict_weak_order
begin

lemma sorted_unique_on:
  "sorted_wrt (\<lambda>a b. \<not> lt b a) xs \<Longrightarrow> sorted_wrt (\<lambda>a b. \<not> lt b a) ys \<Longrightarrow> mset xs = mset ys \<Longrightarrow>
   (\<And>a b. a \<in> set xs \<Longrightarrow> b \<in> set xs \<Longrightarrow> a \<noteq> b \<Longrightarrow> lt a b \<or> lt b a) \<Longrightarrow> xs = ys"
proof (induction xs arbitrary: ys)
  case Nil
  then show ?case by simp
next
  case (Cons x xs)
  obtain y zs where ys: "ys = y # zs" using Cons.prems(3) by (cases ys) auto
  have "x = y"
  proof (rule ccontr)
    assume ne: "x \<noteq> y"
    have "y \<in> set xs" and "x \<in> set zs"
      using Cons.prems(3) ne ys
      by (metis insert_iff list.set(2) mset_eq_setD)+
    with Cons.prems(1,2) ys ne show False using Cons.prems(4) [of x y] by auto
  qed
  with Cons ys show ?case by simp
qed

lemma sort_by_unique_on:
  "mset xs = mset ys \<Longrightarrow> (\<And>a b. a \<in> set xs \<Longrightarrow> b \<in> set xs \<Longrightarrow> a \<noteq> b \<Longrightarrow> lt a b \<or> lt b a) \<Longrightarrow>
   sort_by lt xs = sort_by lt ys"
  by (rule sorted_unique_on [OF sorted_sort_by sorted_sort_by]) simp_all

end

text \<open>A comparator that also distinguishes any two different elements orders them uniquely.\<close>

locale strict_total_order = strict_weak_order +
  assumes less_total: "a \<noteq> b \<Longrightarrow> lt a b \<or> lt b a"
begin

lemma sorted_unique:
  "sorted_wrt (\<lambda>a b. \<not> lt b a) xs \<Longrightarrow> sorted_wrt (\<lambda>a b. \<not> lt b a) ys \<Longrightarrow> mset xs = mset ys \<Longrightarrow> xs = ys"
  by (rule sorted_unique_on) (auto dest: less_total)

lemma sort_by_unique: "mset xs = mset ys \<Longrightarrow> sort_by lt xs = sort_by lt ys"
  by (rule sorted_unique [OF sorted_sort_by sorted_sort_by]) simp

end

text \<open>\<open>sort.Strings\<close>.\<close>

definition str_less :: "string \<Rightarrow> string \<Rightarrow> bool" where "str_less a b \<longleftrightarrow> a < b"

definition sort_strings :: "string list \<Rightarrow> string list" where "sort_strings = sort_by str_less"

interpretation strings: strict_total_order str_less
  by unfold_locales (auto simp: str_less_def)

lemma set_sort_strings [simp]: "set (sort_strings xs) = set xs"
  by (simp add: sort_strings_def)

lemma distinct_sort_strings [simp]: "distinct (sort_strings xs) = distinct xs"
  by (simp add: sort_strings_def)

section \<open>Association lists as Go maps\<close>

definition mput :: "'k \<Rightarrow> 'v \<Rightarrow> ('k, 'v) gomap \<Rightarrow> ('k, 'v) gomap" where
  "mput k v m = AList.update k v m"

definition mdel :: "'k \<Rightarrow> ('k, 'v) gomap \<Rightarrow> ('k, 'v) gomap" where
  "mdel k m = AList.delete k m"

definition mget :: "('k, 'v) gomap \<Rightarrow> 'k \<Rightarrow> 'v option" where
  "mget m k = map_of m k"

definition mkeys :: "('k, 'v) gomap \<Rightarrow> 'k list" where
  "mkeys m = map fst m"

definition map_ok :: "('k, 'v) gomap \<Rightarrow> bool" where
  "map_ok m \<longleftrightarrow> distinct (map fst m)"

lemma mget_mput [simp]: "mget (mput k v m) j = (if j = k then Some v else mget m j)"
  by (simp add: mget_def mput_def update_conv')

lemma mget_mdel [simp]: "mget (mdel k m) j = (if j = k then None else mget m j)"
  by (simp add: mget_def mdel_def delete_conv')

lemma mget_Nil [simp]: "mget [] k = None"
  by (simp add: mget_def)

lemma map_ok_Nil [simp]: "map_ok []"
  by (simp add: map_ok_def)

lemma map_ok_mput [simp, go_intros]: "map_ok m \<Longrightarrow> map_ok (mput k v m)"
  by (simp add: map_ok_def mput_def distinct_update)

lemma map_ok_mdel [simp, go_intros]: "map_ok m \<Longrightarrow> map_ok (mdel k m)"
  by (simp add: map_ok_def mdel_def distinct_delete)

lemma mget_in_set: "mget m k = Some v \<Longrightarrow> (k, v) \<in> set m"
  by (simp add: mget_def map_of_SomeD)

lemma mget_of_set: "map_ok m \<Longrightarrow> (k, v) \<in> set m \<Longrightarrow> mget m k = Some v"
  by (simp add: mget_def map_ok_def)

lemma mget_None_iff: "mget m k = None \<longleftrightarrow> k \<notin> set (mkeys m)"
  by (simp add: mget_def mkeys_def map_of_eq_None_iff)

lemma mkeys_iff: "k \<in> set (mkeys m) \<longleftrightarrow> (\<exists>v. mget m k = Some v)"
  using mget_None_iff [of m k] by auto

lemma mdel_filter: "mdel k m = filter (\<lambda>p. fst p \<noteq> k) m"
  by (simp add: mdel_def AList.delete_eq case_prod_unfold eq_commute)

lemma mput_new: "mget m k = None \<Longrightarrow> mput k v m = m @ [(k, v)]"
  by (induction m) (auto simp: mput_def mget_def split: if_splits)

lemma mput_old_keys: "mget m k \<noteq> None \<Longrightarrow> mkeys (mput k v m) = mkeys m"
  by (induction m) (auto simp: mput_def mget_def mkeys_def split: if_splits)

lemma mkeys_mput: "set (mkeys (mput k v m)) = insert k (set (mkeys m))"
  by (auto simp: mkeys_iff split: if_splits)

lemma mkeys_mdel: "set (mkeys (mdel k m)) = set (mkeys m) - {k}"
  by (auto simp: mkeys_iff split: if_splits)

section \<open>UTF-8\<close>

definition continuation :: "char \<Rightarrow> bool" where
  "continuation c \<longleftrightarrow> 0x80 \<le> byte c \<and> byte c \<le> 0xBF"

text \<open>\<open>utf8.ValidString\<close>: the length of a well-formed encoding at the head, by its first bytes.\<close>

definition rune_length :: "string \<Rightarrow> nat option" where
  "rune_length s =
     (case s of
        [] \<Rightarrow> None
      | a # s1 \<Rightarrow>
          if byte a < 0x80 then Some 1
          else case s1 of
            [] \<Rightarrow> None
          | b # s2 \<Rightarrow>
              if 0xC2 \<le> byte a \<and> byte a \<le> 0xDF then (if continuation b then Some 2 else None)
              else case s2 of
                [] \<Rightarrow> None
              | c # s3 \<Rightarrow>
                  if 0xE0 \<le> byte a \<and> byte a \<le> 0xEF then
                    (if continuation b \<and> continuation c \<and> (byte a = 0xE0 \<longrightarrow> 0xA0 \<le> byte b) \<and>
                        (byte a = 0xED \<longrightarrow> byte b \<le> 0x9F) then Some 3 else None)
                  else case s3 of
                    [] \<Rightarrow> None
                  | d # s4 \<Rightarrow>
                      if 0xF0 \<le> byte a \<and> byte a \<le> 0xF4 \<and> continuation b \<and> continuation c \<and>
                         continuation d \<and> (byte a = 0xF0 \<longrightarrow> 0x90 \<le> byte b) \<and>
                         (byte a = 0xF4 \<longrightarrow> byte b \<le> 0x8F) then Some 4 else None)"

fun valid_utf8_from :: "nat \<Rightarrow> string \<Rightarrow> bool" where
  "valid_utf8_from 0 s \<longleftrightarrow> s = []"
| "valid_utf8_from (Suc n) s \<longleftrightarrow>
     s = [] \<or> (case rune_length s of None \<Rightarrow> False | Some k \<Rightarrow> valid_utf8_from n (drop k s))"

definition valid_utf8 :: "string \<Rightarrow> bool" where "valid_utf8 s \<longleftrightarrow> valid_utf8_from (length s) s"

section \<open>Decoded JSON\<close>

text \<open>
  What \<open>encoding/json\<close> decodes into an \<open>any\<close>. The numbers are left abstract; an object is an
  association list with distinct keys.
\<close>

datatype 'n json =
    JNull
  | JBool bool
  | JNumber 'n
  | JString string
  | JArray "'n json list"
  | JObject "(string \<times> 'n json) list"

section \<open>Binary search\<close>

text \<open>\<open>sort.Search\<close>: the loop over \<open>[i, j)\<close>.\<close>

function search_between :: "(nat \<Rightarrow> bool) \<Rightarrow> nat \<Rightarrow> nat \<Rightarrow> nat" where
  "search_between f i j =
     (if i < j then
        let h = (i + j) div 2
        in if f h then search_between f i h else search_between f (h + 1) j
      else i)"
  by auto
termination
  by (relation "measure (\<lambda>(f, i, j). j - i)") auto

declare search_between.simps [simp del]

definition sort_search :: "nat \<Rightarrow> (nat \<Rightarrow> bool) \<Rightarrow> nat" where
  "sort_search n f = search_between f 0 n"

lemma search_between_least:
  assumes mono: "\<And>a b. a \<le> b \<Longrightarrow> b < n \<Longrightarrow> f a \<Longrightarrow> f b"
  shows "i \<le> j \<Longrightarrow> j \<le> n \<Longrightarrow> \<forall>k<i. \<not> f k \<Longrightarrow> (j < n \<longrightarrow> f j) \<Longrightarrow>
    search_between f i j \<le> n \<and> (\<forall>k<search_between f i j. \<not> f k) \<and>
    (search_between f i j < n \<longrightarrow> f (search_between f i j))"
proof (induction "j - i" arbitrary: i j rule: less_induct)
  case less
  show ?case
  proof (cases "i < j")
    case True
    define h where "h = (i + j) div 2"
    from True have h: "i \<le> h" "h < j" by (simp_all add: h_def)
    have step: "search_between f i j =
        (if f h then search_between f i h else search_between f (h + 1) j)"
      using True by (simp add: search_between.simps [of f i j] h_def Let_def)
    show ?thesis
    proof (cases "f h")
      case fh: True
      then have eq: "search_between f i j = search_between f i h" by (simp add: step)
      show ?thesis unfolding eq
        by (rule less.hyps) (use less.prems h fh in simp_all)
    next
      case False
      have "\<not> f k" if "k < h + 1" for k
      proof
        assume "f k"
        moreover have "k \<le> h" and "h < n" using that h(2) less.prems(2) by simp_all
        ultimately have "f h" using mono by blast
        with False show False by blast
      qed
      then have below: "\<forall>k<h + 1. \<not> f k" by blast
      have eq: "search_between f i j = search_between f (h + 1) j" using False by (simp add: step)
      show ?thesis unfolding eq
        by (rule less.hyps [OF _ _ _ below]) (use less.prems(2,4) h in simp_all)
    qed
  next
    case False
    then have "search_between f i j = i" by (simp add: search_between.simps [of f i j])
    with less.prems False show ?thesis by simp
  qed
qed

lemma sort_search_least:
  assumes "\<And>a b. a \<le> b \<Longrightarrow> b < n \<Longrightarrow> f a \<Longrightarrow> f b"
  shows "sort_search n f \<le> n" and "k < sort_search n f \<Longrightarrow> \<not> f k"
    and "sort_search n f < n \<Longrightarrow> f (sort_search n f)"
  using search_between_least [of n f 0 n] assms by (simp_all add: sort_search_def)

section \<open>Lists\<close>

lemma split_at_first:
  "a @ x # c = b @ x # d \<Longrightarrow> x \<notin> set a \<Longrightarrow> x \<notin> set b \<Longrightarrow> a = b \<and> c = d"
proof (induction a arbitrary: b)
  case Nil
  then show ?case by (cases b) auto
next
  case (Cons y a)
  then show ?case by (cases b) auto
qed

lemma sum_list_filter_split:
  "sum_list (map f (filter P xs)) + sum_list (map f (filter (\<lambda>x. \<not> P x) xs)) = sum_list (map f xs)"
  for f :: "'a \<Rightarrow> int"
  by (induction xs) auto

lemma sum_list_nonneg_int: "(\<And>x. x \<in> set xs \<Longrightarrow> 0 \<le> f x) \<Longrightarrow> 0 \<le> sum_list (map f xs)"
  for f :: "'a \<Rightarrow> int"
  by (induction xs) (auto intro: add_nonneg_nonneg)

end
