(* ===== verification/Redact.thy ===== *)
theory Redact
  imports Prelude
begin

text \<open>
  \<open>internal/redact/redact.go\<close>: the closed error categories and the only string form of an
  error that may cross an output boundary. Go's \<open>error\<close> values are the datatype
  \<open>go_error\<close>: the two categorized error types of the repository (\<open>redact.Error\<close>, and
  \<open>failure\<close> of \<open>internal/evidence/client.go\<close>), the two sentinels of package
  \<open>context\<close>, and any other error with its text and what it wraps (one error with
  \<open>fmt.Errorf("%w")\<close>, several with \<open>errors.Join\<close>).
\<close>

section \<open>Categories\<close>

datatype category =
    CategoryCanceled | CategoryTimeout | CategoryForbidden
  | CategoryNotFound | CategoryUnavailable | CategoryInternal

fun category_string :: "category \<Rightarrow> string" where
  "category_string CategoryCanceled = ''canceled''"
| "category_string CategoryTimeout = ''timeout''"
| "category_string CategoryForbidden = ''forbidden''"
| "category_string CategoryNotFound = ''notfound''"
| "category_string CategoryUnavailable = ''unavailable''"
| "category_string CategoryInternal = ''internal''"

definition all_categories :: "category list" where
  "all_categories = [CategoryCanceled, CategoryTimeout, CategoryForbidden, CategoryNotFound,
     CategoryUnavailable, CategoryInternal]"

section \<open>The evidence consumer's failure kinds\<close>

datatype failure_kind =
    FailureNone | FailureUnavailable | FailureTimeout | FailureCanceled
  | FailureUnauthenticated | FailureBusy | FailureIncompatible | FailureInvalid
  | FailureIdentityMismatch | FailurePublicationChanged

fun failure_kind_string :: "failure_kind \<Rightarrow> string" where
  "failure_kind_string FailureNone = ''''"
| "failure_kind_string FailureUnavailable = ''unavailable''"
| "failure_kind_string FailureTimeout = ''timeout''"
| "failure_kind_string FailureCanceled = ''canceled''"
| "failure_kind_string FailureUnauthenticated = ''unauthenticated''"
| "failure_kind_string FailureBusy = ''busy''"
| "failure_kind_string FailureIncompatible = ''incompatible-schema''"
| "failure_kind_string FailureInvalid = ''invalid-response''"
| "failure_kind_string FailureIdentityMismatch = ''identity-mismatch''"
| "failure_kind_string FailurePublicationChanged = ''publication-changed''"

fun failure_category :: "failure_kind \<Rightarrow> category" where
  "failure_category FailureTimeout = CategoryTimeout"
| "failure_category FailureCanceled = CategoryCanceled"
| "failure_category FailureUnauthenticated = CategoryForbidden"
| "failure_category FailureUnavailable = CategoryUnavailable"
| "failure_category FailureBusy = CategoryUnavailable"
| "failure_category FailureIncompatible = CategoryUnavailable"
| "failure_category FailurePublicationChanged = CategoryUnavailable"
| "failure_category _ = CategoryInternal"

section \<open>Errors\<close>

datatype go_error =
    RedactError (err_op: string) (err_cat: category) (err_cause: "go_error option")
  | EvidenceFailure (err_kind: failure_kind) (failure_cause: "go_error option")
  | ContextCanceled
  | ContextDeadlineExceeded
  | OtherError (err_text: string) (err_wraps: "go_error list")

text \<open>\<open>NewError\<close>, and \<open>Error()\<close> of each kind.\<close>

definition new_error :: "string \<Rightarrow> category \<Rightarrow> go_error option \<Rightarrow> go_error" where
  "new_error op cat cause = RedactError op cat cause"

fun error_string :: "go_error \<Rightarrow> string" where
  "error_string (RedactError op cat cause) = op @ '': '' @ category_string cat"
| "error_string (EvidenceFailure kind cause) = ''evidence: '' @ failure_kind_string kind"
| "error_string ContextCanceled = ''context canceled''"
| "error_string ContextDeadlineExceeded = ''context deadline exceeded''"
| "error_string (OtherError text es) = text"

fun unwrap :: "go_error \<Rightarrow> go_error list" where
  "unwrap (RedactError op cat cause) = (case cause of None \<Rightarrow> [] | Some e \<Rightarrow> [e])"
| "unwrap (EvidenceFailure kind cause) = (case cause of None \<Rightarrow> [] | Some e \<Rightarrow> [e])"
| "unwrap (OtherError text es) = es"
| "unwrap _ = []"

fun first_some :: "'a option list \<Rightarrow> 'a option" where
  "first_some [] = None"
| "first_some (Some x # xs) = Some x"
| "first_some (None # xs) = first_some xs"

text \<open>
  \<open>errors.As(err, &c)\<close> for a \<open>Categorizer\<close> and for \<open>*failure\<close>: depth-first along the
  wrapped errors, the first one of the asked type.
\<close>

fun as_categorizer :: "go_error \<Rightarrow> category option" where
  "as_categorizer (RedactError op cat cause) = Some cat"
| "as_categorizer (EvidenceFailure kind cause) = Some (failure_category kind)"
| "as_categorizer ContextCanceled = None"
| "as_categorizer ContextDeadlineExceeded = None"
| "as_categorizer (OtherError text es) = first_some (map as_categorizer es)"

fun as_failure :: "go_error \<Rightarrow> failure_kind option" where
  "as_failure (RedactError op cat None) = None"
| "as_failure (RedactError op cat (Some e)) = as_failure e"
| "as_failure (EvidenceFailure kind cause) = Some kind"
| "as_failure ContextCanceled = None"
| "as_failure ContextDeadlineExceeded = None"
| "as_failure (OtherError text es) = first_some (map as_failure es)"

text \<open>\<open>errors.Is(err, target)\<close> for one of the two sentinels.\<close>

fun error_is :: "go_error \<Rightarrow> go_error \<Rightarrow> bool" where
  "error_is target (RedactError op cat None) \<longleftrightarrow> False"
| "error_is target (RedactError op cat (Some e)) \<longleftrightarrow> error_is target e"
| "error_is target (EvidenceFailure kind None) \<longleftrightarrow> False"
| "error_is target (EvidenceFailure kind (Some e)) \<longleftrightarrow> error_is target e"
| "error_is target ContextCanceled \<longleftrightarrow> target = ContextCanceled"
| "error_is target ContextDeadlineExceeded \<longleftrightarrow> target = ContextDeadlineExceeded"
| "error_is target (OtherError text es) \<longleftrightarrow> list_ex (error_is target) es"

definition categorize :: "go_error \<Rightarrow> category" where
  "categorize err =
     (case as_categorizer err of
        Some cat \<Rightarrow> cat
      | None \<Rightarrow>
          if error_is ContextCanceled err then CategoryCanceled
          else if error_is ContextDeadlineExceeded err then CategoryTimeout
          else CategoryInternal)"

definition safe :: "go_error option \<Rightarrow> string" where
  "safe err = (case err of None \<Rightarrow> '''' | Some e \<Rightarrow> category_string (categorize e))"

text \<open>\<open>KindOf\<close> of the evidence client.\<close>

definition kind_of :: "go_error \<Rightarrow> failure_kind" where
  "kind_of err =
     (case as_failure err of
        Some kind \<Rightarrow> kind
      | None \<Rightarrow>
          (case categorize err of
             CategoryTimeout \<Rightarrow> FailureTimeout
           | CategoryCanceled \<Rightarrow> FailureCanceled
           | _ \<Rightarrow> FailureUnavailable))"

section \<open>Only the category crosses the boundary\<close>

text \<open>
  Replacing every operation label and every error text, wrapped ones included, leaves the
  error's shape; what \<open>safe\<close> returns depends on that shape alone.
\<close>

fun relabel :: "(string \<Rightarrow> string) \<Rightarrow> go_error \<Rightarrow> go_error" where
  "relabel f (RedactError op cat None) = RedactError (f op) cat None"
| "relabel f (RedactError op cat (Some e)) = RedactError (f op) cat (Some (relabel f e))"
| "relabel f (EvidenceFailure kind None) = EvidenceFailure kind None"
| "relabel f (EvidenceFailure kind (Some e)) = EvidenceFailure kind (Some (relabel f e))"
| "relabel f ContextCanceled = ContextCanceled"
| "relabel f ContextDeadlineExceeded = ContextDeadlineExceeded"
| "relabel f (OtherError text es) = OtherError (f text) (map (relabel f) es)"

lemma as_categorizer_relabel [simp]: "as_categorizer (relabel f e) = as_categorizer e"
  by (induction f e rule: relabel.induct) (simp_all add: o_def cong: map_cong)

lemma as_failure_relabel [simp]: "as_failure (relabel f e) = as_failure e"
  by (induction f e rule: relabel.induct) (simp_all add: o_def cong: map_cong)

lemma error_is_relabel [simp]: "error_is t (relabel f e) = error_is t e"
  by (induction f e rule: relabel.induct) (auto simp: list_ex_iff)

lemma categorize_relabel [simp]: "categorize (relabel f e) = categorize e"
  by (simp add: categorize_def)

lemma kind_of_relabel [simp]: "kind_of (relabel f e) = kind_of e"
  by (cases "as_failure e") (simp_all add: kind_of_def)

lemma category_string_mem: "category_string c \<in> set (map category_string all_categories)"
  by (cases c) (simp_all add: all_categories_def)

lemma category_string_inject: "category_string a = category_string b \<longleftrightarrow> a = b"
  by (cases a; cases b; simp)

lemma category_string_nonempty [simp]: "category_string c \<noteq> ''''"
  by (cases c) simp_all

lemma safe_Some_nonempty [simp]: "safe (Some e) \<noteq> ''''"
  by (simp add: safe_def)

text \<open>
  The string form of an error that leaves the process is one of the six category names
  (empty for no error), and no text of the error or of anything it wraps influences it:
  errors that differ only in operation labels and texts are rendered alike. The same holds
  of the evidence consumer's failure kind.
\<close>

theorem safe_reveals_only_the_category:
  "safe err \<in> insert '''' (set (map category_string all_categories)) \<and>
   safe (map_option (relabel f) err) = safe err \<and>
   map_option (kind_of \<circ> relabel f) err = map_option kind_of err"
  by (cases err) (simp_all add: safe_def category_string_mem del: set_map)

end
