(* ===== verification/Authz.thy ===== *)
theory Authz
  imports Redact
begin

text \<open>
  \<open>internal/authz/authz.go\<close> and \<open>internal/identity/identity.go\<close>: the ordered capability
  ladder, the total and closed parsing of the proxy-asserted level, and the extraction of the
  forwarded identity.
\<close>

section \<open>The ladder\<close>

datatype tier = TierNone | TierView | TierPowerUser | TierDBA

fun tier_rank :: "tier \<Rightarrow> nat" where
  "tier_rank TierNone = 0"
| "tier_rank TierView = 1"
| "tier_rank TierPowerUser = 2"
| "tier_rank TierDBA = 3"

instantiation tier :: linorder
begin

definition less_eq_tier :: "tier \<Rightarrow> tier \<Rightarrow> bool" where
  "a \<le> b \<longleftrightarrow> tier_rank a \<le> tier_rank b"

definition less_tier :: "tier \<Rightarrow> tier \<Rightarrow> bool" where
  "a < b \<longleftrightarrow> tier_rank a < tier_rank b"

instance
proof
  fix x y :: tier
  show "x \<le> y \<Longrightarrow> y \<le> x \<Longrightarrow> x = y"
    by (cases x; cases y; simp add: less_eq_tier_def)
qed (auto simp: less_eq_tier_def less_tier_def)

end

lemma tier_less_simps [simp]:
  "TierNone < TierView" "TierView < TierPowerUser" "TierPowerUser < TierDBA"
  "t < TierView \<longleftrightarrow> t = TierNone" "TierDBA \<le> t \<longleftrightarrow> t = TierDBA"
  "\<not> t < TierNone" "TierNone \<le> t" "t \<le> TierDBA"
  by (cases t; simp add: less_tier_def less_eq_tier_def)+

definition level_view :: string where "level_view = ''view''"
definition level_poweruser :: string where "level_poweruser = ''poweruser''"
definition level_dba :: string where "level_dba = ''dba''"

definition grantable_levels :: "string list" where
  "grantable_levels = [level_view, level_poweruser, level_dba]"

fun tier_string :: "tier \<Rightarrow> string" where
  "tier_string TierView = ''view''"
| "tier_string TierPowerUser = ''poweruser''"
| "tier_string TierDBA = ''dba''"
| "tier_string TierNone = ''none''"

text \<open>
  \<open>ParseLevel\<close>. The loop visits runes; a rune below \<open>0x20\<close> or equal to \<open>0x7F\<close> is a single
  byte, and no byte of a longer (or malformed) encoding is one of these, so the test is on bytes.
\<close>

definition parse_level :: "string \<Rightarrow> tier" where
  "parse_level raw =
     (if list_ex control_byte raw then TierNone
      else let t = trim_space raw in
        if t = level_view then TierView
        else if t = level_poweruser then TierPowerUser
        else if t = level_dba then TierDBA
        else TierNone)"

lemmas level_defs = level_view_def level_poweruser_def level_dba_def

text \<open>
  Parsing of the asserted level is closed: a tier other than none comes only from a
  value that has no control byte and is, up to surrounding white space, exactly that tier's
  own level name; in particular an absent (empty) value gives no tier.
\<close>

theorem parse_level_closed:
  "(parse_level raw = t \<and> t \<noteq> TierNone) \<longleftrightarrow>
     (\<not> list_ex control_byte raw \<and> trim_space raw = tier_string t \<and>
      trim_space raw \<in> set grantable_levels)"
  by (cases t) (auto simp: parse_level_def Let_def grantable_levels_def level_defs)

lemma trim_space_level:
  "s \<in> set grantable_levels \<Longrightarrow> trim_space s = s"
  by (auto simp: grantable_levels_def level_defs trim_space_def space_encodings_def has_prefix_def
      eval_nat_numeral)

lemma parse_level_levels:
  "parse_level level_view = TierView" "parse_level level_poweruser = TierPowerUser"
  "parse_level level_dba = TierDBA"
  by (simp_all add: parse_level_def trim_space_level [unfolded grantable_levels_def]
      Let_def level_defs control_byte_def byte_def)

lemma parse_level_empty [simp]: "parse_level '''' = TierNone"
  by (simp add: parse_level_def trim_space_def level_defs)

section \<open>The forwarded identity\<close>

definition max_user_length :: nat where "max_user_length = 512"

text \<open>\<open>sanitize\<close>: trim first, then refuse any control byte left inside.\<close>

definition sanitize :: "string \<Rightarrow> string" where
  "sanitize s = (let t = trim_space s in if list_ex control_byte t then '''' else t)"

text \<open>\<open>FromRequest\<close>: the extractor is the header name, the request its header lookup.\<close>

definition from_request :: "string \<Rightarrow> (string \<Rightarrow> string) \<Rightarrow> string option" where
  "from_request user_header header =
     (if user_header = '''' then None
      else let user = sanitize (header user_header) in
        if user = '''' \<or> length user > max_user_length then None
        else Some user)"

lemma sanitize_no_control: "\<not> list_ex control_byte (sanitize s)"
  by (simp add: sanitize_def Let_def)

text \<open>
  An extracted identity is never empty, never longer than the bound, never contains a
  control byte, and is a contiguous piece of the forwarded header value; with extraction
  disabled there is none.
\<close>

theorem from_request_sound:
  assumes "from_request user_header header = Some user"
  shows "user_header \<noteq> '''' \<and> user \<noteq> '''' \<and> length user \<le> max_user_length \<and>
    \<not> list_ex control_byte user \<and> (\<exists>l r. header user_header = l @ user @ r)"
proof -
  from assms have h: "user_header \<noteq> ''''" and u: "user = sanitize (header user_header)"
    and ne: "user \<noteq> ''''" and len: "length user \<le> max_user_length"
    by (auto simp: from_request_def Let_def split: if_splits)
  from u ne have "user = trim_space (header user_header)"
    by (auto simp: sanitize_def Let_def split: if_splits)
  then show ?thesis
    using h ne len sanitize_no_control u trim_space_infix by metis
qed

theorem from_request_sound_witness:
  "''X-Forwarded-User'' \<noteq> '''' \<and> ''ana'' \<noteq> '''' \<and> length ''ana'' \<le> max_user_length \<and>
    \<not> list_ex control_byte ''ana'' \<and> (\<exists>l r. '' ana '' = l @ ''ana'' @ r)"
proof -
  have "from_request ''X-Forwarded-User'' (\<lambda>_. '' ana '') = Some ''ana''"
    by code_simp
  from from_request_sound [OF this] show ?thesis by simp
qed

end
