(* ===== verification/Ops.thy ===== *)
theory Ops
  imports Redact
begin

text \<open>
  \<open>internal/ops\<close>: the confirmation tokens of \<open>csrf.go\<close> and the closed day-2 operation set of
  \<open>ops.go\<close>. The HMAC under the per-process random key is the parameter \<open>mac\<close>, from a message
  to its hex digest. The Kubernetes transport (interface \<open>Writer\<close>) is the parameter
  \<open>writer\<close>: what each call returns. The calls made and the audit lines written are recorded in
  the state \<open>ops_world\<close>.
\<close>

section \<open>Confirmation tokens\<close>

text \<open>\<open>CSRFMaxAge / time.Second\<close>.\<close>

definition csrf_max_age :: duration where "csrf_max_age = 10 * minute"

definition csrf_max_seconds :: int where "csrf_max_seconds = quo csrf_max_age second"

definition mac_message :: "string \<Rightarrow> int \<Rightarrow> string" where
  "mac_message context issued = context @ [CHR 0x00] @ itoa issued"

definition csrf_issue :: "(string \<Rightarrow> string) \<Rightarrow> instant \<Rightarrow> string \<Rightarrow> string" where
  "csrf_issue mac now context =
     (let issued = time_unix now
      in itoa issued @ ''.'' @ mac (mac_message context issued))"

text \<open>\<open>Verify\<close>; the subtraction is \<open>int64\<close> arithmetic on an attacker-supplied time.\<close>

definition csrf_verify :: "(string \<Rightarrow> string) \<Rightarrow> instant \<Rightarrow> string \<Rightarrow> string \<Rightarrow> bool" where
  "csrf_verify mac clock_now context token =
     (case index_byte token (CHR ''.'') of
        None \<Rightarrow> False
      | Some dot \<Rightarrow>
          (case parse_int64 (take dot token) of
             None \<Rightarrow> False
           | Some issued \<Rightarrow>
               (let now = time_unix clock_now; age = wrap64 (now - issued)
                in if age < 0 \<or> age > csrf_max_seconds then False
                   else drop (Suc dot) token = mac (mac_message context issued))))"

lemma csrf_max_seconds [simp]: "csrf_max_seconds = 600"
  by (simp add: csrf_max_seconds_def csrf_max_age_def minute_def second_def quo_def)

lemma mac_message_inject:
  "mac_message c i = mac_message d j \<Longrightarrow> c = d \<and> i = j"
proof -
  assume eq: "mac_message c i = mac_message d j"
  have "rev (itoa i) @ CHR 0x00 # rev c = rev (itoa j) @ CHR 0x00 # rev d"
    using arg_cong [OF eq, of rev] by (simp add: mac_message_def)
  from split_at_first [OF this] have "rev (itoa i) = rev (itoa j) \<and> rev c = rev d"
    by simp
  then show ?thesis using itoa_inject by simp
qed

lemma csrf_verify_issue:
  assumes "in_int64 (time_unix t)"
  shows "csrf_verify mac t' d (csrf_issue mac t c) \<longleftrightarrow>
    0 \<le> wrap64 (time_unix t' - time_unix t) \<and> wrap64 (time_unix t' - time_unix t) \<le> 600 \<and>
    mac (mac_message c (time_unix t)) = mac (mac_message d (time_unix t))"
proof -
  let ?i = "time_unix t"
  have "index_byte (csrf_issue mac t c) (CHR ''.'') = Some (length (itoa ?i))"
    by (simp add: csrf_issue_def Let_def index_byte_append)
  moreover have "take (length (itoa ?i)) (csrf_issue mac t c) = itoa ?i"
    and "drop (Suc (length (itoa ?i))) (csrf_issue mac t c) = mac (mac_message c ?i)"
    by (simp_all add: csrf_issue_def Let_def)
  ultimately show ?thesis
    using assms by (auto simp: csrf_verify_def parse_int64_itoa Let_def)
qed

lemma csrf_verify_parts:
  assumes "csrf_verify mac t' c token"
  obtains dot issued where
    "index_byte token (CHR ''.'') = Some dot" "parse_int64 (take dot token) = Some issued"
    "0 \<le> wrap64 (time_unix t' - issued)" "wrap64 (time_unix t' - issued) \<le> 600"
    "drop (Suc dot) token = mac (mac_message c issued)"
  using assms by (auto simp: csrf_verify_def Let_def split: option.splits if_splits)

lemma wrap64_age:
  assumes "in_int64 now" and "in_int64 issued" and "min_int64 + 600 \<le> now"
    and "0 \<le> wrap64 (now - issued)" and "wrap64 (now - issued) \<le> 600"
  shows "0 \<le> now - issued \<and> now - issued \<le> 600"
proof -
  let ?d = "now - issued"
  have r: "- (2 ^ 64) < ?d" "?d < 2 ^ 64"
    using assms(1,2) by (simp_all add: in_int64_def min_int64_def max_int64_def)
  consider "?d < - (2 ^ 63)" | "- (2 ^ 63) \<le> ?d" "?d < 2 ^ 63" | "2 ^ 63 \<le> ?d" by linarith
  then show ?thesis
  proof cases
    case 1
    with r assms(2,3,5) show ?thesis
      by (simp add: wrap64_below in_int64_def min_int64_def max_int64_def)
  next
    case 2
    then have "wrap64 ?d = ?d"
      by (intro wrap64_id) (simp add: in_int64_def min_int64_def max_int64_def)
    with assms(4,5) show ?thesis by simp
  next
    case 3
    with r assms(4) show ?thesis by (simp add: wrap64_above)
  qed
qed

definition clock_ok :: "instant \<Rightarrow> bool" where
  "clock_ok t \<longleftrightarrow> 0 \<le> time_unix t \<and> time_unix t \<le> max_int64"

lemma clock_ok_int64: "clock_ok t \<Longrightarrow> in_int64 (time_unix t)"
  by (simp add: clock_ok_def in_int64_def min_int64_def)

lemma clock_ok_age: "clock_ok t \<Longrightarrow> clock_ok t' \<Longrightarrow> wrap64 (time_unix t' - time_unix t) = time_unix t' - time_unix t"
  by (intro wrap64_id) (simp add: clock_ok_def in_int64_def min_int64_def max_int64_def)

text \<open>Two messages with one digest: what HMAC-SHA256 makes infeasible to find.\<close>

definition mac_collision :: "(string \<Rightarrow> string) \<Rightarrow> bool" where
  "mac_collision mac \<longleftrightarrow> (\<exists>m m'. m \<noteq> m' \<and> mac m = mac m')"

text \<open>
  What the two executors (operations and access review) rely on: a token issued for a context
  verifies for it within the age bound, and verifies for no other context and at no other time
  unless two messages collide.
\<close>

locale token_guard =
  fixes issue :: "instant \<Rightarrow> string \<Rightarrow> string"
    and verify :: "instant \<Rightarrow> string \<Rightarrow> string \<Rightarrow> bool"
    and collision :: bool
  assumes verify_fresh:
      "clock_ok t \<Longrightarrow> clock_ok t' \<Longrightarrow> 0 \<le> time_unix t' - time_unix t \<Longrightarrow>
       time_unix t' - time_unix t \<le> 600 \<Longrightarrow> verify t' c (issue t c)"
    and verify_window:
      "clock_ok t \<Longrightarrow> clock_ok t' \<Longrightarrow> verify t' d (issue t c) \<Longrightarrow>
       0 \<le> time_unix t' - time_unix t \<and> time_unix t' - time_unix t \<le> 600"
    and verify_binds:
      "clock_ok t \<Longrightarrow> clock_ok t' \<Longrightarrow> verify t' d (issue t c) \<Longrightarrow> \<not> collision \<Longrightarrow> c = d"
begin

text \<open>A client that encodes its subjects injectively inherits the binding.\<close>

lemma encoded_binds:
  assumes "inj_on enc A" and "x \<in> A" and "y \<in> A"
    and "clock_ok t" and "clock_ok t'" and "\<not> collision"
  shows "verify t' (enc y) (issue t (enc x)) \<longleftrightarrow>
    x = y \<and> 0 \<le> time_unix t' - time_unix t \<and> time_unix t' - time_unix t \<le> 600"
  using assms verify_fresh verify_window verify_binds by (metis inj_onD)

end

interpretation csrf: token_guard "csrf_issue mac" "csrf_verify mac" "mac_collision mac" for mac
proof
  fix t t' c d
  assume t: "clock_ok t" and t': "clock_ok t'"
  note iff = csrf_verify_issue [OF clock_ok_int64 [OF t], of mac t'] clock_ok_age [OF t t']
  show "0 \<le> time_unix t' - time_unix t \<Longrightarrow> time_unix t' - time_unix t \<le> 600 \<Longrightarrow>
      csrf_verify mac t' c (csrf_issue mac t c)"
    by (simp add: iff)
  assume v: "csrf_verify mac t' d (csrf_issue mac t c)"
  then show "0 \<le> time_unix t' - time_unix t \<and> time_unix t' - time_unix t \<le> 600"
    by (simp add: iff)
  assume "\<not> mac_collision mac"
  with v have "mac_message c (time_unix t) = mac_message d (time_unix t)"
    by (auto simp: iff mac_collision_def)
  then show "c = d" by (rule mac_message_inject [THEN conjunct1])
qed

section \<open>The closed operation set\<close>

type_synonym op_id = string

definition op_backup :: op_id where "op_backup = ''backup''"
definition op_reload :: op_id where "op_reload = ''reload''"
definition op_restart :: op_id where "op_restart = ''restart''"
definition op_promote :: op_id where "op_promote = ''promote''"

lemmas op_defs = op_backup_def op_reload_def op_restart_def op_promote_def

record descriptor =
  desc_id :: op_id
  desc_title :: string
  desc_summary :: string
  needs_instance :: bool

definition catalog :: "descriptor list" where
  "catalog =
     [\<lparr>desc_id = op_backup, desc_title = ''Request on-demand backup'',
        desc_summary = ''Creates one Backup resource referencing this cluster.'',
        needs_instance = False\<rparr>,
      \<lparr>desc_id = op_reload, desc_title = ''Reload configuration'',
        desc_summary = ''Triggers a configuration reload across the cluster.'',
        needs_instance = False\<rparr>,
      \<lparr>desc_id = op_restart, desc_title = ''Restart cluster'',
        desc_summary = ''Triggers a rolling restart of every instance.'',
        needs_instance = False\<rparr>,
      \<lparr>desc_id = op_promote, desc_title = ''Promote a replica (switchover)'',
        desc_summary = ''Switches the primary role to the chosen instance.'',
        needs_instance = True\<rparr>]"

definition describe :: "op_id \<Rightarrow> descriptor option" where
  "describe op = find (\<lambda>d. desc_id d = op) catalog"

section \<open>The executor\<close>

datatype writer_call =
    CreateBackup string
  | ReloadCluster instant
  | RestartCluster instant
  | PromoteInstance string instant

type_synonym writer = "writer_call \<Rightarrow> go_error option"

record identity =
  id_user :: string
  id_verified :: bool

record audit_line =
  audit_operation :: op_id
  audit_target :: string
  audit_outcome :: string
  audit_actor :: string
  audit_verification :: string

record ops_world =
  ops_calls :: "writer_call list"
  ops_audits :: "audit_line list"

definition op_context :: "op_id \<Rightarrow> string \<Rightarrow> string" where
  "op_context op target = op @ [CHR 0x00] @ target"

definition executor_issue :: "(string \<Rightarrow> string) \<Rightarrow> instant \<Rightarrow> op_id \<Rightarrow> string \<Rightarrow> string" where
  "executor_issue mac now op target = csrf_issue mac now (op_context op target)"

definition executor_verify :: "(string \<Rightarrow> string) \<Rightarrow> instant \<Rightarrow> op_id \<Rightarrow> string \<Rightarrow> string \<Rightarrow> bool" where
  "executor_verify mac now op target token = csrf_verify mac now (op_context op target) token"

definition backup_name :: "instant \<Rightarrow> string" where
  "backup_name now = ''ondemand-'' @ itoa (time_unix now)"

definition op_call :: "op_id \<Rightarrow> string \<Rightarrow> instant \<Rightarrow> writer_call option" where
  "op_call op target now =
     (if op = op_backup then Some (CreateBackup (backup_name now))
      else if op = op_reload then Some (ReloadCluster now)
      else if op = op_restart then Some (RestartCluster now)
      else if op = op_promote then Some (PromoteInstance target now)
      else None)"

definition ops_audit :: "op_id \<Rightarrow> string \<Rightarrow> string \<Rightarrow> identity \<Rightarrow> ops_world \<Rightarrow> ops_world" where
  "ops_audit op target outcome actor w =
     w\<lparr>ops_audits := ops_audits w @
        [\<lparr>audit_operation = op, audit_target = target, audit_outcome = outcome,
          audit_actor = id_user actor,
          audit_verification = (if id_verified actor then ''proxy-asserted'' else ''unverified'')\<rparr>]\<rparr>"

definition run_writer :: "writer \<Rightarrow> writer_call option \<Rightarrow> ops_world \<Rightarrow> go_error option \<times> ops_world" where
  "run_writer wr call w =
     (case call of
        None \<Rightarrow> (None, w)
      | Some c \<Rightarrow> (wr c, w\<lparr>ops_calls := ops_calls w @ [c]\<rparr>))"

definition execute ::
  "writer \<Rightarrow> instant \<Rightarrow> op_id \<Rightarrow> string \<Rightarrow> identity \<Rightarrow> ops_world \<Rightarrow> (string \<times> go_error option) \<times> ops_world" where
  "execute wr now op target actor w =
     (case describe op of
        None \<Rightarrow> ((''rejected'', Some (new_error ''operation'' CategoryNotFound None)), w)
      | Some desc \<Rightarrow>
          if needs_instance desc \<and> target = ''''
          then ((''rejected'', Some (new_error ''operation'' CategoryInternal None)), w)
          else
            let (err, w1) = run_writer wr (op_call op target now) w;
                outcome = (if err \<noteq> None then safe err else ''accepted'')
            in ((outcome, err), ops_audit op target outcome actor w1))"

lemma describe_Some_id: "describe op = Some d \<Longrightarrow> desc_id d = op"
  by (auto simp: describe_def find_Some_iff)

lemma describe_cases:
  "describe op \<noteq> None \<longleftrightarrow> op \<in> {op_backup, op_reload, op_restart, op_promote}"
  by (auto simp: describe_def catalog_def op_defs)

lemma describe_op_call: "describe op = Some d \<Longrightarrow> \<exists>c. op_call op target now = Some c"
  using describe_cases [of op] by (auto simp: op_call_def)

lemma catalog_needs_instance: "d \<in> set catalog \<Longrightarrow> needs_instance d \<longleftrightarrow> desc_id d = op_promote"
  by (auto simp: catalog_def op_defs)

lemma needs_instance_iff: "describe op = Some d \<Longrightarrow> needs_instance d \<longleftrightarrow> op = op_promote"
  using catalog_needs_instance [of d] unfolding describe_def find_Some_iff
  by (metis nth_mem)

lemma describe_no_nul: "describe op \<noteq> None \<Longrightarrow> CHR 0x00 \<notin> set op"
  using describe_cases [of op] by (auto simp: op_defs)

lemma op_context_inj: "inj_on (\<lambda>(op, target). op_context op target) {(op, target). describe op \<noteq> None}"
proof (rule inj_onI, clarify)
  fix a b a' b' d d'
  assume "describe a = Some d" "describe a' = Some d'" and eq: "op_context a b = op_context a' b'"
  then have "CHR 0x00 \<notin> set a" "CHR 0x00 \<notin> set a'"
    using describe_no_nul by simp_all
  with eq show "a = a' \<and> b = b'"
    using split_at_first [of a "CHR 0x00" b a' b'] by (simp add: op_context_def)
qed

text \<open>
  A confirmation token opens exactly the operation and target it was issued for, and only
  in the ten minutes after: for catalogued operations, verifying at a later time a token issued
  for one operation and target succeeds for another pair if and only if the pairs are equal and
  the age is within the bound, unless two messages have the same HMAC.
\<close>

theorem operation_token_binds:
  assumes "describe op \<noteq> None" and "describe op' \<noteq> None"
    and "clock_ok t" and "clock_ok t'" and "\<not> mac_collision mac"
  shows "executor_verify mac t' op' target' (executor_issue mac t op target) \<longleftrightarrow>
    op = op' \<and> target = target' \<and>
    0 \<le> time_unix t' - time_unix t \<and> time_unix t' - time_unix t \<le> 600"
  using csrf.encoded_binds [OF op_context_inj, of "(op, target)" "(op', target')" t t' mac] assms
  by (simp add: executor_verify_def executor_issue_def)

theorem operation_token_binds_witness:
  "executor_verify (\<lambda>m. m) (unix_time 1000) op_reload '''' (executor_issue (\<lambda>m. m) (unix_time 700) op_reload '''') \<and>
   \<not> executor_verify (\<lambda>m. m) (unix_time 1000) op_restart '''' (executor_issue (\<lambda>m. m) (unix_time 700) op_reload '''')"
proof -
  have ok: "clock_ok (unix_time 700)" "clock_ok (unix_time 1000)"
    by (simp_all add: clock_ok_def max_int64_def)
  have d: "describe op_reload \<noteq> None" "describe op_restart \<noteq> None"
    using describe_cases by blast+
  have m: "\<not> mac_collision (\<lambda>m. m)" by (simp add: mac_collision_def)
  show ?thesis
    using operation_token_binds [OF d(1) d(1) ok m] operation_token_binds [OF d(1) d(2) ok m]
    by (simp add: op_defs)
qed

section \<open>The audit trail\<close>

text \<open>A request as the executor meets it: the clock, the operation, its target, the actor, and what the
  API server would answer each call.\<close>

record op_request =
  oq_now :: instant
  oq_op :: op_id
  oq_target :: string
  oq_actor :: identity
  oq_writer :: writer

primrec executions :: "op_request list \<Rightarrow> ops_world \<Rightarrow> (string \<times> go_error option) list \<times> ops_world" where
  "executions [] w = ([], w)"
| "executions (q # qs) w =
     (let (result, w1) = execute (oq_writer q) (oq_now q) (oq_op q) (oq_target q) (oq_actor q) w;
          (results, w2) = executions qs w1
      in (result # results, w2))"

text \<open>The one mutation a request stands for, written out per operation.\<close>

definition mutation :: "op_request \<Rightarrow> writer_call option" where
  "mutation q =
     (if oq_op q = ''backup'' then Some (CreateBackup (''ondemand-'' @ itoa (time_unix (oq_now q))))
      else if oq_op q = ''reload'' then Some (ReloadCluster (oq_now q))
      else if oq_op q = ''restart'' then Some (RestartCluster (oq_now q))
      else if oq_op q = ''promote'' \<and> oq_target q \<noteq> '''' then Some (PromoteInstance (oq_target q) (oq_now q))
      else None)"

definition answered :: "op_request \<Rightarrow> go_error option" where
  "answered q =
     (case mutation q of
        Some call \<Rightarrow> oq_writer q call
      | None \<Rightarrow> Some (RedactError ''operation'' (if oq_op q = ''promote'' then CategoryInternal else CategoryNotFound) None))"

definition told :: "op_request \<Rightarrow> string" where
  "told q =
     (if mutation q = None then ''rejected''
      else (case answered q of None \<Rightarrow> ''accepted'' | Some e \<Rightarrow> category_string (categorize e)))"

lemma execute_request:
  "execute (oq_writer q) (oq_now q) (oq_op q) (oq_target q) (oq_actor q) w =
     ((told q, answered q),
      (case mutation q of
         None \<Rightarrow> w
       | Some call \<Rightarrow> w\<lparr>ops_calls := ops_calls w @ [call],
           ops_audits := ops_audits w @
             [\<lparr>audit_operation = oq_op q, audit_target = oq_target q, audit_outcome = told q,
               audit_actor = id_user (oq_actor q),
               audit_verification = (if id_verified (oq_actor q) then ''proxy-asserted'' else ''unverified'')\<rparr>]\<rparr>))"
proof (cases "describe (oq_op q)")
  case None
  then have "oq_op q \<notin> {op_backup, op_reload, op_restart, op_promote}" using describe_cases [of "oq_op q"] by blast
  then have "mutation q = None" "oq_op q \<noteq> ''promote''" by (simp_all add: mutation_def op_defs)
  with None show ?thesis by (simp add: execute_def new_error_def told_def answered_def)
next
  case (Some d)
  then have op: "oq_op q \<in> {op_backup, op_reload, op_restart, op_promote}" using describe_cases [of "oq_op q"] by blast
  have called: "mutation q = (if oq_op q = op_promote \<and> oq_target q = '''' then None else op_call (oq_op q) (oq_target q) (oq_now q))"
    using op by (auto simp: mutation_def op_call_def op_defs backup_name_def)
  obtain c where c: "op_call (oq_op q) (oq_target q) (oq_now q) = Some c" using describe_op_call [OF Some] by blast
  have promote: "oq_op q = ''promote'' \<longleftrightarrow> oq_op q = op_promote" by (simp add: op_defs)
  show ?thesis
    using Some
    by (cases "oq_op q = op_promote \<and> oq_target q = ''''"; cases "oq_writer q c";
        auto simp: called c promote execute_def new_error_def run_writer_def ops_audit_def needs_instance_iff
          safe_def Let_def told_def answered_def split: if_splits; simp add: op_promote_def)
qed

text \<open>
  C31. The audit trail accounts for every mutation. Over any sequence of requests, each with its own
  clock, actor and API server answers, the calls made are exactly those of the valid requests, in order:
  a backup creates one Backup named after the clock, a reload and a restart patch the cluster at the
  clock's time, a promotion with an instance promotes that instance, and nothing else reaches the
  writer. The trail gains one line per call, in the same order, with the operation, the target, the
  actor and whether the proxy asserts it, and the outcome the caller was told: \<open>accepted\<close> when the call
  succeeded and otherwise the category of its error, never its text. A request outside the closed set,
  or a promotion without an instance, is told \<open>rejected\<close> and leaves neither call nor line, although the
  comment on Execute speaks of exactly one line.
\<close>

theorem every_mutation_is_audited:
  fixes qs :: "op_request list" and w :: ops_world
  defines "valid \<equiv> filter (\<lambda>q. mutation q \<noteq> None) qs"
  shows "fst (executions qs w) = map (\<lambda>q. (told q, answered q)) qs \<and>
    map Some (ops_calls (snd (executions qs w))) = map Some (ops_calls w) @ map mutation valid \<and>
    ops_audits (snd (executions qs w)) = ops_audits w @
      map (\<lambda>q. \<lparr>audit_operation = oq_op q, audit_target = oq_target q, audit_outcome = told q,
        audit_actor = id_user (oq_actor q),
        audit_verification = (if id_verified (oq_actor q) then ''proxy-asserted'' else ''unverified'')\<rparr>) valid"
  unfolding valid_def
proof (induction qs arbitrary: w)
  case (Cons q qs)
  let ?w = "snd (execute (oq_writer q) (oq_now q) (oq_op q) (oq_target q) (oq_actor q) w)"
  have step: "executions (q # qs) w = ((told q, answered q) # fst (executions qs ?w), snd (executions qs ?w))"
    by (simp add: execute_request Let_def split_beta)
  show ?case unfolding step fst_conv snd_conv Cons.IH [of ?w, THEN conjunct1]
      Cons.IH [of ?w, THEN conjunct2, THEN conjunct1] Cons.IH [of ?w, THEN conjunct2, THEN conjunct2]
    by (cases "mutation q") (simp_all add: execute_request)
qed simp

lemma execute_calls:
  "ops_calls (snd (execute wr now op target actor w)) = ops_calls w \<or>
   (describe op \<noteq> None \<and> (\<exists>c. op_call op target now = Some c \<and>
      ops_calls (snd (execute wr now op target actor w)) = ops_calls w @ [c]))"
  by (auto simp: execute_def run_writer_def ops_audit_def Let_def dest: describe_op_call
      split: option.splits prod.splits)

lemma execute_frame:
  "ops_calls (snd (execute wr now op target actor w)) \<noteq> ops_calls w \<Longrightarrow>
   ops_audits (snd (execute wr now op target actor w)) \<noteq> ops_audits w"
  by (auto simp: execute_def run_writer_def ops_audit_def Let_def
      split: option.splits prod.splits if_splits)

end
