(* ===== verification/Review.thy ===== *)
theory Review
  imports Authz Ops
begin

text \<open>
  \<open>internal/review/review.go\<close>: the one access-request mutation, an approval or a denial
  recorded on the request's status. The Kubernetes transport (interface \<open>Writer\<close> of the
  package) is the parameter \<open>writer\<close>; calls made and audit lines written are kept in the
  state \<open>review_world\<close>.
\<close>

section \<open>State and results\<close>

definition action_approve :: string where "action_approve = ''approve''"
definition action_deny :: string where "action_deny = ''deny''"

definition state_approved :: string where "state_approved = ''approved''"
definition state_denied :: string where "state_denied = ''denied''"

datatype review_error = ErrInvalidAction | ErrUnknownLevel | WriteFailed go_error

record review_call =
  rc_name :: string
  rc_state :: string
  rc_level :: string
  rc_decided_by :: string
  rc_decided_at :: instant

type_synonym review_writer = "review_call \<Rightarrow> go_error option"

record review_audit =
  ra_action :: string
  ra_request :: string
  ra_role :: string
  ra_outcome :: string
  ra_reviewer :: string
  ra_verification :: string

record review_world =
  rv_calls :: "review_call list"
  rv_audits :: "review_audit list"

section \<open>Tokens\<close>

definition token_context :: "string \<Rightarrow> string \<Rightarrow> string" where
  "token_context name action = action @ [CHR 0x00] @ name"

definition review_issue :: "(string \<Rightarrow> string) \<Rightarrow> instant \<Rightarrow> string \<Rightarrow> string \<Rightarrow> string" where
  "review_issue mac now name action = csrf_issue mac now (token_context name action)"

definition review_verify :: "(string \<Rightarrow> string) \<Rightarrow> instant \<Rightarrow> string \<Rightarrow> string \<Rightarrow> string \<Rightarrow> bool" where
  "review_verify mac now name action token = csrf_verify mac now (token_context name action) token"

section \<open>Deciding\<close>

definition grantable :: "string \<Rightarrow> bool" where
  "grantable level \<longleftrightarrow> list_ex (\<lambda>allowed. level = allowed) grantable_levels"

definition review_audit_line :: "string \<Rightarrow> string \<Rightarrow> string \<Rightarrow> string \<Rightarrow> string \<Rightarrow> review_world \<Rightarrow> review_world" where
  "review_audit_line name action role decided_by outcome w =
     w\<lparr>rv_audits := rv_audits w @
        [\<lparr>ra_action = action, ra_request = name, ra_role = role, ra_outcome = outcome,
          ra_reviewer = decided_by, ra_verification = ''proxy-asserted''\<rparr>]\<rparr>"

definition decide_write ::
  "review_writer \<Rightarrow> instant \<Rightarrow> string \<Rightarrow> string \<Rightarrow> string \<Rightarrow> string \<Rightarrow> string \<Rightarrow> review_world \<Rightarrow>
   (string \<times> review_error option) \<times> review_world" where
  "decide_write wr now name action state granted decided_by w =
     (let call = \<lparr>rc_name = name, rc_state = state, rc_level = granted,
                  rc_decided_by = decided_by, rc_decided_at = now\<rparr>;
          w1 = w\<lparr>rv_calls := rv_calls w @ [call]\<rparr>
      in case wr call of
           Some err \<Rightarrow>
             (('''', Some (WriteFailed err)),
              review_audit_line name action granted decided_by (''write failed: '' @ safe (Some err)) w1)
         | None \<Rightarrow>
             ((state, None), review_audit_line name action granted decided_by ''recorded'' w1))"

definition decide ::
  "review_writer \<Rightarrow> instant \<Rightarrow> string \<Rightarrow> string \<Rightarrow> string \<Rightarrow> string \<Rightarrow> review_world \<Rightarrow>
   (string \<times> review_error option) \<times> review_world" where
  "decide wr now name action level decided_by w =
     (if action = action_approve then
        if \<not> grantable level then
          (('''', Some ErrUnknownLevel),
           review_audit_line name action '''' decided_by ''rejected: unknown level'' w)
        else decide_write wr now name action state_approved level decided_by w
      else if action = action_deny then
        decide_write wr now name action state_denied '''' decided_by w
      else (('''', Some ErrInvalidAction), w))"

lemmas action_defs = action_approve_def action_deny_def

lemma grantable_iff: "grantable level \<longleftrightarrow> level \<in> set grantable_levels"
  by (auto simp: grantable_def list_ex_iff)

lemma grantable_parse: "grantable level \<longleftrightarrow> (\<exists>t. t \<noteq> TierNone \<and> level = tier_string t \<and> parse_level level = t)"
proof
  assume "grantable level"
  then have "level \<in> {level_view, level_poweruser, level_dba}"
    by (simp add: grantable_iff grantable_levels_def)
  then show "\<exists>t. t \<noteq> TierNone \<and> level = tier_string t \<and> parse_level level = t"
    using parse_level_levels
    by (auto simp: level_defs intro: exI [of _ TierView] exI [of _ TierPowerUser] exI [of _ TierDBA])
next
  assume "\<exists>t. t \<noteq> TierNone \<and> level = tier_string t \<and> parse_level level = t"
  then obtain t where "t \<noteq> TierNone" "level = tier_string t" by blast
  then show "grantable level"
    by (cases t) (simp_all add: grantable_iff grantable_levels_def level_defs)
qed

lemma token_context_inj:
  "inj_on (\<lambda>(name, action). token_context name action) {(name, action). action = action_approve \<or> action = action_deny}"
proof (rule inj_onI, clarify)
  fix n a n' a'
  assume a: "a = action_approve \<or> a = action_deny" "a' = action_approve \<or> a' = action_deny"
    and eq: "token_context n a = token_context n' a'"
  then have "CHR 0x00 \<notin> set a" "CHR 0x00 \<notin> set a'" by (auto simp: action_defs)
  with eq show "n = n' \<and> a = a'"
    using split_at_first [of a "CHR 0x00" n a' n'] by (simp add: token_context_def)
qed

lemma decide_write_eq:
  "decide_write wr now name action state granted decided_by w =
     (let call = \<lparr>rc_name = name, rc_state = state, rc_level = granted,
                  rc_decided_by = decided_by, rc_decided_at = now\<rparr>
      in ((if wr call = None then state else '''', map_option WriteFailed (wr call)),
          review_audit_line name action granted decided_by
            (case wr call of None \<Rightarrow> ''recorded'' | Some e \<Rightarrow> ''write failed: '' @ safe (Some e))
            (w\<lparr>rv_calls := rv_calls w @ [call]\<rparr>)))"
  by (simp add: decide_write_def Let_def split: option.split)

lemma decide_calls_cases:
  "rv_calls (snd (decide wr now name action level decided_by w)) \<noteq> rv_calls w \<Longrightarrow>
   action = action_approve \<and> grantable level \<or> action = action_deny"
  by (auto simp: decide_def review_audit_line_def split: if_splits)

text \<open>
  A decision reaches the writer at most once, and then only with a state of the closed set:
  an approval with a level that the console's own ladder parses to a tier, or a denial with no
  level; the reviewer and the request are recorded as supplied, and exactly one audit line with
  the same reviewer and role goes with the call. When nothing is written the decision is an error:
  the caller is told a state only if the writer accepted it.
\<close>

theorem decide_writes_only_closed_decisions:
  fixes wr now name action level decided_by w
  defines "r \<equiv> decide wr now name action level decided_by w"
  shows "(rv_calls (snd r) = rv_calls w \<and> fst (fst r) = '''' \<and> snd (fst r) \<noteq> None) \<or>
    (\<exists>call a. rv_calls (snd r) = rv_calls w @ [call] \<and> rv_audits (snd r) = rv_audits w @ [a] \<and>
       rc_name call = name \<and> rc_decided_by call = decided_by \<and>
       (rc_state call = state_approved \<and> rc_level call = level \<and> parse_level level \<noteq> TierNone \<and>
          action = action_approve \<or>
        rc_state call = state_denied \<and> rc_level call = '''' \<and> action = action_deny) \<and>
       ra_reviewer a = decided_by \<and> ra_role a = rc_level call \<and>
       fst r = (if wr call = None then rc_state call else '''', map_option WriteFailed (wr call)))"
proof (cases "action = action_approve \<and> grantable level \<or> action = action_deny")
  case False
  then have "rv_calls (snd r) = rv_calls w \<and> fst (fst r) = '''' \<and> snd (fst r) \<noteq> None"
    by (simp add: r_def decide_def review_audit_line_def)
  then show ?thesis by blast
next
  case True
  then consider "action = action_approve" "grantable level" | "action = action_deny" by blast
  then show ?thesis
  proof cases
    case 1
    then have r: "r = decide_write wr now name action state_approved level decided_by w"
      by (simp add: r_def decide_def)
    have "parse_level level \<noteq> TierNone" using 1(2) grantable_parse by metis
    with 1 show ?thesis
      by (auto simp: r decide_write_eq Let_def review_audit_line_def)
  next
    case 2
    then have r: "r = decide_write wr now name action state_denied '''' decided_by w"
      by (simp add: r_def decide_def action_defs)
    from 2 show ?thesis
      by (auto simp: r decide_write_eq Let_def review_audit_line_def)
  qed
qed

end
