(* ===== verification/WebGate.thy ===== *)
theory WebGate
  imports Authz Ops Review
begin

text \<open>
  The request path of \<open>internal/web\<close>: the route table of \<open>handler.go\<close> with its level gates,
  the gate itself (\<open>requireLevel\<close>), and the two handlers that can reach a writer, those of
  \<open>ops.go\<close> and \<open>accessreview.go\<close>. A request is its method, its decoded path segments, and
  the lookups the handlers make (headers, query, form). A page is not rendered; a response is its
  status with the handler or the denial message that produced it.
\<close>

section \<open>Requests, patterns and responses\<close>

record request =
  rq_method :: string
  rq_path :: "string list"
  rq_header :: "string \<Rightarrow> string"
  rq_query :: "string \<Rightarrow> string"
  rq_form :: "(string \<Rightarrow> string) option"

datatype segment = Lit string | Wild string | Rest

definition segment_of :: "string \<Rightarrow> segment" where
  "segment_of w =
     (if w = ''{$}'' then Lit '''' else if w = '''' then Rest
      else if hd w = CHR ''{'' then Wild (butlast (tl w)) else Lit w)"

definition pattern :: "string \<Rightarrow> segment list" where
  "pattern s = map segment_of (tl (split_on (CHR ''/'') s))"

text \<open>
  \<open>http.ServeMux\<close>: a literal matches itself, a wildcard one non-empty segment, a trailing
  slash any remainder. A \<open>GET\<close> pattern also matches \<open>HEAD\<close>.
\<close>

fun match_path :: "segment list \<Rightarrow> string list \<Rightarrow> (string \<times> string) list option" where
  "match_path [] [] = Some []"
| "match_path (Rest # ps) (w # ws) = Some []"
| "match_path (Lit a # ps) (w # ws) = (if a = w then match_path ps ws else None)"
| "match_path (Wild n # ps) (w # ws) =
     (if w = '''' then None else map_option (Cons (n, w)) (match_path ps ws))"
| "match_path _ _ = None"

definition match_method :: "string \<Rightarrow> string \<Rightarrow> bool" where
  "match_method pat m \<longleftrightarrow> m = pat \<or> pat = ''GET'' \<and> m = ''HEAD''"

datatype response =
    NotFound
  | MethodNotAllowed
  | Denied nat string
  | Page string
  | Rendered nat string string

section \<open>Configuration\<close>

text \<open>The parts of \<open>Config\<close>, \<open>Sources\<close> and \<open>Handler\<close> the routes depend on.\<close>

record web_config =
  user_header :: "string option"
  level_header :: string
  allow_logs :: bool
  allow_operations :: bool
  allow_access_review :: bool
  allow_diagnostics :: bool
  has_executor :: bool
  has_reviewer :: bool
  has_access_source :: bool
  has_metrics :: bool
  has_pooler_metrics :: bool
  has_history :: bool

section \<open>The gate\<close>

definition require_view_level :: string where
  "require_view_level = ''this console is read through a proxy-asserted level, and none reached it''"

definition require_power_level :: string where
  "require_power_level = ''this screen requires the poweruser or dba level''"

definition request_level :: "web_config \<Rightarrow> request \<Rightarrow> tier" where
  "request_level cfg r =
     (if level_header cfg = '''' then TierNone else parse_level (rq_header r (level_header cfg)))"

definition request_user :: "web_config \<Rightarrow> request \<Rightarrow> string option" where
  "request_user cfg r =
     (case user_header cfg of None \<Rightarrow> None | Some h \<Rightarrow> from_request h (rq_header r))"

definition require_level ::
  "web_config \<Rightarrow> tier \<Rightarrow> string \<Rightarrow> request \<Rightarrow> response option" where
  "require_level cfg minimum requirement r =
     (if user_header cfg = None \<or> level_header cfg = '''' then
        Some (Denied 503 ''this deployment forwards no identity or level header, so the console can admit nobody'')
      else if request_user cfg r = None then
        Some (Denied 403 ''identity required: the proxy forwarded no usable identity'')
      else if request_level cfg r < minimum then
        Some (Denied 403 (''not authorized: '' @ requirement))
      else None)"

section \<open>The route table\<close>

record route =
  rt_method :: string
  rt_path :: string
  rt_gate :: "(tier \<times> string) option"
  rt_handler :: string

definition gated :: "tier \<Rightarrow> string \<Rightarrow> string \<Rightarrow> string \<Rightarrow> string \<Rightarrow> route" where
  "gated minimum requirement m path h =
     \<lparr>rt_method = m, rt_path = path, rt_gate = Some (minimum, requirement), rt_handler = h\<rparr>"

definition open_route :: "string \<Rightarrow> string \<Rightarrow> string \<Rightarrow> route" where
  "open_route m path h = \<lparr>rt_method = m, rt_path = path, rt_gate = None, rt_handler = h\<rparr>"

definition view_route :: "string \<Rightarrow> string \<Rightarrow> route" where
  "view_route = gated TierView require_view_level ''GET''"

definition power_route :: "string \<Rightarrow> string \<Rightarrow> route" where
  "power_route = gated TierPowerUser require_power_level ''GET''"

definition operate_route :: "string \<Rightarrow> string \<Rightarrow> string \<Rightarrow> route" where
  "operate_route = gated TierDBA ''the day-2 operations require the dba level''"

definition review_route :: "string \<Rightarrow> string \<Rightarrow> string \<Rightarrow> route" where
  "review_route = gated TierDBA ''the review panel requires the dba level''"

definition operations_on :: "web_config \<Rightarrow> bool" where
  "operations_on cfg \<longleftrightarrow> allow_operations cfg \<and> has_executor cfg"

definition review_on :: "web_config \<Rightarrow> bool" where
  "review_on cfg \<longleftrightarrow> allow_access_review cfg \<and> has_reviewer cfg \<and> has_access_source cfg"

definition read_routes :: "route list" where
  "read_routes =
     [view_route ''/{$}'' ''index'',
      view_route ''/cluster/overview'' ''cluster-overview'',
      view_route ''/backups'' ''backups-overview'',
      view_route ''/databases'' ''databases-overview'',
      view_route ''/poolers'' ''poolers-overview'',
      power_route ''/objects'' ''objects'',
      power_route ''/cluster/pods'' ''cluster-pods'',
      power_route ''/cluster/pods/{pod}'' ''pod-detail'',
      power_route ''/backups/objects'' ''backups-objects'',
      power_route ''/backups/evidence'' ''backups-evidence'',
      power_route ''/databases/roles'' ''databases-roles'',
      power_route ''/databases/publications'' ''databases-publications'',
      power_route ''/databases/subscriptions'' ''databases-subscriptions'',
      power_route ''/poolers/pods'' ''poolers-pods'',
      power_route ''/poolers/pods/{pod}'' ''pooler-pod-detail'']"

definition routes :: "web_config \<Rightarrow> route list" where
  "routes cfg =
     read_routes @
     (if has_pooler_metrics cfg then
        [view_route ''/poolers/metrics'' ''pooler-metrics'',
         view_route ''/poolers/metrics/series'' ''pooler-metrics-series''] else []) @
     (if has_metrics cfg then
        [view_route ''/cluster/metrics'' ''cluster-metrics'',
         view_route ''/cluster/metrics/series'' ''metrics-series''] else []) @
     (if has_history cfg then
        [power_route ''/history'' ''history'',
         gated TierPowerUser ''revision details require the poweruser or dba level''
           ''GET'' ''/history/revisions/{seq}'' ''history-revision''] else []) @
     [open_route ''GET'' ''/healthz'' ''healthz'', open_route ''GET'' ''/readyz'' ''readyz''] @
     (if allow_logs cfg then
        [power_route ''/logs/{pod}'' ''logs'',
         power_route ''/logs/{pod}/{container}'' ''logs'',
         power_route ''/poolers/logs/{pod}'' ''pooler-logs''] else []) @
     (if operations_on cfg then
        [operate_route ''GET'' ''/operations'' ''operations-index'',
         operate_route ''GET'' ''/operations/{op}'' ''operation-confirm'',
         operate_route ''POST'' ''/operations/{op}'' ''operation-execute''] else []) @
     (if review_on cfg then
        [review_route ''GET'' ''/access-requests'' ''access-requests-index'',
         review_route ''POST'' ''/access-requests/{name}/approve'' ''access-approve'',
         review_route ''POST'' ''/access-requests/{name}/deny'' ''access-deny''] else []) @
     (if allow_diagnostics cfg then
        [gated TierPowerUser ''diagnostics requires the poweruser level'' ''GET'' ''/diagnostics'' ''diagnostics'',
         gated TierPowerUser ''triage requires the poweruser level'' ''GET'' ''/triage'' ''triage''] else []) @
     [open_route ''GET'' ''/static/'' ''static'']"

definition route_matches :: "request \<Rightarrow> route \<Rightarrow> bool" where
  "route_matches r rt \<longleftrightarrow>
     match_path (pattern (rt_path rt)) (rq_path r) \<noteq> None \<and> match_method (rt_method rt) (rq_method r)"

definition path_known :: "web_config \<Rightarrow> request \<Rightarrow> bool" where
  "path_known cfg r \<longleftrightarrow> list_ex (\<lambda>rt. match_path (pattern (rt_path rt)) (rq_path r) \<noteq> None) (routes cfg)"

definition path_value :: "route \<Rightarrow> request \<Rightarrow> string \<Rightarrow> string" where
  "path_value rt r name =
     (case match_path (pattern (rt_path rt)) (rq_path r) of
        None \<Rightarrow> '''' | Some vs \<Rightarrow> (case map_of vs name of None \<Rightarrow> '''' | Some v \<Rightarrow> v))"

section \<open>The handlers that can reach a writer\<close>

text \<open>\<open>podNamePattern\<close>: \<open>^[a-z0-9]([-a-z0-9.]{0,251}[a-z0-9])?$\<close>.\<close>

definition name_edge :: "char \<Rightarrow> bool" where
  "name_edge c \<longleftrightarrow> 97 \<le> byte c \<and> byte c \<le> 122 \<or> 48 \<le> byte c \<and> byte c \<le> 57"

definition pod_name_ok :: "string \<Rightarrow> bool" where
  "pod_name_ok s \<longleftrightarrow>
     s \<noteq> [] \<and> length s \<le> 253 \<and> name_edge (hd s) \<and> name_edge (last s) \<and>
     list_all (\<lambda>c. name_edge c \<or> c = CHR ''-'' \<or> c = CHR ''.'') s"

definition same_origin_post :: "request \<Rightarrow> bool" where
  "same_origin_post r \<longleftrightarrow> rq_header r ''Sec-Fetch-Site'' \<notin> set [''cross-site'', ''same-site'']"

record env =
  env_now :: instant
  env_writer :: writer
  env_review_writer :: review_writer
  env_ops_mac :: "string \<Rightarrow> string"
  env_review_mac :: "string \<Rightarrow> string"

record world =
  w_ops :: ops_world
  w_review :: review_world

definition actor_of :: "web_config \<Rightarrow> request \<Rightarrow> identity" where
  "actor_of cfg r =
     (case request_user cfg r of
        Some u \<Rightarrow> \<lparr>id_user = u, id_verified = True\<rparr>
      | None \<Rightarrow> \<lparr>id_user = '''', id_verified = False\<rparr>)"

definition handle_operation_confirm :: "env \<Rightarrow> string \<Rightarrow> request \<Rightarrow> response" where
  "handle_operation_confirm e op r =
     (case describe op of
        None \<Rightarrow> NotFound
      | Some desc \<Rightarrow>
          let t = rq_query r ''instance'';
              target = (if needs_instance desc \<and> \<not> pod_name_ok t then '''' else t)
          in Rendered 200 ''confirm'' (executor_issue (env_ops_mac e) (env_now e) (desc_id desc) target))"

definition handle_operation_execute ::
  "web_config \<Rightarrow> env \<Rightarrow> string \<Rightarrow> request \<Rightarrow> world \<Rightarrow> response \<times> world" where
  "handle_operation_execute cfg e op r w =
     (case describe op of
        None \<Rightarrow> (NotFound, w)
      | Some desc \<Rightarrow>
          if \<not> same_origin_post r then (Denied 403 ''cross-origin request refused'', w)
          else case rq_form r of
            None \<Rightarrow> (Denied 400 ''malformed request'', w)
          | Some form \<Rightarrow>
              let given = form ''instance'' in
              if needs_instance desc \<and> \<not> pod_name_ok given
              then (Denied 400 ''a valid instance name is required'', w)
              else
                let target = (if needs_instance desc then given else '''') in
                if \<not> executor_verify (env_ops_mac e) (env_now e) (desc_id desc) target (form ''csrf'')
                then (Denied 403 ''confirmation expired or invalid; try again'', w)
                else
                  let ((outcome, err), ow) =
                        execute (env_writer e) (env_now e) (desc_id desc) target (actor_of cfg r) (w_ops w)
                  in (Rendered (if err = None then 200 else 502) ''result'' outcome, w\<lparr>w_ops := ow\<rparr>))"

definition handle_access_decision ::
  "web_config \<Rightarrow> env \<Rightarrow> string \<Rightarrow> string \<Rightarrow> request \<Rightarrow> world \<Rightarrow> response \<times> world" where
  "handle_access_decision cfg e action name r w =
     (if \<not> pod_name_ok name then (NotFound, w)
      else if \<not> same_origin_post r then (Denied 403 ''cross-origin request refused'', w)
      else case rq_form r of
        None \<Rightarrow> (Denied 400 ''malformed request'', w)
      | Some form \<Rightarrow>
          if \<not> review_verify (env_review_mac e) (env_now e) name action (form ''csrf'')
          then (Denied 403 ''confirmation expired or invalid; try again'', w)
          else
            let decided_by = (case request_user cfg r of Some u \<Rightarrow> u | None \<Rightarrow> '''');
                ((outcome, err), rw) =
                  decide (env_review_writer e) (env_now e) name action (form ''level'') decided_by (w_review w);
                (status, shown) =
                  (case err of
                     None \<Rightarrow> (200, outcome)
                   | Some ErrUnknownLevel \<Rightarrow> (400, ''rejected: the chosen level is not one of the offered options'')
                   | Some ErrInvalidAction \<Rightarrow> (400, ''rejected: the chosen level is not one of the offered options'')
                   | Some (WriteFailed _) \<Rightarrow> (502, ''the decision could not be recorded''))
            in (Rendered status ''access-result'' shown, w\<lparr>w_review := rw\<rparr>))"

section \<open>Serving a request\<close>

text \<open>
  Every other handler renders from snapshots and reaches no writer; it is its page. A denial or a
  page changes nothing of the world.
\<close>

definition run_handler :: "web_config \<Rightarrow> env \<Rightarrow> route \<Rightarrow> request \<Rightarrow> world \<Rightarrow> response \<times> world" where
  "run_handler cfg e rt r w =
     (if rt_handler rt = ''operation-execute'' then
        handle_operation_execute cfg e (path_value rt r ''op'') r w
      else if rt_handler rt = ''operation-confirm'' then
        (handle_operation_confirm e (path_value rt r ''op'') r, w)
      else if rt_handler rt = ''access-approve'' then
        handle_access_decision cfg e action_approve (path_value rt r ''name'') r w
      else if rt_handler rt = ''access-deny'' then
        handle_access_decision cfg e action_deny (path_value rt r ''name'') r w
      else (Page (rt_handler rt), w))"

definition serve :: "web_config \<Rightarrow> env \<Rightarrow> request \<Rightarrow> world \<Rightarrow> response \<times> world" where
  "serve cfg e r w =
     (case find (route_matches r) (routes cfg) of
        None \<Rightarrow> (if path_known cfg r then MethodNotAllowed else NotFound, w)
      | Some rt \<Rightarrow>
          (case (case rt_gate rt of None \<Rightarrow> None | Some (t, req) \<Rightarrow> require_level cfg t req r) of
             Some denial \<Rightarrow> (denial, w)
           | None \<Rightarrow> run_handler cfg e rt r w))"

section \<open>Shell affordances\<close>

text \<open>\<open>requestAccess\<close>, \<open>canOperate\<close>, \<open>canReviewAccess\<close>: what the navigation offers.\<close>

definition can_operate :: "web_config \<Rightarrow> request \<Rightarrow> bool" where
  "can_operate cfg r \<longleftrightarrow>
     request_user cfg r \<noteq> None \<and> request_level cfg r \<ge> TierDBA \<and> allow_operations cfg \<and> has_executor cfg"

definition can_review_access :: "web_config \<Rightarrow> request \<Rightarrow> bool" where
  "can_review_access cfg r \<longleftrightarrow>
     request_user cfg r \<noteq> None \<and> request_level cfg r \<ge> TierDBA \<and>
     allow_access_review cfg \<and> has_reviewer cfg \<and> has_access_source cfg"

definition can_browse :: "web_config \<Rightarrow> request \<Rightarrow> bool" where
  "can_browse cfg r \<longleftrightarrow> request_user cfg r \<noteq> None \<and> request_level cfg r \<ge> TierPowerUser"

section \<open>Facts about the table\<close>

text \<open>
  The table with every capability on, and without the operations, without the review panel: every
  configuration's table is part of these, so a fact of all routes is evaluated once.
\<close>

definition full_config :: "bool \<Rightarrow> bool \<Rightarrow> web_config" where
  "full_config with_ops with_review =
     \<lparr>user_header = Some ''u'', level_header = ''l'', allow_logs = True, allow_operations = with_ops,
      allow_access_review = with_review, allow_diagnostics = True, has_executor = True,
      has_reviewer = True, has_access_source = True, has_metrics = True,
      has_pooler_metrics = True, has_history = True\<rparr>"

lemma routes_subset:
  "set (routes cfg) \<subseteq> set (routes (full_config (operations_on cfg) (review_on cfg)))"
  by (auto simp: routes_def full_config_def operations_on_def review_on_def)

lemma routes_subset_full: "set (routes cfg) \<subseteq> set (routes (full_config True True))"
  using routes_subset [of cfg]
  by (cases "operations_on cfg"; cases "review_on cfg")
    (auto simp: routes_def full_config_def operations_on_def review_on_def)

definition writing_handlers :: "string list" where
  "writing_handlers = [''operation-execute'', ''access-approve'', ''access-deny'']"

definition route_checked :: "bool \<Rightarrow> bool \<Rightarrow> route \<Rightarrow> bool" where
  "route_checked with_ops with_review rt \<longleftrightarrow>
     (case rt_gate rt of
        None \<Rightarrow> rt_handler rt \<in> set [''healthz'', ''readyz'', ''static'']
      | Some (t, req) \<Rightarrow> TierView \<le> t \<and> (rt_handler rt \<in> set writing_handlers \<longrightarrow> t = TierDBA)) \<and>
     (rt_handler rt \<in> set writing_handlers \<longleftrightarrow> rt_method rt \<noteq> ''GET'') \<and>
     (rt_handler rt \<in> set writing_handlers \<longrightarrow> rt_method rt = ''POST'' \<and> rt_gate rt \<noteq> None \<and>
        (if rt_handler rt = ''operation-execute'' then with_ops else with_review))"

lemma routes_all_checked:
  "\<forall>a b. list_all (route_checked a b) (routes (full_config a b))"
  by code_simp

lemma route_checked: "rt \<in> set (routes cfg) \<Longrightarrow> route_checked (operations_on cfg) (review_on cfg) rt"
  using routes_all_checked routes_subset [of cfg] by (auto simp: list_all_iff)

lemma routes_gate:
  "rt \<in> set (routes cfg) \<Longrightarrow>
   rt_gate rt = None \<and> rt_handler rt \<in> {''healthz'', ''readyz'', ''static''} \<or>
   (\<exists>t req. rt_gate rt = Some (t, req) \<and> TierView \<le> t)"
  by (drule route_checked, cases "rt_gate rt") (simp_all add: route_checked_def split: prod.splits)

lemma routes_writing:
  "rt \<in> set (routes cfg) \<Longrightarrow> rt_handler rt \<in> set writing_handlers \<Longrightarrow>
   rt_method rt = ''POST'' \<and> (\<exists>req. rt_gate rt = Some (TierDBA, req)) \<and>
   (if rt_handler rt = ''operation-execute'' then operations_on cfg else review_on cfg)"
  by (drule route_checked, cases "rt_gate rt") (simp_all add: route_checked_def split: prod.splits)

lemma find_route:
  "find (route_matches r) (routes cfg) = Some rt \<Longrightarrow> rt \<in> set (routes cfg) \<and> route_matches r rt"
  by (auto simp: find_Some_iff)

lemma require_level_None:
  "require_level cfg t req r = None \<longleftrightarrow>
     user_header cfg \<noteq> None \<and> level_header cfg \<noteq> '''' \<and> request_user cfg r \<noteq> None \<and> t \<le> request_level cfg r"
  by (auto simp: require_level_def not_less)

lemma require_level_denied:
  "require_level cfg t req r \<noteq> None \<Longrightarrow> \<exists>s m. require_level cfg t req r = Some (Denied s m)"
  by (auto simp: require_level_def split: if_splits)

lemma request_level_unset: "request_level cfg r \<noteq> TierNone \<Longrightarrow> level_header cfg \<noteq> ''''"
  by (auto simp: request_level_def)

lemma request_user_unset: "request_user cfg r \<noteq> None \<Longrightarrow> user_header cfg \<noteq> None"
  by (cases "user_header cfg") (auto simp: request_user_def)

text \<open>How a request that changes the world got there.\<close>

lemma serve_changes:
  assumes "snd (serve cfg e r w) \<noteq> w"
  obtains rt where "rt \<in> set (routes cfg)" "route_matches r rt"
    "rt_handler rt \<in> set writing_handlers"
    "rq_method r = ''POST''" "request_level cfg r = TierDBA" "request_user cfg r \<noteq> None"
    "if rt_handler rt = ''operation-execute'' then operations_on cfg else review_on cfg"
    "serve cfg e r w = run_handler cfg e rt r w"
proof -
  from assms obtain rt where f: "find (route_matches r) (routes cfg) = Some rt"
    by (auto simp: serve_def split: option.splits)
  note m = find_route [OF f]
  have h: "rt_handler rt \<in> set writing_handlers"
    using assms f by (auto simp: serve_def run_handler_def writing_handlers_def split: option.splits if_splits)
  from routes_writing [OF conjunct1 [OF m] h] obtain req
    where post: "rt_method rt = ''POST''" and g: "rt_gate rt = Some (TierDBA, req)"
      and on: "if rt_handler rt = ''operation-execute'' then operations_on cfg else review_on cfg"
    by blast
  from assms f g have none: "require_level cfg TierDBA req r = None"
    by (auto simp: serve_def split: option.splits)
  then have "serve cfg e r w = run_handler cfg e rt r w"
    by (simp add: serve_def f g)
  moreover have "rq_method r = ''POST''"
    using m post by (simp add: route_matches_def match_method_def)
  moreover have "request_level cfg r = TierDBA" and "request_user cfg r \<noteq> None"
    using none by (auto simp: require_level_None)
  ultimately show ?thesis
    using that [OF conjunct1 [OF m] conjunct2 [OF m] h _ _ _ on] by blast
qed

lemma operation_changes:
  assumes "snd (handle_operation_execute cfg e op r w) \<noteq> w"
  shows "same_origin_post r \<and> (\<exists>form target. rq_form r = Some form \<and>
    describe op \<noteq> None \<and> (op = op_promote \<longrightarrow> pod_name_ok target) \<and>
    executor_verify (env_ops_mac e) (env_now e) op target (form ''csrf'') \<and>
    snd (handle_operation_execute cfg e op r w) =
      w\<lparr>w_ops := snd (execute (env_writer e) (env_now e) op target (actor_of cfg r) (w_ops w))\<rparr>)"
proof -
  note [simp] = handle_operation_execute_def Let_def
  from assms obtain d where d: "describe op = Some d"
    by (cases "describe op") simp_all
  note id = describe_Some_id [OF d] and needs = needs_instance_iff [OF d]
  from assms d have origin: "same_origin_post r" by (rule_tac ccontr) simp
  from assms d origin obtain form where form: "rq_form r = Some form"
    by (cases "rq_form r") simp_all
  from assms d origin form needs have name: "op = op_promote \<longrightarrow> pod_name_ok (form ''instance'')"
    by (rule_tac ccontr) simp
  define target where "target = (if needs_instance d then form ''instance'' else '''')"
  from assms d origin form needs name id
  have verify: "executor_verify (env_ops_mac e) (env_now e) op target (form ''csrf'')"
    unfolding target_def by (rule_tac ccontr) simp
  have "snd (handle_operation_execute cfg e op r w) =
      w\<lparr>w_ops := snd (execute (env_writer e) (env_now e) op target (actor_of cfg r) (w_ops w))\<rparr>"
    using d origin form needs name id verify unfolding target_def
    by (cases "op = op_promote") (simp_all add: case_prod_unfold)
  moreover have "op = op_promote \<longrightarrow> pod_name_ok target"
    using name needs by (simp add: target_def)
  ultimately show ?thesis using d origin form verify by blast
qed

lemma decision_changes:
  assumes "snd (handle_access_decision cfg e action name r w) \<noteq> w"
  shows "same_origin_post r \<and> pod_name_ok name \<and> (\<exists>form. rq_form r = Some form \<and>
    review_verify (env_review_mac e) (env_now e) name action (form ''csrf'') \<and>
    snd (handle_access_decision cfg e action name r w) =
      w\<lparr>w_review := snd (decide (env_review_writer e) (env_now e) name action (form ''level'')
         (case request_user cfg r of Some u \<Rightarrow> u | None \<Rightarrow> '''') (w_review w))\<rparr>)"
proof -
  note [simp] = handle_access_decision_def Let_def
  from assms have name: "pod_name_ok name" by (rule_tac ccontr) simp
  from assms name have origin: "same_origin_post r" by (rule_tac ccontr) simp
  from assms name origin obtain form where form: "rq_form r = Some form"
    by (cases "rq_form r") simp_all
  from assms name origin form
  have verify: "review_verify (env_review_mac e) (env_now e) name action (form ''csrf'')"
    by (rule_tac ccontr) simp
  have "snd (handle_access_decision cfg e action name r w) =
      w\<lparr>w_review := snd (decide (env_review_writer e) (env_now e) name action (form ''level'')
         (case request_user cfg r of Some u \<Rightarrow> u | None \<Rightarrow> '''') (w_review w))\<rparr>"
    using name origin form verify by (simp add: case_prod_unfold)
  with name origin form verify show ?thesis by blast
qed

text \<open>
  C1. Nothing is written, and no audit line appears, unless the whole chain held: a POST whose
  forwarded identity is usable and whose proxy-asserted level is \<open>dba\<close>, in a deployment with the
  capability switched on and wired, of same-origin provenance, with a confirmation token that
  verifies for exactly the operation and target (the request and action) acted on. What happens
  then is one execution (decision) attributed to that identity, and nothing else changes.
\<close>

theorem mutation_requires_the_whole_chain:
  assumes "snd (serve cfg e r w) \<noteq> w"
  shows "rq_method r = ''POST'' \<and> request_level cfg r = TierDBA \<and> same_origin_post r \<and>
    (\<exists>user form. request_user cfg r = Some user \<and> rq_form r = Some form \<and>
      (operations_on cfg \<and>
        (\<exists>op target. describe op \<noteq> None \<and> (op = op_promote \<longrightarrow> pod_name_ok target) \<and>
          executor_verify (env_ops_mac e) (env_now e) op target (form ''csrf'') \<and>
          snd (serve cfg e r w) = w\<lparr>w_ops := snd (execute (env_writer e) (env_now e) op target
            \<lparr>id_user = user, id_verified = True\<rparr> (w_ops w))\<rparr>) \<or>
       review_on cfg \<and>
        (\<exists>action name. action \<in> {action_approve, action_deny} \<and> pod_name_ok name \<and>
          review_verify (env_review_mac e) (env_now e) name action (form ''csrf'') \<and>
          snd (serve cfg e r w) = w\<lparr>w_review := snd (decide (env_review_writer e) (env_now e) name action
            (form ''level'') user (w_review w))\<rparr>)))"
proof -
  obtain rt where h: "rt_handler rt \<in> set writing_handlers"
    and post: "rq_method r = ''POST''" and dba: "request_level cfg r = TierDBA"
    and user: "request_user cfg r \<noteq> None"
    and on: "if rt_handler rt = ''operation-execute'' then operations_on cfg else review_on cfg"
    and run: "serve cfg e r w = run_handler cfg e rt r w"
    using serve_changes [OF assms] by metis
  from user obtain u where u: "request_user cfg r = Some u" by blast
  show ?thesis
  proof (cases "rt_handler rt = ''operation-execute''")
    case True
    then have s: "serve cfg e r w = handle_operation_execute cfg e (path_value rt r ''op'') r w"
      by (simp add: run run_handler_def)
    from operation_changes [OF assms [unfolded s]] obtain form target
      where o: "same_origin_post r" "rq_form r = Some form" "describe (path_value rt r ''op'') \<noteq> None"
        "path_value rt r ''op'' = op_promote \<longrightarrow> pod_name_ok target"
        "executor_verify (env_ops_mac e) (env_now e) (path_value rt r ''op'') target (form ''csrf'')"
        "snd (serve cfg e r w) = w\<lparr>w_ops := snd (execute (env_writer e) (env_now e)
           (path_value rt r ''op'') target (actor_of cfg r) (w_ops w))\<rparr>"
      unfolding s by blast
    have a: "actor_of cfg r = \<lparr>id_user = u, id_verified = True\<rparr>" by (simp add: actor_of_def u)
    have "operations_on cfg" using on True by simp
    with o post dba u show ?thesis unfolding a by blast
  next
    case False
    define action where "action = (if rt_handler rt = ''access-approve'' then action_approve else action_deny)"
    then have a: "action \<in> {action_approve, action_deny}"
      and s: "serve cfg e r w = handle_access_decision cfg e action (path_value rt r ''name'') r w"
      using h False by (auto simp: run run_handler_def writing_handlers_def)
    from decision_changes [OF assms [unfolded s]] obtain form
      where o: "same_origin_post r" "pod_name_ok (path_value rt r ''name'')" "rq_form r = Some form"
        "review_verify (env_review_mac e) (env_now e) (path_value rt r ''name'') action (form ''csrf'')"
        "snd (serve cfg e r w) = w\<lparr>w_review := snd (decide (env_review_writer e) (env_now e)
           (path_value rt r ''name'') action (form ''level'') u (w_review w))\<rparr>"
      unfolding s by (auto simp: u)
    have "review_on cfg" using on False by simp
    with o post dba u a show ?thesis by blast
  qed
qed


definition witness_cfg :: web_config where
  "witness_cfg =
     \<lparr>user_header = Some ''X-Forwarded-User'', level_header = ''X-PgToolBox-Level'', allow_logs = True,
      allow_operations = True, allow_access_review = False, allow_diagnostics = True,
      has_executor = True, has_reviewer = False, has_access_source = False, has_metrics = False,
      has_pooler_metrics = False, has_history = True\<rparr>"

definition witness_env :: env where
  "witness_env =
     \<lparr>env_now = 7 * second, env_writer = (\<lambda>_. None), env_review_writer = (\<lambda>_. None),
      env_ops_mac = rev, env_review_mac = rev\<rparr>"

definition witness_header :: "string \<Rightarrow> string" where
  "witness_header h =
     (if h = ''X-Forwarded-User'' then ''ana''
      else if h = ''X-PgToolBox-Level'' then ''dba'' else '''')"

definition witness_form :: "string \<Rightarrow> string" where
  "witness_form key =
     (if key = ''csrf'' then executor_issue rev (5 * second) op_reload '''' else '''')"

definition witness_request :: request where
  "witness_request =
     \<lparr>rq_method = ''POST'', rq_path = [''operations'', ''reload''], rq_header = witness_header,
      rq_query = (\<lambda>_. ''''), rq_form = Some witness_form\<rparr>"

definition witness_world :: world where
  "witness_world =
     \<lparr>w_ops = \<lparr>ops_calls = [], ops_audits = []\<rparr>, w_review = \<lparr>rv_calls = [], rv_audits = []\<rparr>\<rparr>"

lemma witness_serve:
  "ops_calls (w_ops (snd (serve witness_cfg witness_env witness_request witness_world))) = [ReloadCluster (7 * second)]"
  by code_simp

theorem mutation_requires_the_whole_chain_witness:
  "rq_method witness_request = ''POST'' \<and> request_level witness_cfg witness_request = TierDBA \<and>
   same_origin_post witness_request \<and> request_user witness_cfg witness_request \<noteq> None \<and>
   snd (serve witness_cfg witness_env witness_request witness_world) \<noteq> witness_world"
proof -
  have c: "snd (serve witness_cfg witness_env witness_request witness_world) \<noteq> witness_world"
    using witness_serve by (auto simp: witness_world_def)
  show ?thesis
    using mutation_requires_the_whole_chain [OF c] c by auto
qed

text \<open>
  Without a usable forwarded identity, or with no level asserted, the console serves nothing of
  the cluster: every answer is a denial, an unknown path, or one of the three open routes (the two
  probes and the static assets), and the world is unchanged.
\<close>

theorem nothing_below_the_first_level:
  assumes "request_level cfg r = TierNone \<or> request_user cfg r = None"
  shows "snd (serve cfg e r w) = w \<and>
    (case fst (serve cfg e r w) of
       Page h \<Rightarrow> h \<in> {''healthz'', ''readyz'', ''static''}
     | Rendered s h x \<Rightarrow> False
     | _ \<Rightarrow> True)"
proof (cases "find (route_matches r) (routes cfg)")
  case None
  then show ?thesis by (simp add: serve_def)
next
  case (Some rt)
  from find_route [OF Some] have "rt \<in> set (routes cfg)" by simp
  from routes_gate [OF this] show ?thesis
  proof
    assume "rt_gate rt = None \<and> rt_handler rt \<in> {''healthz'', ''readyz'', ''static''}"
    then show ?thesis by (auto simp: serve_def Some run_handler_def)
  next
    assume "\<exists>t req. rt_gate rt = Some (t, req) \<and> TierView \<le> t"
    then obtain t req where g: "rt_gate rt = Some (t, req)" "TierView \<le> t" by blast
    with assms have "require_level cfg t req r \<noteq> None"
      by (cases t) (auto simp: require_level_None less_eq_tier_def)
    with require_level_denied obtain s m where "require_level cfg t req r = Some (Denied s m)"
      by blast
    with g show ?thesis by (simp add: serve_def Some)
  qed
qed

definition witness_anonymous :: request where
  "witness_anonymous = witness_request\<lparr>rq_header := (\<lambda>h. '''')\<rparr>"

theorem nothing_below_the_first_level_witness:
  "snd (serve witness_cfg witness_env witness_anonymous witness_world) = witness_world"
proof -
  have "request_user witness_cfg witness_anonymous = None" by code_simp
  then show ?thesis using nothing_below_the_first_level by blast
qed

text \<open>
  The ladder is a ladder: a request that differs from an admitted one only in asserting a
  higher level is admitted by the same gate.
\<close>

theorem ladder_is_monotone:
  assumes "require_level cfg t req r = None"
    and "request_user cfg r' = request_user cfg r" and "request_level cfg r \<le> request_level cfg r'"
  shows "require_level cfg t req r' = None"
  using assms by (auto simp: require_level_None)

definition witness_viewer :: request where
  "witness_viewer = witness_request\<lparr>rq_header := (\<lambda>h. if h = ''X-PgToolBox-Level'' then ''view'' else witness_header h)\<rparr>"

theorem ladder_is_monotone_witness:
  "require_level witness_cfg TierView '''' witness_request = None"
proof -
  have a: "require_level witness_cfg TierView '''' witness_viewer = None" by code_simp
  have b: "request_user witness_cfg witness_request = request_user witness_cfg witness_viewer" by code_simp
  have c: "request_level witness_cfg witness_viewer \<le> request_level witness_cfg witness_request" by code_simp
  show ?thesis by (rule ladder_is_monotone [OF a b c])
qed

end
