(* ===== verification/History.thy ===== *)
theory History
  imports Prelude
begin

text \<open>
  The revision timeline of \<open>internal/history\<close>: the records of \<open>history.go\<close> and the store of
  \<open>store.go\<close>.

  The Go store holds revisions by pointer, so that an object's coalescing target (\<open>last\<close>) stays
  addressable. A revision's sequence number is unique (\<open>history_ok\<close>), so the model holds the
  sequence number where the code holds the pointer. Every call the store makes on its persister is
  appended to \<open>hs_mirror\<close>, in order, when a persister is attached. The clock reading of an
  operation is its \<open>now\<close> argument; the mutex makes each operation one step.
\<close>

section \<open>Data\<close>

record actor =
  ac_manager :: string
  ac_operation :: string

record field_owner =
  fo_manager :: string
  fo_paths :: "string list"

record observation =
  obs_scope :: string
  obs_group :: string
  obs_version :: string
  obs_kind :: string
  obs_namespace :: string
  obs_name :: string
  obs_uid :: string
  obs_generation :: int
  obs_manifest :: "string option"
  obs_spec_hash :: string
  obs_status_hash :: string
  obs_actor :: actor
  obs_owners :: "field_owner list"
  obs_deleted :: bool

datatype change =
    ChangeCreated
  | ChangeFirstObserved
  | ChangeSpec
  | ChangeStatus
  | ChangeDeleted
  | ChangeDeletedUnobserved

record revision =
  rev_seq :: nat
  rev_scope :: string
  rev_group :: string
  rev_version :: string
  rev_kind :: string
  rev_namespace :: string
  rev_name :: string
  rev_uid :: string
  rev_generation :: int
  rev_change :: change
  rev_after_gap :: bool
  rev_actor :: actor
  rev_observed_at :: instant
  rev_prev_observed_at :: instant
  rev_coalesced :: int
  rev_spec_hash :: string
  rev_status_hash :: string
  rev_owners :: "field_owner list"
  rev_manifest :: "string option"

record entry =
  en_seq :: nat
  en_scope :: string
  en_group :: string
  en_version :: string
  en_kind :: string
  en_namespace :: string
  en_name :: string
  en_uid :: string
  en_change :: change
  en_after_gap :: bool
  en_actor :: actor
  en_observed_at :: instant
  en_prev_observed_at :: instant
  en_coalesced :: int
  en_has_manifest :: bool

record snapshot =
  sn_generation :: nat
  sn_entries :: "entry list"
  sn_evicted :: bool

record limits =
  lim_per_object :: int
  lim_max_revisions :: int
  lim_max_bytes :: int
  lim_coalesce_window :: duration

record object_record =
  or_scope :: string
  or_group :: string
  or_version :: string
  or_kind :: string
  or_namespace :: string
  or_name :: string
  or_spec_hash :: string
  or_status_hash :: string
  or_last_observed_at :: instant

record contents =
  ct_revisions :: "revision list"
  ct_objects :: "(string, object_record) gomap"
  ct_seq :: nat
  ct_evicted :: bool

text \<open>The mutation methods of the \<open>Persister\<close> interface, as calls.\<close>

datatype mirror_op =
    MAppend revision
  | MUpdate revision
  | MEvict nat
  | MPutObject string object_record
  | MDeleteObject string
  | MMarkEvicted

record object_state =
  ob_scope :: string
  ob_group :: string
  ob_version :: string
  ob_kind :: string
  ob_namespace :: string
  ob_name :: string
  ob_spec_hash :: string
  ob_status_hash :: string
  ob_last_observed_at :: instant
  ob_count :: int
  ob_last :: "nat option"

record hstore =
  hs_limits :: limits
  hs_persist :: bool
  hs_mirror :: "mirror_op list"
  hs_seq :: nat
  hs_generation :: nat
  hs_entries :: "revision list"
  hs_objects :: "(string, object_state) gomap"
  hs_scopes :: "(string, string list) gomap"
  hs_total_bytes :: int
  hs_evicted :: bool

section \<open>Helpers\<close>

definition object_record_of :: "object_state \<Rightarrow> object_record" where
  "object_record_of st =
     \<lparr>or_scope = ob_scope st, or_group = ob_group st, or_version = ob_version st,
      or_kind = ob_kind st, or_namespace = ob_namespace st, or_name = ob_name st,
      or_spec_hash = ob_spec_hash st, or_status_hash = ob_status_hash st,
      or_last_observed_at = ob_last_observed_at st\<rparr>"

definition manifest_length :: "string option \<Rightarrow> nat" where
  "manifest_length m = (case m of None \<Rightarrow> 0 | Some b \<Rightarrow> length b)"

definition owner_size :: "field_owner \<Rightarrow> int" where
  "owner_size fo = int (length (fo_manager fo)) + sum_list (map (\<lambda>p. int (length p)) (fo_paths fo))"

definition revision_size :: "revision \<Rightarrow> int" where
  "revision_size r = int (manifest_length (rev_manifest r)) + sum_list (map owner_size (rev_owners r))"

definition revision_of :: "observation \<Rightarrow> change \<Rightarrow> instant \<Rightarrow> instant \<Rightarrow> bool \<Rightarrow> revision" where
  "revision_of obs change now prev after_gap =
     \<lparr>rev_seq = 0, rev_scope = obs_scope obs, rev_group = obs_group obs,
      rev_version = obs_version obs, rev_kind = obs_kind obs,
      rev_namespace = obs_namespace obs, rev_name = obs_name obs, rev_uid = obs_uid obs,
      rev_generation = obs_generation obs, rev_change = change, rev_after_gap = after_gap,
      rev_actor = obs_actor obs, rev_observed_at = now, rev_prev_observed_at = prev,
      rev_coalesced = 0, rev_spec_hash = obs_spec_hash obs,
      rev_status_hash = obs_status_hash obs, rev_owners = obs_owners obs,
      rev_manifest = obs_manifest obs\<rparr>"

definition new_store :: "limits \<Rightarrow> hstore" where
  "new_store lim =
     \<lparr>hs_limits = lim, hs_persist = False, hs_mirror = [], hs_seq = 0, hs_generation = 0,
      hs_entries = [], hs_objects = [], hs_scopes = [], hs_total_bytes = 0, hs_evicted = False\<rparr>"

definition mirror :: "mirror_op \<Rightarrow> hstore \<Rightarrow> hstore" where
  "mirror mop s = (if hs_persist s then s\<lparr>hs_mirror := hs_mirror s @ [mop]\<rparr> else s)"

definition scope_set :: "hstore \<Rightarrow> string \<Rightarrow> string list" where
  "scope_set s scope = (case mget (hs_scopes s) scope of None \<Rightarrow> [] | Some us \<Rightarrow> us)"

definition scope_add :: "string \<Rightarrow> string \<Rightarrow> hstore \<Rightarrow> hstore" where
  "scope_add scope uid s =
     s\<lparr>hs_scopes := mput scope (List.insert uid (scope_set s scope)) (hs_scopes s)\<rparr>"

section \<open>Retention\<close>

definition evict :: "nat \<Rightarrow> hstore \<Rightarrow> hstore" where
  "evict i s =
     (let r = hs_entries s ! i;
          s1 = s\<lparr>hs_entries := take i (hs_entries s) @ drop (Suc i) (hs_entries s),
                 hs_total_bytes := hs_total_bytes s - revision_size r\<rparr>;
          s2 = mirror (MEvict (rev_seq r)) s1;
          s3 = (if hs_evicted s then s2 else mirror MMarkEvicted s2);
          s4 = s3\<lparr>hs_evicted := True\<rparr>
      in case mget (hs_objects s4) (rev_uid r) of
           None \<Rightarrow> s4
         | Some st \<Rightarrow>
             s4\<lparr>hs_objects := mput (rev_uid r)
                  (st\<lparr>ob_count := ob_count st - 1,
                      ob_last := (if ob_last st = Some (rev_seq r) then None else ob_last st)\<rparr>)
                  (hs_objects s4)\<rparr>)"

definition over_bounds :: "hstore \<Rightarrow> bool" where
  "over_bounds s \<longleftrightarrow>
     lim_max_revisions (hs_limits s) > 0 \<and>
       int (length (hs_entries s)) > lim_max_revisions (hs_limits s) \<or>
     lim_max_bytes (hs_limits s) > 0 \<and> hs_total_bytes s > lim_max_bytes (hs_limits s)"

fun find_index :: "('a \<Rightarrow> bool) \<Rightarrow> 'a list \<Rightarrow> nat option" where
  "find_index P [] = None"
| "find_index P (x # xs) = (if P x then Some 0 else map_option Suc (find_index P xs))"

definition enforce_per_object :: "string \<Rightarrow> hstore \<Rightarrow> hstore" where
  "enforce_per_object uid s =
     (case mget (hs_objects s) uid of
        None \<Rightarrow> s
      | Some st \<Rightarrow>
          if lim_per_object (hs_limits s) \<le> 0 \<or> ob_count st \<le> lim_per_object (hs_limits s) then s
          else case find_index (\<lambda>r. rev_uid r = uid) (hs_entries s) of
                 None \<Rightarrow> s
               | Some i \<Rightarrow> evict i s)"

lemma mirror_frame [simp]:
  "hs_entries (mirror mop s) = hs_entries s" "hs_objects (mirror mop s) = hs_objects s"
  "hs_scopes (mirror mop s) = hs_scopes s" "hs_limits (mirror mop s) = hs_limits s"
  "hs_seq (mirror mop s) = hs_seq s" "hs_generation (mirror mop s) = hs_generation s"
  "hs_total_bytes (mirror mop s) = hs_total_bytes s" "hs_evicted (mirror mop s) = hs_evicted s"
  "hs_persist (mirror mop s) = hs_persist s"
  by (simp_all add: mirror_def)

lemma evict_frame [simp]:
  "hs_entries (evict i s) = take i (hs_entries s) @ drop (Suc i) (hs_entries s)"
  "hs_scopes (evict i s) = hs_scopes s" "hs_limits (evict i s) = hs_limits s"
  "hs_seq (evict i s) = hs_seq s" "hs_generation (evict i s) = hs_generation s"
  "hs_total_bytes (evict i s) = hs_total_bytes s - revision_size (hs_entries s ! i)"
  "hs_evicted (evict i s)" "hs_persist (evict i s) = hs_persist s"
  by (simp_all add: evict_def Let_def split: option.split)

function enforce_bounds :: "hstore \<Rightarrow> hstore" where
  "enforce_bounds s =
     (if hs_entries s \<noteq> [] \<and> over_bounds s then enforce_bounds (evict 0 s) else s)"
  by auto
termination
  by (relation "measure (\<lambda>s. length (hs_entries s))") auto

declare enforce_bounds.simps [simp del]

section \<open>Folding observations\<close>

text \<open>\<open>append\<close>: \<open>push_revision\<close> is its part before the bounds are enforced.\<close>

definition push_revision :: "revision \<Rightarrow> hstore \<Rightarrow> hstore" where
  "push_revision r s =
     (let s1 = s\<lparr>hs_seq := hs_seq s + 1\<rparr>;
          r1 = r\<lparr>rev_seq := hs_seq s1\<rparr>;
          s2 = s1\<lparr>hs_entries := hs_entries s1 @ [r1],
                  hs_total_bytes := hs_total_bytes s1 + revision_size r1,
                  hs_objects :=
                    (case mget (hs_objects s1) (rev_uid r1) of
                       None \<Rightarrow> hs_objects s1
                     | Some st \<Rightarrow> mput (rev_uid r1)
                         (st\<lparr>ob_count := ob_count st + 1, ob_last := Some (rev_seq r1)\<rparr>)
                         (hs_objects s1)),
                  hs_generation := hs_generation s1 + 1\<rparr>
      in mirror (MAppend r1) s2)"

definition append_revision :: "revision \<Rightarrow> hstore \<Rightarrow> hstore" where
  "append_revision r s = enforce_bounds (enforce_per_object (rev_uid r) (push_revision r s))"

definition commit :: "observation \<Rightarrow> instant \<Rightarrow> hstore \<Rightarrow> hstore" where
  "commit obs now s =
     (case mget (hs_objects s) (obs_uid obs) of
        None \<Rightarrow> s
      | Some st \<Rightarrow>
          let st1 = st\<lparr>ob_spec_hash := obs_spec_hash obs, ob_status_hash := obs_status_hash obs,
                       ob_last_observed_at := now\<rparr>
          in mirror (MPutObject (obs_uid obs) (object_record_of st1))
               (s\<lparr>hs_objects := mput (obs_uid obs) st1 (hs_objects s)\<rparr>))"

definition retained :: "hstore \<Rightarrow> nat \<Rightarrow> revision option" where
  "retained s q = find (\<lambda>r. rev_seq r = q) (hs_entries s)"

definition replace_revision :: "revision \<Rightarrow> revision list \<Rightarrow> revision list" where
  "replace_revision r rs = map (\<lambda>x. if rev_seq x = rev_seq r then r else x) rs"

definition coalesced :: "observation \<Rightarrow> instant \<Rightarrow> revision \<Rightarrow> revision" where
  "coalesced obs now r =
     r\<lparr>rev_manifest := obs_manifest obs, rev_status_hash := obs_status_hash obs,
       rev_generation := obs_generation obs, rev_actor := obs_actor obs,
       rev_owners := obs_owners obs, rev_observed_at := now,
       rev_coalesced := rev_coalesced r + 1\<rparr>"

definition rewrite_revision :: "revision \<Rightarrow> revision \<Rightarrow> hstore \<Rightarrow> hstore" where
  "rewrite_revision r r1 s =
     mirror (MUpdate r1)
       (s\<lparr>hs_entries := replace_revision r1 (hs_entries s),
          hs_total_bytes := hs_total_bytes s - revision_size r + revision_size r1\<rparr>)"

text \<open>\<open>coalesce\<close> reports whether it folded the transition; \<open>None\<close> is its \<open>false\<close>.\<close>

definition coalesce :: "observation \<Rightarrow> object_state \<Rightarrow> instant \<Rightarrow> hstore \<Rightarrow> hstore option" where
  "coalesce obs st now s =
     (case (case ob_last st of None \<Rightarrow> None | Some q \<Rightarrow> retained s q) of
        None \<Rightarrow> None
      | Some r \<Rightarrow>
          if lim_coalesce_window (hs_limits s) \<le> 0 \<or> rev_change r \<noteq> ChangeStatus then None
          else if time_sub now (rev_observed_at r) \<ge> lim_coalesce_window (hs_limits s) then None
          else
            let s1 = commit obs now (rewrite_revision r (coalesced obs now r) s)
            in Some (enforce_bounds (s1\<lparr>hs_generation := hs_generation s1 + 1\<rparr>)))"

definition forget :: "string \<Rightarrow> hstore \<Rightarrow> hstore" where
  "forget uid s =
     mirror (MDeleteObject uid)
       (s\<lparr>hs_objects := mdel uid (hs_objects s),
          hs_scopes := map (\<lambda>(scope, us). (scope, filter (\<lambda>u. u \<noteq> uid) us)) (hs_scopes s)\<rparr>)"

definition delete_observed :: "observation \<Rightarrow> instant \<Rightarrow> hstore \<Rightarrow> hstore" where
  "delete_observed obs now s =
     (case mget (hs_objects s) (obs_uid obs) of
        None \<Rightarrow> s
      | Some st \<Rightarrow>
          let r = revision_of obs ChangeDeleted now (ob_last_observed_at st) False
          in forget (obs_uid obs) (append_revision (r\<lparr>rev_manifest := None\<rparr>) s))"

definition unobserved_deletion :: "string \<Rightarrow> object_state \<Rightarrow> instant \<Rightarrow> revision" where
  "unobserved_deletion uid st now =
     \<lparr>rev_seq = 0, rev_scope = ob_scope st, rev_group = ob_group st, rev_version = ob_version st,
      rev_kind = ob_kind st, rev_namespace = ob_namespace st, rev_name = ob_name st,
      rev_uid = uid, rev_generation = 0, rev_change = ChangeDeletedUnobserved,
      rev_after_gap = True, rev_actor = \<lparr>ac_manager = '''', ac_operation = ''''\<rparr>,
      rev_observed_at = now, rev_prev_observed_at = ob_last_observed_at st, rev_coalesced = 0,
      rev_spec_hash = '''', rev_status_hash = '''', rev_owners = [], rev_manifest = None\<rparr>"

definition delete_unobserved :: "instant \<Rightarrow> string \<Rightarrow> hstore \<Rightarrow> hstore" where
  "delete_unobserved now uid s =
     (case mget (hs_objects s) uid of
        None \<Rightarrow> s
      | Some st \<Rightarrow> forget uid (append_revision (unobserved_deletion uid st now) s))"

definition fresh_state :: "observation \<Rightarrow> object_state" where
  "fresh_state obs =
     \<lparr>ob_scope = obs_scope obs, ob_group = obs_group obs, ob_version = obs_version obs,
      ob_kind = obs_kind obs, ob_namespace = obs_namespace obs, ob_name = obs_name obs,
      ob_spec_hash = '''', ob_status_hash = '''', ob_last_observed_at = zero_time,
      ob_count = 0, ob_last = None\<rparr>"

definition admit :: "observation \<Rightarrow> hstore \<Rightarrow> hstore" where
  "admit obs s =
     scope_add (obs_scope obs) (obs_uid obs)
       (s\<lparr>hs_objects := mput (obs_uid obs) (fresh_state obs) (hs_objects s)\<rparr>)"

definition observe :: "observation \<Rightarrow> instant \<Rightarrow> bool \<Rightarrow> hstore \<Rightarrow> hstore" where
  "observe obs now seed s =
     (if obs_deleted obs then delete_observed obs now s
      else case mget (hs_objects s) (obs_uid obs) of
        None \<Rightarrow>
          let change = (if seed then ChangeFirstObserved else ChangeCreated)
          in commit obs now
               (append_revision (revision_of obs change now zero_time False) (admit obs s))
      | Some st \<Rightarrow>
          if obs_spec_hash obs = ob_spec_hash st \<and> obs_status_hash obs = ob_status_hash st then
            let st1 = st\<lparr>ob_last_observed_at := now\<rparr>
            in mirror (MPutObject (obs_uid obs) (object_record_of st1))
                 (s\<lparr>hs_objects := mput (obs_uid obs) st1 (hs_objects s)\<rparr>)
          else
            let change = (if obs_spec_hash obs \<noteq> ob_spec_hash st then ChangeSpec else ChangeStatus)
            in case (if change = ChangeStatus \<and> \<not> seed then coalesce obs st now s else None) of
                 Some s1 \<Rightarrow> s1
               | None \<Rightarrow>
                   commit obs now
                     (append_revision (revision_of obs change now (ob_last_observed_at st) seed) s))"

definition store_observe :: "observation \<Rightarrow> instant \<Rightarrow> hstore \<Rightarrow> hstore" where
  "store_observe obs now s = observe obs now False s"

definition gone_uids :: "string \<Rightarrow> observation list \<Rightarrow> hstore \<Rightarrow> string list" where
  "gone_uids scope obs s =
     sort_strings (filter (\<lambda>u. u \<notin> set (map obs_uid obs)) (scope_set s scope))"

definition store_seed :: "string \<Rightarrow> observation list \<Rightarrow> instant \<Rightarrow> hstore \<Rightarrow> hstore" where
  "store_seed scope obs now s =
     fold (\<lambda>o'. observe o' now True) obs
       (fold (delete_unobserved now) (gone_uids scope obs s) s)"

section \<open>Priming from a persister\<close>

definition state_of_record :: "object_record \<Rightarrow> object_state" where
  "state_of_record rc =
     \<lparr>ob_scope = or_scope rc, ob_group = or_group rc, ob_version = or_version rc,
      ob_kind = or_kind rc, ob_namespace = or_namespace rc, ob_name = or_name rc,
      ob_spec_hash = or_spec_hash rc, ob_status_hash = or_status_hash rc,
      ob_last_observed_at = or_last_observed_at rc, ob_count = 0, ob_last = None\<rparr>"

definition load_object :: "string \<times> object_record \<Rightarrow> hstore \<Rightarrow> hstore" where
  "load_object p s =
     scope_add (or_scope (snd p)) (fst p)
       (s\<lparr>hs_objects := mput (fst p) (state_of_record (snd p)) (hs_objects s)\<rparr>)"

definition count_revision :: "revision \<Rightarrow> hstore \<Rightarrow> hstore" where
  "count_revision r s =
     (case mget (hs_objects s) (rev_uid r) of
        None \<Rightarrow> s
      | Some st \<Rightarrow> s\<lparr>hs_objects := mput (rev_uid r)
          (st\<lparr>ob_count := ob_count st + 1, ob_last := Some (rev_seq r)\<rparr>) (hs_objects s)\<rparr>)"

definition prime_loaded :: "contents \<Rightarrow> hstore \<Rightarrow> hstore" where
  "prime_loaded c s =
     (let s1 = s\<lparr>hs_entries := hs_entries s @ ct_revisions c,
                 hs_total_bytes := hs_total_bytes s + sum_list (map revision_size (ct_revisions c)),
                 hs_seq := ct_seq c, hs_generation := ct_seq c, hs_evicted := ct_evicted c\<rparr>;
          s2 = fold load_object (ct_objects c) s1
      in fold count_revision (hs_entries s2) s2)"

definition prime :: "contents \<Rightarrow> hstore \<Rightarrow> hstore" where
  "prime c s =
     (let s3 = prime_loaded c s
      in enforce_bounds (fold enforce_per_object (mkeys (hs_objects s3)) s3))"

definition new_persisted_store :: "limits \<Rightarrow> contents option \<Rightarrow> hstore option" where
  "new_persisted_store lim loaded =
     (case loaded of
        None \<Rightarrow> None
      | Some c \<Rightarrow> Some (prime c ((new_store lim)\<lparr>hs_persist := True\<rparr>)))"

section \<open>Reading\<close>

definition entry_of :: "revision \<Rightarrow> entry" where
  "entry_of r =
     \<lparr>en_seq = rev_seq r, en_scope = rev_scope r, en_group = rev_group r,
      en_version = rev_version r, en_kind = rev_kind r, en_namespace = rev_namespace r,
      en_name = rev_name r, en_uid = rev_uid r, en_change = rev_change r,
      en_after_gap = rev_after_gap r, en_actor = rev_actor r,
      en_observed_at = rev_observed_at r, en_prev_observed_at = rev_prev_observed_at r,
      en_coalesced = rev_coalesced r, en_has_manifest = (rev_manifest r \<noteq> None)\<rparr>"

definition store_snapshot :: "hstore \<Rightarrow> snapshot \<times> bool" where
  "store_snapshot s =
     (let es = map entry_of (rev (hs_entries s))
      in (\<lparr>sn_generation = hs_generation s, sn_entries = es, sn_evicted = hs_evicted s\<rparr>, es \<noteq> []))"

text \<open>\<open>append([]byte(nil), m...)\<close>: a copy, nil when there is nothing to copy.\<close>

definition copy_bytes :: "string option \<Rightarrow> string option" where
  "copy_bytes m = (case m of Some (c # cs) \<Rightarrow> Some (c # cs) | _ \<Rightarrow> None)"

definition store_revision :: "nat \<Rightarrow> hstore \<Rightarrow> revision option" where
  "store_revision q s =
     (let i = sort_search (length (hs_entries s)) (\<lambda>i. rev_seq (hs_entries s ! i) \<ge> q)
      in if i \<ge> length (hs_entries s) \<or> rev_seq (hs_entries s ! i) \<noteq> q then None
         else let r = hs_entries s ! i
              in Some (r\<lparr>rev_manifest := copy_bytes (rev_manifest r)\<rparr>))"

end
