(* ===== verification/HistoryStore.thy ===== *)
theory HistoryStore
  imports History "HOL-Library.Sublist"
begin

text \<open>
  What the history store promises (\<open>internal/history/store.go\<close>): its representation invariant,
  the retention bounds, the per-object cap, complete seeds, and the mirror a persister receives.
\<close>

section \<open>The representation invariant\<close>

definition of_uid :: "string \<Rightarrow> revision list \<Rightarrow> revision list" where
  "of_uid u rs = filter (\<lambda>r. rev_uid r = u) rs"

definition newest :: "string \<Rightarrow> revision list \<Rightarrow> nat option" where
  "newest u rs = (case of_uid u rs of [] \<Rightarrow> None | x # xs \<Rightarrow> Some (rev_seq (last (x # xs))))"

text \<open>Sequence numbers grow along the timeline and none is beyond the counter.\<close>

definition seqs_ok :: "hstore \<Rightarrow> bool" where
  "seqs_ok s \<longleftrightarrow> sorted_wrt (<) (map rev_seq (hs_entries s)) \<and>
     (\<forall>r \<in> set (hs_entries s). rev_seq r \<le> hs_seq s)"

definition bytes_ok :: "hstore \<Rightarrow> bool" where
  "bytes_ok s \<longleftrightarrow> hs_total_bytes s = sum_list (map revision_size (hs_entries s))"

text \<open>The coalescing target of a live object is its newest retained revision, if any is left.\<close>

definition targets_ok :: "hstore \<Rightarrow> bool" where
  "targets_ok s \<longleftrightarrow>
     (\<forall>u st. mget (hs_objects s) u = Some st \<longrightarrow> ob_last st = newest u (hs_entries s))"

text \<open>A scope's set holds exactly the live objects first seen through that scope.\<close>

definition scopes_ok :: "hstore \<Rightarrow> bool" where
  "scopes_ok s \<longleftrightarrow>
     (\<forall>sc u. u \<in> set (scope_set s sc) \<longleftrightarrow>
       (\<exists>st. mget (hs_objects s) u = Some st \<and> ob_scope st = sc)) \<and>
     (\<forall>sc. distinct (scope_set s sc))"

definition maps_ok :: "hstore \<Rightarrow> bool" where
  "maps_ok s \<longleftrightarrow> map_ok (hs_objects s) \<and> map_ok (hs_scopes s)"

definition history_ok :: "hstore \<Rightarrow> bool" where
  "history_ok s \<longleftrightarrow> seqs_ok s \<and> bytes_ok s \<and> targets_ok s \<and> scopes_ok s \<and> maps_ok s"

lemma of_uid_append [simp]: "of_uid u (xs @ ys) = of_uid u xs @ of_uid u ys"
  by (simp add: of_uid_def)

lemma of_uid_Nil [simp]: "of_uid u [] = []"
  by (simp add: of_uid_def)

lemma of_uid_Cons [simp]: "of_uid u (x # xs) = (if rev_uid x = u then x # of_uid u xs else of_uid u xs)"
  by (simp add: of_uid_def)

lemma newest_Nil [simp]: "newest u [] = None"
  by (simp add: newest_def)

lemma newest_snoc: "newest u (xs @ [r]) = (if rev_uid r = u then Some (rev_seq r) else newest u xs)"
  by (cases "of_uid u xs") (auto simp: newest_def)

lemma newest_None: "newest u rs = None \<longleftrightarrow> of_uid u rs = []"
  by (cases "of_uid u rs") (auto simp: newest_def)

lemma newest_Some: "newest u rs = Some q \<Longrightarrow> \<exists>r \<in> set rs. rev_uid r = u \<and> rev_seq r = q"
proof -
  assume "newest u rs = Some q"
  then obtain x xs where x: "of_uid u rs = x # xs" and q: "q = rev_seq (last (x # xs))"
    by (cases "of_uid u rs") (auto simp: newest_def)
  have "last (x # xs) \<in> set (of_uid u rs)" unfolding x by (rule last_in_set) simp
  with q show ?thesis by (auto simp: of_uid_def)
qed

lemma find_index_Some:
  "find_index P xs = Some i \<Longrightarrow> i < length xs \<and> P (xs ! i) \<and> (\<forall>j<i. \<not> P (xs ! j))"
proof (induction xs arbitrary: i)
  case (Cons x xs)
  show ?case
  proof (cases "P x")
    case True
    with Cons.prems show ?thesis by simp
  next
    case False
    with Cons.prems obtain k where "i = Suc k" "find_index P xs = Some k" by auto
    with Cons.IH [of k] False show ?thesis
      by (auto simp: nth_Cons split: nat.split)
  qed
qed simp

lemma find_index_None: "find_index P xs = None \<longleftrightarrow> (\<forall>x \<in> set xs. \<not> P x)"
  by (induction xs) auto

section \<open>Evictions\<close>

definition evictable :: "nat \<Rightarrow> hstore \<Rightarrow> bool" where
  "evictable i s \<longleftrightarrow> i < length (hs_entries s) \<and>
     (\<forall>j<i. rev_uid (hs_entries s ! j) \<noteq> rev_uid (hs_entries s ! i))"

lemma split_at:
  assumes "i < length xs"
  shows "xs = take i xs @ xs ! i # drop (Suc i) xs"
  by (rule id_take_nth_drop [OF assms])

lemma evictable_of_uid:
  assumes "evictable i s"
  shows "of_uid u (hs_entries s) =
    (if u = rev_uid (hs_entries s ! i) then [hs_entries s ! i] else []) @ of_uid u (hs_entries (evict i s))"
proof -
  let ?es = "hs_entries s" and ?r = "hs_entries s ! i"
  have i: "i < length ?es" and first: "\<And>j. j < i \<Longrightarrow> rev_uid (?es ! j) \<noteq> rev_uid ?r"
    using assms by (auto simp: evictable_def)
  have none: "of_uid (rev_uid ?r) (take i ?es) = []"
    using first i by (auto simp: of_uid_def filter_empty_conv in_set_conv_nth)
  have "of_uid u ?es = of_uid u (take i ?es @ ?r # drop (Suc i) ?es)"
    using split_at [OF i] by simp
  with none show ?thesis by auto
qed

definition evicted_state :: "revision \<Rightarrow> string \<Rightarrow> object_state \<Rightarrow> object_state" where
  "evicted_state r u st =
     (if u = rev_uid r then
        st\<lparr>ob_count := ob_count st - 1,
           ob_last := (if ob_last st = Some (rev_seq r) then None else ob_last st)\<rparr>
      else st)"

lemma evicted_state_frame [simp]:
  "ob_scope (evicted_state r u st) = ob_scope st"
  "ob_spec_hash (evicted_state r u st) = ob_spec_hash st"
  "ob_status_hash (evicted_state r u st) = ob_status_hash st"
  "object_record_of (evicted_state r u st) = object_record_of st"
  by (simp_all add: evicted_state_def object_record_of_def)

lemma mget_evict:
  "mget (hs_objects (evict i s)) u =
     map_option (evicted_state (hs_entries s ! i) u) (mget (hs_objects s) u)"
  by (cases "mget (hs_objects s) u")
    (auto simp: evict_def Let_def evicted_state_def split: option.split)

lemma evict_maps: "maps_ok s \<Longrightarrow> maps_ok (evict i s)"
  by (auto simp: maps_ok_def evict_def Let_def split: option.split)

lemma scope_set_cong: "hs_scopes s' = hs_scopes s \<Longrightarrow> scope_set s' = scope_set s"
  by (simp add: scope_set_def fun_eq_iff)

lemma seqs_remove:
  assumes "i < length (hs_entries s)" and "seqs_ok s"
  shows "seqs_ok (evict i s)"
proof -
  let ?es = "hs_entries s"
  have "sorted_wrt (<) (map rev_seq (take i ?es @ ?es ! i # drop (Suc i) ?es))"
    using assms split_at [of i ?es] by (simp add: seqs_ok_def)
  then have "sorted_wrt (<) (map rev_seq (take i ?es @ drop (Suc i) ?es))"
    by (simp add: sorted_wrt_append)
  moreover have "set (take i ?es @ drop (Suc i) ?es) \<subseteq> set ?es"
    using set_take_subset set_drop_subset by fastforce
  ultimately show ?thesis using assms by (auto simp: seqs_ok_def)
qed

lemma bytes_remove:
  assumes "i < length (hs_entries s)" and "bytes_ok s"
  shows "bytes_ok (evict i s)"
proof -
  let ?es = "hs_entries s"
  have "sum_list (map revision_size ?es) =
      sum_list (map revision_size (take i ?es @ ?es ! i # drop (Suc i) ?es))"
    using split_at [OF assms(1)] by simp
  then show ?thesis using assms(2) by (simp add: bytes_ok_def)
qed

lemma seqs_inj:
  assumes "seqs_ok s" "a \<in> set (hs_entries s)" "b \<in> set (hs_entries s)" "rev_seq a = rev_seq b"
  shows "a = b"
proof -
  have "distinct (map rev_seq (hs_entries s))"
    using assms(1) strict_sorted_iff by (auto simp: seqs_ok_def)
  then show ?thesis using assms(2-) by (auto simp: distinct_map dest: inj_onD)
qed

lemma newest_evict:
  assumes ok: "seqs_ok s" and ev: "evictable i s" and u: "u = rev_uid (hs_entries s ! i)"
  shows "newest u (hs_entries (evict i s)) =
    (if newest u (hs_entries s) = Some (rev_seq (hs_entries s ! i)) then None
     else newest u (hs_entries s))"
proof -
  let ?r = "hs_entries s ! i" and ?rest = "of_uid u (hs_entries (evict i s))"
  have split: "of_uid u (hs_entries s) = ?r # ?rest"
    using evictable_of_uid [OF ev, of u] u by simp
  show ?thesis
  proof (cases ?rest)
    case Nil
    then show ?thesis using split by (simp add: newest_def)
  next
    case (Cons x xs)
    have "sorted_wrt (<) (map rev_seq (of_uid u (hs_entries s)))"
      using ok by (auto simp: seqs_ok_def of_uid_def sorted_wrt_map intro: sorted_wrt_filter)
    then have "\<forall>y \<in> set (x # xs). rev_seq ?r < rev_seq y"
      unfolding split Cons by simp
    moreover have "last (x # xs) \<in> set (x # xs)" by (rule last_in_set) simp
    ultimately have "rev_seq ?r < rev_seq (last (x # xs))" by blast
    then show ?thesis using split Cons by (simp add: newest_def)
  qed
qed

lemma newest_evict_other:
  assumes "evictable i s" and "u \<noteq> rev_uid (hs_entries s ! i)"
  shows "newest u (hs_entries (evict i s)) = newest u (hs_entries s)"
  using evictable_of_uid [OF assms(1), of u] assms(2) by (simp add: newest_def)

lemma evict_targets:
  assumes "seqs_ok s" "evictable i s" "targets_ok s"
  shows "targets_ok (evict i s)"
  unfolding targets_ok_def
proof (intro allI impI)
  fix u st
  assume m: "mget (hs_objects (evict i s)) u = Some st"
  show "ob_last st = newest u (hs_entries (evict i s))"
  proof (cases "u = rev_uid (hs_entries s ! i)")
    case True
    then show ?thesis
      using m newest_evict [OF assms(1,2) True] assms(3)
      by (auto simp: mget_evict targets_ok_def evicted_state_def)
  next
    case False
    then show ?thesis
      using m newest_evict_other [OF assms(2) False] assms(3)
      by (auto simp: mget_evict targets_ok_def evicted_state_def)
  qed
qed

lemma evict_scopes: "scopes_ok s \<Longrightarrow> scopes_ok (evict i s)"
proof -
  have same: "(\<exists>st. mget (hs_objects (evict i s)) u = Some st \<and> ob_scope st = sc) \<longleftrightarrow>
      (\<exists>st. mget (hs_objects s) u = Some st \<and> ob_scope st = sc)" for u sc
    by (auto simp: mget_evict)
  show "scopes_ok s \<Longrightarrow> scopes_ok (evict i s)"
    by (simp add: scopes_ok_def same scope_set_cong [OF evict_frame(2)])
qed

lemma evict_ok: "history_ok s \<Longrightarrow> evictable i s \<Longrightarrow> history_ok (evict i s)"
  unfolding history_ok_def
  by (auto simp: evictable_def intro: seqs_remove bytes_remove evict_maps evict_scopes
      intro!: evict_targets [unfolded evictable_def])

lemma evictable_oldest: "hs_entries s \<noteq> [] \<Longrightarrow> evictable 0 s"
  by (simp add: evictable_def)

lemma evictable_of_object:
  "find_index (\<lambda>r. rev_uid r = uid) (hs_entries s) = Some i \<Longrightarrow> evictable i s"
  by (drule find_index_Some) (auto simp: evictable_def)

text \<open>
  Enforcement is a sequence of evictions: what every admissible eviction preserves, the
  enforcement preserves.
\<close>

lemma enforce_bounds_induct:
  assumes "P s" and step: "\<And>s i. P s \<Longrightarrow> evictable i s \<Longrightarrow> P (evict i s)"
  shows "P (enforce_bounds s)"
  using assms(1)
proof (induction s rule: enforce_bounds.induct)
  case (1 s)
  then show ?case
    using step evictable_oldest [of s] by (subst enforce_bounds.simps) auto
qed

lemma enforce_per_object_cases:
  assumes "P s" and "\<And>i. P s \<Longrightarrow> evictable i s \<Longrightarrow> P (evict i s)"
  shows "P (enforce_per_object uid s)"
  using assms evictable_of_object [of uid s]
  by (auto simp: enforce_per_object_def split: option.split)

lemma enforce_bounds_holds: "\<not> over_bounds (enforce_bounds s) \<or> hs_entries (enforce_bounds s) = []"
proof (induction s rule: enforce_bounds.induct)
  case (1 s)
  then show ?case by (subst (1 2) enforce_bounds.simps) auto
qed

section \<open>The primitive steps\<close>

lemma push_frame [simp]:
  "hs_entries (push_revision r s) = hs_entries s @ [r\<lparr>rev_seq := hs_seq s + 1\<rparr>]"
  "hs_scopes (push_revision r s) = hs_scopes s" "hs_limits (push_revision r s) = hs_limits s"
  "hs_seq (push_revision r s) = hs_seq s + 1"
  "hs_generation (push_revision r s) = hs_generation s + 1"
  "hs_total_bytes (push_revision r s) = hs_total_bytes s + revision_size r"
  "hs_evicted (push_revision r s) = hs_evicted s" "hs_persist (push_revision r s) = hs_persist s"
  by (simp_all add: push_revision_def Let_def revision_size_def)

definition pushed_state :: "nat \<Rightarrow> string \<Rightarrow> string \<Rightarrow> object_state \<Rightarrow> object_state" where
  "pushed_state q uid u st =
     (if u = uid then st\<lparr>ob_count := ob_count st + 1, ob_last := Some q\<rparr> else st)"

lemma pushed_state_frame [simp]:
  "ob_scope (pushed_state q uid u st) = ob_scope st"
  "ob_spec_hash (pushed_state q uid u st) = ob_spec_hash st"
  "ob_status_hash (pushed_state q uid u st) = ob_status_hash st"
  "object_record_of (pushed_state q uid u st) = object_record_of st"
  by (simp_all add: pushed_state_def object_record_of_def)

lemma mget_push:
  "mget (hs_objects (push_revision r s)) u =
     map_option (pushed_state (hs_seq s + 1) (rev_uid r) u) (mget (hs_objects s) u)"
  by (cases "mget (hs_objects s) u")
    (auto simp: push_revision_def Let_def pushed_state_def split: option.split)

lemma push_maps: "maps_ok s \<Longrightarrow> maps_ok (push_revision r s)"
  by (auto simp: maps_ok_def push_revision_def Let_def split: option.split)

lemma commit_frame [simp]:
  "hs_entries (commit obs now s) = hs_entries s" "hs_scopes (commit obs now s) = hs_scopes s"
  "hs_limits (commit obs now s) = hs_limits s" "hs_seq (commit obs now s) = hs_seq s"
  "hs_generation (commit obs now s) = hs_generation s"
  "hs_total_bytes (commit obs now s) = hs_total_bytes s"
  "hs_evicted (commit obs now s) = hs_evicted s" "hs_persist (commit obs now s) = hs_persist s"
  by (simp_all add: commit_def Let_def split: option.split)

definition committed_state :: "observation \<Rightarrow> instant \<Rightarrow> string \<Rightarrow> object_state \<Rightarrow> object_state" where
  "committed_state obs now u st =
     (if u = obs_uid obs then
        st\<lparr>ob_spec_hash := obs_spec_hash obs, ob_status_hash := obs_status_hash obs,
           ob_last_observed_at := now\<rparr>
      else st)"

lemma committed_state_frame [simp]:
  "ob_scope (committed_state obs now u st) = ob_scope st"
  "ob_count (committed_state obs now u st) = ob_count st"
  "ob_last (committed_state obs now u st) = ob_last st"
  by (simp_all add: committed_state_def)

lemma mget_commit:
  "mget (hs_objects (commit obs now s)) u =
     map_option (committed_state obs now u) (mget (hs_objects s) u)"
  by (cases "mget (hs_objects s) u")
    (auto simp: commit_def Let_def committed_state_def split: option.split)

lemma commit_maps: "maps_ok s \<Longrightarrow> maps_ok (commit obs now s)"
  by (auto simp: maps_ok_def commit_def Let_def split: option.split)

lemma forget_frame [simp]:
  "hs_entries (forget u s) = hs_entries s" "hs_limits (forget u s) = hs_limits s"
  "hs_seq (forget u s) = hs_seq s" "hs_generation (forget u s) = hs_generation s"
  "hs_total_bytes (forget u s) = hs_total_bytes s" "hs_evicted (forget u s) = hs_evicted s"
  "hs_persist (forget u s) = hs_persist s" "hs_objects (forget u s) = mdel u (hs_objects s)"
  by (simp_all add: forget_def)

lemma mget_map: "mget (map (\<lambda>(k, v). (k, f v)) m) j = map_option f (mget m j)"
  by (induction m) (auto simp: mget_def)

lemma scope_set_forget: "scope_set (forget u s) sc = filter (\<lambda>v. v \<noteq> u) (scope_set s sc)"
  by (simp add: scope_set_def forget_def mget_map split: option.split)

lemma forget_maps: "maps_ok s \<Longrightarrow> maps_ok (forget u s)"
  by (simp add: maps_ok_def forget_def) (simp add: map_ok_def comp_def case_prod_unfold)

lemma admit_frame [simp]:
  "hs_entries (admit obs s) = hs_entries s" "hs_limits (admit obs s) = hs_limits s"
  "hs_seq (admit obs s) = hs_seq s" "hs_generation (admit obs s) = hs_generation s"
  "hs_total_bytes (admit obs s) = hs_total_bytes s" "hs_evicted (admit obs s) = hs_evicted s"
  "hs_persist (admit obs s) = hs_persist s" "hs_mirror (admit obs s) = hs_mirror s"
  "hs_objects (admit obs s) = mput (obs_uid obs) (fresh_state obs) (hs_objects s)"
  by (simp_all add: admit_def scope_add_def)

lemma scope_set_admit:
  "scope_set (admit obs s) sc =
     (if sc = obs_scope obs then List.insert (obs_uid obs) (scope_set s sc) else scope_set s sc)"
  by (simp add: scope_set_def admit_def scope_add_def)

lemma admit_maps: "maps_ok s \<Longrightarrow> maps_ok (admit obs s)"
  by (simp add: maps_ok_def admit_def scope_add_def)

lemma rewrite_frame [simp]:
  "hs_entries (rewrite_revision r r1 s) = replace_revision r1 (hs_entries s)"
  "hs_limits (rewrite_revision r r1 s) = hs_limits s" "hs_scopes (rewrite_revision r r1 s) = hs_scopes s"
  "hs_seq (rewrite_revision r r1 s) = hs_seq s" "hs_generation (rewrite_revision r r1 s) = hs_generation s"
  "hs_total_bytes (rewrite_revision r r1 s) = hs_total_bytes s - revision_size r + revision_size r1"
  "hs_evicted (rewrite_revision r r1 s) = hs_evicted s"
  "hs_persist (rewrite_revision r r1 s) = hs_persist s"
  "hs_objects (rewrite_revision r r1 s) = hs_objects s"
  by (simp_all add: rewrite_revision_def)

lemma replace_seqs [simp]: "map rev_seq (replace_revision r1 rs) = map rev_seq rs"
  by (simp add: replace_revision_def)

lemma coalesced_frame [simp]:
  "rev_seq (coalesced obs now r) = rev_seq r" "rev_uid (coalesced obs now r) = rev_uid r"
  "rev_change (coalesced obs now r) = rev_change r"
  by (simp_all add: coalesced_def)

lemma replace_uids:
  assumes "distinct (map rev_seq rs)" "r \<in> set rs" "rev_seq r1 = rev_seq r" "rev_uid r1 = rev_uid r"
  shows "map (\<lambda>x. (rev_uid x, rev_seq x)) (replace_revision r1 rs) = map (\<lambda>x. (rev_uid x, rev_seq x)) rs"
  using assms by (auto simp: replace_revision_def distinct_map dest: inj_onD)

lemma of_uid_seqs: "map rev_seq (of_uid u rs) = map snd (filter (\<lambda>p. fst p = u) (map (\<lambda>x. (rev_uid x, rev_seq x)) rs))"
  by (induction rs) auto

lemma newest_of_seqs: "newest u rs = (case map rev_seq (of_uid u rs) of [] \<Rightarrow> None | q # qs \<Rightarrow> Some (last (q # qs)))"
  by (cases "of_uid u rs") (simp_all add: newest_def last_map)

lemma distinct_seqs: "seqs_ok s \<Longrightarrow> distinct (map rev_seq (hs_entries s))"
  using strict_sorted_iff by (auto simp: seqs_ok_def)

definition generation_up :: "hstore \<Rightarrow> hstore" where
  "generation_up s = s\<lparr>hs_generation := hs_generation s + 1\<rparr>"

lemma coalesce_SomeE:
  assumes "coalesce obs st now s = Some s'"
  obtains r where "r \<in> set (hs_entries s)" "s' = enforce_bounds
    (generation_up (commit obs now (rewrite_revision r (coalesced obs now r) s)))"
proof -
  from assms obtain q r where "retained s q = Some r" "s' = enforce_bounds
      (generation_up (commit obs now (rewrite_revision r (coalesced obs now r) s)))"
    by (auto simp: coalesce_def Let_def generation_up_def split: option.splits if_splits)
  moreover from this(1) have "r \<in> set (hs_entries s)"
    unfolding retained_def by (metis find_Some_iff nth_mem)
  ultimately show ?thesis using that by blast
qed

text \<open>
  The contract of a store invariant: \<open>P\<close> holds between operations, \<open>Q u\<close> while the object \<open>u\<close> has been
  admitted but its first observation is not committed. An invariant may restrict which identifiers
  are admitted and forgotten.
\<close>

locale store_invariant =
  fixes P :: "hstore \<Rightarrow> bool" and Q :: "string \<Rightarrow> hstore \<Rightarrow> bool"
    and admits :: "string \<Rightarrow> bool" and forgets :: "string \<Rightarrow> bool"
  assumes evict_P: "P s \<Longrightarrow> evictable i s \<Longrightarrow> P (evict i s)"
    and evict_Q: "Q u s \<Longrightarrow> evictable i s \<Longrightarrow> Q u (evict i s)"
    and push_P: "P s \<Longrightarrow> mget (hs_objects s) (rev_uid r) \<noteq> None \<Longrightarrow> P (push_revision r s)"
    and admit_push: "P s \<Longrightarrow> mget (hs_objects s) (obs_uid obs) = None \<Longrightarrow> admits (obs_uid obs) \<Longrightarrow>
      rev_uid r = obs_uid obs \<Longrightarrow> Q (obs_uid obs) (push_revision r (admit obs s))"
    and commit_Q: "Q (obs_uid obs) s \<Longrightarrow> P (commit obs now s)"
    and commit_P: "P s \<Longrightarrow> admits (obs_uid obs) \<Longrightarrow> P (commit obs now s)"
    and forget_P: "P s \<Longrightarrow> forgets u \<Longrightarrow> P (forget u s)"
    and rewrite_P: "P s \<Longrightarrow> r \<in> set (hs_entries s) \<Longrightarrow> P (rewrite_revision r (coalesced obs now r) s)"
    and generation_P: "P s \<Longrightarrow> P (s\<lparr>hs_generation := g\<rparr>)"
begin

lemma bounds_P: "P s \<Longrightarrow> P (enforce_bounds s)"
  using enforce_bounds_induct [of P] evict_P by blast

lemma enforce_P: "P s \<Longrightarrow> P (enforce_bounds (enforce_per_object uid s))"
  using enforce_per_object_cases [of P] evict_P bounds_P by blast

lemma enforce_Q:
  assumes "Q u s"
  shows "Q u (enforce_bounds (enforce_per_object uid s))"
proof -
  have "Q u (enforce_per_object uid s)"
    using enforce_per_object_cases [of "Q u"] evict_Q assms by blast
  then show ?thesis using enforce_bounds_induct [of "Q u"] evict_Q by blast
qed

lemma append_P: "P s \<Longrightarrow> mget (hs_objects s) (rev_uid r) \<noteq> None \<Longrightarrow> P (append_revision r s)"
  unfolding append_revision_def by (intro enforce_P push_P)

lemma coalesce_P:
  assumes "P s" "admits (obs_uid obs)" "coalesce obs st now s = Some s'"
  shows "P s'"
proof -
  from assms(3) obtain r where r: "r \<in> set (hs_entries s)" and s': "s' = enforce_bounds
      (generation_up (commit obs now (rewrite_revision r (coalesced obs now r) s)))"
    by (rule coalesce_SomeE)
  show ?thesis unfolding s' generation_up_def
    by (intro bounds_P generation_P commit_P rewrite_P assms r)
qed

lemma unchanged_commit:
  assumes "mget (hs_objects s) (obs_uid obs) = Some st"
    and "obs_spec_hash obs = ob_spec_hash st" "obs_status_hash obs = ob_status_hash st"
  shows "mirror (MPutObject (obs_uid obs) (object_record_of (st\<lparr>ob_last_observed_at := now\<rparr>)))
      (s\<lparr>hs_objects := mput (obs_uid obs) (st\<lparr>ob_last_observed_at := now\<rparr>) (hs_objects s)\<rparr>) =
    commit obs now s"
  using assms by (simp add: commit_def Let_def)

lemma observe_P:
  assumes "P s" and "if obs_deleted obs then forgets (obs_uid obs) else admits (obs_uid obs)"
  shows "P (observe obs now seed s)"
proof (cases "obs_deleted obs")
  case True
  with assms show ?thesis
    by (auto simp: observe_def delete_observed_def Let_def revision_of_def split: option.split
        intro!: forget_P append_P)
next
  case False
  note alive = this
  show ?thesis
  proof (cases "mget (hs_objects s) (obs_uid obs)")
    case None
    have "rev_uid (revision_of obs c now zero_time False) = obs_uid obs" for c
      by (simp add: revision_of_def)
    with None alive assms show ?thesis
      by (auto simp: observe_def Let_def append_revision_def intro!: commit_Q enforce_Q admit_push)
  next
    case (Some st)
    have "P (append_revision (revision_of obs c now p seed) s)" for c p
      using assms(1) Some by (intro append_P) (auto simp: revision_of_def)
    then show ?thesis
      using assms alive Some unchanged_commit [OF Some]
      by (auto simp: observe_def Let_def intro!: commit_P split: option.split dest: coalesce_P)
  qed
qed

lemma delete_unobserved_P:
  assumes "P s" "forgets uid" shows "P (delete_unobserved now uid s)"
  using assms by (auto simp: delete_unobserved_def unobserved_deletion_def split: option.split
      intro!: forget_P append_P)

lemma seed_P:
  assumes "P s" and "\<And>u. u \<notin> set (map obs_uid obs) \<Longrightarrow> forgets u"
    and "\<And>x. x \<in> set obs \<Longrightarrow> if obs_deleted x then forgets (obs_uid x) else admits (obs_uid x)"
  shows "P (store_seed scope obs now s)"
proof -
  have gone: "P (fold (delete_unobserved now) us t)" if "P t" "\<forall>u \<in> set us. forgets u" for us t
    using that by (induction us arbitrary: t) (auto intro: delete_unobserved_P)
  have listed: "P (fold (\<lambda>x. observe x now True) xs t)"
    if "P t" "\<forall>x \<in> set xs. if obs_deleted x then forgets (obs_uid x) else admits (obs_uid x)" for xs t
    using that by (induction xs arbitrary: t) (auto intro: observe_P)
  have "\<forall>u \<in> set (gone_uids scope obs s). forgets u"
    using assms(2) by (auto simp: gone_uids_def)
  with assms show ?thesis
    unfolding store_seed_def by (intro listed gone) auto
qed

end

section \<open>Every operation keeps the invariant\<close>

lemma push_seqs: "seqs_ok s \<Longrightarrow> seqs_ok (push_revision r s)"
  by (auto simp: seqs_ok_def sorted_wrt_append less_Suc_eq_le)

lemma push_bytes: "bytes_ok s \<Longrightarrow> bytes_ok (push_revision r s)"
  by (simp add: bytes_ok_def revision_size_def)

lemma push_targets:
  assumes "\<And>u st. u \<noteq> rev_uid r \<Longrightarrow> mget (hs_objects s) u = Some st \<Longrightarrow> ob_last st = newest u (hs_entries s)"
  shows "targets_ok (push_revision r s)"
  using assms by (auto simp: targets_ok_def mget_push newest_snoc pushed_state_def)

lemma scopes_cong:
  assumes "\<And>sc. scope_set s' sc = scope_set s sc"
    and "\<And>u. map_option ob_scope (mget (hs_objects s') u) = map_option ob_scope (mget (hs_objects s) u)"
  shows "scopes_ok s' = scopes_ok s"
proof -
  have "(\<exists>st. m = Some st \<and> ob_scope st = sc) \<longleftrightarrow> map_option ob_scope m = Some sc" for m sc
    by auto
  then have "(\<exists>st. mget (hs_objects s') u = Some st \<and> ob_scope st = sc) \<longleftrightarrow>
      (\<exists>st. mget (hs_objects s) u = Some st \<and> ob_scope st = sc)" for u sc
    by (metis assms(2))
  then show ?thesis unfolding scopes_ok_def assms(1) by presburger
qed

lemma scope_set_frame [simp]:
  "scope_set (push_revision r s) = scope_set s" "scope_set (commit obs now s) = scope_set s"
  "scope_set (rewrite_revision r r1 s) = scope_set s" "scope_set (evict i s) = scope_set s"
  "scope_set (s\<lparr>hs_generation := g\<rparr>) = scope_set s"
  by (rule scope_set_cong, simp)+

lemma push_scopes: "scopes_ok (push_revision r s) = scopes_ok s"
  by (rule scopes_cong) (simp_all add: mget_push option.map_comp comp_def)

lemma admit_scopes:
  assumes "scopes_ok s" and "mget (hs_objects s) (obs_uid obs) = None"
  shows "scopes_ok (admit obs s)"
proof -
  have "u \<in> set (scope_set (admit obs s) sc) \<longleftrightarrow>
      (\<exists>st. mget (hs_objects (admit obs s)) u = Some st \<and> ob_scope st = sc)" for u sc
    using assms by (auto simp: scopes_ok_def scope_set_admit fresh_state_def)
  moreover have "distinct (scope_set (admit obs s) sc)" for sc
    using assms by (auto simp: scopes_ok_def scope_set_admit)
  ultimately show ?thesis by (simp add: scopes_ok_def)
qed

lemma commit_scopes: "scopes_ok (commit obs now s) = scopes_ok s"
  by (rule scopes_cong) (simp_all add: mget_commit option.map_comp comp_def)

lemma commit_history_ok: "history_ok s \<Longrightarrow> history_ok (commit obs now s)"
  by (auto simp: history_ok_def commit_scopes seqs_ok_def bytes_ok_def targets_ok_def mget_commit
      intro: commit_maps)

lemma forget_history_ok: "history_ok s \<Longrightarrow> history_ok (forget u s)"
  by (auto simp: history_ok_def seqs_ok_def bytes_ok_def targets_ok_def scopes_ok_def
      scope_set_forget split: if_splits intro: forget_maps)

lemma sum_replace:
  assumes "distinct (map rev_seq rs)" "r \<in> set rs" "rev_seq r1 = rev_seq r"
  shows "sum_list (map revision_size (replace_revision r1 rs)) =
    sum_list (map revision_size rs) - revision_size r + revision_size r1"
  using assms
proof (induction rs)
  case (Cons x xs)
  show ?case
  proof (cases "x = r")
    case True
    then have "replace_revision r1 xs = xs"
      using Cons.prems by (auto simp: replace_revision_def intro!: map_idI) (metis imageI)
    then show ?thesis using True Cons.prems by (simp add: replace_revision_def)
  next
    case False
    then have "rev_seq x \<noteq> rev_seq r" using Cons.prems by auto
    then show ?thesis using False Cons by (simp add: replace_revision_def)
  qed
qed simp

lemma rewrite_newest:
  assumes "seqs_ok s" "r \<in> set (hs_entries s)"
  shows "newest u (replace_revision (coalesced obs now r) (hs_entries s)) = newest u (hs_entries s)"
    and "length (of_uid u (replace_revision (coalesced obs now r) (hs_entries s))) =
      length (of_uid u (hs_entries s))"
proof -
  have eq: "map rev_seq (of_uid u (replace_revision (coalesced obs now r) (hs_entries s))) =
      map rev_seq (of_uid u (hs_entries s))"
    unfolding of_uid_seqs by (simp add: replace_uids [OF distinct_seqs [OF assms(1)] assms(2)])
  then show "newest u (replace_revision (coalesced obs now r) (hs_entries s)) = newest u (hs_entries s)"
    by (simp add: newest_of_seqs)
  from eq show "length (of_uid u (replace_revision (coalesced obs now r) (hs_entries s))) =
      length (of_uid u (hs_entries s))"
    by (metis length_map)
qed

lemma rewrite_history_ok:
  assumes "history_ok s" "r \<in> set (hs_entries s)"
  shows "history_ok (rewrite_revision r (coalesced obs now r) s)"
proof -
  have ok: "seqs_ok s" "bytes_ok s" "targets_ok s" "scopes_ok s" "maps_ok s"
    using assms(1) by (simp_all add: history_ok_def)
  have "\<forall>x \<in> set (replace_revision (coalesced obs now r) (hs_entries s)). rev_seq x \<le> hs_seq s"
    using ok(1) assms(2) by (auto simp: replace_revision_def seqs_ok_def)
  then have "seqs_ok (rewrite_revision r (coalesced obs now r) s)"
    using ok(1) by (simp add: seqs_ok_def)
  moreover have "bytes_ok (rewrite_revision r (coalesced obs now r) s)"
    using ok(2) sum_replace [OF distinct_seqs [OF ok(1)] assms(2)] by (simp add: bytes_ok_def)
  moreover have "targets_ok (rewrite_revision r (coalesced obs now r) s)"
    using ok(3) rewrite_newest(1) [OF ok(1) assms(2)] by (simp add: targets_ok_def)
  moreover have "scopes_ok (rewrite_revision r (coalesced obs now r) s)"
    using ok(4) by (simp add: scopes_ok_def scope_set_def)
  ultimately show ?thesis using ok(5) by (simp add: history_ok_def maps_ok_def)
qed

lemma push_history_ok: "history_ok s \<Longrightarrow> history_ok (push_revision r s)"
  using push_targets [of r s]
  by (simp add: history_ok_def push_scopes push_seqs push_bytes push_maps targets_ok_def)

lemma admit_push_history_ok:
  assumes "history_ok s" "mget (hs_objects s) (obs_uid obs) = None" "rev_uid r = obs_uid obs"
  shows "history_ok (push_revision r (admit obs s))"
proof -
  have "seqs_ok (admit obs s)" "bytes_ok (admit obs s)" "scopes_ok (admit obs s)" "maps_ok (admit obs s)"
    using assms(1,2) admit_scopes admit_maps by (auto simp: history_ok_def seqs_ok_def bytes_ok_def)
  moreover have "targets_ok (push_revision r (admit obs s))"
    using assms by (intro push_targets) (auto simp: history_ok_def targets_ok_def)
  ultimately show ?thesis
    by (auto simp: history_ok_def push_scopes intro: push_seqs push_bytes push_maps)
qed

lemma generation_history_ok: "history_ok (s\<lparr>hs_generation := g\<rparr>) = history_ok s"
  by (simp add: history_ok_def seqs_ok_def bytes_ok_def targets_ok_def scopes_ok_def scope_set_def
      maps_ok_def)

interpretation ok: store_invariant history_ok "\<lambda>_. history_ok" "\<lambda>_. True" "\<lambda>_. True"
  by unfold_locales
    (auto intro: evict_ok push_history_ok admit_push_history_ok commit_history_ok
      forget_history_ok rewrite_history_ok simp: generation_history_ok)

interpretation limits: store_invariant "\<lambda>s. hs_limits s = lim \<and> hs_persist s = p"
    "\<lambda>_ s. hs_limits s = lim \<and> hs_persist s = p" "\<lambda>_. True" "\<lambda>_. True"
  for lim p
  by unfold_locales auto

section \<open>The global bounds\<close>

lemma revision_size_nonneg: "0 \<le> revision_size r"
proof -
  have "0 \<le> owner_size fo" for fo
    by (auto simp: owner_size_def intro!: add_nonneg_nonneg sum_list_nonneg_int)
  then show ?thesis
    by (auto simp: revision_size_def intro!: add_nonneg_nonneg sum_list_nonneg_int)
qed

lemma within_bounds: "bytes_ok s \<Longrightarrow> \<not> over_bounds (enforce_bounds s)"
proof -
  assume "bytes_ok s"
  then have "bytes_ok (enforce_bounds s)"
    using enforce_bounds_induct [of bytes_ok s] bytes_remove by (auto simp: evictable_def)
  moreover have "hs_entries t = [] \<Longrightarrow> bytes_ok t \<Longrightarrow> \<not> over_bounds t" for t
    by (auto simp: over_bounds_def bytes_ok_def)
  ultimately show ?thesis using enforce_bounds_holds by blast
qed

lemma over_bounds_cong:
  "hs_entries s' = hs_entries s \<Longrightarrow> hs_total_bytes s' = hs_total_bytes s \<Longrightarrow>
   hs_limits s' = hs_limits s \<Longrightarrow> over_bounds s' = over_bounds s"
  by (simp add: over_bounds_def)

lemma over_commit [simp]: "over_bounds (commit obs now s) = over_bounds s"
  by (rule over_bounds_cong) simp_all

lemma over_forget [simp]: "over_bounds (forget u s) = over_bounds s"
  by (rule over_bounds_cong) simp_all

lemma append_within:
  assumes "bytes_ok s"
  shows "\<not> over_bounds (append_revision r s)"
proof -
  have "bytes_ok (enforce_per_object (rev_uid r) (push_revision r s))"
    using enforce_per_object_cases [of bytes_ok] push_bytes [OF assms] bytes_remove
    by (auto simp: evictable_def)
  then show ?thesis unfolding append_revision_def by (rule within_bounds)
qed

lemma coalesce_within:
  assumes ok: "history_ok s" and c: "coalesce obs st now s = Some s'"
  shows "\<not> over_bounds s'"
proof -
  from c obtain r where r: "r \<in> set (hs_entries s)" and s': "s' = enforce_bounds
      (generation_up (commit obs now (rewrite_revision r (coalesced obs now r) s)))"
    by (rule coalesce_SomeE)
  from r have "bytes_ok (rewrite_revision r (coalesced obs now r) s)"
    using rewrite_history_ok [OF ok] by (simp add: history_ok_def)
  then show ?thesis unfolding s' generation_up_def
    by (intro within_bounds) (simp add: bytes_ok_def)
qed

lemma observe_within:
  assumes "history_ok s" "\<not> over_bounds s"
  shows "\<not> over_bounds (observe obs now seed s)"
proof -
  have b: "bytes_ok s" "bytes_ok (admit obs s)" using assms(1) by (simp_all add: history_ok_def bytes_ok_def)
  have m: "over_bounds (mirror mop (s\<lparr>hs_objects := x\<rparr>)) = over_bounds s" for mop x
    by (rule over_bounds_cong) simp_all
  show ?thesis
    using assms(2) append_within [OF b(1)] append_within [OF b(2)] coalesce_within [OF assms(1)]
    by (auto simp: observe_def delete_observed_def Let_def m split: option.split)
qed

lemma delete_unobserved_within:
  assumes "history_ok s" "\<not> over_bounds s"
  shows "\<not> over_bounds (delete_unobserved now u s)"
  using assms append_within [of s] by (auto simp: delete_unobserved_def history_ok_def split: option.split)

lemma seed_within:
  assumes "history_ok s" "\<not> over_bounds s"
  shows "\<not> over_bounds (store_seed scope obs now s)"
proof -
  have gone: "history_ok (fold (delete_unobserved now) us t) \<and>
      \<not> over_bounds (fold (delete_unobserved now) us t)" if "history_ok t" "\<not> over_bounds t" for us t
    using that
  proof (induction us arbitrary: t)
    case (Cons u us)
    from Cons.prems(1) have "history_ok (delete_unobserved now u t)" by (rule ok.delete_unobserved_P) simp
    with Cons delete_unobserved_within show ?case by simp
  qed simp
  have listed: "\<not> over_bounds (fold (\<lambda>x. observe x now True) xs t)"
    if "history_ok t" "\<not> over_bounds t" for xs t
    using that
  proof (induction xs arbitrary: t)
    case (Cons x xs)
    from Cons.prems have "history_ok (observe x now True t)" by (intro ok.observe_P) auto
    with Cons observe_within show ?case by simp
  qed simp
  show ?thesis unfolding store_seed_def using listed gone [OF assms] by blast
qed

text \<open>The operations a recorder is called with, and a run of them.\<close>

datatype history_op = OpObserve observation instant | OpSeed string "observation list" instant

primrec apply_op :: "history_op \<Rightarrow> hstore \<Rightarrow> hstore" where
  "apply_op (OpObserve obs now) s = store_observe obs now s"
| "apply_op (OpSeed scope obs now) s = store_seed scope obs now s"

definition run_history :: "history_op list \<Rightarrow> hstore \<Rightarrow> hstore" where
  "run_history ops s = fold apply_op ops s"

lemma apply_op_ok: "history_ok s \<Longrightarrow> history_ok (apply_op a s)"
  using ok.observe_P [of s] ok.seed_P [of s] by (cases a) (simp_all add: store_observe_def)

lemma apply_op_within: "history_ok s \<Longrightarrow> \<not> over_bounds s \<Longrightarrow> \<not> over_bounds (apply_op a s)"
  by (cases a) (auto simp: store_observe_def dest: observe_within seed_within)

lemma apply_op_limits: "hs_limits (apply_op a s) = hs_limits s \<and> hs_persist (apply_op a s) = hs_persist s"
  using limits.observe_P [of s "hs_limits s" "hs_persist s"] limits.seed_P [of s "hs_limits s" "hs_persist s"]
  by (cases a) (simp_all add: store_observe_def)

lemma run_ok:
  "history_ok s \<Longrightarrow> \<not> over_bounds s \<Longrightarrow>
   history_ok (run_history ops s) \<and> \<not> over_bounds (run_history ops s)"
  unfolding run_history_def
  by (induction ops arbitrary: s) (auto simp: apply_op_ok apply_op_within)

lemma run_limits: "hs_limits (run_history ops s) = hs_limits s"
  unfolding run_history_def by (induction ops arbitrary: s) (simp_all add: apply_op_limits)

lemma new_store_ok: "history_ok (new_store lim)" and new_store_within: "\<not> over_bounds (new_store lim)"
  by (simp_all add: new_store_def history_ok_def seqs_ok_def bytes_ok_def targets_ok_def
      scopes_ok_def scope_set_def maps_ok_def over_bounds_def)

section \<open>Counting the revisions of an object\<close>

text \<open>
  The count an object carries is exact as long as no identifier returns after its deletion: a new
  incarnation starts counting from zero, and retained revisions of an older one with the same
  identifier would not be in its count.
\<close>

definition counts_ok :: "hstore \<Rightarrow> bool" where
  "counts_ok s \<longleftrightarrow>
     (\<forall>u st. mget (hs_objects s) u = Some st \<longrightarrow> ob_count st = int (length (of_uid u (hs_entries s))))"

definition not_returning :: "hstore \<Rightarrow> string \<Rightarrow> bool" where
  "not_returning s u \<longleftrightarrow> mget (hs_objects s) u \<noteq> None \<or> of_uid u (hs_entries s) = []"

definition cap_ok :: "hstore \<Rightarrow> bool" where
  "cap_ok s \<longleftrightarrow>
     (lim_per_object (hs_limits s) > 0 \<longrightarrow>
       (\<forall>u. int (length (of_uid u (hs_entries s))) \<le> lim_per_object (hs_limits s)))"

definition counted :: "string set \<Rightarrow> hstore \<Rightarrow> bool" where
  "counted U s \<longleftrightarrow> history_ok s \<and> counts_ok s \<and> (\<forall>u \<in> U. not_returning s u)"

lemma counts_evict:
  assumes "counts_ok s" "evictable i s" shows "counts_ok (evict i s)"
  unfolding counts_ok_def
proof (intro allI impI)
  fix u st'
  assume "mget (hs_objects (evict i s)) u = Some st'"
  then obtain st where st: "mget (hs_objects s) u = Some st"
    and st': "st' = evicted_state (hs_entries s ! i) u st"
    by (auto simp: mget_evict)
  have "length (of_uid u (hs_entries s)) =
      (if u = rev_uid (hs_entries s ! i) then 1 else 0) + length (of_uid u (hs_entries (evict i s)))"
    using evictable_of_uid [OF assms(2), of u] by simp
  moreover have "ob_count st = int (length (of_uid u (hs_entries s)))"
    using assms(1) st by (simp add: counts_ok_def)
  ultimately show "ob_count st' = int (length (of_uid u (hs_entries (evict i s))))"
    unfolding st' by (cases "u = rev_uid (hs_entries s ! i)")
      (simp_all add: evicted_state_def del: evict_frame)
qed

lemma not_returning_evict:
  assumes "not_returning s u" "evictable i s" shows "not_returning (evict i s) u"
  using assms evictable_of_uid [OF assms(2), of u]
  by (auto simp: not_returning_def mget_evict simp del: evict_frame of_uid_append)

lemma counted_evict: "counted U s \<Longrightarrow> evictable i s \<Longrightarrow> counted U (evict i s)"
  by (simp add: counted_def evict_ok counts_evict not_returning_evict)

lemma counted_push:
  assumes "counted U s" "mget (hs_objects s) (rev_uid r) \<noteq> None"
  shows "counted U (push_revision r s)"
  using assms
  by (auto simp: counted_def push_history_ok counts_ok_def not_returning_def mget_push pushed_state_def
      split: if_splits)

lemma counted_admit_push:
  assumes "counted U s" "mget (hs_objects s) (obs_uid obs) = None" "obs_uid obs \<in> U"
    "rev_uid r = obs_uid obs"
  shows "counted U (push_revision r (admit obs s))"
proof -
  have "of_uid (obs_uid obs) (hs_entries s) = []"
    using assms by (auto simp: counted_def not_returning_def)
  then have "counts_ok (push_revision r (admit obs s))"
    using assms by (auto simp: counted_def counts_ok_def mget_push pushed_state_def fresh_state_def)
  moreover have "\<forall>u \<in> U. not_returning (push_revision r (admit obs s)) u"
    using assms by (auto simp: counted_def not_returning_def mget_push)
  ultimately show ?thesis using assms by (simp add: counted_def admit_push_history_ok)
qed

lemma counted_commit: "counted U s \<Longrightarrow> counted U (commit obs now s)"
  by (auto simp: counted_def commit_history_ok counts_ok_def not_returning_def mget_commit)

lemma counted_forget: "counted U s \<Longrightarrow> u \<notin> U \<Longrightarrow> counted U (forget u s)"
  by (auto simp: counted_def forget_history_ok counts_ok_def not_returning_def)

lemma counted_rewrite:
  assumes "counted U s" "r \<in> set (hs_entries s)"
  shows "counted U (rewrite_revision r (coalesced obs now r) s)"
proof -
  have n: "length (of_uid u (replace_revision (coalesced obs now r) (hs_entries s))) =
      length (of_uid u (hs_entries s))" for u
    using assms rewrite_newest(2) by (simp add: counted_def history_ok_def)
  then have e: "of_uid u (replace_revision (coalesced obs now r) (hs_entries s)) = [] \<longleftrightarrow>
      of_uid u (hs_entries s) = []" for u
    by (metis length_0_conv)
  show ?thesis using assms
    by (auto simp: counted_def rewrite_history_ok counts_ok_def not_returning_def n e)
qed

lemma counted_generation: "counted U s \<Longrightarrow> counted U (s\<lparr>hs_generation := g\<rparr>)"
  by (simp add: counted_def generation_history_ok counts_ok_def not_returning_def)

interpretation counted: store_invariant "counted U" "\<lambda>_. counted U" "\<lambda>u. u \<in> U" "\<lambda>u. u \<notin> U"
  for U
  by unfold_locales
    (auto intro: counted_evict counted_push counted_admit_push counted_commit counted_forget
      counted_rewrite counted_generation)

lemma cap_evict:
  assumes "cap_ok s" "evictable i s" shows "cap_ok (evict i s)"
proof -
  have "length (of_uid u (hs_entries (evict i s))) \<le> length (of_uid u (hs_entries s))" for u
    using evictable_of_uid [OF assms(2), of u] by (simp del: evict_frame(1))
  then have le: "int (length (of_uid u (hs_entries (evict i s)))) \<le> int (length (of_uid u (hs_entries s)))" for u
    by (rule of_nat_mono)
  show ?thesis
    unfolding cap_ok_def evict_frame(3)
    using assms(1) order_trans [OF le] by (simp add: cap_ok_def del: evict_frame(1))
qed

lemma cap_bounds: "cap_ok s \<Longrightarrow> cap_ok (enforce_bounds s)"
  using enforce_bounds_induct [of cap_ok] cap_evict by blast

lemma cap_append:
  assumes "cap_ok s" "counts_ok (push_revision r s)"
    and "mget (hs_objects (push_revision r s)) (rev_uid r) \<noteq> None"
  shows "cap_ok (append_revision r s)"
proof -
  let ?p = "push_revision r s" and ?k = "lim_per_object (hs_limits s)" and ?u = "rev_uid r"
  obtain st where st: "mget (hs_objects ?p) ?u = Some st" using assms(3) by blast
  have count: "ob_count st = int (length (of_uid ?u (hs_entries ?p)))"
    using assms(2) st by (simp add: counts_ok_def)
  have other: "of_uid u (hs_entries ?p) = of_uid u (hs_entries s)" if "u \<noteq> ?u" for u
    using that by simp
  have grow: "length (of_uid ?u (hs_entries ?p)) = Suc (length (of_uid ?u (hs_entries s)))" by simp
  have "cap_ok (enforce_per_object ?u ?p)"
  proof (cases "?k \<le> 0 \<or> ob_count st \<le> ?k")
    case True
    then have "enforce_per_object ?u ?p = ?p" using st by (simp add: enforce_per_object_def)
    moreover have "int (length (of_uid u (hs_entries ?p))) \<le> ?k" if "?k > 0" for u
      using True assms(1) count other [of u] that
      by (cases "u = ?u") (simp_all add: cap_ok_def del: push_frame(1))
    then have "cap_ok ?p" by (simp add: cap_ok_def del: push_frame(1))
    ultimately show ?thesis by simp
  next
    case False
    obtain i where i: "find_index (\<lambda>x. rev_uid x = ?u) (hs_entries ?p) = Some i"
      using find_index_None [of "\<lambda>x. rev_uid x = ?u" "hs_entries ?p"] by fastforce
    note ev = evictable_of_object [OF i]
    have here: "rev_uid (hs_entries ?p ! i) = ?u" using find_index_Some [OF i] by simp
    have e: "enforce_per_object ?u ?p = evict i ?p"
      using False st i by (simp add: enforce_per_object_def)
    have cap: "int (length (of_uid u (hs_entries s))) \<le> ?k" for u
      using assms(1) False by (simp add: cap_ok_def)
    have "int (length (of_uid u (hs_entries (evict i ?p)))) \<le> ?k" for u
      using evictable_of_uid [OF ev, of u] here cap [of u] grow other [of u]
      by (cases "u = ?u") (simp_all del: evict_frame(1) push_frame(1) of_uid_append)
    then show ?thesis unfolding e by (simp add: cap_ok_def del: evict_frame(1) push_frame(1))
  qed
  then show ?thesis unfolding append_revision_def by (rule cap_bounds)
qed

lemma cap_cong:
  "hs_limits s' = hs_limits s \<Longrightarrow> hs_entries s' = hs_entries s \<Longrightarrow> cap_ok s' = cap_ok s"
  by (simp add: cap_ok_def)

lemma cap_frame [simp]:
  "cap_ok (commit obs now s) = cap_ok s" "cap_ok (forget u s) = cap_ok s"
  "cap_ok (admit obs s) = cap_ok s" "cap_ok (mirror mop (s\<lparr>hs_objects := x\<rparr>)) = cap_ok s"
  by (rule cap_cong, simp, simp)+

lemma cap_append_live:
  assumes "counted U s" "cap_ok s" "mget (hs_objects s) (rev_uid r) \<noteq> None"
  shows "cap_ok (append_revision r s)"
  using assms counted_push [OF assms(1,3)] by (intro cap_append) (auto simp: counted_def mget_push)

lemma cap_coalesce:
  assumes "counted U s" "cap_ok s" "coalesce obs st now s = Some s'"
  shows "cap_ok s'"
proof -
  from assms(3) obtain r where r: "r \<in> set (hs_entries s)" and s': "s' = enforce_bounds
      (generation_up (commit obs now (rewrite_revision r (coalesced obs now r) s)))"
    by (rule coalesce_SomeE)
  have "seqs_ok s" using assms(1) by (simp add: counted_def history_ok_def)
  then show ?thesis
    using assms(2) rewrite_newest(2) [OF _ r] unfolding s' generation_up_def by (intro cap_bounds) (simp add: cap_ok_def)
qed

lemma observe_cap:
  assumes "counted U s" "cap_ok s" "\<not> obs_deleted obs \<longrightarrow> obs_uid obs \<in> U"
  shows "cap_ok (observe obs now seed s)"
proof (cases "mget (hs_objects s) (obs_uid obs)")
  case (Some st)
  then have "cap_ok (append_revision (revision_of obs c now p b) s)" for c p b
    using assms by (intro cap_append_live) (auto simp: revision_of_def)
  moreover have "cap_ok (append_revision (revision_of obs c now p b\<lparr>rev_manifest := None\<rparr>) s)" for c p b
    using assms Some by (intro cap_append_live) (auto simp: revision_of_def)
  ultimately show ?thesis
    using Some assms(2) cap_coalesce [OF assms(1,2)]
    by (auto simp: observe_def delete_observed_def Let_def split: option.split)
next
  case None
  show ?thesis
  proof (cases "obs_deleted obs")
    case True
    with None assms(2) show ?thesis by (simp add: observe_def delete_observed_def)
  next
    case False
    have "cap_ok (append_revision (revision_of obs c now zero_time False) (admit obs s))" for c
      using counted_admit_push [OF assms(1) None, of "revision_of obs c now zero_time False"]
        assms False
      by (intro cap_append) (auto simp: counted_def mget_push revision_of_def)
    with False None show ?thesis by (simp add: observe_def Let_def)
  qed
qed

lemma delete_unobserved_cap:
  assumes "counted U s" "cap_ok s"
  shows "cap_ok (delete_unobserved now u s)"
  using assms cap_append_live [OF assms, of "unobserved_deletion u _ now"]
  by (auto simp: delete_unobserved_def unobserved_deletion_def split: option.split)

lemma seed_cap:
  assumes c: "counted U s" and k: "cap_ok s" and U: "U = set (map obs_uid obs)"
    and live: "\<forall>x \<in> set obs. \<not> obs_deleted x"
  shows "cap_ok (store_seed scope obs now s)"
proof -
  have gone: "counted U (fold (delete_unobserved now) us t) \<and>
      cap_ok (fold (delete_unobserved now) us t)"
    if "counted U t" "cap_ok t" "set us \<inter> U = {}" for us t
    using that
  proof (induction us arbitrary: t)
    case (Cons u us)
    then have "counted U (delete_unobserved now u t)" by (intro counted.delete_unobserved_P) auto
    with Cons delete_unobserved_cap [OF Cons.prems(1,2)] show ?case by simp
  qed simp
  have listed: "cap_ok (fold (\<lambda>x. observe x now True) xs t)"
    if "counted U t" "cap_ok t" "obs_uid ` set xs \<subseteq> U" "\<forall>x \<in> set xs. \<not> obs_deleted x" for xs t
    using that
  proof (induction xs arbitrary: t)
    case (Cons x xs)
    then have "counted U (observe x now True t)" by (intro counted.observe_P) auto
    with Cons observe_cap [OF Cons.prems(1,2)] show ?case by simp
  qed simp
  have "set (gone_uids scope obs s) \<inter> U = {}" by (auto simp: gone_uids_def U)
  with gone [OF c k] show ?thesis
    unfolding store_seed_def using live U by (intro listed) auto
qed

text \<open>A trace in which no identifier returns after its deletion, and a seed lists live objects.\<close>

definition op_incarnations :: "history_op \<Rightarrow> hstore \<Rightarrow> bool" where
  "op_incarnations a s =
     (case a of
        OpObserve obs now \<Rightarrow> obs_deleted obs \<or> not_returning s (obs_uid obs)
      | OpSeed scope obs now \<Rightarrow>
          list_all (\<lambda>x. \<not> obs_deleted x \<and> not_returning s (obs_uid x)) obs)"

primrec incarnations :: "history_op list \<Rightarrow> hstore \<Rightarrow> bool" where
  "incarnations [] s \<longleftrightarrow> True"
| "incarnations (a # as) s \<longleftrightarrow> op_incarnations a s \<and> incarnations as (apply_op a s)"

definition exact :: "hstore \<Rightarrow> bool" where
  "exact s \<longleftrightarrow> history_ok s \<and> counts_ok s \<and> cap_ok s"

lemma counted_sub: "counted U s \<Longrightarrow> counted {} s"
  by (simp add: counted_def)

lemma apply_op_exact:
  assumes "exact s" "op_incarnations a s"
  shows "exact (apply_op a s)"
proof (cases a)
  case (OpObserve obs now)
  define U where "U = (if obs_deleted obs then {} else {obs_uid obs})"
  have c: "counted U s" using assms OpObserve
    by (auto simp: exact_def counted_def op_incarnations_def U_def)
  have "counted U (observe obs now False s)"
    using c by (rule counted.observe_P) (simp add: U_def)
  moreover have "cap_ok (observe obs now False s)"
    using assms(1) by (intro observe_cap [OF c]) (auto simp: exact_def U_def)
  ultimately show ?thesis using OpObserve by (simp add: exact_def counted_def store_observe_def)
next
  case (OpSeed scope obs now)
  define U where "U = set (map obs_uid obs)"
  have live: "\<forall>x \<in> set obs. \<not> obs_deleted x"
    using assms(2) OpSeed by (auto simp: op_incarnations_def list_all_iff)
  have c: "counted U s" using assms OpSeed
    by (auto simp: exact_def counted_def op_incarnations_def U_def list_all_iff)
  have "counted U (store_seed scope obs now s)"
    using c by (rule counted.seed_P) (auto simp: U_def live)
  moreover have "cap_ok (store_seed scope obs now s)"
    using assms(1) by (intro seed_cap [OF c _ U_def live]) (simp add: exact_def)
  ultimately show ?thesis using OpSeed by (simp add: exact_def counted_def)
qed

lemma run_exact: "exact s \<Longrightarrow> incarnations ops s \<Longrightarrow> exact (run_history ops s)"
  unfolding run_history_def
  by (induction ops arbitrary: s) (auto simp: apply_op_exact)

lemma new_store_exact: "exact (new_store lim)"
  using new_store_ok [of lim] by (simp add: exact_def counts_ok_def cap_ok_def new_store_def)

section \<open>Properties of the store\<close>

text \<open>
  C2. Whatever is observed and seeded, in any order, the store keeps its representation invariant:
  sequence numbers strictly increase along the timeline, the byte total is the sum of the retained
  revisions' sizes, a live object's coalescing target is its newest retained revision, a scope's
  set holds exactly the live objects first seen through it; and the global bounds hold.
\<close>

theorem history_invariant:
  "history_ok (run_history ops (new_store lim)) \<and> \<not> over_bounds (run_history ops (new_store lim))"
  by (intro run_ok new_store_ok new_store_within)

text \<open>
  As long as no identifier returns after its deletion, no object incarnation retains more
  revisions than its cap, deleted incarnations included, so a churning object cannot crowd the
  quiet ones out.
\<close>

theorem per_object_cap:
  assumes "lim_per_object lim > 0" and "incarnations ops (new_store lim)"
  shows "int (length (filter (\<lambda>r. rev_uid r = u) (hs_entries (run_history ops (new_store lim)))))
    \<le> lim_per_object lim"
  using run_exact [OF new_store_exact assms(2)] assms(1) run_limits [of ops "new_store lim"]
  by (simp add: exact_def cap_ok_def new_store_def of_uid_def)

definition sample_obs :: "string \<Rightarrow> string \<Rightarrow> string \<Rightarrow> observation" where
  "sample_obs uid spec status =
     \<lparr>obs_scope = ''pods'', obs_group = '''', obs_version = ''v1'', obs_kind = ''Pod'',
      obs_namespace = ''db'', obs_name = ''pg-1'', obs_uid = uid, obs_generation = 1,
      obs_manifest = Some (spec @ status), obs_spec_hash = spec, obs_status_hash = status,
      obs_actor = \<lparr>ac_manager = ''kubelet'', ac_operation = ''Update''\<rparr>,
      obs_owners = [\<lparr>fo_manager = ''kubelet'', fo_paths = [''status'']\<rparr>], obs_deleted = False\<rparr>"

definition sample_limits :: limits where
  "sample_limits =
     \<lparr>lim_per_object = 2, lim_max_revisions = 100, lim_max_bytes = 1000, lim_coalesce_window = 0\<rparr>"

definition sample_trace :: "history_op list" where
  "sample_trace =
     [OpObserve (sample_obs ''u1'' ''a'' ''x'') 0, OpObserve (sample_obs ''u1'' ''b'' ''x'') 1,
      OpObserve (sample_obs ''u1'' ''c'' ''x'') 2,
      OpSeed ''pods'' [sample_obs ''u2'' ''a'' ''x''] 3]"

theorem per_object_cap_witness:
  "int (length (filter (\<lambda>r. rev_uid r = ''u1'') (hs_entries (run_history sample_trace (new_store sample_limits))))) \<le> 2"
proof -
  have a: "incarnations sample_trace (new_store sample_limits)" by code_simp
  have b: "lim_per_object sample_limits > 0" and c: "lim_per_object sample_limits = 2"
    by (simp_all add: sample_limits_def)
  show ?thesis using per_object_cap [OF b a] unfolding c .
qed

text \<open>
  C46. The cap is per incarnation and rests on identifiers never returning: an object seen through
  two scopes can be reported gone by one and observed again by the other, and each such round
  starts a new count, so its retained revisions exceed the cap without bound from the cap.
\<close>

definition returning_trace :: "history_op list" where
  "returning_trace =
     [OpObserve (sample_obs ''u1'' ''a'' ''x'') 0, OpSeed ''pods'' [] 1,
      OpObserve (sample_obs ''u1'' ''a'' ''x'') 2, OpSeed ''pods'' [] 3,
      OpObserve (sample_obs ''u1'' ''a'' ''x'') 4]"

theorem cap_lost_when_an_identifier_returns:
  "lim_per_object sample_limits = 2 \<and>
   length (filter (\<lambda>r. rev_uid r = ''u1'')
     (hs_entries (run_history returning_trace (new_store sample_limits)))) = 5 \<and>
   mget (hs_objects (run_history returning_trace (new_store sample_limits))) ''u1'' \<noteq> None"
  by code_simp

section \<open>Complete seeds\<close>

definition hashes :: "string \<Rightarrow> hstore \<Rightarrow> (string \<times> string) option" where
  "hashes u s = map_option (\<lambda>st. (ob_spec_hash st, ob_status_hash st)) (mget (hs_objects s) u)"

lemma hashes_evict [simp]: "hashes u (evict i s) = hashes u s"
  by (simp add: hashes_def mget_evict option.map_comp comp_def)

lemma hashes_push [simp]: "hashes u (push_revision r s) = hashes u s"
  by (simp add: hashes_def mget_push option.map_comp comp_def)

text \<open>What the store knows of an object changes only through an observation of that object.\<close>

interpretation known: store_invariant "\<lambda>s. hashes u s = h" "\<lambda>v s. hashes u s = h \<and> v \<noteq> u"
    "\<lambda>v. v \<noteq> u" "\<lambda>v. v \<noteq> u"
  for u h
  by unfold_locales
    (auto simp: hashes_def mget_commit mget_push mget_evict option.map_comp comp_def committed_state_def)

interpretation present: store_invariant "\<lambda>s. mget (hs_objects s) u \<noteq> None"
    "\<lambda>_ s. mget (hs_objects s) u \<noteq> None" "\<lambda>_. True" "\<lambda>v. v \<noteq> u"
  for u
  by unfold_locales (auto simp: mget_commit mget_push mget_evict)

text \<open>A set of identifiers stays within bounds given by what is admitted.\<close>

interpretation scope_within: store_invariant "\<lambda>s. set (scope_set s sc) \<subseteq> L"
    "\<lambda>_ s. set (scope_set s sc) \<subseteq> L" "\<lambda>v. v \<in> L" "\<lambda>_. True"
  for sc L
  by unfold_locales (auto simp: scope_set_admit scope_set_forget split: if_splits)

lemma hashes_bounds [simp]: "hashes u (enforce_bounds s) = hashes u s"
  using enforce_bounds_induct [of "\<lambda>t. hashes u t = hashes u s"] by simp

lemma hashes_commit:
  "mget (hs_objects s) (obs_uid obs) \<noteq> None \<Longrightarrow>
   hashes (obs_uid obs) (commit obs now s) = Some (obs_spec_hash obs, obs_status_hash obs)"
  by (auto simp: hashes_def mget_commit committed_state_def)

lemma hashes_observed:
  assumes "\<not> obs_deleted obs"
  shows "hashes (obs_uid obs) (observe obs now seed s) = Some (obs_spec_hash obs, obs_status_hash obs)"
proof (cases "mget (hs_objects s) (obs_uid obs)")
  case None
  have "mget (hs_objects (append_revision (revision_of obs c now zero_time False) (admit obs s))) (obs_uid obs) \<noteq> None" for c
    by (rule present.append_P) (simp_all add: revision_of_def)
  with None assms show ?thesis
    by (simp add: observe_def Let_def hashes_commit)
next
  case (Some st)
  have "mget (hs_objects (append_revision (revision_of obs c now p b) s)) (obs_uid obs) \<noteq> None" for c p b
    by (rule present.append_P) (simp_all add: revision_of_def Some)
  moreover have "hashes (obs_uid obs) s' = Some (obs_spec_hash obs, obs_status_hash obs)"
    if "coalesce obs st now s = Some s'" for s'
  proof -
    from that obtain r where "s' = enforce_bounds
        (generation_up (commit obs now (rewrite_revision r (coalesced obs now r) s)))"
      by (rule coalesce_SomeE)
    moreover have "hashes u (generation_up v) = hashes u v" for u v
      by (simp add: hashes_def generation_up_def)
    ultimately show ?thesis
      using hashes_commit [of "rewrite_revision r (coalesced obs now r) s" obs now] Some by simp
  qed
  ultimately have "hashes (obs_uid obs) (observe obs now seed s) = Some (obs_spec_hash obs, obs_status_hash obs)"
    if "\<not> (obs_spec_hash obs = ob_spec_hash st \<and> obs_status_hash obs = ob_status_hash st)"
    using assms Some that by (simp add: observe_def Let_def hashes_commit split: option.split)
  moreover have "hashes (obs_uid obs) (observe obs now seed s) = Some (obs_spec_hash obs, obs_status_hash obs)"
    if "obs_spec_hash obs = ob_spec_hash st \<and> obs_status_hash obs = ob_status_hash st"
    using assms Some that by (simp add: observe_def Let_def hashes_def)
  ultimately show ?thesis by blast
qed

lemma observe_unchanged:
  assumes "\<not> obs_deleted obs"
    and "hashes (obs_uid obs) s = Some (obs_spec_hash obs, obs_status_hash obs)"
  shows "hs_entries (observe obs now seed s) = hs_entries s \<and> hs_seq (observe obs now seed s) = hs_seq s \<and>
    hs_generation (observe obs now seed s) = hs_generation s \<and> hs_evicted (observe obs now seed s) = hs_evicted s"
  using assms by (auto simp: observe_def hashes_def Let_def)

definition timeline :: "hstore \<Rightarrow> nat \<times> nat \<times> revision list \<times> bool" where
  "timeline s = (hs_seq s, hs_generation s, hs_entries s, hs_evicted s)"

lemma reseed_unchanged:
  assumes "\<forall>x \<in> set xs. \<not> obs_deleted x \<and> hashes (obs_uid x) s = Some (obs_spec_hash x, obs_status_hash x)"
    and "distinct (map obs_uid xs)"
  shows "timeline (fold (\<lambda>x. observe x now True) xs s) = timeline s"
  using assms
proof (induction xs arbitrary: s)
  case (Cons x xs)
  let ?t = "observe x now True s"
  have "timeline ?t = timeline s"
    using observe_unchanged [of x s] Cons.prems(1) by (simp add: timeline_def)
  moreover have "hashes (obs_uid y) ?t = Some (obs_spec_hash y, obs_status_hash y)" if "y \<in> set xs" for y
    using that Cons.prems by (intro known.observe_P) auto
  ultimately show ?case using Cons by simp
qed simp

text \<open>After a seed the store knows every listed object as listed, and nothing else in the scope.\<close>

lemma seeded_hashes:
  assumes "x \<in> set xs" "\<forall>x \<in> set xs. \<not> obs_deleted x" "distinct (map obs_uid xs)"
  shows "hashes (obs_uid x) (fold (\<lambda>x. observe x now True) xs s) = Some (obs_spec_hash x, obs_status_hash x)"
  using assms
proof (induction xs arbitrary: s)
  case (Cons y ys)
  show ?case
  proof (cases "x \<in> set ys")
    case True
    with Cons show ?thesis by simp
  next
    case False
    with Cons.prems have "x = y" by simp
    have keep: "hashes (obs_uid y) (fold (\<lambda>x. observe x now True) zs t) = h"
      if "hashes (obs_uid y) t = h" "obs_uid y \<notin> obs_uid ` set zs" for zs t h
      using that
    proof (induction zs arbitrary: t)
      case (Cons z zs)
      then have "hashes (obs_uid y) (observe z now True t) = h"
        by (intro known.observe_P) auto
      with Cons show ?case by simp
    qed simp
    have "obs_uid y \<notin> obs_uid ` set ys" using Cons.prems(3) by simp
    from keep [OF hashes_observed this] Cons.prems(2) \<open>x = y\<close> show ?thesis by simp
  qed
qed simp

lemma live_in_scope:
  assumes "history_ok s" "u \<in> set (scope_set s sc)"
  shows "mget (hs_objects s) u \<noteq> None"
  using assms by (auto simp: history_ok_def scopes_ok_def)

lemma scope_set_deleted:
  "set (scope_set (delete_unobserved now u s) sc) \<subseteq> set (scope_set s sc)"
  by (rule scope_within.delete_unobserved_P) simp_all

lemma seeded_scope:
  assumes ok: "history_ok s"
  shows "set (scope_set (store_seed scope obs now s) sc') \<subseteq>
    (if sc' = scope then {} else set (scope_set s sc')) \<union> obs_uid ` set obs"
proof -
  let ?L = "(if sc' = scope then {} else set (scope_set s sc')) \<union> obs_uid ` set obs"
  have gone: "set (scope_set (fold (delete_unobserved now) us t) sc') \<subseteq> set (scope_set t sc') - set us"
    if "history_ok t" for us t
    using that
  proof (induction us arbitrary: t)
    case (Cons u us)
    let ?d = "delete_unobserved now u t"
    have ok': "history_ok ?d" using Cons.prems by (rule ok.delete_unobserved_P) simp
    have "u \<notin> set (scope_set ?d sc')"
    proof (cases "mget (hs_objects t) u")
      case None
      then have "u \<notin> set (scope_set t sc')" using live_in_scope [OF Cons.prems] by blast
      then show ?thesis using None by (simp add: delete_unobserved_def)
    next
      case (Some st)
      then show ?thesis by (simp add: delete_unobserved_def scope_set_forget)
    qed
    with Cons.IH [OF ok'] scope_set_deleted [of now u t sc'] show ?case by auto
  qed simp
  have start: "set (scope_set (fold (delete_unobserved now) (gone_uids scope obs s) s) sc') \<subseteq> ?L"
    using gone [OF ok, of "gone_uids scope obs s"] by (auto simp: gone_uids_def split: if_splits)
  have "set (scope_set (fold (\<lambda>x. observe x now True) xs t) sc') \<subseteq> ?L"
    if "set (scope_set t sc') \<subseteq> ?L" "set xs \<subseteq> set obs" for xs t
    using that
  proof (induction xs arbitrary: t)
    case (Cons x xs)
    have "set (scope_set (observe x now True t) sc') \<subseteq> ?L"
      using Cons.prems by (intro scope_within.observe_P) auto
    with Cons show ?case by simp
  qed simp
  with start show ?thesis unfolding store_seed_def by simp
qed

text \<open>
  A reconnect's re-seed adds nothing: once a listing of live objects has been seeded, seeding
  the same listing again, at any time, leaves the timeline, its sequence and its generation as they
  are, whatever the store held before.
\<close>

theorem reseed_adds_nothing:
  assumes "distinct (map obs_uid obs)" and "\<forall>x \<in> set obs. \<not> obs_deleted x" and "history_ok s"
  shows "timeline (store_seed scope obs later (store_seed scope obs now s)) =
    timeline (store_seed scope obs now s)"
proof -
  let ?s = "store_seed scope obs now s"
  have "gone_uids scope obs ?s = []"
    using seeded_scope [OF assms(3), of scope obs now scope]
    by (simp add: gone_uids_def) (metis (mono_tags, lifting) filter_False set_mp sort_by_Nil sort_strings_def)
  moreover have "hashes (obs_uid x) ?s = Some (obs_spec_hash x, obs_status_hash x)" if "x \<in> set obs" for x
    unfolding store_seed_def using that assms by (intro seeded_hashes) auto
  ultimately show ?thesis
    using reseed_unchanged [of obs ?s later] assms by (simp add: store_seed_def [of scope obs later])
qed

theorem reseed_adds_nothing_witness:
  "timeline (store_seed ''pods'' [sample_obs ''u2'' ''a'' ''x'', sample_obs ''u3'' ''a'' ''x''] 9
     (store_seed ''pods'' [sample_obs ''u2'' ''a'' ''x'', sample_obs ''u3'' ''a'' ''x''] 3 (new_store sample_limits))) =
   timeline (store_seed ''pods'' [sample_obs ''u2'' ''a'' ''x'', sample_obs ''u3'' ''a'' ''x''] 3 (new_store sample_limits))"
  by (rule reseed_adds_nothing) (simp_all add: sample_obs_def new_store_ok)

text \<open>The revisions the mirrored calls append, whatever they evict, rewrite and mark in between.\<close>

definition appended :: "mirror_op list \<Rightarrow> revision list" where
  "appended ms = List.map_filter (\<lambda>m. case m of MAppend r \<Rightarrow> Some r | _ \<Rightarrow> None) ms"

lemma appended_append [simp]: "appended (ms @ ns) = appended ms @ appended ns"
  by (simp add: appended_def map_filter_def)

lemma appended_simps [simp]:
  "appended [] = []" "appended (MAppend r # ms) = r # appended ms" "appended (MEvict q # ms) = appended ms"
  "appended (MMarkEvicted # ms) = appended ms" "appended (MDeleteObject u # ms) = appended ms"
  by (simp_all add: appended_def map_filter_def)

text \<open>
  What a step adds: calls at the end of the mirror, which append the revisions \<open>rs\<close> if there is a
  persister, as many sequence numbers, and the revisions at the end of the timeline, of which the bounds may
  evict; the classification state is kept but for what counts revisions.
\<close>

definition adds :: "hstore \<Rightarrow> revision list \<Rightarrow> hstore \<Rightarrow> bool" where
  "adds s rs t \<longleftrightarrow>
     (\<exists>ms. hs_mirror t = hs_mirror s @ ms \<and> (hs_persist s \<longrightarrow> appended ms = rs)) \<and>
     hs_persist t = hs_persist s \<and> hs_seq t = hs_seq s + length rs \<and> subseq (hs_entries t) (hs_entries s @ rs)"

definition same_states :: "hstore \<Rightarrow> hstore \<Rightarrow> bool" where
  "same_states s t \<longleftrightarrow>
     (\<forall>u. map_option object_record_of (mget (hs_objects t) u) = map_option object_record_of (mget (hs_objects s) u))"

lemma adds_trans: "adds s rs t \<Longrightarrow> adds t qs v \<Longrightarrow> adds s (rs @ qs) v"
proof -
  assume a: "adds s rs t" "adds t qs v"
  then have "subseq (hs_entries v) (hs_entries t @ qs)" "subseq (hs_entries t @ qs) ((hs_entries s @ rs) @ qs)"
    by (simp_all add: adds_def del: append_assoc)
  then have "subseq (hs_entries v) (hs_entries s @ rs @ qs)" using subseq_order.trans by fastforce
  with a show ?thesis by (fastforce simp: adds_def)
qed

lemma subseq_remove: "subseq (take i xs @ drop (Suc i) xs) xs"
proof (cases "i < length xs")
  case True
  have "subseq (take i xs @ drop (Suc i) xs) (take i xs @ xs ! i # drop (Suc i) xs)"
    by (rule list_emb_append_mono [OF subseq_order.refl list_emb_Cons [OF subseq_order.refl]])
  then show ?thesis using split_at [OF True] by simp
qed simp

lemma evict_adds: "adds s [] (evict i s)"
  by (auto simp: adds_def evict_def Let_def mirror_def subseq_remove split: option.split)

lemma evict_states: "same_states s (evict i s)"
  by (simp add: same_states_def mget_evict option.map_comp comp_def)

lemma push_adds: "adds s [r\<lparr>rev_seq := hs_seq s + 1\<rparr>] (push_revision r s)"
  by (auto simp: adds_def push_revision_def Let_def mirror_def split: option.split)

lemma push_states: "same_states s (push_revision r s)"
  by (simp add: same_states_def mget_push option.map_comp comp_def)

lemma enforced_adds:
  assumes "adds s rs t \<and> same_states s t"
  shows "adds s rs (enforce_bounds (enforce_per_object uid t)) \<and> same_states s (enforce_bounds (enforce_per_object uid t))"
proof -
  let ?P = "\<lambda>t. adds s rs t \<and> same_states s t"
  have step: "?P v \<Longrightarrow> ?P (evict i v)" for v i
    using adds_trans [OF _ evict_adds, of s rs v i] evict_states [of v i] by (simp add: same_states_def)
  from enforce_per_object_cases [of ?P, OF assms step] have "?P (enforce_per_object uid t)" .
  from enforce_bounds_induct [of ?P, OF this step] show ?thesis .
qed

lemma append_adds:
  "adds s [r\<lparr>rev_seq := hs_seq s + 1\<rparr>] (append_revision r s) \<and> same_states s (append_revision r s)"
  unfolding append_revision_def by (rule enforced_adds) (rule conjI [OF push_adds push_states])

lemma forget_adds: "adds s [] (forget u s)"
  by (auto simp: adds_def forget_def mirror_def)

text \<open>The revisions a seed synthesizes for the objects it no longer lists, numbered from \<open>q\<close>.\<close>

fun gone_revisions :: "hstore \<Rightarrow> instant \<Rightarrow> nat \<Rightarrow> string list \<Rightarrow> revision list" where
  "gone_revisions s now q [] = []"
| "gone_revisions s now q (u # us) =
     (case mget (hs_objects s) u of
        None \<Rightarrow> gone_revisions s now q us
      | Some st \<Rightarrow> (unobserved_deletion u st now)\<lparr>rev_seq := q + 1\<rparr> # gone_revisions s now (q + 1) us)"

lemma unobserved_deletion_cong:
  "object_record_of st' = object_record_of st \<Longrightarrow> unobserved_deletion u st' now = unobserved_deletion u st now"
  by (simp add: unobserved_deletion_def object_record_of_def)

lemma gone_revisions_cong:
  assumes "\<And>u. u \<in> set us \<Longrightarrow>
    map_option object_record_of (mget (hs_objects s') u) = map_option object_record_of (mget (hs_objects s) u)"
  shows "gone_revisions s' now q us = gone_revisions s now q us"
  using assms
proof (induction us arbitrary: q)
  case (Cons u us)
  from Cons.prems [of u] have "map_option object_record_of (mget (hs_objects s') u) = map_option object_record_of (mget (hs_objects s) u)"
    by simp
  note u = this
  show ?case
  proof (cases "mget (hs_objects s) u")
    case None
    with u have "mget (hs_objects s') u = None" by simp
    with None Cons show ?thesis by simp
  next
    case (Some st)
    with u obtain st' where st': "mget (hs_objects s') u = Some st'" "object_record_of st' = object_record_of st"
      by auto
    with Some Cons unobserved_deletion_cong [OF st'(2)] show ?thesis by simp
  qed
qed simp

lemma gone_revisions_length: "\<forall>u \<in> set us. mget (hs_objects s) u \<noteq> None \<Longrightarrow> length (gone_revisions s now q us) = length us"
  by (induction us arbitrary: q) auto

lemma delete_gone:
  assumes "distinct us"
  shows "adds s (gone_revisions s now (hs_seq s) us) (fold (delete_unobserved now) us s)"
  using assms
proof (induction us arbitrary: s)
  case Nil
  show ?case by (simp add: adds_def)
next
  case (Cons u us)
  show ?case
  proof (cases "mget (hs_objects s) u")
    case None
    with Cons show ?thesis by (simp add: delete_unobserved_def)
  next
    case (Some st)
    let ?r = "unobserved_deletion u st now" and ?t = "delete_unobserved now u s"
    have t: "?t = forget u (append_revision ?r s)" using Some by (simp add: delete_unobserved_def)
    have one: "adds s [?r\<lparr>rev_seq := hs_seq s + 1\<rparr>] ?t"
      unfolding t using adds_trans [OF conjunct1 [OF append_adds] forget_adds, of s ?r u] by simp
    have "gone_revisions ?t now q us = gone_revisions s now q us" for q
    proof (rule gone_revisions_cong)
      fix v assume "v \<in> set us"
      with Cons.prems have "v \<noteq> u" by auto
      then show "map_option object_record_of (mget (hs_objects ?t) v) = map_option object_record_of (mget (hs_objects s) v)"
        using append_adds [of s ?r] unfolding t by (simp add: same_states_def)
    qed
    moreover have "hs_seq ?t = hs_seq s + 1" using one by (simp add: adds_def)
    moreover have "adds ?t (gone_revisions ?t now (hs_seq ?t) us) (fold (delete_unobserved now) us ?t)"
      by (rule Cons.IH) (use Cons.prems in simp)
    ultimately show ?thesis using adds_trans [OF one] Some by simp
  qed
qed

text \<open>Every step only adds to what the persister was told.\<close>

interpretation told: store_invariant "\<lambda>s. \<exists>ms. hs_mirror s = base @ ms" "\<lambda>_ s. \<exists>ms. hs_mirror s = base @ ms" "\<lambda>_. True" "\<lambda>_. True"
  for base
proof unfold_locales
  fix s :: hstore and i
  assume "\<exists>ms. hs_mirror s = base @ ms"
  then show "\<exists>ms. hs_mirror (evict i s) = base @ ms" using evict_adds [of s i] by (force simp: adds_def)
  then show "\<exists>ms. hs_mirror (evict i s) = base @ ms" .
next
  fix s :: hstore and r
  assume "\<exists>ms. hs_mirror s = base @ ms"
  then show "\<exists>ms. hs_mirror (push_revision r s) = base @ ms" using push_adds [of s r] by (force simp: adds_def)
next
  fix s :: hstore and obs :: observation and r
  assume "\<exists>ms. hs_mirror s = base @ ms"
  then show "\<exists>ms. hs_mirror (push_revision r (admit obs s)) = base @ ms" using push_adds [of "admit obs s" r] by (force simp: adds_def)
next
  fix s :: hstore and u
  assume "\<exists>ms. hs_mirror s = base @ ms"
  then show "\<exists>ms. hs_mirror (forget u s) = base @ ms" using forget_adds [of s u] by (force simp: adds_def)
qed (auto simp: commit_def rewrite_revision_def mirror_def Let_def split: option.splits)

lemma seeding_tells: "\<exists>ms. hs_mirror (fold (\<lambda>x. observe x now True) xs s) = hs_mirror s @ ms"
proof -
  have "\<exists>ms. hs_mirror (fold (\<lambda>x. observe x now True) xs t) = base @ ms" if "\<exists>ms. hs_mirror t = base @ ms" for t base
    using that
  proof (induction xs arbitrary: t)
    case (Cons x xs)
    have "\<exists>ms. hs_mirror (observe x now True t) = base @ ms" by (rule told.observe_P [OF Cons.prems]) simp
    with Cons.IH show ?case by simp
  qed simp
  then show ?thesis by simp
qed


definition open_limits :: limits where
  "open_limits =
     \<lparr>lim_per_object = 0, lim_max_revisions = 0, lim_max_bytes = 0, lim_coalesce_window = 0\<rparr>"

definition seeded_store :: hstore where
  "seeded_store = run_history [OpObserve (sample_obs ''u2'' ''a'' ''x'') 0,
     OpObserve (sample_obs ''u1'' ''a'' ''x'') 5] ((new_store sample_limits)\<lparr>hs_persist := True\<rparr>)"

lemma seeded_ok: "history_ok seeded_store"
proof -
  have start: "history_ok ((new_store sample_limits)\<lparr>hs_persist := True\<rparr>)"
    by (simp add: new_store_def history_ok_def seqs_ok_def bytes_ok_def targets_ok_def scopes_ok_def maps_ok_def scope_set_def)
  have within: "\<not> over_bounds ((new_store sample_limits)\<lparr>hs_persist := True\<rparr>)" by code_simp
  show ?thesis
    unfolding seeded_store_def by (rule conjunct1 [OF run_ok [OF start within]])
qed


section \<open>Reading the timeline\<close>

lemma store_revision_find:
  assumes "history_ok s"
  shows "store_revision q s =
    map_option (\<lambda>r. r\<lparr>rev_manifest := copy_bytes (rev_manifest r)\<rparr>)
      (find (\<lambda>r. rev_seq r = q) (hs_entries s))"
proof -
  let ?es = "hs_entries s" and ?f = "\<lambda>i. rev_seq (hs_entries s ! i) \<ge> q"
  have inc: "sorted_wrt (<) (map rev_seq ?es)" using assms by (simp add: history_ok_def seqs_ok_def)
  have less: "rev_seq (?es ! a) < rev_seq (?es ! b)" if "a < b" "b < length ?es" for a b
    using sorted_wrt_nth_less [OF inc, of a b] that by simp
  have mono: "?f b" if "a \<le> b" "b < length ?es" "?f a" for a b
    using that less [of a b] by (cases "a = b") auto
  define i where "i = sort_search (length ?es) ?f"
  have below: "\<not> ?f k" if "k < i" for k
    using sort_search_least(2) [of "length ?es" ?f k] mono that unfolding i_def by blast
  have here: "i < length ?es \<Longrightarrow> ?f i"
    using sort_search_least(3) [of "length ?es" ?f] mono unfolding i_def by blast
  show ?thesis
  proof (cases "i < length ?es \<and> rev_seq (?es ! i) = q")
    case True
    then have "find (\<lambda>r. rev_seq r = q) ?es = Some (?es ! i)"
      using below by (fastforce simp: find_Some_iff)
    with True show ?thesis by (simp add: store_revision_def i_def Let_def)
  next
    case False
    have "rev_seq (?es ! k) \<noteq> q" if "k < length ?es" for k
    proof (cases "k < i")
      case True
      with below [of k] show ?thesis by simp
    next
      case ge: False
      with that have il: "i < length ?es" by simp
      with here False have "rev_seq (?es ! i) > q" by auto
      then show ?thesis using less [of i k] ge that by (cases "i = k") auto
    qed
    then have "find (\<lambda>r. rev_seq r = q) ?es = None"
      by (auto simp: find_None_iff in_set_conv_nth)
    with False show ?thesis by (auto simp: store_revision_def i_def Let_def)
  qed
qed

text \<open>
  \<open>Revision\<close> resolves exactly the retained revisions: on a store built by any operations, the
  binary search finds a sequence number if and only if a revision carries it, and returns that
  revision with its manifest copied.
\<close>

theorem revision_lookup_exact:
  assumes "history_ok s"
  shows "store_revision q s =
    map_option (\<lambda>r. r\<lparr>rev_manifest := copy_bytes (rev_manifest r)\<rparr>)
      (find (\<lambda>r. rev_seq r = q) (hs_entries s))"
  by (rule store_revision_find [OF assms])

theorem revision_lookup_exact_witness:
  "map_option rev_uid (store_revision 2 seeded_store) = Some ''u1'' \<and> store_revision 3 seeded_store = None"
  unfolding revision_lookup_exact [OF seeded_ok] by code_simp

text \<open>
  A snapshot is the whole timeline, newest first, and carries no manifest bytes: its entries'
  sequence numbers strictly decrease, and they are exactly those \<open>Revision\<close> resolves.
\<close>

theorem snapshot_newest_first:
  "let s = run_history ops (new_store lim); es = sn_entries (fst (store_snapshot s))
   in sorted_wrt (>) (map en_seq es) \<and> snd (store_snapshot s) = (es \<noteq> []) \<and>
      (\<forall>q. q \<in> set (map en_seq es) \<longleftrightarrow> store_revision q s \<noteq> None)"
proof -
  let ?s = "run_history ops (new_store lim)"
  have ok: "history_ok ?s" by (intro conjunct1 [OF run_ok] new_store_ok new_store_within)
  have es: "sn_entries (fst (store_snapshot ?s)) = map entry_of (rev (hs_entries ?s))"
    by (simp add: store_snapshot_def Let_def)
  have seqs: "map en_seq (map entry_of (rev rs)) = rev (map rev_seq rs)" for rs
    by (simp add: entry_of_def comp_def rev_map)
  have "sorted_wrt (>) (rev (map rev_seq (hs_entries ?s)))"
    using ok by (simp add: sorted_wrt_rev history_ok_def seqs_ok_def)
  moreover have "q \<in> set (rev (map rev_seq (hs_entries ?s))) \<longleftrightarrow> store_revision q ?s \<noteq> None" for q
  proof -
    have "q \<in> set (rev (map rev_seq (hs_entries ?s))) \<longleftrightarrow> find (\<lambda>r. rev_seq r = q) (hs_entries ?s) \<noteq> None"
      unfolding find_None_iff by auto
    then show ?thesis by (simp only: store_revision_find [OF ok] option.map_disc_iff)
  qed
  ultimately show ?thesis
    unfolding Let_def es seqs by (simp add: store_snapshot_def Let_def)
qed

end
