(* ===== verification/HistoryJournal.thy ===== *)
theory HistoryJournal
  imports HistoryStore
begin

text \<open>
  The durable half of the history: what the calls on a \<open>Persister\<close> add up to, that a store primed
  from them resumes the timeline, and the journal of \<open>internal/history/bolt/bolt.go\<close> that carries
  them to disk. bbolt itself is a parameter: a transaction commits all of its writes or none, and a
  cursor visits keys in byte order.
\<close>

section \<open>What the mirrored calls add up to\<close>

definition replay_op :: "mirror_op \<Rightarrow> contents \<Rightarrow> contents" where
  "replay_op mop c =
     (case mop of
        MAppend r \<Rightarrow> c\<lparr>ct_revisions := ct_revisions c @ [r], ct_seq := max (ct_seq c) (rev_seq r)\<rparr>
      | MUpdate r \<Rightarrow> c\<lparr>ct_revisions := replace_revision r (ct_revisions c)\<rparr>
      | MEvict q \<Rightarrow> c\<lparr>ct_revisions := filter (\<lambda>r. rev_seq r \<noteq> q) (ct_revisions c)\<rparr>
      | MPutObject u rc \<Rightarrow> c\<lparr>ct_objects := mput u rc (ct_objects c)\<rparr>
      | MDeleteObject u \<Rightarrow> c\<lparr>ct_objects := mdel u (ct_objects c)\<rparr>
      | MMarkEvicted \<Rightarrow> c\<lparr>ct_evicted := True\<rparr>)"

definition replay :: "mirror_op list \<Rightarrow> contents \<Rightarrow> contents" where
  "replay ms c = fold replay_op ms c"

text \<open>
  What the callee may rely on: an appended revision carries a sequence beyond all retained ones, an
  update and an eviction name a retained revision.
\<close>

definition call_ok :: "mirror_op \<Rightarrow> contents \<Rightarrow> bool" where
  "call_ok mop c =
     (case mop of
        MAppend r \<Rightarrow> (\<forall>x \<in> set (ct_revisions c). rev_seq x < rev_seq r) \<and> ct_seq c < rev_seq r
      | MUpdate r \<Rightarrow> (\<exists>x \<in> set (ct_revisions c). rev_seq x = rev_seq r)
      | MEvict q \<Rightarrow> (\<exists>x \<in> set (ct_revisions c). rev_seq x = q)
      | _ \<Rightarrow> True)"

primrec calls_ok :: "mirror_op list \<Rightarrow> contents \<Rightarrow> bool" where
  "calls_ok [] c \<longleftrightarrow> True"
| "calls_ok (m # ms) c \<longleftrightarrow> call_ok m c \<and> calls_ok ms (replay_op m c)"

lemma calls_ok_append: "calls_ok (ms @ ns) c \<longleftrightarrow> calls_ok ms c \<and> calls_ok ns (replay ms c)"
  by (induction ms arbitrary: c) (simp_all add: replay_def)

lemma calls_ok_snoc [simp]: "calls_ok (ms @ [m]) c \<longleftrightarrow> calls_ok ms c \<and> call_ok m (replay ms c)"
  by (simp add: calls_ok_append)

definition records :: "hstore \<Rightarrow> (string, object_record) gomap" where
  "records s = map (\<lambda>(u, st). (u, object_record_of st)) (hs_objects s)"

definition contents_of :: "hstore \<Rightarrow> contents" where
  "contents_of s =
     \<lparr>ct_revisions = hs_entries s, ct_objects = records s, ct_seq = hs_seq s, ct_evicted = hs_evicted s\<rparr>"

text \<open>
  While an object is admitted but not committed its record is missing from the mirror; the commit
  that follows overwrites it, which is what \<open>pending_mirror\<close> says.
\<close>

definition same_timeline :: "contents \<Rightarrow> hstore \<Rightarrow> bool" where
  "same_timeline m s \<longleftrightarrow> ct_revisions m = hs_entries s \<and> ct_seq m = hs_seq s \<and> ct_evicted m = hs_evicted s"

definition mirrored :: "contents \<Rightarrow> hstore \<Rightarrow> bool" where
  "mirrored c s \<longleftrightarrow> history_ok s \<and> hs_persist s \<and> calls_ok (hs_mirror s) c \<and>
     same_timeline (replay (hs_mirror s) c) s \<and>
     ct_objects (replay (hs_mirror s) c) = records s"

definition pending_mirror :: "contents \<Rightarrow> string \<Rightarrow> hstore \<Rightarrow> bool" where
  "pending_mirror c u s \<longleftrightarrow> history_ok s \<and> hs_persist s \<and> calls_ok (hs_mirror s) c \<and>
     same_timeline (replay (hs_mirror s) c) s \<and>
     mget (hs_objects s) u \<noteq> None \<and>
     (\<forall>rc. mput u rc (ct_objects (replay (hs_mirror s) c)) = mput u rc (records s))"

lemma mirrored_contents: "mirrored c s \<Longrightarrow> replay (hs_mirror s) c = contents_of s"
  by (simp add: mirrored_def same_timeline_def contents_of_def)

lemma replay_snoc [simp]: "replay (ms @ [m]) c = replay_op m (replay ms c)"
  by (simp add: replay_def)

lemma mirror_log: "hs_persist s \<Longrightarrow> hs_mirror (mirror m s) = hs_mirror s @ [m]"
  by (simp add: mirror_def)

lemma mput_same: "mget m k = Some v \<Longrightarrow> mput k v m = m"
  by (induction m) (auto simp: mget_def mput_def split: if_splits)

lemma mput_mput: "mput k v (mput k w m) = mput k v m"
  by (induction m) (auto simp: mput_def)

lemma map_mput: "map (\<lambda>(k, v). (k, f v)) (mput k v m) = mput k (f v) (map (\<lambda>(k, v). (k, f v)) m)"
  by (induction m) (auto simp: mput_def)

lemma records_mput: "records (s\<lparr>hs_objects := mput u st (hs_objects s)\<rparr>) = mput u (object_record_of st) (records s)"
  by (simp add: records_def map_mput)

lemma records_cong: "hs_objects s' = hs_objects s \<Longrightarrow> records s' = records s"
  by (simp add: records_def)

lemma mget_records: "mget (records s) u = map_option object_record_of (mget (hs_objects s) u)"
  by (simp add: records_def mget_map)

lemma records_same:
  assumes "mget (hs_objects s) u = Some st" "object_record_of st' = object_record_of st"
    "hs_objects s' = mput u st' (hs_objects s)"
  shows "records s' = records s"
proof -
  have "records s' = mput u (object_record_of st) (records s)"
    using assms by (simp add: records_def map_mput)
  also have "\<dots> = records s" using assms(1) by (simp add: mput_same mget_records)
  finally show ?thesis .
qed

lemma object_record_frame [simp]:
  "object_record_of (st\<lparr>ob_count := n\<rparr>) = object_record_of st"
  "object_record_of (st\<lparr>ob_last := l\<rparr>) = object_record_of st"
  by (simp_all add: object_record_of_def)

lemma records_evict [simp]: "records (evict i s) = records s"
proof (cases "mget (hs_objects s) (rev_uid (hs_entries s ! i))")
  case None
  then show ?thesis by (intro records_cong) (simp add: evict_def Let_def)
next
  case (Some st)
  then show ?thesis
    by (intro records_same [OF Some]) (auto simp: evict_def Let_def)
qed

lemma records_push [simp]: "records (push_revision r s) = records s"
proof (cases "mget (hs_objects s) (rev_uid r)")
  case None
  then show ?thesis by (intro records_cong) (simp add: push_revision_def Let_def)
next
  case (Some st)
  then show ?thesis
    by (intro records_same [OF Some]) (auto simp: push_revision_def Let_def)
qed

lemma filter_seq:
  assumes "distinct (map rev_seq rs)" "i < length rs"
  shows "filter (\<lambda>r. rev_seq r \<noteq> rev_seq (rs ! i)) rs = take i rs @ drop (Suc i) rs"
proof -
  let ?q = "rev_seq (rs ! i)"
  have d: "distinct (map rev_seq (take i rs @ rs ! i # drop (Suc i) rs))"
    using assms split_at [OF assms(2)] by simp
  have "filter (\<lambda>r. rev_seq r \<noteq> ?q) rs = filter (\<lambda>r. rev_seq r \<noteq> ?q) (take i rs @ rs ! i # drop (Suc i) rs)"
    using split_at [OF assms(2)] by simp
  also have "\<dots> = take i rs @ drop (Suc i) rs"
  proof -
    have "?q \<notin> rev_seq ` set (take i rs)" and "?q \<notin> rev_seq ` set (drop (Suc i) rs)"
      using d by auto
    then have "\<forall>x \<in> set (take i rs). rev_seq x \<noteq> ?q" and "\<forall>x \<in> set (drop (Suc i) rs). rev_seq x \<noteq> ?q"
      by (metis imageI)+
    then show ?thesis by (simp add: filter_id_conv)
  qed
  finally show ?thesis .
qed

text \<open>The calls an eviction mirrors, replayed.\<close>

lemma evict_log:
  assumes "hs_persist s"
  shows "hs_mirror (evict i s) = hs_mirror s @ MEvict (rev_seq (hs_entries s ! i)) #
    (if hs_evicted s then [] else [MMarkEvicted])"
  using assms by (simp add: evict_def Let_def mirror_def split: option.split)

lemma push_log:
  "hs_persist s \<Longrightarrow> hs_mirror (push_revision r s) = hs_mirror s @ [MAppend (r\<lparr>rev_seq := hs_seq s + 1\<rparr>)]"
  by (simp add: push_revision_def Let_def mirror_def)

lemma forget_log: "hs_persist s \<Longrightarrow> hs_mirror (forget u s) = hs_mirror s @ [MDeleteObject u]"
  by (simp add: forget_def mirror_def)

lemma rewrite_log: "hs_persist s \<Longrightarrow> hs_mirror (rewrite_revision r r1 s) = hs_mirror s @ [MUpdate r1]"
  by (simp add: rewrite_revision_def mirror_def)

lemma replay_evict:
  assumes "hs_persist s" "seqs_ok s" "i < length (hs_entries s)" "same_timeline (replay (hs_mirror s) c) s"
  shows "same_timeline (replay (hs_mirror (evict i s)) c) (evict i s)"
    and "ct_objects (replay (hs_mirror (evict i s)) c) = ct_objects (replay (hs_mirror s) c)"
proof -
  let ?m = "replay (hs_mirror s) c" and ?q = "rev_seq (hs_entries s ! i)"
  have r: "replay (hs_mirror (evict i s)) c =
      ?m\<lparr>ct_revisions := filter (\<lambda>r. rev_seq r \<noteq> ?q) (ct_revisions ?m), ct_evicted := True\<rparr>"
    using assms(1,4) by (simp add: evict_log replay_def replay_op_def same_timeline_def)
  show "same_timeline (replay (hs_mirror (evict i s)) c) (evict i s)"
    using assms(4) filter_seq [OF distinct_seqs [OF assms(2)] assms(3)]
    unfolding r by (simp add: same_timeline_def)
  show "ct_objects (replay (hs_mirror (evict i s)) c) = ct_objects ?m" unfolding r by simp
qed

lemma replay_push:
  assumes "hs_persist s" "same_timeline (replay (hs_mirror s) c) s"
  shows "same_timeline (replay (hs_mirror (push_revision r s)) c) (push_revision r s)"
    and "ct_objects (replay (hs_mirror (push_revision r s)) c) = ct_objects (replay (hs_mirror s) c)"
  using assms by (simp_all add: push_log replay_op_def same_timeline_def)

lemma calls_evict:
  assumes "hs_persist s" "i < length (hs_entries s)" "same_timeline (replay (hs_mirror s) c) s"
    "calls_ok (hs_mirror s) c"
  shows "calls_ok (hs_mirror (evict i s)) c"
proof -
  have "\<exists>x \<in> set (hs_entries s). rev_seq x = rev_seq (hs_entries s ! i)"
    using nth_mem [OF assms(2)] by blast
  with assms show ?thesis by (simp add: evict_log calls_ok_append call_ok_def same_timeline_def)
qed

lemma calls_push:
  assumes "hs_persist s" "seqs_ok s" "same_timeline (replay (hs_mirror s) c) s" "calls_ok (hs_mirror s) c"
  shows "calls_ok (hs_mirror (push_revision r s)) c"
  using assms by (auto simp: push_log call_ok_def same_timeline_def seqs_ok_def less_Suc_eq_le)

lemma commit_log:
  assumes "hs_persist s" "mget (hs_objects s) (obs_uid obs) \<noteq> None"
  obtains st where "hs_mirror (commit obs now s) = hs_mirror s @ [MPutObject (obs_uid obs) (object_record_of st)]"
    "hs_objects (commit obs now s) = mput (obs_uid obs) st (hs_objects s)"
  using assms by (auto simp: commit_def Let_def mirror_def)

lemma mirrored_pending: "mirrored c s \<Longrightarrow> mget (hs_objects s) u \<noteq> None \<Longrightarrow> pending_mirror c u s"
  by (simp add: mirrored_def pending_mirror_def)

lemma commit_mirrored:
  assumes "pending_mirror c (obs_uid obs) s"
  shows "mirrored c (commit obs now s)"
proof -
  have p: "hs_persist s" "mget (hs_objects s) (obs_uid obs) \<noteq> None"
    using assms by (auto simp: pending_mirror_def)
  obtain st where st: "hs_mirror (commit obs now s) = hs_mirror s @ [MPutObject (obs_uid obs) (object_record_of st)]"
    "hs_objects (commit obs now s) = mput (obs_uid obs) st (hs_objects s)"
    by (rule commit_log [OF p])
  have "records (commit obs now s) = mput (obs_uid obs) (object_record_of st) (records s)"
    using st(2) by (simp add: records_def map_mput)
  then show ?thesis
    using assms st(1) commit_history_ok [of s obs now]
    by (simp add: mirrored_def pending_mirror_def same_timeline_def replay_op_def call_ok_def)
qed

lemma commit_absent: "mget (hs_objects s) (obs_uid obs) = None \<Longrightarrow> commit obs now s = s"
  by (simp add: commit_def)

lemma admit_mirrored:
  assumes "mirrored c s" "mget (hs_objects s) (obs_uid obs) = None" "rev_uid r = obs_uid obs"
  shows "pending_mirror c (obs_uid obs) (push_revision r (admit obs s))"
proof -
  have p: "hs_persist (admit obs s)" "same_timeline (replay (hs_mirror (admit obs s)) c) (admit obs s)"
    using assms(1) by (simp_all add: mirrored_def same_timeline_def)
  have o': "ct_objects (replay (hs_mirror (admit obs s)) c) = records s"
    using assms(1) by (simp add: mirrored_def)
  have "records (admit obs s) = mput (obs_uid obs) (object_record_of (fresh_state obs)) (records s)"
    by (simp add: records_def map_mput)
  then have "mput (obs_uid obs) rc (records (admit obs s)) = mput (obs_uid obs) rc (records s)" for rc
    by (simp add: mput_mput)
  moreover have "seqs_ok (admit obs s)" "calls_ok (hs_mirror (admit obs s)) c"
    using assms(1) by (simp_all add: mirrored_def history_ok_def seqs_ok_def)
  ultimately show ?thesis
    using assms admit_push_history_ok [of s obs r] replay_push [OF p, of r] calls_push [OF p(1) _ p(2), of r] o'
    by (simp add: pending_mirror_def mirrored_def mget_push)
qed

lemma mdel_records: "records (s\<lparr>hs_objects := mdel u (hs_objects s)\<rparr>) = mdel u (records s)"
  by (simp add: records_def mdel_filter filter_map comp_def case_prod_unfold)

interpretation mirrored: store_invariant "mirrored c" "pending_mirror c" "\<lambda>_. True" "\<lambda>_. True" for c
proof unfold_locales
  show "mirrored c (evict i s)" if "mirrored c s" "evictable i s" for i s
    using that replay_evict [of s i c] evict_ok [of s i] calls_evict [of s i c]
    by (auto simp: mirrored_def evictable_def history_ok_def)
  show "pending_mirror c u (evict i s)" if "pending_mirror c u s" "evictable i s" for u i s
    using that replay_evict [of s i c] evict_ok [of s i] calls_evict [of s i c]
    by (auto simp: pending_mirror_def evictable_def history_ok_def mget_evict)
  show "mirrored c (push_revision r s)"
    if "mirrored c s" "mget (hs_objects s) (rev_uid r) \<noteq> None" for r s
    using that replay_push [of s c r] calls_push [of s c r]
    by (auto simp: mirrored_def push_history_ok) (auto simp: history_ok_def)
  show "mirrored c (forget u s)" if "mirrored c s" for u s
  proof -
    have "records (forget u s) = mdel u (records s)"
      by (simp add: records_def mdel_filter filter_map comp_def case_prod_unfold)
    then show ?thesis
      using that by (simp add: mirrored_def forget_history_ok forget_log same_timeline_def replay_op_def
          call_ok_def)
  qed
  show "mirrored c (rewrite_revision r (coalesced obs now r) s)"
    if "mirrored c s" "r \<in> set (hs_entries s)" for r obs now s
    using that records_cong [of "rewrite_revision r (coalesced obs now r) s" s]
    by (auto simp: mirrored_def rewrite_history_ok rewrite_log same_timeline_def replay_op_def call_ok_def)
  show "mirrored c (commit obs now s)" if "mirrored c s" for obs now s
    using that commit_mirrored mirrored_pending commit_absent
    by (cases "mget (hs_objects s) (obs_uid obs)") (force, metis option.distinct(1))
  show "mirrored c (s\<lparr>hs_generation := g\<rparr>)" if "mirrored c s" for s g
    using that records_cong [of "s\<lparr>hs_generation := g\<rparr>" s]
    by (simp add: mirrored_def generation_history_ok same_timeline_def)
qed (auto intro: commit_mirrored admit_mirrored)

lemma run_mirrored: "mirrored c s \<Longrightarrow> mirrored c (run_history ops s)"
proof (induction ops arbitrary: s)
  case Nil
  then show ?case by (simp add: run_history_def)
next
  case (Cons a ops)
  have "mirrored c (apply_op a s)"
    using Cons.prems mirrored.observe_P [of c s] mirrored.seed_P [of c s]
    by (cases a) (simp_all add: store_observe_def)
  with Cons.IH show ?case by (simp add: run_history_def)
qed

section \<open>Priming\<close>

definition persisted_store :: "limits \<Rightarrow> hstore" where
  "persisted_store lim = (new_store lim)\<lparr>hs_persist := True\<rparr>"

definition contents_ok :: "contents \<Rightarrow> bool" where
  "contents_ok c \<longleftrightarrow> map_ok (ct_objects c) \<and> sorted_wrt (<) (map rev_seq (ct_revisions c)) \<and>
     (\<forall>r \<in> set (ct_revisions c). rev_seq r \<le> ct_seq c)"

lemma mput_map:
  assumes "map_ok m" "mget m k = Some v"
  shows "mput k (f v) m = map (\<lambda>(j, w). (j, if j = k then f w else w)) m"
  using assms
proof (induction m)
  case (Cons p m)
  obtain j w where p: "p = (j, w)" by (cases p)
  show ?case
  proof (cases "j = k")
    case True
    then have "map (\<lambda>(j, w). (j, if j = k then f w else w)) m = m"
      using Cons.prems(1) p by (auto simp: map_ok_def intro!: map_idI) force+
    with True Cons.prems(2) p show ?thesis by (simp add: mput_def mget_def)
  next
    case False
    with Cons p show ?thesis by (simp add: mput_def mget_def map_ok_def)
  qed
qed simp

lemma map_absent:
  assumes "mget m k = None"
  shows "map (\<lambda>(j, w). (j, if j = k then f w else w)) m = m"
  using assms by (induction m) (auto simp: mget_def split: if_splits)

definition count_into :: "revision \<Rightarrow> string \<Rightarrow> object_state \<Rightarrow> object_state" where
  "count_into r u st =
     (if rev_uid r = u then st\<lparr>ob_count := ob_count st + 1, ob_last := Some (rev_seq r)\<rparr> else st)"

lemma count_objects:
  assumes "map_ok (hs_objects s)"
  shows "hs_objects (count_revision r s) = map (\<lambda>(u, st). (u, count_into r u st)) (hs_objects s)"
proof -
  let ?f = "\<lambda>st. st\<lparr>ob_count := ob_count st + 1, ob_last := Some (rev_seq r)\<rparr>"
  have m: "map (\<lambda>(u, st). (u, count_into r u st)) (hs_objects s) =
      map (\<lambda>(u, st). (u, if u = rev_uid r then ?f st else st)) (hs_objects s)"
    by (auto simp: count_into_def)
  show ?thesis
  proof (cases "mget (hs_objects s) (rev_uid r)")
    case None
    then show ?thesis unfolding m map_absent [OF None] by (simp add: count_revision_def)
  next
    case (Some st)
    show ?thesis
      unfolding m mput_map [OF assms Some, of ?f, symmetric] using Some
      by (simp add: count_revision_def)
  qed
qed

lemma count_frame [simp]:
  "hs_entries (count_revision r s) = hs_entries s" "hs_scopes (count_revision r s) = hs_scopes s"
  "hs_limits (count_revision r s) = hs_limits s" "hs_seq (count_revision r s) = hs_seq s"
  "hs_total_bytes (count_revision r s) = hs_total_bytes s"
  "hs_evicted (count_revision r s) = hs_evicted s" "hs_persist (count_revision r s) = hs_persist s"
  "hs_mirror (count_revision r s) = hs_mirror s"
  by (simp_all add: count_revision_def split: option.split)

lemma count_fold_frame [simp]:
  "hs_entries (fold count_revision rs s) = hs_entries s"
  "hs_scopes (fold count_revision rs s) = hs_scopes s"
  "hs_limits (fold count_revision rs s) = hs_limits s" "hs_seq (fold count_revision rs s) = hs_seq s"
  "hs_total_bytes (fold count_revision rs s) = hs_total_bytes s"
  "hs_evicted (fold count_revision rs s) = hs_evicted s"
  "hs_persist (fold count_revision rs s) = hs_persist s"
  "hs_mirror (fold count_revision rs s) = hs_mirror s"
  by (induction rs arbitrary: s) simp_all

lemma map_ok_map: "map_ok (map (\<lambda>(u, st). (u, f u st)) m) = map_ok m"
  by (simp add: map_ok_def comp_def case_prod_unfold)

definition count_all :: "revision list \<Rightarrow> string \<Rightarrow> object_state \<Rightarrow> object_state" where
  "count_all rs u st =
     st\<lparr>ob_count := ob_count st + int (length (of_uid u rs)),
        ob_last := (if of_uid u rs = [] then ob_last st else newest u rs)\<rparr>"

lemma count_all_snoc: "count_all (rs @ [r]) u st = count_into r u (count_all rs u st)"
  by (simp add: count_all_def count_into_def newest_snoc)

lemma count_fold:
  assumes "map_ok (hs_objects s)"
  shows "hs_objects (fold count_revision rs s) = map (\<lambda>(u, st). (u, count_all rs u st)) (hs_objects s)"
proof (induction rs rule: rev_induct)
  case Nil
  then show ?case by (simp add: count_all_def case_prod_unfold)
next
  case (snoc r rs)
  have "map_ok (hs_objects (fold count_revision rs s))"
    unfolding snoc map_ok_map by (rule assms)
  from count_objects [OF this, of r] show ?case
    by (simp add: snoc count_all_snoc comp_def case_prod_unfold)
qed

lemma load_frame [simp]:
  "hs_entries (load_object p s) = hs_entries s" "hs_limits (load_object p s) = hs_limits s"
  "hs_seq (load_object p s) = hs_seq s" "hs_total_bytes (load_object p s) = hs_total_bytes s"
  "hs_evicted (load_object p s) = hs_evicted s" "hs_persist (load_object p s) = hs_persist s"
  "hs_mirror (load_object p s) = hs_mirror s"
  "hs_objects (load_object p s) = mput (fst p) (state_of_record (snd p)) (hs_objects s)"
  by (simp_all add: load_object_def scope_add_def)

lemma load_fold_frame [simp]:
  "hs_entries (fold load_object ps s) = hs_entries s" "hs_limits (fold load_object ps s) = hs_limits s"
  "hs_seq (fold load_object ps s) = hs_seq s"
  "hs_total_bytes (fold load_object ps s) = hs_total_bytes s"
  "hs_evicted (fold load_object ps s) = hs_evicted s"
  "hs_persist (fold load_object ps s) = hs_persist s"
  "hs_mirror (fold load_object ps s) = hs_mirror s"
  by (induction ps arbitrary: s) simp_all

lemma scope_set_load:
  "scope_set (load_object p s) sc =
     (if sc = or_scope (snd p) then List.insert (fst p) (scope_set s sc) else scope_set s sc)"
  by (simp add: scope_set_def load_object_def scope_add_def)

lemma load_ok:
  assumes "scopes_ok s" "maps_ok s" "mget (hs_objects s) (fst p) = None"
  shows "scopes_ok (load_object p s)" "maps_ok (load_object p s)"
proof -
  have "u \<in> set (scope_set (load_object p s) sc) \<longleftrightarrow>
      (\<exists>st. mget (hs_objects (load_object p s)) u = Some st \<and> ob_scope st = sc)" for u sc
    using assms by (auto simp: scopes_ok_def scope_set_load state_of_record_def)
  moreover have "distinct (scope_set (load_object p s) sc)" for sc
    using assms by (auto simp: scopes_ok_def scope_set_load)
  ultimately show "scopes_ok (load_object p s)" by (simp add: scopes_ok_def)
  show "maps_ok (load_object p s)"
    using assms(2) by (simp add: maps_ok_def) (simp add: load_object_def scope_add_def)
qed

lemma load_fold:
  assumes "map_ok ps" "\<forall>p \<in> set ps. mget (hs_objects s) (fst p) = None" "scopes_ok s" "maps_ok s"
  shows "scopes_ok (fold load_object ps s) \<and> maps_ok (fold load_object ps s) \<and>
    hs_objects (fold load_object ps s) = hs_objects s @ map (\<lambda>(u, rc). (u, state_of_record rc)) ps"
  using assms
proof (induction ps arbitrary: s)
  case (Cons p ps)
  have "\<forall>q \<in> set ps. fst q \<noteq> fst p" using Cons.prems(1) by (auto simp: map_ok_def) (metis fst_conv imageI)
  then have absent: "\<forall>q \<in> set ps. mget (hs_objects (load_object p s)) (fst q) = None"
    using Cons.prems(2) by simp
  have ok: "map_ok ps" "scopes_ok (load_object p s)" "maps_ok (load_object p s)"
    using Cons.prems load_ok [of s p] by (simp_all add: map_ok_def)
  have o': "hs_objects (load_object p s) = hs_objects s @ [(fst p, state_of_record (snd p))]"
    using Cons.prems(2) by (simp add: mput_new)
  from Cons.IH [OF ok(1) absent ok(2,3)] show ?case
    unfolding o' by (simp add: case_prod_unfold)
qed simp

lemma mget_map2: "mget (map (\<lambda>(k, v). (k, f k v)) m) j = map_option (f j) (mget m j)"
  by (induction m) (auto simp: mget_def)

definition primed_state :: "revision list \<Rightarrow> string \<Rightarrow> object_record \<Rightarrow> object_state" where
  "primed_state rs u rc =
     (state_of_record rc)\<lparr>ob_count := int (length (of_uid u rs)), ob_last := newest u rs\<rparr>"

lemma count_all_fresh: "count_all rs u (state_of_record rc) = primed_state rs u rc"
  using newest_None [of u rs] by (auto simp: count_all_def primed_state_def state_of_record_def)

lemma prime_loaded_frame:
  "hs_entries (prime_loaded c (persisted_store lim)) = ct_revisions c"
  "hs_limits (prime_loaded c (persisted_store lim)) = lim"
  "hs_seq (prime_loaded c (persisted_store lim)) = ct_seq c"
  "hs_total_bytes (prime_loaded c (persisted_store lim)) = sum_list (map revision_size (ct_revisions c))"
  "hs_evicted (prime_loaded c (persisted_store lim)) = ct_evicted c"
  "hs_persist (prime_loaded c (persisted_store lim))" "hs_mirror (prime_loaded c (persisted_store lim)) = []"
  by (simp_all add: prime_loaded_def Let_def persisted_store_def new_store_def)

lemma prime_loaded_objects:
  assumes "contents_ok c"
  shows "hs_objects (prime_loaded c (persisted_store lim)) =
      map (\<lambda>(u, rc). (u, primed_state (ct_revisions c) u rc)) (ct_objects c)"
    and "scopes_ok (prime_loaded c (persisted_store lim))"
    and "maps_ok (prime_loaded c (persisted_store lim))"
proof -
  define s1 where "s1 = (persisted_store lim)\<lparr>hs_entries := hs_entries (persisted_store lim) @ ct_revisions c,
      hs_total_bytes := hs_total_bytes (persisted_store lim) + sum_list (map revision_size (ct_revisions c)),
      hs_seq := ct_seq c, hs_generation := ct_seq c, hs_evicted := ct_evicted c\<rparr>"
  let ?s2 = "fold load_object (ct_objects c) s1"
  have e: "hs_entries ?s2 = ct_revisions c" by (simp add: s1_def persisted_store_def new_store_def)
  have start: "hs_objects s1 = []" "scopes_ok s1" "maps_ok s1"
    by (simp_all add: s1_def persisted_store_def new_store_def scopes_ok_def scope_set_def maps_ok_def)
  have load: "scopes_ok ?s2" "maps_ok ?s2"
    "hs_objects ?s2 = map (\<lambda>(u, rc). (u, state_of_record rc)) (ct_objects c)"
    using load_fold [of "ct_objects c" s1] assms start by (simp_all add: contents_ok_def)
  have p: "prime_loaded c (persisted_store lim) = fold count_revision (ct_revisions c) ?s2"
    using e by (simp add: prime_loaded_def Let_def s1_def)
  have m: "map_ok (hs_objects ?s2)" using load(2) by (simp add: maps_ok_def)
  show o': "hs_objects (prime_loaded c (persisted_store lim)) =
      map (\<lambda>(u, rc). (u, primed_state (ct_revisions c) u rc)) (ct_objects c)"
    unfolding p count_fold [OF m] load(3) by (simp add: count_all_fresh comp_def case_prod_unfold)
  show "maps_ok (prime_loaded c (persisted_store lim))"
    using load(2) m unfolding maps_ok_def p count_fold [OF m] map_ok_map by simp
  have "map_option ob_scope (mget (hs_objects (prime_loaded c (persisted_store lim))) u) =
      map_option ob_scope (mget (hs_objects ?s2) u)" for u
    unfolding p count_fold [OF m] mget_map2
    by (simp add: option.map_comp comp_def count_all_def)
  then show "scopes_ok (prime_loaded c (persisted_store lim))"
    using load(1) scopes_cong [of "prime_loaded c (persisted_store lim)" ?s2]
    by (simp add: p scope_set_def)
qed

lemma prime_loaded_ok:
  assumes "contents_ok c"
  shows "history_ok (prime_loaded c (persisted_store lim))"
    and "counts_ok (prime_loaded c (persisted_store lim))"
  using assms prime_loaded_objects [OF assms, of lim]
  by (auto simp: history_ok_def seqs_ok_def bytes_ok_def targets_ok_def counts_ok_def contents_ok_def
      prime_loaded_frame mget_map2 primed_state_def)

lemma record_of_primed [simp]: "object_record_of (primed_state rs u rc) = rc"
  by (simp add: object_record_of_def primed_state_def state_of_record_def)

lemma prime_loaded_mirrored:
  assumes "contents_ok c"
  shows "mirrored c (prime_loaded c (persisted_store lim))"
proof -
  have "records (prime_loaded c (persisted_store lim)) = ct_objects c"
    unfolding records_def prime_loaded_objects(1) [OF assms]
    by (simp add: comp_def case_prod_unfold)
  then show ?thesis
    using prime_loaded_ok(1) [OF assms]
    by (simp add: mirrored_def same_timeline_def replay_def prime_loaded_frame)
qed

lemma prime_induct:
  assumes "P (prime_loaded c s)" and "\<And>t i. P t \<Longrightarrow> evictable i t \<Longrightarrow> P (evict i t)"
  shows "P (prime c s)"
proof -
  have "P (fold enforce_per_object us t)" if "P t" for us t
    using that
  proof (induction us arbitrary: t)
    case (Cons u us)
    then have "P (enforce_per_object u t)" using enforce_per_object_cases [of P] assms(2) by blast
    with Cons.IH show ?case by simp
  qed simp
  from enforce_bounds_induct [of P, OF this [OF assms(1)] assms(2)] show ?thesis
    by (simp add: prime_def Let_def)
qed

lemma prime_mirrored: "contents_ok c \<Longrightarrow> mirrored c (prime c (persisted_store lim))"
  by (rule prime_induct [of "mirrored c"]) (auto intro: prime_loaded_mirrored mirrored.evict_P)

text \<open>
  The persister always holds the store: after any operations on a store primed from any
  well-formed contents, replaying the mirrored calls over those contents gives the retained
  timeline, the classification state of the live objects, the highest sequence and the eviction
  mark, nothing more and nothing less.
\<close>

theorem mirror_is_the_store:
  assumes "contents_ok c"
  shows "replay (hs_mirror (run_history ops (prime c (persisted_store lim)))) c =
    contents_of (run_history ops (prime c (persisted_store lim)))"
  by (rule mirrored_contents [OF run_mirrored [OF prime_mirrored [OF assms]]])

definition no_contents :: contents where
  "no_contents = \<lparr>ct_revisions = [], ct_objects = [], ct_seq = 0, ct_evicted = False\<rparr>"

lemma no_contents_ok: "contents_ok no_contents"
  by (simp add: contents_ok_def no_contents_def)

theorem mirror_is_the_store_witness:
  "ct_seq (replay (hs_mirror (run_history sample_trace (prime no_contents (persisted_store sample_limits)))) no_contents) = 5"
  unfolding mirror_is_the_store [OF no_contents_ok] by code_simp

section \<open>Restarting\<close>

lemma restored_state:
  assumes "exact s" "(u, st) \<in> set (hs_objects s)"
  shows "primed_state (hs_entries s) u (object_record_of st) = st"
proof -
  have "mget (hs_objects s) u = Some st"
    using assms by (intro mget_of_set) (auto simp: exact_def history_ok_def maps_ok_def)
  then have "ob_count st = int (length (of_uid u (hs_entries s)))" "ob_last st = newest u (hs_entries s)"
    using assms(1) by (auto simp: exact_def counts_ok_def history_ok_def targets_ok_def)
  then show ?thesis
    by (cases st) (simp add: primed_state_def state_of_record_def object_record_of_def)
qed

lemma contents_of_ok: "history_ok s \<Longrightarrow> contents_ok (contents_of s)"
  by (simp add: contents_ok_def contents_of_def history_ok_def seqs_ok_def maps_ok_def records_def
      map_ok_map [of "\<lambda>_. object_record_of"])

lemma restored_objects:
  assumes "exact s"
  shows "hs_objects (prime_loaded (contents_of s) (persisted_store lim)) = hs_objects s"
proof -
  have ok: "history_ok s" using assms by (simp add: exact_def)
  show ?thesis
    unfolding prime_loaded_objects(1) [OF contents_of_ok [OF ok]]
    using restored_state [OF assms]
    by (auto simp: contents_of_def records_def comp_def case_prod_unfold intro!: map_idI)
qed

lemma prime_no_eviction:
  assumes "exact t" "\<not> over_bounds t"
  shows "enforce_bounds (fold enforce_per_object us t) = t"
proof -
  have "enforce_per_object u t = t" for u
    using assms(1) unfolding enforce_per_object_def exact_def counts_ok_def cap_ok_def
    by (auto split: option.split)
  then have "fold enforce_per_object us t = t" by (induction us) simp_all
  moreover have "enforce_bounds t = t" using assms(2) by (subst enforce_bounds.simps) simp
  ultimately show ?thesis by simp
qed

lemma restart_same:
  assumes "exact s" "\<not> over_bounds s"
  defines "s' \<equiv> prime (contents_of s) (persisted_store (hs_limits s))"
  shows "hs_entries s' = hs_entries s" "hs_objects s' = hs_objects s" "hs_seq s' = hs_seq s"
    "hs_evicted s' = hs_evicted s" "hs_total_bytes s' = hs_total_bytes s" "exact s'"
    "set (scope_set s' sc) = set (scope_set s sc)" "hs_mirror s' = []"
proof -
  let ?t = "prime_loaded (contents_of s) (persisted_store (hs_limits s))"
  have ok: "history_ok s" using assms(1) by (simp add: exact_def)
  note cok = contents_of_ok [OF ok]
  have e: "hs_entries ?t = hs_entries s" "hs_limits ?t = hs_limits s" "hs_seq ?t = hs_seq s"
    "hs_evicted ?t = hs_evicted s" "hs_mirror ?t = []"
    by (simp_all add: prime_loaded_frame contents_of_def)
  have b: "hs_total_bytes ?t = hs_total_bytes s"
    using ok by (simp add: prime_loaded_frame contents_of_def history_ok_def bytes_ok_def)
  have "cap_ok ?t" using assms(1) e by (simp add: exact_def cap_ok_def)
  then have x: "exact ?t" using prime_loaded_ok [OF cok] by (simp add: exact_def)
  moreover have "\<not> over_bounds ?t" using assms(2) e b by (simp add: over_bounds_def)
  ultimately have s': "s' = ?t"
    unfolding s'_def prime_def Let_def by (rule prime_no_eviction)
  show "hs_entries s' = hs_entries s" "hs_objects s' = hs_objects s" "hs_seq s' = hs_seq s"
    "hs_evicted s' = hs_evicted s" "hs_total_bytes s' = hs_total_bytes s" "exact s'" "hs_mirror s' = []"
    unfolding s' using e b x restored_objects [OF assms(1)] by simp_all
  have "u \<in> set (scope_set ?t sc) \<longleftrightarrow> u \<in> set (scope_set s sc)" for u
    using ok x restored_objects [OF assms(1)] by (simp add: exact_def history_ok_def scopes_ok_def)
  then show "set (scope_set s' sc) = set (scope_set s sc)" unfolding s' by blast
qed

lemma prime_limits: "hs_limits (prime c (persisted_store lim)) = lim"
proof -
  have "hs_limits (persisted_store lim) = lim" by (simp add: persisted_store_def new_store_def)
  then show ?thesis
    by (intro prime_induct [of "\<lambda>t. hs_limits t = lim"]) (simp_all add: prime_loaded_frame)
qed

text \<open>
  What the persister holds after some lives of the store, each a run of operations on the store primed from
  what the life before it left; and lives in which no identifier returns after its deletion while revisions
  of it are retained, and a seed lists live objects.
\<close>

primrec lived :: "limits \<Rightarrow> history_op list list \<Rightarrow> contents \<Rightarrow> contents" where
  "lived lim [] c = c"
| "lived lim (ops # rest) c = lived lim rest (replay (hs_mirror (run_history ops (prime c (persisted_store lim)))) c)"

primrec no_returns :: "limits \<Rightarrow> history_op list list \<Rightarrow> contents \<Rightarrow> bool" where
  "no_returns lim [] c \<longleftrightarrow> True"
| "no_returns lim (ops # rest) c \<longleftrightarrow> incarnations ops (prime c (persisted_store lim)) \<and>
     no_returns lim rest (replay (hs_mirror (run_history ops (prime c (persisted_store lim)))) c)"

definition resumable :: "limits \<Rightarrow> contents \<Rightarrow> bool" where
  "resumable lim c \<longleftrightarrow> contents_ok c \<and> exact (prime c (persisted_store lim)) \<and> \<not> over_bounds (prime c (persisted_store lim))"

lemma life:
  assumes "resumable lim c" "incarnations ops (prime c (persisted_store lim))"
  defines "s \<equiv> run_history ops (prime c (persisted_store lim))"
  shows "replay (hs_mirror s) c = contents_of s" "exact s" "\<not> over_bounds s" "hs_limits s = lim"
    "resumable lim (contents_of s)"
proof -
  show m: "replay (hs_mirror s) c = contents_of s"
    unfolding s_def using assms(1) by (intro mirrored_contents run_mirrored prime_mirrored) (simp add: resumable_def)
  show x: "exact s" unfolding s_def using assms(1,2) by (intro run_exact) (simp add: resumable_def)
  show w: "\<not> over_bounds s"
    unfolding s_def using assms(1) run_ok [of "prime c (persisted_store lim)" ops] by (simp add: resumable_def exact_def)
  show l: "hs_limits s = lim" unfolding s_def by (simp add: run_limits prime_limits)
  note same = restart_same [OF x w, unfolded l]
  have "over_bounds (prime (contents_of s) (persisted_store lim)) = over_bounds s"
    by (rule over_bounds_cong) (simp_all add: same prime_limits l)
  with w same(6) contents_of_ok [of s] x show "resumable lim (contents_of s)"
    by (simp add: resumable_def exact_def)
qed

lemma lives:
  "resumable lim c \<Longrightarrow> no_returns lim ls c \<Longrightarrow> resumable lim (lived lim ls c)"
proof (induction ls arbitrary: c)
  case (Cons ops ls)
  from Cons.prems(2) have "incarnations ops (prime c (persisted_store lim))" by simp
  note l = life [OF Cons.prems(1) this]
  from Cons.prems(2) Cons.IH [OF l(5)] show ?case by (simp add: l(1))
qed simp

lemma first_life: "resumable lim no_contents"
proof -
  have ok: "history_ok (persisted_store lim)"
    by (simp add: persisted_store_def new_store_def history_ok_def seqs_ok_def bytes_ok_def
        targets_ok_def scopes_ok_def scope_set_def maps_ok_def)
  then have x: "exact (persisted_store lim)" and w: "\<not> over_bounds (persisted_store lim)"
    by (simp_all add: exact_def counts_ok_def cap_ok_def persisted_store_def new_store_def over_bounds_def)
  have c: "contents_of (persisted_store lim) = no_contents" and l: "hs_limits (persisted_store lim) = lim"
    by (simp_all add: contents_of_def no_contents_def records_def persisted_store_def new_store_def)
  note same = restart_same [OF x w, unfolded c l]
  have "over_bounds (prime no_contents (persisted_store lim)) = over_bounds (persisted_store lim)"
    by (rule over_bounds_cong) (simp_all add: same prime_limits l)
  with w same(6) show ?thesis by (simp add: resumable_def no_contents_ok)
qed

text \<open>
  C3. A restart resumes. Start with an empty persister and let the store live any number of times, each life any
  observations and seeds on the store primed from what the persister was told before, under the same
  limits, as long as no identifier is observed again after its deletion while revisions of it are retained
  and a seed lists no deleted object, as no listing does:
  the store primed next from what the persister was told in all has the very timeline, classification state,
  byte total, sequence, eviction mark and scope sets of the one that was lost, and tells the persister nothing.
\<close>

theorem restart_resumes:
  fixes lim :: limits and ls :: "history_op list list" and ops :: "history_op list"
  assumes "no_returns lim ls no_contents"
  defines "c \<equiv> lived lim ls no_contents"
  assumes "incarnations ops (prime c (persisted_store lim))"
  defines "s \<equiv> run_history ops (prime c (persisted_store lim))"
  defines "s' \<equiv> prime (replay (hs_mirror s) c) (persisted_store lim)"
  shows "hs_entries s' = hs_entries s \<and> hs_objects s' = hs_objects s \<and> hs_seq s' = hs_seq s \<and>
    hs_evicted s' = hs_evicted s \<and> hs_total_bytes s' = hs_total_bytes s \<and>
    (\<forall>sc. set (scope_set s' sc) = set (scope_set s sc)) \<and> hs_mirror s' = []"
proof -
  have "resumable lim c" unfolding c_def by (rule lives [OF first_life assms(1)])
  note l = life [OF this assms(3), folded s_def]
  show ?thesis unfolding s'_def l(1) using restart_same [OF l(2,3), unfolded l(4)] by blast
qed

theorem restart_resumes_witness:
  "let s1 = run_history sample_trace (prime no_contents (persisted_store sample_limits));
       c = replay (hs_mirror s1) no_contents;
       s2 = run_history [OpObserve (sample_obs ''u2'' ''b'' ''x'') 7] (prime c (persisted_store sample_limits))
   in hs_entries (prime (replay (hs_mirror s2) c) (persisted_store sample_limits)) = hs_entries s2 \<and>
      length (hs_entries s2) = 4"
proof -
  have a: "no_returns sample_limits [sample_trace] no_contents" by code_simp
  have b: "incarnations [OpObserve (sample_obs ''u2'' ''b'' ''x'') 7]
      (prime (lived sample_limits [sample_trace] no_contents) (persisted_store sample_limits))" by code_simp
  have n: "length (hs_entries (run_history [OpObserve (sample_obs ''u2'' ''b'' ''x'') 7]
      (prime (lived sample_limits [sample_trace] no_contents) (persisted_store sample_limits)))) = 4" by code_simp
  from restart_resumes [OF a b] n show ?thesis by (simp add: Let_def)
qed

text \<open>
  Priming enforces the per-object cap by a single eviction per live object. A journal written
  under a larger cap is therefore not trimmed to the current one, although the constructor
  promises that a persisted timeline larger than the current bounds is trimmed: here an object
  with five persisted revisions comes up with four under a cap of two. Further changes keep it at
  four.
\<close>

definition long_contents :: contents where
  "long_contents = contents_of (run_history
     (map (\<lambda>n. OpObserve (sample_obs ''u1'' (replicate n CHR ''a'') ''x'') (int n)) [1, 2, 3, 4, 5])
     (persisted_store open_limits))"

theorem prime_leaves_objects_over_their_cap:
  "lim_per_object sample_limits = 2 \<and>
   length (hs_entries (prime long_contents (persisted_store sample_limits))) = 4 \<and>
   length (hs_entries (store_observe (sample_obs ''u1'' ''b'' ''x'') 9
     (prime long_contents (persisted_store sample_limits)))) = 4"
  by code_simp

end
