(* ===== verification/HistoryBolt.thy ===== *)
theory HistoryBolt
  imports HistoryJournal
begin

text \<open>
  The write-behind journal of \<open>internal/history/bolt/bolt.go\<close>. Its mutation methods only enqueue;
  \<open>flush\<close> takes the pending batch, commits it in one transaction with the lock released, and merges
  it back when the transaction fails. The steps are separate here, so that enqueueing while a
  transaction is in flight is an ordinary interleaving.

  The file is three buckets. bbolt and the JSON codec are parameters: \<open>encode\<close> and \<open>decode\<close>
  of the two record types, and the order \<open>cursor\<close> in which a bucket is visited.
\<close>

section \<open>Keys\<close>

fun be_bytes :: "nat \<Rightarrow> nat \<Rightarrow> string" where
  "be_bytes 0 q = []"
| "be_bytes (Suc n) q = be_bytes n (q div 256) @ [char_of (q mod 256)]"

definition be_value :: "string \<Rightarrow> nat" where
  "be_value s = fold (\<lambda>c acc. acc * 256 + byte c) s 0"

text \<open>\<open>seqKey\<close>: the big-endian 8 bytes of a \<open>uint64\<close>.\<close>

definition seq_key :: "nat \<Rightarrow> string" where "seq_key q = be_bytes 8 q"

lemma byte_char_of [simp]: "n < 256 \<Longrightarrow> byte (char_of n) = n"
  by (simp add: byte_def)

lemma length_be_bytes [simp]: "length (be_bytes n q) = n"
  by (induction n q rule: be_bytes.induct) simp_all

lemma be_value_snoc: "be_value (s @ [c]) = be_value s * 256 + byte c"
  by (simp add: be_value_def)

lemma be_value_bytes: "be_value (be_bytes n q) = q mod 256 ^ n"
proof (induction n q rule: be_bytes.induct)
  case (1 q)
  then show ?case by (simp add: be_value_def)
next
  case (2 n q)
  have "byte (char_of (q mod 256)) = q mod 256" by (simp add: byte_def)
  with 2 have "be_value (be_bytes (Suc n) q) = (q div 256) mod 256 ^ n * 256 + q mod 256"
    by (simp add: be_value_snoc)
  also have "\<dots> = q mod (256 * 256 ^ n)"
    by (simp add: mod_mult2_eq)
  finally show ?case by simp
qed

lemma seq_key_value: "q < 2 ^ 64 \<Longrightarrow> be_value (seq_key q) = q"
  by (simp add: seq_key_def be_value_bytes)

lemma seq_key_inject: "a < 2 ^ 64 \<Longrightarrow> b < 2 ^ 64 \<Longrightarrow> seq_key a = seq_key b \<longleftrightarrow> a = b"
  by (metis seq_key_value)

lemma byte_less: "byte c < 256"
  by (simp add: byte_def)

lemma be_value_less: "be_value s < 256 ^ length s"
proof (induction s rule: rev_induct)
  case Nil
  then show ?case by (simp add: be_value_def)
next
  case (snoc c s)
  have "be_value s * 256 + byte c < (be_value s + 1) * 256" using byte_less [of c] by simp
  also have "\<dots> \<le> 256 ^ length s * 256" using snoc by simp
  finally show ?case by (simp add: be_value_snoc mult.commute)
qed

lemma char_less_byte: "c < d \<longleftrightarrow> byte c < byte d"
  by (simp add: less_char_def byte_def)

text \<open>Big-endian keys of one length sort as the numbers they encode.\<close>

lemma snoc_less:
  "length s = length t \<Longrightarrow> s @ [c] < t @ [d] \<longleftrightarrow> s < t \<or> s = t \<and> c < d" for s t :: string
proof (induction s arbitrary: t)
  case Nil
  then show ?case by simp
next
  case (Cons x s)
  then obtain y t' where "t = y # t'" "length s = length t'" by (cases t) auto
  with Cons.IH [of t'] show ?case by auto
qed

lemma be_value_inject: "length s = length t \<Longrightarrow> be_value s = be_value t \<longleftrightarrow> s = t"
proof (induction s arbitrary: t rule: rev_induct)
  case Nil
  then show ?case by simp
next
  case (snoc c s)
  then obtain t' d where t: "t = t' @ [d]" and l: "length s = length t'"
    by (cases t rule: rev_cases) auto
  show ?case
    unfolding t be_value_snoc using snoc.IH [OF l] byte_less [of c] byte_less [of d] byte_inject [of c d]
    by auto
qed

lemma be_value_order: "length s = length t \<Longrightarrow> s < t \<longleftrightarrow> be_value s < be_value t"
proof (induction s arbitrary: t rule: rev_induct)
  case Nil
  then show ?case by simp
next
  case (snoc c s)
  then obtain t' d where t: "t = t' @ [d]" and l: "length s = length t'"
    by (cases t rule: rev_cases) auto
  note inj = be_value_inject [OF l]
  show ?case
    unfolding t snoc_less [OF l] be_value_snoc char_less_byte
    using snoc.IH [OF l] inj byte_less [of c] byte_less [of d] by auto
qed

text \<open>The cursor's order is the timeline's order.\<close>

lemma seq_key_order: "a < 2 ^ 64 \<Longrightarrow> b < 2 ^ 64 \<Longrightarrow> seq_key a < seq_key b \<longleftrightarrow> a < b"
  by (simp add: be_value_order seq_key_value seq_key_def [symmetric])
    (simp add: be_value_order seq_key_def be_value_bytes)

section \<open>The journal\<close>

record batch =
  bt_revisions :: "(nat, revision option) gomap"
  bt_objects :: "(string, object_record option) gomap"
  bt_seq :: nat
  bt_evicted :: bool

record ('e, 'f) dbfile =
  fl_revisions :: "(string, 'e) gomap"
  fl_objects :: "(string, 'f) gomap"
  fl_seq :: "string option"
  fl_evicted :: bool

record ('e, 'f) journal =
  jn_pending :: batch
  jn_flight :: "batch option"
  jn_file :: "('e, 'f) dbfile"

text \<open>What the code uses of bbolt and of the JSON codec.\<close>

record ('e, 'f) bolt =
  encode_revision :: "revision \<Rightarrow> 'e"
  decode_revision :: "'e \<Rightarrow> revision option"
  encode_object :: "object_record \<Rightarrow> 'f"
  decode_object :: "'f \<Rightarrow> object_record option"
  cursor :: "(string \<times> 'e) list \<Rightarrow> (string \<times> 'e) list"

definition no_batch :: batch where
  "no_batch = \<lparr>bt_revisions = [], bt_objects = [], bt_seq = 0, bt_evicted = False\<rparr>"

definition journal_of :: "('e, 'f) dbfile \<Rightarrow> ('e, 'f) journal" where
  "journal_of f = \<lparr>jn_pending = no_batch, jn_flight = None, jn_file = f\<rparr>"

text \<open>\<open>Append\<close>, \<open>Update\<close>, \<open>Evict\<close>, \<open>PutObject\<close>, \<open>DeleteObject\<close>, \<open>MarkEvicted\<close>.\<close>

definition enqueue :: "mirror_op \<Rightarrow> batch \<Rightarrow> batch" where
  "enqueue mop b =
     (case mop of
        MAppend r \<Rightarrow> b\<lparr>bt_revisions := mput (rev_seq r) (Some r) (bt_revisions b),
          bt_seq := (if rev_seq r > bt_seq b then rev_seq r else bt_seq b)\<rparr>
      | MUpdate r \<Rightarrow> b\<lparr>bt_revisions := mput (rev_seq r) (Some r) (bt_revisions b)\<rparr>
      | MEvict q \<Rightarrow> b\<lparr>bt_revisions := mput q None (bt_revisions b)\<rparr>
      | MPutObject u rc \<Rightarrow> b\<lparr>bt_objects := mput u (Some rc) (bt_objects b)\<rparr>
      | MDeleteObject u \<Rightarrow> b\<lparr>bt_objects := mput u None (bt_objects b)\<rparr>
      | MMarkEvicted \<Rightarrow> b\<lparr>bt_evicted := True\<rparr>)"

definition empty_batch :: "batch \<Rightarrow> bool" where
  "empty_batch b \<longleftrightarrow> bt_revisions b = [] \<and> bt_objects b = [] \<and> bt_seq b = 0 \<and> \<not> bt_evicted b"

text \<open>\<open>flush\<close> up to the transaction: the pending batch is taken, unless there is nothing to write.\<close>

definition take_batch :: "('e, 'f) journal \<Rightarrow> ('e, 'f) journal" where
  "take_batch j =
     (if jn_flight j \<noteq> None \<or> empty_batch (jn_pending j) then j
      else j\<lparr>jn_pending := no_batch, jn_flight := Some (jn_pending j)\<rparr>)"

text \<open>The transaction's writes.\<close>

definition write_revision ::
  "('e, 'f) bolt \<Rightarrow> nat \<times> revision option \<Rightarrow> (string, 'e) gomap \<Rightarrow> (string, 'e) gomap" where
  "write_revision p w m =
     (case snd w of None \<Rightarrow> mdel (seq_key (fst w)) m
      | Some r \<Rightarrow> mput (seq_key (fst w)) (encode_revision p r) m)"

definition write_object ::
  "('e, 'f) bolt \<Rightarrow> string \<times> object_record option \<Rightarrow> (string, 'f) gomap \<Rightarrow> (string, 'f) gomap" where
  "write_object p w m =
     (case snd w of None \<Rightarrow> mdel (fst w) m | Some rc \<Rightarrow> mput (fst w) (encode_object p rc) m)"

definition write_batch :: "('e, 'f) bolt \<Rightarrow> batch \<Rightarrow> ('e, 'f) dbfile \<Rightarrow> ('e, 'f) dbfile" where
  "write_batch p b f =
     f\<lparr>fl_revisions := fold (write_revision p) (bt_revisions b) (fl_revisions f),
       fl_objects := fold (write_object p) (bt_objects b) (fl_objects f),
       fl_seq := (if bt_seq b > 0 then Some (seq_key (bt_seq b)) else fl_seq f),
       fl_evicted := (fl_evicted f \<or> bt_evicted b)\<rparr>"

text \<open>The merge after a failed transaction: a state enqueued meanwhile wins.\<close>

definition keep_pending :: "'k \<times> 'v \<Rightarrow> ('k, 'v) gomap \<Rightarrow> ('k, 'v) gomap" where
  "keep_pending w m = (if mget m (fst w) = None then mput (fst w) (snd w) m else m)"

definition merge_back :: "batch \<Rightarrow> batch \<Rightarrow> batch" where
  "merge_back failed b =
     b\<lparr>bt_revisions := fold keep_pending (bt_revisions failed) (bt_revisions b),
       bt_objects := fold keep_pending (bt_objects failed) (bt_objects b),
       bt_seq := (if bt_seq failed > bt_seq b then bt_seq failed else bt_seq b),
       bt_evicted := (bt_evicted b \<or> bt_evicted failed)\<rparr>"

definition finish_flush :: "('e, 'f) bolt \<Rightarrow> bool \<Rightarrow> ('e, 'f) journal \<Rightarrow> ('e, 'f) journal" where
  "finish_flush p committed j =
     (case jn_flight j of
        None \<Rightarrow> j
      | Some b \<Rightarrow>
          if committed then j\<lparr>jn_flight := None, jn_file := write_batch p b (jn_file j)\<rparr>
          else j\<lparr>jn_flight := None, jn_pending := merge_back b (jn_pending j)\<rparr>)"

datatype journal_step = JCall mirror_op | JTake | JFinish bool

primrec journal_apply :: "('e, 'f) bolt \<Rightarrow> journal_step \<Rightarrow> ('e, 'f) journal \<Rightarrow> ('e, 'f) journal" where
  "journal_apply p (JCall mop) j = j\<lparr>jn_pending := enqueue mop (jn_pending j)\<rparr>"
| "journal_apply p JTake j = take_batch j"
| "journal_apply p (JFinish committed) j = finish_flush p committed j"

fun calls_of :: "journal_step list \<Rightarrow> mirror_op list" where
  "calls_of [] = []"
| "calls_of (JCall mop # ss) = mop # calls_of ss"
| "calls_of (s # ss) = calls_of ss"

text \<open>\<open>Load\<close>.\<close>

definition meta_seq :: "('e, 'f) dbfile \<Rightarrow> nat" where
  "meta_seq f = (case fl_seq f of Some raw \<Rightarrow> (if length raw = 8 then be_value raw else 0) | None \<Rightarrow> 0)"

definition load_file :: "('e, 'f) bolt \<Rightarrow> ('e, 'f) dbfile \<Rightarrow> contents option" where
  "load_file p f =
     (let rows = cursor p (fl_revisions f)
      in case those (map (\<lambda>kv. decode_revision p (snd kv)) rows) of
           None \<Rightarrow> None
         | Some revs \<Rightarrow>
             (case those (map (\<lambda>kv. map_option (Pair (fst kv)) (decode_object p (snd kv))) (fl_objects f)) of
                None \<Rightarrow> None
              | Some objs \<Rightarrow>
                  let keyed = fold (\<lambda>kv seq. if be_value (fst kv) > seq then be_value (fst kv) else seq) rows 0
                  in Some \<lparr>ct_revisions = revs, ct_objects = objs,
                           ct_seq = (if meta_seq f > keyed then meta_seq f else keyed),
                           ct_evicted = fl_evicted f\<rparr>))"

section \<open>Views\<close>

text \<open>What a file, and a batch laid over it, say: the journal's abstraction.\<close>

record view =
  vw_revision :: "nat \<Rightarrow> revision option"
  vw_object :: "string \<Rightarrow> object_record option"
  vw_seq :: nat
  vw_evicted :: bool

definition view_of :: "contents \<Rightarrow> view" where
  "view_of c =
     \<lparr>vw_revision = (\<lambda>q. find (\<lambda>r. rev_seq r = q) (ct_revisions c)), vw_object = mget (ct_objects c),
      vw_seq = ct_seq c, vw_evicted = ct_evicted c\<rparr>"

definition view_file :: "('e, 'f) bolt \<Rightarrow> ('e, 'f) dbfile \<Rightarrow> view" where
  "view_file p f =
     \<lparr>vw_revision = (\<lambda>q. if q < 2 ^ 64 then Option.bind (mget (fl_revisions f) (seq_key q)) (decode_revision p) else None),
      vw_object = (\<lambda>u. Option.bind (mget (fl_objects f) u) (decode_object p)),
      vw_seq = meta_seq f, vw_evicted = fl_evicted f\<rparr>"

definition overlay :: "('k, 'v option) gomap \<Rightarrow> ('k \<Rightarrow> 'v option) \<Rightarrow> 'k \<Rightarrow> 'v option" where
  "overlay m below k = (case mget m k of Some x \<Rightarrow> x | None \<Rightarrow> below k)"

definition view_over :: "batch \<Rightarrow> view \<Rightarrow> view" where
  "view_over b v =
     \<lparr>vw_revision = overlay (bt_revisions b) (vw_revision v), vw_object = overlay (bt_objects b) (vw_object v),
      vw_seq = max (bt_seq b) (vw_seq v), vw_evicted = (vw_evicted v \<or> bt_evicted b)\<rparr>"

definition view_call :: "mirror_op \<Rightarrow> view \<Rightarrow> view" where
  "view_call mop v =
     (case mop of
        MAppend r \<Rightarrow> v\<lparr>vw_revision := (vw_revision v)(rev_seq r := Some r), vw_seq := max (vw_seq v) (rev_seq r)\<rparr>
      | MUpdate r \<Rightarrow> v\<lparr>vw_revision := (vw_revision v)(rev_seq r := Some r)\<rparr>
      | MEvict q \<Rightarrow> v\<lparr>vw_revision := (vw_revision v)(q := None)\<rparr>
      | MPutObject u rc \<Rightarrow> v\<lparr>vw_object := (vw_object v)(u := Some rc)\<rparr>
      | MDeleteObject u \<Rightarrow> v\<lparr>vw_object := (vw_object v)(u := None)\<rparr>
      | MMarkEvicted \<Rightarrow> v\<lparr>vw_evicted := True\<rparr>)"

lemma overlay_Nil [simp]: "overlay [] f = f"
  by (simp add: overlay_def fun_eq_iff)

lemma view_enqueue: "view_over (enqueue mop b) v = view_call mop (view_over b v)"
  by (cases mop) (auto simp: enqueue_def view_over_def view_call_def overlay_def fun_eq_iff max_def)

lemma view_no_batch [simp]: "view_over no_batch v = v"
  by (cases v) (simp add: view_over_def no_batch_def)

lemma view_empty: "empty_batch b \<Longrightarrow> view_over b v = v"
  by (cases v) (simp add: view_over_def empty_batch_def)

lemma mget_keep_fold:
  "map_ok ws \<Longrightarrow> mget (fold keep_pending ws m) k = (case mget m k of Some x \<Rightarrow> Some x | None \<Rightarrow> mget ws k)"
proof (induction ws arbitrary: m)
  case (Cons w ws)
  have "mget ws (fst w) = None" using Cons.prems by (simp add: map_ok_def mget_None_iff mkeys_def)
  moreover have "mget (w # ws) k = (if k = fst w then Some (snd w) else mget ws k)"
    by (cases w) (simp add: mget_def)
  moreover have "map_ok ws" using Cons.prems by (simp add: map_ok_def)
  ultimately show ?case using Cons.IH
    by (auto simp: keep_pending_def split: option.split)
qed (simp split: option.split)

lemma keep_fold_ok: "map_ok m \<Longrightarrow> map_ok (fold keep_pending ws m)"
  by (induction ws arbitrary: m) (auto simp: keep_pending_def)

lemma view_merge:
  assumes "map_ok (bt_revisions b)" "map_ok (bt_objects b)"
  shows "view_over (merge_back b n) v = view_over n (view_over b v)"
  by (auto simp: view_over_def merge_back_def overlay_def mget_keep_fold assms fun_eq_iff max_def
      split: option.split)

lemma find_append: "find P (xs @ ys) = (case find P xs of None \<Rightarrow> find P ys | Some x \<Rightarrow> Some x)"
  by (induction xs) auto

lemma find_replace:
  assumes "\<exists>x \<in> set rs. rev_seq x = rev_seq r"
  shows "find (\<lambda>x. rev_seq x = q) (replace_revision r rs) =
    (if q = rev_seq r then Some r else find (\<lambda>x. rev_seq x = q) rs)"
proof -
  have other: "q \<noteq> rev_seq r \<Longrightarrow>
      find (\<lambda>x. rev_seq x = q) (replace_revision r rs) = find (\<lambda>x. rev_seq x = q) rs"
    by (induction rs) (auto simp: replace_revision_def)
  have "\<exists>x \<in> set rs. rev_seq x = rev_seq r \<Longrightarrow>
      find (\<lambda>x. rev_seq x = rev_seq r) (replace_revision r rs) = Some r"
    by (induction rs) (auto simp: replace_revision_def)
  with other assms show ?thesis by auto
qed

lemma find_filter: "find P (filter Q xs) = find (\<lambda>x. P x \<and> Q x) xs"
  by (induction xs) auto

lemma view_call_contents:
  assumes "call_ok mop c"
  shows "view_call mop (view_of c) = view_of (replay_op mop c)"
proof (cases mop)
  case (MAppend r)
  then have "find (\<lambda>x. rev_seq x = rev_seq r) (ct_revisions c) = None"
    using assms by (fastforce simp: call_ok_def find_None_iff)
  with MAppend show ?thesis
    by (auto simp: view_call_def view_of_def replay_op_def find_append fun_eq_iff split: option.split)
next
  case (MUpdate r)
  with assms show ?thesis
    by (auto simp: view_call_def view_of_def replay_op_def call_ok_def find_replace fun_eq_iff)
next
  case (MEvict q)
  have "find (\<lambda>x. rev_seq x = q' \<and> rev_seq x \<noteq> q) rs =
      (if q' = q then None else find (\<lambda>x. rev_seq x = q') rs)" for q' and rs :: "revision list"
    by (induction rs) auto
  with MEvict show ?thesis
    by (auto simp: view_call_def view_of_def replay_op_def find_filter fun_eq_iff)
qed (auto simp: view_call_def view_of_def replay_op_def fun_eq_iff)

section \<open>The journal holds the store\<close>

definition file_ok :: "('e, 'f) bolt \<Rightarrow> ('e, 'f) dbfile \<Rightarrow> bool" where
  "file_ok p f \<longleftrightarrow> map_ok (fl_revisions f) \<and> map_ok (fl_objects f) \<and> meta_seq f < 2 ^ 64 \<and>
     (\<forall>(k, e) \<in> set (fl_revisions f). \<exists>r. decode_revision p e = Some r \<and> k = seq_key (rev_seq r) \<and>
        rev_seq r \<le> meta_seq f) \<and>
     (\<forall>(u, e) \<in> set (fl_objects f). decode_object p e \<noteq> None)"

definition batch_ok :: "('e, 'f) bolt \<Rightarrow> nat \<Rightarrow> batch \<Rightarrow> bool" where
  "batch_ok p below b \<longleftrightarrow> map_ok (bt_revisions b) \<and> map_ok (bt_objects b) \<and>
     (\<forall>(q, x) \<in> set (bt_revisions b). q \<le> max (bt_seq b) below \<and>
        (\<forall>r. x = Some r \<longrightarrow> rev_seq r = q \<and> decode_revision p (encode_revision p r) = Some r)) \<and>
     (\<forall>(u, x) \<in> set (bt_objects b). \<forall>rc. x = Some rc \<longrightarrow> decode_object p (encode_object p rc) = Some rc) \<and>
     (bt_seq b = 0 \<or> below < bt_seq b) \<and> max (bt_seq b) below < 2 ^ 64"

lemma mget_Cons: "mget ((k, v) # m) j = (if j = k then Some v else mget m j)"
  by (simp add: mget_def)

lemma map_ok_Cons: "map_ok ((k, v) # m) \<longleftrightarrow> mget m k = None \<and> map_ok m"
  by (simp add: map_ok_def mget_None_iff mkeys_def)

lemma mget_write_revisions:
  assumes "map_ok ws" "\<forall>(j, x) \<in> set ws. j < 2 ^ 64" "q < 2 ^ 64"
  shows "mget (fold (write_revision p) ws m) (seq_key q) =
    (case mget ws q of None \<Rightarrow> mget m (seq_key q) | Some x \<Rightarrow> map_option (encode_revision p) x)"
  using assms
proof (induction ws arbitrary: m)
  case (Cons w ws)
  obtain j x where w: "w = (j, x)" by (cases w)
  then have ws: "mget ws j = None" "map_ok ws" and j: "j < 2 ^ 64"
    using Cons.prems by (auto simp: map_ok_Cons)
  have "seq_key j = seq_key q \<longleftrightarrow> j = q" by (rule seq_key_inject [OF j assms(3)])
  with Cons.IH [OF ws(2) _ assms(3), of "write_revision p w m"] Cons.prems(2) ws(1) w show ?case
    by (auto simp: mget_Cons write_revision_def split: option.split)
qed simp

lemma mget_write_objects:
  assumes "map_ok ws"
  shows "mget (fold (write_object p) ws m) u =
    (case mget ws u of None \<Rightarrow> mget m u | Some x \<Rightarrow> map_option (encode_object p) x)"
  using assms
proof (induction ws arbitrary: m)
  case (Cons w ws)
  obtain j x where w: "w = (j, x)" by (cases w)
  then have ws: "mget ws j = None" "map_ok ws" using Cons.prems by (auto simp: map_ok_Cons)
  with Cons.IH [of "write_object p w m"] w show ?case
    by (auto simp: mget_Cons write_object_def split: option.split)
qed simp

lemma write_revisions_ok: "map_ok m \<Longrightarrow> map_ok (fold (write_revision p) ws m)"
  by (induction ws arbitrary: m) (auto simp: write_revision_def split: option.split)

lemma write_objects_ok: "map_ok m \<Longrightarrow> map_ok (fold (write_object p) ws m)"
  by (induction ws arbitrary: m) (auto simp: write_object_def split: option.split)

lemma set_mput: "set (mput k v m) \<subseteq> insert (k, v) (set m)"
  by (induction m) (auto simp: mput_def)

lemma set_mdel: "set (mdel k m) \<subseteq> set m"
  by (auto simp: mdel_filter)

lemma set_write_revisions:
  "set (fold (write_revision p) ws m) \<subseteq>
   set m \<union> {(seq_key q, encode_revision p r) | q r. (q, Some r) \<in> set ws}"
proof (induction ws arbitrary: m)
  case (Cons w ws)
  obtain q x where w: "w = (q, x)" by (cases w)
  have "set (write_revision p w m) \<subseteq> set m \<union> {(seq_key q, encode_revision p r) | r. x = Some r}"
    using set_mput [of "seq_key q" _ m] set_mdel [of "seq_key q" m] w
    by (cases x) (auto simp: write_revision_def)
  with Cons.IH [of "write_revision p w m"] w show ?case by fastforce
qed simp

lemma set_write_objects:
  "set (fold (write_object p) ws m) \<subseteq>
   set m \<union> {(u, encode_object p rc) | u rc. (u, Some rc) \<in> set ws}"
proof (induction ws arbitrary: m)
  case (Cons w ws)
  obtain u x where w: "w = (u, x)" by (cases w)
  have "set (write_object p w m) \<subseteq> set m \<union> {(u, encode_object p rc) | rc. x = Some rc}"
    using set_mput [of u _ m] set_mdel [of u m] w
    by (cases x) (auto simp: write_object_def)
  with Cons.IH [of "write_object p w m"] w show ?case by fastforce
qed simp

lemma meta_seq_write:
  assumes "bt_seq b < 2 ^ 64"
  shows "meta_seq (write_batch p b f) = (if bt_seq b > 0 then bt_seq b else meta_seq f)"
  using assms by (simp add: meta_seq_def write_batch_def seq_key_value) (simp add: seq_key_def)

lemma bind_encoded: "(\<And>r. x = Some r \<Longrightarrow> dec (enc r) = Some r) \<Longrightarrow> Option.bind (map_option enc x) dec = x"
  by (cases x) simp_all

lemma commit_batch:
  assumes f: "file_ok p f" and b: "batch_ok p (meta_seq f) b"
  shows "file_ok p (write_batch p b f)" and "view_file p (write_batch p b f) = view_over b (view_file p f)"
proof -
  let ?g = "write_batch p b f"
  have bound: "bt_seq b < 2 ^ 64" and keys: "\<forall>(q, x) \<in> set (bt_revisions b). q < 2 ^ 64"
    using b by (auto simp: batch_ok_def)
  have seq: "meta_seq ?g = max (bt_seq b) (meta_seq f)"
    using meta_seq_write [OF bound, of p f] b by (auto simp: batch_ok_def)
  have rows: "fl_revisions ?g = fold (write_revision p) (bt_revisions b) (fl_revisions f)"
    "fl_objects ?g = fold (write_object p) (bt_objects b) (fl_objects f)"
    by (simp_all add: write_batch_def)
  show "file_ok p ?g"
    unfolding file_ok_def
  proof (intro conjI)
    show "map_ok (fl_revisions ?g)" "map_ok (fl_objects ?g)"
      using f unfolding rows by (auto simp: file_ok_def intro: write_revisions_ok write_objects_ok)
    show "meta_seq ?g < 2 ^ 64" using b unfolding seq by (auto simp: batch_ok_def)
    have "\<exists>r. decode_revision p e = Some r \<and> k = seq_key (rev_seq r) \<and> rev_seq r \<le> meta_seq ?g"
      if "(k, e) \<in> set (fl_revisions ?g)" for k e
    proof -
      from that set_write_revisions [of p "bt_revisions b" "fl_revisions f"]
      consider "(k, e) \<in> set (fl_revisions f)"
        | q r where "k = seq_key q" "e = encode_revision p r" "(q, Some r) \<in> set (bt_revisions b)"
        unfolding rows by blast
      then show ?thesis
      proof cases
        case 1
        with f obtain r where "decode_revision p e = Some r" "k = seq_key (rev_seq r)" "rev_seq r \<le> meta_seq f"
          unfolding file_ok_def by blast
        then show ?thesis unfolding seq by auto
      next
        case 2
        with b have "rev_seq r = q" "decode_revision p e = Some r" "q \<le> max (bt_seq b) (meta_seq f)"
          unfolding batch_ok_def by auto
        with 2(1) show ?thesis unfolding seq by blast
      qed
    qed
    then show "\<forall>(k, e) \<in> set (fl_revisions ?g). \<exists>r. decode_revision p e = Some r \<and>
        k = seq_key (rev_seq r) \<and> rev_seq r \<le> meta_seq ?g"
      by blast
    have "decode_object p e \<noteq> None" if "(u, e) \<in> set (fl_objects ?g)" for u e
    proof -
      from that set_write_objects [of p "bt_objects b" "fl_objects f"]
      consider "(u, e) \<in> set (fl_objects f)"
        | rc where "e = encode_object p rc" "(u, Some rc) \<in> set (bt_objects b)"
        unfolding rows by blast
      then show ?thesis
      proof cases
        case 1
        with f show ?thesis unfolding file_ok_def by blast
      next
        case 2
        with b show ?thesis unfolding batch_ok_def by auto
      qed
    qed
    then show "\<forall>(u, e) \<in> set (fl_objects ?g). decode_object p e \<noteq> None" by blast
  qed
  have "vw_revision (view_file p ?g) q = vw_revision (view_over b (view_file p f)) q" for q
  proof (cases "q < 2 ^ 64")
    case True
    have dec: "decode_revision p (encode_revision p r) = Some r" if "mget (bt_revisions b) q = Some (Some r)" for r
      using mget_in_set [OF that] b by (auto simp: batch_ok_def)
    have "map_ok (bt_revisions b)" using b by (simp add: batch_ok_def)
    note w = mget_write_revisions [OF this keys True, of p "fl_revisions f"]
    show ?thesis
      using True dec by (simp add: view_file_def view_over_def overlay_def rows w bind_encoded split: option.split)
  next
    case False
    then have "mget (bt_revisions b) q = None"
      using keys by (cases "mget (bt_revisions b) q") (auto dest!: mget_in_set)
    with False show ?thesis by (simp add: view_file_def view_over_def overlay_def)
  qed
  moreover have "vw_object (view_file p ?g) u = vw_object (view_over b (view_file p f)) u" for u
  proof -
    have dec: "decode_object p (encode_object p rc) = Some rc" if "mget (bt_objects b) u = Some (Some rc)" for rc
      using mget_in_set [OF that] b by (auto simp: batch_ok_def)
    have "map_ok (bt_objects b)" using b by (simp add: batch_ok_def)
    note w = mget_write_objects [OF this, of p "fl_objects f" u]
    show ?thesis
      using dec by (simp add: view_file_def view_over_def overlay_def rows w bind_encoded split: option.split)
  qed
  ultimately show "view_file p ?g = view_over b (view_file p f)"
    using seq by (simp add: view_file_def view_over_def fun_eq_iff) (simp add: write_batch_def)
qed

definition below :: "('e, 'f) bolt \<Rightarrow> ('e, 'f) journal \<Rightarrow> view" where
  "below p j =
     (case jn_flight j of None \<Rightarrow> view_file p (jn_file j) | Some b \<Rightarrow> view_over b (view_file p (jn_file j)))"

definition holds_prefix :: "view \<Rightarrow> contents \<Rightarrow> mirror_op list \<Rightarrow> bool" where
  "holds_prefix v c ms \<longleftrightarrow> (\<exists>n \<le> length ms. v = view_of (replay (take n ms) c))"

definition journal_ok :: "('e, 'f) bolt \<Rightarrow> contents \<Rightarrow> mirror_op list \<Rightarrow> ('e, 'f) journal \<Rightarrow> bool" where
  "journal_ok p c ms j \<longleftrightarrow>
     file_ok p (jn_file j) \<and> holds_prefix (view_file p (jn_file j)) c ms \<and>
     (\<forall>b. jn_flight j = Some b \<longrightarrow> batch_ok p (meta_seq (jn_file j)) b) \<and>
     holds_prefix (below p j) c ms \<and>
     batch_ok p (vw_seq (below p j)) (jn_pending j) \<and>
     view_over (jn_pending j) (below p j) = view_of (replay ms c)"

text \<open>The codec round-trips what a call carries.\<close>

definition call_encodes :: "('e, 'f) bolt \<Rightarrow> mirror_op \<Rightarrow> bool" where
  "call_encodes p mop \<longleftrightarrow>
     (case mop of
        MAppend r \<Rightarrow> decode_revision p (encode_revision p r) = Some r
      | MUpdate r \<Rightarrow> decode_revision p (encode_revision p r) = Some r
      | MPutObject u rc \<Rightarrow> decode_object p (encode_object p rc) = Some rc
      | _ \<Rightarrow> True)"

lemma replay_op_ok:
  assumes "contents_ok c" "call_ok mop c"
  shows "contents_ok (replay_op mop c)" and "ct_seq c \<le> ct_seq (replay_op mop c)"
proof -
  have up: "map rev_seq (replace_revision r rs) = map rev_seq rs" for r rs by simp
  show "contents_ok (replay_op mop c)"
  proof (cases mop)
    case (MUpdate r)
    have "rev_seq x \<le> ct_seq c" if "x \<in> set (replace_revision r (ct_revisions c))" for x
    proof -
      have "rev_seq x \<in> set (map rev_seq (ct_revisions c))" using that up by (metis image_eqI set_map)
      then show ?thesis using assms(1) by (auto simp: contents_ok_def)
    qed
    with MUpdate assms(1) show ?thesis by (simp add: contents_ok_def replay_op_def)
  next
    case (MAppend r)
    with assms show ?thesis
      by (auto simp: contents_ok_def replay_op_def call_ok_def sorted_wrt_append max_def)
  next
    case (MEvict q)
    with assms show ?thesis
      by (auto simp: contents_ok_def replay_op_def sorted_wrt_map intro: sorted_wrt_filter)
  qed (use assms in \<open>auto simp: contents_ok_def replay_op_def\<close>)
  show "ct_seq c \<le> ct_seq (replay_op mop c)"
    by (cases mop) (simp_all add: replay_op_def)
qed

lemma replay_ok: "contents_ok c \<Longrightarrow> calls_ok ms c \<Longrightarrow> contents_ok (replay ms c)"
proof (induction ms rule: rev_induct)
  case (snoc m ms)
  then show ?case using replay_op_ok [of "replay ms c" m] by simp
qed (simp add: replay_def)

lemma enqueue_ok:
  assumes b: "batch_ok p v b" and call: "call_encodes p mop" and c: "contents_ok c" "call_ok mop c"
    and seq: "max (bt_seq b) v = ct_seq c" and bound: "ct_seq (replay_op mop c) < 2 ^ 64"
  shows "batch_ok p v (enqueue mop b)"
proof (cases mop)
  case (MAppend r)
  then have "max (bt_seq b) v < rev_seq r" using c(2) seq by (simp add: call_ok_def)
  then show ?thesis
    using b call bound MAppend set_mput [of "rev_seq r" "Some r" "bt_revisions b"]
    by (fastforce simp: batch_ok_def enqueue_def call_encodes_def replay_op_def)
next
  case (MUpdate r)
  then obtain x where "x \<in> set (ct_revisions c)" "rev_seq x = rev_seq r" using c(2) by (auto simp: call_ok_def)
  then have "rev_seq r \<le> max (bt_seq b) v" using c(1) seq by (auto simp: contents_ok_def)
  then show ?thesis
    using b call MUpdate set_mput [of "rev_seq r" "Some r" "bt_revisions b"]
    by (fastforce simp: batch_ok_def enqueue_def call_encodes_def)
next
  case (MEvict q)
  then have "q \<le> max (bt_seq b) v" using c seq by (auto simp: contents_ok_def call_ok_def)
  then show ?thesis
    using b MEvict set_mput [of q None "bt_revisions b"] by (fastforce simp: batch_ok_def enqueue_def)
next
  case (MPutObject u rc)
  then show ?thesis
    using b call set_mput [of u "Some rc" "bt_objects b"]
    by (fastforce simp: batch_ok_def enqueue_def call_encodes_def)
next
  case (MDeleteObject u)
  then show ?thesis
    using b set_mput [of u None "bt_objects b"] by (fastforce simp: batch_ok_def enqueue_def)
qed (use b in \<open>simp add: batch_ok_def enqueue_def\<close>)

lemma set_keep_fold: "set (fold keep_pending ws m) \<subseteq> set m \<union> set ws"
proof (induction ws arbitrary: m)
  case (Cons w ws)
  have "set (keep_pending w m) \<subseteq> insert w (set m)"
    using set_mput [of "fst w" "snd w" m] by (auto simp: keep_pending_def)
  with Cons show ?case by fastforce
qed simp

lemma merge_ok:
  assumes o': "batch_ok p m b" and n: "batch_ok p (max (bt_seq b) m) j"
  shows "batch_ok p m (merge_back b j)"
proof -
  have s: "max (bt_seq (merge_back b j)) m = max (bt_seq j) (max (bt_seq b) m)"
    by (auto simp: merge_back_def max_def)
  have maps: "map_ok (bt_revisions (merge_back b j))" "map_ok (bt_objects (merge_back b j))"
    using n by (auto simp: merge_back_def batch_ok_def intro: keep_fold_ok)
  have revs: "q \<le> max (bt_seq j) (max (bt_seq b) m) \<and>
      (\<forall>r. x = Some r \<longrightarrow> rev_seq r = q \<and> decode_revision p (encode_revision p r) = Some r)"
    if "(q, x) \<in> set (bt_revisions (merge_back b j))" for q x
  proof -
    from that set_keep_fold [of "bt_revisions b" "bt_revisions j"]
    have "(q, x) \<in> set (bt_revisions b) \<or> (q, x) \<in> set (bt_revisions j)" by (auto simp: merge_back_def)
    then show ?thesis
    proof
      assume "(q, x) \<in> set (bt_revisions b)"
      then show ?thesis using o' unfolding batch_ok_def by force
    next
      assume "(q, x) \<in> set (bt_revisions j)"
      then show ?thesis using n unfolding batch_ok_def by blast
    qed
  qed
  have objs: "decode_object p (encode_object p rc) = Some rc"
    if "(u, Some rc) \<in> set (bt_objects (merge_back b j))" for u rc
  proof -
    from that set_keep_fold [of "bt_objects b" "bt_objects j"]
    have "(u, Some rc) \<in> set (bt_objects b) \<or> (u, Some rc) \<in> set (bt_objects j)" by (auto simp: merge_back_def)
    then show ?thesis using o' n unfolding batch_ok_def by blast
  qed
  have z: "bt_seq (merge_back b j) = 0 \<or> m < bt_seq (merge_back b j)"
    using o' n by (auto simp: merge_back_def batch_ok_def)
  have bd: "max (bt_seq j) (max (bt_seq b) m) < 2 ^ 64" using n by (simp add: batch_ok_def)
  show ?thesis
    unfolding batch_ok_def s using maps revs objs z bd by blast
qed

lemma holds_more: "holds_prefix v c ms \<Longrightarrow> holds_prefix v c (ms @ [m])"
  unfolding holds_prefix_def by (metis append_take_drop_id le_SucI length_append_singleton take_append diff_is_0_eq' take0 append_Nil2)

lemma holds_all: "v = view_of (replay ms c) \<Longrightarrow> holds_prefix v c ms"
  unfolding holds_prefix_def by (rule exI [of _ "length ms"]) simp

lemma no_batch_ok: "v < 2 ^ 64 \<Longrightarrow> batch_ok p v no_batch"
  by (simp add: batch_ok_def no_batch_def)

lemma view_seq [simp]: "vw_seq (view_of c) = ct_seq c" "vw_seq (view_file p f) = meta_seq f"
  "vw_seq (view_over b v) = max (bt_seq b) (vw_seq v)"
  by (simp_all add: view_of_def view_file_def view_over_def)

lemma journal_call:
  assumes j: "journal_ok p c ms j" and m: "call_encodes p m" and c: "contents_ok (replay ms c)"
    and ok: "call_ok m (replay ms c)" and bound: "ct_seq (replay (ms @ [m]) c) < 2 ^ 64"
  shows "journal_ok p c (ms @ [m]) (journal_apply p (JCall m) j)"
proof -
  let ?j = "journal_apply p (JCall m) j"
  have b: "below p ?j = below p j" by (cases "jn_flight j") (simp_all add: below_def)
  have v: "view_over (jn_pending j) (below p j) = view_of (replay ms c)" using j by (simp add: journal_ok_def)
  then have "max (bt_seq (jn_pending j)) (vw_seq (below p j)) = ct_seq (replay ms c)"
    by (metis view_seq(1,3))
  then have "batch_ok p (vw_seq (below p j)) (enqueue m (jn_pending j))"
    using j bound by (intro enqueue_ok [OF _ m c ok]) (simp_all add: journal_ok_def)
  moreover have "view_over (enqueue m (jn_pending j)) (below p j) = view_of (replay (ms @ [m]) c)"
    using v view_call_contents [OF ok] by (simp add: view_enqueue)
  ultimately show ?thesis
    using j unfolding journal_ok_def b by (auto intro: holds_more)
qed

lemma journal_take:
  assumes "journal_ok p c ms j"
  shows "journal_ok p c ms (take_batch j)"
proof (cases "jn_flight j \<noteq> None \<or> empty_batch (jn_pending j)")
  case False
  then have b: "below p j = view_file p (jn_file j)" by (simp add: below_def)
  let ?j = "take_batch j"
  have b': "below p ?j = view_of (replay ms c)"
    using assms False unfolding journal_ok_def b by (simp add: below_def take_batch_def)
  have seq: "vw_seq (view_of (replay ms c)) < 2 ^ 64"
    using assms unfolding journal_ok_def b by (metis batch_ok_def view_seq(3))
  show ?thesis
    using assms False no_batch_ok [OF seq] holds_all [of "view_of (replay ms c)" ms c]
    unfolding journal_ok_def b b' by (simp add: take_batch_def)
qed (use assms in \<open>auto simp: take_batch_def\<close>)

lemma journal_finish:
  assumes j: "journal_ok p c ms j"
  shows "journal_ok p c ms (finish_flush p committed j)"
proof (cases "jn_flight j")
  case None
  with j show ?thesis by (simp add: finish_flush_def)
next
  case (Some b)
  have f: "file_ok p (jn_file j)" and b: "batch_ok p (meta_seq (jn_file j)) b"
    and d: "below p j = view_over b (view_file p (jn_file j))"
    using j Some by (auto simp: journal_ok_def below_def)
  note w = commit_batch [OF f b]
  show ?thesis
  proof (cases committed)
    case True
    have e: "below p (finish_flush p committed j) = below p j"
      using True Some w(2) d by (simp add: finish_flush_def below_def)
    show ?thesis
      using j True Some w d unfolding journal_ok_def e by (simp add: finish_flush_def)
  next
    case False
    have e: "below p (finish_flush p committed j) = view_file p (jn_file j)"
      using False Some by (simp add: finish_flush_def below_def)
    have "batch_ok p (meta_seq (jn_file j)) (merge_back b (jn_pending j))"
      using j b d by (intro merge_ok) (auto simp: journal_ok_def)
    moreover have "map_ok (bt_revisions b)" "map_ok (bt_objects b)" using b by (auto simp: batch_ok_def)
    ultimately show ?thesis
      using j False Some d unfolding journal_ok_def e by (simp add: finish_flush_def view_merge)
  qed
qed

lemma calls_of_snoc: "calls_of (ss @ [s]) = calls_of ss @ (case s of JCall m \<Rightarrow> [m] | _ \<Rightarrow> [])"
  by (induction ss rule: calls_of.induct) (auto split: journal_step.split)

lemma calls_of_append: "calls_of (ss @ ts) = calls_of ss @ calls_of ts"
  by (induction ss rule: calls_of.induct) auto

lemma journal_run:
  assumes start: "journal_ok p c [] (journal_of f)" and c: "contents_ok c"
  shows "calls_ok (calls_of ss) c \<Longrightarrow> list_all (call_encodes p) (calls_of ss) \<Longrightarrow>
    ct_seq (replay (calls_of ss) c) < 2 ^ 64 \<Longrightarrow>
    journal_ok p c (calls_of ss) (fold (journal_apply p) ss (journal_of f))"
proof (induction ss rule: rev_induct)
  case Nil
  then show ?case using start by simp
next
  case (snoc s ss)
  let ?ms = "calls_of ss"
  show ?case
  proof (cases s)
    case (JCall m)
    then have ms: "calls_of (ss @ [s]) = ?ms @ [m]" by (simp add: calls_of_append)
    have ok: "calls_ok ?ms c" "call_ok m (replay ?ms c)" and enc: "list_all (call_encodes p) ?ms" "call_encodes p m"
      using snoc.prems unfolding ms by simp_all
    note cok = replay_ok [OF c ok(1)]
    have "ct_seq (replay ?ms c) < 2 ^ 64"
      using replay_op_ok(2) [OF cok ok(2)] snoc.prems(3) unfolding ms by simp
    from journal_call [OF snoc.IH [OF ok(1) enc(1) this] enc(2) cok ok(2)] snoc.prems(3)
    show ?thesis unfolding ms by (simp add: JCall)
  next
    case JTake
    then show ?thesis using snoc journal_take by (simp add: calls_of_append)
  next
    case (JFinish committed)
    then show ?thesis using snoc journal_finish by (simp add: calls_of_append)
  qed
qed

text \<open>What bbolt documents of a cursor: it visits every pair of the bucket, in byte order of the keys.\<close>

definition cursor_ok :: "('e, 'f) bolt \<Rightarrow> bool" where
  "cursor_ok p \<longleftrightarrow> (\<forall>m. mset (cursor p m) = mset m \<and> sorted (map fst (cursor p m)))"

definition same_contents :: "contents \<Rightarrow> contents \<Rightarrow> bool" where
  "same_contents c d \<longleftrightarrow> ct_revisions c = ct_revisions d \<and> mget (ct_objects c) = mget (ct_objects d) \<and>
     map_ok (ct_objects c) \<and> ct_seq c = ct_seq d \<and> ct_evicted c = ct_evicted d"

lemma those_map: "(\<And>x. x \<in> set xs \<Longrightarrow> f x \<noteq> None) \<Longrightarrow> those (map f xs) = Some (map (\<lambda>x. the (f x)) xs)"
proof (induction xs)
  case (Cons a xs)
  then obtain y where "f a = Some y" by fastforce
  with Cons show ?case by simp
qed simp

lemma same_sorted:
  assumes "sorted_wrt (<) (map rev_seq xs)" "sorted_wrt (<) (map rev_seq ys)" "set xs = set ys"
  shows "xs = ys"
proof -
  have "map rev_seq xs = map rev_seq ys"
    using strict_sorted_equal [OF assms(2,1)] assms(3) by simp
  moreover have "inj_on rev_seq (set xs \<union> set ys)"
    using assms(1,3) strict_sorted_iff [of "map rev_seq xs"] by (simp add: distinct_map)
  ultimately show ?thesis by (simp add: inj_on_map_eq_map)
qed

lemma find_unique:
  assumes "sorted_wrt (<) (map rev_seq rs)"
  shows "find (\<lambda>r. rev_seq r = q) rs = Some r \<longleftrightarrow> r \<in> set rs \<and> rev_seq r = q"
proof
  assume "find (\<lambda>r. rev_seq r = q) rs = Some r"
  then show "r \<in> set rs \<and> rev_seq r = q" by (auto simp: find_Some_iff)
next
  assume r: "r \<in> set rs \<and> rev_seq r = q"
  then obtain x where x: "find (\<lambda>r. rev_seq r = q) rs = Some x"
    by (cases "find (\<lambda>r. rev_seq r = q) rs") (auto simp: find_None_iff)
  then have "x \<in> set rs" "rev_seq x = q" by (auto simp: find_Some_iff)
  moreover have "inj_on rev_seq (set rs)"
    using assms strict_sorted_iff [of "map rev_seq rs"] by (simp add: distinct_map)
  ultimately show "find (\<lambda>r. rev_seq r = q) rs = Some r" using r x by (auto dest: inj_onD)
qed

lemma fold_max_le: "(\<And>x. x \<in> set xs \<Longrightarrow> g x \<le> n) \<Longrightarrow> a \<le> n \<Longrightarrow>
  fold (\<lambda>x seq. if g x > seq then g x else seq) xs a \<le> (n :: nat)"
  by (induction xs arbitrary: a) auto

lemma mget_decoded:
  "(\<And>kv. kv \<in> set m \<Longrightarrow> dec (snd kv) \<noteq> None) \<Longrightarrow>
   mget (map (\<lambda>kv. the (map_option (Pair (fst kv)) (dec (snd kv)))) m) u = Option.bind (mget m u) dec"
proof (induction m)
  case (Cons kv m)
  obtain rc where "dec (snd kv) = Some rc" using Cons.prems [of kv] by auto
  with Cons show ?case by (cases kv) (simp add: mget_Cons)
qed simp

lemma load_holds:
  fixes p :: "('e, 'f) bolt"
  assumes f: "file_ok p f" and cur: "cursor_ok p" and c: "contents_ok c" and v: "view_file p f = view_of c"
  shows "\<exists>d. load_file p f = Some d \<and> same_contents d c"
proof -
  let ?rows = "cursor p (fl_revisions f)"
  define row :: "string \<times> 'e \<Rightarrow> revision"
    where "row = (\<lambda>kv. the (decode_revision p (snd kv)))"
  have rset: "set ?rows = set (fl_revisions f)" and rsort: "sorted (map fst ?rows)"
    using cur unfolding cursor_ok_def by (metis set_mset_mset, blast)
  have rdist: "distinct (map fst ?rows)"
    using f cur unfolding file_ok_def cursor_ok_def map_ok_def
    by (metis mset_map mset_eq_imp_distinct_iff)
  have dec: "decode_revision p (snd kv) = Some (row kv) \<and> fst kv = seq_key (rev_seq (row kv)) \<and>
      rev_seq (row kv) \<le> meta_seq f" if "kv \<in> set ?rows" for kv
  proof -
    obtain k e where kv: "kv = (k, e)" by (cases kv)
    with that rset f obtain r where "decode_revision p e = Some r" "k = seq_key (rev_seq r)" "rev_seq r \<le> meta_seq f"
      unfolding file_ok_def by blast
    then show ?thesis by (simp add: kv row_def)
  qed
  have lt: "rev_seq (row kv) < 2 ^ 64" if "kv \<in> set ?rows" for kv
    using dec [OF that] f unfolding file_ok_def by linarith
  have revs: "those (map (\<lambda>kv. decode_revision p (snd kv)) ?rows) = Some (map row ?rows)"
    unfolding row_def by (rule those_map) (use dec in fastforce)
  have sorted: "sorted_wrt (<) (map rev_seq (map row ?rows))"
  proof -
    have "sorted_wrt (<) (map fst ?rows)" using rsort rdist by (simp add: strict_sorted_iff)
    then have "sorted_wrt (\<lambda>a b. fst a < fst b) ?rows" by (simp add: sorted_wrt_map)
    then have "sorted_wrt (\<lambda>a b. rev_seq (row a) < rev_seq (row b)) ?rows"
      by (rule sorted_wrt_mono_rel [rotated]) (use dec lt seq_key_order in metis)
    then show ?thesis by (simp add: sorted_wrt_map comp_def)
  qed
  have look: "(if q < 2 ^ 64 then Option.bind (mget (fl_revisions f) (seq_key q)) (decode_revision p) else None) =
      find (\<lambda>r. rev_seq r = q) (ct_revisions c)" for q
    using v by (simp add: view_file_def view_of_def fun_eq_iff)
  have cs: "sorted_wrt (<) (map rev_seq (ct_revisions c))" using c by (simp add: contents_ok_def)
  have "r \<in> set (map row ?rows) \<longleftrightarrow> r \<in> set (ct_revisions c)" for r
  proof
    assume "r \<in> set (map row ?rows)"
    then obtain kv where kv: "kv \<in> set ?rows" "r = row kv" by auto
    then have "mget (fl_revisions f) (seq_key (rev_seq r)) = Some (snd kv)"
      using dec [OF kv(1)] f rset by (intro mget_of_set) (cases kv, auto simp: file_ok_def)
    with look [of "rev_seq r"] lt [OF kv(1)] dec [OF kv(1)] kv
    have "find (\<lambda>x. rev_seq x = rev_seq r) (ct_revisions c) = Some r" by simp
    then show "r \<in> set (ct_revisions c)" by (simp add: find_unique [OF cs])
  next
    assume "r \<in> set (ct_revisions c)"
    then have "find (\<lambda>x. rev_seq x = rev_seq r) (ct_revisions c) = Some r" by (simp add: find_unique [OF cs])
    with look [of "rev_seq r"] obtain e where e: "mget (fl_revisions f) (seq_key (rev_seq r)) = Some e"
      "decode_revision p e = Some r"
      by (auto split: if_splits bind_splits)
    then have "(seq_key (rev_seq r), e) \<in> set ?rows" unfolding rset by (intro mget_in_set)
    with e show "r \<in> set (map row ?rows)" unfolding row_def by force
  qed
  then have same: "map row ?rows = ct_revisions c" by (intro same_sorted [OF sorted cs]) blast
  define objs where "objs = map (\<lambda>kv. the (map_option (Pair (fst kv)) (decode_object p (snd kv)))) (fl_objects f)"
  have odec: "\<exists>rc. decode_object p (snd kv) = Some rc" if "kv \<in> set (fl_objects f)" for kv
    using that f unfolding file_ok_def by force
  have those: "those (map (\<lambda>kv. map_option (Pair (fst kv)) (decode_object p (snd kv))) (fl_objects f)) = Some objs"
    unfolding objs_def by (rule those_map) (use odec in fastforce)
  have keys: "map fst objs = map fst (fl_objects f)"
    using odec unfolding objs_def by (force simp: comp_def)
  have "mget objs u = Option.bind (mget (fl_objects f) u) (decode_object p)" for u
    unfolding objs_def by (rule mget_decoded) (use odec in fastforce)
  then have oget: "mget objs = mget (ct_objects c)"
    using v by (simp add: view_file_def view_of_def fun_eq_iff)
  have omap: "map_ok objs" using f keys by (simp add: map_ok_def file_ok_def)
  have seq: "meta_seq f = ct_seq c" and ev: "fl_evicted f = ct_evicted c"
    using v by (simp_all add: view_file_def view_of_def)
  have "be_value (fst kv) \<le> meta_seq f" if "kv \<in> set ?rows" for kv
    using dec [OF that] lt [OF that] by (simp add: seq_key_value)
  then have "fold (\<lambda>kv seq. if be_value (fst kv) > seq then be_value (fst kv) else seq) ?rows 0 \<le> meta_seq f"
    by (intro fold_max_le) auto
  then have "load_file p f = Some \<lparr>ct_revisions = ct_revisions c, ct_objects = objs, ct_seq = ct_seq c,
      ct_evicted = ct_evicted c\<rparr>"
    using seq ev by (auto simp: load_file_def revs those same Let_def)
  then show ?thesis using oget omap by (simp add: same_contents_def)
qed

text \<open>A file the journal created, and one that holds given contents.\<close>

definition new_file :: "('e, 'f) dbfile" where
  "new_file = \<lparr>fl_revisions = [], fl_objects = [], fl_seq = None, fl_evicted = False\<rparr>"

definition file_holds :: "('e, 'f) bolt \<Rightarrow> ('e, 'f) dbfile \<Rightarrow> contents \<Rightarrow> bool" where
  "file_holds p f c \<longleftrightarrow> file_ok p f \<and> view_file p f = view_of c"

lemma new_file_holds: "file_holds p new_file no_contents"
  by (simp add: file_holds_def file_ok_def new_file_def no_contents_def view_file_def view_of_def
      meta_seq_def fun_eq_iff)

lemma journal_start:
  assumes "file_holds p f c"
  shows "journal_ok p c [] (journal_of f)"
proof -
  have b: "below p (journal_of f) = view_file p f" by (simp add: below_def journal_of_def)
  have "vw_seq (view_file p f) < 2 ^ 64"
    using assms unfolding view_seq file_holds_def file_ok_def by blast
  with assms show ?thesis
    using no_batch_ok [of "vw_seq (view_file p f)" p]
    unfolding journal_ok_def b by (simp add: journal_of_def file_holds_def holds_all replay_def)
qed

definition idle :: "('e, 'f) journal \<Rightarrow> bool" where
  "idle j \<longleftrightarrow> jn_flight j = None \<and> empty_batch (jn_pending j)"

lemma contents_prefix: "calls_ok ms c \<Longrightarrow> calls_ok (take n ms) c"
  using calls_ok_append [of "take n ms" "drop n ms" c] by simp

lemma loads_prefix:
  assumes "file_holds p f c" "contents_ok c" "cursor_ok p" "calls_ok (calls_of ss) c"
    "list_all (call_encodes p) (calls_of ss)" "ct_seq (replay (calls_of ss) c) < 2 ^ 64"
  defines "j \<equiv> fold (journal_apply p) ss (journal_of f)"
  shows "\<exists>n d. n \<le> length (calls_of ss) \<and> load_file p (jn_file j) = Some d \<and>
      same_contents d (replay (take n (calls_of ss)) c)"
    and "idle j \<Longrightarrow> \<exists>d. load_file p (jn_file j) = Some d \<and> same_contents d (replay (calls_of ss) c)"
proof -
  have j: "journal_ok p c (calls_of ss) j"
    unfolding j_def by (rule journal_run [OF journal_start [OF assms(1)] assms(2,4,5,6)])
  then obtain n where n: "n \<le> length (calls_of ss)"
    and v: "view_file p (jn_file j) = view_of (replay (take n (calls_of ss)) c)"
    by (auto simp: journal_ok_def holds_prefix_def)
  have f: "file_ok p (jn_file j)" using j by (simp add: journal_ok_def)
  have "contents_ok (replay (take n (calls_of ss)) c)"
    by (rule replay_ok [OF assms(2) contents_prefix [OF assms(4)]])
  from load_holds [OF f assms(3) this v] n
  show "\<exists>n d. n \<le> length (calls_of ss) \<and> load_file p (jn_file j) = Some d \<and>
      same_contents d (replay (take n (calls_of ss)) c)" by blast
  assume i: "idle j"
  then have "view_file p (jn_file j) = view_of (replay (calls_of ss) c)"
    using j by (auto simp: journal_ok_def idle_def below_def view_empty)
  from load_holds [OF f assms(3) replay_ok [OF assms(2,4)] this]
  show "\<exists>d. load_file p (jn_file j) = Some d \<and> same_contents d (replay (calls_of ss) c)" .
qed

text \<open>
  C4. Crash safety of the journal. Whatever the interleaving of the store's calls with the flush
  loop, transactions that fail included, the file at any moment loads as what the persister had
  been told at some earlier point: never a mixture of two states, never nothing.
\<close>

theorem journal_is_a_prefix:
  assumes "file_holds p f c" and "contents_ok c" and "cursor_ok p"
    and "calls_ok (calls_of ss) c" and "list_all (call_encodes p) (calls_of ss)"
    and "ct_seq (replay (calls_of ss) c) < 2 ^ 64"
  shows "\<exists>n d. n \<le> length (calls_of ss) \<and>
    load_file p (jn_file (fold (journal_apply p) ss (journal_of f))) = Some d \<and>
    same_contents d (replay (take n (calls_of ss)) c)"
  using loads_prefix(1) [OF assms] .

definition plain_bolt :: "(revision, object_record) bolt" where
  "plain_bolt =
     \<lparr>encode_revision = (\<lambda>r. r), decode_revision = Some, encode_object = (\<lambda>rc. rc),
      decode_object = Some, cursor = sort_by (\<lambda>a b. str_less (fst a) (fst b))\<rparr>"

interpretation by_key: strict_weak_order "\<lambda>a b. str_less (fst a) (fst b)"
  by unfold_locales (auto simp: str_less_def)

lemma plain_bolt_ok: "cursor_ok plain_bolt" and plain_encodes: "list_all (call_encodes plain_bolt) ms"
proof -
  have "sorted (map fst (sort_by (\<lambda>a b. str_less (fst a) (fst b)) m))" for m :: "(string \<times> revision) list"
    using by_key.sorted_sort_by [of m] by (simp add: sorted_wrt_map str_less_def not_less)
  then show "cursor_ok plain_bolt" by (simp add: cursor_ok_def plain_bolt_def)
  show "list_all (call_encodes plain_bolt) ms"
    by (auto simp: list_all_iff call_encodes_def plain_bolt_def split: mirror_op.split)
qed

definition sample_life :: "mirror_op list" where
  "sample_life = hs_mirror (run_history sample_trace (persisted_store sample_limits))"

text \<open>The sample life, flushed: the first transaction fails while a call arrives, the second commits.\<close>

definition sample_steps :: "journal_step list" where
  "sample_steps = map JCall (take 3 sample_life) @ [JTake, JCall (sample_life ! 3), JFinish False] @
     map JCall (drop 4 sample_life) @ [JTake, JFinish True]"

lemma sample_calls: "calls_of sample_steps = sample_life"
  by code_simp

lemma sample_calls_ok: "calls_ok sample_life no_contents" "ct_seq (replay sample_life no_contents) < 2 ^ 64"
proof -
  show "calls_ok sample_life no_contents" by code_simp
  have "ct_seq (replay sample_life no_contents) = 5" by code_simp
  then show "ct_seq (replay sample_life no_contents) < 2 ^ 64" by simp
qed

theorem journal_is_a_prefix_witness:
  "\<exists>n d. load_file plain_bolt (jn_file (fold (journal_apply plain_bolt) (take 5 sample_steps) (journal_of new_file))) = Some d \<and>
     same_contents d (replay (take n (calls_of (take 5 sample_steps))) no_contents)"
proof -
  have "calls_ok (calls_of (take 5 sample_steps)) no_contents" by code_simp
  moreover have "ct_seq (replay (calls_of (take 5 sample_steps)) no_contents) = 2" by code_simp
  then have "ct_seq (replay (calls_of (take 5 sample_steps)) no_contents) < 2 ^ 64" by simp
  ultimately have ok: "calls_ok (calls_of (take 5 sample_steps)) no_contents"
    "ct_seq (replay (calls_of (take 5 sample_steps)) no_contents) < 2 ^ 64" by blast+
  from journal_is_a_prefix [OF new_file_holds no_contents_ok plain_bolt_ok ok(1) plain_encodes ok(2)]
  show ?thesis by blast
qed

text \<open>
  Durability of the journal. Once the flush loop is idle, with nothing pending and no
  transaction open, the file loads as exactly what the persister was told: with C27 and C28, a
  restart of the console resumes the very timeline it lost.
\<close>

theorem flushed_journal_loads_the_store:
  assumes "file_holds p f c" and "contents_ok c" and "cursor_ok p"
    and "calls_ok (calls_of ss) c" and "list_all (call_encodes p) (calls_of ss)"
    and "ct_seq (replay (calls_of ss) c) < 2 ^ 64"
    and "idle (fold (journal_apply p) ss (journal_of f))"
  shows "\<exists>d. load_file p (jn_file (fold (journal_apply p) ss (journal_of f))) = Some d \<and>
    same_contents d (replay (calls_of ss) c)"
  using loads_prefix(2) [OF assms] .

theorem flushed_journal_loads_the_store_witness:
  "\<exists>d. load_file plain_bolt (jn_file (fold (journal_apply plain_bolt) sample_steps (journal_of new_file))) = Some d \<and>
     same_contents d (replay sample_life no_contents)"
proof -
  have i: "idle (fold (journal_apply plain_bolt) sample_steps (journal_of new_file))"
    by code_simp
  have c: "calls_ok (calls_of sample_steps) no_contents" "ct_seq (replay (calls_of sample_steps) no_contents) < 2 ^ 64"
    using sample_calls_ok by (simp_all only: sample_calls)
  from flushed_journal_loads_the_store [OF new_file_holds no_contents_ok plain_bolt_ok c(1) plain_encodes c(2) i]
  show ?thesis by (simp add: sample_calls)
qed

end
