(* ===== verification/HistoryDiff.thy ===== *)
theory HistoryDiff
  imports HistoryStore
begin

text \<open>
  The on-demand structural comparison of \<open>internal/history/diff.go\<close>: the walk over two decoded
  definitions under its entry bound, the field-path encoding, and the attribution of a changed path
  to the field manager owning it.

  A decoded JSON value is \<open>'n json\<close>. \<open>json.Unmarshal\<close> and \<open>json.Marshal\<close> are the parameters
  \<open>decode\<close> and \<open>encode\<close>.
\<close>

section \<open>Field paths\<close>

definition simple_char :: "char \<Rightarrow> bool" where
  "simple_char c \<longleftrightarrow>
     65 \<le> byte c \<and> byte c \<le> 90 \<or> 97 \<le> byte c \<and> byte c \<le> 122 \<or> 48 \<le> byte c \<and> byte c \<le> 57 \<or>
     c = CHR ''_'' \<or> c = CHR ''-''"

definition simple_field_key :: "string \<Rightarrow> bool" where
  "simple_field_key key \<longleftrightarrow> key \<noteq> [] \<and> list_all simple_char key"

definition field_path_key :: "string \<Rightarrow> string \<Rightarrow> string" where
  "field_path_key pre key =
     (if simple_field_key key then pre @ ''.'' @ key
      else pre @ ''['' @ [CHR 0x22] @ key @ [CHR 0x22] @ '']'')"

definition field_path_named :: "string \<Rightarrow> string \<Rightarrow> string" where
  "field_path_named pre name = pre @ ''[name='' @ name @ '']''"

definition field_path_index :: "string \<Rightarrow> nat \<Rightarrow> string" where
  "field_path_index pre i = pre @ ''['' @ itoa (int i) @ '']''"

definition extends_at :: "string \<Rightarrow> string \<Rightarrow> bool" where
  "extends_at long short \<longleftrightarrow>
     (if \<not> has_prefix long short \<or> length long \<le> length short then False
      else long ! length short = CHR ''.'' \<or> long ! length short = CHR ''['')"

definition paths_relate :: "string \<Rightarrow> string \<Rightarrow> bool" where
  "paths_relate a b \<longleftrightarrow>
     (if a = '''' \<or> b = '''' then False
      else if a = b then True
      else extends_at a b \<or> extends_at b a)"

section \<open>Attribution\<close>

text \<open>The loop over the owners; \<open>None\<close> is the early return on a second candidate.\<close>

fun attribute_loop :: "string \<Rightarrow> field_owner list \<Rightarrow> string \<Rightarrow> string option" where
  "attribute_loop path [] manager = Some manager"
| "attribute_loop path (fo # owners) manager =
     (if list_ex (paths_relate path) (fo_paths fo) then
        if manager \<noteq> '''' \<and> manager \<noteq> fo_manager fo then None
        else attribute_loop path owners (fo_manager fo)
      else attribute_loop path owners manager)"

definition attribute :: "string \<Rightarrow> field_owner list \<Rightarrow> string" where
  "attribute path owners = (case attribute_loop path owners '''' of None \<Rightarrow> '''' | Some m \<Rightarrow> m)"

section \<open>Rendering a value\<close>

definition max_diff_entries :: nat where "max_diff_entries = 256"
definition max_diff_value_len :: nat where "max_diff_value_len = 256"

function trim_invalid :: "string \<Rightarrow> string" where
  "trim_invalid s = (if s \<noteq> [] \<and> \<not> valid_utf8 s then trim_invalid (butlast s) else s)"
  by auto
termination by (relation "measure length") auto

declare trim_invalid.simps [simp del]

definition ellipsis :: string where "ellipsis = [CHR 0xE2, CHR 0x80, CHR 0xA6]"

definition render_value :: "('n json \<Rightarrow> string) \<Rightarrow> 'n json \<Rightarrow> string" where
  "render_value encode v =
     (let rendered = encode v
      in if length rendered \<le> max_diff_value_len then rendered
         else trim_invalid (take max_diff_value_len rendered) @ ellipsis)"

section \<open>The walk\<close>

datatype diff_op = DiffAdded | DiffRemoved | DiffChanged

record diff_entry =
  df_path :: string
  df_op :: diff_op
  df_before :: string
  df_after :: string
  df_manager :: string

record differ =
  dr_entries :: "diff_entry list"
  dr_truncated :: bool

definition add_entry :: "diff_entry \<Rightarrow> differ \<Rightarrow> differ" where
  "add_entry e d =
     (if length (dr_entries d) \<ge> max_diff_entries then d\<lparr>dr_truncated := True\<rparr>
      else d\<lparr>dr_entries := dr_entries d @ [e]\<rparr>)"

definition diff_entry_of :: "string \<Rightarrow> diff_op \<Rightarrow> string \<Rightarrow> string \<Rightarrow> diff_entry" where
  "diff_entry_of path d_op before after =
     \<lparr>df_path = path, df_op = d_op, df_before = before, df_after = after, df_manager = ''''\<rparr>"

text \<open>\<open>jsonEqual\<close>.\<close>

lemma element_size: "x \<in> set xs \<Longrightarrow> size x < Suc (size_list size xs)"
  by (induction xs) auto

lemma field_size: "kv \<in> set m \<Longrightarrow> size (snd kv) < Suc (size_list (size_prod (\<lambda>k. 0) size) m)"
proof (induction m)
  case (Cons p m)
  then show ?case by (cases p) auto
qed simp

lemma mget_size: "mget m k = Some v \<Longrightarrow> size v < Suc (size_list (size_prod (\<lambda>k. 0) size) m)"
  using field_size [of "(k, v)" m] by (simp add: mget_in_set)

lemma zip_size: "p \<in> set (zip xs ys) \<Longrightarrow> size (fst p) < Suc (size_list size xs)"
  by (rule element_size) (metis in_set_zipE prod.collapse)

function json_equal :: "'n json \<Rightarrow> 'n json \<Rightarrow> bool" where
  "json_equal a b =
     (case a of
        JObject am \<Rightarrow>
          (case b of
             JObject bm \<Rightarrow>
               length am = length bm \<and>
               list_all (\<lambda>kv. case mget bm (fst kv) of None \<Rightarrow> False | Some bv \<Rightarrow> json_equal (snd kv) bv) am
           | _ \<Rightarrow> False)
      | JArray al \<Rightarrow>
          (case b of
             JArray bl \<Rightarrow> length al = length bl \<and> list_all (\<lambda>p. json_equal (fst p) (snd p)) (zip al bl)
           | _ \<Rightarrow> False)
      | _ \<Rightarrow> a = b)"
  by auto
termination
  by (relation "measure (\<lambda>(a, b). size a)") (auto simp: field_size dest: zip_size)

declare json_equal.simps [simp del]

text \<open>\<open>namedElements\<close>: the elements by name, or \<open>None\<close> for its \<open>false\<close>.\<close>

definition element_name :: "'n json \<Rightarrow> string option" where
  "element_name e =
     (case e of
        JObject m \<Rightarrow> (case mget m ''name'' of
          Some (JString name) \<Rightarrow> if name = '''' then None else Some name
        | _ \<Rightarrow> None)
      | _ \<Rightarrow> None)"

fun named_loop :: "'n json list \<Rightarrow> (string \<times> 'n json) list \<Rightarrow> (string \<times> 'n json) list option" where
  "named_loop [] named = Some named"
| "named_loop (e # es) named =
     (case element_name e of
        None \<Rightarrow> None
      | Some name \<Rightarrow> if mget named name \<noteq> None then None else named_loop es (mput name e named))"

definition named_elements :: "'n json list \<Rightarrow> (string \<times> 'n json) list option" where
  "named_elements xs = (if xs = [] then None else named_loop xs [])"

text \<open>The union of two maps' keys, in sorted order.\<close>

definition union_keys :: "(string \<times> 'n json) list \<Rightarrow> (string \<times> 'n json) list \<Rightarrow> string list" where
  "union_keys before after =
     sort_strings (mkeys before @ filter (\<lambda>k. mget before k = None) (mkeys after))"

lemma named_loop_set:
  "named_loop es named = Some r \<Longrightarrow> mget r k = Some v \<Longrightarrow> v \<in> set es \<or> mget named k = Some v"
proof (induction es named arbitrary: r rule: named_loop.induct)
  case (2 e es named)
  then obtain name where n: "element_name e = Some name" "mget named name = None"
    "named_loop es (mput name e named) = Some r"
    by (auto split: option.splits if_splits)
  from "2.IH" [OF n(1) _ n(3) "2.prems"(2)] n(2) have "v \<in> set es \<or> mget (mput name e named) k = Some v" by simp
  then show ?case by (auto split: if_splits)
qed simp

lemma named_size:
  "named_elements xs = Some r \<Longrightarrow> mget r k = Some v \<Longrightarrow> size v < Suc (size_list size xs)"
  using named_loop_set [of xs "[]" r k v] element_size [of v xs]
  by (auto simp: named_elements_def split: if_splits)

lemma zip_index_size: "q \<in> set (zip is (zip xs ys)) \<Longrightarrow> size (fst (snd q)) < Suc (size_list size xs)"
  by (rule zip_size [of "snd q" xs ys]) (metis in_set_zipE prod.collapse)

text \<open>
  \<open>walk\<close>, \<open>walkMaps\<close> and \<open>walkLists\<close>. The three functions recurse through each other; here the
  latter two are the branches of the first, parameterised by how a key extends the path.
\<close>

function walk :: "('n json \<Rightarrow> string) \<Rightarrow> string \<Rightarrow> 'n json \<Rightarrow> 'n json \<Rightarrow> differ \<Rightarrow> differ" where
  "walk enc path before after d =
     (case (before, after) of
        (JObject bm, JObject am) \<Rightarrow>
          fold (\<lambda>key d.
              case mget bm key of
                None \<Rightarrow> (case mget am key of
                  None \<Rightarrow> d
                | Some av \<Rightarrow> add_entry (diff_entry_of (field_path_key path key) DiffAdded '''' (render_value enc av)) d)
              | Some bv \<Rightarrow> (case mget am key of
                  None \<Rightarrow> add_entry (diff_entry_of (field_path_key path key) DiffRemoved (render_value enc bv) '''') d
                | Some av \<Rightarrow> walk enc (field_path_key path key) bv av d))
            (union_keys bm am) d
      | (JArray bl, JArray al) \<Rightarrow>
          (case (named_elements bl, named_elements al) of
             (Some bm, Some am) \<Rightarrow>
               fold (\<lambda>name d.
                   case mget bm name of
                     None \<Rightarrow> (case mget am name of
                       None \<Rightarrow> d
                     | Some av \<Rightarrow> add_entry (diff_entry_of (field_path_named path name) DiffAdded '''' (render_value enc av)) d)
                   | Some bv \<Rightarrow> (case mget am name of
                       None \<Rightarrow> add_entry (diff_entry_of (field_path_named path name) DiffRemoved (render_value enc bv) '''') d
                     | Some av \<Rightarrow> walk enc (field_path_named path name) bv av d))
                 (union_keys bm am) d
           | _ \<Rightarrow>
               (let shared = min (length bl) (length al);
                    d1 = fold (\<lambda>p d. walk enc (field_path_index path (fst p)) (fst (snd p)) (snd (snd p)) d)
                           (zip [0..<shared] (zip bl al)) d;
                    d2 = fold (\<lambda>i d. add_entry (diff_entry_of (field_path_index path i) DiffAdded '''' (render_value enc (al ! i))) d)
                           [shared..<length al] d1
                in fold (\<lambda>i d. add_entry (diff_entry_of (field_path_index path i) DiffRemoved (render_value enc (bl ! i)) '''') d)
                     [shared..<length bl] d2))
      | _ \<Rightarrow>
          if json_equal before after then d
          else add_entry (diff_entry_of path DiffChanged (render_value enc before) (render_value enc after)) d)"
  by pat_completeness auto
termination
  by (relation "measure (\<lambda>(enc, path, before, after, d). size before)")
    (auto simp: mget_size named_size [OF sym] dest: zip_index_size)

declare walk.simps [simp del]

section \<open>The diff of a revision\<close>

record diff =
  di_seq :: nat
  di_has_base :: bool
  di_base_seq :: nat
  di_base_observed_at :: instant
  di_entries :: "diff_entry list"
  di_truncated :: bool

definition diff_base :: "nat \<Rightarrow> revision \<Rightarrow> hstore \<Rightarrow> revision option" where
  "diff_base i r s =
     find (\<lambda>b. rev_uid b = rev_uid r \<and> rev_manifest b \<noteq> None) (rev (take i (hs_entries s)))"

definition sort_entries :: "diff_entry list \<Rightarrow> diff_entry list" where
  "sort_entries = sort_by (\<lambda>a b. str_less (df_path a) (df_path b))"

definition store_diff ::
  "(string \<Rightarrow> 'n json option) \<Rightarrow> ('n json \<Rightarrow> string) \<Rightarrow> nat \<Rightarrow> hstore \<Rightarrow> diff option" where
  "store_diff decode enc q s =
     (let i = sort_search (length (hs_entries s)) (\<lambda>i. rev_seq (hs_entries s ! i) \<ge> q)
      in if i \<ge> length (hs_entries s) \<or> rev_seq (hs_entries s ! i) \<noteq> q then None
         else
           let r = hs_entries s ! i;
               none = \<lparr>di_seq = q, di_has_base = False, di_base_seq = 0, di_base_observed_at = zero_time,
                       di_entries = [], di_truncated = False\<rparr>
           in case rev_manifest r of
                None \<Rightarrow> Some none
              | Some after_manifest \<Rightarrow>
                  (case diff_base i r s of
                     None \<Rightarrow> Some none
                   | Some b \<Rightarrow>
                       let found = none\<lparr>di_has_base := True, di_base_seq := rev_seq b,
                                        di_base_observed_at := rev_observed_at b\<rparr>
                       in case (decode (the (rev_manifest b)), decode after_manifest) of
                            (Some before, Some after) \<Rightarrow>
                              let d = walk enc '''' before after \<lparr>dr_entries = [], dr_truncated = False\<rparr>
                              in Some (found\<lparr>
                                   di_entries := map (\<lambda>e. e\<lparr>df_manager := attribute (df_path e) (rev_owners r)\<rparr>)
                                     (sort_entries (dr_entries d)),
                                   di_truncated := dr_truncated d\<rparr>)
                          | _ \<Rightarrow> Some found))"

section \<open>The walk against its specification\<close>

text \<open>The mismatches of two values, all of them, in the order the walk meets them.\<close>

function diff_list :: "('n json \<Rightarrow> string) \<Rightarrow> string \<Rightarrow> 'n json \<Rightarrow> 'n json \<Rightarrow> diff_entry list" where
  "diff_list enc path before after =
     (case (before, after) of
        (JObject bm, JObject am) \<Rightarrow>
          concat (map (\<lambda>key.
              case mget bm key of
                None \<Rightarrow> (case mget am key of
                  None \<Rightarrow> []
                | Some av \<Rightarrow> [diff_entry_of (field_path_key path key) DiffAdded '''' (render_value enc av)])
              | Some bv \<Rightarrow> (case mget am key of
                  None \<Rightarrow> [diff_entry_of (field_path_key path key) DiffRemoved (render_value enc bv) '''']
                | Some av \<Rightarrow> diff_list enc (field_path_key path key) bv av))
            (union_keys bm am))
      | (JArray bl, JArray al) \<Rightarrow>
          (case (named_elements bl, named_elements al) of
             (Some bm, Some am) \<Rightarrow>
               concat (map (\<lambda>name.
                   case mget bm name of
                     None \<Rightarrow> (case mget am name of
                       None \<Rightarrow> []
                     | Some av \<Rightarrow> [diff_entry_of (field_path_named path name) DiffAdded '''' (render_value enc av)])
                   | Some bv \<Rightarrow> (case mget am name of
                       None \<Rightarrow> [diff_entry_of (field_path_named path name) DiffRemoved (render_value enc bv) '''']
                     | Some av \<Rightarrow> diff_list enc (field_path_named path name) bv av))
                 (union_keys bm am))
           | _ \<Rightarrow>
               (let shared = min (length bl) (length al)
                in concat (map (\<lambda>p. diff_list enc (field_path_index path (fst p)) (fst (snd p)) (snd (snd p)))
                     (zip [0..<shared] (zip bl al))) @
                   map (\<lambda>i. diff_entry_of (field_path_index path i) DiffAdded '''' (render_value enc (al ! i)))
                     [shared..<length al] @
                   map (\<lambda>i. diff_entry_of (field_path_index path i) DiffRemoved (render_value enc (bl ! i)) '''')
                     [shared..<length bl]))
      | _ \<Rightarrow>
          if json_equal before after then []
          else [diff_entry_of path DiffChanged (render_value enc before) (render_value enc after)])"
  by pat_completeness auto
termination
  by (relation "measure (\<lambda>(enc, path, before, after). size before)")
    (auto simp: mget_size named_size [OF sym] dest: zip_index_size)

declare diff_list.simps [simp del]

lemma fold_concat:
  "(\<And>x d. x \<in> set xs \<Longrightarrow> f x d = fold g (h x) d) \<Longrightarrow> fold f xs d = fold g (concat (map h xs)) d"
  by (induction xs arbitrary: d) simp_all

lemma fold_concat_one: "(\<And>x d. x \<in> set xs \<Longrightarrow> f x d = g (h x) d) \<Longrightarrow> fold f xs d = fold g (map h xs) d"
  by (induction xs arbitrary: d) simp_all

text \<open>The branches, unfolded once.\<close>

definition positional :: "'n json list \<Rightarrow> 'n json list \<Rightarrow> bool" where
  "positional bl al \<longleftrightarrow> named_elements bl = None \<or> named_elements al = None"

definition unlike :: "'n json \<Rightarrow> 'n json \<Rightarrow> bool" where
  "unlike a b \<longleftrightarrow> \<not> (\<exists>am bm. a = JObject am \<and> b = JObject bm) \<and> \<not> (\<exists>al bl. a = JArray al \<and> b = JArray bl)"

lemma json_pairs:
  obtains bm am where "before = JObject bm" "after = JObject am"
    | bl al bm am where "before = JArray bl" "after = JArray al"
        "named_elements bl = Some bm" "named_elements al = Some am"
    | bl al where "before = JArray bl" "after = JArray al" "positional bl al"
    | "unlike before after"
proof (cases "unlike before after")
  case False
  then consider bm am where "before = JObject bm" "after = JObject am"
    | bl al where "before = JArray bl" "after = JArray al"
    by (auto simp: unlike_def)
  then show ?thesis
  proof cases
    case (2 bl al)
    then show ?thesis
      using that by (cases "named_elements bl"; cases "named_elements al") (auto simp: positional_def)
  qed (use that in blast)
qed (use that in blast)

lemmas walk_objects = walk.simps [of enc path "JObject bm" "JObject am" d for enc path bm am d, simplified prod.case json.case]
lemmas diff_objects = diff_list.simps [of enc path "JObject bm" "JObject am" for enc path bm am, simplified prod.case json.case]
lemmas walk_arrays = walk.simps [of enc path "JArray bl" "JArray al" d for enc path bl al d, simplified prod.case json.case]
lemmas diff_arrays = diff_list.simps [of enc path "JArray bl" "JArray al" for enc path bl al, simplified prod.case json.case]

lemma walk_positional:
  assumes "positional bl al"
  defines "shared \<equiv> min (length bl) (length al)"
  shows "walk enc path (JArray bl) (JArray al) d =
      fold (\<lambda>i. add_entry (diff_entry_of (field_path_index path i) DiffRemoved (render_value enc (bl ! i)) ''''))
        [shared..<length bl]
        (fold (\<lambda>i. add_entry (diff_entry_of (field_path_index path i) DiffAdded '''' (render_value enc (al ! i))))
          [shared..<length al]
          (fold (\<lambda>p. walk enc (field_path_index path (fst p)) (fst (snd p)) (snd (snd p)))
            (zip [0..<shared] (zip bl al)) d))"
    and "diff_list enc path (JArray bl) (JArray al) =
      concat (map (\<lambda>p. diff_list enc (field_path_index path (fst p)) (fst (snd p)) (snd (snd p)))
        (zip [0..<shared] (zip bl al))) @
      map (\<lambda>i. diff_entry_of (field_path_index path i) DiffAdded '''' (render_value enc (al ! i))) [shared..<length al] @
      map (\<lambda>i. diff_entry_of (field_path_index path i) DiffRemoved (render_value enc (bl ! i)) '''') [shared..<length bl]"
  using assms(1) unfolding walk_arrays diff_arrays shared_def
  by (cases "named_elements bl"; cases "named_elements al"; simp add: positional_def Let_def)+

lemma walk_unlike:
  assumes "unlike before after"
  shows "walk enc path before after d = (if json_equal before after then d
      else add_entry (diff_entry_of path DiffChanged (render_value enc before) (render_value enc after)) d)"
    and "diff_list enc path before after = (if json_equal before after then []
      else [diff_entry_of path DiffChanged (render_value enc before) (render_value enc after)])"
  using assms
  by (subst walk.simps, auto simp: unlike_def split: json.split)
    (subst diff_list.simps, auto simp: unlike_def split: json.split)+

lemma walk_diff_list: "walk enc path before after d = fold add_entry (diff_list enc path before after) d"
proof (induction before arbitrary: path after d rule: measure_induct_rule [of size])
  case (less before)
  show ?case
  proof (cases before after rule: json_pairs)
    case (1 bm am)
    show ?thesis
      unfolding 1 walk_objects diff_objects
      by (rule fold_concat) (auto simp: less 1 mget_size split: option.split)
  next
    case (2 bl al bm am)
    show ?thesis
      unfolding 2(1,2) walk_arrays diff_arrays 2(3,4) prod.case option.case
      by (rule fold_concat) (auto simp: less 2 named_size [OF 2(3)] split: option.split)
  next
    case (3 bl al)
    have shared: "fold (\<lambda>p. walk enc (field_path_index path (fst p)) (fst (snd p)) (snd (snd p)))
          (zip [0..<min (length bl) (length al)] (zip bl al)) d =
        fold add_entry (concat (map (\<lambda>p. diff_list enc (field_path_index path (fst p)) (fst (snd p)) (snd (snd p)))
          (zip [0..<min (length bl) (length al)] (zip bl al)))) d"
      by (rule fold_concat, rule less) (auto simp: 3 dest: zip_index_size)
    show ?thesis
      unfolding 3(1,2) walk_positional [OF 3(3)] shared by (simp add: fold_map comp_def)
  next
    case 4
    then show ?thesis by (simp add: walk_unlike)
  qed
qed

lemma fold_add_entry:
  "length (dr_entries d) \<le> max_diff_entries \<Longrightarrow>
   fold add_entry es d =
     \<lparr>dr_entries = take max_diff_entries (dr_entries d @ es),
      dr_truncated = (dr_truncated d \<or> length (dr_entries d @ es) > max_diff_entries)\<rparr>"
proof (induction es arbitrary: d)
  case (Cons e es)
  show ?case
  proof (cases "length (dr_entries d) \<ge> max_diff_entries")
    case True
    with Cons have "length (dr_entries d) = max_diff_entries" by simp
    with Cons.IH [of "add_entry e d"] show ?thesis by (simp add: add_entry_def)
  next
    case False
    with Cons.IH [of "add_entry e d"] show ?thesis by (simp add: add_entry_def)
  qed
qed simp

text \<open>
  The bound of a diff is a cut and nothing else: the walk reports the first
  \<open>MaxDiffEntries\<close> mismatches of the two definitions, in order, and raises the truncation flag
  exactly when there are more.
\<close>

theorem walk_reports_the_first_mismatches:
  "walk enc '''' before after \<lparr>dr_entries = [], dr_truncated = False\<rparr> =
     \<lparr>dr_entries = take max_diff_entries (diff_list enc '''' before after),
      dr_truncated = (length (diff_list enc '''' before after) > max_diff_entries)\<rparr>"
  unfolding walk_diff_list by (subst fold_add_entry) simp_all

section \<open>When there is nothing to report\<close>

text \<open>
  Two definitions are the same when they agree up to the order of lists of named elements: objects
  key by key, lists whose elements all carry a unique name by name, other lists by position.
\<close>

definition scalar :: "'n json \<Rightarrow> bool" where
  "scalar v \<longleftrightarrow> (\<forall>m. v \<noteq> JObject m) \<and> (\<forall>l. v \<noteq> JArray l)"

inductive same_definition :: "'n json \<Rightarrow> 'n json \<Rightarrow> bool" where
  same_scalar: "scalar v \<Longrightarrow> same_definition v v"
| same_object: "(\<And>k. rel_option same_definition (mget bm k) (mget am k)) \<Longrightarrow>
    same_definition (JObject bm) (JObject am)"
| same_named: "named_elements bl = Some bm \<Longrightarrow> named_elements al = Some am \<Longrightarrow>
    (\<And>k. rel_option same_definition (mget bm k) (mget am k)) \<Longrightarrow>
    same_definition (JArray bl) (JArray al)"
| same_positions: "positional bl al \<Longrightarrow> list_all2 same_definition bl al \<Longrightarrow>
    same_definition (JArray bl) (JArray al)"

inductive_cases same_objectE: "same_definition (JObject bm) (JObject am)"
inductive_cases same_arrayE: "same_definition (JArray bl) (JArray al)"

lemma json_equal_unlike: "unlike a b \<Longrightarrow> json_equal a b \<longleftrightarrow> a = b \<and> scalar a"
  by (subst json_equal.simps) (auto simp: unlike_def scalar_def split: json.split)

lemma same_unlike: "unlike a b \<Longrightarrow> same_definition a b \<longleftrightarrow> a = b \<and> scalar a"
  by (auto simp: unlike_def elim: same_definition.cases intro: same_scalar)

lemma union_keys_iff: "k \<in> set (union_keys bm am) \<longleftrightarrow> mget bm k \<noteq> None \<or> mget am k \<noteq> None"
  by (auto simp: union_keys_def mkeys_iff)

lemma keyed_empty:
  assumes "\<And>k bv av. mget bm k = Some bv \<Longrightarrow> D k bv av = [] \<longleftrightarrow> R bv av"
  shows "concat (map (\<lambda>k. case mget bm k of
        None \<Rightarrow> (case mget am k of None \<Rightarrow> [] | Some av \<Rightarrow> [A k av])
      | Some bv \<Rightarrow> (case mget am k of None \<Rightarrow> [B k bv] | Some av \<Rightarrow> D k bv av)) (union_keys bm am)) = [] \<longleftrightarrow>
    (\<forall>k. rel_option R (mget bm k) (mget am k))"
proof -
  have "(case mget bm k of
        None \<Rightarrow> (case mget am k of None \<Rightarrow> [] | Some av \<Rightarrow> [A k av])
      | Some bv \<Rightarrow> (case mget am k of None \<Rightarrow> [B k bv] | Some av \<Rightarrow> D k bv av)) = [] \<longleftrightarrow>
      rel_option R (mget bm k) (mget am k)" for k
    using assms by (cases "mget bm k"; cases "mget am k") auto
  moreover have "rel_option R (mget bm k) (mget am k)" if "k \<notin> set (union_keys bm am)" for k
    using that by (simp add: union_keys_iff)
  ultimately show ?thesis by auto
qed

lemma indexed_all:
  assumes "length is = min (length bl) (length al)" "\<And>i bv av. bv \<in> set bl \<Longrightarrow> D i bv av = [] \<longleftrightarrow> R bv av"
  shows "concat (map (\<lambda>p. D (fst p) (fst (snd p)) (snd (snd p))) (zip is (zip bl al))) = [] \<longleftrightarrow>
    list_all (\<lambda>p. R (fst p) (snd p)) (zip bl al)"
proof -
  have "snd ` set (zip is (zip bl al)) = set (zip bl al)"
    using assms(1) by (metis length_zip list.set_map map_snd_zip)
  moreover have "D (fst p) (fst (snd p)) (snd (snd p)) = [] \<longleftrightarrow> R (fst (snd p)) (snd (snd p))"
    if "p \<in> set (zip is (zip bl al))" for p
    using that assms(2) by (metis in_set_zipE prod.collapse)
  ultimately show ?thesis by (force simp: list_all_iff)
qed

lemma no_mismatch: "diff_list enc path before after = [] \<longleftrightarrow> same_definition before after"
proof (induction before arbitrary: path after rule: measure_induct_rule [of size])
  case (less before)
  show ?case
  proof (cases before after rule: json_pairs)
    case (1 bm am)
    have "diff_list enc path before after = [] \<longleftrightarrow> (\<forall>k. rel_option same_definition (mget bm k) (mget am k))"
      unfolding 1 diff_objects by (rule keyed_empty) (auto simp: less 1 mget_size)
    moreover have "same_definition (JObject bm) (JObject am) \<longleftrightarrow> (\<forall>k. rel_option same_definition (mget bm k) (mget am k))"
      by (blast intro: same_object elim: same_objectE [of bm am] dest: scalar_def [THEN iffD1])
    ultimately show ?thesis unfolding 1 by simp
  next
    case (2 bl al bm am)
    have "diff_list enc path before after = [] \<longleftrightarrow> (\<forall>k. rel_option same_definition (mget bm k) (mget am k))"
      unfolding 2(1,2) diff_arrays 2(3,4) prod.case option.case
      by (rule keyed_empty) (auto simp: less 2 named_size [OF 2(3)])
    moreover have "same_definition (JArray bl) (JArray al) \<longleftrightarrow> (\<forall>k. rel_option same_definition (mget bm k) (mget am k))"
    proof
      assume "same_definition (JArray bl) (JArray al)"
      then show "\<forall>k. rel_option same_definition (mget bm k) (mget am k)"
        using 2(3,4) by (cases rule: same_arrayE) (auto simp: positional_def scalar_def)
    qed (use 2(3,4) in \<open>blast intro: same_named\<close>)
    ultimately show ?thesis unfolding 2(1,2) by simp
  next
    case (3 bl al)
    let ?n = "min (length bl) (length al)"
    have "concat (map (\<lambda>p. diff_list enc (field_path_index path (fst p)) (fst (snd p)) (snd (snd p)))
        (zip [0..<?n] (zip bl al))) = [] \<longleftrightarrow> list_all (\<lambda>p. same_definition (fst p) (snd p)) (zip bl al)"
      by (rule indexed_all) (auto simp: less 3 element_size)
    moreover have "[?n..<length al] = [] \<and> [?n..<length bl] = [] \<longleftrightarrow> length bl = length al" by auto
    ultimately have "diff_list enc path before after = [] \<longleftrightarrow> list_all2 same_definition bl al"
      unfolding 3(1,2) walk_positional(2) [OF 3(3)]
      by (auto simp: list_all2_iff list_all_iff)
    moreover have "same_definition (JArray bl) (JArray al) \<longleftrightarrow> list_all2 same_definition bl al"
    proof
      assume "same_definition (JArray bl) (JArray al)"
      then show "list_all2 same_definition bl al"
        using 3(3) by (cases rule: same_arrayE) (auto simp: positional_def scalar_def)
    qed (use 3(3) in \<open>blast intro: same_positions\<close>)
    ultimately show ?thesis unfolding 3(1,2) by simp
  next
    case 4
    then show ?thesis by (auto simp: walk_unlike json_equal_unlike same_unlike)
  qed
qed

text \<open>
  C40. The diff is empty exactly for equal definitions, where equality ignores the order of lists
  the Kubernetes name convention makes associative: a reordered container list is no change at all,
  and everything else is.
\<close>

theorem diff_empty_iff_same_definition:
  "dr_entries (walk enc '''' before after \<lparr>dr_entries = [], dr_truncated = False\<rparr>) = [] \<longleftrightarrow>
   same_definition before after"
  unfolding walk_diff_list by (subst fold_add_entry) (simp_all add: max_diff_entries_def no_mismatch)

section \<open>Field paths as segments\<close>

datatype path_segment = SegKey string | SegName string | SegIndex nat

fun add_segment :: "string \<Rightarrow> path_segment \<Rightarrow> string" where
  "add_segment pre (SegKey key) = field_path_key pre key"
| "add_segment pre (SegName name) = field_path_named pre name"
| "add_segment pre (SegIndex i) = field_path_index pre i"

definition path_of :: "path_segment list \<Rightarrow> string" where
  "path_of segs = foldl add_segment '''' segs"

text \<open>A key without a double quote and a name without a closing bracket cannot run into the next segment.\<close>

fun segment_ok :: "path_segment \<Rightarrow> bool" where
  "segment_ok (SegKey key) \<longleftrightarrow> CHR 0x22 \<notin> set key"
| "segment_ok (SegName name) \<longleftrightarrow> CHR '']'' \<notin> set name"
| "segment_ok (SegIndex i) \<longleftrightarrow> True"

definition segment_string :: "path_segment \<Rightarrow> string" where
  "segment_string seg = add_segment '''' seg"

lemma add_segment_append: "add_segment pre seg = pre @ segment_string seg"
  by (cases seg) (auto simp: segment_string_def field_path_key_def field_path_named_def field_path_index_def)

lemma path_of_concat: "path_of segs = concat (map segment_string segs)"
proof -
  have "foldl add_segment p segs = p @ concat (map segment_string segs)" for p
    by (induction segs arbitrary: p) (simp_all add: add_segment_append)
  then show ?thesis by (simp add: path_of_def)
qed

definition boundary :: "string \<Rightarrow> bool" where
  "boundary r \<longleftrightarrow> r = [] \<or> hd r = CHR ''.'' \<or> hd r = CHR ''[''"

lemma takeWhile_simple:
  assumes "list_all simple_char k" "boundary r"
  shows "takeWhile simple_char (k @ r) = k"
proof -
  have "takeWhile simple_char r = []"
    using assms(2) by (cases r) (auto simp: boundary_def simple_char_def byte_def)
  with assms(1) show ?thesis by (simp add: list_all_iff)
qed

lemma itoa_nat_edges: "CHR '']'' \<notin> set (itoa (int i))" "itoa (int i) \<noteq> []"
  "48 \<le> byte (hd (itoa (int i))) \<and> byte (hd (itoa (int i))) \<le> 57"
proof -
  have "byte (CHR '']'') = 93" by (simp add: byte_def)
  then show "CHR '']'' \<notin> set (itoa (int i))"
    using itoa_bytes [of "CHR '']''" "int i"] by auto
  show "itoa (int i) \<noteq> []" by (simp add: itoa_def)
  show "48 \<le> byte (hd (itoa (int i))) \<and> byte (hd (itoa (int i))) \<le> 57"
    using nat_digits_bytes [of "hd (nat_digits i)" i] by (simp add: itoa_def)
qed

text \<open>How a segment starts tells its kind, and it ends where the next one can only begin.\<close>

lemma segment_shape:
  obtains key where "seg = SegKey key" "simple_field_key key" "segment_string seg = CHR ''.'' # key"
    | key where "seg = SegKey key" "\<not> simple_field_key key"
        "segment_string seg = CHR ''['' # CHR 0x22 # key @ [CHR 0x22, CHR '']'']"
    | name where "seg = SegName name" "segment_string seg = CHR ''['' # CHR ''n'' # ''ame='' @ name @ '']''"
    | i d ds where "seg = SegIndex i" "itoa (int i) = d # ds" "48 \<le> byte d" "byte d \<le> 57"
        "segment_string seg = CHR ''['' # d # ds @ '']''"
proof (cases seg)
  case (SegKey key)
  then show ?thesis
    using that(1,2) by (cases "simple_field_key key") (auto simp: segment_string_def field_path_key_def)
next
  case (SegName name)
  then show ?thesis using that(3) by (simp add: segment_string_def field_path_named_def)
next
  case (SegIndex i)
  obtain d ds where "itoa (int i) = d # ds" using itoa_nat_edges(2) by (cases "itoa (int i)") auto
  then show ?thesis
    using that(4) [of i d ds] SegIndex itoa_nat_edges(3) [of i] by (simp add: segment_string_def field_path_index_def)
qed

lemma segment_delimited:
  assumes "segment_ok a" "segment_ok b" "boundary r" "boundary t"
    and eq: "segment_string a @ r = segment_string b @ t"
  shows "a = b \<and> r = t"
proof -
  have q: "byte (CHR 0x22) = 34" "byte (CHR ''n'') = 110" by (simp_all add: byte_def)
  show ?thesis
  proof (cases a rule: segment_shape)
    case (1 k)
    note a = this
    show ?thesis
    proof (cases b rule: segment_shape)
      case (1 k')
      then have "k @ r = k' @ t" using eq a by simp
      moreover from this have "k = k'"
        using takeWhile_simple assms(3,4) a(2) 1(2) unfolding simple_field_key_def by metis
      ultimately show ?thesis using a 1 by simp
    qed (use eq a in simp_all)
  next
    case (2 k)
    note a = this
    show ?thesis
    proof (cases b rule: segment_shape)
      case (2 k')
      then have "k @ CHR 0x22 # CHR '']'' # r = k' @ CHR 0x22 # CHR '']'' # t" using eq a by simp
      from split_at_first [OF this] show ?thesis using a 2 assms(1,2) by simp
    next
      case 4
      with eq a q show ?thesis by auto
    qed (use eq a in simp_all)
  next
    case (3 n)
    note a = this
    show ?thesis
    proof (cases b rule: segment_shape)
      case (3 n')
      then have "n @ CHR '']'' # r = n' @ CHR '']'' # t" using eq a by simp
      from split_at_first [OF this] show ?thesis using a 3 assms(1,2) by simp
    next
      case 4
      with eq a q show ?thesis by auto
    qed (use eq a in simp_all)
  next
    case (4 i d ds)
    note a = this
    show ?thesis
    proof (cases b rule: segment_shape)
      case (4 i' d' ds')
      then have "itoa (int i) @ CHR '']'' # r = itoa (int i') @ CHR '']'' # t" using eq a by simp
      from split_at_first [OF this] itoa_nat_edges(1) have "itoa (int i) = itoa (int i')" "r = t" by auto
      then show ?thesis using a 4 itoa_inject by fastforce
    next
      case 2
      with eq a q show ?thesis by auto
    next
      case 3
      with eq a q show ?thesis by auto
    qed (use eq a in simp_all)
  qed
qed

lemma path_of_Cons: "path_of (x # xs) = segment_string x @ path_of xs"
  by (simp add: path_of_concat)

lemma path_of_append: "path_of (xs @ ys) = path_of xs @ path_of ys"
  by (simp add: path_of_concat)

lemma segment_head: "segment_string x \<noteq> [] \<and> boundary (segment_string x)"
  by (cases x rule: segment_shape) (simp_all add: boundary_def)

lemma path_boundary: "boundary (path_of xs)"
  using segment_head by (cases xs) (auto simp: path_of_Cons boundary_def, simp add: path_of_concat)

lemma path_of_Nil_iff: "path_of xs = [] \<longleftrightarrow> xs = []"
  using segment_head by (cases xs) (auto simp: path_of_Cons, simp add: path_of_concat)

lemma path_prefix:
  assumes "list_all segment_ok xs" "list_all segment_ok ys" "path_of xs = path_of ys @ rest" "boundary rest"
  shows "\<exists>zs. xs = ys @ zs \<and> path_of zs = rest"
  using assms
proof (induction ys arbitrary: xs)
  case Nil
  then show ?case by (auto simp: path_of_concat)
next
  case (Cons y ys)
  have "path_of xs \<noteq> []" using Cons.prems(3) segment_head [of y] by (simp add: path_of_Cons)
  then obtain x xs' where xs: "xs = x # xs'" using path_of_Nil_iff by (cases xs) auto
  have b: "boundary (path_of ys @ rest)"
    using path_boundary [of ys] Cons.prems(4) by (cases "path_of ys") (auto simp: boundary_def)
  have "x = y \<and> path_of xs' = path_of ys @ rest"
    using Cons.prems xs by (intro segment_delimited [OF _ _ path_boundary b]) (auto simp: path_of_Cons)
  with Cons.IH [of xs'] Cons.prems xs show ?case by auto
qed

lemma extends_at_iff: "extends_at long short \<longleftrightarrow> (\<exists>rest. long = short @ rest \<and> rest \<noteq> [] \<and> boundary rest)"
proof
  assume e: "extends_at long short"
  then obtain rest where r: "long = short @ rest" by (auto simp: extends_at_def has_prefix_iff split: if_splits)
  with e have "rest \<noteq> [] \<and> boundary rest"
    by (cases rest) (auto simp: extends_at_def boundary_def nth_append split: if_splits)
  with r show "\<exists>rest. long = short @ rest \<and> rest \<noteq> [] \<and> boundary rest" by blast
next
  assume "\<exists>rest. long = short @ rest \<and> rest \<noteq> [] \<and> boundary rest"
  then obtain c cs where "long = short @ c # cs" "boundary (c # cs)" by (metis neq_Nil_conv)
  then show "extends_at long short" by (auto simp: extends_at_def boundary_def)
qed

lemma extends_at_segments:
  assumes "list_all segment_ok xs" "list_all segment_ok ys"
  shows "extends_at (path_of xs) (path_of ys) \<longleftrightarrow> (\<exists>zs. zs \<noteq> [] \<and> xs = ys @ zs)"
proof
  assume "extends_at (path_of xs) (path_of ys)"
  then obtain rest where "path_of xs = path_of ys @ rest" "rest \<noteq> []" "boundary rest"
    by (auto simp: extends_at_iff)
  with path_prefix [OF assms] show "\<exists>zs. zs \<noteq> [] \<and> xs = ys @ zs"
    by (metis path_of_Nil_iff)
next
  assume "\<exists>zs. zs \<noteq> [] \<and> xs = ys @ zs"
  then show "extends_at (path_of xs) (path_of ys)"
    unfolding extends_at_iff using path_boundary path_of_Nil_iff by (auto simp: path_of_append)
qed

lemma path_of_inject:
  assumes "list_all segment_ok xs" "list_all segment_ok ys" "path_of xs = path_of ys"
  shows "xs = ys"
  using path_prefix [OF assms(1,2), of "[]"] assms(3) by (auto simp: boundary_def path_of_Nil_iff)

text \<open>
  Two field paths relate exactly when one is an initial run of the other's segments. The string
  test at a dot or an opening bracket is exact: a key that merely starts with another key never
  relates to it, and no quoted key, element name or index is mistaken for the segments after it.
\<close>

theorem paths_relate_iff_initial_segments:
  assumes "list_all segment_ok xs" and "list_all segment_ok ys"
  shows "paths_relate (path_of xs) (path_of ys) \<longleftrightarrow>
    xs \<noteq> [] \<and> ys \<noteq> [] \<and> (\<exists>zs. xs = ys @ zs \<or> ys = xs @ zs)"
proof (cases "xs = [] \<or> ys = []")
  case True
  then show ?thesis by (auto simp: paths_relate_def path_of_Nil_iff)
next
  case False
  have "paths_relate (path_of xs) (path_of ys) \<longleftrightarrow>
      xs = ys \<or> (\<exists>zs. zs \<noteq> [] \<and> xs = ys @ zs) \<or> (\<exists>zs. zs \<noteq> [] \<and> ys = xs @ zs)"
    using False path_of_inject [OF assms] extends_at_segments [OF assms] extends_at_segments [OF assms(2,1)]
    by (auto simp: paths_relate_def path_of_Nil_iff)
  also have "\<dots> \<longleftrightarrow> (\<exists>zs. xs = ys @ zs \<or> ys = xs @ zs)"
    by (metis append_Nil2)
  finally show ?thesis using False by simp
qed

theorem paths_relate_iff_initial_segments_witness:
  "paths_relate ''.spec.containers[name=pg].image'' ''.spec.containers'' \<and>
   \<not> paths_relate ''.spec.replicasMax'' ''.spec.replicas''"
proof -
  have p: "path_of [SegKey ''spec'', SegKey ''containers'', SegName ''pg'', SegKey ''image''] = ''.spec.containers[name=pg].image''"
    "path_of [SegKey ''spec'', SegKey ''containers''] = ''.spec.containers''"
    "path_of [SegKey ''spec'', SegKey ''replicasMax''] = ''.spec.replicasMax''"
    "path_of [SegKey ''spec'', SegKey ''replicas''] = ''.spec.replicas''"
    by code_simp+
  show ?thesis
    using paths_relate_iff_initial_segments [of "[SegKey ''spec'', SegKey ''containers'', SegName ''pg'', SegKey ''image'']"
        "[SegKey ''spec'', SegKey ''containers'']"]
      paths_relate_iff_initial_segments [of "[SegKey ''spec'', SegKey ''replicasMax'']"
        "[SegKey ''spec'', SegKey ''replicas'']"]
    unfolding p by simp
qed

lemma attribute_loop_known:
  "manager \<noteq> '''' \<Longrightarrow> \<forall>fo \<in> set owners. fo_manager fo \<noteq> '''' \<Longrightarrow>
   attribute_loop path owners manager =
     (if \<forall>fo \<in> set owners. list_ex (paths_relate path) (fo_paths fo) \<longrightarrow> fo_manager fo = manager
      then Some manager else None)"
  by (induction path owners manager rule: attribute_loop.induct) auto

text \<open>
  A guessed attribution is worse than none: a change is attributed to a manager exactly when
  that manager owns a related path and no other manager does; an unclaimed and an ambiguous path are
  attributed to nobody.
\<close>

theorem attribution_is_unanimous:
  assumes "\<forall>fo \<in> set owners. fo_manager fo \<noteq> ''''"
  shows "attribute path owners = m \<and> m \<noteq> '''' \<longleftrightarrow>
    (\<exists>fo \<in> set owners. fo_manager fo = m \<and> list_ex (paths_relate path) (fo_paths fo)) \<and>
    (\<forall>fo \<in> set owners. list_ex (paths_relate path) (fo_paths fo) \<longrightarrow> fo_manager fo = m)"
  using assms
proof (induction owners)
  case Nil
  then show ?case by (simp add: attribute_def)
next
  case (Cons fo owners)
  show ?case
  proof (cases "list_ex (paths_relate path) (fo_paths fo)")
    case True
    with Cons.prems attribute_loop_known [of "fo_manager fo" owners path] show ?thesis
      by (auto simp: attribute_def)
  next
    case False
    with Cons show ?thesis by (auto simp: attribute_def)
  qed
qed

theorem attribution_is_unanimous_witness:
  "attribute ''.spec.image'' [\<lparr>fo_manager = ''kubectl'', fo_paths = [''.spec'']\<rparr>] = ''kubectl''"
  using attribution_is_unanimous [of "[\<lparr>fo_manager = ''kubectl'', fo_paths = [''.spec'']\<rparr>]" "''.spec.image''" "''kubectl''"]
  by (simp add: paths_relate_def extends_at_def has_prefix_def)

section \<open>The baseline\<close>

lemma find_rev_take:
  assumes "find P (rev (take i xs)) = Some b" "i \<le> length xs"
  shows "\<exists>k<i. xs ! k = b \<and> P b \<and> (\<forall>j. k < j \<and> j < i \<longrightarrow> \<not> P (xs ! j))"
proof -
  from assms obtain n where n: "n < length (rev (take i xs))" "P (rev (take i xs) ! n)" "b = rev (take i xs) ! n"
    "\<forall>m<n. \<not> P (rev (take i xs) ! m)"
    by (auto simp: find_Some_iff)
  from n(1) assms(2) have ni: "n < i" by simp
  have at: "rev (take i xs) ! m = xs ! (i - Suc m)" if "m < i" for m
    using that assms(2) by (simp add: rev_nth min_def)
  have "\<not> P (xs ! j)" if "i - Suc n < j" "j < i" for j
    using n(4) [rule_format, of "i - Suc j"] at [of "i - Suc j"] that by simp
  with ni at [OF ni] n(2,3) show ?thesis by (intro exI [of _ "i - Suc n"]) auto
qed

text \<open>
  A diff compares against the newest older retained definition of the same object incarnation:
  never another object's, never a deletion, never one with a nearer definition in between; and a
  diff without a base reports no entries.
\<close>

theorem diff_compares_with_the_previous_definition:
  assumes "history_ok s" and "store_diff decode enc q s = Some d"
  shows "di_seq d = q \<and> (\<exists>r \<in> set (hs_entries s). rev_seq r = q \<and>
    (if di_has_base d
     then \<exists>b \<in> set (hs_entries s). rev_seq b = di_base_seq d \<and> rev_seq b < q \<and> rev_uid b = rev_uid r \<and>
       rev_manifest b \<noteq> None \<and> rev_manifest r \<noteq> None \<and>
       (\<forall>x \<in> set (hs_entries s). rev_seq b < rev_seq x \<and> rev_seq x < q \<and> rev_uid x = rev_uid r \<longrightarrow>
         rev_manifest x = None)
     else di_entries d = []))"
proof -
  let ?es = "hs_entries s"
  define i where "i = sort_search (length ?es) (\<lambda>i. rev_seq (?es ! i) \<ge> q)"
  have i: "i < length ?es" "rev_seq (?es ! i) = q"
    using assms(2) by (auto simp: store_diff_def i_def Let_def split: if_splits)
  let ?r = "?es ! i"
  have inc: "sorted_wrt (<) (map rev_seq ?es)" using assms(1) by (simp add: history_ok_def seqs_ok_def)
  have less: "rev_seq (?es ! a) < rev_seq (?es ! b) \<longleftrightarrow> a < b" if "a < length ?es" "b < length ?es" for a b
    using sorted_wrt_nth_less [OF inc, of a b] sorted_wrt_nth_less [OF inc, of b a] that
    by (cases a b rule: linorder_cases) auto
  have mem: "?r \<in> set ?es" using i(1) by simp
  have d: "di_seq d = q \<and> (if di_has_base d
      then \<exists>b. diff_base i ?r s = Some b \<and> rev_manifest ?r \<noteq> None \<and> di_base_seq d = rev_seq b
      else di_entries d = [])"
    using assms(2) i unfolding store_diff_def i_def [symmetric]
    by (auto simp: Let_def split: option.splits)
  show ?thesis
  proof (cases "di_has_base d")
    case True
    with d obtain b where b: "diff_base i ?r s = Some b" "rev_manifest ?r \<noteq> None" "di_base_seq d = rev_seq b" by auto
    from find_rev_take [OF b(1) [unfolded diff_base_def]] i(1) obtain k where k: "k < i" "?es ! k = b"
      "rev_uid b = rev_uid ?r" "rev_manifest b \<noteq> None"
      "\<forall>j. k < j \<and> j < i \<longrightarrow> \<not> (rev_uid (?es ! j) = rev_uid ?r \<and> rev_manifest (?es ! j) \<noteq> None)"
      by auto
    have "rev_manifest x = None"
      if x: "x \<in> set ?es" "rev_seq b < rev_seq x" "rev_seq x < q" "rev_uid x = rev_uid ?r" for x
    proof -
      obtain j where j: "j < length ?es" "x = ?es ! j" using x(1) by (auto simp: in_set_conv_nth)
      then have "k < j" "j < i" using x(2,3) less k(1,2) i by auto
      with k(5) j x(4) show ?thesis by blast
    qed
    moreover have "b \<in> set ?es" "rev_seq b < q" using k(1,2) i less [of k i] by auto
    ultimately show ?thesis using True d b k i mem by (intro conjI bexI [of _ ?r]) auto
  next
    case False
    with d i mem show ?thesis by auto
  qed
qed

definition null_decode :: "string \<Rightarrow> int json option" where
  "null_decode s = Some (JString s)"

definition plain_encode :: "int json \<Rightarrow> string" where
  "plain_encode v = (case v of JString s \<Rightarrow> s | _ \<Rightarrow> '''')"

definition changed_store :: hstore where
  "changed_store = run_history [OpObserve (sample_obs ''u1'' ''a'' ''x'') 0,
     OpObserve (sample_obs ''u1'' ''b'' ''x'') 5] (new_store open_limits)"

theorem diff_compares_with_the_previous_definition_witness:
  "\<exists>d. store_diff null_decode plain_encode 2 changed_store = Some d \<and> di_seq d = 2 \<and> di_has_base d \<and> di_base_seq d = 1"
proof -
  have ok: "history_ok changed_store"
    unfolding changed_store_def by (intro conjunct1 [OF run_ok] new_store_ok new_store_within)
  have "map_option (\<lambda>d. (di_has_base d, di_base_seq d)) (store_diff null_decode plain_encode 2 changed_store) = Some (True, 1)"
    by code_simp
  then obtain d where d: "store_diff null_decode plain_encode 2 changed_store = Some d" "di_has_base d" "di_base_seq d = 1"
    by auto
  with diff_compares_with_the_previous_definition [OF ok d(1)] show ?thesis by auto
qed

end
