(* ===== verification/LogBuffer.thy ===== *)
theory LogBuffer
  imports Prelude "HOL-Library.Sublist"
begin

text \<open>
  Log following, \<open>internal/logstream\<close>: the lines and members, the sink contract of
  \<open>logstream.go\<close>, and the bounded retention of recent lines of \<open>buffer.go\<close>.
\<close>

section \<open>Members, lines and what reaches a sink\<close>

record member =
  me_pod :: string
  me_container :: string

record log_line =
  ln_pod :: string
  ln_container :: string
  ln_text :: string
  ln_at :: instant

definition member_at :: "string \<Rightarrow> string \<Rightarrow> member" where
  "member_at pod container = \<lparr>me_pod = pod, me_container = container\<rparr>"

text \<open>The calls of the \<open>Sink\<close> interface.\<close>

datatype sink_event =
    EvObserve log_line
  | EvGap string string instant string
  | EvAttached string string instant
  | EvDetached string string instant string
  | EvDropped string string

fun event_member :: "sink_event \<Rightarrow> member" where
  "event_member (EvObserve line) = member_at (ln_pod line) (ln_container line)"
| "event_member (EvGap pod container t reason) = member_at pod container"
| "event_member (EvAttached pod container t) = member_at pod container"
| "event_member (EvDetached pod container t reason) = member_at pod container"
| "event_member (EvDropped pod container) = member_at pod container"

text \<open>
  What a runner with one goroutine per container relies on: the events of one container do not
  disturb what a sink holds of another, up to the loss \<open>keeps\<close> the sink allows itself.
\<close>

locale sink =
  fixes take_event :: "sink_event \<Rightarrow> 's \<Rightarrow> 's"
    and ok :: "'s \<Rightarrow> bool"
    and view :: "member \<Rightarrow> 's \<Rightarrow> 'v"
    and keeps :: "'v \<Rightarrow> 'v \<Rightarrow> bool"
  assumes take_ok: "ok s \<Longrightarrow> ok (take_event e s)"
    and keeps_refl: "keeps v v"
    and keeps_trans: "keeps u v \<Longrightarrow> keeps v w \<Longrightarrow> keeps u w"
    and other_kept: "ok s \<Longrightarrow> event_member e \<noteq> m \<Longrightarrow> keeps (view m s) (view m (take_event e s))"
begin

lemma taken_ok: "ok s \<Longrightarrow> ok (fold take_event es s)"
  by (induction es arbitrary: s) (simp_all add: take_ok)

lemma others_kept:
  "ok s \<Longrightarrow> \<forall>e \<in> set es. event_member e \<noteq> m \<Longrightarrow> keeps (view m s) (view m (fold take_event es s))"
proof (induction es arbitrary: s)
  case Nil
  then show ?case by (simp add: keeps_refl)
next
  case (Cons e es)
  then have "keeps (view m s) (view m (take_event e s))" by (intro other_kept) auto
  moreover have "keeps (view m (take_event e s)) (view m (fold take_event es (take_event e s)))"
    using Cons by (intro Cons.IH take_ok) auto
  ultimately show ?case using keeps_trans by simp
qed

end

section \<open>The buffer\<close>

record log_entry =
  le_at :: instant
  le_text :: string
  le_gap :: bool

record log_stream =
  st_entries :: "log_entry list"
  st_bytes :: int

record buffer =
  bf_per_container :: int
  bf_total :: int
  bf_max_age :: duration
  bf_streams :: "(member, log_stream) gomap"
  bf_bytes :: int

definition new_buffer :: "int \<Rightarrow> int \<Rightarrow> duration \<Rightarrow> buffer" where
  "new_buffer per_container all max_age =
     \<lparr>bf_per_container = per_container, bf_total = all, bf_max_age = max_age, bf_streams = [], bf_bytes = 0\<rparr>"

definition buffer_enabled :: "buffer \<Rightarrow> bool" where
  "buffer_enabled b \<longleftrightarrow> bf_per_container b > 0 \<and> bf_total b > 0"

definition log_entry_size :: "log_entry \<Rightarrow> int" where
  "log_entry_size e = int (length (le_text e)) + 48"

text \<open>
  \<open>dropOldest\<close> on the stream of a key. Where the code would panic on an empty stream there is
  nothing to drop; \<open>buffer_ok\<close> excludes empty streams.
\<close>

definition drop_oldest :: "member \<Rightarrow> buffer \<Rightarrow> buffer" where
  "drop_oldest key b =
     (case mget (bf_streams b) key of
        None \<Rightarrow> b
      | Some s \<Rightarrow>
          (case st_entries s of
             [] \<Rightarrow> b
           | e # es \<Rightarrow>
               let size = log_entry_size e;
                   s1 = s\<lparr>st_entries := es, st_bytes := st_bytes s - size\<rparr>
               in b\<lparr>bf_bytes := bf_bytes b - size,
                    bf_streams := (if es = [] then mdel key (bf_streams b) else mput key s1 (bf_streams b))\<rparr>))"

text \<open>\<open>oldestStream\<close>: the first stream of the iteration whose front entry is oldest.\<close>

fun oldest_loop :: "(member \<times> log_stream) list \<Rightarrow> (member \<times> instant) option \<Rightarrow> (member \<times> instant) option" where
  "oldest_loop [] found = found"
| "oldest_loop ((key, s) # ss) found =
     (case st_entries s of
        [] \<Rightarrow> oldest_loop ss found
      | e # es \<Rightarrow>
          oldest_loop ss
            (case found of
               None \<Rightarrow> Some (key, le_at e)
             | Some (k, t) \<Rightarrow> if time_before (le_at e) t then Some (key, le_at e) else Some (k, t)))"

definition oldest_stream :: "buffer \<Rightarrow> member option" where
  "oldest_stream b = map_option fst (oldest_loop (bf_streams b) None)"

definition entry_count :: "buffer \<Rightarrow> nat" where
  "entry_count b = sum_list (map (\<lambda>p. length (st_entries (snd p))) (bf_streams b))"

text \<open>The two loops of \<open>append\<close>. The second is given as fuel the number of retained entries.\<close>

definition stream_entries :: "member \<Rightarrow> buffer \<Rightarrow> log_entry list" where
  "stream_entries key b = (case mget (bf_streams b) key of None \<Rightarrow> [] | Some s \<Rightarrow> st_entries s)"

lemma drop_entries:
  "stream_entries k (drop_oldest key b) = (if k = key then tl (stream_entries k b) else stream_entries k b)"
  by (auto simp: stream_entries_def drop_oldest_def Let_def split: option.split list.split)

function drop_container :: "member \<Rightarrow> buffer \<Rightarrow> buffer" where
  "drop_container key b =
     (case mget (bf_streams b) key of
        None \<Rightarrow> b
      | Some s \<Rightarrow>
          if st_bytes s > bf_per_container b \<and> st_entries s \<noteq> [] then drop_container key (drop_oldest key b)
          else b)"
  by auto
termination
proof (relation "measure (\<lambda>(key, b). length (stream_entries key b))", simp)
  fix key and b :: buffer and s
  assume "mget (bf_streams b) key = Some s" "bf_per_container b < st_bytes s \<and> st_entries s \<noteq> []"
  then have "stream_entries key b \<noteq> []" by (simp add: stream_entries_def)
  then show "((key, drop_oldest key b), (key, b)) \<in> measure (\<lambda>(key, b). length (stream_entries key b))"
    by (simp add: drop_entries)
qed

declare drop_container.simps [simp del]

fun drop_total :: "nat \<Rightarrow> buffer \<Rightarrow> buffer" where
  "drop_total 0 b = b"
| "drop_total (Suc n) b =
     (if bf_bytes b > bf_total b then
        (case oldest_stream b of None \<Rightarrow> b | Some key \<Rightarrow> drop_total n (drop_oldest key b))
      else b)"

definition buffer_append :: "member \<Rightarrow> log_entry \<Rightarrow> buffer \<Rightarrow> buffer" where
  "buffer_append key e b =
     (let current = (case mget (bf_streams b) key of
            None \<Rightarrow> \<lparr>st_entries = [], st_bytes = 0\<rparr> | Some s \<Rightarrow> s);
          current1 = current\<lparr>st_entries := st_entries current @ [e],
                             st_bytes := st_bytes current + log_entry_size e\<rparr>;
          b1 = b\<lparr>bf_streams := mput key current1 (bf_streams b), bf_bytes := bf_bytes b + log_entry_size e\<rparr>;
          b2 = drop_container key b1
      in drop_total (entry_count b2) b2)"

definition buffer_observe :: "log_line \<Rightarrow> buffer \<Rightarrow> buffer" where
  "buffer_observe line b =
     (if \<not> buffer_enabled b then b
      else buffer_append (member_at (ln_pod line) (ln_container line))
             \<lparr>le_at = ln_at line, le_text = ln_text line, le_gap = False\<rparr> b)"

definition buffer_gap :: "string \<Rightarrow> string \<Rightarrow> instant \<Rightarrow> string \<Rightarrow> buffer \<Rightarrow> buffer" where
  "buffer_gap pod container t reason b =
     (if \<not> buffer_enabled b then b
      else buffer_append (member_at pod container) \<lparr>le_at = t, le_text = reason, le_gap = True\<rparr> b)"

fun buffer_event :: "sink_event \<Rightarrow> buffer \<Rightarrow> buffer" where
  "buffer_event (EvObserve line) b = buffer_observe line b"
| "buffer_event (EvGap pod container t reason) b = buffer_gap pod container t reason b"
| "buffer_event (EvAttached pod container t) b = b"
| "buffer_event (EvDetached pod container t reason) b = b"
| "buffer_event (EvDropped pod container) b = b"

record retained_line =
  rt_at :: instant
  rt_text :: string
  rt_gap :: bool

definition buffer_tail :: "string \<Rightarrow> string \<Rightarrow> instant \<Rightarrow> buffer \<Rightarrow> retained_line list \<times> bool" where
  "buffer_tail pod container now b =
     (if \<not> buffer_enabled b then ([], False)
      else case mget (bf_streams b) (member_at pod container) of
        None \<Rightarrow> ([], False)
      | Some s \<Rightarrow>
          let cutoff = now - bf_max_age b
          in (map (\<lambda>e. \<lparr>rt_at = le_at e, rt_text = le_text e, rt_gap = le_gap e\<rparr>)
                (filter (\<lambda>e. \<not> (bf_max_age b > 0 \<and> time_before (le_at e) cutoff)) (st_entries s)), True))"

definition buffer_containers :: "string \<Rightarrow> buffer \<Rightarrow> string list" where
  "buffer_containers pod b =
     (if \<not> buffer_enabled b then []
      else sort_strings (map me_container (filter (\<lambda>k. me_pod k = pod) (mkeys (bf_streams b)))))"

definition buffer_forget :: "string \<Rightarrow> buffer \<Rightarrow> buffer" where
  "buffer_forget pod b =
     (if \<not> buffer_enabled b then b
      else fold (\<lambda>p b. if me_pod (fst p) = pod
            then b\<lparr>bf_bytes := bf_bytes b - st_bytes (snd p), bf_streams := mdel (fst p) (bf_streams b)\<rparr>
            else b) (bf_streams b) b)"

section \<open>Bounds\<close>

definition stream_ok :: "log_stream \<Rightarrow> bool" where
  "stream_ok s \<longleftrightarrow> st_entries s \<noteq> [] \<and> st_bytes s = sum_list (map log_entry_size (st_entries s))"

definition buffer_rep :: "buffer \<Rightarrow> bool" where
  "buffer_rep b \<longleftrightarrow> map_ok (bf_streams b) \<and> (\<forall>k s. mget (bf_streams b) k = Some s \<longrightarrow> stream_ok s) \<and>
     bf_bytes b = sum_list (map (\<lambda>p. st_bytes (snd p)) (bf_streams b))"

definition within_container :: "member set \<Rightarrow> buffer \<Rightarrow> bool" where
  "within_container ks b \<longleftrightarrow>
     (\<forall>k s. k \<in> ks \<longrightarrow> mget (bf_streams b) k = Some s \<longrightarrow> st_bytes s \<le> bf_per_container b)"

definition buffer_ok :: "buffer \<Rightarrow> bool" where
  "buffer_ok b \<longleftrightarrow> buffer_rep b \<and> within_container UNIV b \<and> (buffer_enabled b \<longrightarrow> bf_bytes b \<le> bf_total b)"

lemma sum_mput:
  fixes f :: "'v \<Rightarrow> 'x::comm_monoid_add"
  assumes "mget m k = Some v"
  shows "sum_list (map (\<lambda>p. f (snd p)) (mput k w m)) + f v = sum_list (map (\<lambda>p. f (snd p)) m) + f w"
  using assms
proof (induction m)
  case (Cons p m)
  obtain j u where p: "p = (j, u)" by (cases p)
  with Cons show ?case
    by (cases "j = k") (simp_all add: mput_def mget_def ac_simps)
qed simp

lemma sum_mput_new:
  fixes f :: "'v \<Rightarrow> 'x::comm_monoid_add"
  assumes "mget m k = None"
  shows "sum_list (map (\<lambda>p. f (snd p)) (mput k w m)) = sum_list (map (\<lambda>p. f (snd p)) m) + f w"
  using assms by (simp add: mput_new)

lemma mdel_absent: "mget m k = None \<Longrightarrow> mdel k m = m"
  by (auto simp: mdel_filter mget_None_iff mkeys_def filter_id_conv)

lemma sum_mdel:
  fixes f :: "'v \<Rightarrow> 'x::comm_monoid_add"
  assumes "map_ok m" "mget m k = Some v"
  shows "sum_list (map (\<lambda>p. f (snd p)) (mdel k m)) + f v = sum_list (map (\<lambda>p. f (snd p)) m)"
  using assms
proof (induction m)
  case (Cons p m)
  obtain j u where p: "p = (j, u)" by (cases p)
  show ?case
  proof (cases "j = k")
    case True
    then have "mget m k = None" using Cons.prems(1) p by (simp add: map_ok_def mget_None_iff mkeys_def)
    then have "mdel k (p # m) = m" using True p mdel_absent [of m k] by (simp add: mdel_filter)
    then show ?thesis using True Cons.prems(2) p by (simp add: mget_def ac_simps)
  next
    case False
    with Cons p show ?thesis by (simp add: mdel_filter mget_def map_ok_def ac_simps)
  qed
qed simp

lemma drop_frame [simp]:
  "bf_per_container (drop_oldest key b) = bf_per_container b" "bf_total (drop_oldest key b) = bf_total b"
  "bf_max_age (drop_oldest key b) = bf_max_age b"
  by (auto simp: drop_oldest_def Let_def split: option.split list.split)

lemma drop_rep:
  assumes "buffer_rep b"
  shows "buffer_rep (drop_oldest key b)"
proof (cases "mget (bf_streams b) key")
  case None
  then show ?thesis using assms by (simp add: drop_oldest_def)
next
  case (Some s)
  with assms obtain e es where es: "st_entries s = e # es" and bytes: "st_bytes s = log_entry_size e + sum_list (map log_entry_size es)"
    by (cases "st_entries s") (auto simp: buffer_rep_def stream_ok_def)
  have m: "map_ok (bf_streams b)" using assms by (simp add: buffer_rep_def)
  show ?thesis
  proof (cases "es = []")
    case True
    with Some es bytes assms sum_mdel [OF m Some, of st_bytes] show ?thesis
      by (auto simp: drop_oldest_def buffer_rep_def)
  next
    case False
    let ?s = "s\<lparr>st_entries := es, st_bytes := st_bytes s - log_entry_size e\<rparr>"
    have "stream_ok ?s" using False bytes by (simp add: stream_ok_def)
    with False Some es assms sum_mput [OF Some, of st_bytes ?s] show ?thesis
      by (auto simp: drop_oldest_def buffer_rep_def Let_def)
  qed
qed

lemma drop_within:
  assumes "buffer_rep b" "within_container ks b"
  shows "within_container ks (drop_oldest key b)"
proof -
  have "0 \<le> log_entry_size e" for e by (simp add: log_entry_size_def)
  with assms(2) show ?thesis
    by (auto simp: within_container_def drop_oldest_def Let_def split: option.split list.split)
      (smt (verit))
qed

lemma drop_count:
  assumes "map_ok (bf_streams b)" "stream_entries key b \<noteq> []"
  shows "Suc (entry_count (drop_oldest key b)) = entry_count b"
proof -
  from assms(2) obtain s where s: "mget (bf_streams b) key = Some s"
    by (auto simp: stream_entries_def split: option.splits)
  with assms(2) obtain e es where es: "st_entries s = e # es"
    by (cases "st_entries s") (auto simp: stream_entries_def)
  show ?thesis
    using s es sum_mdel [OF assms(1) s, of "\<lambda>s. length (st_entries s)"]
      sum_mput [OF s, of "\<lambda>s. length (st_entries s)" "s\<lparr>st_entries := es, st_bytes := st_bytes s - log_entry_size e\<rparr>"]
    by (auto simp: entry_count_def drop_oldest_def Let_def)
qed

lemma drop_container_induct:
  assumes "P b" and step: "\<And>b. P b \<Longrightarrow> P (drop_oldest key b)"
  shows "P (drop_container key b)"
  using assms
proof (induction key b rule: drop_container.induct)
  case (1 key b)
  from "1.prems"(1) have d: "P (drop_oldest key b)" by (rule "1.prems"(2))
  show ?case
  proof (cases "mget (bf_streams b) key")
    case None
    with "1.prems"(1) show ?thesis by (subst drop_container.simps) simp
  next
    case (Some s)
    with "1.prems"(1) "1.IH" [OF Some _ d "1.prems"(2)] show ?thesis by (subst drop_container.simps) simp
  qed
qed

lemma drop_container_frame [simp]:
  "bf_per_container (drop_container key b) = bf_per_container b" "bf_total (drop_container key b) = bf_total b"
  "bf_max_age (drop_container key b) = bf_max_age b"
  using drop_container_induct [of "\<lambda>c. bf_per_container c = bf_per_container b" b key]
    drop_container_induct [of "\<lambda>c. bf_total c = bf_total b" b key]
    drop_container_induct [of "\<lambda>c. bf_max_age c = bf_max_age b" b key]
  by simp_all

lemma drop_container_within:
  assumes "buffer_rep b" "within_container (UNIV - {key}) b"
  shows "within_container UNIV (drop_container key b)"
  using assms
proof (induction key b rule: drop_container.induct)
  case (1 key b)
  show ?case
  proof (cases "mget (bf_streams b) key")
    case None
    with 1 have "within_container UNIV b" unfolding within_container_def by (metis Diff_iff UNIV_I empty_iff insert_iff option.distinct(1))
    with None show ?thesis by (subst drop_container.simps) simp
  next
    case (Some s)
    show ?thesis
    proof (cases "st_bytes s > bf_per_container b \<and> st_entries s \<noteq> []")
      case True
      with 1 Some drop_rep drop_within show ?thesis by (subst drop_container.simps) simp
    next
      case False
      with Some 1 have "st_bytes s \<le> bf_per_container b" by (auto simp: buffer_rep_def stream_ok_def)
      with Some 1 have "within_container UNIV b"
        unfolding within_container_def by (metis Diff_iff UNIV_I empty_iff insert_iff option.inject)
      moreover have "drop_container key b = b" using Some False by (subst drop_container.simps) auto
      ultimately show ?thesis by simp
    qed
  qed
qed

lemma oldest_loop_key:
  "oldest_loop ss found = Some (k, t) \<Longrightarrow>
   found = Some (k, t) \<or> (\<exists>s. (k, s) \<in> set ss \<and> st_entries s \<noteq> [] \<and> le_at (hd (st_entries s)) = t)"
proof (induction ss found rule: oldest_loop.induct)
  case (2 key s ss found)
  then show ?case
    by (cases "st_entries s"; cases found) (auto split: if_splits)
qed simp

lemma oldest_loop_None:
  "oldest_loop ss found = None \<longleftrightarrow> found = None \<and> (\<forall>(k, s) \<in> set ss. st_entries s = [])"
  by (induction ss found rule: oldest_loop.induct) (auto split: list.splits option.splits)

lemma oldest_stream_Some:
  assumes "buffer_rep b" "oldest_stream b = Some key"
  shows "stream_entries key b \<noteq> []"
proof -
  from assms(2) obtain t where "oldest_loop (bf_streams b) None = Some (key, t)"
    by (auto simp: oldest_stream_def)
  from oldest_loop_key [OF this] obtain s where "(key, s) \<in> set (bf_streams b)" "st_entries s \<noteq> []" by auto
  with assms(1) show ?thesis by (simp add: stream_entries_def buffer_rep_def mget_of_set)
qed

lemma oldest_stream_None:
  assumes "buffer_rep b" "oldest_stream b = None"
  shows "bf_streams b = []"
proof (rule ccontr)
  assume "bf_streams b \<noteq> []"
  then obtain k s where ks: "(k, s) \<in> set (bf_streams b)" by (cases "bf_streams b") auto
  then have "mget (bf_streams b) k = Some s" using assms(1) by (intro mget_of_set) (simp_all add: buffer_rep_def)
  then have "st_entries s \<noteq> []" using assms(1) by (auto simp: buffer_rep_def stream_ok_def)
  with assms(2) ks show False by (auto simp: oldest_stream_def oldest_loop_None)
qed

lemma drop_total_induct:
  assumes "P b" and step: "\<And>b key. P b \<Longrightarrow> P (drop_oldest key b)"
  shows "P (drop_total n b)"
  using assms(1) by (induction n arbitrary: b) (auto split: option.split intro: step)

lemma drop_total_frame [simp]:
  "bf_per_container (drop_total n b) = bf_per_container b" "bf_total (drop_total n b) = bf_total b"
  using drop_total_induct [of "\<lambda>c. bf_per_container c = bf_per_container b" b n]
    drop_total_induct [of "\<lambda>c. bf_total c = bf_total b" b n]
  by simp_all

text \<open>The fuel is enough: the loop stops because the bound holds.\<close>

lemma drop_total_bound:
  assumes "buffer_rep b" "entry_count b \<le> n" "bf_total b \<ge> 0"
  shows "bf_bytes (drop_total n b) \<le> bf_total b"
  using assms
proof (induction n arbitrary: b)
  case 0
  have "bf_streams b = []"
  proof (rule ccontr)
    assume "bf_streams b \<noteq> []"
    then obtain k s ss where ss: "bf_streams b = (k, s) # ss" by (cases "bf_streams b") auto
    then have "mget (bf_streams b) k = Some s" by (simp add: mget_def)
    then have "st_entries s \<noteq> []" using 0 by (auto simp: buffer_rep_def stream_ok_def)
    with 0 ss show False by (simp add: entry_count_def)
  qed
  with 0 show ?case by (simp add: buffer_rep_def)
next
  case (Suc n)
  show ?case
  proof (cases "oldest_stream b")
    case None
    from oldest_stream_None [OF Suc.prems(1) None] Suc.prems show ?thesis by (simp add: buffer_rep_def)
  next
    case (Some key)
    note ne = oldest_stream_Some [OF Suc.prems(1) Some]
    have "entry_count (drop_oldest key b) \<le> n"
      using drop_count [OF _ ne] Suc.prems by (simp add: buffer_rep_def)
    from Suc.IH [OF drop_rep [OF Suc.prems(1)] this] Suc.prems(3) Some show ?thesis by simp
  qed
qed

lemma append_first:
  fixes b :: buffer and key :: member and e :: log_entry
  defines "current \<equiv> (case mget (bf_streams b) key of None \<Rightarrow> \<lparr>st_entries = [], st_bytes = 0\<rparr> | Some s \<Rightarrow> s)"
  defines "b1 \<equiv> b\<lparr>bf_streams := mput key (current\<lparr>st_entries := st_entries current @ [e],
      st_bytes := st_bytes current + log_entry_size e\<rparr>) (bf_streams b), bf_bytes := bf_bytes b + log_entry_size e\<rparr>"
  assumes "buffer_rep b"
  shows "buffer_rep b1"
    and "stream_entries k b1 = (if k = key then stream_entries key b @ [e] else stream_entries k b)"
proof -
  show "stream_entries k b1 = (if k = key then stream_entries key b @ [e] else stream_entries k b)"
    by (auto simp: b1_def current_def stream_entries_def split: option.split)
  let ?s = "current\<lparr>st_entries := st_entries current @ [e], st_bytes := st_bytes current + log_entry_size e\<rparr>"
  have s: "stream_ok ?s"
    using assms(3) by (cases "mget (bf_streams b) key") (auto simp: current_def stream_ok_def buffer_rep_def)
  have "sum_list (map (\<lambda>p. st_bytes (snd p)) (mput key ?s (bf_streams b))) =
      sum_list (map (\<lambda>p. st_bytes (snd p)) (bf_streams b)) + log_entry_size e"
  proof (cases "mget (bf_streams b) key")
    case None
    then show ?thesis by (simp add: sum_mput_new current_def)
  next
    case (Some s)
    from sum_mput [OF this, of st_bytes ?s] Some show ?thesis by (simp add: current_def)
  qed
  with assms(3) s show "buffer_rep b1" by (auto simp: buffer_rep_def b1_def split: if_splits)
qed

lemma buffer_append_ok:
  assumes "buffer_ok b" "buffer_enabled b"
  shows "buffer_ok (buffer_append key e b)"
proof -
  define current where "current = (case mget (bf_streams b) key of None \<Rightarrow> \<lparr>st_entries = [], st_bytes = 0\<rparr> | Some s \<Rightarrow> s)"
  define b1 where "b1 = b\<lparr>bf_streams := mput key (current\<lparr>st_entries := st_entries current @ [e],
      st_bytes := st_bytes current + log_entry_size e\<rparr>) (bf_streams b), bf_bytes := bf_bytes b + log_entry_size e\<rparr>"
  define b2 where "b2 = drop_container key b1"
  have a: "buffer_append key e b = drop_total (entry_count b2) b2"
    by (simp add: buffer_append_def current_def b1_def b2_def Let_def)
  have r1: "buffer_rep b1"
    using append_first(1) [of b e key] assms(1) by (simp add: b1_def current_def buffer_ok_def)
  have w1: "within_container (UNIV - {key}) b1"
    using assms(1) by (auto simp: buffer_ok_def within_container_def b1_def)
  have r2: "buffer_rep b2" and w2: "within_container UNIV b2"
    using drop_container_induct [of buffer_rep b1 key, OF r1 drop_rep] drop_container_within [OF r1 w1]
    by (simp_all add: b2_def)
  have p: "buffer_rep (drop_total n b2) \<and> within_container UNIV (drop_total n b2)" for n
    using drop_total_induct [of "\<lambda>c. buffer_rep c \<and> within_container UNIV c" b2 n] r2 w2 drop_rep drop_within by blast
  have t: "bf_total b2 = bf_total b" by (simp add: b2_def b1_def)
  have "bf_bytes (drop_total (entry_count b2) b2) \<le> bf_total b2"
    by (rule drop_total_bound [OF r2]) (use assms(2) t in \<open>simp_all add: buffer_enabled_def\<close>)
  with p show ?thesis unfolding a buffer_ok_def by simp
qed

lemma drop_suffix: "suffix (stream_entries k (drop_oldest key b)) (stream_entries k b)"
  by (simp add: drop_entries suffix_tl)

lemma append_suffix:
  assumes "buffer_rep b"
  shows "suffix (stream_entries k (buffer_append key e b))
    (if k = key then stream_entries key b @ [e] else stream_entries k b)"
proof -
  define current where "current = (case mget (bf_streams b) key of None \<Rightarrow> \<lparr>st_entries = [], st_bytes = 0\<rparr> | Some s \<Rightarrow> s)"
  define b1 where "b1 = b\<lparr>bf_streams := mput key (current\<lparr>st_entries := st_entries current @ [e],
      st_bytes := st_bytes current + log_entry_size e\<rparr>) (bf_streams b), bf_bytes := bf_bytes b + log_entry_size e\<rparr>"
  have a: "buffer_append key e b = drop_total (entry_count (drop_container key b1)) (drop_container key b1)"
    by (simp add: buffer_append_def current_def b1_def Let_def)
  have e: "stream_entries k b1 = (if k = key then stream_entries key b @ [e] else stream_entries k b)"
    using append_first(2) [OF assms, of k e key] by (simp add: b1_def current_def)
  have c: "suffix (stream_entries k (drop_container key b1)) (stream_entries k b1)"
    by (rule drop_container_induct [where P = "\<lambda>c. suffix (stream_entries k c) (stream_entries k b1)"])
      (auto intro: suffix_order.trans [OF drop_suffix])
  have "suffix (stream_entries k (drop_total n c)) (stream_entries k c)" for n c
    by (rule drop_total_induct [where P = "\<lambda>d. suffix (stream_entries k d) (stream_entries k c)"])
      (auto intro: suffix_order.trans [OF drop_suffix])
  from suffix_order.trans [OF this c] show ?thesis unfolding a e .
qed

lemma new_buffer_ok: "buffer_ok (new_buffer per_container all max_age)"
  by (simp add: buffer_ok_def buffer_rep_def within_container_def new_buffer_def buffer_enabled_def)

lemma append_limits:
  "bf_per_container (buffer_append key e b) = bf_per_container b" "bf_total (buffer_append key e b) = bf_total b"
  by (simp_all add: buffer_append_def Let_def)

lemma event_ok: "buffer_ok b \<Longrightarrow> buffer_ok (buffer_event ev b)"
  by (cases ev) (auto simp: buffer_observe_def buffer_gap_def intro: buffer_append_ok)

lemma event_limits:
  "bf_per_container (buffer_event ev b) = bf_per_container b \<and> bf_total (buffer_event ev b) = bf_total b"
  by (cases ev) (simp_all add: buffer_observe_def buffer_gap_def append_limits)

text \<open>The buffer gives up the oldest lines of any container, so what it keeps of another is a suffix.\<close>

interpretation buffer_sink: sink buffer_event buffer_ok stream_entries "\<lambda>v w. suffix w v"
proof unfold_locales
  show "suffix (stream_entries m (buffer_event e s)) (stream_entries m s)"
    if "buffer_ok s" "event_member e \<noteq> m" for s e m
  proof -
    have "suffix (stream_entries m (buffer_append (event_member e) x s)) (stream_entries m s)" for x
      using that append_suffix [of s m "event_member e" x] by (simp add: buffer_ok_def)
    then show ?thesis by (cases e) (simp_all add: buffer_observe_def buffer_gap_def)
  qed
qed (auto intro: event_ok suffix_order.trans)

lemma forget_rep:
  assumes "buffer_rep b"
  shows "buffer_rep (buffer_forget pod b)" "within_container ks b \<Longrightarrow> within_container ks (buffer_forget pod b)"
proof -
  define f :: "member \<times> log_stream \<Rightarrow> buffer \<Rightarrow> buffer" where "f = (\<lambda>p b. if me_pod (fst p) = pod
    then b\<lparr>bf_bytes := bf_bytes b - st_bytes (snd p), bf_streams := mdel (fst p) (bf_streams b)\<rparr> else b)"
  have "buffer_rep (fold f ps c) \<and> (within_container ks c \<longrightarrow> within_container ks (fold f ps c))"
    if "buffer_rep c" "map_ok ps" "\<forall>p \<in> set ps. mget (bf_streams c) (fst p) = Some (snd p)" for ps c
    using that
  proof (induction ps arbitrary: c)
    case (Cons p ps)
    have look: "mget (bf_streams c) (fst p) = Some (snd p)" using Cons.prems(3) by simp
    have rep: "buffer_rep (f p c)"
      using Cons.prems(1) sum_mdel [OF _ look, of st_bytes] by (auto simp: f_def buffer_rep_def)
    have "\<forall>q \<in> set ps. fst q \<noteq> fst p" using Cons.prems(2) by (auto simp: map_ok_def) (metis fst_conv imageI)
    then have "\<forall>q \<in> set ps. mget (bf_streams (f p c)) (fst q) = Some (snd q)"
      using Cons.prems(3) by (simp add: f_def)
    moreover have "within_container ks c \<longrightarrow> within_container ks (f p c)"
      by (auto simp: within_container_def f_def)
    moreover have "map_ok ps" using Cons.prems(2) by (simp add: map_ok_def)
    ultimately show ?case using Cons.IH [OF rep] by simp
  qed simp
  moreover have "\<forall>p \<in> set (bf_streams b). mget (bf_streams b) (fst p) = Some (snd p)"
    using assms by (auto simp: buffer_rep_def intro: mget_of_set)
  moreover have "map_ok (bf_streams b)" using assms by (simp add: buffer_rep_def)
  ultimately have "buffer_rep (fold f (bf_streams b) b) \<and> (within_container ks b \<longrightarrow> within_container ks (fold f (bf_streams b) b))"
    using assms by blast
  then show "buffer_rep (buffer_forget pod b)" "within_container ks b \<Longrightarrow> within_container ks (buffer_forget pod b)"
    using assms by (auto simp: buffer_forget_def f_def)
qed

section \<open>Properties of the buffer\<close>

datatype buffer_op = BufEvent sink_event | BufForget string

primrec buffer_apply :: "buffer_op \<Rightarrow> buffer \<Rightarrow> buffer" where
  "buffer_apply (BufEvent ev) b = buffer_event ev b"
| "buffer_apply (BufForget pod) b = buffer_forget pod b"

lemma sum_filter_le: "(\<And>x. x \<in> set xs \<Longrightarrow> 0 \<le> f x) \<Longrightarrow>
  sum_list (map f (filter P xs)) \<le> sum_list (map f xs)" for f :: "'a \<Rightarrow> int"
  by (induction xs) (auto intro: add_increasing)

lemma stream_bytes_nonneg: "stream_ok s \<Longrightarrow> 0 \<le> st_bytes s"
  by (auto simp: stream_ok_def log_entry_size_def intro!: sum_list_nonneg_int)

lemma forget_bytes:
  assumes "buffer_rep b"
  shows "bf_bytes (buffer_forget pod b) \<le> bf_bytes b" "bf_total (buffer_forget pod b) = bf_total b"
    "bf_per_container (buffer_forget pod b) = bf_per_container b"
proof -
  define f :: "member \<times> log_stream \<Rightarrow> buffer \<Rightarrow> buffer" where "f = (\<lambda>p b. if me_pod (fst p) = pod
    then b\<lparr>bf_bytes := bf_bytes b - st_bytes (snd p), bf_streams := mdel (fst p) (bf_streams b)\<rparr> else b)"
  have "bf_bytes (fold f ps c) \<le> bf_bytes c \<and> bf_total (fold f ps c) = bf_total c \<and>
      bf_per_container (fold f ps c) = bf_per_container c"
    if "\<forall>p \<in> set ps. 0 \<le> st_bytes (snd p)" for ps c
    using that
  proof (induction ps arbitrary: c)
    case (Cons p ps)
    have "bf_bytes (f p c) \<le> bf_bytes c" "bf_total (f p c) = bf_total c" "bf_per_container (f p c) = bf_per_container c"
      using Cons.prems by (auto simp: f_def)
    with Cons.IH [of "f p c"] Cons.prems show ?case by auto
  qed simp
  moreover have "\<forall>p \<in> set (bf_streams b). 0 \<le> st_bytes (snd p)"
    using assms stream_bytes_nonneg by (auto simp: buffer_rep_def dest: mget_of_set)
  ultimately show "bf_bytes (buffer_forget pod b) \<le> bf_bytes b" "bf_total (buffer_forget pod b) = bf_total b"
    "bf_per_container (buffer_forget pod b) = bf_per_container b"
    by (simp_all add: buffer_forget_def f_def)
qed

lemma apply_ok: "buffer_ok b \<Longrightarrow> buffer_ok (buffer_apply a b)"
proof (cases a)
  case (BufForget pod)
  assume b: "buffer_ok b"
  then have r: "buffer_rep b" "within_container UNIV b" by (simp_all add: buffer_ok_def)
  have "buffer_enabled (buffer_forget pod b) = buffer_enabled b"
    using forget_bytes(2,3) [OF r(1), of pod] by (simp add: buffer_enabled_def)
  with BufForget b forget_rep(1) [OF r(1)] forget_rep(2) [OF r(1) r(2)] forget_bytes [OF r(1), of pod]
  show ?thesis by (auto simp: buffer_ok_def)
qed (simp add: event_ok)

lemma buffer_run_ok: "buffer_ok b \<Longrightarrow> buffer_ok (fold buffer_apply ops b)"
  by (induction ops arbitrary: b) (simp_all add: apply_ok)

lemma buffer_run_limits: "buffer_ok b \<Longrightarrow> bf_total (fold buffer_apply ops b) = bf_total b \<and>
  bf_per_container (fold buffer_apply ops b) = bf_per_container b"
proof (induction ops arbitrary: b)
  case (Cons a ops)
  have "bf_total (buffer_apply a b) = bf_total b \<and> bf_per_container (buffer_apply a b) = bf_per_container b"
    using Cons.prems event_limits forget_bytes(2,3) by (cases a) (auto simp: buffer_ok_def)
  with Cons apply_ok show ?case by simp
qed simp

definition bytes_held :: "buffer \<Rightarrow> int" where
  "bytes_held b = sum_list (map (\<lambda>p. sum_list (map log_entry_size (st_entries (snd p)))) (bf_streams b))"

text \<open>
  The bytes of log text are bounded whatever is logged: after any events and forgotten pods the
  buffer holds at most the total bound, at most the per-container bound for each container, and
  the accounting is exact.
\<close>

theorem buffer_is_bounded:
  fixes ops max_age
  assumes "per_container > 0" and "all > 0"
  defines "b \<equiv> fold buffer_apply ops (new_buffer per_container all max_age)"
  shows "bytes_held b \<le> all \<and> bytes_held b = bf_bytes b \<and>
    (\<forall>m. sum_list (map log_entry_size (stream_entries m b)) \<le> per_container)"
proof -
  have ok: "buffer_ok b" unfolding b_def by (intro buffer_run_ok new_buffer_ok)
  have lim: "bf_total b = all" "bf_per_container b = per_container"
    using buffer_run_limits [OF new_buffer_ok] by (simp_all add: b_def new_buffer_def)
  have exact: "st_bytes (snd p) = sum_list (map log_entry_size (st_entries (snd p)))" if "p \<in> set (bf_streams b)" for p
    using that ok mget_of_set [of "bf_streams b" "fst p" "snd p"] by (auto simp: buffer_ok_def buffer_rep_def stream_ok_def)
  have "map (\<lambda>p. sum_list (map log_entry_size (st_entries (snd p)))) (bf_streams b) = map (\<lambda>p. st_bytes (snd p)) (bf_streams b)"
    using exact by simp
  then have "bytes_held b = sum_list (map (\<lambda>p. st_bytes (snd p)) (bf_streams b))"
    by (simp only: bytes_held_def)
  then have "bytes_held b = bf_bytes b" using ok by (simp add: buffer_ok_def buffer_rep_def)
  moreover have "bf_bytes b \<le> all" using ok lim assms(1,2) by (simp add: buffer_ok_def buffer_enabled_def)
  moreover have "sum_list (map log_entry_size (stream_entries m b)) \<le> per_container" for m
    using ok lim assms(1) by (cases "mget (bf_streams b) m")
      (auto simp: stream_entries_def buffer_ok_def within_container_def buffer_rep_def stream_ok_def)
  ultimately show ?thesis by simp
qed

definition sample_line :: "string \<Rightarrow> instant \<Rightarrow> sink_event" where
  "sample_line text t = EvObserve \<lparr>ln_pod = ''pg-1'', ln_container = ''postgres'', ln_text = text, ln_at = t\<rparr>"

theorem buffer_is_bounded_witness:
  "bytes_held (fold buffer_apply [BufEvent (sample_line ''one'' 1), BufEvent (sample_line ''two'' 2),
     BufEvent (EvGap ''pg-1'' ''postgres'' 3 ''ended'')] (new_buffer 120 100 hour)) \<le> 100 \<and>
   stream_entries (member_at ''pg-1'' ''postgres'') (fold buffer_apply [BufEvent (sample_line ''one'' 1),
     BufEvent (sample_line ''two'' 2), BufEvent (EvGap ''pg-1'' ''postgres'' 3 ''ended'')] (new_buffer 120 100 hour)) =
     [\<lparr>le_at = 3, le_text = ''ended'', le_gap = True\<rparr>]"
proof -
  have "stream_entries (member_at ''pg-1'' ''postgres'') (fold buffer_apply [BufEvent (sample_line ''one'' 1),
     BufEvent (sample_line ''two'' 2), BufEvent (EvGap ''pg-1'' ''postgres'' 3 ''ended'')] (new_buffer 120 100 hour)) =
     [\<lparr>le_at = 3, le_text = ''ended'', le_gap = True\<rparr>]" by code_simp
  with buffer_is_bounded [of 120 100 "[BufEvent (sample_line ''one'' 1), BufEvent (sample_line ''two'' 2),
     BufEvent (EvGap ''pg-1'' ''postgres'' 3 ''ended'')]" hour] show ?thesis by simp
qed

text \<open>The lines and gap markers a container produced, in order.\<close>

fun event_entry :: "sink_event \<Rightarrow> log_entry list" where
  "event_entry (EvObserve line) = [\<lparr>le_at = ln_at line, le_text = ln_text line, le_gap = False\<rparr>]"
| "event_entry (EvGap pod container t reason) = [\<lparr>le_at = t, le_text = reason, le_gap = True\<rparr>]"
| "event_entry _ = []"

definition produced :: "member \<Rightarrow> sink_event list \<Rightarrow> log_entry list" where
  "produced m es = concat (map event_entry (filter (\<lambda>e. event_member e = m) es))"

lemma event_suffix:
  assumes "buffer_ok b" "buffer_enabled b"
  shows "suffix (stream_entries m (buffer_event e b)) (stream_entries m b @ (if event_member e = m then event_entry e else []))"
proof -
  have "suffix (stream_entries m (buffer_append (event_member e) x b))
      (stream_entries m b @ (if event_member e = m then [x] else []))" for x
    using assms append_suffix [of b m "event_member e" x] by (auto simp: buffer_ok_def)
  note a = this
  show ?thesis
  proof (cases e)
    case (EvObserve line)
    with assms(2) a [of "\<lparr>le_at = ln_at line, le_text = ln_text line, le_gap = False\<rparr>"]
    show ?thesis by (cases "member_at (ln_pod line) (ln_container line) = m") (simp_all add: buffer_observe_def)
  next
    case (EvGap pod container t reason)
    with assms(2) a [of "\<lparr>le_at = t, le_text = reason, le_gap = True\<rparr>"]
    show ?thesis by (cases "member_at pod container = m") (simp_all add: buffer_gap_def)
  qed simp_all
qed

text \<open>
  What the buffer shows of a container is a contiguous run ending at the latest event: nothing
  is reordered, nothing in the middle is missing, and every break of the stream in that run is
  still there as a gap marker. Only the oldest lines are ever given up, to whichever container's
  lines.
\<close>

theorem buffer_keeps_a_contiguous_tail:
  assumes "per_container > 0" and "all > 0"
  shows "suffix (stream_entries m (fold buffer_event es (new_buffer per_container all max_age))) (produced m es)"
proof (induction es rule: rev_induct)
  case Nil
  then show ?case by (simp add: stream_entries_def new_buffer_def produced_def)
next
  case (snoc e es)
  let ?b = "fold buffer_event es (new_buffer per_container all max_age)"
  have ok: "buffer_ok ?b" by (rule buffer_sink.taken_ok) (rule new_buffer_ok)
  have "bf_total ?b = all \<and> bf_per_container ?b = per_container"
  proof (induction es rule: rev_induct)
    case Nil
    then show ?case by (simp add: new_buffer_def)
  next
    case (snoc e es)
    then show ?case using event_limits by simp
  qed
  then have en: "buffer_enabled ?b" using assms by (simp add: buffer_enabled_def)
  have "suffix (stream_entries m ?b @ (if event_member e = m then event_entry e else []))
      (produced m es @ (if event_member e = m then event_entry e else []))"
    using snoc by (simp add: suffix_append)
  with event_suffix [OF ok en, of m e] show ?case
    by (auto simp: produced_def intro: suffix_order.trans)
qed

theorem buffer_keeps_a_contiguous_tail_witness:
  "suffix (stream_entries (member_at ''pg-1'' ''postgres'') (fold buffer_event [sample_line ''one'' 1, sample_line ''two'' 2] (new_buffer 60 100 hour)))
     (produced (member_at ''pg-1'' ''postgres'') [sample_line ''one'' 1, sample_line ''two'' 2])"
  by (rule buffer_keeps_a_contiguous_tail) simp_all

end
