(* ===== verification/LogMatcher.thy ===== *)
theory LogMatcher
  imports LogBuffer
begin

text \<open>
  The rules and the matcher of \<open>internal/logstream/logstream.go\<close>, and the follower of
  \<open>runner.go\<close> whose events feed it. \<open>json.Unmarshal\<close> of a line into an object is the parameter
  \<open>decode\<close>; \<open>None\<close> is its error, and the nil map. The follower's stream, its clock and its
  cancellation are the labels of a step relation.
\<close>

section \<open>Rules\<close>

record field_test =
  ft_path :: string
  ft_equals :: string
  ft_contains :: string

record log_rule =
  lr_id :: string
  lr_contains :: "string list"
  lr_except :: "string list"
  lr_fields :: "field_test list"
  lr_summary :: string

type_synonym 'n doc = "(string \<times> 'n json) list option"

definition test_valid :: "field_test \<Rightarrow> bool" where
  "test_valid t \<longleftrightarrow> (if ft_path t = '''' then False else (ft_equals t = '''') \<noteq> (ft_contains t = ''''))"

fun walk_field :: "'n json \<Rightarrow> string list \<Rightarrow> 'n json option" where
  "walk_field current [] = Some current"
| "walk_field current (seg # segs) =
     (case current of
        JObject object \<Rightarrow> (case mget object seg of None \<Rightarrow> None | Some v \<Rightarrow> walk_field v segs)
      | _ \<Rightarrow> None)"

definition field_value :: "'n doc \<Rightarrow> string \<Rightarrow> string option" where
  "field_value doc path =
     (case doc of
        None \<Rightarrow> None
      | Some object \<Rightarrow>
          if path = '''' then None
          else (case walk_field (JObject object) (split_on (CHR ''.'') path) of
                  Some (JString text) \<Rightarrow> Some text
                | _ \<Rightarrow> None))"

definition test_holds :: "field_test \<Rightarrow> 'n doc \<Rightarrow> bool" where
  "test_holds t doc \<longleftrightarrow>
     (if \<not> test_valid t then False
      else case field_value doc (ft_path t) of
        None \<Rightarrow> False
      | Some value \<Rightarrow>
          if ft_equals t \<noteq> '''' then value = ft_equals t else str_contains value (ft_contains t))"

definition rule_matches :: "log_rule \<Rightarrow> string \<Rightarrow> 'n doc \<Rightarrow> bool" where
  "rule_matches r text doc \<longleftrightarrow>
     (if lr_contains r = [] \<and> lr_fields r = [] then False
      else list_all (str_contains text) (lr_contains r) \<and>
           list_all (\<lambda>t. test_holds t doc) (lr_fields r) \<and>
           \<not> list_ex (str_contains text) (lr_except r))"

definition structured :: "log_rule list \<Rightarrow> bool" where
  "structured rules \<longleftrightarrow> list_ex (\<lambda>r. lr_fields r \<noteq> []) rules"

section \<open>The matcher\<close>

record log_observation =
  lo_rule :: string
  lo_summary :: string
  lo_pod :: string
  lo_container :: string
  lo_line :: string
  lo_first :: instant
  lo_last :: instant
  lo_count :: int

record unread_window =
  uw_pod :: string
  uw_container :: string
  uw_since :: instant
  uw_reason :: string

type_synonym observation_key = "string \<times> member"

record matcher =
  mt_rules :: "log_rule list"
  mt_decode :: bool
  mt_max_age :: duration
  mt_clocked :: bool
  mt_observed :: "(observation_key, log_observation) gomap"
  mt_unread :: "(member, unread_window) gomap"

definition max_observed_line :: nat where "max_observed_line = 2048"

definition new_matcher :: "log_rule list \<Rightarrow> duration \<Rightarrow> bool \<Rightarrow> matcher" where
  "new_matcher rules max_age clocked =
     \<lparr>mt_rules = rules, mt_decode = structured rules, mt_max_age = max_age, mt_clocked = clocked,
      mt_observed = [], mt_unread = []\<rparr>"

definition observation_key_of :: "log_rule \<Rightarrow> log_line \<Rightarrow> observation_key" where
  "observation_key_of r line = (lr_id r, member_at (ln_pod line) (ln_container line))"

definition first_observation :: "log_rule \<Rightarrow> log_line \<Rightarrow> log_observation" where
  "first_observation r line =
     \<lparr>lo_rule = lr_id r, lo_summary = lr_summary r, lo_pod = ln_pod line, lo_container = ln_container line,
      lo_line = (if length (ln_text line) > max_observed_line then take max_observed_line (ln_text line)
                 else ln_text line),
      lo_first = ln_at line, lo_last = ln_at line, lo_count = 1\<rparr>"

definition observe_rule :: "'n doc \<Rightarrow> log_line \<Rightarrow> log_rule \<Rightarrow> matcher \<Rightarrow> matcher" where
  "observe_rule doc line r m =
     (if \<not> rule_matches r (ln_text line) doc then m
      else
        let key = observation_key_of r line
        in m\<lparr>mt_observed := mput key
             (case mget (mt_observed m) key of
                Some existing \<Rightarrow> existing\<lparr>lo_count := lo_count existing + 1, lo_last := ln_at line\<rparr>
              | None \<Rightarrow> first_observation r line) (mt_observed m)\<rparr>)"

definition matcher_observe :: "(string \<Rightarrow> 'n doc) \<Rightarrow> log_line \<Rightarrow> matcher \<Rightarrow> matcher" where
  "matcher_observe decode line m =
     (let doc = (if mt_decode m then decode (ln_text line) else None)
      in fold (observe_rule doc line) (mt_rules m) m)"

definition matcher_attached :: "string \<Rightarrow> string \<Rightarrow> matcher \<Rightarrow> matcher" where
  "matcher_attached pod container m = m\<lparr>mt_unread := mdel (member_at pod container) (mt_unread m)\<rparr>"

definition matcher_detached :: "string \<Rightarrow> string \<Rightarrow> instant \<Rightarrow> string \<Rightarrow> matcher \<Rightarrow> matcher" where
  "matcher_detached pod container t reason m =
     (let key = member_at pod container;
          window = \<lparr>uw_pod = pod, uw_container = container, uw_since = t, uw_reason = reason\<rparr>;
          window1 = (case mget (mt_unread m) key of Some open \<Rightarrow> window\<lparr>uw_since := uw_since open\<rparr> | None \<Rightarrow> window)
      in m\<lparr>mt_unread := mput key window1 (mt_unread m)\<rparr>)"

definition matcher_dropped :: "string \<Rightarrow> string \<Rightarrow> matcher \<Rightarrow> matcher" where
  "matcher_dropped pod container m = m\<lparr>mt_unread := mdel (member_at pod container) (mt_unread m)\<rparr>"

fun matcher_event :: "(string \<Rightarrow> 'n doc) \<Rightarrow> sink_event \<Rightarrow> matcher \<Rightarrow> matcher" where
  "matcher_event decode (EvObserve line) m = matcher_observe decode line m"
| "matcher_event decode (EvGap pod container t reason) m = m"
| "matcher_event decode (EvAttached pod container t) m = matcher_attached pod container m"
| "matcher_event decode (EvDetached pod container t reason) m = matcher_detached pod container t reason m"
| "matcher_event decode (EvDropped pod container) m = matcher_dropped pod container m"

definition member_less :: "member \<Rightarrow> member \<Rightarrow> bool" where
  "member_less a b \<longleftrightarrow>
     (if me_pod a \<noteq> me_pod b then str_less (me_pod a) (me_pod b) else str_less (me_container a) (me_container b))"

definition unread_list :: "matcher \<Rightarrow> unread_window list" where
  "unread_list m =
     sort_by (\<lambda>a b. member_less (member_at (uw_pod a) (uw_container a)) (member_at (uw_pod b) (uw_container b)))
       (map snd (mt_unread m))"

definition observation_less :: "log_observation \<Rightarrow> log_observation \<Rightarrow> bool" where
  "observation_less a b \<longleftrightarrow>
     (if lo_rule a \<noteq> lo_rule b then str_less (lo_rule a) (lo_rule b)
      else if lo_pod a \<noteq> lo_pod b then str_less (lo_pod a) (lo_pod b)
      else str_less (lo_container a) (lo_container b))"

definition expire :: "instant \<Rightarrow> matcher \<Rightarrow> matcher" where
  "expire now m =
     (if mt_max_age m > 0 \<and> mt_clocked m then
        m\<lparr>mt_observed := filter (\<lambda>p. \<not> time_before (lo_last (snd p)) (now - mt_max_age m)) (mt_observed m)\<rparr>
      else m)"

definition matcher_observations :: "instant \<Rightarrow> matcher \<Rightarrow> log_observation list \<times> matcher" where
  "matcher_observations now m =
     (let m1 = expire now m in (sort_by observation_less (map snd (mt_observed m1)), m1))"

definition matcher_forget :: "string \<Rightarrow> matcher \<Rightarrow> matcher" where
  "matcher_forget pod m =
     m\<lparr>mt_observed := filter (\<lambda>p. me_pod (snd (fst p)) \<noteq> pod) (mt_observed m),
       mt_unread := filter (\<lambda>p. me_pod (fst p) \<noteq> pod) (mt_unread m)\<rparr>"

text \<open>\<open>Sinks\<close>: one stream fanned out to the matcher and the buffer, in order.\<close>

definition fan_out :: "(string \<Rightarrow> 'n doc) \<Rightarrow> sink_event \<Rightarrow> matcher \<times> buffer \<Rightarrow> matcher \<times> buffer" where
  "fan_out decode e s = (matcher_event decode e (fst s), buffer_event e (snd s))"

section \<open>The matcher as a sink\<close>

definition member_view :: "member \<Rightarrow> matcher \<Rightarrow> (string \<Rightarrow> log_observation option) \<times> unread_window option" where
  "member_view k m = (\<lambda>rid. mget (mt_observed m) (rid, k), mget (mt_unread m) k)"

lemma observe_rule_frame [simp]:
  "mt_rules (observe_rule doc line r m) = mt_rules m" "mt_decode (observe_rule doc line r m) = mt_decode m"
  "mt_unread (observe_rule doc line r m) = mt_unread m" "mt_max_age (observe_rule doc line r m) = mt_max_age m"
  "mt_clocked (observe_rule doc line r m) = mt_clocked m"
  by (simp_all add: observe_rule_def Let_def)

lemma observe_fold_frame [simp]:
  "mt_rules (fold (observe_rule doc line) rs m) = mt_rules m"
  "mt_decode (fold (observe_rule doc line) rs m) = mt_decode m"
  "mt_unread (fold (observe_rule doc line) rs m) = mt_unread m"
  by (induction rs arbitrary: m) simp_all

lemma event_frame [simp]:
  "mt_rules (matcher_event decode e m) = mt_rules m" "mt_decode (matcher_event decode e m) = mt_decode m"
  by (cases e; simp add: matcher_observe_def Let_def matcher_attached_def matcher_detached_def matcher_dropped_def)+

lemma observe_other:
  assumes "k \<noteq> member_at (ln_pod line) (ln_container line)"
  shows "mget (mt_observed (fold (observe_rule doc line) rs m)) (rid, k) = mget (mt_observed m) (rid, k)"
proof (induction rs arbitrary: m)
  case (Cons r rs)
  have "mget (mt_observed (observe_rule doc line r m)) (rid, k) = mget (mt_observed m) (rid, k)"
    using assms by (simp add: observe_rule_def observation_key_of_def Let_def)
  with Cons show ?case by simp
qed simp

lemmas matcher_transitions = matcher_attached_def matcher_detached_def matcher_dropped_def

lemma view_other:
  assumes "event_member e \<noteq> k"
  shows "member_view k (matcher_event decode e m) = member_view k m"
proof (cases e)
  case (EvObserve line)
  with assms have "k \<noteq> member_at (ln_pod line) (ln_container line)" by auto
  with EvObserve show ?thesis by (simp add: member_view_def matcher_observe_def Let_def observe_other)
qed (use assms in \<open>auto simp: member_view_def matcher_transitions Let_def\<close>)

interpretation matcher_sink: sink "matcher_event decode" "\<lambda>_. True" member_view "(=)" for decode
  by unfold_locales (auto simp: view_other)

interpretation both_sinks: sink "fan_out decode" "\<lambda>s. buffer_ok (snd s)"
    "\<lambda>k s. (member_view k (fst s), stream_entries k (snd s))" "\<lambda>v w. fst v = fst w \<and> suffix (snd w) (snd v)"
  for decode
  by unfold_locales
    (auto simp: fan_out_def view_other event_ok intro: suffix_order.trans buffer_sink.other_kept)

text \<open>What the matcher holds of a container is determined by that container's events alone.\<close>

lemma observe_own:
  assumes "\<forall>rid. mget (mt_observed m) (rid, k) = mget (mt_observed m') (rid, k)"
  shows "mget (mt_observed (fold (observe_rule doc line) rs m)) (rid, k) =
    mget (mt_observed (fold (observe_rule doc line) rs m')) (rid, k)"
  using assms
proof (induction rs arbitrary: m m')
  case (Cons r rs)
  have "\<forall>rid. mget (mt_observed (observe_rule doc line r m)) (rid, k) = mget (mt_observed (observe_rule doc line r m')) (rid, k)"
    using Cons.prems by (cases "k = member_at (ln_pod line) (ln_container line)")
      (auto simp: observe_rule_def observation_key_of_def Let_def)
  with Cons.IH show ?case by simp
qed simp

lemma member_view_eq:
  "member_view k m = member_view k m' \<longleftrightarrow>
   (\<forall>rid. mget (mt_observed m) (rid, k) = mget (mt_observed m') (rid, k)) \<and> mget (mt_unread m) k = mget (mt_unread m') k"
  by (simp add: member_view_def fun_eq_iff)

lemma view_of_event:
  assumes "member_view k m = member_view k m'" "mt_rules m = mt_rules m'" "mt_decode m = mt_decode m'"
  shows "member_view k (matcher_event decode e m) = member_view k (matcher_event decode e m')"
proof (cases e)
  case (EvObserve line)
  then show ?thesis
    using assms by (auto simp: member_view_eq matcher_observe_def Let_def intro: observe_own)
qed (use assms in \<open>auto simp: member_view_eq matcher_transitions Let_def\<close>)

lemma run_frame [simp]:
  "mt_rules (fold (matcher_event decode) es m) = mt_rules m"
  "mt_decode (fold (matcher_event decode) es m) = mt_decode m"
  by (induction es arbitrary: m) simp_all

lemma own_events:
  "member_view k (fold (matcher_event decode) es m) =
   member_view k (fold (matcher_event decode) (filter (\<lambda>e. event_member e = k) es) m)"
proof (induction es rule: rev_induct)
  case (snoc e es)
  then show ?case by (auto simp: view_other intro!: view_of_event)
qed simp


section \<open>What an observation accounts for\<close>

text \<open>The lines of a run that a rule matches on a container, as the matcher decodes them.\<close>

definition line_doc :: "(string \<Rightarrow> 'n doc) \<Rightarrow> log_rule list \<Rightarrow> log_line \<Rightarrow> 'n doc" where
  "line_doc decode rules line = (if structured rules then decode (ln_text line) else None)"

fun lines_of :: "sink_event list \<Rightarrow> log_line list" where
  "lines_of [] = []"
| "lines_of (EvObserve line # es) = line # lines_of es"
| "lines_of (e # es) = lines_of es"

definition matched_lines ::
    "(string \<Rightarrow> 'n doc) \<Rightarrow> log_rule list \<Rightarrow> log_rule \<Rightarrow> member \<Rightarrow> sink_event list \<Rightarrow> log_line list" where
  "matched_lines decode rules r k es =
     filter (\<lambda>line. member_at (ln_pod line) (ln_container line) = k \<and>
               rule_matches r (ln_text line) (line_doc decode rules line)) (lines_of es)"

text \<open>The account of a list of matching lines: the first of them bounded, the span, and how many.\<close>

definition account :: "log_rule \<Rightarrow> log_line list \<Rightarrow> log_observation option" where
  "account r ls =
     (case ls of
        [] \<Rightarrow> None
      | line # _ \<Rightarrow> Some ((first_observation r line)\<lparr>lo_last := ln_at (last ls), lo_count := int (length ls)\<rparr>))"

lemma lines_of_append [simp]: "lines_of (es @ fs) = lines_of es @ lines_of fs"
  by (induction es rule: lines_of.induct) auto

lemma account_snoc:
  "account r (ls @ [line]) =
     Some (case account r ls of
       Some existing \<Rightarrow> existing\<lparr>lo_count := lo_count existing + 1, lo_last := ln_at line\<rparr>
     | None \<Rightarrow> first_observation r line)"
  by (cases ls) (simp_all add: account_def first_observation_def)

lemma observe_absent:
  assumes "rid \<notin> lr_id ` set rs"
  shows "mget (mt_observed (fold (observe_rule doc line) rs m)) (rid, k) = mget (mt_observed m) (rid, k)"
  using assms
proof (induction rs arbitrary: m)
  case (Cons r rs)
  then have "mget (mt_observed (observe_rule doc line r m)) (rid, k) = mget (mt_observed m) (rid, k)"
    by (auto simp: observe_rule_def observation_key_of_def Let_def)
  with Cons show ?case by simp
qed simp

lemma observe_present:
  assumes "distinct (map lr_id rs)" "r \<in> set rs"
  shows "mget (mt_observed (fold (observe_rule doc line) rs m)) (lr_id r, k) =
    mget (mt_observed (observe_rule doc line r m)) (lr_id r, k)"
  using assms
proof (induction rs arbitrary: m)
  case (Cons q rs)
  show ?case
  proof (cases "q = r")
    case True
    with Cons.prems show ?thesis by (simp add: observe_absent)
  next
    case False
    with Cons.prems have in_rs: "r \<in> set rs" and ne: "lr_id q \<noteq> lr_id r" by force+
    have same: "mget (mt_observed (observe_rule doc line q m)) (lr_id r, k') = mget (mt_observed m) (lr_id r, k')" for k'
      using ne by (auto simp: observe_rule_def observation_key_of_def Let_def)
    have "mget (mt_observed (fold (observe_rule doc line) (q # rs) m)) (lr_id r, k) =
        mget (mt_observed (observe_rule doc line r (observe_rule doc line q m))) (lr_id r, k)"
      using Cons.IH [OF _ in_rs] Cons.prems by simp
    then show ?thesis
      by (cases "k = member_at (ln_pod line) (ln_container line)")
        (auto simp: same observe_rule_def [of doc line r] observation_key_of_def Let_def)
  qed
qed simp

lemma observed_account:
  assumes "distinct (map lr_id rules)" "r \<in> set rules"
  shows "mget (mt_observed (fold (matcher_event decode) es (new_matcher rules max_age clocked))) (lr_id r, k) =
    account r (matched_lines decode rules r k es)"
proof (induction es rule: rev_induct)
  case Nil
  then show ?case by (simp add: new_matcher_def matched_lines_def account_def)
next
  case (snoc e es)
  show ?case
  proof (cases e)
    case (EvObserve line)
    let ?m = "fold (matcher_event decode) es (new_matcher rules max_age clocked)"
    have "mt_rules ?m = rules" "mt_decode ?m = structured rules" by (simp_all add: new_matcher_def)
    then have "mget (mt_observed (matcher_observe decode line ?m)) (lr_id r, k) =
        mget (mt_observed (observe_rule (line_doc decode rules line) line r ?m)) (lr_id r, k)"
      by (simp add: matcher_observe_def line_doc_def Let_def observe_present [OF assms])
    with EvObserve snoc.IH show ?thesis
      by (auto simp: observe_rule_def observation_key_of_def Let_def matched_lines_def account_snoc)
  qed (use snoc.IH in \<open>simp_all add: matched_lines_def matcher_transitions Let_def\<close>)
qed

text \<open>With distinct rule identifiers, whatever the events of the containers and however they
interleave, the matcher holds for a rule and a container exactly the account of the lines of that
container the rule matched: the first of them, bounded to 2048 bytes, the times of the first and
of the last, and their number; and nothing at all where no line matched.\<close>

theorem observations_account_for_the_matches:
  assumes "distinct (map lr_id rules)" "r \<in> set rules"
  shows "mget (mt_observed (fold (matcher_event decode) es (new_matcher rules max_age clocked))) (lr_id r, k) =
    account r (matched_lines decode rules r k es)"
  by (rule observed_account [OF assms])

definition disk_rule :: log_rule where
  "disk_rule = \<lparr>lr_id = ''disk'', lr_contains = [''no free''], lr_except = [''test''], lr_fields = [], lr_summary = ''''\<rparr>"

definition disk_line :: "string \<Rightarrow> instant \<Rightarrow> sink_event" where
  "disk_line text t = EvObserve \<lparr>ln_pod = ''p'', ln_container = ''c'', ln_text = text, ln_at = t\<rparr>"

lemma observations_account_for_the_matches_witness:
  "mget (mt_observed (fold (matcher_event (\<lambda>_. None :: bool doc))
      [disk_line ''no free disk'' 1, disk_line ''test: no free'' 2, disk_line ''no free disk'' 5]
      (new_matcher [disk_rule] 0 True))) (''disk'', member_at ''p'' ''c'') =
   Some \<lparr>lo_rule = ''disk'', lo_summary = '''', lo_pod = ''p'', lo_container = ''c'', lo_line = ''no free disk'',
     lo_first = 1, lo_last = 5, lo_count = 2\<rparr>"
proof -
  have [simp]: "lr_id disk_rule = ''disk''" by (simp add: disk_rule_def)
  have "account disk_rule (matched_lines (\<lambda>_. None :: bool doc) [disk_rule] disk_rule (member_at ''p'' ''c'')
      [disk_line ''no free disk'' 1, disk_line ''test: no free'' 2, disk_line ''no free disk'' 5]) =
   Some \<lparr>lo_rule = ''disk'', lo_summary = '''', lo_pod = ''p'', lo_container = ''c'', lo_line = ''no free disk'',
     lo_first = 1, lo_last = 5, lo_count = 2\<rparr>"
    by code_simp
  then show ?thesis
    using observations_account_for_the_matches [of "[disk_rule]" disk_rule "\<lambda>_. None :: bool doc"
        "[disk_line ''no free disk'' 1, disk_line ''test: no free'' 2, disk_line ''no free disk'' 5]" 0 True
        "member_at ''p'' ''c''"]
    by simp
qed

text \<open>The memory of the matcher.\<close>

lemma observe_keys:
  assumes "set (mkeys (mt_observed m)) \<subseteq> K" "map_ok (mt_observed m)"
    "\<forall>r \<in> set rs. observation_key_of r line \<in> K"
  shows "set (mkeys (mt_observed (fold (observe_rule doc line) rs m))) \<subseteq> K \<and>
    map_ok (mt_observed (fold (observe_rule doc line) rs m))"
  using assms
proof (induction rs arbitrary: m)
  case (Cons r rs)
  have "set (mkeys (mt_observed (observe_rule doc line r m))) \<subseteq> K \<and> map_ok (mt_observed (observe_rule doc line r m))"
    using Cons.prems by (auto simp: observe_rule_def Let_def mkeys_mput)
  with Cons show ?case by simp
qed simp

lemma run_keys:
  "set (mkeys (mt_observed (fold (matcher_event decode) es (new_matcher rules max_age clocked)))) \<subseteq>
     lr_id ` set rules \<times> event_member ` set es \<and>
   map_ok (mt_observed (fold (matcher_event decode) es (new_matcher rules max_age clocked)))"
proof (induction es rule: rev_induct)
  case Nil
  then show ?case by (simp add: new_matcher_def mkeys_def)
next
  case (snoc e es)
  let ?m = "fold (matcher_event decode) es (new_matcher rules max_age clocked)"
  let ?K = "lr_id ` set rules \<times> event_member ` set (es @ [e])"
  from snoc have sub: "set (mkeys (mt_observed ?m)) \<subseteq> ?K" and ok: "map_ok (mt_observed ?m)" by auto
  show ?case
  proof (cases e)
    case (EvObserve line)
    have "\<forall>r \<in> set (mt_rules ?m). observation_key_of r line \<in> ?K"
      by (simp add: new_matcher_def EvObserve observation_key_of_def)
    note keys = observe_keys [OF sub ok this]
    from keys EvObserve show ?thesis
      by (cases "mt_decode ?m") (simp_all add: matcher_observe_def Let_def keys)
  qed (use sub ok in \<open>simp_all add: matcher_transitions Let_def\<close>)
qed

text \<open>The matcher's memory is bounded by the number of rules times the number of containers it
has heard of, however much is logged.\<close>

theorem matcher_memory_is_bounded:
  "length (mt_observed (fold (matcher_event decode) es (new_matcher rules max_age clocked))) \<le>
     length rules * card (event_member ` set es)"
proof -
  let ?m = "mt_observed (fold (matcher_event decode) es (new_matcher rules max_age clocked))"
  have "length ?m = card (set (mkeys ?m))"
    using run_keys [of decode es rules max_age clocked]
    by (metis distinct_card length_map map_ok_def mkeys_def)
  also have "\<dots> \<le> card (lr_id ` set rules \<times> event_member ` set es)"
    using run_keys [of decode es rules max_age clocked] by (intro card_mono) auto
  also have "\<dots> \<le> length rules * card (event_member ` set es)"
    by (simp add: card_cartesian_product) (meson card_image_le card_length finite_set le_trans)
  finally show ?thesis .
qed

end
