(* ===== verification/LogRunner.thy ===== *)
theory LogRunner
  imports LogMatcher
begin

text \<open>
  The runner of \<open>internal/logstream/runner.go\<close>: one follower per container, each a state machine
  whose steps are the effects of the goroutine \<open>follow\<close> (with \<open>readOnce\<close> inlined where it is
  called), and a reconciler that starts and cancels followers. The stream, the clock and the
  scheduler are the choices of the step relations: a step may be taken by any follower at any
  time, and a cancellation may fall between any two of its effects.
\<close>

section \<open>One follower\<close>

definition reconnect_min :: duration where "reconnect_min = 2 * second"
definition reconnect_max :: duration where "reconnect_max = 2 * minute"

definition not_attached_yet :: string where
  "not_attached_yet = ''the follower has not attached to this container's stream yet''"

definition not_opened :: string where
  "not_opened = ''stream could not be opened; nothing from this container was observed''"

definition interrupted :: string where
  "interrupted = ''stream interrupted; a line may have exceeded the read bound''"

definition stream_ended :: string where
  "stream_ended = ''stream ended; lines emitted before it was reopened were not observed''"

text \<open>Where the goroutine stands: the effect it takes next.\<close>

datatype phase =
    Started
  | LoopHead
  | Opening
  | Reading
  | Holding string
  | Ended string
  | Broken string
  | Gapped string
  | Waiting
  | Leaving
  | Gone

record follower =
  fo_member :: member
  fo_phase :: phase
  fo_backoff :: duration
  fo_cancelled :: bool

datatype act = Quiet | Emits sink_event | Waits duration

definition new_follower :: "member \<Rightarrow> follower" where
  "new_follower k = \<lparr>fo_member = k, fo_phase = Started, fo_backoff = reconnect_min, fo_cancelled = False\<rparr>"

definition next_backoff :: "duration \<Rightarrow> duration" where
  "next_backoff backoff = (if backoff * 2 > reconnect_max then reconnect_max else backoff * 2)"

inductive follower_step :: "follower \<Rightarrow> act \<Rightarrow> follower \<Rightarrow> bool" where
  starts: "fo_phase f = Started \<Longrightarrow>
    follower_step f (Emits (EvDetached (me_pod (fo_member f)) (me_container (fo_member f)) t not_attached_yet))
      (f\<lparr>fo_phase := LoopHead\<rparr>)"
| enters: "fo_phase f = LoopHead \<Longrightarrow> \<not> fo_cancelled f \<Longrightarrow> follower_step f Quiet (f\<lparr>fo_phase := Opening\<rparr>)"
| loop_done: "fo_phase f = LoopHead \<Longrightarrow> fo_cancelled f \<Longrightarrow> follower_step f Quiet (f\<lparr>fo_phase := Leaving\<rparr>)"
| open_fails: "fo_phase f = Opening \<Longrightarrow> follower_step f Quiet (f\<lparr>fo_phase := Ended not_opened\<rparr>)"
| opens: "fo_phase f = Opening \<Longrightarrow>
    follower_step f (Emits (EvAttached (me_pod (fo_member f)) (me_container (fo_member f)) t)) (f\<lparr>fo_phase := Reading\<rparr>)"
| scans: "fo_phase f = Reading \<Longrightarrow> \<not> fo_cancelled f \<Longrightarrow> follower_step f Quiet (f\<lparr>fo_phase := Holding text\<rparr>)"
| scan_stopped: "fo_phase f = Reading \<Longrightarrow> fo_cancelled f \<Longrightarrow>
    follower_step f Quiet (f\<lparr>fo_phase := Ended ''stream stopped''\<rparr>)"
| observes: "fo_phase f = Holding text \<Longrightarrow>
    follower_step f (Emits (EvObserve \<lparr>ln_pod = me_pod (fo_member f), ln_container = me_container (fo_member f),
        ln_text = text, ln_at = t\<rparr>)) (f\<lparr>fo_phase := Reading\<rparr>)"
| scan_fails: "fo_phase f = Reading \<Longrightarrow> follower_step f Quiet (f\<lparr>fo_phase := Ended interrupted\<rparr>)"
| scan_ends: "fo_phase f = Reading \<Longrightarrow> follower_step f Quiet (f\<lparr>fo_phase := Ended stream_ended\<rparr>)"
| returns: "fo_phase f = Ended reason \<Longrightarrow> fo_cancelled f \<Longrightarrow> follower_step f Quiet (f\<lparr>fo_phase := Leaving\<rparr>)"
| breaks: "fo_phase f = Ended reason \<Longrightarrow> \<not> fo_cancelled f \<Longrightarrow> follower_step f Quiet (f\<lparr>fo_phase := Broken reason\<rparr>)"
| gaps: "fo_phase f = Broken reason \<Longrightarrow>
    follower_step f (Emits (EvGap (me_pod (fo_member f)) (me_container (fo_member f)) t reason)) (f\<lparr>fo_phase := Gapped reason\<rparr>)"
| detaches: "fo_phase f = Gapped reason \<Longrightarrow>
    follower_step f (Emits (EvDetached (me_pod (fo_member f)) (me_container (fo_member f)) t reason)) (f\<lparr>fo_phase := Waiting\<rparr>)"
| waits: "fo_phase f = Waiting \<Longrightarrow>
    follower_step f (Waits (fo_backoff f)) (f\<lparr>fo_phase := LoopHead, fo_backoff := next_backoff (fo_backoff f)\<rparr>)"
| wait_stopped: "fo_phase f = Waiting \<Longrightarrow> fo_cancelled f \<Longrightarrow> follower_step f Quiet (f\<lparr>fo_phase := Leaving\<rparr>)"
| drops: "fo_phase f = Leaving \<Longrightarrow>
    follower_step f (Emits (EvDropped (me_pod (fo_member f)) (me_container (fo_member f)))) (f\<lparr>fo_phase := Gone\<rparr>)"

inductive_cases follower_stepE: "follower_step f a f'"
inductive_simps follower_step_iff: "follower_step f a f'"

lemma step_member: "follower_step f a f' \<Longrightarrow> fo_member f' = fo_member f"
  by (auto elim: follower_stepE)

lemma step_cancelled: "follower_step f a f' \<Longrightarrow> fo_cancelled f' = fo_cancelled f"
  by (auto elim: follower_stepE)

lemma member_at_eta [simp]: "member_at (me_pod k) (me_container k) = k"
  by (simp add: member_at_def)

lemma step_event_member: "follower_step f (Emits e) f' \<Longrightarrow> event_member e = fo_member f"
  by (auto elim: follower_stepE)

text \<open>A run of one follower with the environment free to cancel it between any two effects.\<close>

inductive follower_run :: "follower \<Rightarrow> act list \<Rightarrow> follower \<Rightarrow> bool" where
  run_stop: "follower_run f [] f"
| run_step: "follower_run f acts f' \<Longrightarrow> follower_step f' a f'' \<Longrightarrow> follower_run f (acts @ [a]) f''"
| run_cancel: "follower_run f acts f' \<Longrightarrow> follower_run f acts (f'\<lparr>fo_cancelled := True\<rparr>)"

subsection \<open>The waits between streams\<close>

fun waited :: "act list \<Rightarrow> duration list" where
  "waited [] = []"
| "waited (Waits d # acts) = d # waited acts"
| "waited (a # acts) = waited acts"

definition backoff_at :: "nat \<Rightarrow> duration" where
  "backoff_at n = min reconnect_max (reconnect_min * 2 ^ n)"

lemma waited_append [simp]: "waited (xs @ ys) = waited xs @ waited ys"
  by (induction xs rule: waited.induct) auto

lemma backoff_at_0: "backoff_at 0 = reconnect_min"
  by (simp add: backoff_at_def reconnect_min_def reconnect_max_def minute_def second_def)

lemma next_backoff_at: "next_backoff (backoff_at n) = backoff_at (Suc n)"
proof -
  have "0 < reconnect_min" by (simp add: reconnect_min_def)
  then show ?thesis by (auto simp: next_backoff_def backoff_at_def min_def reconnect_max_def minute_def second_def)
qed

lemma follower_waits:
  "follower_run f acts f' \<Longrightarrow> f = new_follower k \<Longrightarrow>
     waited acts = map backoff_at [0..<length (waited acts)] \<and> fo_backoff f' = backoff_at (length (waited acts))"
proof (induction rule: follower_run.induct)
  case (run_step f acts f' a f'')
  from run_step.hyps(2) show ?case
    using run_step.IH run_step.prems by (cases rule: follower_step.cases) (simp_all add: next_backoff_at)
qed (simp_all add: new_follower_def backoff_at_0)

text \<open>C39. The waits of a follower are the doubling backoff from two seconds up to two minutes, in
order, whatever the streams between them did: a stream that was read for hours does not bring the
backoff down again, so from the seventh wait on every reconnect waits two minutes.\<close>

theorem reconnects_back_off_for_good:
  assumes "follower_run (new_follower k) acts f" "i < length (waited acts)"
  shows "waited acts ! i = min reconnect_max (reconnect_min * 2 ^ i)"
proof -
  from follower_waits [OF assms(1) refl] have "waited acts ! i = map backoff_at [0..<length (waited acts)] ! i"
    by metis
  with assms(2) show ?thesis by (simp add: backoff_at_def)
qed

subsection \<open>A cancelled follower finishes\<close>

fun steps_left :: "phase \<Rightarrow> nat" where
  "steps_left Started = 3"
| "steps_left LoopHead = 2"
| "steps_left Opening = 4"
| "steps_left Reading = 3"
| "steps_left (Holding text) = 4"
| "steps_left (Ended reason) = 2"
| "steps_left (Broken reason) = 5"
| "steps_left (Gapped reason) = 4"
| "steps_left Waiting = 3"
| "steps_left Leaving = 1"
| "steps_left Gone = 0"

lemma cancelled_step: "follower_step f a f' \<Longrightarrow> fo_cancelled f \<Longrightarrow> steps_left (fo_phase f') < steps_left (fo_phase f)"
  by (auto elim!: follower_stepE)

lemma steps_left_le: "steps_left p \<le> 5"
  by (cases p) simp_all

lemma follower_progress: "fo_phase f \<noteq> Gone \<Longrightarrow> \<exists>a f'. follower_step f a f'"
proof (cases "fo_phase f")
  case LoopHead
  then show ?thesis by (cases "fo_cancelled f") (blast intro: follower_step.intros)+
next
  case (Ended reason)
  then show ?thesis by (cases "fo_cancelled f") (blast intro: follower_step.intros)+
qed (blast intro: follower_step.intros)+

lemma gone_is_final: "follower_step f a f' \<Longrightarrow> fo_phase f \<noteq> Gone"
  by (auto elim: follower_stepE)

lemma run_then: "follower_run g bs h \<Longrightarrow> follower_run f as g \<Longrightarrow> follower_run f (as @ bs) h"
  by (induction rule: follower_run.induct) (auto simp: append_assoc [symmetric] simp del: append_assoc intro: follower_run.intros)

lemma run_first:
  assumes "follower_step f b g" "b = a" "follower_run g as h"
  shows "follower_run f (a # as) h"
  using run_then [OF assms(3) run_step [OF run_stop assms(1)]] assms(2) by simp

lemma run_same: "f = g \<Longrightarrow> follower_run f [] g"
  by (simp add: run_stop)

text \<open>One turn of the loop: a stream that opens, delivers a line, and ends.\<close>

definition turn :: "member \<Rightarrow> string \<Rightarrow> instant \<Rightarrow> duration \<Rightarrow> act list" where
  "turn k text t d =
     [Quiet, Emits (EvAttached (me_pod k) (me_container k) t), Quiet,
      Emits (EvObserve \<lparr>ln_pod = me_pod k, ln_container = me_container k, ln_text = text, ln_at = t\<rparr>), Quiet, Quiet,
      Emits (EvGap (me_pod k) (me_container k) t stream_ended),
      Emits (EvDetached (me_pod k) (me_container k) t stream_ended), Waits d]"

lemma run_turn:
  assumes "fo_phase g = LoopHead" "\<not> fo_cancelled g" "fo_member g = k" "h = g\<lparr>fo_backoff := next_backoff (fo_backoff g)\<rparr>"
  shows "follower_run g (turn k text t (fo_backoff g)) h"
  unfolding turn_def
  by (rule run_first, rule enters, (simp add: assms)+,
      rule run_first, rule opens [of _ t], (simp add: assms)+,
      rule run_first, rule scans [of _ "text"], (simp add: assms)+,
      rule run_first, rule observes [of _ "text" t], (simp add: assms)+,
      rule run_first, rule scan_ends, (simp add: assms)+,
      rule run_first, rule breaks [of _ stream_ended], (simp add: assms)+,
      rule run_first, rule gaps [of _ stream_ended t], (simp add: assms)+,
      rule run_first, rule detaches [of _ stream_ended t], (simp add: assms)+,
      rule run_first, rule waits, (simp add: assms)+,
      rule run_same, simp add: assms)

lemma reconnects_back_off_for_good_witness:
  "\<exists>acts f. follower_run (new_follower (member_at ''p'' ''c'')) acts f \<and>
     length (waited acts) = 2 \<and> waited acts ! 1 = 4 * second"
proof -
  let ?k = "member_at ''p'' ''c''"
  let ?f = "(new_follower ?k)\<lparr>fo_phase := LoopHead\<rparr>"
  let ?d = "[Emits (EvDetached ''p'' ''c'' 0 not_attached_yet)]"
  let ?acts = "?d @ turn ?k ''a'' 1 (2 * second) @ turn ?k ''b'' 9 (4 * second)"
  have start: "follower_run (new_follower ?k) ?d ?f"
    by (rule run_first, rule starts [of _ 0])
      (simp_all add: new_follower_def member_at_def run_same)
  have one: "follower_run ?f (turn ?k ''a'' 1 (2 * second)) (?f\<lparr>fo_backoff := 4 * second\<rparr>)"
    using run_turn [of ?f ?k _ "''a''" 1]
    by (simp add: new_follower_def reconnect_min_def next_backoff_def reconnect_max_def minute_def second_def)
  have two: "follower_run (?f\<lparr>fo_backoff := 4 * second\<rparr>) (turn ?k ''b'' 9 (4 * second)) (?f\<lparr>fo_backoff := 8 * second\<rparr>)"
    using run_turn [of "?f\<lparr>fo_backoff := 4 * second\<rparr>" ?k _ "''b''" 9]
    by (simp add: new_follower_def reconnect_min_def next_backoff_def reconnect_max_def minute_def second_def)
  have run: "follower_run (new_follower ?k) ?acts (?f\<lparr>fo_backoff := 8 * second\<rparr>)"
    by (rule run_then [OF run_then [OF two one] start])
  have two_waits: "length (waited ?acts) = 2" by (simp add: turn_def)
  have "waited ?acts ! 1 = min reconnect_max (reconnect_min * 2 ^ 1)"
    by (rule reconnects_back_off_for_good [OF run], unfold two_waits, simp)
  then have "waited ?acts ! 1 = 4 * second"
    by (simp add: reconnect_min_def reconnect_max_def minute_def second_def)
  with run two_waits show ?thesis by blast
qed

section \<open>The runner\<close>

text \<open>
  \<open>running\<close> maps a member to its current follower; the followers that were ever started keep
  their place in the list, so a follower still winding down is there beside its successor.
\<close>

record 's runner =
  rn_followers :: "follower list"
  rn_running :: "(member, nat) gomap"
  rn_stopped :: bool
  rn_sink :: 's

definition new_runner :: "'s \<Rightarrow> 's runner" where
  "new_runner s = \<lparr>rn_followers = [], rn_running = [], rn_stopped = False, rn_sink = s\<rparr>"

definition cancel_follower :: "nat \<Rightarrow> follower list \<Rightarrow> follower list" where
  "cancel_follower i fs = (if i < length fs then fs[i := (fs ! i)\<lparr>fo_cancelled := True\<rparr>] else fs)"

definition stop_unwanted :: "member list \<Rightarrow> 's runner \<Rightarrow> 's runner" where
  "stop_unwanted wanted r =
     r\<lparr>rn_followers := fold (\<lambda>p. if fst p \<in> set wanted then id else cancel_follower (snd p)) (rn_running r) (rn_followers r),
       rn_running := filter (\<lambda>p. fst p \<in> set wanted) (rn_running r)\<rparr>"

definition start_wanted :: "member \<Rightarrow> 's runner \<Rightarrow> 's runner" where
  "start_wanted k r =
     (case mget (rn_running r) k of
        Some i \<Rightarrow> r
      | None \<Rightarrow> r\<lparr>rn_running := mput k (length (rn_followers r)) (rn_running r),
                  rn_followers := rn_followers r @ [new_follower k]\<rparr>)"

definition reconcile :: "member list \<Rightarrow> 's runner \<Rightarrow> 's runner" where
  "reconcile members r = fold start_wanted (remdups members) (stop_unwanted members r)"

text \<open>The end of \<open>Run\<close>. \<open>stopAll\<close> itself cancels the followers of \<open>r.running\<close>; it runs only after the context
  of \<open>Run\<close> is done, which every follower's context derives from, the ones replaced or removed earlier
  included. The step merges the two: from here on every follower sees its context done.\<close>

definition stop_all :: "'s runner \<Rightarrow> 's runner" where
  "stop_all r =
     r\<lparr>rn_followers := map (\<lambda>f. f\<lparr>fo_cancelled := True\<rparr>) (rn_followers r), rn_running := [], rn_stopped := True\<rparr>"

text \<open>\<open>stopAll\<close> waits for every follower: \<open>Run\<close> has returned in these states only.\<close>

definition run_returned :: "'s runner \<Rightarrow> bool" where
  "run_returned r \<longleftrightarrow> rn_stopped r \<and> list_all (\<lambda>f. fo_phase f = Gone) (rn_followers r)"

fun deliver :: "(sink_event \<Rightarrow> 's \<Rightarrow> 's) \<Rightarrow> act \<Rightarrow> 's \<Rightarrow> 's" where
  "deliver take_event (Emits e) s = take_event e s"
| "deliver take_event a s = s"

inductive runner_step :: "(sink_event \<Rightarrow> 's \<Rightarrow> 's) \<Rightarrow> 's runner \<Rightarrow> 's runner \<Rightarrow> bool" for take_event where
  follows: "i < length (rn_followers r) \<Longrightarrow> follower_step (rn_followers r ! i) a f \<Longrightarrow>
    runner_step take_event r (r\<lparr>rn_followers := (rn_followers r)[i := f], rn_sink := deliver take_event a (rn_sink r)\<rparr>)"
| reconciles: "\<not> rn_stopped r \<Longrightarrow> runner_step take_event r (reconcile members r)"
| stops: "\<not> rn_stopped r \<Longrightarrow> runner_step take_event r (stop_all r)"

inductive_cases runner_stepE: "runner_step take_event r r'"

subsection \<open>One uncancelled follower per container\<close>

definition runner_ok :: "'s runner \<Rightarrow> bool" where
  "runner_ok r \<longleftrightarrow>
     map_ok (rn_running r) \<and>
     (\<forall>k i. mget (rn_running r) k = Some i \<longrightarrow>
        i < length (rn_followers r) \<and> fo_member (rn_followers r ! i) = k \<and> \<not> fo_cancelled (rn_followers r ! i)) \<and>
     (\<forall>i < length (rn_followers r). \<not> fo_cancelled (rn_followers r ! i) \<longrightarrow>
        mget (rn_running r) (fo_member (rn_followers r ! i)) = Some i)"

lemma cancel_follower_simps [simp]:
  "length (cancel_follower i fs) = length fs"
  "j < length fs \<Longrightarrow> cancel_follower i fs ! j = (if j = i then (fs ! j)\<lparr>fo_cancelled := True\<rparr> else fs ! j)"
  by (auto simp: cancel_follower_def nth_list_update)

definition cancel_rest :: "member list \<Rightarrow> (member \<times> nat) list \<Rightarrow> follower list \<Rightarrow> follower list" where
  "cancel_rest wanted rs fs = fold (\<lambda>p. if fst p \<in> set wanted then id else cancel_follower (snd p)) rs fs"

lemma length_cancel_rest [simp]: "length (cancel_rest wanted rs fs) = length fs"
  unfolding cancel_rest_def by (induction rs arbitrary: fs) simp_all

lemma cancel_rest_nth:
  "j < length fs \<Longrightarrow> cancel_rest wanted rs fs ! j =
     (if \<exists>k. (k, j) \<in> set rs \<and> k \<notin> set wanted then (fs ! j)\<lparr>fo_cancelled := True\<rparr> else fs ! j)"
proof (induction rs arbitrary: fs)
  case (Cons p rs)
  show ?case
  proof (cases "fst p \<in> set wanted")
    case True
    then have "cancel_rest wanted (p # rs) fs = cancel_rest wanted rs fs" by (simp add: cancel_rest_def)
    with Cons True show ?thesis by (cases p) auto
  next
    case False
    then have "cancel_rest wanted (p # rs) fs = cancel_rest wanted rs (cancel_follower (snd p) fs)"
      by (simp add: cancel_rest_def)
    with Cons False show ?thesis by (cases p) auto
  qed
qed (simp add: cancel_rest_def)

lemma stop_unwanted_simps [simp]:
  "rn_followers (stop_unwanted wanted r) = cancel_rest wanted (rn_running r) (rn_followers r)"
  "rn_stopped (stop_unwanted wanted r) = rn_stopped r" "rn_sink (stop_unwanted wanted r) = rn_sink r"
  by (simp_all add: stop_unwanted_def cancel_rest_def)

lemma mget_filter_keys: "mget (filter (\<lambda>p. fst p \<in> K) m) k = (if k \<in> K then mget m k else None)"
  by (induction m) (auto simp: mget_def)

lemma running_stop_unwanted:
  "mget (rn_running (stop_unwanted wanted r)) k = (if k \<in> set wanted then mget (rn_running r) k else None)"
  by (simp add: stop_unwanted_def mget_filter_keys)

lemma runner_ok_stop_unwanted:
  assumes "runner_ok r"
  shows "runner_ok (stop_unwanted wanted r)"
proof -
  have map: "map_ok (rn_running (stop_unwanted wanted r))"
    using assms by (simp add: runner_ok_def stop_unwanted_def map_ok_def distinct_map_filter)
  have keep: "cancel_rest wanted (rn_running r) (rn_followers r) ! i = rn_followers r ! i"
    if "mget (rn_running r) k = Some i" "k \<in> set wanted" for i k
  proof -
    have "k' = k" if "(k', i) \<in> set (rn_running r)" for k'
      using assms \<open>mget (rn_running r) k = Some i\<close> mget_of_set [OF _ that] unfolding runner_ok_def by metis
    with that assms show ?thesis by (subst cancel_rest_nth) (auto simp: runner_ok_def)
  qed
  have gone: "fo_member (rn_followers r ! i) \<in> set wanted \<and> \<not> fo_cancelled (rn_followers r ! i)"
    if "i < length (rn_followers r)" "\<not> fo_cancelled (cancel_rest wanted (rn_running r) (rn_followers r) ! i)" for i
    using assms that mget_in_set [of "rn_running r"]
    by (auto simp: cancel_rest_nth runner_ok_def split: if_splits)
  have member: "fo_member (cancel_rest wanted (rn_running r) (rn_followers r) ! i) = fo_member (rn_followers r ! i)"
    if "i < length (rn_followers r)" for i
    using that by (simp add: cancel_rest_nth)
  show ?thesis
    unfolding runner_ok_def
  proof (intro conjI allI impI map)
    fix k i
    assume "mget (rn_running (stop_unwanted wanted r)) k = Some i"
    then have "mget (rn_running r) k = Some i" "k \<in> set wanted"
      by (simp_all add: running_stop_unwanted split: if_splits)
    with keep assms show "i < length (rn_followers (stop_unwanted wanted r))"
      "fo_member (rn_followers (stop_unwanted wanted r) ! i) = k"
      "\<not> fo_cancelled (rn_followers (stop_unwanted wanted r) ! i)"
      by (simp_all add: runner_ok_def)
  next
    fix i
    assume "i < length (rn_followers (stop_unwanted wanted r))"
      and "\<not> fo_cancelled (rn_followers (stop_unwanted wanted r) ! i)"
    with gone member assms
    show "mget (rn_running (stop_unwanted wanted r)) (fo_member (rn_followers (stop_unwanted wanted r) ! i)) = Some i"
      by (simp add: running_stop_unwanted runner_ok_def)
  qed
qed

lemma runner_ok_start_wanted: "runner_ok r \<Longrightarrow> runner_ok (start_wanted k r)"
proof (cases "mget (rn_running r) k")
  case None
  assume ok: "runner_ok r"
  let ?fs = "rn_followers r @ [new_follower k]" and ?run = "mput k (length (rn_followers r)) (rn_running r)"
  have "i < length ?fs \<and> fo_member (?fs ! i) = k' \<and> \<not> fo_cancelled (?fs ! i)" if "mget ?run k' = Some i" for k' i
  proof (cases "k' = k")
    case False
    with that ok have "i < length (rn_followers r) \<and> fo_member (rn_followers r ! i) = k' \<and> \<not> fo_cancelled (rn_followers r ! i)"
      by (simp add: runner_ok_def)
    then show ?thesis by (simp add: nth_append)
  qed (use that in \<open>simp add: new_follower_def nth_append\<close>)
  moreover have "mget ?run (fo_member (?fs ! i)) = Some i" if "i < length ?fs" "\<not> fo_cancelled (?fs ! i)" for i
  proof (cases "i = length (rn_followers r)")
    case False
    with that have i: "i < length (rn_followers r)" by simp
    with that have "\<not> fo_cancelled (rn_followers r ! i)" by (simp add: nth_append)
    with i ok have "mget (rn_running r) (fo_member (rn_followers r ! i)) = Some i" by (simp add: runner_ok_def)
    moreover from this None have "fo_member (rn_followers r ! i) \<noteq> k" by auto
    ultimately show ?thesis using i by (simp add: nth_append)
  qed (simp add: new_follower_def)
  ultimately show ?thesis using None ok unfolding runner_ok_def start_wanted_def by simp
qed (simp add: start_wanted_def)

lemma runner_ok_start_all: "runner_ok r \<Longrightarrow> runner_ok (fold start_wanted ks r)"
  by (induction ks arbitrary: r) (simp_all add: runner_ok_start_wanted)

lemma runner_ok_reconcile: "runner_ok r \<Longrightarrow> runner_ok (reconcile members r)"
  by (simp add: reconcile_def runner_ok_stop_unwanted runner_ok_start_all)

lemma running_start_wanted:
  "mget (rn_running (fold start_wanted ks r)) k =
     (case mget (rn_running r) k of Some i \<Rightarrow> Some i
      | None \<Rightarrow> if k \<in> set ks then mget (rn_running (fold start_wanted ks r)) k else None)"
  "k \<in> set ks \<Longrightarrow> mget (rn_running (fold start_wanted ks r)) k \<noteq> None"
proof -
  have keep: "mget (rn_running r) k = Some i \<Longrightarrow> mget (rn_running (start_wanted k' r)) k = Some i" for k k' i and r :: "'a runner"
    by (auto simp: start_wanted_def split: option.split)
  have keeps: "mget (rn_running r) k = Some i \<Longrightarrow> mget (rn_running (fold start_wanted ks r)) k = Some i" for k i ks and r :: "'a runner"
    by (induction ks arbitrary: r) (simp_all add: keep)
  have none: "mget (rn_running r) k = None \<Longrightarrow> k \<notin> set ks \<Longrightarrow> mget (rn_running (fold start_wanted ks r)) k = None" for ks and r :: "'a runner"
  proof (induction ks arbitrary: r)
    case (Cons k' ks)
    have "mget (rn_running (start_wanted k' r)) k = None"
      using Cons.prems by (auto simp: start_wanted_def split: option.split)
    with Cons show ?case by simp
  qed simp
  show "k \<in> set ks \<Longrightarrow> mget (rn_running (fold start_wanted ks r)) k \<noteq> None"
  proof (induction ks arbitrary: r)
    case (Cons k' ks)
    show ?case
    proof (cases "k = k'")
      case True
      then have "\<exists>i. mget (rn_running (start_wanted k' r)) k = Some i"
        by (auto simp: start_wanted_def split: option.split)
      then obtain i where "mget (rn_running (start_wanted k' r)) k = Some i" by blast
      then show ?thesis by (simp add: keeps)
    qed (use Cons in simp)
  qed simp
  show "mget (rn_running (fold start_wanted ks r)) k =
     (case mget (rn_running r) k of Some i \<Rightarrow> Some i
      | None \<Rightarrow> if k \<in> set ks then mget (rn_running (fold start_wanted ks r)) k else None)"
    using keeps none by (auto split: option.split)
qed

lemma running_reconcile:
  "mget (rn_running (reconcile members r)) k \<noteq> None \<longleftrightarrow> k \<in> set members"
  "k \<in> set members \<Longrightarrow> mget (rn_running r) k = Some i \<Longrightarrow> mget (rn_running (reconcile members r)) k = Some i"
  using running_start_wanted(1) [of "remdups members" "stop_unwanted members r" k]
    running_start_wanted(2) [of k "remdups members" "stop_unwanted members r"]
  by (auto simp: reconcile_def running_stop_unwanted split: option.splits if_splits)

lemma runner_ok_stop_all: "runner_ok (stop_all r)"
  by (simp add: runner_ok_def stop_all_def)

lemma runner_ok_follows:
  assumes "runner_ok r" "i < length (rn_followers r)" "follower_step (rn_followers r ! i) a f"
  shows "runner_ok (r\<lparr>rn_followers := (rn_followers r)[i := f], rn_sink := s\<rparr>)"
  using assms step_member [OF assms(3)] step_cancelled [OF assms(3)]
  unfolding runner_ok_def by (auto simp: nth_list_update)

lemma runner_ok_step: "runner_step take_event r r' \<Longrightarrow> runner_ok r \<Longrightarrow> runner_ok r'"
  by (auto elim!: runner_stepE simp: runner_ok_follows runner_ok_reconcile runner_ok_stop_all)

lemma runner_ok_run: "(runner_step take_event)\<^sup>*\<^sup>* (new_runner s) r \<Longrightarrow> runner_ok r"
  by (induction rule: rtranclp_induct) (simp_all add: runner_ok_step, simp add: runner_ok_def new_runner_def)

text \<open>Whatever the runner has been through, a reconcile leaves exactly one uncancelled follower
for each member the source names and none for any other, and a follower that was already running
for a named member keeps its place.\<close>

theorem reconcile_follows_exactly_the_members:
  assumes "(runner_step take_event)\<^sup>*\<^sup>* (new_runner s) r"
  shows "(k \<in> set members \<longleftrightarrow> (\<exists>!i. i < length (rn_followers (reconcile members r)) \<and>
      \<not> fo_cancelled (rn_followers (reconcile members r) ! i) \<and> fo_member (rn_followers (reconcile members r) ! i) = k)) \<and>
    (\<forall>i. k \<in> set members \<and> mget (rn_running r) k = Some i \<longrightarrow> mget (rn_running (reconcile members r)) k = Some i)"
proof -
  let ?r = "reconcile members r"
  have ok: "runner_ok ?r" by (rule runner_ok_reconcile [OF runner_ok_run [OF assms]])
  have "mget (rn_running ?r) k = Some i \<longleftrightarrow>
      i < length (rn_followers ?r) \<and> \<not> fo_cancelled (rn_followers ?r ! i) \<and> fo_member (rn_followers ?r ! i) = k" for i
    using ok unfolding runner_ok_def by blast
  then have "(\<exists>!i. i < length (rn_followers ?r) \<and> \<not> fo_cancelled (rn_followers ?r ! i) \<and> fo_member (rn_followers ?r ! i) = k)
      \<longleftrightarrow> (\<exists>!i. mget (rn_running ?r) k = Some i)"
    by metis
  also have "\<dots> \<longleftrightarrow> mget (rn_running ?r) k \<noteq> None" by auto
  also have "\<dots> \<longleftrightarrow> k \<in> set members" by (rule running_reconcile(1))
  finally show ?thesis using running_reconcile(2) by blast
qed

definition one_member :: "member" where "one_member = member_at ''p'' ''c''"

lemma reconcile_follows_exactly_the_members_witness:
  "one_member \<in> set [one_member] \<and> (\<exists>!i. i < length (rn_followers (reconcile [one_member] (new_runner (0::nat)))) \<and>
      \<not> fo_cancelled (rn_followers (reconcile [one_member] (new_runner (0::nat))) ! i) \<and>
      fo_member (rn_followers (reconcile [one_member] (new_runner (0::nat))) ! i) = one_member)"
  using reconcile_follows_exactly_the_members [of "\<lambda>_ s. s" "0::nat" "new_runner 0" one_member "[one_member]"] by simp

subsection \<open>Stopping\<close>

definition work_left :: "follower list \<Rightarrow> nat" where
  "work_left fs = sum_list (map (\<lambda>f. steps_left (fo_phase f)) fs)"

lemma work_left_update:
  "i < length fs \<Longrightarrow> steps_left (fo_phase f) < steps_left (fo_phase (fs ! i)) \<Longrightarrow> work_left (fs[i := f]) < work_left fs"
proof (induction fs arbitrary: i)
  case (Cons g fs)
  then show ?case by (cases i) (auto simp: work_left_def)
qed simp

lemma stopped_step:
  assumes "runner_step take_event r r'" "rn_stopped r" "list_all fo_cancelled (rn_followers r)"
  shows "rn_stopped r' \<and> list_all fo_cancelled (rn_followers r') \<and> length (rn_followers r') = length (rn_followers r) \<and>
    work_left (rn_followers r') < work_left (rn_followers r)"
  using assms(1)
proof (cases rule: runner_step.cases)
  case (follows i a f)
  with assms(3) have "fo_cancelled (rn_followers r ! i)" by (simp add: list_all_length)
  with follows have "fo_cancelled f" "steps_left (fo_phase f) < steps_left (fo_phase (rn_followers r ! i))"
    by (simp_all add: step_cancelled cancelled_step)
  with follows assms(2,3) show ?thesis
    by (simp add: list_all_length nth_list_update work_left_update)
qed (use assms(2) in simp_all)

lemma work_left_bound: "work_left fs \<le> 5 * length fs"
  by (induction fs) (auto simp: work_left_def intro: order_trans [OF add_mono [OF steps_left_le]])

lemma stop_bounded:
  assumes "(runner_step take_event ^^ n) r r'" "rn_stopped r" "list_all fo_cancelled (rn_followers r)"
  shows "rn_stopped r' \<and> n + work_left (rn_followers r') \<le> work_left (rn_followers r)"
proof -
  have "rn_stopped r' \<and> list_all fo_cancelled (rn_followers r') \<and> n + work_left (rn_followers r') \<le> work_left (rn_followers r)"
    using assms(1)
  proof (induction n arbitrary: r')
    case 0
    then show ?case using assms(2,3) by simp
  next
    case (Suc n)
    then obtain q where "(runner_step take_event ^^ n) r q" and step: "runner_step take_event q r'" by auto
    with Suc.IH have "rn_stopped q" "list_all fo_cancelled (rn_followers q)"
      "n + work_left (rn_followers q) \<le> work_left (rn_followers r)" by auto
    with stopped_step [OF step] show ?case by simp
  qed
  then show ?thesis by simp
qed

lemma stopped_progress:
  assumes "rn_stopped r" "\<not> run_returned r"
  shows "\<exists>r'. runner_step take_event r r'"
proof -
  from assms obtain i where i: "i < length (rn_followers r)" and "fo_phase (rn_followers r ! i) \<noteq> Gone"
    by (auto simp: run_returned_def list_all_length)
  then obtain a f where "follower_step (rn_followers r ! i) a f" using follower_progress by blast
  from follows [OF i this] show ?thesis by blast
qed

text \<open>C38. \<open>stopAll\<close> returns: once every follower is cancelled the runner can take at most five steps
for each follower that was ever started, however they interleave, and it comes to rest only where
every follower has finished and \<open>Run\<close> can return.\<close>

theorem stopping_always_finishes:
  assumes "(runner_step take_event ^^ n) (stop_all r) r'"
  shows "n \<le> 5 * length (rn_followers r) \<and> ((\<nexists>r''. runner_step take_event r' r'') \<longrightarrow> run_returned r')"
proof -
  have "rn_stopped (stop_all r)" "list_all fo_cancelled (rn_followers (stop_all r))"
    by (simp_all add: stop_all_def list_all_iff)
  from stop_bounded [OF assms this] have "rn_stopped r'" "n \<le> work_left (rn_followers (stop_all r))" by auto
  moreover have "work_left (rn_followers (stop_all r)) \<le> 5 * length (rn_followers r)"
    using work_left_bound [of "rn_followers (stop_all r)"] by (simp add: stop_all_def)
  ultimately show ?thesis using stopped_progress by fastforce
qed

lemma stopping_always_finishes_witness:
  "\<exists>r'. (runner_step (\<lambda>_ s. s) ^^ 1)
      (stop_all ((new_runner (0::nat))\<lparr>rn_followers := [(new_follower one_member)\<lparr>fo_phase := Leaving\<rparr>]\<rparr>)) r' \<and>
    run_returned r'"
proof -
  let ?f = "(new_follower one_member)\<lparr>fo_phase := Leaving\<rparr>"
  let ?r = "(new_runner (0::nat))\<lparr>rn_followers := [?f]\<rparr>"
  let ?r' = "(stop_all ?r)\<lparr>rn_followers := [?f\<lparr>fo_phase := Gone, fo_cancelled := True\<rparr>]\<rparr>"
  have "follower_step (?f\<lparr>fo_cancelled := True\<rparr>) (Emits (EvDropped ''p'' ''c'')) (?f\<lparr>fo_phase := Gone, fo_cancelled := True\<rparr>)"
    using drops [of "?f\<lparr>fo_cancelled := True\<rparr>"] by (simp add: new_follower_def one_member_def member_at_def)
  then have "runner_step (\<lambda>_ s. s) (stop_all ?r)
      ((stop_all ?r)\<lparr>rn_followers := (rn_followers (stop_all ?r))[0 := ?f\<lparr>fo_phase := Gone, fo_cancelled := True\<rparr>],
        rn_sink := deliver (\<lambda>_ s. s) (Emits (EvDropped ''p'' ''c'')) (rn_sink (stop_all ?r))\<rparr>)"
    by (intro follows) (simp_all add: stop_all_def)
  then have "runner_step (\<lambda>_ s. s) (stop_all ?r) ?r'" by (simp add: stop_all_def)
  then have run: "(runner_step (\<lambda>_ s. s) ^^ 1) (stop_all ?r) ?r'" by (metis relpowp_1)
  have "\<nexists>r''. runner_step (\<lambda>_ s. s) ?r' r''"
    by (auto elim!: runner_stepE dest!: gone_is_final simp: stop_all_def)
  with stopping_always_finishes [OF run] run show ?thesis by blast
qed

section \<open>Coverage\<close>

text \<open>
  \<open>Unread\<close> is asked before a check may report that it looked and found nothing. What it must say
  of a container follows from where that container's follower stands. In \<open>Started\<close> the follower
  has not yet said that it is not attached; in \<open>Ended\<close>, \<open>Broken\<close> and \<open>Gapped\<close> the stream has ended
  (or, with the reason \<open>not_opened\<close>, never opened) and the follower has not yet said so; a follower
  that is \<open>Leaving\<close> comes from any of these and is about to drop what it reported.
\<close>

fun window_fits :: "phase \<Rightarrow> 'w option \<Rightarrow> bool" where
  "window_fits Reading w \<longleftrightarrow> w = None"
| "window_fits (Holding text) w \<longleftrightarrow> w = None"
| "window_fits LoopHead w \<longleftrightarrow> w \<noteq> None"
| "window_fits Opening w \<longleftrightarrow> w \<noteq> None"
| "window_fits Waiting w \<longleftrightarrow> w \<noteq> None"
| "window_fits Started w \<longleftrightarrow> w = None"
| "window_fits Gone w \<longleftrightarrow> w = None"
| "window_fits (Ended reason) w \<longleftrightarrow> (w \<noteq> None \<longleftrightarrow> reason = not_opened)"
| "window_fits (Broken reason) w \<longleftrightarrow> (w \<noteq> None \<longleftrightarrow> reason = not_opened)"
| "window_fits (Gapped reason) w \<longleftrightarrow> (w \<noteq> None \<longleftrightarrow> reason = not_opened)"
| "window_fits Leaving w \<longleftrightarrow> True"

text \<open>No container has two followers that have not finished.\<close>

definition settled :: "follower list \<Rightarrow> bool" where
  "settled fs \<longleftrightarrow> (\<forall>i < length fs. \<forall>j < length fs. i \<noteq> j \<and> fo_member (fs ! i) = fo_member (fs ! j) \<longrightarrow>
     fo_phase (fs ! i) = Gone \<or> fo_phase (fs ! j) = Gone)"

definition settled_step :: "(sink_event \<Rightarrow> 's \<Rightarrow> 's) \<Rightarrow> 's runner \<Rightarrow> 's runner \<Rightarrow> bool" where
  "settled_step take_event r r' \<longleftrightarrow> runner_step take_event r r' \<and> settled (rn_followers r')"

definition unread_of :: "(matcher \<times> buffer) runner \<Rightarrow> member \<Rightarrow> unread_window option" where
  "unread_of r k = mget (mt_unread (fst (rn_sink r))) k"

definition covered :: "(matcher \<times> buffer) runner \<Rightarrow> bool" where
  "covered r \<longleftrightarrow>
     (\<forall>i < length (rn_followers r). fo_phase (rn_followers r ! i) \<noteq> Gone \<longrightarrow>
        window_fits (fo_phase (rn_followers r ! i)) (unread_of r (fo_member (rn_followers r ! i)))) \<and>
     (\<forall>k. (\<forall>i < length (rn_followers r). fo_member (rn_followers r ! i) = k \<longrightarrow> fo_phase (rn_followers r ! i) = Gone) \<longrightarrow>
        unread_of r k = None)"

lemma deliver_other:
  assumes "follower_step f a f'" "k \<noteq> fo_member f"
  shows "mget (mt_unread (fst (deliver (fan_out decode) a s))) k = mget (mt_unread (fst s)) k"
proof (cases a)
  case (Emits e)
  with assms have "event_member e \<noteq> k" by (auto dest: step_event_member)
  with Emits view_other [of e k decode "fst s"] show ?thesis by (simp add: fan_out_def member_view_eq)
qed simp_all

lemma deliver_own:
  assumes "follower_step f a f'" "window_fits (fo_phase f) (mget (mt_unread (fst s)) (fo_member f))"
  shows "window_fits (fo_phase f') (mget (mt_unread (fst (deliver (fan_out decode) a s))) (fo_member f))"
  using assms by (cases rule: follower_step.cases)
    (simp_all add: fan_out_def matcher_transitions matcher_observe_def Let_def not_opened_def interrupted_def stream_ended_def)

lemma covered_same_phases:
  assumes "covered r" "length fs = length (rn_followers r)" "rn_sink r' = rn_sink r" "rn_followers r' = fs"
    "\<forall>i < length fs. fo_phase (fs ! i) = fo_phase (rn_followers r ! i) \<and> fo_member (fs ! i) = fo_member (rn_followers r ! i)"
  shows "covered r'"
  using assms by (simp add: covered_def unread_of_def)

lemma covered_follows:
  assumes cov: "covered r" and settled: "settled (rn_followers r)"
    and i: "i < length (rn_followers r)" and step: "follower_step (rn_followers r ! i) a f"
  shows "covered (r\<lparr>rn_followers := (rn_followers r)[i := f], rn_sink := deliver (fan_out decode) a (rn_sink r)\<rparr>)" (is "covered ?r")
proof -
  let ?f = "rn_followers r ! i"
  have live: "fo_phase ?f \<noteq> Gone" by (rule gone_is_final [OF step])
  have own: "window_fits (fo_phase f) (unread_of ?r (fo_member ?f))"
    by (simp add: unread_of_def, rule deliver_own [OF step]) (use cov i live in \<open>simp add: covered_def unread_of_def\<close>)
  have other: "unread_of ?r k = unread_of r k" if "k \<noteq> fo_member ?f" for k
    using deliver_other [OF step that] by (simp add: unread_of_def)
  have twin: "fo_phase (rn_followers r ! j) = Gone"
    if "j < length (rn_followers r)" "j \<noteq> i" "fo_member (rn_followers r ! j) = fo_member ?f" for j
    using settled i live that unfolding settled_def by metis
  show ?thesis
    unfolding covered_def
  proof (intro conjI allI impI)
    fix j
    assume j: "j < length (rn_followers ?r)" "fo_phase (rn_followers ?r ! j) \<noteq> Gone"
    show "window_fits (fo_phase (rn_followers ?r ! j)) (unread_of ?r (fo_member (rn_followers ?r ! j)))"
    proof (cases "j = i")
      case True
      with own i step_member [OF step] show ?thesis by simp
    next
      case False
      with j twin have "fo_member (rn_followers r ! j) \<noteq> fo_member ?f" by auto
      with False j cov other show ?thesis by (simp add: covered_def)
    qed
  next
    fix k
    assume gone: "\<forall>j < length (rn_followers ?r). fo_member (rn_followers ?r ! j) = k \<longrightarrow> fo_phase (rn_followers ?r ! j) = Gone"
    show "unread_of ?r k = None"
    proof (cases "k = fo_member ?f")
      case True
      with gone i step_member [OF step] have "fo_phase f = Gone" by auto
      with own True show ?thesis by simp
    next
      case False
      have "fo_phase (rn_followers r ! j) = Gone" if "j < length (rn_followers r)" "fo_member (rn_followers r ! j) = k" for j
        using gone that False by (cases "j = i") auto
      with cov False other show ?thesis by (simp add: covered_def)
    qed
  qed
qed

lemma start_wanted_shape:
  "\<exists>ks'. rn_followers (fold start_wanted ks r) = rn_followers r @ map new_follower ks'"
proof (induction ks arbitrary: r)
  case (Cons k ks)
  have "\<exists>ks'. rn_followers (start_wanted k r) = rn_followers r @ map new_follower ks'"
    by (cases "mget (rn_running r) k") (auto simp: start_wanted_def intro: exI [of _ "[]"] exI [of _ "[k]"])
  with Cons.IH [of "start_wanted k r"] show ?case by (metis (no_types) append.assoc fold_simps(2) map_append)
qed (simp add: exI [of _ "[]"])

lemma start_wanted_sink: "rn_sink (fold start_wanted ks r) = rn_sink r"
  by (induction ks arbitrary: r) (simp_all add: start_wanted_def split: option.split)

lemma covered_extend:
  assumes cov: "covered q" and fs: "rn_followers r = rn_followers q @ map new_follower ks" "rn_sink r = rn_sink q"
    and settled: "settled (rn_followers r)"
  shows "covered r"
proof -
  let ?n = "length (rn_followers q)"
  have old: "rn_followers r ! j = rn_followers q ! j" if "j < ?n" for j
    using that fs by (simp add: nth_append)
  have unread: "unread_of r k = unread_of q k" for k using fs by (simp add: unread_of_def)
  show ?thesis
    unfolding covered_def
  proof (intro conjI allI impI)
    fix i
    assume i: "i < length (rn_followers r)" "fo_phase (rn_followers r ! i) \<noteq> Gone"
    show "window_fits (fo_phase (rn_followers r ! i)) (unread_of r (fo_member (rn_followers r ! i)))"
    proof (cases "i < ?n")
      case True
      with cov i old show ?thesis by (simp add: covered_def unread)
    next
      case False
      with i fs have new: "fo_phase (rn_followers r ! i) = Started"
        by (auto simp: nth_append new_follower_def)
      have "fo_phase (rn_followers q ! j) = Gone"
        if "j < ?n" "fo_member (rn_followers q ! j) = fo_member (rn_followers r ! i)" for j
        using settled i that old [of j] False fs(1) unfolding settled_def
        by (metis length_append not_less_iff_gr_or_eq trans_less_add1)
      with cov have "unread_of q (fo_member (rn_followers r ! i)) = None" unfolding covered_def by blast
      with new unread show ?thesis by simp
    qed
  next
    fix k
    assume gone: "\<forall>i < length (rn_followers r). fo_member (rn_followers r ! i) = k \<longrightarrow> fo_phase (rn_followers r ! i) = Gone"
    have "fo_phase (rn_followers q ! j) = Gone" if "j < ?n" "fo_member (rn_followers q ! j) = k" for j
      using gone that old [of j] fs(1) by (metis length_append trans_less_add1)
    with cov have "unread_of q k = None" unfolding covered_def by blast
    with unread show "unread_of r k = None" by simp
  qed
qed

lemma covered_step:
  assumes "covered r" "settled (rn_followers r)" "settled_step (fan_out decode) r r'"
  shows "covered r'"
proof -
  from assms(3) have step: "runner_step (fan_out decode) r r'" and settled: "settled (rn_followers r')"
    by (simp_all add: settled_step_def)
  from step show ?thesis
  proof (cases rule: runner_step.cases)
    case (follows i a f)
    with covered_follows [OF assms(1,2)] show ?thesis by simp
  next
    case (reconciles members)
    obtain ks where shape: "rn_followers r' = rn_followers (stop_unwanted members r) @ map new_follower ks"
      using start_wanted_shape [of "remdups members" "stop_unwanted members r"] reconciles by (auto simp: reconcile_def)
    have "covered (stop_unwanted members r)"
      by (rule covered_same_phases [OF assms(1) length_cancel_rest [of members "rn_running r"]]) (simp_all add: cancel_rest_nth)
    then show ?thesis
      by (rule covered_extend [OF _ shape _ settled]) (simp add: reconciles reconcile_def start_wanted_sink)
  next
    case stops
    show ?thesis
      by (rule covered_same_phases [OF assms(1), where fs = "rn_followers (stop_all r)"]) (simp_all add: stops stop_all_def)
  qed
qed

lemma covered_run:
  assumes "(settled_step (fan_out decode))\<^sup>*\<^sup>* (new_runner (new_matcher rules max_age clocked, b)) r"
  shows "covered r \<and> settled (rn_followers r)"
  using assms
proof (induction rule: rtranclp_induct)
  case base
  then show ?case by (simp add: covered_def settled_def new_runner_def new_matcher_def unread_of_def)
next
  case (step q r)
  then have "settled (rn_followers r)" by (simp add: settled_step_def)
  with step covered_step show ?case by blast
qed

text \<open>C37. As long as a container's follower has finished before its next one is started, the
coverage the matcher reports follows the stream under every interleaving of followers, reconciles and
cancellations. A container whose stream is being read has no blind window; one whose follower is
about to open a stream, opens it or waits to try again has one; one that is no longer followed has none.
The two moments at which a container that is not read has no window are also exact: before a new
follower's first effect, although the comment on the follower says the container counts as unread from
the moment it is worth following, and between the end of a stream that was open and the follower's
report of it, two effects later. A stream that could not be opened has its window throughout. Of a
follower on its way out, whose container has left the roster or whose process is ending, nothing is
claimed.\<close>

theorem coverage_follows_the_stream:
  assumes "(settled_step (fan_out decode))\<^sup>*\<^sup>* (new_runner (new_matcher rules max_age clocked, b)) r"
  shows "(\<forall>i < length (rn_followers r). fo_phase (rn_followers r ! i) \<noteq> Gone \<longrightarrow>
        window_fits (fo_phase (rn_followers r ! i)) (mget (mt_unread (fst (rn_sink r))) (fo_member (rn_followers r ! i)))) \<and>
    ((\<forall>i < length (rn_followers r). fo_member (rn_followers r ! i) = k \<longrightarrow> fo_phase (rn_followers r ! i) = Gone) \<longrightarrow>
        mget (mt_unread (fst (rn_sink r))) k = None)"
  using covered_run [OF assms] unfolding covered_def unread_of_def by blast

definition quiet_matcher :: "matcher \<times> buffer" where
  "quiet_matcher = (new_matcher [] 0 False, new_buffer 0 0 0)"

lemma coverage_follows_the_stream_witness:
  "mget (mt_unread (fst (rn_sink (reconcile [one_member] (new_runner quiet_matcher))))) one_member = None"
proof -
  have "settled (rn_followers (reconcile [one_member] (new_runner quiet_matcher)))"
    by (simp add: reconcile_def new_runner_def settled_def cancel_rest_def stop_unwanted_def start_wanted_def)
  then have "(settled_step (fan_out (\<lambda>_. None :: bool doc)))\<^sup>*\<^sup>* (new_runner quiet_matcher)
      (reconcile [one_member] (new_runner quiet_matcher))"
    by (intro r_into_rtranclp) (simp add: settled_step_def runner_step.reconciles new_runner_def)
  from coverage_follows_the_stream [OF this [unfolded quiet_matcher_def], of one_member] show ?thesis
    by (simp add: quiet_matcher_def reconcile_def new_runner_def stop_unwanted_def start_wanted_def new_follower_def)
qed

definition runner_at :: "follower list \<Rightarrow> (member, nat) gomap \<Rightarrow> 's \<Rightarrow> 's runner" where
  "runner_at fs run s = \<lparr>rn_followers = fs, rn_running = run, rn_stopped = False, rn_sink = s\<rparr>"

lemma runner_at_follows:
  "i < length fs \<Longrightarrow> follower_step (fs ! i) a f \<Longrightarrow>
   runner_step take_event (runner_at fs run s) (runner_at (fs[i := f]) run (deliver take_event a s))"
  using runner_step.follows [of i "runner_at fs run s" a f take_event] by (simp add: runner_at_def)

lemma runner_at_reconciles:
  "reconcile members (runner_at fs run s) = r \<Longrightarrow> runner_step take_event (runner_at fs run s) r"
  using runner_step.reconciles [of "runner_at fs run s" take_event members] by (auto simp: runner_at_def)

text \<open>The condition is needed: when a container leaves the roster and returns while its first
follower is still winding down, the \<open>Dropped\<close> of the first follower erases the window of the
second, and a container no stream is open for is reported as read.\<close>

theorem late_drop_hides_a_blind_container:
  "\<exists>r. (runner_step (fan_out (\<lambda>_. None :: bool doc)))\<^sup>*\<^sup>* (new_runner quiet_matcher) r \<and>
     mget (rn_running r) one_member = Some 1 \<and> rn_followers r ! 1 = (new_follower one_member)\<lparr>fo_phase := LoopHead\<rparr> \<and>
     mget (mt_unread (fst (rn_sink r))) one_member = None"
proof -
  let ?T = "fan_out (\<lambda>_. None :: bool doc)"
  let ?n = "new_follower one_member"
  let ?e = "EvDetached ''p'' ''c'' 0 not_attached_yet"
  let ?s1 = "?T ?e quiet_matcher"
  let ?s2 = "?T ?e ?s1"
  let ?s3 = "?T (EvDropped ''p'' ''c'') ?s2"
  let ?c = "?n\<lparr>fo_phase := LoopHead, fo_cancelled := True\<rparr>"
  have starts: "follower_step ?n (Emits ?e) (?n\<lparr>fo_phase := LoopHead\<rparr>)"
    using follower_step.starts [of ?n 0] by (simp add: new_follower_def one_member_def member_at_def)
  have leaves: "follower_step ?c Quiet (?c\<lparr>fo_phase := Leaving\<rparr>)"
    by (rule loop_done) simp_all
  have drops: "follower_step (?c\<lparr>fo_phase := Leaving\<rparr>) (Emits (EvDropped ''p'' ''c'')) (?c\<lparr>fo_phase := Gone\<rparr>)"
    using follower_step.drops [of "?c\<lparr>fo_phase := Leaving\<rparr>"]
    by (simp add: new_follower_def one_member_def member_at_def)
  note reconciled = reconcile_def stop_unwanted_def start_wanted_def cancel_follower_def mput_def runner_at_def
  have 1: "runner_step ?T (runner_at [] [] quiet_matcher) (runner_at [?n] [(one_member, 0)] quiet_matcher)"
    by (rule runner_at_reconciles [of "[one_member]"]) (simp add: reconciled)
  have 2: "runner_step ?T (runner_at [?n] [(one_member, 0)] quiet_matcher)
      (runner_at [?n\<lparr>fo_phase := LoopHead\<rparr>] [(one_member, 0)] ?s1)"
    using runner_at_follows [of 0 "[?n]" "Emits ?e" "?n\<lparr>fo_phase := LoopHead\<rparr>" ?T "[(one_member, 0)]" quiet_matcher] starts
    by simp
  have 3: "runner_step ?T (runner_at [?n\<lparr>fo_phase := LoopHead\<rparr>] [(one_member, 0)] ?s1) (runner_at [?c] [] ?s1)"
    by (rule runner_at_reconciles [of "[]"]) (simp add: reconciled)
  have 4: "runner_step ?T (runner_at [?c] [] ?s1) (runner_at [?c\<lparr>fo_phase := Leaving\<rparr>] [] ?s1)"
    using runner_at_follows [of 0 "[?c]" Quiet "?c\<lparr>fo_phase := Leaving\<rparr>" ?T "[]" ?s1] leaves by simp
  have 5: "runner_step ?T (runner_at [?c\<lparr>fo_phase := Leaving\<rparr>] [] ?s1)
      (runner_at [?c\<lparr>fo_phase := Leaving\<rparr>, ?n] [(one_member, 1)] ?s1)"
    by (rule runner_at_reconciles [of "[one_member]"]) (simp add: reconciled)
  have 6: "runner_step ?T (runner_at [?c\<lparr>fo_phase := Leaving\<rparr>, ?n] [(one_member, 1)] ?s1)
      (runner_at [?c\<lparr>fo_phase := Leaving\<rparr>, ?n\<lparr>fo_phase := LoopHead\<rparr>] [(one_member, 1)] ?s2)"
    using runner_at_follows [of 1 "[?c\<lparr>fo_phase := Leaving\<rparr>, ?n]" "Emits ?e" "?n\<lparr>fo_phase := LoopHead\<rparr>" ?T "[(one_member, 1)]" ?s1] starts
    by simp
  have 7: "runner_step ?T (runner_at [?c\<lparr>fo_phase := Leaving\<rparr>, ?n\<lparr>fo_phase := LoopHead\<rparr>] [(one_member, 1)] ?s2)
      (runner_at [?c\<lparr>fo_phase := Gone\<rparr>, ?n\<lparr>fo_phase := LoopHead\<rparr>] [(one_member, 1)] ?s3)"
    using runner_at_follows [of 0 "[?c\<lparr>fo_phase := Leaving\<rparr>, ?n\<lparr>fo_phase := LoopHead\<rparr>]" "Emits (EvDropped ''p'' ''c'')"
        "?c\<lparr>fo_phase := Gone\<rparr>" ?T "[(one_member, 1)]" ?s2] drops
    by simp
  have start: "new_runner quiet_matcher = runner_at [] [] quiet_matcher" by (simp add: new_runner_def runner_at_def)
  have "mget (mt_unread (fst ?s3)) one_member = None"
    by (simp add: fan_out_def matcher_transitions one_member_def)
  moreover have "(runner_step ?T)\<^sup>*\<^sup>* (new_runner quiet_matcher)
      (runner_at [?c\<lparr>fo_phase := Gone\<rparr>, ?n\<lparr>fo_phase := LoopHead\<rparr>] [(one_member, 1)] ?s3)"
    unfolding start using 1 2 3 4 5 6 7 by (meson converse_rtranclp_into_rtranclp rtranclp.rtrancl_refl)
  ultimately show ?thesis
    by (intro exI [of _ "runner_at [?c\<lparr>fo_phase := Gone\<rparr>, ?n\<lparr>fo_phase := LoopHead\<rparr>] [(one_member, 1)] ?s3"])
      (simp add: runner_at_def mget_def)
qed

end
