(* ===== verification/GoDuration.thy ===== *)
theory GoDuration
  imports Prelude
begin

text \<open>
  What \<open>internal/config\<close> uses of the standard library: \<open>time.ParseDuration\<close>,
  \<open>Duration.String\<close> and \<open>net.SplitHostPort\<close>.
\<close>

section \<open>Positive doubles\<close>

text \<open>
  A positive IEEE double as a fraction, rounded to the nearest with ties to even. The values met
  here lie well inside the range of normal doubles.
\<close>

type_synonym ratio = "nat \<times> nat"

fun bit_length :: "nat \<Rightarrow> nat" where
  "bit_length n = (if n = 0 then 0 else Suc (bit_length (n div 2)))"

declare bit_length.simps [simp del]

definition round_even :: "nat \<Rightarrow> nat \<Rightarrow> nat" where
  "round_even a b =
     (let q = a div b; r = a mod b
      in if 2 * r < b \<or> 2 * r = b \<and> even q then q else q + 1)"

definition shift_ratio :: "ratio \<Rightarrow> int \<Rightarrow> ratio" where
  "shift_ratio x k = (if 0 \<le> k then (fst x * 2 ^ nat k, snd x) else (fst x, snd x * 2 ^ nat (- k)))"

definition to_double :: "ratio \<Rightarrow> ratio" where
  "to_double x =
     (if fst x = 0 then (0, 1)
      else
        let e0 = 52 - (int (bit_length (fst x)) - int (bit_length (snd x)));
            y0 = shift_ratio x e0;
            e = (if fst y0 < 2 ^ 52 * snd y0 then e0 + 1 else e0);
            y = shift_ratio x e
        in shift_ratio (round_even (fst y) (snd y), 1) (- e))"

definition double_mul :: "ratio \<Rightarrow> ratio \<Rightarrow> ratio" where
  "double_mul x y = to_double (fst x * fst y, snd x * snd y)"

definition double_div :: "ratio \<Rightarrow> ratio \<Rightarrow> ratio" where
  "double_div x y = to_double (fst x * snd y, snd x * fst y)"

definition truncate_double :: "ratio \<Rightarrow> nat" where
  "truncate_double x = fst x div snd x"

section \<open>\<open>time.ParseDuration\<close>\<close>

definition two63 :: nat where "two63 = 2 ^ 63"

definition is_digit :: "char \<Rightarrow> bool" where "is_digit c \<longleftrightarrow> digit_of c \<noteq> None"

text \<open>\<open>leadingInt\<close>: \<open>None\<close> is the overflow error.\<close>

fun leading_int :: "nat \<Rightarrow> string \<Rightarrow> (nat \<times> string) option" where
  "leading_int x [] = Some (x, [])"
| "leading_int x (c # cs) =
     (case digit_of c of
        None \<Rightarrow> Some (x, c # cs)
      | Some d \<Rightarrow>
          if x > two63 div 10 then None
          else if x * 10 + d > two63 then None
          else leading_int (x * 10 + d) cs)"

text \<open>\<open>leadingFraction\<close>: the digits, the power of ten they are over, and the rest. Digits past the
first that would overflow are dropped.\<close>

fun leading_fraction :: "nat \<Rightarrow> nat \<Rightarrow> bool \<Rightarrow> string \<Rightarrow> nat \<times> nat \<times> string" where
  "leading_fraction x scale over [] = (x, scale, [])"
| "leading_fraction x scale over (c # cs) =
     (case digit_of c of
        None \<Rightarrow> (x, scale, c # cs)
      | Some d \<Rightarrow>
          if over then leading_fraction x scale True cs
          else if x > (two63 - 1) div 10 then leading_fraction x scale True cs
          else if x * 10 + d > two63 then leading_fraction x scale True cs
          else leading_fraction (x * 10 + d) (scale * 10) False cs)"

definition unit_map :: "(string \<times> nat) list" where
  "unit_map =
     [(''ns'', 1), (''us'', 1000), ([CHR 0xC2, CHR 0xB5, CHR ''s''], 1000), ([CHR 0xCE, CHR 0xBC, CHR ''s''], 1000),
      (''ms'', 1000000), (''s'', 1000000000), (''m'', 60000000000), (''h'', 3600000000000)]"

definition unit_char :: "char \<Rightarrow> bool" where
  "unit_char c \<longleftrightarrow> c \<noteq> CHR ''.'' \<and> \<not> is_digit c"

text \<open>One component of the duration, as the value to add and the rest of the string.\<close>

definition parse_component :: "string \<Rightarrow> (nat \<times> string) option" where
  "parse_component s =
     (case s of
        [] \<Rightarrow> None
      | c # _ \<Rightarrow>
          if \<not> (c = CHR ''.'' \<or> is_digit c) then None
          else case leading_int 0 s of
            None \<Rightarrow> None
          | Some (v, s1) \<Rightarrow>
              let pre = length s1 \<noteq> length s;
                  (f, scale, post, s2) =
                    (case s1 of
                       [] \<Rightarrow> (0, 1, False, s1)
                     | p # s1' \<Rightarrow>
                         if p = CHR ''.'' then
                           (let (f, scale, r) = leading_fraction 0 1 False s1' in (f, scale, length r \<noteq> length s1', r))
                         else (0, 1, False, s1))
              in if \<not> pre \<and> \<not> post then None
                 else
                   let u = takeWhile unit_char s2; s3 = dropWhile unit_char s2
                   in if u = [] then None
                      else case map_of unit_map u of
                        None \<Rightarrow> None
                      | Some unit \<Rightarrow>
                          if v > two63 div unit then None
                          else
                            let v1 = v * unit;
                                v2 = (if f > 0 then
                                        v1 + truncate_double (double_mul (to_double (f, 1))
                                               (double_div (to_double (unit, 1)) (to_double (scale, 1))))
                                      else v1)
                            in if f > 0 \<and> v2 > two63 then None else Some (v2, s3))"

lemma leading_int_shorter: "leading_int x s = Some (v, r) \<Longrightarrow> length r \<le> length s"
  by (induction x s rule: leading_int.induct) (auto split: option.splits if_splits)

lemma leading_fraction_shorter: "leading_fraction x scale over s = (f, sc, r) \<Longrightarrow> length r \<le> length s"
  by (induction x scale over s rule: leading_fraction.induct) (auto split: option.splits if_splits)

lemma dropWhile_shorter [simp]: "length xs < n \<Longrightarrow> length (dropWhile P xs) < n"
  by (induction xs) auto

lemma parse_component_shorter:
  assumes "parse_component s = Some (v, r)"
  shows "length r < length s"
proof -
  have drop: "length (dropWhile unit_char xs) < length xs" if "takeWhile unit_char xs \<noteq> []" for xs
  proof -
    have "length xs = length (takeWhile unit_char xs) + length (dropWhile unit_char xs)"
      by (metis length_append takeWhile_dropWhile_id)
    with that show ?thesis by simp
  qed
  from assms show ?thesis
    by (auto simp: parse_component_def Let_def split: list.splits if_splits option.splits prod.splits
        dest!: leading_int_shorter leading_fraction_shorter drop)
qed

text \<open>The loop over the components; the accumulated value is checked against \<open>1 << 63\<close> each time.\<close>

function parse_components :: "nat \<Rightarrow> string \<Rightarrow> nat option" where
  "parse_components d s =
     (if s = [] then Some d
      else case parse_component s of
        None \<Rightarrow> None
      | Some (v, r) \<Rightarrow> if d + v > two63 then None else parse_components (d + v) r)"
  by auto
termination
  by (relation "measure (\<lambda>(d, s). length s)") (auto dest: parse_component_shorter)

declare parse_components.simps [simp del]

definition parse_duration :: "string \<Rightarrow> duration option" where
  "parse_duration s =
     (let (neg, body) =
        (case s of [] \<Rightarrow> (False, [])
         | c # cs \<Rightarrow> if c = CHR ''-'' then (True, cs) else if c = CHR ''+'' then (False, cs) else (False, s))
      in if body = ''0'' then Some 0
         else if body = [] then None
         else case parse_components 0 body of
           None \<Rightarrow> None
         | Some d \<Rightarrow> if neg then Some (- int d) else if d > two63 - 1 then None else Some (int d))"

section \<open>\<open>Duration.String\<close>\<close>

text \<open>\<open>fmtFrac\<close>: the fraction of \<open>v\<close> over a power of ten, without trailing zeros and without the
point when there is none.\<close>

fun frac_digits :: "nat \<Rightarrow> nat \<Rightarrow> string" where
  "frac_digits 0 v = []"
| "frac_digits (Suc n) v = digit_char (v div 10 ^ n mod 10) # frac_digits n v"

definition fmt_frac :: "nat \<Rightarrow> nat \<Rightarrow> string" where
  "fmt_frac prec v =
     (let ds = rev (dropWhile (\<lambda>c. c = CHR ''0'') (rev (frac_digits prec v)))
      in if ds = [] then [] else CHR ''.'' # ds)"

definition duration_string :: "duration \<Rightarrow> string" where
  "duration_string d =
     (let u = nat \<bar>d\<bar>;
          sign = (if d < 0 then ''-'' else [])
      in if u < 1000000000 then
           (if u = 0 then ''0s''
            else if u < 1000 then sign @ nat_digits u @ ''ns''
            else if u < 1000000 then sign @ nat_digits (u div 1000) @ fmt_frac 3 u @ [CHR 0xC2, CHR 0xB5] @ ''s''
            else sign @ nat_digits (u div 1000000) @ fmt_frac 6 u @ ''ms'')
         else
           let secs = u div 1000000000;
               mins = secs div 60;
               hours = mins div 60
           in sign @ (if mins > 0 then (if hours > 0 then nat_digits hours @ ''h'' else []) @ nat_digits (mins mod 60) @ ''m'' else []) @
              nat_digits (secs mod 60) @ fmt_frac 9 u @ ''s'')"

section \<open>\<open>net.SplitHostPort\<close>\<close>

definition last_index :: "string \<Rightarrow> char \<Rightarrow> nat option" where
  "last_index s c = map_option (\<lambda>i. length s - 1 - i) (index_byte (rev s) c)"

definition split_host_port :: "string \<Rightarrow> (string \<times> string) option" where
  "split_host_port hostport =
     (case last_index hostport (CHR '':'') of
        None \<Rightarrow> None
      | Some i \<Rightarrow>
          let bracketed =
            (if hd hostport = CHR ''['' then
               (case index_byte hostport (CHR '']'') of
                  None \<Rightarrow> None
                | Some end_at \<Rightarrow> if end_at + 1 = i then Some (take (end_at - 1) (drop 1 hostport), 1, end_at + 1) else None)
             else
               let host = take i hostport
               in if index_byte host (CHR '':'') \<noteq> None then None else Some (host, 0, 0))
          in case bracketed of
               None \<Rightarrow> None
             | Some (host, j, k) \<Rightarrow>
                 if index_byte (drop j hostport) (CHR ''['') \<noteq> None then None
                 else if index_byte (drop k hostport) (CHR '']'') \<noteq> None then None
                 else Some (host, drop (i + 1) hostport))"

end
