(* ===== verification/Config.thy ===== *)
theory Config
  imports GoDuration
begin

text \<open>
  The configuration contract, \<open>internal/config/config.go\<close>: every variable read through
  \<open>lookup\<close>, checked, and joined into one error or one configuration. \<open>url.Parse\<close> is the parameter
  \<open>parse_url\<close>: what the code reads of its result is the scheme, the host and whether there is user
  information. Strings are bytes; the ranges over runes of the code look for ASCII characters
  only, which are the same bytes, except \<open>unicode.IsControl\<close>, whose two-byte controls are written out.
\<close>

section \<open>Names, bounds and defaults\<close>

definition EnvClusterName :: string where "EnvClusterName = ''CLUSTER_NAME''"
definition EnvNamespace :: string where "EnvNamespace = ''NAMESPACE''"
definition EnvListenAddr :: string where "EnvListenAddr = ''LISTEN_ADDR''"
definition EnvTrustedUserHeader :: string where "EnvTrustedUserHeader = ''TRUSTED_USER_HEADER''"
definition EnvTrustedLevelHeader :: string where "EnvTrustedLevelHeader = ''TRUSTED_LEVEL_HEADER''"
definition EnvAllowOperations :: string where "EnvAllowOperations = ''ALLOW_OPERATIONS''"
definition EnvAllowClusterCatalogs :: string where "EnvAllowClusterCatalogs = ''ALLOW_CLUSTER_CATALOGS''"
definition EnvAllowAccessReview :: string where "EnvAllowAccessReview = ''ALLOW_ACCESS_REVIEW''"
definition EnvAllowDiagnostics :: string where "EnvAllowDiagnostics = ''ALLOW_DIAGNOSTICS''"
definition EnvLogStreamEnabled :: string where "EnvLogStreamEnabled = ''LOG_STREAM_ENABLED''"
definition EnvLogBufferBytes :: string where "EnvLogBufferBytes = ''LOG_BUFFER_BYTES''"
definition EnvLogBufferTotalBytes :: string where "EnvLogBufferTotalBytes = ''LOG_BUFFER_TOTAL_BYTES''"
definition EnvLogBufferMaxAge :: string where "EnvLogBufferMaxAge = ''LOG_BUFFER_MAX_AGE''"
definition EnvLogMatchMaxAge :: string where "EnvLogMatchMaxAge = ''LOG_MATCH_MAX_AGE''"
definition EnvAllowLogs :: string where "EnvAllowLogs = ''ALLOW_LOGS''"
definition EnvLogTailLines :: string where "EnvLogTailLines = ''LOG_TAIL_LINES''"
definition EnvLogTailMaxBytes :: string where "EnvLogTailMaxBytes = ''LOG_TAIL_MAX_BYTES''"
definition EnvEventsMaxAge :: string where "EnvEventsMaxAge = ''EVENTS_MAX_AGE''"
definition EnvAPIRequestTimeout :: string where "EnvAPIRequestTimeout = ''API_REQUEST_TIMEOUT''"
definition EnvHistoryEnabled :: string where "EnvHistoryEnabled = ''HISTORY_ENABLED''"
definition EnvHistoryMaxRevisions :: string where "EnvHistoryMaxRevisions = ''HISTORY_MAX_REVISIONS''"
definition EnvHistoryMaxBytes :: string where "EnvHistoryMaxBytes = ''HISTORY_MAX_BYTES''"
definition EnvHistoryPerObjectRevisions :: string where "EnvHistoryPerObjectRevisions = ''HISTORY_PER_OBJECT_REVISIONS''"
definition EnvHistoryCoalesceWindow :: string where "EnvHistoryCoalesceWindow = ''HISTORY_COALESCE_WINDOW''"
definition EnvHistoryPath :: string where "EnvHistoryPath = ''HISTORY_PATH''"
definition EnvMetricsEnabled :: string where "EnvMetricsEnabled = ''METRICS_ENABLED''"
definition EnvMetricsInterval :: string where "EnvMetricsInterval = ''METRICS_INTERVAL''"
definition EnvMetricsRetention :: string where "EnvMetricsRetention = ''METRICS_RETENTION''"
definition EnvInstanceStatusEnabled :: string where "EnvInstanceStatusEnabled = ''INSTANCE_STATUS_ENABLED''"
definition EnvInstanceStatusInterval :: string where "EnvInstanceStatusInterval = ''INSTANCE_STATUS_INTERVAL''"
definition EnvInstanceStatusCAFile :: string where "EnvInstanceStatusCAFile = ''INSTANCE_STATUS_CA_FILE''"
definition EnvMetricsPath :: string where "EnvMetricsPath = ''METRICS_PATH''"
definition EnvObjectStoreViewerURL :: string where "EnvObjectStoreViewerURL = ''OBJECTSTOREVIEWER_URL''"
definition EnvPgAdminURL :: string where "EnvPgAdminURL = ''PGADMIN_URL''"
definition EnvMonitoringURL :: string where "EnvMonitoringURL = ''MONITORING_URL''"
definition EnvAllowInsecureLinks :: string where "EnvAllowInsecureLinks = ''ALLOW_INSECURE_LINKS''"
definition EnvRepositoryEvidenceURL :: string where "EnvRepositoryEvidenceURL = ''REPOSITORY_EVIDENCE_URL''"
definition EnvRepositoryEvidenceTokenFile :: string where "EnvRepositoryEvidenceTokenFile = ''REPOSITORY_EVIDENCE_TOKEN_FILE''"
definition EnvRepositoryExpectedFingerprint :: string where "EnvRepositoryExpectedFingerprint = ''REPOSITORY_EXPECTED_FINGERPRINT''"
definition EnvRepositoryBarmanServer :: string where "EnvRepositoryBarmanServer = ''REPOSITORY_BARMAN_SERVER''"
definition MinLogTailLines :: int where "MinLogTailLines = 1"
definition MaxLogTailLines :: int where "MaxLogTailLines = 2000"
definition MinLogTailMaxBytes :: int where "MinLogTailMaxBytes = 4 * 1024"
definition MaxLogTailMaxBytes :: int where "MaxLogTailMaxBytes = 8 * 1024 * 1024"
definition MinEventsMaxAge :: duration where "MinEventsMaxAge = minute"
definition MaxEventsMaxAge :: duration where "MaxEventsMaxAge = 24 * hour"
definition MinAPIRequestTimeout :: duration where "MinAPIRequestTimeout = second"
definition MaxAPIRequestTimeout :: duration where "MaxAPIRequestTimeout = minute"
definition MaxLogBufferBytes :: int where "MaxLogBufferBytes = 8 * 1024 * 1024"
definition DefaultLogBufferTotalBytes :: int where "DefaultLogBufferTotalBytes = 32 * 1024 * 1024"
definition MaxLogBufferTotalBytes :: int where "MaxLogBufferTotalBytes = 128 * 1024 * 1024"
definition DefaultLogBufferMaxAge :: duration where "DefaultLogBufferMaxAge = hour"
definition MinLogBufferMaxAge :: duration where "MinLogBufferMaxAge = minute"
definition MaxLogBufferMaxAge :: duration where "MaxLogBufferMaxAge = 24 * hour"
definition DefaultLogMatchMaxAge :: duration where "DefaultLogMatchMaxAge = 6 * hour"
definition MinLogMatchMaxAge :: duration where "MinLogMatchMaxAge = minute"
definition MaxLogMatchMaxAge :: duration where "MaxLogMatchMaxAge = 7 * 24 * hour"
definition MinHistoryMaxRevisions :: int where "MinHistoryMaxRevisions = 100"
definition MaxHistoryMaxRevisions :: int where "MaxHistoryMaxRevisions = 20000"
definition MinHistoryMaxBytes :: int where "MinHistoryMaxBytes = 1024 * 1024"
definition MaxHistoryMaxBytes :: int where "MaxHistoryMaxBytes = 64 * 1024 * 1024"
definition MinHistoryPerObjectRevisions :: int where "MinHistoryPerObjectRevisions = 2"
definition MaxHistoryPerObjectRevisions :: int where "MaxHistoryPerObjectRevisions = 200"
definition MinHistoryCoalesceWindow :: duration where "MinHistoryCoalesceWindow = second"
definition MaxHistoryCoalesceWindow :: duration where "MaxHistoryCoalesceWindow = hour"
definition MinMetricsInterval :: duration where "MinMetricsInterval = 5 * second"
definition MaxMetricsInterval :: duration where "MaxMetricsInterval = 5 * minute"
definition MinMetricsRetention :: duration where "MinMetricsRetention = hour"
definition MaxMetricsRetention :: duration where "MaxMetricsRetention = 30 * 24 * hour"
definition DefaultListenAddr :: string where "DefaultListenAddr = '':3000''"
definition DefaultTrustedUserHeader :: string where "DefaultTrustedUserHeader = ''X-Forwarded-User''"
definition DefaultTrustedLevelHeader :: string where "DefaultTrustedLevelHeader = ''X-PgToolBox-Level''"
definition DefaultLogTailLines :: int where "DefaultLogTailLines = 200"
definition DefaultLogTailMaxBytes :: int where "DefaultLogTailMaxBytes = 1024 * 1024"
definition DefaultEventsMaxAge :: duration where "DefaultEventsMaxAge = hour"
definition DefaultAPIRequestTimeout :: duration where "DefaultAPIRequestTimeout = 10 * second"
definition DefaultHistoryMaxRevisions :: int where "DefaultHistoryMaxRevisions = 2000"
definition DefaultHistoryMaxBytes :: int where "DefaultHistoryMaxBytes = 16 * 1024 * 1024"
definition DefaultHistoryPerObjectRevisions :: int where "DefaultHistoryPerObjectRevisions = 20"
definition DefaultHistoryCoalesceWindow :: duration where "DefaultHistoryCoalesceWindow = minute"
definition DefaultMetricsInterval :: duration where "DefaultMetricsInterval = 10 * second"
definition DefaultInstanceStatusInterval :: duration where "DefaultInstanceStatusInterval = 15 * second"
definition DefaultMetricsRetention :: duration where "DefaultMetricsRetention = 7 * 24 * hour"

definition env_names :: "string list" where
  "env_names =
     [EnvClusterName, EnvNamespace, EnvListenAddr, EnvTrustedUserHeader, EnvTrustedLevelHeader,
      EnvAllowOperations, EnvAllowClusterCatalogs, EnvAllowAccessReview, EnvAllowDiagnostics,
      EnvLogStreamEnabled, EnvLogBufferBytes, EnvLogBufferTotalBytes, EnvLogBufferMaxAge,
      EnvLogMatchMaxAge, EnvAllowLogs, EnvLogTailLines, EnvLogTailMaxBytes, EnvEventsMaxAge,
      EnvAPIRequestTimeout, EnvHistoryEnabled, EnvHistoryMaxRevisions, EnvHistoryMaxBytes,
      EnvHistoryPerObjectRevisions, EnvHistoryCoalesceWindow, EnvHistoryPath, EnvMetricsEnabled,
      EnvMetricsInterval, EnvMetricsRetention, EnvInstanceStatusEnabled,
      EnvInstanceStatusInterval, EnvInstanceStatusCAFile, EnvMetricsPath, EnvObjectStoreViewerURL,
      EnvPgAdminURL, EnvMonitoringURL, EnvAllowInsecureLinks, EnvRepositoryEvidenceURL,
      EnvRepositoryEvidenceTokenFile, EnvRepositoryExpectedFingerprint, EnvRepositoryBarmanServer]"

lemmas env_defs = EnvClusterName_def EnvNamespace_def EnvListenAddr_def EnvTrustedUserHeader_def
  EnvTrustedLevelHeader_def EnvAllowOperations_def EnvAllowClusterCatalogs_def
  EnvAllowAccessReview_def EnvAllowDiagnostics_def EnvLogStreamEnabled_def
  EnvLogBufferBytes_def EnvLogBufferTotalBytes_def EnvLogBufferMaxAge_def
  EnvLogMatchMaxAge_def EnvAllowLogs_def EnvLogTailLines_def EnvLogTailMaxBytes_def
  EnvEventsMaxAge_def EnvAPIRequestTimeout_def EnvHistoryEnabled_def
  EnvHistoryMaxRevisions_def EnvHistoryMaxBytes_def EnvHistoryPerObjectRevisions_def
  EnvHistoryCoalesceWindow_def EnvHistoryPath_def EnvMetricsEnabled_def EnvMetricsInterval_def
  EnvMetricsRetention_def EnvInstanceStatusEnabled_def EnvInstanceStatusInterval_def
  EnvInstanceStatusCAFile_def EnvMetricsPath_def EnvObjectStoreViewerURL_def EnvPgAdminURL_def
  EnvMonitoringURL_def EnvAllowInsecureLinks_def EnvRepositoryEvidenceURL_def
  EnvRepositoryEvidenceTokenFile_def EnvRepositoryExpectedFingerprint_def
  EnvRepositoryBarmanServer_def

lemmas bound_defs = MinLogTailLines_def MaxLogTailLines_def MinLogTailMaxBytes_def MaxLogTailMaxBytes_def
  MinEventsMaxAge_def MaxEventsMaxAge_def MinAPIRequestTimeout_def MaxAPIRequestTimeout_def
  MaxLogBufferBytes_def DefaultLogBufferTotalBytes_def MaxLogBufferTotalBytes_def
  DefaultLogBufferMaxAge_def MinLogBufferMaxAge_def MaxLogBufferMaxAge_def
  DefaultLogMatchMaxAge_def MinLogMatchMaxAge_def MaxLogMatchMaxAge_def
  MinHistoryMaxRevisions_def MaxHistoryMaxRevisions_def MinHistoryMaxBytes_def
  MaxHistoryMaxBytes_def MinHistoryPerObjectRevisions_def MaxHistoryPerObjectRevisions_def
  MinHistoryCoalesceWindow_def MaxHistoryCoalesceWindow_def MinMetricsInterval_def
  MaxMetricsInterval_def MinMetricsRetention_def MaxMetricsRetention_def DefaultListenAddr_def
  DefaultTrustedUserHeader_def DefaultTrustedLevelHeader_def DefaultLogTailLines_def
  DefaultLogTailMaxBytes_def DefaultEventsMaxAge_def DefaultAPIRequestTimeout_def
  DefaultHistoryMaxRevisions_def DefaultHistoryMaxBytes_def
  DefaultHistoryPerObjectRevisions_def DefaultHistoryCoalesceWindow_def
  DefaultMetricsInterval_def DefaultInstanceStatusInterval_def DefaultMetricsRetention_def

section \<open>The configuration\<close>

record config =
  cf_cluster :: string
  cf_namespace :: string
  cf_listen_addr :: string
  cf_user_header :: string
  cf_level_header :: string
  cf_allow_operations :: bool
  cf_allow_catalogs :: bool
  cf_log_stream :: bool
  cf_log_buffer :: int
  cf_log_buffer_total :: int
  cf_log_buffer_age :: duration
  cf_log_match_age :: duration
  cf_allow_diagnostics :: bool
  cf_allow_review :: bool
  cf_allow_logs :: bool
  cf_tail_lines :: int
  cf_tail_bytes :: int
  cf_events_age :: duration
  cf_api_timeout :: duration
  cf_history :: bool
  cf_history_revisions :: int
  cf_history_bytes :: int
  cf_history_per_object :: int
  cf_history_window :: duration
  cf_history_path :: string
  cf_metrics :: bool
  cf_metrics_interval :: duration
  cf_metrics_retention :: duration
  cf_status :: bool
  cf_status_interval :: duration
  cf_status_ca :: string
  cf_metrics_path :: string
  cf_viewer_url :: string
  cf_pgadmin_url :: string
  cf_monitoring_url :: string
  cf_insecure_links :: bool
  cf_evidence_url :: string
  cf_evidence_token :: string
  cf_fingerprint :: string
  cf_barman_server :: string

definition default_config :: config where
  "default_config =
     \<lparr>cf_cluster = '''', cf_namespace = '''', cf_listen_addr = DefaultListenAddr, cf_user_header =
      DefaultTrustedUserHeader, cf_level_header = DefaultTrustedLevelHeader, cf_allow_operations =
      False, cf_allow_catalogs = False, cf_log_stream = False, cf_log_buffer = 0,
      cf_log_buffer_total = 0, cf_log_buffer_age = 0, cf_log_match_age = 0, cf_allow_diagnostics =
      False, cf_allow_review = False, cf_allow_logs = True, cf_tail_lines = DefaultLogTailLines,
      cf_tail_bytes = DefaultLogTailMaxBytes, cf_events_age = DefaultEventsMaxAge, cf_api_timeout =
      DefaultAPIRequestTimeout, cf_history = True, cf_history_revisions =
      DefaultHistoryMaxRevisions, cf_history_bytes = DefaultHistoryMaxBytes, cf_history_per_object =
      DefaultHistoryPerObjectRevisions, cf_history_window = DefaultHistoryCoalesceWindow,
      cf_history_path = '''', cf_metrics = True, cf_metrics_interval = DefaultMetricsInterval,
      cf_metrics_retention = DefaultMetricsRetention, cf_status = True, cf_status_interval =
      DefaultInstanceStatusInterval, cf_status_ca = '''', cf_metrics_path = '''', cf_viewer_url =
      '''', cf_pgadmin_url = '''', cf_monitoring_url = '''', cf_insecure_links = False,
      cf_evidence_url = '''', cf_evidence_token = '''', cf_fingerprint = '''', cf_barman_server =
      ''''\<rparr>"

section \<open>Reading one variable\<close>

type_synonym lookup = "string \<Rightarrow> string option"

record var_error =
  ve_name :: string
  ve_constraint :: string

type_synonym 'a checked = "'a \<times> var_error list"

definition var_error_string :: "var_error \<Rightarrow> string" where
  "var_error_string e = ve_name e @ '': '' @ ve_constraint e"

definition fail :: "string \<Rightarrow> string \<Rightarrow> var_error" where
  "fail name constraint = \<lparr>ve_name = name, ve_constraint = constraint\<rparr>"

definition lower_alnum :: "char \<Rightarrow> bool" where
  "lower_alnum c \<longleftrightarrow> 97 \<le> byte c \<and> byte c \<le> 122 \<or> 48 \<le> byte c \<and> byte c \<le> 57"

definition dns1123_label :: "string \<Rightarrow> bool" where
  "dns1123_label s \<longleftrightarrow>
     s \<noteq> [] \<and> lower_alnum (hd s) \<and> lower_alnum (last s) \<and> list_all (\<lambda>c. c = CHR ''-'' \<or> lower_alnum c) s"

definition header_name :: "string \<Rightarrow> bool" where
  "header_name s \<longleftrightarrow>
     s \<noteq> [] \<and> list_all (\<lambda>c. c = CHR ''-'' \<or> lower_alnum c \<or> 65 \<le> byte c \<and> byte c \<le> 90) s"

definition required_label :: "lookup \<Rightarrow> string \<Rightarrow> string checked" where
  "required_label lookup name =
     (case lookup name of
        None \<Rightarrow> ([], [fail name ''is required''])
      | Some raw \<Rightarrow>
          if raw = [] then ([], [fail name ''is required''])
          else if length raw > 63 \<or> \<not> dns1123_label raw then ([], [fail name ''must be a DNS-1123 label''])
          else (raw, []))"

definition bool_constraint :: string where
  "bool_constraint = ''must be '' @ CHR 0x22 # ''true'' @ CHR 0x22 # '' or '' @ CHR 0x22 # ''false'' @ [CHR 0x22]"

definition bool_var :: "lookup \<Rightarrow> string \<Rightarrow> bool \<Rightarrow> bool checked" where
  "bool_var lookup name def =
     (case lookup name of
        None \<Rightarrow> (def, [])
      | Some raw \<Rightarrow>
          if raw = [] then (def, [])
          else if raw = ''true'' then (True, [])
          else if raw = ''false'' then (False, [])
          else (def, [fail name bool_constraint]))"

definition int_constraint :: "int \<Rightarrow> int \<Rightarrow> string" where
  "int_constraint minimum maximum = ''must be an integer between '' @ itoa minimum @ '' and '' @ itoa maximum"

definition int_var :: "lookup \<Rightarrow> string \<Rightarrow> int \<Rightarrow> int \<Rightarrow> int \<Rightarrow> int checked" where
  "int_var lookup name def minimum maximum =
     (case lookup name of
        None \<Rightarrow> (def, [])
      | Some raw \<Rightarrow>
          if raw = [] then (def, [])
          else case parse_int64 raw of
            None \<Rightarrow> (def, [fail name (int_constraint minimum maximum)])
          | Some v \<Rightarrow>
              if v < minimum \<or> v > maximum then (def, [fail name (int_constraint minimum maximum)]) else (v, []))"

definition duration_constraint :: "duration \<Rightarrow> duration \<Rightarrow> string" where
  "duration_constraint minimum maximum =
     ''must be a duration between '' @ duration_string minimum @ '' and '' @ duration_string maximum"

definition duration_var :: "lookup \<Rightarrow> string \<Rightarrow> duration \<Rightarrow> duration \<Rightarrow> duration \<Rightarrow> duration checked" where
  "duration_var lookup name def minimum maximum =
     (case lookup name of
        None \<Rightarrow> (def, [])
      | Some raw \<Rightarrow>
          if raw = [] then (def, [])
          else case parse_duration raw of
            None \<Rightarrow> (def, [fail name (duration_constraint minimum maximum)])
          | Some v \<Rightarrow>
              if v < minimum \<or> v > maximum then (def, [fail name (duration_constraint minimum maximum)]) else (v, []))"

subsection \<open>Addresses, headers and paths\<close>

text \<open>A validation error is the constraint it states; \<open>None\<close> is acceptance.\<close>

definition validate_listen_addr :: "string \<Rightarrow> string option" where
  "validate_listen_addr raw =
     (case split_host_port raw of
        None \<Rightarrow> Some ''must be a host:port listen address''
      | Some (host, port) \<Rightarrow>
          if port = [] then Some ''must be a host:port listen address''
          else if parse_int64 port = None then Some ''must use a numeric port''
          else None)"

definition listen_var :: "lookup \<Rightarrow> string \<Rightarrow> string \<Rightarrow> string checked" where
  "listen_var lookup name current =
     (case lookup name of
        None \<Rightarrow> (current, [])
      | Some raw \<Rightarrow> (case validate_listen_addr raw of Some constraint \<Rightarrow> (current, [fail name constraint]) | None \<Rightarrow> (raw, [])))"

definition header_var :: "lookup \<Rightarrow> string \<Rightarrow> string \<Rightarrow> string checked" where
  "header_var lookup name current =
     (case lookup name of
        None \<Rightarrow> (current, [])
      | Some raw \<Rightarrow>
          if raw = [] then ([], [])
          else if \<not> header_name raw then (current, [fail name ''must be a valid HTTP header name''])
          else (raw, []))"

definition absolute_path :: "string \<Rightarrow> bool" where
  "absolute_path raw \<longleftrightarrow>
     has_prefix raw ''/'' \<and> \<not> length raw < 2 \<and> \<not> list_ex (\<lambda>c. c = CHR 0x00 \<or> c = CHR 0x0D \<or> c = CHR 0x0A) raw"

definition path_var :: "lookup \<Rightarrow> string \<Rightarrow> bool \<Rightarrow> string \<Rightarrow> string \<Rightarrow> string checked" where
  "path_var lookup name enabled enabled_name current =
     (case lookup name of
        None \<Rightarrow> (current, [])
      | Some raw \<Rightarrow>
          if raw = [] then (current, [])
          else if \<not> absolute_path raw then (current, [fail name ''must be an absolute file path''])
          else if \<not> enabled then (current, [fail name (''requires '' @ enabled_name @ ''=true'')])
          else (raw, []))"

subsection \<open>Link-outs\<close>

record url =
  url_scheme :: string
  url_host :: string
  url_user :: bool

definition relative_constraint :: string where
  "relative_constraint = ''must be a root-relative path such as '' @ CHR 0x22 # ''/pgadmin'' @ CHR 0x22 # '', not protocol-relative''"

definition validate_relative_link :: "(string \<Rightarrow> url option) \<Rightarrow> string \<Rightarrow> string option" where
  "validate_relative_link parse_url raw =
     (if length raw > 1 \<and> (raw ! 1 = CHR ''/'' \<or> raw ! 1 = CHR 0x5C) then Some relative_constraint
      else if list_ex (\<lambda>c. byte c < 0x20 \<or> byte c = 0x7F \<or> c = CHR '' '') raw
        then Some ''must not contain spaces or control characters; percent-encode them''
      else case parse_url raw of
        None \<Rightarrow> Some relative_constraint
      | Some u \<Rightarrow> if url_scheme u \<noteq> [] \<or> url_host u \<noteq> [] \<or> url_user u then Some relative_constraint else None)"

definition link_var :: "(string \<Rightarrow> url option) \<Rightarrow> lookup \<Rightarrow> string \<Rightarrow> bool \<Rightarrow> string checked" where
  "link_var parse_url lookup name allow_insecure =
     (case lookup name of
        None \<Rightarrow> ([], [])
      | Some raw \<Rightarrow>
          if raw = [] then ([], [])
          else if has_prefix raw ''/'' then
            (case validate_relative_link parse_url raw of Some constraint \<Rightarrow> ([], [fail name constraint]) | None \<Rightarrow> (raw, []))
          else case parse_url raw of
            None \<Rightarrow> ([], [fail name ''must be an absolute URL or a root-relative path''])
          | Some u \<Rightarrow>
              if url_host u = [] then ([], [fail name ''must be an absolute URL or a root-relative path''])
              else if url_user u then ([], [fail name ''must not contain user information''])
              else if url_scheme u = ''https'' then (raw, [])
              else if url_scheme u = ''http'' then
                (if \<not> allow_insecure then ([], [fail name (''http scheme requires '' @ EnvAllowInsecureLinks @ ''=true'')])
                 else (raw, []))
              else ([], [fail name ''must use the https scheme'']))"

subsection \<open>The repository-evidence variables\<close>

definition required_with_evidence :: string where
  "required_with_evidence = ''is required when repository evidence is configured''"

definition validate_evidence_addr :: "string \<Rightarrow> string option" where
  "validate_evidence_addr raw =
     (if raw = [] then Some required_with_evidence
      else
        let path = (if has_prefix raw ''unix://'' then drop 7 raw else raw)
        in if \<not> has_prefix path ''/'' \<or> length path < 2
           then Some ''must be a unix:// socket URI or an absolute socket path'' else None)"

definition validate_evidence_token_file :: "string \<Rightarrow> string option" where
  "validate_evidence_token_file raw =
     (if raw = [] then Some required_with_evidence
      else if \<not> absolute_path raw then Some ''must be an absolute file path'' else None)"

definition fingerprint_constraint :: string where
  "fingerprint_constraint = ''must be '' @ CHR 0x22 # ''sha256:'' @ CHR 0x22 # '' plus 64 lowercase hex characters''"

definition lower_hex :: "char \<Rightarrow> bool" where
  "lower_hex c \<longleftrightarrow> 48 \<le> byte c \<and> byte c \<le> 57 \<or> 97 \<le> byte c \<and> byte c \<le> 102"

definition validate_evidence_fingerprint :: "string \<Rightarrow> string option" where
  "validate_evidence_fingerprint raw =
     (if raw = [] then Some required_with_evidence
      else if \<not> has_prefix raw ''sha256:'' \<or> length (drop 7 raw) \<noteq> 64 then Some fingerprint_constraint
      else if list_ex (\<lambda>c. \<not> lower_hex c) (drop 7 raw) then Some fingerprint_constraint
      else None)"

text \<open>\<open>unicode.IsControl\<close> on valid UTF-8: the ASCII controls, and \<open>U+0080\<close> to \<open>U+009F\<close>, which are \<open>0xC2\<close>
followed by a byte of that value.\<close>

fun has_control_rune :: "string \<Rightarrow> bool" where
  "has_control_rune [] \<longleftrightarrow> False"
| "has_control_rune [c] \<longleftrightarrow> control_byte c"
| "has_control_rune (c # d # s) \<longleftrightarrow>
     control_byte c \<or> byte c = 0xC2 \<and> 0x80 \<le> byte d \<and> byte d \<le> 0x9F \<or> has_control_rune (d # s)"

definition barman_constraint :: string where
  "barman_constraint = ''must be a bounded name without path separators or control characters''"

definition validate_barman_server_name :: "string \<Rightarrow> string option" where
  "validate_barman_server_name raw =
     (if raw = [] then Some required_with_evidence
      else if length raw > 256 \<or> raw = ''.'' \<or> raw = ''..'' \<or> list_ex (\<lambda>c. c = CHR ''/'' \<or> c = CHR 0x5C) raw
        then Some barman_constraint
      else if \<not> valid_utf8 raw \<or> has_control_rune raw then Some barman_constraint
      else None)"

section \<open>Loading\<close>

type_synonym loading = "config \<times> var_error list"

definition put_var :: "(config \<Rightarrow> 'a checked) \<Rightarrow> ('a \<Rightarrow> config \<Rightarrow> config) \<Rightarrow> loading \<Rightarrow> loading" where
  "put_var reading put s = (put (fst (reading (fst s))) (fst s), snd s @ snd (reading (fst s)))"

definition check_var :: "(config \<Rightarrow> var_error list) \<Rightarrow> loading \<Rightarrow> loading" where
  "check_var checking s = (fst s, snd s @ checking (fst s))"

definition log_conflicts :: "config \<Rightarrow> var_error list" where
  "log_conflicts c =
     (if cf_log_stream c \<and> \<not> cf_allow_logs c then [fail EnvLogStreamEnabled (''requires '' @ EnvAllowLogs @ ''=true'')] else []) @
     (if cf_log_buffer c > 0 \<and> \<not> cf_log_stream c then [fail EnvLogBufferBytes (''requires '' @ EnvLogStreamEnabled @ ''=true'')] else []) @
     (if cf_log_buffer c > cf_log_buffer_total c then [fail EnvLogBufferBytes (''must not exceed '' @ EnvLogBufferTotalBytes)] else [])"

definition read_evidence :: "lookup \<Rightarrow> string \<Rightarrow> string" where
  "read_evidence lookup name = (case lookup name of None \<Rightarrow> [] | Some raw \<Rightarrow> raw)"

definition evidence_error :: "string \<Rightarrow> string option \<Rightarrow> var_error list" where
  "evidence_error name result = (case result of None \<Rightarrow> [] | Some constraint \<Rightarrow> [fail name constraint])"

definition evidence_errors :: "string \<Rightarrow> string \<Rightarrow> string \<Rightarrow> string \<Rightarrow> var_error list" where
  "evidence_errors addr token_file fingerprint server =
     (if addr = [] \<and> token_file = [] \<and> fingerprint = [] \<and> server = [] then []
      else evidence_error EnvRepositoryEvidenceURL (validate_evidence_addr addr) @
           evidence_error EnvRepositoryEvidenceTokenFile (validate_evidence_token_file token_file) @
           evidence_error EnvRepositoryExpectedFingerprint (validate_evidence_fingerprint fingerprint) @
           evidence_error EnvRepositoryBarmanServer (validate_barman_server_name server))"

definition load_repository_evidence :: "lookup \<Rightarrow> loading \<Rightarrow> loading" where
  "load_repository_evidence lookup s =
     (let addr = read_evidence lookup EnvRepositoryEvidenceURL;
          token_file = read_evidence lookup EnvRepositoryEvidenceTokenFile;
          fingerprint = read_evidence lookup EnvRepositoryExpectedFingerprint;
          server = read_evidence lookup EnvRepositoryBarmanServer
      in if addr = [] \<and> token_file = [] \<and> fingerprint = [] \<and> server = [] then s
         else
           let errs = evidence_errors addr token_file fingerprint server
           in if errs \<noteq> [] then (fst s, snd s @ errs)
              else ((fst s)\<lparr>cf_evidence_url := addr, cf_evidence_token := token_file, cf_fingerprint := fingerprint,
                      cf_barman_server := server\<rparr>, snd s))"

definition load_stages :: "(string \<Rightarrow> url option) \<Rightarrow> lookup \<Rightarrow> (loading \<Rightarrow> loading) list" where
  "load_stages parse_url lookup =
     [put_var (\<lambda>_. required_label lookup EnvClusterName) (\<lambda>v c. c\<lparr>cf_cluster := v\<rparr>),
      put_var (\<lambda>_. required_label lookup EnvNamespace) (\<lambda>v c. c\<lparr>cf_namespace := v\<rparr>),
      put_var (\<lambda>c. listen_var lookup EnvListenAddr (cf_listen_addr c)) (\<lambda>v c. c\<lparr>cf_listen_addr := v\<rparr>),
      put_var (\<lambda>c. header_var lookup EnvTrustedUserHeader (cf_user_header c)) (\<lambda>v c. c\<lparr>cf_user_header := v\<rparr>),
      put_var (\<lambda>c. header_var lookup EnvTrustedLevelHeader (cf_level_header c)) (\<lambda>v c. c\<lparr>cf_level_header := v\<rparr>),
      put_var (\<lambda>_. bool_var lookup EnvAllowOperations False) (\<lambda>v c. c\<lparr>cf_allow_operations := v\<rparr>),
      put_var (\<lambda>_. bool_var lookup EnvAllowClusterCatalogs False) (\<lambda>v c. c\<lparr>cf_allow_catalogs := v\<rparr>),
      put_var (\<lambda>_. bool_var lookup EnvAllowAccessReview False) (\<lambda>v c. c\<lparr>cf_allow_review := v\<rparr>),
      put_var (\<lambda>_. bool_var lookup EnvAllowDiagnostics False) (\<lambda>v c. c\<lparr>cf_allow_diagnostics := v\<rparr>),
      put_var (\<lambda>_. bool_var lookup EnvAllowLogs True) (\<lambda>v c. c\<lparr>cf_allow_logs := v\<rparr>),
      put_var (\<lambda>c. bool_var lookup EnvLogStreamEnabled (cf_allow_logs c \<and> cf_allow_diagnostics c)) (\<lambda>v c. c\<lparr>cf_log_stream := v\<rparr>),
      put_var (\<lambda>_. int_var lookup EnvLogBufferBytes 0 0 MaxLogBufferBytes) (\<lambda>v c. c\<lparr>cf_log_buffer := v\<rparr>),
      put_var (\<lambda>_. int_var lookup EnvLogBufferTotalBytes DefaultLogBufferTotalBytes 0 MaxLogBufferTotalBytes) (\<lambda>v c. c\<lparr>cf_log_buffer_total := v\<rparr>),
      put_var (\<lambda>_. duration_var lookup EnvLogBufferMaxAge DefaultLogBufferMaxAge MinLogBufferMaxAge MaxLogBufferMaxAge) (\<lambda>v c. c\<lparr>cf_log_buffer_age := v\<rparr>),
      put_var (\<lambda>_. duration_var lookup EnvLogMatchMaxAge DefaultLogMatchMaxAge MinLogMatchMaxAge MaxLogMatchMaxAge) (\<lambda>v c. c\<lparr>cf_log_match_age := v\<rparr>),
      put_var (\<lambda>_. bool_var lookup EnvAllowInsecureLinks False) (\<lambda>v c. c\<lparr>cf_insecure_links := v\<rparr>),
      put_var (\<lambda>_. int_var lookup EnvLogTailLines DefaultLogTailLines MinLogTailLines MaxLogTailLines) (\<lambda>v c. c\<lparr>cf_tail_lines := v\<rparr>),
      put_var (\<lambda>_. int_var lookup EnvLogTailMaxBytes DefaultLogTailMaxBytes MinLogTailMaxBytes MaxLogTailMaxBytes) (\<lambda>v c. c\<lparr>cf_tail_bytes := v\<rparr>),
      put_var (\<lambda>_. duration_var lookup EnvEventsMaxAge DefaultEventsMaxAge MinEventsMaxAge MaxEventsMaxAge) (\<lambda>v c. c\<lparr>cf_events_age := v\<rparr>),
      put_var (\<lambda>_. duration_var lookup EnvAPIRequestTimeout DefaultAPIRequestTimeout MinAPIRequestTimeout MaxAPIRequestTimeout) (\<lambda>v c. c\<lparr>cf_api_timeout := v\<rparr>),
      put_var (\<lambda>_. bool_var lookup EnvHistoryEnabled True) (\<lambda>v c. c\<lparr>cf_history := v\<rparr>),
      put_var (\<lambda>_. int_var lookup EnvHistoryMaxRevisions DefaultHistoryMaxRevisions MinHistoryMaxRevisions MaxHistoryMaxRevisions) (\<lambda>v c. c\<lparr>cf_history_revisions := v\<rparr>),
      put_var (\<lambda>_. int_var lookup EnvHistoryMaxBytes DefaultHistoryMaxBytes MinHistoryMaxBytes MaxHistoryMaxBytes) (\<lambda>v c. c\<lparr>cf_history_bytes := v\<rparr>),
      put_var (\<lambda>_. int_var lookup EnvHistoryPerObjectRevisions DefaultHistoryPerObjectRevisions MinHistoryPerObjectRevisions MaxHistoryPerObjectRevisions) (\<lambda>v c. c\<lparr>cf_history_per_object := v\<rparr>),
      put_var (\<lambda>_. duration_var lookup EnvHistoryCoalesceWindow DefaultHistoryCoalesceWindow MinHistoryCoalesceWindow MaxHistoryCoalesceWindow) (\<lambda>v c. c\<lparr>cf_history_window := v\<rparr>),
      put_var (\<lambda>c. path_var lookup EnvHistoryPath (cf_history c) EnvHistoryEnabled (cf_history_path c)) (\<lambda>v c. c\<lparr>cf_history_path := v\<rparr>),
      check_var (\<lambda>c. log_conflicts c),
      put_var (\<lambda>_. bool_var lookup EnvMetricsEnabled True) (\<lambda>v c. c\<lparr>cf_metrics := v\<rparr>),
      put_var (\<lambda>_. duration_var lookup EnvMetricsInterval DefaultMetricsInterval MinMetricsInterval MaxMetricsInterval) (\<lambda>v c. c\<lparr>cf_metrics_interval := v\<rparr>),
      put_var (\<lambda>_. duration_var lookup EnvMetricsRetention DefaultMetricsRetention MinMetricsRetention MaxMetricsRetention) (\<lambda>v c. c\<lparr>cf_metrics_retention := v\<rparr>),
      put_var (\<lambda>_. bool_var lookup EnvInstanceStatusEnabled True) (\<lambda>v c. c\<lparr>cf_status := v\<rparr>),
      put_var (\<lambda>_. duration_var lookup EnvInstanceStatusInterval DefaultInstanceStatusInterval MinMetricsInterval MaxMetricsInterval) (\<lambda>v c. c\<lparr>cf_status_interval := v\<rparr>),
      put_var (\<lambda>c. path_var lookup EnvInstanceStatusCAFile (cf_status c) EnvInstanceStatusEnabled (cf_status_ca c)) (\<lambda>v c. c\<lparr>cf_status_ca := v\<rparr>),
      put_var (\<lambda>c. path_var lookup EnvMetricsPath (cf_metrics c) EnvMetricsEnabled (cf_metrics_path c)) (\<lambda>v c. c\<lparr>cf_metrics_path := v\<rparr>),
      put_var (\<lambda>c. link_var parse_url lookup EnvObjectStoreViewerURL (cf_insecure_links c)) (\<lambda>v c. c\<lparr>cf_viewer_url := v\<rparr>),
      put_var (\<lambda>c. link_var parse_url lookup EnvPgAdminURL (cf_insecure_links c)) (\<lambda>v c. c\<lparr>cf_pgadmin_url := v\<rparr>),
      put_var (\<lambda>c. link_var parse_url lookup EnvMonitoringURL (cf_insecure_links c)) (\<lambda>v c. c\<lparr>cf_monitoring_url := v\<rparr>),
      load_repository_evidence lookup]"

definition load_all :: "(string \<Rightarrow> url option) \<Rightarrow> lookup \<Rightarrow> loading" where
  "load_all parse_url lookup = fold (\<lambda>stage s. stage s) (load_stages parse_url lookup) (default_config, [])"

definition load_config :: "(string \<Rightarrow> url option) \<Rightarrow> lookup \<Rightarrow> var_error list + config" where
  "load_config parse_url lookup =
     (let (cfg, errs) = load_all parse_url lookup in if errs \<noteq> [] then Inl errs else Inr cfg)"

definition repository_evidence_enabled :: "config \<Rightarrow> bool" where
  "repository_evidence_enabled c \<longleftrightarrow> cf_evidence_url c \<noteq> []"

section \<open>The contract variable by variable\<close>

text \<open>Every variable on its own: its value, or its default where the value is refused. The variables
that depend on others take the others' resolved values.\<close>

definition switch_of :: "lookup \<Rightarrow> string \<Rightarrow> bool \<Rightarrow> bool" where
  "switch_of lookup name def = fst (bool_var lookup name def)"

definition evidence_errors_of :: "lookup \<Rightarrow> var_error list" where
  "evidence_errors_of lookup =
     evidence_errors (read_evidence lookup EnvRepositoryEvidenceURL) (read_evidence lookup EnvRepositoryEvidenceTokenFile)
       (read_evidence lookup EnvRepositoryExpectedFingerprint) (read_evidence lookup EnvRepositoryBarmanServer)"

definition reference_config :: "(string \<Rightarrow> url option) \<Rightarrow> lookup \<Rightarrow> config" where
  "reference_config parse_url lookup =
     \<lparr>cf_cluster = fst (required_label lookup EnvClusterName),
      cf_namespace = fst (required_label lookup EnvNamespace),
      cf_listen_addr = fst (listen_var lookup EnvListenAddr DefaultListenAddr),
      cf_user_header = fst (header_var lookup EnvTrustedUserHeader DefaultTrustedUserHeader),
      cf_level_header = fst (header_var lookup EnvTrustedLevelHeader DefaultTrustedLevelHeader),
      cf_allow_operations = fst (bool_var lookup EnvAllowOperations False),
      cf_allow_catalogs = fst (bool_var lookup EnvAllowClusterCatalogs False),
      cf_log_stream = fst (bool_var lookup EnvLogStreamEnabled (switch_of lookup EnvAllowLogs True \<and> switch_of lookup EnvAllowDiagnostics False)),
      cf_log_buffer = fst (int_var lookup EnvLogBufferBytes 0 0 MaxLogBufferBytes),
      cf_log_buffer_total = fst (int_var lookup EnvLogBufferTotalBytes DefaultLogBufferTotalBytes 0 MaxLogBufferTotalBytes),
      cf_log_buffer_age = fst (duration_var lookup EnvLogBufferMaxAge DefaultLogBufferMaxAge MinLogBufferMaxAge MaxLogBufferMaxAge),
      cf_log_match_age = fst (duration_var lookup EnvLogMatchMaxAge DefaultLogMatchMaxAge MinLogMatchMaxAge MaxLogMatchMaxAge),
      cf_allow_diagnostics = fst (bool_var lookup EnvAllowDiagnostics False),
      cf_allow_review = fst (bool_var lookup EnvAllowAccessReview False),
      cf_allow_logs = fst (bool_var lookup EnvAllowLogs True),
      cf_tail_lines = fst (int_var lookup EnvLogTailLines DefaultLogTailLines MinLogTailLines MaxLogTailLines),
      cf_tail_bytes = fst (int_var lookup EnvLogTailMaxBytes DefaultLogTailMaxBytes MinLogTailMaxBytes MaxLogTailMaxBytes),
      cf_events_age = fst (duration_var lookup EnvEventsMaxAge DefaultEventsMaxAge MinEventsMaxAge MaxEventsMaxAge),
      cf_api_timeout = fst (duration_var lookup EnvAPIRequestTimeout DefaultAPIRequestTimeout MinAPIRequestTimeout MaxAPIRequestTimeout),
      cf_history = fst (bool_var lookup EnvHistoryEnabled True),
      cf_history_revisions = fst (int_var lookup EnvHistoryMaxRevisions DefaultHistoryMaxRevisions MinHistoryMaxRevisions MaxHistoryMaxRevisions),
      cf_history_bytes = fst (int_var lookup EnvHistoryMaxBytes DefaultHistoryMaxBytes MinHistoryMaxBytes MaxHistoryMaxBytes),
      cf_history_per_object = fst (int_var lookup EnvHistoryPerObjectRevisions DefaultHistoryPerObjectRevisions MinHistoryPerObjectRevisions MaxHistoryPerObjectRevisions),
      cf_history_window = fst (duration_var lookup EnvHistoryCoalesceWindow DefaultHistoryCoalesceWindow MinHistoryCoalesceWindow MaxHistoryCoalesceWindow),
      cf_history_path = fst (path_var lookup EnvHistoryPath (switch_of lookup EnvHistoryEnabled True) EnvHistoryEnabled []),
      cf_metrics = fst (bool_var lookup EnvMetricsEnabled True),
      cf_metrics_interval = fst (duration_var lookup EnvMetricsInterval DefaultMetricsInterval MinMetricsInterval MaxMetricsInterval),
      cf_metrics_retention = fst (duration_var lookup EnvMetricsRetention DefaultMetricsRetention MinMetricsRetention MaxMetricsRetention),
      cf_status = fst (bool_var lookup EnvInstanceStatusEnabled True),
      cf_status_interval = fst (duration_var lookup EnvInstanceStatusInterval DefaultInstanceStatusInterval MinMetricsInterval MaxMetricsInterval),
      cf_status_ca = fst (path_var lookup EnvInstanceStatusCAFile (switch_of lookup EnvInstanceStatusEnabled True) EnvInstanceStatusEnabled []),
      cf_metrics_path = fst (path_var lookup EnvMetricsPath (switch_of lookup EnvMetricsEnabled True) EnvMetricsEnabled []),
      cf_viewer_url = fst (link_var parse_url lookup EnvObjectStoreViewerURL (switch_of lookup EnvAllowInsecureLinks False)),
      cf_pgadmin_url = fst (link_var parse_url lookup EnvPgAdminURL (switch_of lookup EnvAllowInsecureLinks False)),
      cf_monitoring_url = fst (link_var parse_url lookup EnvMonitoringURL (switch_of lookup EnvAllowInsecureLinks False)),
      cf_insecure_links = fst (bool_var lookup EnvAllowInsecureLinks False),
      cf_evidence_url = (if evidence_errors_of lookup = [] then read_evidence lookup EnvRepositoryEvidenceURL else []),
      cf_evidence_token = (if evidence_errors_of lookup = [] then read_evidence lookup EnvRepositoryEvidenceTokenFile else []),
      cf_fingerprint = (if evidence_errors_of lookup = [] then read_evidence lookup EnvRepositoryExpectedFingerprint else []),
      cf_barman_server = (if evidence_errors_of lookup = [] then read_evidence lookup EnvRepositoryBarmanServer else [])\<rparr>"

definition reference_errors :: "(string \<Rightarrow> url option) \<Rightarrow> lookup \<Rightarrow> var_error list" where
  "reference_errors parse_url lookup = concat
     [snd (required_label lookup EnvClusterName),
      snd (required_label lookup EnvNamespace),
      snd (listen_var lookup EnvListenAddr DefaultListenAddr),
      snd (header_var lookup EnvTrustedUserHeader DefaultTrustedUserHeader),
      snd (header_var lookup EnvTrustedLevelHeader DefaultTrustedLevelHeader),
      snd (bool_var lookup EnvAllowOperations False),
      snd (bool_var lookup EnvAllowClusterCatalogs False),
      snd (bool_var lookup EnvAllowAccessReview False),
      snd (bool_var lookup EnvAllowDiagnostics False),
      snd (bool_var lookup EnvAllowLogs True),
      snd (bool_var lookup EnvLogStreamEnabled (switch_of lookup EnvAllowLogs True \<and> switch_of lookup EnvAllowDiagnostics False)),
      snd (int_var lookup EnvLogBufferBytes 0 0 MaxLogBufferBytes),
      snd (int_var lookup EnvLogBufferTotalBytes DefaultLogBufferTotalBytes 0 MaxLogBufferTotalBytes),
      snd (duration_var lookup EnvLogBufferMaxAge DefaultLogBufferMaxAge MinLogBufferMaxAge MaxLogBufferMaxAge),
      snd (duration_var lookup EnvLogMatchMaxAge DefaultLogMatchMaxAge MinLogMatchMaxAge MaxLogMatchMaxAge),
      snd (bool_var lookup EnvAllowInsecureLinks False),
      snd (int_var lookup EnvLogTailLines DefaultLogTailLines MinLogTailLines MaxLogTailLines),
      snd (int_var lookup EnvLogTailMaxBytes DefaultLogTailMaxBytes MinLogTailMaxBytes MaxLogTailMaxBytes),
      snd (duration_var lookup EnvEventsMaxAge DefaultEventsMaxAge MinEventsMaxAge MaxEventsMaxAge),
      snd (duration_var lookup EnvAPIRequestTimeout DefaultAPIRequestTimeout MinAPIRequestTimeout MaxAPIRequestTimeout),
      snd (bool_var lookup EnvHistoryEnabled True),
      snd (int_var lookup EnvHistoryMaxRevisions DefaultHistoryMaxRevisions MinHistoryMaxRevisions MaxHistoryMaxRevisions),
      snd (int_var lookup EnvHistoryMaxBytes DefaultHistoryMaxBytes MinHistoryMaxBytes MaxHistoryMaxBytes),
      snd (int_var lookup EnvHistoryPerObjectRevisions DefaultHistoryPerObjectRevisions MinHistoryPerObjectRevisions MaxHistoryPerObjectRevisions),
      snd (duration_var lookup EnvHistoryCoalesceWindow DefaultHistoryCoalesceWindow MinHistoryCoalesceWindow MaxHistoryCoalesceWindow),
      snd (path_var lookup EnvHistoryPath (switch_of lookup EnvHistoryEnabled True) EnvHistoryEnabled []),
      log_conflicts (reference_config parse_url lookup),
      snd (bool_var lookup EnvMetricsEnabled True),
      snd (duration_var lookup EnvMetricsInterval DefaultMetricsInterval MinMetricsInterval MaxMetricsInterval),
      snd (duration_var lookup EnvMetricsRetention DefaultMetricsRetention MinMetricsRetention MaxMetricsRetention),
      snd (bool_var lookup EnvInstanceStatusEnabled True),
      snd (duration_var lookup EnvInstanceStatusInterval DefaultInstanceStatusInterval MinMetricsInterval MaxMetricsInterval),
      snd (path_var lookup EnvInstanceStatusCAFile (switch_of lookup EnvInstanceStatusEnabled True) EnvInstanceStatusEnabled []),
      snd (path_var lookup EnvMetricsPath (switch_of lookup EnvMetricsEnabled True) EnvMetricsEnabled []),
      snd (link_var parse_url lookup EnvObjectStoreViewerURL (switch_of lookup EnvAllowInsecureLinks False)),
      snd (link_var parse_url lookup EnvPgAdminURL (switch_of lookup EnvAllowInsecureLinks False)),
      snd (link_var parse_url lookup EnvMonitoringURL (switch_of lookup EnvAllowInsecureLinks False)),
      evidence_errors_of lookup
     ]"

lemma load_evidence_split:
  assumes "cf_evidence_url c = []" "cf_evidence_token c = []" "cf_fingerprint c = []" "cf_barman_server c = []"
  shows "load_repository_evidence lookup (c, errs) =
     (c\<lparr>cf_evidence_url := if evidence_errors_of lookup = [] then read_evidence lookup EnvRepositoryEvidenceURL else [],
        cf_evidence_token := if evidence_errors_of lookup = [] then read_evidence lookup EnvRepositoryEvidenceTokenFile else [],
        cf_fingerprint := if evidence_errors_of lookup = [] then read_evidence lookup EnvRepositoryExpectedFingerprint else [],
        cf_barman_server := if evidence_errors_of lookup = [] then read_evidence lookup EnvRepositoryBarmanServer else []\<rparr>,
      errs @ evidence_errors_of lookup)"
proof -
  have same: "c\<lparr>cf_evidence_url := [], cf_evidence_token := [], cf_fingerprint := [], cf_barman_server := []\<rparr> = c"
    using assms by (cases c) simp
  show ?thesis
  proof (cases "read_evidence lookup EnvRepositoryEvidenceURL = [] \<and> read_evidence lookup EnvRepositoryEvidenceTokenFile = [] \<and>
      read_evidence lookup EnvRepositoryExpectedFingerprint = [] \<and> read_evidence lookup EnvRepositoryBarmanServer = []")
    case True
    then have "evidence_errors_of lookup = []" by (simp add: evidence_errors_of_def evidence_errors_def)
    with True same show ?thesis by (simp add: load_repository_evidence_def)
  next
    case False
    with same show ?thesis by (auto simp: load_repository_evidence_def evidence_errors_of_def [symmetric])
  qed
qed

lemma put_var_pair: "put_var reading put (c, errs) = (put (fst (reading c)) c, errs @ snd (reading c))"
  by (simp add: put_var_def)

lemma check_var_pair: "check_var checking (c, errs) = (c, errs @ checking c)"
  by (simp add: check_var_def)

lemma load_all_reference: "load_all parse_url lookup = (reference_config parse_url lookup, reference_errors parse_url lookup)"
  unfolding load_all_def load_stages_def
  by (simp add: put_var_pair check_var_pair load_evidence_split default_config_def reference_config_def
      reference_errors_def log_conflicts_def switch_of_def)

section \<open>What a loaded configuration promises\<close>

definition link_ok :: "(string \<Rightarrow> url option) \<Rightarrow> bool \<Rightarrow> string \<Rightarrow> bool" where
  "link_ok parse_url insecure raw \<longleftrightarrow>
     raw = [] \<or>
     (case parse_url raw of
        None \<Rightarrow> False
      | Some u \<Rightarrow>
          \<not> url_user u \<and>
          (if has_prefix raw ''/'' then
             url_scheme u = [] \<and> url_host u = [] \<and> \<not> (length raw > 1 \<and> (raw ! 1 = CHR ''/'' \<or> raw ! 1 = CHR 0x5C)) \<and>
             list_all (\<lambda>c. \<not> control_byte c \<and> c \<noteq> CHR '' '') raw
           else url_host u \<noteq> [] \<and> (url_scheme u = ''https'' \<or> insecure \<and> url_scheme u = ''http'')))"

definition within :: "int \<Rightarrow> int \<Rightarrow> int \<Rightarrow> bool" where
  "within minimum maximum v \<longleftrightarrow> minimum \<le> v \<and> v \<le> maximum"

definition label_ok :: "string \<Rightarrow> bool" where
  "label_ok raw \<longleftrightarrow> length raw \<le> 63 \<and> dns1123_label raw"

definition path_ok :: "bool \<Rightarrow> string \<Rightarrow> bool" where
  "path_ok enabled raw \<longleftrightarrow> raw = [] \<or> enabled \<and> absolute_path raw"

definition evidence_ok :: "config \<Rightarrow> bool" where
  "evidence_ok c \<longleftrightarrow>
     (if repository_evidence_enabled c then
        validate_evidence_addr (cf_evidence_url c) = None \<and> validate_evidence_token_file (cf_evidence_token c) = None \<and>
        validate_evidence_fingerprint (cf_fingerprint c) = None \<and> validate_barman_server_name (cf_barman_server c) = None
      else cf_evidence_token c = [] \<and> cf_fingerprint c = [] \<and> cf_barman_server c = [])"

definition identity_ok :: "config \<Rightarrow> bool" where
  "identity_ok c \<longleftrightarrow>
     label_ok (cf_cluster c) \<and> label_ok (cf_namespace c) \<and> validate_listen_addr (cf_listen_addr c) = None \<and>
     (cf_user_header c = [] \<or> header_name (cf_user_header c)) \<and> (cf_level_header c = [] \<or> header_name (cf_level_header c))"

definition logs_ok :: "config \<Rightarrow> bool" where
  "logs_ok c \<longleftrightarrow>
     within MinLogTailLines MaxLogTailLines (cf_tail_lines c) \<and> within MinLogTailMaxBytes MaxLogTailMaxBytes (cf_tail_bytes c) \<and>
     within 0 MaxLogBufferBytes (cf_log_buffer c) \<and> within 0 MaxLogBufferTotalBytes (cf_log_buffer_total c) \<and>
     within MinLogBufferMaxAge MaxLogBufferMaxAge (cf_log_buffer_age c) \<and>
     within MinLogMatchMaxAge MaxLogMatchMaxAge (cf_log_match_age c) \<and>
     (cf_log_stream c \<longrightarrow> cf_allow_logs c) \<and> (cf_log_buffer c > 0 \<longrightarrow> cf_log_stream c) \<and> cf_log_buffer c \<le> cf_log_buffer_total c"

definition stores_ok :: "config \<Rightarrow> bool" where
  "stores_ok c \<longleftrightarrow>
     within MinEventsMaxAge MaxEventsMaxAge (cf_events_age c) \<and> within MinAPIRequestTimeout MaxAPIRequestTimeout (cf_api_timeout c) \<and>
     within MinHistoryMaxRevisions MaxHistoryMaxRevisions (cf_history_revisions c) \<and>
     within MinHistoryMaxBytes MaxHistoryMaxBytes (cf_history_bytes c) \<and>
     within MinHistoryPerObjectRevisions MaxHistoryPerObjectRevisions (cf_history_per_object c) \<and>
     within MinHistoryCoalesceWindow MaxHistoryCoalesceWindow (cf_history_window c) \<and>
     within MinMetricsInterval MaxMetricsInterval (cf_metrics_interval c) \<and>
     within MinMetricsRetention MaxMetricsRetention (cf_metrics_retention c) \<and>
     within MinMetricsInterval MaxMetricsInterval (cf_status_interval c) \<and>
     path_ok (cf_history c) (cf_history_path c) \<and> path_ok (cf_metrics c) (cf_metrics_path c) \<and> path_ok (cf_status c) (cf_status_ca c)"

definition config_valid :: "(string \<Rightarrow> url option) \<Rightarrow> config \<Rightarrow> bool" where
  "config_valid parse_url c \<longleftrightarrow>
     identity_ok c \<and> logs_ok c \<and> stores_ok c \<and> evidence_ok c \<and>
     list_all (link_ok parse_url (cf_insecure_links c)) [cf_viewer_url c, cf_pgadmin_url c, cf_monitoring_url c]"

lemma label_reading: "snd (required_label lookup name) = [] \<Longrightarrow> label_ok (fst (required_label lookup name))"
  by (auto simp: required_label_def label_ok_def split: option.splits if_splits)

lemma listen_reading:
  "validate_listen_addr def = None \<Longrightarrow> validate_listen_addr (fst (listen_var lookup name def)) = None"
  by (auto simp: listen_var_def split: option.splits)

lemma header_reading:
  "header_name def \<Longrightarrow> fst (header_var lookup name def) = [] \<or> header_name (fst (header_var lookup name def))"
  by (auto simp: header_var_def split: option.splits)

lemma int_reading: "within minimum maximum def \<Longrightarrow> within minimum maximum (fst (int_var lookup name def minimum maximum))"
  by (auto simp: int_var_def within_def split: option.splits)

lemma duration_reading:
  "within minimum maximum def \<Longrightarrow> within minimum maximum (fst (duration_var lookup name def minimum maximum))"
  by (auto simp: duration_var_def within_def split: option.splits)

lemma path_reading: "path_ok enabled (fst (path_var lookup name enabled enabled_name []))"
  by (auto simp: path_var_def path_ok_def split: option.splits)

lemma validated_relative_link:
  "validate_relative_link parse_url raw = None \<Longrightarrow> has_prefix raw ''/'' \<Longrightarrow> link_ok parse_url insecure raw"
  by (auto simp: validate_relative_link_def link_ok_def control_byte_def list_all_iff list_ex_iff not_le
      split: option.splits if_splits)

lemma link_reading: "link_ok parse_url insecure (fst (link_var parse_url lookup name insecure))"
  by (auto simp: link_var_def validated_relative_link link_ok_def [of _ _ "[]"] split: option.splits)
    (auto simp: link_ok_def)

lemma evidence_reading:
  "evidence_errors addr token_file finger server = [] \<longleftrightarrow>
     addr = [] \<and> token_file = [] \<and> finger = [] \<and> server = [] \<or>
     validate_evidence_addr addr = None \<and> validate_evidence_token_file token_file = None \<and>
     validate_evidence_fingerprint finger = None \<and> validate_barman_server_name server = None"
  by (auto simp: evidence_errors_def evidence_error_def split: option.splits)

lemma evidence_present: "validate_evidence_addr [] \<noteq> None"
  by (simp add: validate_evidence_addr_def)

lemma reference_evidence:
  "cf_evidence_url (reference_config parse_url lookup) = (if evidence_errors_of lookup = [] then read_evidence lookup EnvRepositoryEvidenceURL else [])"
  "cf_evidence_token (reference_config parse_url lookup) = (if evidence_errors_of lookup = [] then read_evidence lookup EnvRepositoryEvidenceTokenFile else [])"
  "cf_fingerprint (reference_config parse_url lookup) = (if evidence_errors_of lookup = [] then read_evidence lookup EnvRepositoryExpectedFingerprint else [])"
  "cf_barman_server (reference_config parse_url lookup) = (if evidence_errors_of lookup = [] then read_evidence lookup EnvRepositoryBarmanServer else [])"
  by (simp_all add: reference_config_def)

lemma evidence_resolved: "evidence_ok (reference_config parse_url lookup)"
proof (cases "evidence_errors_of lookup = []")
  case True
  then have "evidence_errors (read_evidence lookup EnvRepositoryEvidenceURL) (read_evidence lookup EnvRepositoryEvidenceTokenFile)
      (read_evidence lookup EnvRepositoryExpectedFingerprint) (read_evidence lookup EnvRepositoryBarmanServer) = []"
    by (simp add: evidence_errors_of_def)
  note read = this [unfolded evidence_reading]
  show ?thesis
    unfolding evidence_ok_def repository_evidence_enabled_def reference_evidence
    using True read evidence_present by (cases "read_evidence lookup EnvRepositoryEvidenceURL = []") auto
qed (simp add: evidence_ok_def repository_evidence_enabled_def reference_evidence)

lemmas time_defs = second_def minute_def hour_def

lemma defaults_within:
  "within MinLogTailLines MaxLogTailLines DefaultLogTailLines" "within MinLogTailMaxBytes MaxLogTailMaxBytes DefaultLogTailMaxBytes"
  "within 0 MaxLogBufferBytes 0" "within 0 MaxLogBufferTotalBytes DefaultLogBufferTotalBytes"
  "within MinLogBufferMaxAge MaxLogBufferMaxAge DefaultLogBufferMaxAge"
  "within MinLogMatchMaxAge MaxLogMatchMaxAge DefaultLogMatchMaxAge"
  "within MinEventsMaxAge MaxEventsMaxAge DefaultEventsMaxAge"
  "within MinAPIRequestTimeout MaxAPIRequestTimeout DefaultAPIRequestTimeout"
  "within MinHistoryMaxRevisions MaxHistoryMaxRevisions DefaultHistoryMaxRevisions"
  "within MinHistoryMaxBytes MaxHistoryMaxBytes DefaultHistoryMaxBytes"
  "within MinHistoryPerObjectRevisions MaxHistoryPerObjectRevisions DefaultHistoryPerObjectRevisions"
  "within MinHistoryCoalesceWindow MaxHistoryCoalesceWindow DefaultHistoryCoalesceWindow"
  "within MinMetricsInterval MaxMetricsInterval DefaultMetricsInterval"
  "within MinMetricsRetention MaxMetricsRetention DefaultMetricsRetention"
  "within MinMetricsInterval MaxMetricsInterval DefaultInstanceStatusInterval"
  by (simp_all add: within_def bound_defs time_defs)

lemma default_names:
  "validate_listen_addr DefaultListenAddr = None" "header_name DefaultTrustedUserHeader" "header_name DefaultTrustedLevelHeader"
  by code_simp+

lemma resolved_valid:
  assumes "reference_errors parse_url lookup = []"
  shows "config_valid parse_url (reference_config parse_url lookup)"
proof -
  let ?c = "reference_config parse_url lookup"
  from assms have labels: "snd (required_label lookup EnvClusterName) = []" "snd (required_label lookup EnvNamespace) = []"
    and conflicts: "log_conflicts ?c = []"
    by (simp_all add: reference_errors_def)
  have "identity_ok ?c"
    using labels by (simp add: identity_ok_def reference_config_def label_reading listen_reading header_reading default_names)
  moreover have "logs_ok ?c"
  proof -
    from conflicts have "cf_log_stream ?c \<longrightarrow> cf_allow_logs ?c" "cf_log_buffer ?c > 0 \<longrightarrow> cf_log_stream ?c"
      "cf_log_buffer ?c \<le> cf_log_buffer_total ?c"
      by (auto simp: log_conflicts_def split: if_splits)
    then show ?thesis
      unfolding logs_ok_def by (simp add: reference_config_def int_reading duration_reading defaults_within)
  qed
  moreover have "stores_ok ?c"
    unfolding stores_ok_def
    by (simp add: reference_config_def int_reading duration_reading defaults_within path_reading switch_of_def)
  moreover have "list_all (link_ok parse_url (cf_insecure_links ?c)) [cf_viewer_url ?c, cf_pgadmin_url ?c, cf_monitoring_url ?c]"
    by (simp add: reference_config_def link_reading switch_of_def)
  ultimately show ?thesis by (simp add: config_valid_def evidence_resolved)
qed

lemma load_reference:
  "load_config parse_url lookup =
     (if reference_errors parse_url lookup = [] then Inr (reference_config parse_url lookup)
      else Inl (reference_errors parse_url lookup))"
  by (simp add: load_config_def load_all_reference)

text \<open>Validation is total: \<open>Load\<close> reports the violations of all the variables together, in the
order of the contract, and where there is none it returns the configuration in which every
variable has its own value or its default.\<close>

theorem load_checks_every_variable:
  "load_config parse_url lookup =
     (if reference_errors parse_url lookup = [] then Inr (reference_config parse_url lookup)
      else Inl (reference_errors parse_url lookup))"
  by (rule load_reference)

text \<open>C32. A configuration exists only in a valid state: whatever the environment, a configuration
that \<open>Load\<close> returns has every number and duration within its bounds, no conflicting switches, safe
link-outs, absolute paths, and the evidence variables all set and valid or all empty.\<close>

theorem loaded_config_is_valid:
  assumes "load_config parse_url lookup = Inr c"
  shows "config_valid parse_url c"
  using assms resolved_valid [of parse_url lookup] by (auto simp: load_reference split: if_splits)

section \<open>What an error reveals\<close>

definition label_errors :: "string \<Rightarrow> var_error list" where
  "label_errors name = [fail name ''is required'', fail name ''must be a DNS-1123 label'']"

definition listen_errors :: "string \<Rightarrow> var_error list" where
  "listen_errors name = [fail name ''must be a host:port listen address'', fail name ''must use a numeric port'']"

definition path_errors :: "string \<Rightarrow> string \<Rightarrow> var_error list" where
  "path_errors name enabled_name =
     [fail name ''must be an absolute file path'', fail name (''requires '' @ enabled_name @ ''=true'')]"

definition link_errors :: "string \<Rightarrow> var_error list" where
  "link_errors name =
     [fail name relative_constraint, fail name ''must not contain spaces or control characters; percent-encode them'',
      fail name ''must be an absolute URL or a root-relative path'', fail name ''must not contain user information'',
      fail name (''http scheme requires '' @ EnvAllowInsecureLinks @ ''=true''), fail name ''must use the https scheme'']"

definition all_evidence_errors :: "var_error list" where
  "all_evidence_errors =
     map (\<lambda>name. fail name required_with_evidence)
       [EnvRepositoryEvidenceURL, EnvRepositoryEvidenceTokenFile, EnvRepositoryExpectedFingerprint, EnvRepositoryBarmanServer] @
     [fail EnvRepositoryEvidenceURL ''must be a unix:// socket URI or an absolute socket path'',
      fail EnvRepositoryEvidenceTokenFile ''must be an absolute file path'',
      fail EnvRepositoryExpectedFingerprint fingerprint_constraint, fail EnvRepositoryBarmanServer barman_constraint]"

text \<open>Every error there can be: a constant, without a value of the environment in it.\<close>

definition possible_errors :: "var_error list" where
  "possible_errors = concat
     [label_errors EnvClusterName,
      label_errors EnvNamespace,
      listen_errors EnvListenAddr,
      [fail EnvTrustedUserHeader ''must be a valid HTTP header name''],
      [fail EnvTrustedLevelHeader ''must be a valid HTTP header name''],
      [fail EnvAllowOperations bool_constraint],
      [fail EnvAllowClusterCatalogs bool_constraint],
      [fail EnvAllowAccessReview bool_constraint],
      [fail EnvAllowDiagnostics bool_constraint],
      [fail EnvAllowLogs bool_constraint],
      [fail EnvLogStreamEnabled bool_constraint],
      [fail EnvLogBufferBytes (int_constraint 0 MaxLogBufferBytes)],
      [fail EnvLogBufferTotalBytes (int_constraint 0 MaxLogBufferTotalBytes)],
      [fail EnvLogBufferMaxAge (duration_constraint MinLogBufferMaxAge MaxLogBufferMaxAge)],
      [fail EnvLogMatchMaxAge (duration_constraint MinLogMatchMaxAge MaxLogMatchMaxAge)],
      [fail EnvAllowInsecureLinks bool_constraint],
      [fail EnvLogTailLines (int_constraint MinLogTailLines MaxLogTailLines)],
      [fail EnvLogTailMaxBytes (int_constraint MinLogTailMaxBytes MaxLogTailMaxBytes)],
      [fail EnvEventsMaxAge (duration_constraint MinEventsMaxAge MaxEventsMaxAge)],
      [fail EnvAPIRequestTimeout (duration_constraint MinAPIRequestTimeout MaxAPIRequestTimeout)],
      [fail EnvHistoryEnabled bool_constraint],
      [fail EnvHistoryMaxRevisions (int_constraint MinHistoryMaxRevisions MaxHistoryMaxRevisions)],
      [fail EnvHistoryMaxBytes (int_constraint MinHistoryMaxBytes MaxHistoryMaxBytes)],
      [fail EnvHistoryPerObjectRevisions (int_constraint MinHistoryPerObjectRevisions MaxHistoryPerObjectRevisions)],
      [fail EnvHistoryCoalesceWindow (duration_constraint MinHistoryCoalesceWindow MaxHistoryCoalesceWindow)],
      path_errors EnvHistoryPath EnvHistoryEnabled,
      [fail EnvLogStreamEnabled (''requires '' @ EnvAllowLogs @ ''=true''),
       fail EnvLogBufferBytes (''requires '' @ EnvLogStreamEnabled @ ''=true''),
       fail EnvLogBufferBytes (''must not exceed '' @ EnvLogBufferTotalBytes)],
      [fail EnvMetricsEnabled bool_constraint],
      [fail EnvMetricsInterval (duration_constraint MinMetricsInterval MaxMetricsInterval)],
      [fail EnvMetricsRetention (duration_constraint MinMetricsRetention MaxMetricsRetention)],
      [fail EnvInstanceStatusEnabled bool_constraint],
      [fail EnvInstanceStatusInterval (duration_constraint MinMetricsInterval MaxMetricsInterval)],
      path_errors EnvInstanceStatusCAFile EnvInstanceStatusEnabled,
      path_errors EnvMetricsPath EnvMetricsEnabled,
      link_errors EnvObjectStoreViewerURL,
      link_errors EnvPgAdminURL,
      link_errors EnvMonitoringURL,
      all_evidence_errors
     ]"

lemma reading_errors:
  "set (snd (required_label lookup name)) \<subseteq> set (label_errors name)"
  "set (snd (listen_var lookup name current)) \<subseteq> set (listen_errors name)"
  "set (snd (header_var lookup name current)) \<subseteq> {fail name ''must be a valid HTTP header name''}"
  "set (snd (bool_var lookup name b)) \<subseteq> {fail name bool_constraint}"
  "set (snd (int_var lookup name def minimum maximum)) \<subseteq> {fail name (int_constraint minimum maximum)}"
  "set (snd (duration_var lookup name def minimum maximum)) \<subseteq> {fail name (duration_constraint minimum maximum)}"
  "set (snd (path_var lookup name enabled enabled_name current)) \<subseteq> set (path_errors name enabled_name)"
  "set (snd (link_var parse_url lookup name insecure)) \<subseteq> set (link_errors name)"
  by (auto simp: required_label_def listen_var_def header_var_def bool_var_def int_var_def duration_var_def path_var_def
      link_var_def label_errors_def listen_errors_def path_errors_def link_errors_def validate_listen_addr_def
      validate_relative_link_def split: option.splits if_splits)

lemma evidence_reading_errors: "set (evidence_errors_of lookup) \<subseteq> set all_evidence_errors"
  by (auto simp: evidence_errors_of_def evidence_errors_def evidence_error_def all_evidence_errors_def validate_evidence_addr_def
      validate_evidence_token_file_def validate_evidence_fingerprint_def validate_barman_server_name_def Let_def
      split: option.splits if_splits)

lemma conflict_errors:
  "set (log_conflicts c) \<subseteq>
     {fail EnvLogStreamEnabled (''requires '' @ EnvAllowLogs @ ''=true''),
      fail EnvLogBufferBytes (''requires '' @ EnvLogStreamEnabled @ ''=true''),
      fail EnvLogBufferBytes (''must not exceed '' @ EnvLogBufferTotalBytes)}"
  by (auto simp: log_conflicts_def)

lemma concat_subset_pointwise: "list_all2 (\<lambda>xs ys. set xs \<subseteq> set ys) xss yss \<Longrightarrow> set (concat xss) \<subseteq> set (concat yss)"
  by (induction rule: list_all2_induct) auto

lemma reference_errors_possible: "set (reference_errors parse_url lookup) \<subseteq> set possible_errors"
  unfolding reference_errors_def possible_errors_def
  by (rule concat_subset_pointwise) (simp add: reading_errors evidence_reading_errors conflict_errors [simplified])

text \<open>C33. A validation error never echoes what was supplied: whatever the environment holds and
however URLs parse, the errors \<open>Load\<close> reports are among a fixed list of variable names and
constraints, and when it fails it reports at least one.\<close>

theorem errors_never_echo_a_value:
  assumes "load_config parse_url lookup = Inl errs"
  shows "errs \<noteq> [] \<and> set errs \<subseteq> set possible_errors"
  using assms reference_errors_possible [of parse_url lookup] by (auto simp: load_reference split: if_splits)

section \<open>What is read\<close>

lemmas reading_defs = required_label_def listen_var_def header_var_def bool_var_def int_var_def duration_var_def path_var_def
  link_var_def read_evidence_def switch_of_def

lemma reference_cong:
  assumes "\<forall>name \<in> set env_names. lookup name = lookup' name"
  shows "reference_config parse_url lookup = reference_config parse_url lookup' \<and>
    reference_errors parse_url lookup = reference_errors parse_url lookup'"
proof -
  have eqs:
    "lookup EnvClusterName = lookup' EnvClusterName"
    "lookup EnvNamespace = lookup' EnvNamespace"
    "lookup EnvListenAddr = lookup' EnvListenAddr"
    "lookup EnvTrustedUserHeader = lookup' EnvTrustedUserHeader"
    "lookup EnvTrustedLevelHeader = lookup' EnvTrustedLevelHeader"
    "lookup EnvAllowOperations = lookup' EnvAllowOperations"
    "lookup EnvAllowClusterCatalogs = lookup' EnvAllowClusterCatalogs"
    "lookup EnvAllowAccessReview = lookup' EnvAllowAccessReview"
    "lookup EnvAllowDiagnostics = lookup' EnvAllowDiagnostics"
    "lookup EnvLogStreamEnabled = lookup' EnvLogStreamEnabled"
    "lookup EnvLogBufferBytes = lookup' EnvLogBufferBytes"
    "lookup EnvLogBufferTotalBytes = lookup' EnvLogBufferTotalBytes"
    "lookup EnvLogBufferMaxAge = lookup' EnvLogBufferMaxAge"
    "lookup EnvLogMatchMaxAge = lookup' EnvLogMatchMaxAge"
    "lookup EnvAllowLogs = lookup' EnvAllowLogs"
    "lookup EnvLogTailLines = lookup' EnvLogTailLines"
    "lookup EnvLogTailMaxBytes = lookup' EnvLogTailMaxBytes"
    "lookup EnvEventsMaxAge = lookup' EnvEventsMaxAge"
    "lookup EnvAPIRequestTimeout = lookup' EnvAPIRequestTimeout"
    "lookup EnvHistoryEnabled = lookup' EnvHistoryEnabled"
    "lookup EnvHistoryMaxRevisions = lookup' EnvHistoryMaxRevisions"
    "lookup EnvHistoryMaxBytes = lookup' EnvHistoryMaxBytes"
    "lookup EnvHistoryPerObjectRevisions = lookup' EnvHistoryPerObjectRevisions"
    "lookup EnvHistoryCoalesceWindow = lookup' EnvHistoryCoalesceWindow"
    "lookup EnvHistoryPath = lookup' EnvHistoryPath"
    "lookup EnvMetricsEnabled = lookup' EnvMetricsEnabled"
    "lookup EnvMetricsInterval = lookup' EnvMetricsInterval"
    "lookup EnvMetricsRetention = lookup' EnvMetricsRetention"
    "lookup EnvInstanceStatusEnabled = lookup' EnvInstanceStatusEnabled"
    "lookup EnvInstanceStatusInterval = lookup' EnvInstanceStatusInterval"
    "lookup EnvInstanceStatusCAFile = lookup' EnvInstanceStatusCAFile"
    "lookup EnvMetricsPath = lookup' EnvMetricsPath"
    "lookup EnvObjectStoreViewerURL = lookup' EnvObjectStoreViewerURL"
    "lookup EnvPgAdminURL = lookup' EnvPgAdminURL"
    "lookup EnvMonitoringURL = lookup' EnvMonitoringURL"
    "lookup EnvAllowInsecureLinks = lookup' EnvAllowInsecureLinks"
    "lookup EnvRepositoryEvidenceURL = lookup' EnvRepositoryEvidenceURL"
    "lookup EnvRepositoryEvidenceTokenFile = lookup' EnvRepositoryEvidenceTokenFile"
    "lookup EnvRepositoryExpectedFingerprint = lookup' EnvRepositoryExpectedFingerprint"
    "lookup EnvRepositoryBarmanServer = lookup' EnvRepositoryBarmanServer"
    using assms by (simp_all add: env_names_def)
  have "reference_config parse_url lookup = reference_config parse_url lookup'"
    by (simp only: reference_config_def evidence_errors_of_def reading_defs eqs)
  then show ?thesis
    by (simp only: reference_errors_def evidence_errors_of_def reading_defs eqs)
qed

text \<open>Configuration is read through the named variables only: two environments that agree on them
load the same configuration or the same errors.\<close>

theorem only_the_named_variables_are_read:
  assumes "\<forall>name \<in> set env_names. lookup name = lookup' name"
  shows "load_config parse_url lookup = load_config parse_url lookup'"
  using reference_cong [OF assms] by (simp add: load_reference)

section \<open>The minimal environment\<close>

lemma reading_unset:
  assumes "lookup name = None"
  shows "listen_var lookup name v = (v, [])" "header_var lookup name v = (v, [])" "bool_var lookup name b = (b, [])"
    "int_var lookup name d lo hi = (d, [])" "duration_var lookup name d lo hi = (d, [])"
    "path_var lookup name b e v = (v, [])" "link_var parse_url lookup name b = ([], [])"
    "read_evidence lookup name = []" "switch_of lookup name b = b" "required_label lookup name = ([], [fail name ''is required''])"
  using assms
  by (simp_all add: reading_defs)

definition minimal :: "string \<Rightarrow> string \<Rightarrow> lookup" where
  "minimal cluster namespace = map_of [(EnvClusterName, cluster), (EnvNamespace, namespace)]"

lemma minimal_simps [simp]:
  "minimal cluster namespace EnvClusterName = Some cluster" "minimal cluster namespace EnvNamespace = Some namespace"
  "name \<notin> {EnvClusterName, EnvNamespace} \<Longrightarrow> minimal cluster namespace name = None"
  by (simp_all add: minimal_def env_defs)

definition minimal_config :: "string \<Rightarrow> string \<Rightarrow> config" where
  "minimal_config cluster namespace =
     default_config\<lparr>cf_cluster := cluster, cf_namespace := namespace, cf_log_buffer_total := DefaultLogBufferTotalBytes,
       cf_log_buffer_age := DefaultLogBufferMaxAge, cf_log_match_age := DefaultLogMatchMaxAge\<rparr>"

lemma evidence_unset:
  assumes "lookup EnvRepositoryEvidenceURL = None" "lookup EnvRepositoryEvidenceTokenFile = None"
    "lookup EnvRepositoryExpectedFingerprint = None" "lookup EnvRepositoryBarmanServer = None"
  shows "evidence_errors_of lookup = []"
  using assms by (simp add: evidence_errors_of_def evidence_errors_def reading_unset)

lemma minimal_unset: "name \<in> set (drop 2 env_names) \<Longrightarrow> minimal cluster namespace name = None"
  unfolding env_names_def by (intro minimal_simps) (auto simp: env_defs)

lemma minimal_load:
  assumes "label_ok cluster" "label_ok namespace"
  shows "load_config parse_url (minimal cluster namespace) = Inr (minimal_config cluster namespace)"
proof -
  let ?l = "minimal cluster namespace"
  have labels: "required_label ?l EnvClusterName = (cluster, [])" "required_label ?l EnvNamespace = (namespace, [])"
    using assms by (auto simp: required_label_def label_ok_def dns1123_label_def)
  note read = reading_unset [of ?l] and none = minimal_unset [of _ cluster namespace]
  note unset = none [THEN read(1)] none [THEN read(2)] none [THEN read(3)] none [THEN read(4)] none [THEN read(5)]
    none [THEN read(6)] none [THEN read(7)] none [THEN read(8)] none [THEN read(9)]
  have evidence: "evidence_errors_of ?l = []"
    by (rule evidence_unset; rule minimal_unset; simp add: env_names_def)
  have cfg: "reference_config parse_url ?l = minimal_config cluster namespace"
    by (simp add: reference_config_def minimal_config_def default_config_def labels evidence unset env_names_def)
  have "log_conflicts (minimal_config cluster namespace) = []"
    by (simp add: log_conflicts_def minimal_config_def default_config_def DefaultLogBufferTotalBytes_def)
  then have "reference_errors parse_url ?l = []"
    by (simp add: reference_errors_def cfg labels evidence unset env_names_def)
  with cfg show ?thesis by (simp add: load_reference)
qed

text \<open>The two required names are enough: an environment that sets only them to labels loads, and
every other field has its documented default.\<close>

theorem the_required_names_are_enough:
  assumes "label_ok cluster" "label_ok namespace"
  shows "load_config parse_url (minimal cluster namespace) = Inr (minimal_config cluster namespace)"
  by (rule minimal_load [OF assms])

lemma sample_labels: "label_ok ''pg-main''" "label_ok ''db1''"
  by code_simp+

lemma the_required_names_are_enough_witness:
  "load_config (\<lambda>_. None) (minimal ''pg-main'' ''db1'') = Inr (minimal_config ''pg-main'' ''db1'')"
  by (rule the_required_names_are_enough [OF sample_labels])

lemma loaded_config_is_valid_witness: "config_valid (\<lambda>_. None) (minimal_config ''pg-main'' ''db1'')"
  by (rule loaded_config_is_valid [OF minimal_load [OF sample_labels]])

lemma errors_never_echo_a_value_witness:
  "\<exists>errs. load_config (\<lambda>_. None) (\<lambda>_. None) = Inl errs \<and> errs \<noteq> [] \<and> set errs \<subseteq> set possible_errors"
proof -
  have "reference_errors (\<lambda>_. None) (\<lambda>_. None) \<noteq> []"
    by (simp add: reference_errors_def reading_unset)
  then have "load_config (\<lambda>_. None) (\<lambda>_. None) = Inl (reference_errors (\<lambda>_. None) (\<lambda>_. None))"
    by (simp add: load_reference)
  with errors_never_echo_a_value [OF this] show ?thesis by blast
qed

lemma only_the_named_variables_are_read_witness:
  "load_config (\<lambda>_. None) ((minimal ''pg-main'' ''db1'')(''HOME'' \<mapsto> ''x'')) =
   load_config (\<lambda>_. None) (minimal ''pg-main'' ''db1'')"
  by (rule only_the_named_variables_are_read) (simp add: env_names_def env_defs)

end
