(* ===== verification/Metrics.thy ===== *)
theory Metrics
  imports Prelude "HOL-Library.Sublist"
begin

text \<open>
  The metrics window, \<open>internal/metrics/store.go\<close>, with the limits and the catalog shape of
  \<open>metrics.go\<close>. The catalog's entries are a value of the model: what the store reads of one is its
  key and its kind. The operations of \<open>float64\<close> are the record \<open>float_ops\<close>, an argument of the
  definitions that compute with samples; the theorems hold for every choice of it.
\<close>

section \<open>A ring as a bounded window\<close>

record 'a ring =
  rg_buf :: "'a list"
  rg_next :: nat
  rg_full :: bool

definition new_ring :: "'a \<Rightarrow> int \<Rightarrow> 'a ring" where
  "new_ring zero capacity =
     \<lparr>rg_buf = replicate (nat (if capacity < 1 then 1 else capacity)) zero, rg_next = 0, rg_full = False\<rparr>"

definition ring_push :: "'a \<Rightarrow> 'a ring \<Rightarrow> 'a ring" where
  "ring_push v r =
     (let r1 = r\<lparr>rg_buf := (rg_buf r)[rg_next r := v], rg_next := rg_next r + 1\<rparr>
      in if rg_next r1 = length (rg_buf r1) then r1\<lparr>rg_next := 0, rg_full := True\<rparr> else r1)"

text \<open>What \<open>each\<close> visits, in order.\<close>

definition ring_each :: "'a ring \<Rightarrow> 'a list" where
  "ring_each r = (if rg_full r then drop (rg_next r) (rg_buf r) else []) @ take (rg_next r) (rg_buf r)"

definition ring_last :: "'a ring \<Rightarrow> 'a option" where
  "ring_last r =
     (if rg_next r > 0 then Some (rg_buf r ! (rg_next r - 1))
      else if rg_full r then Some (rg_buf r ! (length (rg_buf r) - 1))
      else None)"

definition ring_ok :: "'a ring \<Rightarrow> bool" where
  "ring_ok r \<longleftrightarrow> rg_next r < length (rg_buf r)"

definition ring_capacity :: "'a ring \<Rightarrow> nat" where
  "ring_capacity r = length (rg_buf r)"

definition last_n :: "nat \<Rightarrow> 'a list \<Rightarrow> 'a list" where
  "last_n n xs = drop (length xs - n) xs"

lemma last_n_short: "length xs \<le> n \<Longrightarrow> last_n n xs = xs"
  by (simp add: last_n_def)

lemma length_last_n: "length (last_n n xs) = min n (length xs)"
  by (simp add: last_n_def)

lemma last_n_last_n_append: "last_n n (last_n n xs @ ys) = last_n n (xs @ ys)"
proof (cases "length xs \<le> n")
  case False
  then have "last_n n xs = drop (length xs - n) xs" and "length (last_n n xs) = n" by (simp_all add: last_n_def)
  with False show ?thesis by (auto simp: last_n_def drop_append add.commute)
qed (simp add: last_n_short)

lemma last_n_Cons: "length xs = n \<Longrightarrow> last_n n (x # xs) = xs"
  by (simp add: last_n_def)

text \<open>The contract of a bounded window: pushing keeps the newest entries up to the capacity.\<close>

locale window =
  fixes push :: "'a \<Rightarrow> 'w \<Rightarrow> 'w"
    and contents :: "'w \<Rightarrow> 'a list"
    and capacity :: "'w \<Rightarrow> nat"
    and ok :: "'w \<Rightarrow> bool"
  assumes push_ok: "ok w \<Longrightarrow> ok (push v w)"
    and push_capacity: "ok w \<Longrightarrow> capacity (push v w) = capacity w"
    and push_contents: "ok w \<Longrightarrow> contents (push v w) = last_n (capacity w) (contents w @ [v])"
    and bounded: "ok w \<Longrightarrow> length (contents w) \<le> capacity w"
begin

lemma pushes_ok: "ok w \<Longrightarrow> ok (fold push vs w) \<and> capacity (fold push vs w) = capacity w"
  by (induction vs arbitrary: w) (simp_all add: push_ok push_capacity)

lemma pushes_contents: "ok w \<Longrightarrow> contents (fold push vs w) = last_n (capacity w) (contents w @ vs)"
proof (induction vs arbitrary: w)
  case Nil
  then show ?case by (simp add: last_n_short bounded)
next
  case (Cons v vs)
  have "contents (fold push (v # vs) w) = last_n (capacity w) (last_n (capacity w) (contents w @ [v]) @ vs)"
    using Cons push_ok push_capacity push_contents by simp
  then show ?case by (simp add: last_n_last_n_append)
qed

lemma refill:
  assumes "ok w" "contents w = []" "length vs \<le> capacity w"
  shows "contents (fold push vs w) = vs"
  using assms by (simp add: pushes_contents last_n_short)

end

lemma ring_push_each:
  assumes "ring_ok r"
  shows "ring_each (ring_push v r) = last_n (ring_capacity r) (ring_each r @ [v])"
proof -
  let ?n = "rg_next r" and ?b = "rg_buf r"
  have n: "?n < length ?b" using assms by (simp add: ring_ok_def)
  have upd: "take (Suc ?n) (?b[?n := v]) = take ?n ?b @ [v]" using n by (simp add: take_Suc_conv_app_nth)
  have rest: "drop (Suc ?n) (?b[?n := v]) = drop (Suc ?n) ?b" by simp
  have split: "drop ?n ?b = ?b ! ?n # drop (Suc ?n) ?b" using n by (simp add: Cons_nth_drop_Suc)
  show ?thesis
  proof (cases "Suc ?n = length ?b")
    case True
    then have all: "?b[?n := v] = take ?n ?b @ [v]" using upd by simp
    show ?thesis
    proof (cases "rg_full r")
      case True
      have "drop ?n ?b = [?b ! ?n]" using split \<open>Suc ?n = length ?b\<close> by simp
      with True \<open>Suc ?n = length ?b\<close> all show ?thesis
        by (simp add: ring_push_def ring_each_def last_n_def ring_capacity_def Let_def)
    next
      case False
      with \<open>Suc ?n = length ?b\<close> all show ?thesis
        by (simp add: ring_push_def ring_each_def last_n_def ring_capacity_def Let_def)
    qed
  next
    case False
    then have less: "Suc ?n < length ?b" using n by simp
    show ?thesis
    proof (cases "rg_full r")
      case True
      with less have "ring_each (ring_push v r) = drop (Suc ?n) ?b @ take ?n ?b @ [v]"
        by (simp add: ring_push_def ring_each_def Let_def upd rest)
      moreover have "ring_each r @ [v] = ?b ! ?n # (drop (Suc ?n) ?b @ take ?n ?b @ [v])"
        using True split by (simp add: ring_each_def)
      moreover have "length (drop (Suc ?n) ?b @ take ?n ?b @ [v]) = ring_capacity r"
        using less by (simp add: ring_capacity_def)
      ultimately show ?thesis by (metis last_n_Cons)
    next
      case False
      with less show ?thesis
        by (simp add: ring_push_def ring_each_def last_n_def ring_capacity_def Let_def upd)
    qed
  qed
qed

lemma ring_push_ok: "ring_ok r \<Longrightarrow> ring_ok (ring_push v r)"
  by (auto simp: ring_ok_def ring_push_def Let_def)

lemma ring_push_capacity: "ring_capacity (ring_push v r) = ring_capacity r"
  by (simp add: ring_capacity_def ring_push_def Let_def)

interpretation ring: window ring_push ring_each ring_capacity ring_ok
  by unfold_locales
    (simp_all add: ring_push_ok ring_push_capacity ring_push_each, simp add: ring_each_def ring_capacity_def ring_ok_def)

lemma new_ring_ok [simp]: "ring_ok (new_ring zero n)" "ring_each (new_ring zero n) = []"
  "ring_capacity (new_ring zero n) = nat (max 1 n)"
  by (simp_all add: ring_ok_def new_ring_def ring_each_def ring_capacity_def max_def)

lemma ring_last_each: "ring_ok r \<Longrightarrow> ring_last r = (if ring_each r = [] then None else Some (last (ring_each r)))"
  by (cases "rg_buf r = []") (auto simp: ring_ok_def ring_last_def ring_each_def last_conv_nth last_append)

section \<open>Catalog, limits and values\<close>

datatype kind = Gauge | Counter

record series_def =
  sd_key :: string
  sd_kind :: kind

record metric_catalog =
  mc_series :: "series_def list"
  mc_instants :: "string list"

definition series_by_key :: "metric_catalog \<Rightarrow> string \<Rightarrow> series_def option" where
  "series_by_key c key = find (\<lambda>def. sd_key def = key) (mc_series c)"

record metric_limits =
  ml_interval :: duration
  ml_raw_window :: duration
  ml_retention :: duration
  ml_rollup_every :: duration
  ml_max_instances :: int

definition default_interval :: duration where "default_interval = 10 * second"
definition default_raw_window :: duration where "default_raw_window = 6 * hour"
definition default_retention :: duration where "default_retention = 7 * 24 * hour"
definition default_rollup_every :: duration where "default_rollup_every = 5 * minute"
definition default_instances :: int where "default_instances = 8"

definition with_defaults :: "metric_limits \<Rightarrow> metric_limits" where
  "with_defaults l =
     \<lparr>ml_interval = (if ml_interval l \<le> 0 then default_interval else ml_interval l),
      ml_raw_window = (if ml_raw_window l \<le> 0 then default_raw_window else ml_raw_window l),
      ml_retention = (if ml_retention l \<le> 0 then default_retention else ml_retention l),
      ml_rollup_every = (if ml_rollup_every l \<le> 0 then default_rollup_every else ml_rollup_every l),
      ml_max_instances = (if ml_max_instances l \<le> 0 then default_instances else ml_max_instances l)\<rparr>"

record 'v float_ops =
  fl_zero :: 'v
  fl_less :: "'v \<Rightarrow> 'v \<Rightarrow> bool"
  fl_add :: "'v \<Rightarrow> 'v \<Rightarrow> 'v"
  fl_sub :: "'v \<Rightarrow> 'v \<Rightarrow> 'v"
  fl_div :: "'v \<Rightarrow> 'v \<Rightarrow> 'v"
  fl_of_int :: "int \<Rightarrow> 'v"

section \<open>The store\<close>

record 'v sample =
  sa_at :: int
  sa_val :: 'v

record 'v bucket =
  bk_start :: int
  bk_min :: 'v
  bk_max :: 'v
  bk_sum :: 'v
  bk_count :: int

record 'v instrument =
  im_raw :: "'v sample ring"
  im_roll :: "'v bucket ring"
  im_open :: "'v bucket"
  im_prev :: 'v
  im_prev_at :: int

record 'v instant_reading =
  ir_at :: int
  ir_value :: 'v

text \<open>The nil map of instants after an import reads and ranges like the empty one.\<close>

record 'v instance_series =
  is_by_key :: "(string, 'v instrument) gomap"
  is_instant :: "(string, 'v instant_reading) gomap"
  is_last_at :: int

record 'v metric_store =
  ms_catalog :: metric_catalog
  ms_limits :: metric_limits
  ms_instances :: "(string, 'v instance_series) gomap"

definition new_metric_store :: "metric_catalog \<Rightarrow> metric_limits \<Rightarrow> 'v metric_store" where
  "new_metric_store cat l = \<lparr>ms_catalog = cat, ms_limits = with_defaults l, ms_instances = []\<rparr>"

definition empty_bucket :: "'v float_ops \<Rightarrow> 'v bucket" where
  "empty_bucket fl = \<lparr>bk_start = 0, bk_min = fl_zero fl, bk_max = fl_zero fl, bk_sum = fl_zero fl, bk_count = 0\<rparr>"

definition zero_sample :: "'v float_ops \<Rightarrow> 'v sample" where
  "zero_sample fl = \<lparr>sa_at = 0, sa_val = fl_zero fl\<rparr>"

definition raw_capacity :: "metric_limits \<Rightarrow> int" where
  "raw_capacity l = quo (ml_raw_window l) (ml_interval l)"

definition roll_capacity :: "metric_limits \<Rightarrow> int" where
  "roll_capacity l = quo (ml_retention l) (ml_rollup_every l)"

definition new_instrument :: "'v float_ops \<Rightarrow> metric_limits \<Rightarrow> 'v instrument" where
  "new_instrument fl l =
     \<lparr>im_raw = new_ring (zero_sample fl) (raw_capacity l), im_roll = new_ring (empty_bucket fl) (roll_capacity l),
      im_open = empty_bucket fl, im_prev = fl_zero fl, im_prev_at = 0\<rparr>"

text \<open>\<open>instrument.append\<close>: one converted sample into both tiers. The width of a bucket is at least one
second, as the code requires to divide by it.\<close>

definition instrument_append :: "'v float_ops \<Rightarrow> int \<Rightarrow> 'v \<Rightarrow> duration \<Rightarrow> 'v instrument \<Rightarrow> 'v instrument" where
  "instrument_append fl ts v rollup_every i =
     (let i1 = i\<lparr>im_raw := ring_push \<lparr>sa_at = ts, sa_val = v\<rparr> (im_raw i)\<rparr>;
          start = ts - rem ts (quo rollup_every second);
          i2 = (if bk_count (im_open i1) > 0 \<and> bk_start (im_open i1) \<noteq> start
                then i1\<lparr>im_roll := ring_push (im_open i1) (im_roll i1), im_open := empty_bucket fl\<rparr> else i1);
          opened = (if bk_count (im_open i2) = 0
                    then (empty_bucket fl)\<lparr>bk_start := start, bk_min := v, bk_max := v\<rparr>
                    else (im_open i2)\<lparr>bk_min := (if fl_less fl v (bk_min (im_open i2)) then v else bk_min (im_open i2)),
                                     bk_max := (if fl_less fl (bk_max (im_open i2)) v then v else bk_max (im_open i2))\<rparr>)
      in i2\<lparr>im_open := opened\<lparr>bk_sum := fl_add fl (bk_sum opened) v, bk_count := bk_count opened + 1\<rparr>\<rparr>)"

text \<open>One reported value of a series: \<open>None\<close> is a counter's first sight or reset.\<close>

definition counter_rate :: "'v float_ops \<Rightarrow> int \<Rightarrow> 'v \<Rightarrow> 'v instrument \<Rightarrow> 'v option" where
  "counter_rate fl ts value i =
     (if im_prev_at i = 0 \<or> ts \<le> im_prev_at i \<or> fl_less fl value (im_prev i) then None
      else Some (fl_div fl (fl_sub fl value (im_prev i)) (fl_of_int fl (ts - im_prev_at i))))"

definition observe_value :: "'v float_ops \<Rightarrow> metric_limits \<Rightarrow> int \<Rightarrow> kind \<Rightarrow> 'v \<Rightarrow> 'v instrument \<Rightarrow> 'v instrument" where
  "observe_value fl l ts kind value i =
     (case kind of
        Gauge \<Rightarrow> instrument_append fl ts value (ml_rollup_every l) i
      | Counter \<Rightarrow>
          let i1 = i\<lparr>im_prev := value, im_prev_at := ts\<rparr>
          in case counter_rate fl ts value i of
               None \<Rightarrow> i1
             | Some rate \<Rightarrow> instrument_append fl ts rate (ml_rollup_every l) i1)"

definition observe_series ::
    "'v float_ops \<Rightarrow> metric_limits \<Rightarrow> int \<Rightarrow> (string, 'v) gomap \<Rightarrow> series_def \<Rightarrow> 'v instance_series \<Rightarrow> 'v instance_series" where
  "observe_series fl l ts values def inst =
     (case mget values (sd_key def) of
        None \<Rightarrow> inst
      | Some value \<Rightarrow>
          let ins = (case mget (is_by_key inst) (sd_key def) of None \<Rightarrow> new_instrument fl l | Some i \<Rightarrow> i)
          in inst\<lparr>is_by_key := mput (sd_key def) (observe_value fl l ts (sd_kind def) value ins) (is_by_key inst)\<rparr>)"

definition observe_instant :: "int \<Rightarrow> (string, 'v) gomap \<Rightarrow> string \<Rightarrow> 'v instance_series \<Rightarrow> 'v instance_series" where
  "observe_instant ts instants key inst =
     (case mget instants key of
        None \<Rightarrow> inst
      | Some value \<Rightarrow> inst\<lparr>is_instant := mput key \<lparr>ir_at = ts, ir_value = value\<rparr> (is_instant inst)\<rparr>)"

text \<open>The instance the loop of \<open>evictForLocked\<close> ends with. Go ranges over the map in any order; the
order of the list stands for it.\<close>

fun oldest_instance :: "(string \<times> 'v instance_series) list \<Rightarrow> string \<times> int \<Rightarrow> string \<times> int" where
  "oldest_instance [] best = best"
| "oldest_instance ((name, inst) # rest) best =
     oldest_instance rest
       (if fst best = [] \<or> is_last_at inst < snd best then (name, is_last_at inst) else best)"

definition evict_for :: "'v metric_store \<Rightarrow> 'v metric_store" where
  "evict_for s =
     (if int (length (ms_instances s)) < ml_max_instances (ms_limits s) then s
      else s\<lparr>ms_instances := mdel (fst (oldest_instance (ms_instances s) ([], 0))) (ms_instances s)\<rparr>)"

definition empty_instance :: "'v instance_series" where
  "empty_instance = \<lparr>is_by_key = [], is_instant = [], is_last_at = 0\<rparr>"

definition metrics_observe ::
    "'v float_ops \<Rightarrow> string \<Rightarrow> instant \<Rightarrow> (string, 'v) gomap \<Rightarrow> (string, 'v) gomap \<Rightarrow> 'v metric_store \<Rightarrow> 'v metric_store" where
  "metrics_observe fl name at values instants s =
     (let (inst, s1) =
        (case mget (ms_instances s) name of
           Some inst \<Rightarrow> (inst, s)
         | None \<Rightarrow> (empty_instance, evict_for s));
          ts = time_unix at;
          inst1 = inst\<lparr>is_last_at := ts\<rparr>;
          inst2 = fold (observe_instant ts instants) (mc_instants (ms_catalog s)) inst1;
          inst3 = fold (observe_series fl (ms_limits s) ts values) (mc_series (ms_catalog s)) inst2
      in s1\<lparr>ms_instances := mput name inst3 (ms_instances s1)\<rparr>)"

section \<open>Reading\<close>

datatype tier_kind = TierRaw | TierRollup

definition metric_instances :: "'v metric_store \<Rightarrow> string list" where
  "metric_instances s = sort_strings (mkeys (ms_instances s))"

definition instant_readings :: "'v metric_store \<Rightarrow> (string, (string, 'v instant_reading) gomap) gomap" where
  "instant_readings s =
     map (\<lambda>p. (fst p, is_instant (snd p))) (filter (\<lambda>p. is_instant (snd p) \<noteq> []) (ms_instances s))"

text \<open>The rollup buckets an instrument holds, the one still being filled last; count 0 means none.\<close>

definition held_buckets :: "'v instrument \<Rightarrow> 'v bucket list" where
  "held_buckets i = filter (\<lambda>b. bk_count b \<noteq> 0) (ring_each (im_roll i) @ [im_open i])"

definition tier_points :: "'v float_ops \<Rightarrow> tier_kind \<Rightarrow> 'v instrument \<Rightarrow> (int \<times> 'v) list" where
  "tier_points fl tier i =
     (case tier of
        TierRaw \<Rightarrow> map (\<lambda>p. (sa_at p, sa_val p)) (ring_each (im_raw i))
      | TierRollup \<Rightarrow> map (\<lambda>b. (bk_start b, fl_div fl (bk_sum b) (fl_of_int fl (bk_count b)))) (held_buckets i))"

definition points_of :: "'v float_ops \<Rightarrow> tier_kind \<Rightarrow> 'v instrument \<Rightarrow> (int, 'v) gomap" where
  "points_of fl tier i = fold (\<lambda>p. mput (fst p) (snd p)) (tier_points fl tier i) []"

definition series_points ::
    "'v float_ops \<Rightarrow> string \<Rightarrow> tier_kind \<Rightarrow> (string, 'v instance_series) gomap \<Rightarrow> (string, (int, 'v) gomap) gomap" where
  "series_points fl key tier insts =
     List.map_filter (\<lambda>p. case mget (is_by_key (snd p)) key of
        None \<Rightarrow> None
      | Some i \<Rightarrow> (let points = points_of fl tier i in if points = [] then None else Some (fst p, points))) insts"

text \<open>\<open>withGapBreaksLocked\<close>, on consecutive times.\<close>

fun gap_breaks :: "int \<Rightarrow> int list \<Rightarrow> int list" where
  "gap_breaks step (x # y # rest) =
     x # (if y - x > quo (step * 3) 2 then [x + step] else []) @ gap_breaks step (y # rest)"
| "gap_breaks step xs = xs"

definition tier_step :: "metric_limits \<Rightarrow> tier_kind \<Rightarrow> int" where
  "tier_step l tier = (case tier of TierRaw \<Rightarrow> quo (ml_interval l) second | TierRollup \<Rightarrow> quo (ml_rollup_every l) second)"

definition metric_range ::
    "'v float_ops \<Rightarrow> string \<Rightarrow> tier_kind \<Rightarrow> 'v metric_store \<Rightarrow> int list \<times> (string, 'v option list) gomap" where
  "metric_range fl key tier s =
     (let per_instance = series_points fl key tier (ms_instances s);
          time_set = remdups (concat (map (\<lambda>p. mkeys (snd p)) per_instance))
      in if time_set = [] then ([], [])
         else
           let times = gap_breaks (tier_step (ms_limits s) tier) (sort time_set)
           in (times, map (\<lambda>p. (fst p, map (mget (snd p)) times)) per_instance))"

record 'v stats =
  st_latest :: "'v option"
  st_min :: "'v option"
  st_max :: "'v option"
  st_avg :: "'v option"

text \<open>The fold of \<open>SeriesStats\<close> over the buckets: the extremes, the sum and the count.\<close>

definition stats_step :: "'v float_ops \<Rightarrow> 'v bucket \<Rightarrow> 'v \<times> 'v \<times> 'v \<times> int \<Rightarrow> 'v \<times> 'v \<times> 'v \<times> int" where
  "stats_step fl b acc =
     (case acc of (mn, mx, summed, n) \<Rightarrow>
        (if n = 0 \<or> fl_less fl (bk_min b) mn then bk_min b else mn,
         if n = 0 \<or> fl_less fl mx (bk_max b) then bk_max b else mx,
         fl_add fl summed (bk_sum b), n + bk_count b))"

definition instrument_stats :: "'v float_ops \<Rightarrow> 'v instrument \<Rightarrow> 'v stats" where
  "instrument_stats fl i =
     (let (mn, mx, summed, n) = fold (stats_step fl) (held_buckets i) (fl_zero fl, fl_zero fl, fl_zero fl, 0);
          latest = map_option sa_val (ring_last (im_raw i))
      in if n > 0 then \<lparr>st_latest = latest, st_min = Some mn, st_max = Some mx, st_avg = Some (fl_div fl summed (fl_of_int fl n))\<rparr>
         else \<lparr>st_latest = latest, st_min = None, st_max = None, st_avg = None\<rparr>)"

definition series_stats :: "'v float_ops \<Rightarrow> string \<Rightarrow> 'v metric_store \<Rightarrow> (string, 'v stats) gomap" where
  "series_stats fl key s =
     List.map_filter (\<lambda>p. map_option (\<lambda>i. (fst p, instrument_stats fl i)) (mget (is_by_key (snd p)) key)) (ms_instances s)"

section \<open>The bounds are structural\<close>

definition instrument_ok :: "metric_limits \<Rightarrow> 'v instrument \<Rightarrow> bool" where
  "instrument_ok l i \<longleftrightarrow>
     ring_ok (im_raw i) \<and> ring_capacity (im_raw i) = nat (max 1 (raw_capacity l)) \<and>
     ring_ok (im_roll i) \<and> ring_capacity (im_roll i) = nat (max 1 (roll_capacity l)) \<and> bk_count (im_open i) \<ge> 0"

definition instance_ok :: "metric_catalog \<Rightarrow> metric_limits \<Rightarrow> 'v instance_series \<Rightarrow> bool" where
  "instance_ok c l inst \<longleftrightarrow>
     map_ok (is_by_key inst) \<and> map_ok (is_instant inst) \<and>
     set (mkeys (is_by_key inst)) \<subseteq> sd_key ` set (mc_series c) \<and> set (mkeys (is_instant inst)) \<subseteq> set (mc_instants c) \<and>
     (\<forall>key i. mget (is_by_key inst) key = Some i \<longrightarrow> instrument_ok l i)"

definition metrics_ok :: "'v metric_store \<Rightarrow> bool" where
  "metrics_ok s \<longleftrightarrow>
     map_ok (ms_instances s) \<and> int (length (ms_instances s)) \<le> ml_max_instances (ms_limits s) \<and>
     1 \<le> ml_max_instances (ms_limits s) \<and>
     (\<forall>name inst. mget (ms_instances s) name = Some inst \<longrightarrow> instance_ok (ms_catalog s) (ms_limits s) inst)"

lemma append_frame [simp]:
  "im_prev (instrument_append fl ts v w i) = im_prev i" "im_prev_at (instrument_append fl ts v w i) = im_prev_at i"
  "im_raw (instrument_append fl ts v w i) = ring_push \<lparr>sa_at = ts, sa_val = v\<rparr> (im_raw i)"
  by (simp_all add: instrument_append_def Let_def)

lemma series_append_ok: "instrument_ok l i \<Longrightarrow> instrument_ok l (instrument_append fl ts v w i)"
  by (auto simp: instrument_ok_def instrument_append_def Let_def ring_push_ok ring_push_capacity empty_bucket_def)

lemma new_instrument_ok: "instrument_ok l (new_instrument fl l)"
  by (simp add: instrument_ok_def new_instrument_def empty_bucket_def)

lemma instrument_ok_prev: "instrument_ok l (i\<lparr>im_prev := v, im_prev_at := ts\<rparr>) = instrument_ok l i"
  by (simp add: instrument_ok_def)

lemma observe_value_ok: "instrument_ok l i \<Longrightarrow> instrument_ok l (observe_value fl l' ts k v i)"
  using series_append_ok [of l "i\<lparr>im_prev := v, im_prev_at := ts\<rparr>" fl ts]
  by (auto simp: observe_value_def Let_def series_append_ok instrument_ok_prev split: kind.split option.split)

lemma observe_instant_ok: "instance_ok c l inst \<Longrightarrow> key \<in> set (mc_instants c) \<Longrightarrow> instance_ok c l (observe_instant ts vs key inst)"
  by (auto simp: instance_ok_def observe_instant_def mkeys_mput split: option.split)

lemma observe_series_ok:
  assumes "instance_ok c l inst" "def \<in> set (mc_series c)"
  shows "instance_ok c l (observe_series fl l ts vs def inst)"
proof (cases "mget vs (sd_key def)")
  case (Some v)
  have "instrument_ok l (case mget (is_by_key inst) (sd_key def) of None \<Rightarrow> new_instrument fl l | Some i \<Rightarrow> i)"
    using assms by (auto simp: instance_ok_def new_instrument_ok split: option.split)
  then show ?thesis
    using assms Some by (auto simp: instance_ok_def observe_series_def Let_def mkeys_mput observe_value_ok)
qed (use assms in \<open>simp add: observe_series_def\<close>)

lemma observe_folds_ok:
  "instance_ok c l inst \<Longrightarrow> set keys \<subseteq> set (mc_instants c) \<Longrightarrow> instance_ok c l (fold (observe_instant ts ivs) keys inst)"
  "instance_ok c l inst \<Longrightarrow> set defs \<subseteq> set (mc_series c) \<Longrightarrow> instance_ok c l (fold (observe_series fl l ts vs) defs inst)"
  by (induction keys arbitrary: inst, simp_all add: observe_instant_ok)
    (induction defs arbitrary: inst, simp_all add: observe_series_ok)

lemma oldest_instance_cases:
  "fst (oldest_instance insts best) \<in> fst ` set insts \<or> oldest_instance insts best = best \<and> (fst best = [] \<longrightarrow> insts = [])"
proof (induction insts arbitrary: best)
  case (Cons p insts)
  obtain name inst where p: "p = (name, inst)" by fastforce
  show ?case
  proof (cases "fst best = [] \<or> is_last_at inst < snd best")
    case True
    then show ?thesis using Cons [of "(name, is_last_at inst)"] p by auto
  next
    case False
    then show ?thesis using Cons [of best] p by auto
  qed
qed simp

lemma evict_for_frame [simp]: "ms_catalog (evict_for s) = ms_catalog s" "ms_limits (evict_for s) = ms_limits s"
  by (simp_all add: evict_for_def)

lemma evict_for_room:
  assumes "metrics_ok s"
  shows "map_ok (ms_instances (evict_for s))" "int (length (ms_instances (evict_for s))) < ml_max_instances (ms_limits s)"
    "mget (ms_instances (evict_for s)) name = Some inst \<Longrightarrow> mget (ms_instances s) name = Some inst"
proof -
  let ?l = "ms_instances s" and ?max = "ml_max_instances (ms_limits s)"
  let ?old = "fst (oldest_instance ?l ([], 0))"
  show "map_ok (ms_instances (evict_for s))" using assms by (auto simp: metrics_ok_def evict_for_def)
  show "mget (ms_instances (evict_for s)) name = Some inst \<Longrightarrow> mget ?l name = Some inst"
    by (auto simp: evict_for_def split: if_splits)
  show "int (length (ms_instances (evict_for s))) < ?max"
  proof (cases "int (length ?l) < ?max")
    case False
    then have "?l \<noteq> []" using assms by (auto simp: metrics_ok_def)
    then have "?old \<in> fst ` set ?l" using oldest_instance_cases [of ?l "([], 0)"] by auto
    then have "length (filter (\<lambda>p. fst p \<noteq> ?old) ?l) < length ?l" by (auto intro: length_filter_less)
    with False assms show ?thesis by (simp add: evict_for_def metrics_ok_def mdel_filter)
  qed (simp add: evict_for_def)
qed

lemma length_mput: "length (mput k v m) \<le> Suc (length m)" "mget m k \<noteq> None \<Longrightarrow> length (mput k v m) = length m"
  using mput_new [of m k v] mput_old_keys [of m k v, unfolded mkeys_def, THEN arg_cong [where f = length]]
  by (cases "mget m k"; simp)+

lemma empty_instance_ok: "instance_ok c l empty_instance"
  by (simp add: instance_ok_def empty_instance_def mkeys_def)

lemma metrics_observe_ok:
  assumes ok: "metrics_ok s"
  shows "metrics_ok (metrics_observe fl name at vs ivs s) \<and> ms_catalog (metrics_observe fl name at vs ivs s) = ms_catalog s \<and>
    ms_limits (metrics_observe fl name at vs ivs s) = ms_limits s"
proof -
  define pre where "pre = (case mget (ms_instances s) name of Some inst \<Rightarrow> (inst, s) | None \<Rightarrow> (empty_instance, evict_for s))"
  define inst3 where "inst3 = fold (observe_series fl (ms_limits s) (time_unix at) vs) (mc_series (ms_catalog s))
    (fold (observe_instant (time_unix at) ivs) (mc_instants (ms_catalog s)) ((fst pre)\<lparr>is_last_at := time_unix at\<rparr>))"
  have eq: "metrics_observe fl name at vs ivs s = (snd pre)\<lparr>ms_instances := mput name inst3 (ms_instances (snd pre))\<rparr>"
    by (simp add: metrics_observe_def pre_def inst3_def Let_def split: option.split)
  have frame: "ms_catalog (snd pre) = ms_catalog s" "ms_limits (snd pre) = ms_limits s"
    by (auto simp: pre_def split: option.split)
  have "instance_ok (ms_catalog s) (ms_limits s) (fst pre)"
    using ok by (auto simp: pre_def metrics_ok_def empty_instance_ok split: option.split)
  then have "instance_ok (ms_catalog s) (ms_limits s) ((fst pre)\<lparr>is_last_at := time_unix at\<rparr>)"
    by (simp add: instance_ok_def)
  then have inst: "instance_ok (ms_catalog s) (ms_limits s) inst3"
    unfolding inst3_def by (intro observe_folds_ok) simp_all
  have rest: "map_ok (ms_instances (snd pre))" "mget (ms_instances (snd pre)) n = Some i \<Longrightarrow> mget (ms_instances s) n = Some i"
    "int (length (mput name inst3 (ms_instances (snd pre)))) \<le> ml_max_instances (ms_limits s)" for n i
    using ok evict_for_room [OF ok] length_mput [where k = name and v = inst3 and m = "ms_instances (snd pre)"]
    by (auto simp: pre_def metrics_ok_def split: option.splits)
  have "instance_ok (ms_catalog s) (ms_limits s) i" if "mget (mput name inst3 (ms_instances (snd pre))) n = Some i" for n i
    using that inst ok rest(2) [of n i] by (auto simp: metrics_ok_def split: if_splits)
  with rest(1,3) ok show ?thesis by (auto simp: eq frame metrics_ok_def)
qed

record 'v sweep =
  sw_instance :: string
  sw_at :: instant
  sw_values :: "(string, 'v) gomap"
  sw_instants :: "(string, 'v) gomap"

definition sweep_into :: "'v float_ops \<Rightarrow> 'v sweep \<Rightarrow> 'v metric_store \<Rightarrow> 'v metric_store" where
  "sweep_into fl w = metrics_observe fl (sw_instance w) (sw_at w) (sw_values w) (sw_instants w)"

lemma sweep_into_ok:
  "metrics_ok s \<Longrightarrow> metrics_ok (sweep_into fl w s)" "metrics_ok s \<Longrightarrow> ms_catalog (sweep_into fl w s) = ms_catalog s"
  "metrics_ok s \<Longrightarrow> ms_limits (sweep_into fl w s) = ms_limits s"
  by (simp_all add: sweep_into_def metrics_observe_ok)

lemma with_defaults_positive:
  "0 < ml_interval (with_defaults l)" "0 < ml_raw_window (with_defaults l)" "0 < ml_retention (with_defaults l)"
  "0 < ml_rollup_every (with_defaults l)" "1 \<le> ml_max_instances (with_defaults l)"
  by (auto simp: with_defaults_def default_interval_def default_raw_window_def default_retention_def default_rollup_every_def
      default_instances_def second_def minute_def hour_def)

lemma new_metrics_ok: "metrics_ok (new_metric_store c l)"
  using with_defaults_positive(5) [of l] by (simp add: metrics_ok_def new_metric_store_def)

lemma sweeps_ok:
  "metrics_ok (fold (sweep_into fl) ws (new_metric_store c l)) \<and>
   ms_catalog (fold (sweep_into fl) ws (new_metric_store c l)) = c \<and>
   ms_limits (fold (sweep_into fl) ws (new_metric_store c l)) = with_defaults l"
proof (induction ws rule: rev_induct)
  case Nil
  show ?case using new_metrics_ok [of c l] by (simp add: new_metric_store_def)
next
  case (snoc w ws)
  then show ?case by (simp add: sweep_into_ok)
qed

text \<open>Memory is bounded by construction: whatever is swept, the store tracks at most the capped
number of instances, holds only series and instants of its catalog, and keeps of each series no
more samples and buckets than its window divided by its cadence (and at least one).\<close>

theorem metrics_window_is_bounded:
  fixes ws :: "'v sweep list" and fl :: "'v float_ops" and c :: metric_catalog and l :: metric_limits
  defines "s \<equiv> fold (sweep_into fl) ws (new_metric_store c l)"
  shows "int (length (ms_instances s)) \<le> ml_max_instances (with_defaults l) \<and>
    (\<forall>name inst. mget (ms_instances s) name = Some inst \<longrightarrow>
       length (is_by_key inst) \<le> card (sd_key ` set (mc_series c)) \<and> length (is_instant inst) \<le> card (set (mc_instants c)) \<and>
       (\<forall>key i. mget (is_by_key inst) key = Some i \<longrightarrow>
          length (ring_each (im_raw i)) \<le> nat (max 1 (raw_capacity (with_defaults l))) \<and>
          length (ring_each (im_roll i)) \<le> nat (max 1 (roll_capacity (with_defaults l)))))"
proof -
  have ok: "metrics_ok s" "ms_catalog s = c" "ms_limits s = with_defaults l" using sweeps_ok unfolding s_def by blast+
  have "length m \<le> card K" if "map_ok m" "set (mkeys m) \<subseteq> K" "finite K" for m :: "(string \<times> 'b) list" and K
    using that by (metis card_mono distinct_card length_map map_ok_def mkeys_def)
  with ok show ?thesis
    unfolding metrics_ok_def instance_ok_def instrument_ok_def by (metis List.finite_set finite_imageI ring.bounded)
qed

section \<open>Eviction\<close>

lemma oldest_instance_least:
  assumes "\<forall>p \<in> set insts. fst p \<noteq> []"
  shows "(\<forall>p \<in> set insts. snd (oldest_instance insts best) \<le> is_last_at (snd p)) \<and>
    (fst best \<noteq> [] \<longrightarrow> snd (oldest_instance insts best) \<le> snd best) \<and>
    (oldest_instance insts best = best \<or>
     (\<exists>p \<in> set insts. oldest_instance insts best = (fst p, is_last_at (snd p))))"
  using assms
proof (induction insts arbitrary: best)
  case (Cons p insts)
  obtain name inst where p: "p = (name, inst)" and name: "name \<noteq> []" using Cons.prems by (cases p) auto
  define best1 where "best1 = (if fst best = [] \<or> is_last_at inst < snd best then (name, is_last_at inst) else best)"
  have step: "oldest_instance (p # insts) best = oldest_instance insts best1" by (simp add: p best1_def)
  have best1: "fst best1 \<noteq> []" "snd best1 \<le> is_last_at inst" "fst best \<noteq> [] \<Longrightarrow> snd best1 \<le> snd best"
    "best1 = best \<or> best1 = (name, is_last_at inst)"
    using name by (auto simp: best1_def)
  have IH: "\<forall>p \<in> set insts. snd (oldest_instance insts best1) \<le> is_last_at (snd p)"
    "snd (oldest_instance insts best1) \<le> snd best1"
    "oldest_instance insts best1 = best1 \<or> (\<exists>p \<in> set insts. oldest_instance insts best1 = (fst p, is_last_at (snd p)))"
    using Cons.IH [of best1] Cons.prems best1(1) by auto
  have "\<forall>q \<in> set (p # insts). snd (oldest_instance insts best1) \<le> is_last_at (snd q)"
    using IH(1,2) best1(2) p by auto
  moreover have "fst best \<noteq> [] \<longrightarrow> snd (oldest_instance insts best1) \<le> snd best"
    using IH(2) best1(3) by linarith
  moreover have "oldest_instance insts best1 = best \<or>
      (\<exists>q \<in> set (p # insts). oldest_instance insts best1 = (fst q, is_last_at (snd q)))"
    using IH(3) best1(4) p by auto
  ultimately show ?case unfolding step by blast
qed simp

text \<open>When a new instance is swept into a full store, exactly one other is dropped to make room,
and it is one that was observed least recently (instance names are not empty).\<close>

theorem eviction_is_least_recent:
  assumes "metrics_ok s" "int (length (ms_instances s)) = ml_max_instances (ms_limits s)"
    "mget (ms_instances s) name = None" "[] \<notin> set (mkeys (ms_instances s))"
  shows "\<exists>old gone. mget (ms_instances s) old = Some gone \<and>
    (\<forall>n inst. mget (ms_instances s) n = Some inst \<longrightarrow> is_last_at gone \<le> is_last_at inst) \<and>
    set (mkeys (ms_instances (metrics_observe fl name at vs ivs s))) = insert name (set (mkeys (ms_instances s)) - {old})"
proof -
  let ?l = "ms_instances s"
  have names: "\<forall>p \<in> set ?l. fst p \<noteq> []" using assms(4) by (force simp: mkeys_def)
  have "?l \<noteq> []" using assms by (auto simp: metrics_ok_def)
  then have "oldest_instance ?l ([], 0) \<noteq> ([], 0)"
    using oldest_instance_cases [of ?l "([], 0)"] names by (cases "oldest_instance ?l ([], 0)") auto
  with oldest_instance_least [OF names, of "([], 0)"] obtain p where p: "p \<in> set ?l"
      "oldest_instance ?l ([], 0) = (fst p, is_last_at (snd p))"
    by auto
  have least: "is_last_at (snd p) \<le> is_last_at inst" if "mget ?l n = Some inst" for n inst
    using oldest_instance_least [OF names, of "([], 0)"] p mget_in_set [OF that] by fastforce
  have "mget ?l (fst p) = Some (snd p)"
    using assms(1) p(1) by (intro mget_of_set) (auto simp: metrics_ok_def)
  moreover have "set (mkeys (ms_instances (metrics_observe fl name at vs ivs s))) = insert name (set (mkeys ?l) - {fst p})"
    using assms(2,3) p by (simp add: metrics_observe_def evict_for_def Let_def mkeys_mput mkeys_mdel)
  ultimately show ?thesis using least by blast
qed

section \<open>Counters\<close>

text \<open>The rates a sequence of cumulative readings justifies: one for each pair of consecutive readings
that moves forward in time and does not go backwards in value.\<close>

fun rates :: "'v float_ops \<Rightarrow> (int \<times> 'v) list \<Rightarrow> 'v sample list" where
  "rates fl ((t0, v0) # (t1, v1) # rest) =
     (if t1 > t0 \<and> \<not> fl_less fl v1 v0
      then [\<lparr>sa_at = t1, sa_val = fl_div fl (fl_sub fl v1 v0) (fl_of_int fl (t1 - t0))\<rparr>] else []) @
     rates fl ((t1, v1) # rest)"
| "rates fl readings = []"

definition counter_sweep :: "'v float_ops \<Rightarrow> metric_limits \<Rightarrow> int \<times> 'v \<Rightarrow> 'v instrument \<Rightarrow> 'v instrument" where
  "counter_sweep fl l reading = observe_value fl l (fst reading) Counter (snd reading)"

lemma counter_sweep_raw:
  "im_prev (counter_sweep fl l (t, v) i) = v \<and> im_prev_at (counter_sweep fl l (t, v) i) = t \<and>
   im_raw (counter_sweep fl l (t, v) i) =
     (case counter_rate fl t v i of None \<Rightarrow> im_raw i | Some rate \<Rightarrow> ring_push \<lparr>sa_at = t, sa_val = rate\<rparr> (im_raw i))"
  by (simp add: counter_sweep_def observe_value_def Let_def split: option.split)

lemma counter_sweeps:
  assumes "ring_ok (im_raw i)" "im_prev_at i \<noteq> 0" "\<forall>r \<in> set readings. fst r \<noteq> 0"
  shows "ring_each (im_raw (fold (counter_sweep fl l) readings i)) =
    last_n (ring_capacity (im_raw i)) (ring_each (im_raw i) @ rates fl ((im_prev_at i, im_prev i) # readings))"
  using assms
proof (induction readings arbitrary: i)
  case Nil
  then show ?case by (simp add: last_n_short ring.bounded)
next
  case (Cons r readings)
  obtain t v where r: "r = (t, v)" by fastforce
  let ?i = "counter_sweep fl l (t, v) i"
  note raw = counter_sweep_raw [of fl l t v i]
  from Cons.prems r have pre: "im_prev_at ?i \<noteq> 0" "\<forall>r \<in> set readings. fst r \<noteq> 0" by (simp_all add: raw)
  show ?case
  proof (cases "counter_rate fl t v i")
    case None
    with raw Cons.prems have "im_raw ?i = im_raw i" by simp
    with Cons.IH [OF _ pre] Cons.prems(1,2) None raw r show ?thesis by (auto simp: counter_rate_def split: if_splits)
  next
    case (Some rate)
    let ?s = "\<lparr>sa_at = t, sa_val = rate\<rparr>"
    from Some raw have push: "im_raw ?i = ring_push ?s (im_raw i)" and prev: "im_prev ?i = v" "im_prev_at ?i = t" by simp_all
    have "rates fl ((im_prev_at i, im_prev i) # (t, v) # readings) = ?s # rates fl ((t, v) # readings)"
      using Some by (auto simp: counter_rate_def split: if_splits)
    with Cons.IH [OF _ pre] Cons.prems(1) r show ?thesis
      by (simp del: rates.simps add: push prev ring_push_ok ring_push_capacity ring_push_each last_n_last_n_append)
  qed
qed

text \<open>What the raw window of a counter holds is exactly the newest of the rates its readings
justify: no rate for the first sight, none across a reset or a clock that did not advance, and the
quotient of the differences for every other pair of consecutive readings.\<close>

theorem counters_become_rates:
  assumes "\<forall>r \<in> set readings. fst r \<noteq> 0"
  shows "ring_each (im_raw (fold (counter_sweep fl l) readings (new_instrument fl l))) =
    last_n (nat (max 1 (raw_capacity l))) (rates fl readings)"
proof (cases readings)
  case Nil
  then show ?thesis by (simp add: new_instrument_def last_n_def)
next
  case (Cons r rest)
  obtain t v where r: "r = (t, v)" by fastforce
  let ?i = "counter_sweep fl l (t, v) (new_instrument fl l)"
  have "counter_rate fl t v (new_instrument fl l) = None" by (simp add: counter_rate_def new_instrument_def)
  with counter_sweep_raw [of fl l t v "new_instrument fl l"]
  have i: "im_raw ?i = im_raw (new_instrument fl l)" "im_prev ?i = v" "im_prev_at ?i = t" by simp_all
  have "ring_each (im_raw (fold (counter_sweep fl l) rest ?i)) =
      last_n (ring_capacity (im_raw ?i)) (ring_each (im_raw ?i) @ rates fl ((t, v) # rest))"
    using counter_sweeps [of ?i rest fl l] assms Cons r i by (simp add: new_instrument_def)
  then show ?thesis using Cons r i by (simp add: new_instrument_def)
qed

definition int_ops :: "int float_ops" where
  "int_ops = \<lparr>fl_zero = 0, fl_less = (<), fl_add = (+), fl_sub = (-), fl_div = (div), fl_of_int = id\<rparr>"

definition small_limits :: metric_limits where
  "small_limits = \<lparr>ml_interval = 10 * second, ml_raw_window = 30 * second, ml_retention = 600 * second, ml_rollup_every = 60 * second, ml_max_instances = 1\<rparr>"

lemma counters_become_rates_witness:
  "ring_each (im_raw (fold (counter_sweep int_ops small_limits) [(10, 5), (20, 25), (30, 1), (40, 11)] (new_instrument int_ops small_limits))) =
   [\<lparr>sa_at = 20, sa_val = 2\<rparr>, \<lparr>sa_at = 40, sa_val = 1\<rparr>]"
  using counters_become_rates [of "[(10, 5), (20, 25), (30, 1), (40, 11)]" int_ops small_limits]
  by (simp add: int_ops_def small_limits_def raw_capacity_def quo_def second_def last_n_def)

definition one_instance :: "int metric_store" where
  "one_instance = metrics_observe int_ops ''a'' 3000000000 [] [] (new_metric_store \<lparr>mc_series = [], mc_instants = []\<rparr> small_limits)"

lemma one_instance_holds:
  "ms_instances one_instance = [(''a'', empty_instance\<lparr>is_last_at := 3\<rparr>)]" "ml_max_instances (ms_limits one_instance) = 1"
  by (simp_all add: one_instance_def metrics_observe_def new_metric_store_def Let_def evict_for_def small_limits_def with_defaults_def
      mput_def time_unix_def second_def)

lemma eviction_is_least_recent_witness:
  "set (mkeys (ms_instances (metrics_observe int_ops ''b'' 5000000000 [] [] one_instance))) = {''b''}"
proof -
  have ok: "metrics_ok one_instance" by (simp add: one_instance_def metrics_observe_ok new_metrics_ok)
  have "\<exists>old gone. mget (ms_instances one_instance) old = Some gone \<and>
    (\<forall>n inst. mget (ms_instances one_instance) n = Some inst \<longrightarrow> is_last_at gone \<le> is_last_at inst) \<and>
    set (mkeys (ms_instances (metrics_observe int_ops ''b'' 5000000000 [] [] one_instance))) =
      insert ''b'' (set (mkeys (ms_instances one_instance)) - {old})"
    by (rule eviction_is_least_recent [OF ok]) (simp_all add: one_instance_holds mget_def mkeys_def)
  then show ?thesis by (auto simp: one_instance_holds mget_def mkeys_def split: if_splits)
qed

section \<open>The shared time axis\<close>

lemma hd_gap_breaks [simp]: "hd (gap_breaks step (x # xs)) = x"
  by (cases xs) simp_all

lemma gap_breaks_Nil [simp]: "gap_breaks step xs = [] \<longleftrightarrow> xs = []"
  by (cases "(step, xs)" rule: gap_breaks.cases) simp_all

lemma set_gap_breaks: "set xs \<subseteq> set (gap_breaks step xs)"
  by (induction step xs rule: gap_breaks.induct) auto

lemma half_again: "0 < step \<Longrightarrow> step \<le> quo (step * 3) 2"
  by (simp add: quo_nonneg)

lemma gap_breaks_head:
  assumes "0 < step" "sorted_wrt (<) (x # xs)" "z \<in> set (gap_breaks step (x # xs))"
  shows "x \<le> z"
  using assms
proof (induction xs arbitrary: x)
  case (Cons y xs)
  have "y \<le> z" if "z \<in> set (gap_breaks step (y # xs))"
    using Cons.IH [OF Cons.prems(1) _ that] Cons.prems(2) by simp
  with Cons.prems show ?case by (auto split: if_splits)
qed simp

lemma gap_breaks_sorted:
  assumes "0 < step" "sorted_wrt (<) xs"
  shows "sorted_wrt (<) (gap_breaks step xs)"
  using assms
proof (induction step xs rule: gap_breaks.induct)
  case (1 step x y rest)
  then have IH: "sorted_wrt (<) (gap_breaks step (y # rest))" and xy: "x < y" by auto
  have above: "y \<le> z" if "z \<in> set (gap_breaks step (y # rest))" for z
    using gap_breaks_head [OF _ _ that] 1 by auto
  have "x + step < y" if "y - x > quo (step * 3) 2"
    using half_again [OF 1(2)] that by linarith
  with IH xy above 1(2) show ?case by (force dest: order.strict_trans2)
qed simp_all

text \<open>After a time that was reported, the next time on the axis is at most one and a half steps away.\<close>

lemma gap_breaks_close:
  assumes "0 < step" "sorted_wrt (<) xs" "set xs \<subseteq> X" "\<forall>z \<in> X. xs \<noteq> [] \<and> hd xs \<le> z \<longrightarrow> z \<in> set xs"
  shows "successively (\<lambda>a b. a \<in> X \<longrightarrow> b - a \<le> quo (step * 3) 2) (gap_breaks step xs)"
  using assms
proof (induction step xs rule: gap_breaks.induct)
  case (1 step x y rest)
  let ?P = "\<lambda>a b. a \<in> X \<longrightarrow> b - a \<le> quo (step * 3) 2"
  have IH: "successively ?P (gap_breaks step (y # rest))"
    using 1 by (intro "1.IH") auto
  show ?case
  proof (cases "y - x > quo (step * 3) 2")
    case True
    then have between: "x < x + step" "x + step < y" using half_again [OF "1.prems"(1)] "1.prems"(1) by linarith+
    have "x + step \<notin> set (x # y # rest)" using between "1.prems"(2) by auto
    then have "x + step \<notin> X" using "1.prems"(4) between by auto
    with True IH half_again [OF "1.prems"(1)] show ?thesis by (simp add: successively_Cons)
  qed (use IH in \<open>simp add: successively_Cons\<close>)
qed simp_all

definition reported_times :: "'v float_ops \<Rightarrow> string \<Rightarrow> tier_kind \<Rightarrow> 'v metric_store \<Rightarrow> int set" where
  "reported_times fl key tier s = (\<Union>p \<in> set (series_points fl key tier (ms_instances s)). set (mkeys (snd p)))"

lemma metric_range_eq:
  "metric_range fl key tier s =
     (let times = gap_breaks (tier_step (ms_limits s) tier) (sorted_list_of_set (reported_times fl key tier s))
      in if reported_times fl key tier s = {} then ([], [])
         else (times, map (\<lambda>p. (fst p, map (mget (snd p)) times)) (series_points fl key tier (ms_instances s))))"
proof -
  let ?ps = "series_points fl key tier (ms_instances s)"
  have "set (concat (map (\<lambda>p. mkeys (snd p)) ?ps)) = reported_times fl key tier s" by (simp add: reported_times_def)
  moreover have "sorted_list_of_set (set (concat (map (\<lambda>p. mkeys (snd p)) ?ps))) = sort (remdups (concat (map (\<lambda>p. mkeys (snd p)) ?ps)))"
    by (rule sorted_list_of_set_sort_remdups)
  ultimately show ?thesis by (auto simp: metric_range_def Let_def reported_times_def)
qed

lemma reported_finite [simp]: "finite (reported_times fl key tier s)"
  by (simp add: reported_times_def)

text \<open>Outages are explicit: the shared axis ascends strictly and holds every reported time, each
column holds its instance's own points and nothing else, and wherever the axis jumps by more than
one and a half steps the row it jumps from is empty in every column.\<close>

theorem outages_are_explicit:
  assumes "0 < tier_step (ms_limits s) tier" "metric_range fl key tier s = (axis, cols)"
  shows "sorted_wrt (<) axis \<and> reported_times fl key tier s \<subseteq> set axis \<and>
    cols = map (\<lambda>p. (fst p, map (mget (snd p)) axis)) (series_points fl key tier (ms_instances s)) \<and>
    (\<forall>j. Suc j < length axis \<and> axis ! Suc j - axis ! j > quo (tier_step (ms_limits s) tier * 3) 2 \<longrightarrow>
       (\<forall>c \<in> set cols. snd c ! j = None))"
proof (cases "reported_times fl key tier s = {}")
  case True
  then have nil: "axis = []" "cols = []" using assms(2) by (auto simp: metric_range_eq Let_def)
  have "series_points fl key tier (ms_instances s) = []"
  proof (rule ccontr)
    assume "series_points fl key tier (ms_instances s) \<noteq> []"
    then obtain p where p: "p \<in> set (series_points fl key tier (ms_instances s))" by (meson last_in_set)
    then have "snd p \<noteq> []" by (auto simp: series_points_def List.map_filter_def Let_def split: option.splits if_splits)
    with p True show False by (auto simp: reported_times_def mkeys_def)
  qed
  with True nil show ?thesis by simp
next
  case False
  let ?X = "reported_times fl key tier s" and ?step = "tier_step (ms_limits s) tier"
  let ?xs = "sorted_list_of_set ?X"
  from False assms(2) have axis: "axis = gap_breaks ?step ?xs"
    and cols: "cols = map (\<lambda>p. (fst p, map (mget (snd p)) axis)) (series_points fl key tier (ms_instances s))"
    by (auto simp: metric_range_eq Let_def)
  have close: "successively (\<lambda>a b. a \<in> ?X \<longrightarrow> b - a \<le> quo (?step * 3) 2) axis"
    unfolding axis by (rule gap_breaks_close [OF assms(1)]) simp_all
  have empty: "\<forall>c \<in> set cols. snd c ! j = None"
    if j: "Suc j < length axis" and jump: "axis ! Suc j - axis ! j > quo (?step * 3) 2" for j
  proof -
    have "axis ! j \<notin> ?X" using close j jump by (auto simp: successively_conv_nth)
    then have "mget (snd p) (axis ! j) = None" if "p \<in> set (series_points fl key tier (ms_instances s))" for p
      using that by (auto simp: reported_times_def mget_None_iff)
    with j show ?thesis by (auto simp: cols)
  qed
  have "sorted_wrt (<) axis" unfolding axis by (rule gap_breaks_sorted [OF assms(1)]) simp
  moreover have "?X \<subseteq> set axis" unfolding axis using set_gap_breaks [of ?xs ?step] by simp
  ultimately show ?thesis using cols empty by blast
qed

definition swept_twice :: "int metric_store" where
  "swept_twice = metrics_observe int_ops ''a'' (100 * second) [(''k'', 7)] []
     (metrics_observe int_ops ''a'' (10 * second) [(''k'', 5)] []
       (new_metric_store \<lparr>mc_series = [\<lparr>sd_key = ''k'', sd_kind = Gauge\<rparr>], mc_instants = []\<rparr> small_limits))"

definition one_series :: metric_catalog where
  "one_series = \<lparr>mc_series = [\<lparr>sd_key = ''k'', sd_kind = Gauge\<rparr>], mc_instants = []\<rparr>"

definition two_sweeps :: "int sweep list" where
  "two_sweeps =
     [\<lparr>sw_instance = ''a'', sw_at = 10 * second, sw_values = [(''k'', 5)], sw_instants = []\<rparr>,
      \<lparr>sw_instance = ''a'', sw_at = 100 * second, sw_values = [(''k'', 7)], sw_instants = []\<rparr>]"

lemma swept_twice_trace:
  "swept_twice = fold (sweep_into int_ops) two_sweeps (new_metric_store one_series small_limits)"
  "\<forall>w \<in> set two_sweeps. second \<le> sw_at w"
  by (simp_all add: swept_twice_def two_sweeps_def one_series_def sweep_into_def second_def)

lemma metrics_window_is_bounded_witness:
  "int (length (ms_instances (fold (sweep_into int_ops) two_sweeps (new_metric_store one_series small_limits)))) \<le> 1 \<and>
    (\<exists>inst i. mget (ms_instances (fold (sweep_into int_ops) two_sweeps (new_metric_store one_series small_limits))) ''a'' = Some inst \<and>
       mget (is_by_key inst) ''k'' = Some i \<and> length (ring_each (im_raw i)) \<le> 3 \<and> length (ring_each (im_roll i)) \<le> 10)"
proof -
  let ?s = "fold (sweep_into int_ops) two_sweeps (new_metric_store one_series small_limits)"
  have "case mget (ms_instances ?s) ''a'' of None \<Rightarrow> False | Some inst \<Rightarrow> mget (is_by_key inst) ''k'' \<noteq> None"
    unfolding swept_twice_trace(1) [symmetric] by code_simp
  then obtain inst i where here: "mget (ms_instances ?s) ''a'' = Some inst" "mget (is_by_key inst) ''k'' = Some i"
    by (auto split: option.splits)
  have "nat (max 1 (raw_capacity (with_defaults small_limits))) = 3" "nat (max 1 (roll_capacity (with_defaults small_limits))) = 10"
    "ml_max_instances (with_defaults small_limits) = 1" by code_simp+
  with here metrics_window_is_bounded [where ws = two_sweeps and fl = int_ops and c = one_series and l = small_limits] show ?thesis
    by metis
qed

lemma swept_twice_range: "metric_range int_ops ''k'' TierRaw swept_twice = ([10, 20, 100], [(''a'', [Some 5, None, Some 7])])"
  by code_simp

lemma outages_are_explicit_witness: "reported_times int_ops ''k'' TierRaw swept_twice \<subseteq> {10, 20, 100}"
proof -
  have "0 < tier_step (ms_limits swept_twice) TierRaw" by code_simp
  from outages_are_explicit [OF this swept_twice_range] show ?thesis by simp
qed

end
