(* ===== verification/MetricsPersist.thy ===== *)
theory MetricsPersist
  imports Metrics Redact
begin

text \<open>
  The snapshot of the metrics window, \<open>internal/metrics/persist.go\<close>: the export and import of the
  store, and the file the persister rewrites. The encoding of \<open>encoding/gob\<close> is the parameters
  \<open>encode\<close> and \<open>decode\<close>; which operation of the file system fails is a choice of the environment.
\<close>

section \<open>Export and import\<close>

record 'v persisted_sample =
  ps_at :: int
  ps_val :: 'v

record 'v persisted_bucket =
  pb_start :: int
  pb_min :: 'v
  pb_max :: 'v
  pb_sum :: 'v
  pb_count :: int

record 'v persisted_instrument =
  pi_instance :: string
  pi_series :: string
  pi_last_at :: int
  pi_raw :: "'v persisted_sample list"
  pi_rollups :: "'v persisted_bucket list"
  pi_open :: "'v persisted_bucket"

record 'v persisted_state =
  pt_version :: int
  pt_saved_at :: int
  pt_instruments :: "'v persisted_instrument list"

definition snapshot_version :: int where "snapshot_version = 1"

definition export_bucket :: "'v bucket \<Rightarrow> 'v persisted_bucket" where
  "export_bucket b =
     \<lparr>pb_start = bk_start b, pb_min = bk_min b, pb_max = bk_max b, pb_sum = bk_sum b, pb_count = bk_count b\<rparr>"

definition import_bucket :: "'v persisted_bucket \<Rightarrow> 'v bucket" where
  "import_bucket b =
     \<lparr>bk_start = pb_start b, bk_min = pb_min b, bk_max = pb_max b, bk_sum = pb_sum b, bk_count = pb_count b\<rparr>"

definition export_instrument :: "string \<Rightarrow> 'v instance_series \<Rightarrow> string \<Rightarrow> 'v instrument \<Rightarrow> 'v persisted_instrument" where
  "export_instrument name inst key ins =
     \<lparr>pi_instance = name, pi_series = key, pi_last_at = is_last_at inst,
      pi_raw = map (\<lambda>v. \<lparr>ps_at = sa_at v, ps_val = sa_val v\<rparr>) (ring_each (im_raw ins)),
      pi_rollups = map export_bucket (ring_each (im_roll ins)), pi_open = export_bucket (im_open ins)\<rparr>"

definition persisted_less :: "'v persisted_instrument \<Rightarrow> 'v persisted_instrument \<Rightarrow> bool" where
  "persisted_less a b \<longleftrightarrow>
     (if pi_instance a \<noteq> pi_instance b then str_less (pi_instance a) (pi_instance b)
      else str_less (pi_series a) (pi_series b))"

definition exported :: "(string, 'v instance_series) gomap \<Rightarrow> 'v persisted_instrument list" where
  "exported insts =
     concat (map (\<lambda>(name, inst). map (\<lambda>(key, ins). export_instrument name inst key ins) (is_by_key inst)) insts)"

definition metrics_export :: "instant \<Rightarrow> 'v metric_store \<Rightarrow> 'v persisted_state" where
  "metrics_export at s =
     \<lparr>pt_version = snapshot_version, pt_saved_at = time_unix at,
      pt_instruments = sort_by persisted_less (exported (ms_instances s))\<rparr>"

text \<open>The most recent sweep of each instance: an absent key reads as zero.\<close>

definition last_seen :: "'v persisted_instrument list \<Rightarrow> (string, int) gomap" where
  "last_seen ps =
     fold (\<lambda>p m. if pi_last_at p > (case mget m (pi_instance p) of None \<Rightarrow> 0 | Some t \<Rightarrow> t)
                  then mput (pi_instance p) (pi_last_at p) m else m) ps []"

definition kept_names :: "int \<Rightarrow> 'v persisted_instrument list \<Rightarrow> string list" where
  "kept_names max_instances ps =
     (let seen = last_seen ps;
          at = (\<lambda>name. case mget seen name of None \<Rightarrow> 0 | Some t \<Rightarrow> t);
          names = sort_by (\<lambda>a b. at a > at b) (mkeys seen)
      in if int (length names) > max_instances then take (nat max_instances) names else names)"

definition import_instrument ::
    "'v float_ops \<Rightarrow> string list \<Rightarrow> 'v persisted_instrument \<Rightarrow> 'v metric_store \<Rightarrow> 'v metric_store" where
  "import_instrument fl keep p s =
     (if pi_instance p \<notin> set keep then s
      else if series_by_key (ms_catalog s) (pi_series p) = None then s
      else
        let inst = (case mget (ms_instances s) (pi_instance p) of None \<Rightarrow> empty_instance | Some i \<Rightarrow> i);
            inst1 = (if pi_last_at p > is_last_at inst then inst\<lparr>is_last_at := pi_last_at p\<rparr> else inst);
            fresh = (new_instrument fl (ms_limits s))\<lparr>im_open := import_bucket (pi_open p)\<rparr>;
            raw = fold (\<lambda>v. ring_push \<lparr>sa_at = ps_at v, sa_val = ps_val v\<rparr>) (pi_raw p) (im_raw fresh);
            roll = fold (\<lambda>b. ring_push (import_bucket b)) (pi_rollups p) (im_roll fresh);
            ins = fresh\<lparr>im_raw := raw, im_roll := roll\<rparr>
        in s\<lparr>ms_instances := mput (pi_instance p) (inst1\<lparr>is_by_key := mput (pi_series p) ins (is_by_key inst1)\<rparr>) (ms_instances s)\<rparr>)"

definition metrics_import :: "'v float_ops \<Rightarrow> 'v persisted_state \<Rightarrow> 'v metric_store \<Rightarrow> 'v metric_store" where
  "metrics_import fl st s =
     fold (import_instrument fl (kept_names (ml_max_instances (ms_limits s)) (pt_instruments st))) (pt_instruments st) s"

section \<open>A restart\<close>

text \<open>What a chart can draw of an instrument: its samples, its closed buckets and the open one.\<close>

type_synonym 'v drawn = "'v sample list \<times> 'v bucket list \<times> 'v bucket"

definition drawn :: "'v instrument \<Rightarrow> 'v drawn" where
  "drawn i = (ring_each (im_raw i), ring_each (im_roll i), im_open i)"

definition drawn_of :: "'v metric_store \<Rightarrow> string \<Rightarrow> string \<Rightarrow> 'v drawn option" where
  "drawn_of s name key =
     (case mget (ms_instances s) name of
        None \<Rightarrow> None
      | Some inst \<Rightarrow> map_option drawn (mget (is_by_key inst) key))"

lemma import_export_bucket [simp]: "import_bucket (export_bucket b) = b"
  by (simp add: import_bucket_def export_bucket_def)

lemma sample_eta [simp]: "\<lparr>sa_at = sa_at v, sa_val = sa_val v\<rparr> = v"
  by (cases v) simp

lemma fold_import_samples:
  "fold (\<lambda>v. ring_push \<lparr>sa_at = ps_at v, sa_val = ps_val v\<rparr>) (map (\<lambda>v. \<lparr>ps_at = sa_at v, ps_val = sa_val v\<rparr>) vs) r =
   fold ring_push vs r"
  by (induction vs arbitrary: r) simp_all

lemma fold_import_buckets:
  "fold (\<lambda>b. ring_push (import_bucket b)) (map export_bucket bs) r = fold ring_push bs r"
  by (induction bs arbitrary: r) simp_all

text \<open>An exported instrument, imported under the same limits, draws the same.\<close>

definition imported :: "'v float_ops \<Rightarrow> metric_limits \<Rightarrow> 'v persisted_instrument \<Rightarrow> 'v instrument" where
  "imported fl l p =
     (new_instrument fl l)\<lparr>im_open := import_bucket (pi_open p),
        im_raw := fold (\<lambda>v. ring_push \<lparr>sa_at = ps_at v, sa_val = ps_val v\<rparr>) (pi_raw p) (im_raw (new_instrument fl l)),
        im_roll := fold (\<lambda>b. ring_push (import_bucket b)) (pi_rollups p) (im_roll (new_instrument fl l))\<rparr>"

lemma drawn_imported:
  assumes "instrument_ok l i"
  shows "drawn (imported fl l (export_instrument name inst key i)) = drawn i"
proof -
  have "length (ring_each (im_raw i)) \<le> nat (max 1 (raw_capacity l))" "length (ring_each (im_roll i)) \<le> nat (max 1 (roll_capacity l))"
    using assms ring.bounded [of "im_raw i"] ring.bounded [of "im_roll i"] by (simp_all add: instrument_ok_def)
  then show ?thesis
    by (simp add: drawn_def imported_def export_instrument_def fold_import_samples fold_import_buckets new_instrument_def ring.refill)
qed

lemma import_instrument_drawn:
  "drawn_of (import_instrument fl keep p s) name key =
     (if pi_instance p \<in> set keep \<and> series_by_key (ms_catalog s) (pi_series p) \<noteq> None \<and> name = pi_instance p \<and> key = pi_series p
      then Some (drawn (imported fl (ms_limits s) p)) else drawn_of s name key)"
  by (auto simp: import_instrument_def drawn_of_def Let_def imported_def empty_instance_def split: option.splits)

lemma import_instrument_frame [simp]:
  "ms_catalog (import_instrument fl keep p s) = ms_catalog s" "ms_limits (import_instrument fl keep p s) = ms_limits s"
  by (simp_all add: import_instrument_def Let_def)

lemma imports_frame [simp]:
  "ms_catalog (fold (import_instrument fl keep) ps s) = ms_catalog s" "ms_limits (fold (import_instrument fl keep) ps s) = ms_limits s"
  by (induction ps arbitrary: s) simp_all

definition at_place :: "string \<Rightarrow> string \<Rightarrow> 'v persisted_instrument \<Rightarrow> bool" where
  "at_place name key p \<longleftrightarrow> pi_instance p = name \<and> pi_series p = key"

lemma imports_drawn:
  "drawn_of (fold (import_instrument fl keep) ps s) name key =
     (case filter (at_place name key) ps of
        [] \<Rightarrow> drawn_of s name key
      | qs \<Rightarrow> if name \<in> set keep \<and> series_by_key (ms_catalog s) key \<noteq> None
              then Some (drawn (imported fl (ms_limits s) (last qs))) else drawn_of s name key)"
proof (induction ps arbitrary: s)
  case (Cons p ps)
  show ?case
    by (auto simp: Cons.IH import_instrument_drawn at_place_def split: list.split)
qed simp

lemma filter_key_map:
  assumes "map_ok m" "\<And>k v. P (f k v) \<longleftrightarrow> k = key"
  shows "filter P (map (\<lambda>(k, v). f k v) m) = (case mget m key of None \<Rightarrow> [] | Some v \<Rightarrow> [f key v])"
  using assms(1)
proof (induction m)
  case (Cons p m)
  obtain k v where p: "p = (k, v)" by fastforce
  have "mget m k = None" "map_ok m" using Cons.prems p by (auto simp: map_ok_def mget_None_iff mkeys_def)
  with Cons.IH p assms(2) show ?case by (cases "k = key") (auto simp: mget_def)
qed (simp add: mget_def)

lemma filter_key_concat:
  assumes "map_ok m" "\<And>k v. k \<noteq> key \<Longrightarrow> filter P (g k v) = []"
  shows "filter P (concat (map (\<lambda>(k, v). g k v) m)) = (case mget m key of None \<Rightarrow> [] | Some v \<Rightarrow> filter P (g key v))"
  using assms(1)
proof (induction m)
  case (Cons p m)
  obtain k v where p: "p = (k, v)" by fastforce
  have "mget m k = None" "map_ok m" using Cons.prems p by (auto simp: map_ok_def mget_None_iff mkeys_def)
  with Cons.IH p assms(2) show ?case by (cases "k = key") (auto simp: mget_def)
qed (simp add: mget_def)

lemma exported_at:
  assumes "map_ok insts" "\<And>n inst. mget insts n = Some inst \<Longrightarrow> map_ok (is_by_key inst)"
  shows "filter (at_place name key) (exported insts) =
    (case mget insts name of
       None \<Rightarrow> []
     | Some inst \<Rightarrow> (case mget (is_by_key inst) key of None \<Rightarrow> [] | Some i \<Rightarrow> [export_instrument name inst key i]))"
proof -
  have "filter (at_place name key) (exported insts) =
      (case mget insts name of None \<Rightarrow> []
       | Some inst \<Rightarrow> filter (at_place name key) (map (\<lambda>(k, ins). export_instrument name inst k ins) (is_by_key inst)))"
    unfolding exported_def
    by (rule filter_key_concat [OF assms(1)]) (auto simp: filter_empty_conv at_place_def export_instrument_def)
  moreover have "filter (at_place name key) (map (\<lambda>(k, ins). export_instrument name inst k ins) (is_by_key inst)) =
      (case mget (is_by_key inst) key of None \<Rightarrow> [] | Some i \<Rightarrow> [export_instrument name inst key i])"
    if "mget insts name = Some inst" for inst
    by (rule filter_key_map [OF assms(2) [OF that]]) (simp add: at_place_def export_instrument_def)
  ultimately show ?thesis by (simp split: option.split)
qed

lemma filter_sort_single:
  "length (filter P xs) \<le> 1 \<Longrightarrow> filter P (sort_by lt xs) = filter P xs"
proof -
  assume short: "length (filter P xs) \<le> 1"
  have "mset (filter P (sort_by lt xs)) = mset (filter P xs)" by (simp add: mset_filter)
  moreover from short have "filter P xs = [] \<or> (\<exists>x. filter P xs = [x])"
    by (cases "filter P xs") auto
  ultimately show ?thesis by (metis mset_single_iff mset.simps(1) mset_zero_iff mset_single_iff_right)
qed

text \<open>Which instances an import keeps.\<close>

lemma last_seen_keys:
  assumes "\<forall>n t. mget m n = Some t \<longrightarrow> 0 < t" "map_ok m"
  shows "let seen = fold (\<lambda>p m. if pi_last_at p > (case mget m (pi_instance p) of None \<Rightarrow> 0 | Some t \<Rightarrow> t)
           then mput (pi_instance p) (pi_last_at p) m else m) ps m
     in map_ok seen \<and> set (mkeys seen) = set (mkeys m) \<union> pi_instance ` {p \<in> set ps. 0 < pi_last_at p}"
  using assms
proof (induction ps arbitrary: m)
  case (Cons p ps)
  define m1 where "m1 = (if pi_last_at p > (case mget m (pi_instance p) of None \<Rightarrow> 0 | Some t \<Rightarrow> t)
      then mput (pi_instance p) (pi_last_at p) m else m)"
  have pos: "\<forall>n t. mget m1 n = Some t \<longrightarrow> 0 < t" using Cons.prems(1) by (auto simp: m1_def split: option.splits if_splits) (metis less_trans)
  have ok: "map_ok m1" using Cons.prems(2) by (simp add: m1_def)
  have keys: "set (mkeys m1) = set (mkeys m) \<union> pi_instance ` {q \<in> {p}. 0 < pi_last_at q}"
  proof (cases "mget m (pi_instance p)")
    case None
    then show ?thesis by (auto simp: m1_def mkeys_mput)
  next
    case (Some t)
    then have "pi_instance p \<in> set (mkeys m)" "0 < t" using Cons.prems(1) by (auto simp: mkeys_iff)
    with Some show ?thesis by (auto simp: m1_def mkeys_mput)
  qed
  from Cons.IH [OF pos ok] keys show ?case by (auto simp: Let_def m1_def [symmetric])
qed (simp add: Let_def)

lemma kept_all:
  assumes "int (card (pi_instance ` {p \<in> set ps. 0 < pi_last_at p})) \<le> max_instances"
  shows "set (kept_names max_instances ps) = pi_instance ` {p \<in> set ps. 0 < pi_last_at p}"
proof -
  have seen: "map_ok (last_seen ps)" "set (mkeys (last_seen ps)) = pi_instance ` {p \<in> set ps. 0 < pi_last_at p}"
    using last_seen_keys [of "[]" ps] by (simp_all add: last_seen_def Let_def mkeys_def)
  then have "length (mkeys (last_seen ps)) = card (pi_instance ` {p \<in> set ps. 0 < pi_last_at p})"
    by (metis distinct_card map_ok_def mkeys_def)
  with assms have "\<not> int (length (mkeys (last_seen ps))) > max_instances" by linarith
  with seen show ?thesis by (simp add: kept_names_def Let_def)
qed

text \<open>Every instance the store holds was swept.\<close>

lemma observe_folds_last_at [simp]:
  "is_last_at (fold (observe_instant ts vs) keys inst) = is_last_at inst"
  "is_last_at (fold (observe_series fl l ts vs') defs inst) = is_last_at inst"
  by (induction keys arbitrary: inst, simp_all add: observe_instant_def split: option.split)
    (induction defs arbitrary: inst, simp_all add: observe_series_def Let_def split: option.split)

lemma sweep_into_get:
  assumes "metrics_ok s" "mget (ms_instances (sweep_into fl w s)) name = Some inst"
  shows "if name = sw_instance w then is_last_at inst = time_unix (sw_at w) else mget (ms_instances s) name = Some inst"
  using assms(2) evict_for_room(3) [OF assms(1), of name inst]
  by (auto simp: sweep_into_def metrics_observe_def Let_def split: prod.splits option.splits if_splits)

lemma swept_last_at:
  assumes "\<forall>w \<in> set ws. second \<le> sw_at w" "mget (ms_instances (fold (sweep_into fl) ws (new_metric_store c l))) name = Some inst"
  shows "0 < is_last_at inst"
  using assms
proof (induction ws arbitrary: name inst rule: rev_induct)
  case Nil
  then show ?case by (simp add: new_metric_store_def)
next
  case (snoc w ws)
  let ?s = "fold (sweep_into fl) ws (new_metric_store c l)"
  have pos: "0 < time_unix (sw_at w)"
    using snoc.prems(1) zdiv_mono1 [of second "sw_at w" second] second_pos by (simp add: time_unix_def second_def)
  have "metrics_ok ?s" using sweeps_ok by blast
  from sweep_into_get [OF this, of fl w name inst] snoc pos show ?case by (auto split: if_splits)
qed

lemma swept_ok:
  fixes ws :: "'v sweep list" and fl :: "'v float_ops"
  shows "metrics_ok (fold (sweep_into fl) ws (new_metric_store c l))"
    "ms_catalog (fold (sweep_into fl) ws (new_metric_store c l)) = c"
    "ms_limits (fold (sweep_into fl) ws (new_metric_store c l)) = with_defaults l"
  using sweeps_ok by blast+

lemma series_by_key_some: "key \<in> sd_key ` set (mc_series c) \<Longrightarrow> series_by_key c key \<noteq> None"
  by (auto simp: series_by_key_def find_None_iff)

lemma new_store_frame: "ms_catalog (new_metric_store c l) = c" "ms_limits (new_metric_store c l) = with_defaults l"
  by (simp_all add: new_metric_store_def)

lemma restart_draws:
  fixes ws :: "'v sweep list" and fl :: "'v float_ops"
  assumes "\<forall>w \<in> set ws. second \<le> sw_at w" "s = fold (sweep_into fl) ws (new_metric_store c l)"
  shows "drawn_of (metrics_import fl (metrics_export at s) (new_metric_store c l)) name key = drawn_of s name key"
proof -
  let ?ps = "sort_by persisted_less (exported (ms_instances s))"
  have ok: "metrics_ok s" "ms_catalog s = c" "ms_limits s = with_defaults l" using swept_ok assms(2) by blast+
  then have maps: "map_ok (ms_instances s)" "\<And>n inst. mget (ms_instances s) n = Some inst \<Longrightarrow> map_ok (is_by_key inst)"
    by (auto simp: metrics_ok_def instance_ok_def)
  have members: "\<exists>inst. mget (ms_instances s) (pi_instance p) = Some inst \<and> pi_last_at p = is_last_at inst" if "p \<in> set ?ps" for p
    using that mget_of_set [OF maps(1)] by (force simp: exported_def export_instrument_def)
  have pos: "0 < pi_last_at p" if "p \<in> set ?ps" for p
    using members [OF that] swept_last_at [OF assms(1)] assms(2) by force
  have names: "pi_instance ` {p \<in> set ?ps. 0 < pi_last_at p} \<subseteq> set (mkeys (ms_instances s))"
    using members unfolding mkeys_iff image_subset_iff by blast
  have "card (pi_instance ` {p \<in> set ?ps. 0 < pi_last_at p}) \<le> length (ms_instances s)"
    using card_mono [OF _ names] card_length [of "mkeys (ms_instances s)"] by (simp add: mkeys_def)
  then have keep: "set (kept_names (ml_max_instances (with_defaults l)) ?ps) = pi_instance ` {p \<in> set ?ps. 0 < pi_last_at p}"
    using ok by (intro kept_all) (auto simp: metrics_ok_def)
  have place: "filter (at_place name key) ?ps =
      (case mget (ms_instances s) name of None \<Rightarrow> []
       | Some inst \<Rightarrow> (case mget (is_by_key inst) key of None \<Rightarrow> [] | Some i \<Rightarrow> [export_instrument name inst key i]))"
    using exported_at [OF maps, where name = name and key = key] filter_sort_single [of "at_place name key" "exported (ms_instances s)"]
    by (simp split: option.splits)
  have import: "metrics_import fl (metrics_export at s) (new_metric_store c l) =
      fold (import_instrument fl (kept_names (ml_max_instances (with_defaults l)) ?ps)) ?ps (new_metric_store c l)"
    by (simp add: metrics_import_def metrics_export_def new_metric_store_def)
  have empty: "drawn_of (new_metric_store c l) name key = None" by (simp add: drawn_of_def new_metric_store_def)
  show ?thesis
  proof (cases "drawn_of s name key")
    case None
    then have "filter (at_place name key) ?ps = []" by (auto simp: place drawn_of_def split: option.splits)
    with None empty show ?thesis by (simp add: import imports_drawn)
  next
    case (Some d)
    then obtain inst i where i: "mget (ms_instances s) name = Some inst" "mget (is_by_key inst) key = Some i" "d = drawn i"
      by (auto simp: drawn_of_def split: option.splits)
    let ?p = "export_instrument name inst key i"
    from i place have at: "filter (at_place name key) ?ps = [?p]" by simp
    then have "?p \<in> set (filter (at_place name key) ?ps)" by simp
    then have "?p \<in> set ?ps" by simp
    then have "name \<in> set (kept_names (ml_max_instances (with_defaults l)) ?ps)"
      unfolding keep using pos by (force simp: export_instrument_def)
    moreover have inst: "instance_ok c (with_defaults l) inst"
      using i(1) ok unfolding metrics_ok_def by metis
    then have "key \<in> sd_key ` set (mc_series c)"
      using i(2) unfolding instance_ok_def mkeys_iff [symmetric] by (metis mkeys_iff subsetD)
    then have "series_by_key c key \<noteq> None" by (rule series_by_key_some)
    moreover have "instrument_ok (with_defaults l) i" using inst i(2) by (simp add: instance_ok_def)
    ultimately show ?thesis
      using Some i at by (simp add: import imports_drawn new_store_frame drawn_imported)
  qed
qed

subsection \<open>What is drawn decides what is read\<close>

lemma mget_map_filter:
  assumes "map_ok m"
  shows "mget (List.map_filter (\<lambda>p. map_option (Pair (fst p)) (g (snd p))) m) k = Option.bind (mget m k) g" (is ?get)
    and "map_ok (List.map_filter (\<lambda>p. map_option (Pair (fst p)) (g (snd p))) m)"
proof -
  have "?get \<and> map_ok (List.map_filter (\<lambda>p. map_option (Pair (fst p)) (g (snd p))) m) \<and>
      fst ` set (List.map_filter (\<lambda>p. map_option (Pair (fst p)) (g (snd p))) m) \<subseteq> fst ` set m"
    using assms
  proof (induction m)
    case (Cons p m)
    obtain n v where p: "p = (n, v)" by fastforce
    have "mget m n = None" "map_ok m" "n \<notin> fst ` set m" using Cons.prems p by (auto simp: map_ok_def mget_None_iff mkeys_def)
    with Cons.IH p show ?case by (cases "g v") (auto simp: mget_def map_ok_def List.map_filter_simps)
  qed (simp_all add: mget_def map_ok_def List.map_filter_simps)
  then show ?get "map_ok (List.map_filter (\<lambda>p. map_option (Pair (fst p)) (g (snd p))) m)" by blast+
qed

definition some_points :: "'v float_ops \<Rightarrow> tier_kind \<Rightarrow> 'v instrument \<Rightarrow> (int, 'v) gomap option" where
  "some_points fl tier i = (if points_of fl tier i = [] then None else Some (points_of fl tier i))"

lemma series_points_get:
  assumes "map_ok insts"
  shows "mget (series_points fl key tier insts) name =
      Option.bind (Option.bind (mget insts name) (\<lambda>inst. mget (is_by_key inst) key)) (some_points fl tier)"
    and "map_ok (series_points fl key tier insts)"
proof -
  have "series_points fl key tier insts =
      List.map_filter (\<lambda>p. map_option (Pair (fst p)) (Option.bind (mget (is_by_key (snd p)) key) (some_points fl tier))) insts"
    unfolding series_points_def by (intro arg_cong2 [where f = List.map_filter] ext refl) (simp add: some_points_def Let_def split: option.split)
  with mget_map_filter [OF assms, of "\<lambda>inst. Option.bind (mget (is_by_key inst) key) (some_points fl tier)"]
  show "mget (series_points fl key tier insts) name =
      Option.bind (Option.bind (mget insts name) (\<lambda>inst. mget (is_by_key inst) key)) (some_points fl tier)"
    "map_ok (series_points fl key tier insts)"
    by simp_all
qed

lemma drawn_points: "drawn i = drawn j \<Longrightarrow> some_points fl tier i = some_points fl tier j"
  by (simp add: some_points_def points_of_def tier_points_def held_buckets_def drawn_def split: tier_kind.split)

lemma drawn_stats:
  "drawn i = drawn j \<Longrightarrow> ring_ok (im_raw i) \<Longrightarrow> ring_ok (im_raw j) \<Longrightarrow> instrument_stats fl i = instrument_stats fl j"
  by (simp add: instrument_stats_def held_buckets_def drawn_def ring_last_each)

lemma drawn_at:
  "drawn_of s name key = map_option drawn (Option.bind (mget (ms_instances s) name) (\<lambda>inst. mget (is_by_key inst) key))"
  by (simp add: drawn_of_def split: option.split)

lemma same_series_points:
  assumes "map_ok (ms_instances s)" "map_ok (ms_instances s')" "drawn_of s' name key = drawn_of s name key"
  shows "mget (series_points fl key tier (ms_instances s')) name = mget (series_points fl key tier (ms_instances s)) name"
  using assms(3) drawn_points
  by (cases "Option.bind (mget (ms_instances s) name) (\<lambda>inst. mget (is_by_key inst) key)";
      cases "Option.bind (mget (ms_instances s') name) (\<lambda>inst. mget (is_by_key inst) key)")
    (simp_all add: series_points_get(1) assms(1,2) drawn_at)

lemma reported_by_name:
  assumes "map_ok (ms_instances s)"
  shows "reported_times fl key tier s = {t. \<exists>name pts. mget (series_points fl key tier (ms_instances s)) name = Some pts \<and> t \<in> set (mkeys pts)}"
  using mget_of_set [OF series_points_get(2) [OF assms]] unfolding reported_times_def
  by (force dest: mget_in_set)

lemma mget_map_values: "mget (map (\<lambda>p. (fst p, f (snd p))) m) k = map_option f (mget m k)"
  by (induction m) (auto simp: mget_def)

lemma same_range:
  assumes "map_ok (ms_instances s)" "map_ok (ms_instances s')" "ms_limits s' = ms_limits s"
    "\<forall>name. drawn_of s' name key = drawn_of s name key"
  shows "fst (metric_range fl key tier s') = fst (metric_range fl key tier s) \<and>
    mget (snd (metric_range fl key tier s')) name = mget (snd (metric_range fl key tier s)) name"
proof -
  have same: "mget (series_points fl key tier (ms_instances s')) n = mget (series_points fl key tier (ms_instances s)) n" for n
    using same_series_points assms by blast
  then have "reported_times fl key tier s' = reported_times fl key tier s"
    using assms by (simp add: reported_by_name)
  with same assms(3) show ?thesis
    by (simp add: metric_range_eq Let_def mget_map_values [where f = "\<lambda>pts. map (mget pts) axis" for axis])
qed

lemma import_keeps_maps:
  "map_ok (ms_instances s) \<Longrightarrow> map_ok (ms_instances (metrics_import fl st s))"
proof -
  have "map_ok (ms_instances s) \<Longrightarrow> map_ok (ms_instances (fold (import_instrument fl keep) ps s))" for keep ps
    by (induction ps arbitrary: s) (simp_all add: import_instrument_def Let_def)
  then show "map_ok (ms_instances s) \<Longrightarrow> map_ok (ms_instances (metrics_import fl st s))" by (simp add: metrics_import_def)
qed

lemma import_frame: "ms_limits (metrics_import fl st s) = ms_limits s"
  by (simp add: metrics_import_def)

definition rings_ok :: "'v metric_store \<Rightarrow> bool" where
  "rings_ok s \<longleftrightarrow>
     (\<forall>name inst key i. mget (ms_instances s) name = Some inst \<and> mget (is_by_key inst) key = Some i \<longrightarrow> ring_ok (im_raw i))"

lemma ring_push_map_ok: "ring_ok r \<Longrightarrow> ring_ok (fold (\<lambda>v. ring_push (f v)) vs r)"
  by (induction vs arbitrary: r) (simp_all add: ring_push_ok)

lemma import_rings: "rings_ok s \<Longrightarrow> rings_ok (metrics_import fl st s)"
proof -
  have one: "rings_ok (import_instrument fl keep p s)" if "rings_ok s" for keep p and s :: "'a metric_store"
    using that ring_push_map_ok [OF new_ring_ok(1)]
    by (auto simp: rings_ok_def import_instrument_def Let_def new_instrument_def empty_instance_def split: option.split if_splits)
  have "rings_ok (fold (import_instrument fl keep) ps s)" if "rings_ok s" for keep ps and s :: "'a metric_store"
    using that by (induction ps arbitrary: s) (simp_all add: one)
  then show "rings_ok s \<Longrightarrow> rings_ok (metrics_import fl st s)" by (simp add: metrics_import_def)
qed

lemma series_stats_get:
  assumes "map_ok (ms_instances s)"
  shows "mget (series_stats fl key s) name =
    map_option (instrument_stats fl) (Option.bind (mget (ms_instances s) name) (\<lambda>inst. mget (is_by_key inst) key))"
proof -
  have "series_stats fl key s =
      List.map_filter (\<lambda>p. map_option (Pair (fst p)) (map_option (instrument_stats fl) (mget (is_by_key (snd p)) key))) (ms_instances s)"
    unfolding series_stats_def by (intro arg_cong2 [where f = List.map_filter] ext refl) (simp add: option.map_comp comp_def)
  with mget_map_filter(1) [OF assms, of "\<lambda>inst. map_option (instrument_stats fl) (mget (is_by_key inst) key)" name]
  show ?thesis by (simp split: option.split) (cases "mget (ms_instances s) name"; simp)
qed

lemma same_stats:
  assumes "map_ok (ms_instances s)" "map_ok (ms_instances s')" "rings_ok s" "rings_ok s'" "drawn_of s' name key = drawn_of s name key"
  shows "mget (series_stats fl key s') name = mget (series_stats fl key s) name"
proof -
  have ring: "ring_ok (im_raw i)" if "rings_ok r" "Option.bind (mget (ms_instances r) name) (\<lambda>inst. mget (is_by_key inst) key) = Some i"
    for i and r :: "'a metric_store"
    using that by (auto simp: rings_ok_def bind_eq_Some_conv)
  show ?thesis
    using assms(5) drawn_stats ring [OF assms(3)] ring [OF assms(4)]
    by (cases "Option.bind (mget (ms_instances s) name) (\<lambda>inst. mget (is_by_key inst) key)";
        cases "Option.bind (mget (ms_instances s') name) (\<lambda>inst. mget (is_by_key inst) key)")
      (simp_all add: series_stats_get assms(1,2) drawn_at)
qed



section \<open>The snapshot file\<close>

record disk =
  dk_file :: "string option"
  dk_tmp :: "string option"

text \<open>The operation of a flush that fails; a failed write leaves the bytes it got through.\<close>

datatype flush_fault = EncodeFault | OpenFault | WriteFault nat | SyncFault | CloseFault | RenameFault

definition flush_error :: "string \<Rightarrow> go_error \<Rightarrow> go_error" where
  "flush_error what cause = new_error (''metrics snapshot '' @ what) CategoryInternal (Some cause)"

text \<open>\<open>flush\<close>: temporary file, fsync, rename over the previous snapshot.\<close>

definition flush ::
    "('v persisted_state \<Rightarrow> string) \<Rightarrow> go_error \<Rightarrow> flush_fault option \<Rightarrow> 'v persisted_state \<Rightarrow> disk \<Rightarrow> disk \<times> go_error option" where
  "flush encode cause fault st d =
     (if fault = Some EncodeFault then (d, Some (flush_error ''encode'' cause))
      else if fault = Some OpenFault then (d, Some (flush_error ''write'' cause))
      else
        let opened = d\<lparr>dk_tmp := Some []\<rparr>
        in case fault of
             Some (WriteFault n) \<Rightarrow> (opened\<lparr>dk_tmp := Some (take n (encode st))\<rparr>, Some (flush_error ''write'' cause))
           | _ \<Rightarrow>
             let written = opened\<lparr>dk_tmp := Some (encode st)\<rparr>
             in if fault = Some SyncFault then (written, Some (flush_error ''sync'' cause))
                else if fault = Some CloseFault then (written, Some (flush_error ''close'' cause))
                else if fault = Some RenameFault then (written, Some (flush_error ''rename'' cause))
                else (written\<lparr>dk_file := dk_tmp written, dk_tmp := None\<rparr>, None))"

text \<open>\<open>OpenPersister\<close>: the read of an existing snapshot may fail; one that does not decode, or of
another version, is discarded. \<open>Inl\<close> is the error that fails the start.\<close>

definition open_persister ::
    "'v float_ops \<Rightarrow> ('v persisted_state \<Rightarrow> string) \<Rightarrow> (string \<Rightarrow> 'v persisted_state option) \<Rightarrow> go_error \<Rightarrow> bool \<Rightarrow>
     flush_fault option \<Rightarrow> instant \<Rightarrow> 'v metric_store \<Rightarrow> disk \<Rightarrow> (go_error + 'v metric_store) \<times> disk" where
  "open_persister fl encode decode cause read_fails fault now s d =
     (if read_fails then (Inl (new_error ''metrics snapshot read'' CategoryInternal (Some cause)), d)
      else
        let s1 =
          (case dk_file d of
             None \<Rightarrow> s
           | Some raw \<Rightarrow>
               (case decode raw of
                  None \<Rightarrow> s
                | Some st \<Rightarrow> if pt_version st \<noteq> snapshot_version then s else metrics_import fl st s));
            (d1, err) = flush encode cause fault (metrics_export now s1) d
        in case err of Some e \<Rightarrow> (Inl e, d1) | None \<Rightarrow> (Inr s1, d1))"

text \<open>What happens to the file: flushes of the exported store, each ending well or with a fault, and
kills of the process at any point of one. A kill leaves on disk what the flush has done up to there, which is
what the fault at that point leaves too; that synced bytes survive a loss of power is the file system's promise.\<close>

datatype kill_point = BeforeOpen | WhileWriting nat | AfterRename

datatype 'v file_event =
    Flushed "'v persisted_state" "flush_fault option"
  | Killed "'v persisted_state" kill_point

fun persist_event :: "('v persisted_state \<Rightarrow> string) \<Rightarrow> go_error \<Rightarrow> 'v file_event \<Rightarrow> disk \<Rightarrow> disk" where
  "persist_event encode cause (Flushed st fault) d = fst (flush encode cause fault st d)"
| "persist_event encode cause (Killed st BeforeOpen) d = fst (flush encode cause (Some OpenFault) st d)"
| "persist_event encode cause (Killed st (WhileWriting n)) d = fst (flush encode cause (Some (WriteFault n)) st d)"
| "persist_event encode cause (Killed st AfterRename) d = fst (flush encode cause None st d)"

fun completed :: "'v file_event \<Rightarrow> 'v persisted_state option" where
  "completed (Flushed st None) = Some st"
| "completed (Killed st AfterRename) = Some st"
| "completed e = None"

definition last_completed :: "'v file_event list \<Rightarrow> 'v persisted_state option" where
  "last_completed es = (case List.map_filter completed (rev es) of [] \<Rightarrow> None | st # _ \<Rightarrow> Some st)"

lemma persist_event_file:
  "dk_file (persist_event encode cause e d) = (case completed e of None \<Rightarrow> dk_file d | Some st \<Rightarrow> Some (encode st))"
  by (cases e rule: completed.cases) (auto simp: flush_def Let_def split: flush_fault.split)

lemma file_after:
  "dk_file (fold (persist_event encode cause) es d) =
     (case last_completed es of None \<Rightarrow> dk_file d | Some st \<Rightarrow> Some (encode st))"
proof (induction es rule: rev_induct)
  case (snoc e es)
  then show ?case
    by (auto simp: persist_event_file last_completed_def List.map_filter_simps split: option.split)
qed (simp add: last_completed_def List.map_filter_simps)



end
