(* ===== verification/Observe.thy ===== *)
theory Observe
  imports Redact "HOL-Library.Word"
begin

text \<open>
  The engine of \<open>internal/observe\<close>: the retained item sets of the collectors (\<open>keyed.go\<close>), the
  store a snapshot is published to, and the loop every collector runs (\<open>loop.go\<close>): seed, publish,
  follow, fold and republish, mark stale on a loss of contact, wait, try again. The loop is a step
  relation over its program points; what it drives is a \<open>feed\<close>, the record of the operations the
  Go interface names. The collectors themselves, which are instances, are in the theories
  \<open>ObserveSingle\<close>, \<open>ObserveKinds\<close> and \<open>ObserveInfra\<close>.
\<close>

section \<open>Retained item sets\<close>

type_synonym 'a keyed = "(string, 'a) gomap"

record 'a retention =
  rt_name :: "'a \<Rightarrow> string"
  rt_uid :: "'a \<Rightarrow> string"
  rt_limit :: int
  rt_evictable :: "'a \<Rightarrow> 'a \<Rightarrow> bool"

text \<open>The loop of \<open>evictee\<close>, in the order the runtime ranges over the map.\<close>

fun evictee_from :: "('a \<Rightarrow> 'a \<Rightarrow> bool) \<Rightarrow> 'a keyed \<Rightarrow> (string \<times> 'a) option \<Rightarrow> (string \<times> 'a) option" where
  "evictee_from ev [] loser = loser"
| "evictee_from ev ((name, item) # k) loser =
     evictee_from ev k
       (case loser of
          None \<Rightarrow> Some (name, item)
        | Some (name', item') \<Rightarrow> if ev item item' then Some (name, item) else loser)"

definition keyed_evictee :: "'a retention \<Rightarrow> 'a keyed \<Rightarrow> string" where
  "keyed_evictee r k =
     (case evictee_from (rt_evictable r) k None of None \<Rightarrow> '''' | Some (name, item) \<Rightarrow> name)"

definition keyed_put :: "'a retention \<Rightarrow> 'a \<Rightarrow> 'a keyed \<Rightarrow> 'a keyed \<times> bool" where
  "keyed_put r item k =
     (let name = rt_name r item
      in if mget k name = None \<and> rt_limit r > 0 \<and> int (length k) \<ge> rt_limit r
         then (mput name item (mdel (keyed_evictee r k) k), True)
         else (mput name item k, False))"

definition keyed_remove :: "'a retention \<Rightarrow> string \<Rightarrow> string \<Rightarrow> 'a keyed \<Rightarrow> 'a keyed" where
  "keyed_remove r name uid k =
     (case mget k name of
        Some current \<Rightarrow> if rt_uid r current = uid then mdel name k else k
      | None \<Rightarrow> k)"

definition keyed_list :: "'a keyed \<Rightarrow> 'a list" where
  "keyed_list k = map snd k"

text \<open>\<open>for \_, item := range items { evicted = k.put(item, p) || evicted }\<close>, the seeding loop.\<close>

fun keyed_put_all :: "'a retention \<Rightarrow> 'a list \<Rightarrow> 'a keyed \<times> bool \<Rightarrow> 'a keyed \<times> bool" where
  "keyed_put_all r [] ke = ke"
| "keyed_put_all r (x # xs) (k, e) =
     (let (k', evicted) = keyed_put r x k in keyed_put_all r xs (k', evicted \<or> e))"

definition bounded :: "('a \<Rightarrow> 'a \<Rightarrow> bool) \<Rightarrow> int \<Rightarrow> 'a list \<Rightarrow> 'a list \<times> bool" where
  "bounded lt limit items =
     (let kept = sort_by lt items
      in if int (length kept) > limit then (take (nat limit) kept, True) else (kept, False))"

text \<open>One change of a watch: \<open>Put\<close> or \<open>Delete\<close>, or neither.\<close>

record deletion =
  dl_name :: string
  dl_uid :: string

record 'a watch_change =
  ch_put :: "'a option"
  ch_delete :: "deletion option"

text \<open>The fold every collector of one kind applies: the new set, whether an entry was evicted, and
  whether the change was recognized.\<close>

definition keyed_fold :: "'a retention \<Rightarrow> 'a watch_change \<Rightarrow> 'a keyed \<Rightarrow> ('a keyed \<times> bool) \<times> bool" where
  "keyed_fold r c k =
     (case ch_put c of
        Some item \<Rightarrow> (keyed_put r item k, True)
      | None \<Rightarrow>
          (case ch_delete c of
             Some d \<Rightarrow> ((keyed_remove r (dl_name d) (dl_uid d) k, False), True)
           | None \<Rightarrow> ((k, False), False)))"

section \<open>Snapshots and stores\<close>

text \<open>The part every snapshot has; the collectors extend it. The generation is a \<open>uint64\<close>.\<close>

record observed =
  og_generation :: "64 word"
  og_observed_at :: instant
  og_stale :: bool

record 'a store =
  so_snap :: 'a
  so_has :: bool

definition current :: "'a store \<Rightarrow> 'a \<times> bool" where
  "current s = (so_snap s, so_has s)"

definition mark_stale :: "'a observed_scheme store \<Rightarrow> 'a observed_scheme store" where
  "mark_stale s = (if \<not> so_has s then s else s\<lparr>so_snap := (so_snap s)\<lparr>og_stale := True\<rparr>\<rparr>)"

section \<open>What a bounded set keeps\<close>

definition keyed_ok :: "'a retention \<Rightarrow> 'a keyed \<Rightarrow> bool" where
  "keyed_ok r k \<longleftrightarrow> map_ok k \<and> (\<forall>(name, x) \<in> set k. name = rt_name r x)"

text \<open>The same identity with no bound: what the collector would hold if memory were free.\<close>

definition unlimited :: "'a retention \<Rightarrow> 'a retention" where
  "unlimited r = r\<lparr>rt_limit := 0\<rparr>"

lemma unlimited_simps [simp]: "rt_name (unlimited r) = rt_name r" "rt_uid (unlimited r) = rt_uid r"
  "rt_limit (unlimited r) = 0"
  by (simp_all add: unlimited_def)

text \<open>The changes of a watch, in order; the flag is the truncation a collector records.\<close>

fun keyed_changes :: "'a retention \<Rightarrow> 'a watch_change list \<Rightarrow> 'a keyed \<times> bool \<Rightarrow> 'a keyed \<times> bool" where
  "keyed_changes r [] ke = ke"
| "keyed_changes r (c # cs) (k, e) =
     (let ((k', evicted), known) = keyed_fold r c k in keyed_changes r cs (k', evicted \<or> e))"

lemma keyed_ok_Nil [simp]: "keyed_ok r []"
  by (simp add: keyed_ok_def)

lemma keyed_ok_get: "keyed_ok r k \<Longrightarrow> mget k name = Some x \<Longrightarrow> rt_name r x = name"
  unfolding keyed_ok_def by (auto dest: mget_in_set)

lemma keyed_ok_mput: "keyed_ok r k \<Longrightarrow> keyed_ok r (mput (rt_name r x) x k)"
proof -
  assume ok: "keyed_ok r k"
  have "name = rt_name r y" if "(name, y) \<in> set (mput (rt_name r x) x k)" for name y
  proof -
    have "mget (mput (rt_name r x) x k) name = Some y"
      using ok that by (intro mget_of_set) (simp_all add: keyed_ok_def)
    then show ?thesis using keyed_ok_get [OF ok] by (auto split: if_splits)
  qed
  with ok show ?thesis by (auto simp: keyed_ok_def)
qed

lemma keyed_ok_mdel: "keyed_ok r k \<Longrightarrow> keyed_ok r (mdel name k)"
  by (auto simp: keyed_ok_def mdel_filter map_ok_def distinct_map_filter)

lemma keyed_ok_put: "keyed_ok r k \<Longrightarrow> keyed_ok r (fst (keyed_put r x k))"
  by (simp add: keyed_put_def Let_def keyed_ok_mput keyed_ok_mdel)

lemma keyed_ok_remove: "keyed_ok r k \<Longrightarrow> keyed_ok r (keyed_remove r name uid k)"
  by (simp add: keyed_remove_def keyed_ok_mdel split: option.split)

lemma keyed_ok_fold: "keyed_ok r k \<Longrightarrow> keyed_ok r (fst (fst (keyed_fold r c k)))"
  by (simp add: keyed_fold_def keyed_ok_put keyed_ok_remove split: option.split)

lemma keyed_ok_put_all: "keyed_ok r (fst ke) \<Longrightarrow> keyed_ok r (fst (keyed_put_all r xs ke))"
proof (induction r xs ke rule: keyed_put_all.induct)
  case (2 r x xs k e)
  then show ?case using keyed_ok_put [of r k x] by (auto simp: Let_def split: prod.split)
qed simp

lemma keyed_ok_changes: "keyed_ok r (fst ke) \<Longrightarrow> keyed_ok r (fst (keyed_changes r cs ke))"
proof (induction r cs ke rule: keyed_changes.induct)
  case (2 r c cs k e)
  then show ?case using keyed_ok_fold [of r k c] by (auto simp: Let_def split: prod.split)
qed simp

lemma keyed_ok_unlimited [simp]: "keyed_ok (unlimited r) k \<longleftrightarrow> keyed_ok r k"
  by (simp add: keyed_ok_def)

lemma set_keyed_list: "keyed_ok r k \<Longrightarrow> x \<in> set (keyed_list k) \<longleftrightarrow> mget k (rt_name r x) = Some x"
  by (force simp: keyed_list_def keyed_ok_def dest: mget_in_set intro: mget_of_set)

lemma distinct_keyed_list: "keyed_ok r k \<Longrightarrow> distinct (map (rt_name r) (keyed_list k))"
proof -
  assume ok: "keyed_ok r k"
  then have "map (rt_name r) (keyed_list k) = map fst k"
    by (auto simp: keyed_list_def keyed_ok_def)
  with ok show ?thesis by (simp add: keyed_ok_def map_ok_def)
qed

lemma length_keyed_list [simp]: "length (keyed_list k) = length k"
  by (simp add: keyed_list_def)

lemma length_mkeys [simp]: "length (mkeys m) = length m"
  by (simp add: mkeys_def)

lemma map_ok_card: "map_ok m \<Longrightarrow> card (set (mkeys m)) = length m"
  by (metis distinct_card length_mkeys map_ok_def mkeys_def)

subsection \<open>Honest truncation\<close>

text \<open>What is retained is always current, and complete as long as nothing was evicted.\<close>

definition honest :: "'a keyed \<Rightarrow> 'a keyed \<Rightarrow> bool \<Rightarrow> bool" where
  "honest k full evicted \<longleftrightarrow>
     (\<forall>name x. mget k name = Some x \<longrightarrow> mget full name = Some x) \<and> (\<not> evicted \<longrightarrow> k = full)"

lemma unlimited_put: "keyed_put (unlimited r) x k = (mput (rt_name r x) x k, False)"
  by (simp add: keyed_put_def Let_def)

lemma unlimited_remove: "keyed_remove (unlimited r) = keyed_remove r"
  by (intro ext) (simp add: keyed_remove_def split: option.split)

lemma honest_put:
  "honest k full e \<Longrightarrow> honest (fst (keyed_put r x k)) (fst (keyed_put (unlimited r) x full)) (snd (keyed_put r x k) \<or> e)"
proof -
  assume h: "honest k full e"
  define ke where "ke = keyed_put r x k"
  have "fst ke = mput (rt_name r x) x (if snd ke then mdel (keyed_evictee r k) k else k)"
    by (simp add: ke_def keyed_put_def Let_def)
  moreover have "mget full n = Some y" if "mget k n = Some y" for n y
    using that h by (simp add: honest_def)
  moreover have "\<not> e \<longrightarrow> k = full" using h by (simp add: honest_def)
  ultimately show ?thesis unfolding honest_def unlimited_put fst_conv ke_def [symmetric] by auto
qed

lemma mget_keyed_remove:
  "mget (keyed_remove r name uid k) n =
     (if n = name \<and> (case mget k name of Some x \<Rightarrow> rt_uid r x = uid | None \<Rightarrow> False) then None else mget k n)"
  by (simp add: keyed_remove_def split: option.split)

lemma honest_remove:
  "honest k full e \<Longrightarrow> honest (keyed_remove r name uid k) (keyed_remove r name uid full) e"
proof -
  assume h: "honest k full e"
  have "mget (keyed_remove r name uid full) n = Some x" if "mget (keyed_remove r name uid k) n = Some x" for n x
  proof (cases "n = name")
    case True
    with that have "mget k name = Some x" "rt_uid r x \<noteq> uid"
      by (simp_all add: mget_keyed_remove split: option.splits if_splits)
    with h True show ?thesis by (simp add: honest_def mget_keyed_remove)
  next
    case False
    with that h show ?thesis by (simp add: honest_def mget_keyed_remove)
  qed
  with h show ?thesis by (simp add: honest_def)
qed

lemma honest_fold:
  "honest k full e \<Longrightarrow>
     honest (fst (fst (keyed_fold r c k))) (fst (fst (keyed_fold (unlimited r) c full))) (snd (fst (keyed_fold r c k)) \<or> e)"
  using honest_put [of k full e] honest_remove [of k full e]
  by (auto simp: keyed_fold_def unlimited_remove split: option.split)

lemma honest_put_all:
  "honest k full e \<Longrightarrow> honest (fst (keyed_put_all r xs (k, e))) (fst (keyed_put_all (unlimited r) xs (full, b))) (snd (keyed_put_all r xs (k, e)))"
proof (induction xs arbitrary: k full e b)
  case (Cons x xs)
  from honest_put [OF Cons.prems, of r x] show ?case
    by (auto simp: Let_def split_beta intro: Cons.IH)
qed simp

lemma honest_changes:
  "honest k full e \<Longrightarrow> honest (fst (keyed_changes r cs (k, e))) (fst (keyed_changes (unlimited r) cs (full, b))) (snd (keyed_changes r cs (k, e)))"
proof (induction cs arbitrary: k full e b)
  case (Cons c cs)
  from honest_fold [OF Cons.prems, of r c] show ?case
    by (auto simp: Let_def split_beta intro: Cons.IH)
qed simp

lemma put_all_flag: "keyed_put_all r xs (k, e) = (fst (keyed_put_all r xs (k, False)), snd (keyed_put_all r xs (k, False)) \<or> e)"
proof (induction xs arbitrary: k e)
  case (Cons x xs)
  show ?case using Cons [of "fst (keyed_put r x k)" "snd (keyed_put r x k) \<or> e"]
      Cons [of "fst (keyed_put r x k)" "snd (keyed_put r x k)"]
    by (simp add: Let_def split_beta)
qed simp

lemma fst_bounded: "fst (bounded lt (int n) xs) = take n (sort_by lt xs)"
  by (simp add: bounded_def Let_def)

lemma bounded_length: "0 \<le> limit \<Longrightarrow> int (length (fst (bounded lt limit xs))) \<le> limit"
  by (simp add: bounded_def Let_def)

lemma bounded_uncut: "\<not> snd (bounded lt limit xs) \<Longrightarrow> fst (bounded lt limit xs) = sort_by lt xs"
  by (simp add: bounded_def Let_def split: if_splits)

text \<open>What a set displayed in name order looks like once bounded.\<close>

lemma bounded_roster:
  fixes r :: "'a retention" and k :: "'a keyed" and lt :: "'a \<Rightarrow> 'a \<Rightarrow> bool" and n :: nat
  assumes ok: "keyed_ok r k" and lt: "\<And>a b. lt a b \<longleftrightarrow> str_less (rt_name r a) (rt_name r b)"
  defines "shown \<equiv> fst (bounded lt (int n) (keyed_list k))"
  shows "sorted_wrt lt shown" and "set shown \<subseteq> set (keyed_list k)" and "length shown = min n (length k)"
    and "snd (bounded lt (int n) (keyed_list k)) \<longleftrightarrow> n < length k"
    and "\<forall>p \<in> set shown. \<forall>q \<in> set (keyed_list k) - set shown. lt p q"
proof -
  let ?S = "sort_by lt (keyed_list k)"
  have order: "strict_weak_order lt" by unfold_locales (auto simp: lt str_less_def)
  have names: "distinct (map (rt_name r) ?S)"
    using distinct_keyed_list [OF ok] by (metis mset_eq_imp_distinct_iff mset_map mset_sort_by)
  have "sorted_wrt (\<lambda>a b. rt_name r a \<le> rt_name r b) ?S"
    using strict_weak_order.sorted_sort_by [OF order, of "keyed_list k"] by (simp add: lt str_less_def not_less)
  then have "sorted (map (rt_name r) ?S)" by (simp add: sorted_wrt_map)
  with names have "sorted_wrt (<) (map (rt_name r) ?S)" by (simp only: strict_sorted_iff)
  moreover have "lt = (\<lambda>a b. rt_name r a < rt_name r b)" by (simp add: fun_eq_iff lt str_less_def)
  ultimately have strict: "sorted_wrt lt ?S" by (simp add: sorted_wrt_map)
  have shown: "shown = take n ?S" by (simp add: shown_def fst_bounded)
  show "sorted_wrt lt shown" unfolding shown using strict by (rule sorted_wrt_take)
  show "set shown \<subseteq> set (keyed_list k)" unfolding shown using set_take_subset by fastforce
  show "length shown = min n (length k)" by (simp add: shown)
  show "snd (bounded lt (int n) (keyed_list k)) \<longleftrightarrow> n < length k" by (simp add: bounded_def Let_def)
  have "q \<in> set (drop n ?S)" if "q \<in> set (keyed_list k) - set shown" for q
    using that unfolding shown by (metis Diff_iff Un_iff append_take_drop_id set_append set_sort_by)
  then show "\<forall>p \<in> set shown. \<forall>q \<in> set (keyed_list k) - set shown. lt p q"
    using strict unfolding shown by (metis append_take_drop_id sorted_wrt_append)
qed

subsection \<open>Which entry goes\<close>

context strict_weak_order
begin

lemma evictee_from_Some:
  "\<exists>p. evictee_from lt k (Some l) = Some p \<and> p \<in> insert l (set k) \<and>
     (\<forall>q \<in> insert l (set k). \<not> lt (snd q) (snd p))"
proof (induction k arbitrary: l)
  case Nil
  then show ?case using less_asym by (metis empty_iff evictee_from.simps(1) insertE insertI1 list.set(1))
next
  case (Cons e k)
  define l' where "l' = (if lt (snd e) (snd l) then e else l)"
  obtain p where p: "evictee_from lt k (Some l') = Some p" "p \<in> insert l' (set k)"
    "\<forall>q \<in> insert l' (set k). \<not> lt (snd q) (snd p)" using Cons [of l'] by blast
  have "evictee_from lt (e # k) (Some l) = evictee_from lt k (Some l')"
    by (cases e; cases l) (simp add: l'_def)
  moreover have "\<not> lt (snd e) (snd l')" "\<not> lt (snd l) (snd l')"
    using less_asym by (auto simp: l'_def)
  then have "\<not> lt (snd e) (snd p)" "\<not> lt (snd l) (snd p)"
    using p(3) less_neg_trans by blast+
  moreover have "p \<in> insert l (set (e # k))" using p(2) by (auto simp: l'_def)
  ultimately show ?case using p by auto
qed

lemma evictee_loses_first:
  assumes "rt_evictable r = lt" and "keyed_ok r k" and "k \<noteq> []"
  shows "\<exists>x. mget k (keyed_evictee r k) = Some x \<and> (\<forall>y \<in> set (keyed_list k). \<not> lt y x)"
proof -
  obtain e k' where k: "k = e # k'" using assms(3) by (cases k) auto
  obtain p where p: "evictee_from lt k None = Some p" "p \<in> set k" "\<forall>q \<in> set k. \<not> lt (snd q) (snd p)"
    using evictee_from_Some [of k' e] by (cases e) (auto simp: k)
  have "mget k (fst p) = Some (snd p)" using p(2) assms(2) by (auto simp: keyed_ok_def intro: mget_of_set)
  with p assms(1) show ?thesis by (cases p) (auto simp: keyed_evictee_def keyed_list_def)
qed

end

subsection \<open>Invisible eviction\<close>

text \<open>
  A kind that is displayed in name order, retains one more than it displays and evicts the largest
  name: no put can be seen to have evicted anything, and the flag says exactly whether there was more.
\<close>

locale named_kind =
  fixes r :: "'a retention" and lt :: "'a \<Rightarrow> 'a \<Rightarrow> bool" and n :: nat
  assumes lt_name: "lt a b \<longleftrightarrow> str_less (rt_name r a) (rt_name r b)"
    and evicts_largest: "rt_evictable r a b \<longleftrightarrow> str_less (rt_name r b) (rt_name r a)"
    and limit_sentinel: "rt_limit r = int n + 1"
begin

lemma lt_order: "strict_weak_order lt"
  by unfold_locales (auto simp: lt_name str_less_def)

lemma evictable_order: "strict_weak_order (rt_evictable r)"
  by unfold_locales (auto simp: evicts_largest str_less_def)

text \<open>The smallest names are all retained.\<close>

definition prefix_kept :: "'a keyed \<Rightarrow> 'a keyed \<Rightarrow> bool \<Rightarrow> bool" where
  "prefix_kept k full e \<longleftrightarrow>
     keyed_ok r k \<and> keyed_ok r full \<and> (\<forall>name x. mget k name = Some x \<longrightarrow> mget full name = Some x) \<and>
     length k = min (n + 1) (length full) \<and> (e \<longleftrightarrow> n + 1 < length full) \<and>
     (\<forall>m. m \<in> set (mkeys full) - set (mkeys k) \<longrightarrow> n \<le> card {j \<in> set (mkeys k). j < m})"

lemma prefix_kept_Nil: "prefix_kept [] [] False"
  by (simp add: prefix_kept_def mkeys_def)

lemma prefix_kept_keys: "prefix_kept k full e \<Longrightarrow> set (mkeys k) \<subseteq> set (mkeys full)"
  by (auto simp: prefix_kept_def mkeys_iff)

lemma keyed_ok_map: "keyed_ok r k \<Longrightarrow> map_ok k"
  by (simp add: keyed_ok_def)

lemma mput_length: "map_ok k \<Longrightarrow> length (mput m x k) = (if m \<in> set (mkeys k) then length k else length k + 1)"
  using map_ok_card [of k] map_ok_card [of "mput m x k"] by (auto simp: mkeys_mput card_insert_if insert_absorb)

lemma mdel_length: "map_ok k \<Longrightarrow> m \<in> set (mkeys k) \<Longrightarrow> length (mdel m k) = length k - 1"
  using map_ok_card [of k] map_ok_card [of "mdel m k"] by (simp add: mkeys_mdel)

lemma evicted_is_largest:
  assumes "keyed_ok r k" and "k \<noteq> []"
  shows "keyed_evictee r k \<in> set (mkeys k)" and "\<forall>j \<in> set (mkeys k). j \<le> keyed_evictee r k"
proof -
  obtain x where x: "mget k (keyed_evictee r k) = Some x" "\<forall>y \<in> set (keyed_list k). \<not> rt_evictable r y x"
    using strict_weak_order.evictee_loses_first [OF evictable_order refl assms] by blast
  from x(1) show "keyed_evictee r k \<in> set (mkeys k)" by (auto simp: mkeys_iff)
  have name: "rt_name r x = keyed_evictee r k" using keyed_ok_get [OF assms(1) x(1)] .
  show "\<forall>j \<in> set (mkeys k). j \<le> keyed_evictee r k"
  proof
    fix j assume "j \<in> set (mkeys k)"
    then obtain y where y: "mget k j = Some y" by (auto simp: mkeys_iff)
    then have j: "rt_name r y = j" using keyed_ok_get [OF assms(1)] by blast
    with y have "y \<in> set (keyed_list k)" using set_keyed_list [OF assms(1)] by simp
    with x(2) have "\<not> rt_evictable r y x" by blast
    then show "j \<le> keyed_evictee r k" by (simp add: evicts_largest str_less_def name j)
  qed
qed

lemma put_cases:
  assumes "keyed_ok r k"
  obtains (same) "rt_name r x \<in> set (mkeys k)" "keyed_put r x k = (mput (rt_name r x) x k, False)"
  | (room) "rt_name r x \<notin> set (mkeys k)" "length k \<le> n" "keyed_put r x k = (mput (rt_name r x) x k, False)"
  | (full) "rt_name r x \<notin> set (mkeys k)" "n + 1 \<le> length k"
      "keyed_put r x k = (mput (rt_name r x) x (mdel (keyed_evictee r k) k), True)"
  using limit_sentinel mget_None_iff [of k "rt_name r x"]
  by (cases "rt_name r x \<in> set (mkeys k)"; cases "n + 1 \<le> length k") (auto simp: keyed_put_def Let_def)

lemma prefix_kept_put:
  assumes inv: "prefix_kept k full e"
  shows "prefix_kept (fst (keyed_put r x k)) (mput (rt_name r x) x full) (snd (keyed_put r x k) \<or> e)"
proof -
  let ?m = "rt_name r x" let ?K = "set (mkeys k)" let ?F = "set (mkeys full)" let ?k' = "fst (keyed_put r x k)"
  from inv have ok: "keyed_ok r k" "keyed_ok r full" and sub: "\<And>j y. mget k j = Some y \<Longrightarrow> mget full j = Some y"
    and len: "length k = min (n + 1) (length full)" and e: "e \<longleftrightarrow> n + 1 < length full"
    and above: "\<And>j. j \<in> ?F - ?K \<Longrightarrow> n \<le> card {i \<in> ?K. i < j}" by (auto simp: prefix_kept_def)
  note maps = keyed_ok_map [OF ok(1)] keyed_ok_map [OF ok(2)]
  have KF: "?K \<subseteq> ?F" using prefix_kept_keys [OF inv] .
  have ok': "keyed_ok r ?k'" "keyed_ok r (mput ?m x full)" using ok by (simp_all add: keyed_ok_put keyed_ok_mput)
  have sub': "mget (mput ?m x full) j = Some y" if "mget ?k' j = Some y" for j y
    using that sub by (auto simp: keyed_put_def Let_def split: if_splits)
  from ok(1) show ?thesis
  proof (cases rule: put_cases [of k x])
    case same
    then have "?m \<in> ?F" using KF by blast
    with same ok' sub' len e above maps show ?thesis
      unfolding prefix_kept_def by (auto simp: mput_length mkeys_mput insert_absorb)
  next
    case room
    then have "length full = length k" using len by simp
    then have "?K = ?F" using KF maps by (metis card_subset_eq finite_set map_ok_card)
    with room ok' sub' len e maps show ?thesis
      unfolding prefix_kept_def by (auto simp: mput_length mkeys_mput)
  next
    case full
    let ?g = "keyed_evictee r k"
    have ne: "k \<noteq> []" using full(2) by auto
    note g = evicted_is_largest [OF ok(1) ne]
    have K': "set (mkeys ?k') = insert ?m (?K - {?g})" by (simp add: full(3) mkeys_mput mkeys_mdel)
    have len_k: "length k = n + 1" "n + 1 \<le> length full" using full(2) len by auto
    have "length ?k' = n + 1"
      using full len_k g(1) maps by (simp add: full(3) mput_length mdel_length mkeys_mdel)
    moreover have lf: "n + 1 < length (mput ?m x full)"
    proof -
      have "card (insert ?m ?K) \<le> card (insert ?m ?F)" using KF by (intro card_mono) auto
      then show ?thesis using full(1) len_k maps map_ok_card [of "mput ?m x full"] map_ok_card [of k]
        by (simp add: mkeys_mput)
    qed
    moreover have "n \<le> card {i \<in> set (mkeys ?k'). i < j}" if j: "j \<in> insert ?m ?F - set (mkeys ?k')" for j
    proof (cases "?g < j \<or> j = ?g")
      case True
      then have "?K - {?g} \<subseteq> {i \<in> set (mkeys ?k'). i < j}" using g(2) by (auto simp: K' less_le intro: order_trans)
      from card_mono [OF _ this] show ?thesis using g(1) len_k map_ok_card [OF maps(1)] by simp
    next
      case False
      with j have "j \<in> ?F - ?K" by (auto simp: K')
      from above [OF this] have "n \<le> card {i \<in> ?K. i < j}" .
      also have "\<dots> \<le> card {i \<in> set (mkeys ?k'). i < j}" using False by (intro card_mono) (auto simp: K')
      finally show ?thesis .
    qed
    ultimately show ?thesis using ok' sub' full(3) unfolding prefix_kept_def by (auto simp: mkeys_mput)
  qed
qed

lemma prefix_kept_put_all:
  "prefix_kept k full e \<Longrightarrow>
     prefix_kept (fst (keyed_put_all r xs (k, e))) (fst (keyed_put_all (unlimited r) xs (full, b)))
       (snd (keyed_put_all r xs (k, e)))"
proof (induction xs arbitrary: k full e b)
  case (Cons x xs)
  from prefix_kept_put [OF Cons.prems, of x] show ?case
    by (auto simp: Let_def split_beta unlimited_put intro: Cons.IH)
qed simp

lemma distinct_list: "keyed_ok r k \<Longrightarrow> distinct (keyed_list k)"
  using distinct_keyed_list [of r k] by (simp add: distinct_map)

lemma names_differ: "keyed_ok r k \<Longrightarrow> a \<in> set (keyed_list k) \<Longrightarrow> b \<in> set (keyed_list k) \<Longrightarrow> a \<noteq> b \<Longrightarrow> lt a b \<or> lt b a"
  using set_keyed_list [of r k] by (metis lt_name not_less_iff_gr_or_eq option.inject str_less_def)

lemma sorted_take_drop:
  assumes "p \<in> set (take n S)" and "q \<in> set (drop n S)" and "S = sort_by lt xs"
  shows "\<not> lt q p"
  using strict_weak_order.sorted_sort_by [OF lt_order, of xs] assms
  by (metis append_take_drop_id sorted_wrt_append)

lemma kept_prefix_is_smallest:
  assumes inv: "prefix_kept k full e"
    and p: "p \<in> set (take n (sort_by lt (keyed_list k)))"
    and x: "x \<in> set (keyed_list full)" "x \<notin> set (take n (sort_by lt (keyed_list k)))"
  shows "\<not> lt x p"
proof
  assume less: "lt x p"
  let ?S = "sort_by lt (keyed_list k)" let ?P = "set (take n ?S)"
  from inv have ok: "keyed_ok r k" "keyed_ok r full" and sub: "\<And>j y. mget k j = Some y \<Longrightarrow> mget full j = Some y"
    and above: "\<And>j. j \<in> set (mkeys full) - set (mkeys k) \<Longrightarrow> n \<le> card {i \<in> set (mkeys k). i < j}"
    by (auto simp: prefix_kept_def)
  have split: "y \<in> ?P \<or> y \<in> set (drop n ?S)" if "y \<in> set (keyed_list k)" for y
    using that by (metis Un_iff append_take_drop_id set_append set_sort_by)
  have "x \<notin> set (keyed_list k)" using split x(2) sorted_take_drop [OF p _ refl] less by blast
  moreover have fx: "mget full (rt_name r x) = Some x" using x(1) set_keyed_list [OF ok(2)] by simp
  ultimately have "mget k (rt_name r x) = None"
    using sub set_keyed_list [OF ok(1)] by (metis not_Some_eq option.inject)
  with fx have "rt_name r x \<in> set (mkeys full) - set (mkeys k)" by (auto simp: mkeys_iff)
  from above [OF this] have "n \<le> card {i \<in> set (mkeys k). i < rt_name r x}" .
  also have "{i \<in> set (mkeys k). i < rt_name r x} \<subseteq> rt_name r ` ?P - {rt_name r p}"
  proof
    fix j assume "j \<in> {i \<in> set (mkeys k). i < rt_name r x}"
    then obtain y where y: "mget k j = Some y" "j < rt_name r x" by (auto simp: mkeys_iff)
    then have j: "rt_name r y = j" using keyed_ok_get [OF ok(1)] by blast
    with y(1) have "y \<in> set (keyed_list k)" using set_keyed_list [OF ok(1)] by simp
    moreover have before: "j < rt_name r p" using y(2) less by (auto simp: lt_name str_less_def)
    then have "lt y p" by (simp add: lt_name str_less_def j)
    ultimately have "y \<in> ?P" using split sorted_take_drop [OF p _ refl] by blast
    with j before show "j \<in> rt_name r ` ?P - {rt_name r p}" by auto
  qed
  then have "card {i \<in> set (mkeys k). i < rt_name r x} \<le> card (rt_name r ` ?P - {rt_name r p})"
    by (intro card_mono) auto
  also have "\<dots> = card (rt_name r ` ?P) - 1" using p by (intro card_Diff_singleton) auto
  also have "\<dots> < n"
  proof -
    have "card (rt_name r ` ?P) \<le> card ?P" by (rule card_image_le) simp
    also have "\<dots> \<le> length (take n ?S)" by (rule card_length)
    also have "\<dots> \<le> n" by simp
    finally have "card (rt_name r ` ?P) \<le> n" .
    moreover have "0 < n" using p by (cases n) auto
    ultimately show ?thesis by simp
  qed
  finally show False by simp
qed

lemma eviction_unseen:
  assumes inv: "prefix_kept k full e"
  shows "fst (bounded lt (int n) (keyed_list k)) = fst (bounded lt (int n) (keyed_list full))"
    and "e \<or> snd (bounded lt (int n) (keyed_list k)) \<longleftrightarrow> n < length full"
proof -
  let ?S = "sort_by lt (keyed_list k)" let ?P = "take n ?S" let ?F = "keyed_list full"
  let ?R = "filter (\<lambda>x. x \<notin> set ?P) ?F"
  from inv have ok: "keyed_ok r k" "keyed_ok r full" and sub: "\<And>j y. mget k j = Some y \<Longrightarrow> mget full j = Some y"
    and len: "length k = min (n + 1) (length full)" and e: "e \<longleftrightarrow> n + 1 < length full" by (auto simp: prefix_kept_def)
  note sorted_sort_by = strict_weak_order.sorted_sort_by [OF lt_order]
  have PF: "set ?P \<subseteq> set ?F"
    using sub set_keyed_list [OF ok(1)] set_keyed_list [OF ok(2)] by (metis in_set_takeD set_sort_by subsetI)
  have parts: "mset (?P @ sort_by lt ?R) = mset ?F"
  proof -
    have "distinct ?P" using distinct_list [OF ok(1)] by simp
    then have "mset ?P = mset (filter (\<lambda>x. x \<in> set ?P) ?F)"
      using distinct_list [OF ok(2)] PF by (intro set_eq_iff_mset_eq_distinct [THEN iffD1]) auto
    then show ?thesis by (simp only: mset_append mset_sort_by mset_filter) simp
  qed
  have "sorted_wrt (\<lambda>a b. \<not> lt b a) ?P" using sorted_sort_by by (rule sorted_wrt_take)
  then have "sorted_wrt (\<lambda>a b. \<not> lt b a) (?P @ sort_by lt ?R)"
    using sorted_sort_by kept_prefix_is_smallest [OF inv] by (auto simp: sorted_wrt_append)
  then have sorted: "sort_by lt ?F = ?P @ sort_by lt ?R"
    using names_differ [OF ok(2)] parts by (intro strict_weak_order.sorted_unique_on [OF lt_order sorted_sort_by]) auto
  have "take n (sort_by lt ?F) = ?P"
  proof (cases "n \<le> length k")
    case True
    then show ?thesis by (simp add: sorted)
  next
    case False
    then have "length ?P = length full" using len by simp
    moreover have "length ?P + length ?R = length full"
      using sorted by (metis length_append length_keyed_list length_sort_by)
    ultimately show ?thesis using False len by (simp add: sorted)
  qed
  then show "fst (bounded lt (int n) (keyed_list k)) = fst (bounded lt (int n) ?F)"
    by (simp add: fst_bounded)
  show "e \<or> snd (bounded lt (int n) (keyed_list k)) \<longleftrightarrow> n < length full"
    using len e by (auto simp: bounded_def Let_def)
qed

lemma seed_shows_the_smallest:
  "fst (bounded lt (int n) (keyed_list (fst (keyed_put_all r xs ([], e))))) =
     fst (bounded lt (int n) (keyed_list (fst (keyed_put_all (unlimited r) xs ([], b)))))"
  "snd (keyed_put_all r xs ([], e)) \<or> snd (bounded lt (int n) (keyed_list (fst (keyed_put_all r xs ([], e))))) \<longleftrightarrow>
     e \<or> n < length (fst (keyed_put_all (unlimited r) xs ([], b)))"
  using eviction_unseen [OF prefix_kept_put_all [OF prefix_kept_Nil], of xs b] put_all_flag [of r xs "[]" e]
  by auto

end

end
