(* ===== verification/ObserveLoop.thy ===== *)
theory ObserveLoop
  imports Observe
begin

text \<open>
  The shared collector engine of \<open>internal/observe/loop.go\<close>. A \<open>feed\<close> is the record of the Go
  interface's operations over the state \<open>'s\<close> of one collector (what it retains and its store); the
  loop is a step relation over the program points of \<open>Run\<close> and \<open>consume\<close>. The source, the channel,
  the clock and the cancellation are the choices of the relation: a fetch or a watch start may fail
  or succeed, items arrive and the channel closes at any time, and the context may be cancelled
  between any two effects.
\<close>

section \<open>Feeds and the loop\<close>

definition backoff_initial :: duration where "backoff_initial = second"
definition backoff_max :: duration where "backoff_max = 30 * second"

text \<open>\<open>'q\<close> is what a successful fetch answers, \<open>'c\<close> the cursor of the watch, \<open>'e\<close> one watch item and
  \<open>'d\<close> the snapshot's own fields.\<close>

record ('q, 'c, 'e, 's, 'd) feed =
  fd_op :: string
  fd_seed :: "'q \<Rightarrow> 's \<Rightarrow> 's \<times> 'c"
  fd_apply :: "'e \<Rightarrow> 's \<Rightarrow> 's \<times> bool"
  fd_publish :: "instant \<Rightarrow> 's \<Rightarrow> 's"
  fd_mark_stale :: "'s \<Rightarrow> 's"
  fd_store :: "'s \<Rightarrow> 'd observed_scheme store"

text \<open>The program points: the head of \<open>Run\<close>, before the fetch, before the watch, the two selects
  of \<open>consume\<close>, its return, a loss to report, the wait, and the return of \<open>Run\<close>.\<close>

datatype 'c loop_phase =
    AtTop
  | Seeding
  | Following 'c
  | Draining
  | Blocked
  | WatchOver
  | Losing string "go_error option"
  | Waiting
  | Returned

record loss =
  ls_op :: string
  ls_category :: "string option"

record ('c, 'e, 's) loop_state =
  lo_phase :: "'c loop_phase"
  lo_backoff :: duration
  lo_cancelled :: bool
  lo_queue :: "'e list"
  lo_closed :: bool
  lo_watches :: int
  lo_feed :: 's

text \<open>What an observer of the loop sees of one step.\<close>

datatype ('q, 'e) loop_act =
    Silent
  | Seeded 'q instant
  | Follows
  | Arrives 'e
  | Folded 'e instant
  | Ignored 'e
  | Checked
  | Stops
  | Loses loss
  | Sleeps duration

definition new_loop :: "'s \<Rightarrow> ('c, 'e, 's) loop_state" where
  "new_loop s =
     \<lparr>lo_phase = AtTop, lo_backoff = backoff_initial, lo_cancelled = False, lo_queue = [],
      lo_closed = False, lo_watches = 0, lo_feed = s\<rparr>"

text \<open>\<open>published\<close>: the one place the loop reads the clock.\<close>

definition published :: "('q, 'c, 'e, 's, 'd) feed \<Rightarrow> instant \<Rightarrow> ('c, 'e, 's) loop_state \<Rightarrow> ('c, 'e, 's) loop_state" where
  "published f now l = l\<lparr>lo_feed := fd_publish f now (lo_feed l), lo_backoff := backoff_initial\<rparr>"

definition lose_contact :: "('q, 'c, 'e, 's, 'd) feed \<Rightarrow> ('c, 'e, 's) loop_state \<Rightarrow> ('c, 'e, 's) loop_state" where
  "lose_contact f l = l\<lparr>lo_feed := fd_mark_stale f (lo_feed l)\<rparr>"

definition loss_line :: "string \<Rightarrow> go_error option \<Rightarrow> loss" where
  "loss_line op err = \<lparr>ls_op = op, ls_category = (case err of None \<Rightarrow> None | Some e \<Rightarrow> Some (safe (Some e)))\<rparr>"

definition doubled :: "duration \<Rightarrow> duration" where
  "doubled d = (if d * 2 > backoff_max then backoff_max else d * 2)"

text \<open>Folding the item at the head of the channel, the same in both selects.\<close>

definition take_item :: "('q, 'c, 'e, 's, 'd) feed \<Rightarrow> instant \<Rightarrow> 'e \<Rightarrow> 'e list \<Rightarrow> ('c, 'e, 's) loop_state \<Rightarrow>
    ('q, 'e) loop_act \<times> ('c, 'e, 's) loop_state" where
  "take_item f now e es l =
     (let (s, known) = fd_apply f e (lo_feed l);
          l' = l\<lparr>lo_queue := es, lo_feed := s, lo_phase := Draining\<rparr>
      in if known then (Folded e now, published f now l') else (Ignored e, l'))"

inductive loop_step :: "('q, 'c, 'e, 's, 'd) feed \<Rightarrow> ('c, 'e, 's) loop_state \<Rightarrow> ('q, 'e) loop_act \<Rightarrow>
    ('c, 'e, 's) loop_state \<Rightarrow> bool" for f where
  top_done: "lo_phase l = AtTop \<Longrightarrow> lo_cancelled l \<Longrightarrow> loop_step f l Silent (l\<lparr>lo_phase := Returned\<rparr>)"
| top_goes: "lo_phase l = AtTop \<Longrightarrow> \<not> lo_cancelled l \<Longrightarrow> loop_step f l Silent (l\<lparr>lo_phase := Seeding\<rparr>)"
| seed_fails: "lo_phase l = Seeding \<Longrightarrow>
    loop_step f l Silent (l\<lparr>lo_phase := Losing (fd_op f @ '' fetch'') (Some err)\<rparr>)"
| seeds: "lo_phase l = Seeding \<Longrightarrow> fd_seed f q (lo_feed l) = (s, cursor) \<Longrightarrow>
    loop_step f l (Seeded q now) (published f now (l\<lparr>lo_phase := Following cursor, lo_feed := s\<rparr>))"
| follow_fails: "lo_phase l = Following cursor \<Longrightarrow>
    loop_step f l Silent (l\<lparr>lo_phase := Losing (fd_op f @ '' watch start'') (Some err)\<rparr>)"
| follows: "lo_phase l = Following cursor \<Longrightarrow>
    loop_step f l Follows
      (l\<lparr>lo_phase := Draining, lo_queue := [], lo_closed := False, lo_watches := lo_watches l + 1\<rparr>)"
| takes: "lo_phase l \<in> {Draining, Blocked} \<Longrightarrow> lo_queue l = e # es \<Longrightarrow> take_item f now e es l = (a, l') \<Longrightarrow>
    loop_step f l a l'"
| channel_closed: "lo_phase l \<in> {Draining, Blocked} \<Longrightarrow> lo_queue l = [] \<Longrightarrow> lo_closed l \<Longrightarrow>
    loop_step f l Stops (l\<lparr>lo_phase := WatchOver, lo_watches := lo_watches l - 1\<rparr>)"
| nothing_ready: "lo_phase l = Draining \<Longrightarrow> lo_queue l = [] \<Longrightarrow> \<not> lo_closed l \<Longrightarrow>
    loop_step f l Checked (l\<lparr>lo_phase := Blocked\<rparr>)"
| consume_done: "lo_phase l = Blocked \<Longrightarrow> lo_cancelled l \<Longrightarrow>
    loop_step f l Stops (l\<lparr>lo_phase := WatchOver, lo_watches := lo_watches l - 1\<rparr>)"
| watch_done: "lo_phase l = WatchOver \<Longrightarrow> lo_cancelled l \<Longrightarrow> loop_step f l Silent (l\<lparr>lo_phase := Returned\<rparr>)"
| watch_lost: "lo_phase l = WatchOver \<Longrightarrow> \<not> lo_cancelled l \<Longrightarrow>
    loop_step f l Silent (l\<lparr>lo_phase := Losing (fd_op f @ '' watch'') None\<rparr>)"
| loses: "lo_phase l = Losing op err \<Longrightarrow>
    loop_step f l (Loses (loss_line op err)) (lose_contact f (l\<lparr>lo_phase := Waiting\<rparr>))"
| wakes: "lo_phase l = Waiting \<Longrightarrow>
    loop_step f l (Sleeps (lo_backoff l)) (l\<lparr>lo_phase := AtTop, lo_backoff := doubled (lo_backoff l)\<rparr>)"
| wait_done: "lo_phase l = Waiting \<Longrightarrow> lo_cancelled l \<Longrightarrow>
    loop_step f l Silent (l\<lparr>lo_phase := Returned, lo_backoff := doubled (lo_backoff l)\<rparr>)"
| arrives: "lo_phase l \<in> {Draining, Blocked} \<Longrightarrow> \<not> lo_closed l \<Longrightarrow>
    loop_step f l (Arrives e) (l\<lparr>lo_queue := lo_queue l @ [e]\<rparr>)"
| closes: "lo_phase l \<in> {Draining, Blocked} \<Longrightarrow> \<not> lo_closed l \<Longrightarrow> loop_step f l Silent (l\<lparr>lo_closed := True\<rparr>)"
| cancels: "loop_step f l Silent (l\<lparr>lo_cancelled := True\<rparr>)"

inductive_cases loop_stepE: "loop_step f l a l'"

inductive loop_run :: "('q, 'c, 'e, 's, 'd) feed \<Rightarrow> ('c, 'e, 's) loop_state \<Rightarrow> ('q, 'e) loop_act list \<Rightarrow>
    ('c, 'e, 's) loop_state \<Rightarrow> bool" for f l where
  no_steps: "loop_run f l [] l"
| one_more: "loop_run f l acts l' \<Longrightarrow> loop_step f l' a l'' \<Longrightarrow> loop_run f l (acts @ [a]) l''"

section \<open>What a trace says\<close>

text \<open>The instants of the publications, in order.\<close>

fun publications :: "('q, 'e) loop_act list \<Rightarrow> instant list" where
  "publications [] = []"
| "publications (Seeded q t # acts) = t # publications acts"
| "publications (Folded e t # acts) = t # publications acts"
| "publications (a # acts) = publications acts"

lemma publications_append [simp]: "publications (xs @ ys) = publications xs @ publications ys"
  by (induction xs rule: publications.induct) auto

text \<open>Whether contact was lost since the last publication.\<close>

fun lost_since :: "bool \<Rightarrow> ('q, 'e) loop_act list \<Rightarrow> bool" where
  "lost_since b [] = b"
| "lost_since b (Seeded q t # acts) = lost_since False acts"
| "lost_since b (Folded e t # acts) = lost_since False acts"
| "lost_since b (Loses l # acts) = lost_since True acts"
| "lost_since b (a # acts) = lost_since b acts"

lemma lost_since_append [simp]: "lost_since b (xs @ ys) = lost_since (lost_since b xs) ys"
  by (induction b xs rule: lost_since.induct) auto

text \<open>The sleeps since the last publication.\<close>

fun sleeps_since :: "duration list \<Rightarrow> ('q, 'e) loop_act list \<Rightarrow> duration list" where
  "sleeps_since ds [] = ds"
| "sleeps_since ds (Seeded q t # acts) = sleeps_since [] acts"
| "sleeps_since ds (Folded e t # acts) = sleeps_since [] acts"
| "sleeps_since ds (Sleeps d # acts) = sleeps_since (ds @ [d]) acts"
| "sleeps_since ds (a # acts) = sleeps_since ds acts"

lemma sleeps_since_append [simp]: "sleeps_since ds (xs @ ys) = sleeps_since (sleeps_since ds xs) ys"
  by (induction ds xs rule: sleeps_since.induct) auto

text \<open>The items the current watch has delivered, the items of it the loop has handed to the collector, and
  those delivered after the last time the loop looked and found none.\<close>

fun arrived :: "'e list \<Rightarrow> ('q, 'e) loop_act list \<Rightarrow> 'e list" where
  "arrived es [] = es"
| "arrived es (Follows # acts) = arrived [] acts"
| "arrived es (Arrives e # acts) = arrived (es @ [e]) acts"
| "arrived es (a # acts) = arrived es acts"

lemma arrived_append [simp]: "arrived es (xs @ ys) = arrived (arrived es xs) ys"
  by (induction es xs rule: arrived.induct) auto

fun handed_on :: "'e list \<Rightarrow> ('q, 'e) loop_act list \<Rightarrow> 'e list" where
  "handed_on es [] = es"
| "handed_on es (Follows # acts) = handed_on [] acts"
| "handed_on es (Folded e t # acts) = handed_on (es @ [e]) acts"
| "handed_on es (Ignored e # acts) = handed_on (es @ [e]) acts"
| "handed_on es (a # acts) = handed_on es acts"

lemma handed_on_append [simp]: "handed_on es (xs @ ys) = handed_on (handed_on es xs) ys"
  by (induction es xs rule: handed_on.induct) auto

text \<open>The releases of the watches, against their starts.\<close>

fun stops_owed :: "int \<Rightarrow> ('q, 'e) loop_act list \<Rightarrow> int" where
  "stops_owed n [] = n"
| "stops_owed n (Follows # acts) = stops_owed (n + 1) acts"
| "stops_owed n (Stops # acts) = stops_owed (n - 1) acts"
| "stops_owed n (a # acts) = stops_owed n acts"

lemma stops_owed_append [simp]: "stops_owed n (xs @ ys) = stops_owed (stops_owed n xs) ys"
  by (induction n xs rule: stops_owed.induct) auto

fun since_look :: "'e list \<Rightarrow> ('q, 'e) loop_act list \<Rightarrow> 'e list" where
  "since_look es [] = es"
| "since_look es (Checked # acts) = since_look [] acts"
| "since_look es (Arrives e # acts) = since_look (es @ [e]) acts"
| "since_look es (a # acts) = since_look es acts"

lemma since_look_append [simp]: "since_look es (xs @ ys) = since_look (since_look es xs) ys"
  by (induction es xs rule: since_look.induct) auto

section \<open>What holds of every feed\<close>

definition backoff_step :: "nat \<Rightarrow> duration" where
  "backoff_step n = min backoff_max (backoff_initial * 2 ^ n)"

lemma backoff_step_0: "backoff_step 0 = backoff_initial"
  by (simp add: backoff_step_def backoff_initial_def backoff_max_def)

lemma doubled_step: "doubled (backoff_step n) = backoff_step (Suc n)"
proof -
  have "0 < backoff_initial" by (simp add: backoff_initial_def)
  then show ?thesis using second_pos by (auto simp: doubled_def backoff_step_def min_def backoff_max_def simp del: second_pos)
qed

text \<open>The sleeps of one outage: the powers of two up to the bound, from the start again after a publication.\<close>

definition paced :: "('q, 'e) loop_act list \<Rightarrow> ('c, 'e, 's) loop_state \<Rightarrow> bool" where
  "paced acts l \<longleftrightarrow>
     sleeps_since [] acts = map backoff_step [0..<length (sleeps_since [] acts)] \<and>
     (lo_phase l \<noteq> Returned \<longrightarrow> lo_backoff l = backoff_step (length (sleeps_since [] acts)))"

lemma take_item_cases:
  assumes "take_item f now e es l = (a, l')"
  obtains s where "fd_apply f e (lo_feed l) = (s, True)" "a = Folded e now"
      "l' = l\<lparr>lo_queue := es, lo_phase := Draining, lo_feed := fd_publish f now s, lo_backoff := backoff_initial\<rparr>"
  | s where "fd_apply f e (lo_feed l) = (s, False)" "a = Ignored e"
      "l' = l\<lparr>lo_queue := es, lo_phase := Draining, lo_feed := s\<rparr>"
  using assms by (auto simp: take_item_def published_def Let_def split: prod.splits if_splits)

lemma paced_step: "loop_step f l a l' \<Longrightarrow> paced acts l \<Longrightarrow> lo_phase l \<noteq> Returned \<Longrightarrow> paced (acts @ [a]) l'"
  by (erule loop_stepE)
    (auto simp: paced_def doubled_step published_def lose_contact_def backoff_step_0 elim: take_item_cases)

lemma returned_step: "loop_step f l a l' \<Longrightarrow> lo_phase l = Returned \<Longrightarrow> a = Silent \<and> l' = l\<lparr>lo_cancelled := True\<rparr>"
  by (erule loop_stepE) auto

lemma paced_run: "loop_run f (new_loop s) acts l \<Longrightarrow> paced acts l"
proof (induction rule: loop_run.induct)
  case no_steps
  show ?case by (simp add: paced_def new_loop_def backoff_step_0)
next
  case (one_more acts l' a l'')
  then show ?case
    using paced_step [OF one_more.hyps(2)] returned_step [OF one_more.hyps(2)]
    by (cases "lo_phase l' = Returned") (auto simp: paced_def)
qed

text \<open>The channel and the watch: items are taken in order, and each watch is released once.\<close>

definition channel_ok :: "('q, 'e) loop_act list \<Rightarrow> ('c, 'e, 's) loop_state \<Rightarrow> bool" where
  "channel_ok acts l \<longleftrightarrow>
     arrived [] acts = handed_on [] acts @ lo_queue l \<and>
     lo_watches l = stops_owed 0 acts \<and>
     stops_owed 0 acts = (if lo_phase l \<in> {Draining, Blocked} then 1 else 0) \<and>
     (lo_phase l = Blocked \<longrightarrow> lo_queue l = since_look [] acts) \<and>
     (lo_phase l = WatchOver \<longrightarrow> lo_queue l = [] \<or> lo_cancelled l \<and> lo_queue l = since_look [] acts)"

lemma channel_step:
  assumes "channel_ok acts l" and "loop_step f l a l'"
  shows "channel_ok (acts @ [a]) l'"
  using assms(2)
proof (cases rule: loop_step.cases)
  case (takes e es now)
  with assms(1) have "arrived [] acts = handed_on [] acts @ e # es" "lo_watches l = 1" "stops_owed 0 acts = 1" using takes by (auto simp: channel_ok_def)
  with takes(3) show ?thesis by (cases rule: take_item_cases) (simp_all add: channel_ok_def takes)
qed (use assms(1) in \<open>auto simp: channel_ok_def published_def lose_contact_def\<close>)

lemma channel_run: "loop_run f (new_loop s) acts l \<Longrightarrow> channel_ok acts l"
proof (induction rule: loop_run.induct)
  case no_steps
  show ?case by (simp add: channel_ok_def new_loop_def)
qed (rule channel_step)

text \<open>
  What the loop relies on from a collector: a publication is one generation further, fresh and
  stamped; nothing else touches the store but the staleness mark.
\<close>

locale feed_contract =
  fixes f :: "('q, 'c, 'e, 's, 'd) feed"
  assumes publish_has: "so_has (fd_store f (fd_publish f now s))"
    and publish_generation: "og_generation (so_snap (fd_store f (fd_publish f now s))) = og_generation (so_snap (fd_store f s)) + 1"
    and publish_instant: "og_observed_at (so_snap (fd_store f (fd_publish f now s))) = now"
    and publish_fresh: "\<not> og_stale (so_snap (fd_store f (fd_publish f now s)))"
    and marks_stale: "fd_store f (fd_mark_stale f s) = mark_stale (fd_store f s)"
    and seed_keeps: "fd_store f (fst (fd_seed f q s)) = fd_store f s"
    and apply_keeps: "fd_store f (fst (fd_apply f e s)) = fd_store f s"
begin

definition accounted :: "('q, 'e) loop_act list \<Rightarrow> 's \<Rightarrow> bool" where
  "accounted acts s \<longleftrightarrow>
     (let st = fd_store f s
      in (so_has st \<longleftrightarrow> publications acts \<noteq> []) \<and>
         og_generation (so_snap st) = of_nat (length (publications acts)) \<and>
         (so_has st \<longrightarrow> og_observed_at (so_snap st) = last (publications acts) \<and>
            (og_stale (so_snap st) \<longleftrightarrow> lost_since False acts)))"

lemma accounted_published: "accounted acts s \<Longrightarrow> fd_store f s' = fd_store f s \<Longrightarrow>
    a = Seeded q now \<or> a = Folded e now \<Longrightarrow> accounted (acts @ [a]) (fd_publish f now s')"
  by (auto simp: accounted_def Let_def publish_has publish_generation publish_instant publish_fresh)

lemma accounted_lost: "accounted acts s \<Longrightarrow> accounted (acts @ [Loses ln]) (fd_mark_stale f s)"
  by (auto simp: accounted_def Let_def marks_stale mark_stale_def)

lemma accounted_quiet: "accounted acts s \<Longrightarrow> fd_store f s' = fd_store f s \<Longrightarrow>
    publications (acts @ [a]) = publications acts \<Longrightarrow> lost_since False (acts @ [a]) = lost_since False acts \<Longrightarrow> accounted (acts @ [a]) s'"
  by (simp add: accounted_def)

lemma accounted_take:
  assumes "take_item f now e es l = (a, l')" and "accounted acts (lo_feed l)"
  shows "accounted (acts @ [a]) (lo_feed l')"
  using assms(1)
proof (cases rule: take_item_cases)
  case (1 s)
  then have "fd_store f s = fd_store f (lo_feed l)" using apply_keeps [of e "lo_feed l"] by simp
  with 1 assms(2) show ?thesis by (simp add: accounted_published)
next
  case (2 s)
  then have "fd_store f s = fd_store f (lo_feed l)" using apply_keeps [of e "lo_feed l"] by simp
  with 2 assms(2) show ?thesis by (simp add: accounted_quiet)
qed

lemma accounted_step:
  assumes "loop_step f l a l'" and acc: "accounted acts (lo_feed l)"
  shows "accounted (acts @ [a]) (lo_feed l')"
  using assms(1)
proof (cases rule: loop_step.cases)
  case (seeds q s cursor now)
  then have "fd_store f s = fd_store f (lo_feed l)" using seed_keeps [of q "lo_feed l"] by simp
  with seeds acc show ?thesis by (simp add: published_def accounted_published)
qed (use acc in \<open>simp_all add: accounted_take accounted_lost lose_contact_def accounted_quiet\<close>)

lemma accounted_run:
  assumes "loop_run f (new_loop s) acts l" and "\<not> so_has (fd_store f s)" and "og_generation (so_snap (fd_store f s)) = 0"
  shows "accounted acts (lo_feed l)"
  using assms(1)
proof (induction rule: loop_run.induct)
  case no_steps
  show ?case using assms(2,3) by (simp add: accounted_def new_loop_def)
qed (rule accounted_step)

text \<open>While the loop is not following, what it published is marked.\<close>

lemma idle_run:
  assumes "loop_run f (new_loop s) acts l"
  shows "lo_phase l \<in> {AtTop, Seeding, Waiting} \<Longrightarrow> publications acts \<noteq> [] \<Longrightarrow> lost_since False acts"
  using assms
proof (induction rule: loop_run.induct)
  case (one_more acts l' a l'')
  from one_more.hyps(2) show ?case
    using one_more.IH one_more.prems
    by (cases rule: loop_step.cases) (auto simp: published_def lose_contact_def elim: take_item_cases)
qed simp

end

lemma one_more_step:
  "loop_run f l acts l' \<Longrightarrow> loop_step f l' a l'' \<Longrightarrow> acts' = acts @ [a] \<Longrightarrow> l3 = l'' \<Longrightarrow> loop_run f l acts' l3"
  by (simp add: loop_run.one_more)

end
