(* ===== verification/ObserveSingle.thy ===== *)
theory ObserveSingle
  imports ObserveLoop
begin

text \<open>
  The collectors of one object each (\<open>observe.go\<close>, \<open>store.go\<close>, \<open>collector.go\<close>,
  \<open>failoverquorum.go\<close>, \<open>primarylease.go\<close>): the retained state is one value, a watch item replaces it
  wholesale, and an absent object is an observation. The store of the cluster also keeps, for each
  state it tracks, when the console first saw it. The server version (\<open>kubeversion.go\<close>) has no watch
  and is polled.
\<close>

section \<open>The cluster\<close>

record condition =
  cd_type :: string
  cd_status :: string
  cd_reason :: string
  cd_message :: string
  cd_last_transition :: "instant option"

record image_catalog_ref =
  ir_kind :: string
  ir_name :: string
  ir_major :: int

record certificate_expiry =
  ce_secret :: string
  ce_expires_at :: instant

record role_problem =
  rp_role :: string
  rp_errors :: "string list"

record tablespace_facts =
  tf_name :: string
  tf_state :: string
  tf_error :: string

record instance_timeline =
  it_instance :: string
  it_timeline_id :: int
  it_is_primary :: bool

record cluster_facts =
  cf_present :: bool
  cf_uid :: string
  cf_phase :: string
  cf_phase_reason :: string
  cf_current_primary :: string
  cf_target_primary :: string
  cf_target_primary_timestamp :: "instant option"
  cf_desired_instances :: "int option"
  cf_ready_instances :: "int option"
  cf_timeline_id :: "int option"
  cf_image :: string
  cf_image_catalog_ref :: "image_catalog_ref option"
  cf_postgres_major_version :: "int option"
  cf_conditions :: "condition list"
  cf_reported_instances :: "int option"
  cf_failed_instances :: "string list"
  cf_unusable_pvcs :: "string list"
  cf_dangling_pvcs :: "string list"
  cf_resizing_pvcs :: "string list"
  cf_initializing_pvcs :: "string list"
  cf_certificate_expirations :: "certificate_expiry list"
  cf_unreconcilable_roles :: "role_problem list"
  cf_tablespaces :: "tablespace_facts list"
  cf_primary_failing_since :: "instant option"
  cf_instance_timelines :: "instance_timeline list"
  cf_replica_switch_in_progress :: bool
  cf_observed_since :: "(string, instant) gomap"

definition held_keys :: "cluster_facts \<Rightarrow> string list" where
  "held_keys f =
     (if cf_phase f \<noteq> '''' then [''phase='' @ cf_phase f] else []) @
     map (\<lambda>name. ''failedInstance='' @ name) (cf_failed_instances f) @
     map (\<lambda>name. ''unusablePVC='' @ name) (cf_unusable_pvcs f) @
     map (\<lambda>name. ''danglingPVC='' @ name) (cf_dangling_pvcs f) @
     map (\<lambda>name. ''resizingPVC='' @ name) (cf_resizing_pvcs f) @
     map (\<lambda>name. ''initializingPVC='' @ name) (cf_initializing_pvcs f) @
     concat (map (\<lambda>t. if it_timeline_id t > 0
                      then [''instanceTimeline='' @ it_instance t @ '':'' @ itoa (it_timeline_id t)] else [])
       (cf_instance_timelines f)) @
     (if cf_replica_switch_in_progress f then [''replicaSwitch=inProgress''] else []) @
     (case (cf_desired_instances f, cf_ready_instances f) of
        (Some desired, Some ready) \<Rightarrow>
          if ready < desired then [''readyShort='' @ itoa ready @ ''/'' @ itoa desired] else []
      | _ \<Rightarrow> [])"

definition facts_since :: "cluster_facts \<Rightarrow> string \<Rightarrow> instant option" where
  "facts_since f key = mget (cf_observed_since f) key"

record cluster_state =
  cs_facts :: cluster_facts

record cluster_snapshot = observed +
  cn_cluster :: cluster_facts

definition no_facts :: cluster_facts where
  "no_facts =
     \<lparr>cf_present = False, cf_uid = '''', cf_phase = '''', cf_phase_reason = '''', cf_current_primary = '''',
      cf_target_primary = '''', cf_target_primary_timestamp = None, cf_desired_instances = None,
      cf_ready_instances = None, cf_timeline_id = None, cf_image = '''', cf_image_catalog_ref = None,
      cf_postgres_major_version = None, cf_conditions = [], cf_reported_instances = None,
      cf_failed_instances = [], cf_unusable_pvcs = [], cf_dangling_pvcs = [], cf_resizing_pvcs = [],
      cf_initializing_pvcs = [], cf_certificate_expirations = [], cf_unreconcilable_roles = [],
      cf_tablespaces = [], cf_primary_failing_since = None, cf_instance_timelines = [],
      cf_replica_switch_in_progress = False, cf_observed_since = []\<rparr>"

definition new_cluster_store :: "cluster_snapshot store" where
  "new_cluster_store =
     \<lparr>so_snap = \<lparr>og_generation = 0, og_observed_at = zero_time, og_stale = False, cn_cluster = no_facts\<rparr>, so_has = False\<rparr>"

text \<open>The loop of \<open>publish\<close> that carries over the instants of the states still held.\<close>

fun hold_keys :: "bool \<Rightarrow> (string, instant) gomap \<Rightarrow> instant \<Rightarrow> string list \<Rightarrow> (string, instant) gomap \<Rightarrow>
    (string, instant) gomap" where
  "hold_keys has since observed_at [] held = held"
| "hold_keys has since observed_at (key # keys) held =
     hold_keys has since observed_at keys
       (mput key
         (case mget since key of
            Some at \<Rightarrow> if has then at else observed_at
          | None \<Rightarrow> observed_at) held)"

definition cluster_store_publish :: "cluster_facts \<Rightarrow> instant \<Rightarrow> cluster_snapshot store \<Rightarrow> cluster_snapshot store" where
  "cluster_store_publish facts observed_at s =
     (let held = hold_keys (so_has s) (cf_observed_since (cn_cluster (so_snap s))) observed_at (held_keys facts) []
      in \<lparr>so_snap =
            \<lparr>og_generation = og_generation (so_snap s) + 1, og_observed_at = observed_at, og_stale = False,
             cn_cluster = facts\<lparr>cf_observed_since := held\<rparr>\<rparr>,
          so_has = True\<rparr>)"

record cluster_collector =
  cc_facts :: cluster_facts
  cc_store :: "cluster_snapshot store"

definition cluster_seed :: "cluster_state \<Rightarrow> cluster_collector \<Rightarrow> cluster_collector \<times> unit" where
  "cluster_seed state c = (c\<lparr>cc_facts := cs_facts state\<rparr>, ())"

definition cluster_apply :: "cluster_state \<Rightarrow> cluster_collector \<Rightarrow> cluster_collector \<times> bool" where
  "cluster_apply state c = (c\<lparr>cc_facts := cs_facts state\<rparr>, True)"

definition cluster_publish :: "instant \<Rightarrow> cluster_collector \<Rightarrow> cluster_collector" where
  "cluster_publish observed_at c = c\<lparr>cc_store := cluster_store_publish (cc_facts c) observed_at (cc_store c)\<rparr>"

definition cluster_mark_stale :: "cluster_collector \<Rightarrow> cluster_collector" where
  "cluster_mark_stale c = c\<lparr>cc_store := mark_stale (cc_store c)\<rparr>"

definition cluster_feed :: "(cluster_state, unit, cluster_state, cluster_collector, \<lparr>cn_cluster :: cluster_facts\<rparr>) feed" where
  "cluster_feed =
     \<lparr>fd_op = ''cluster'', fd_seed = cluster_seed, fd_apply = cluster_apply, fd_publish = cluster_publish,
      fd_mark_stale = cluster_mark_stale, fd_store = cc_store\<rparr>"

definition new_cluster_collector :: cluster_collector where
  "new_cluster_collector = \<lparr>cc_facts = no_facts, cc_store = new_cluster_store\<rparr>"

interpretation cluster: feed_contract cluster_feed
  by unfold_locales (simp_all add: cluster_feed_def cluster_seed_def cluster_apply_def cluster_publish_def
      cluster_mark_stale_def cluster_store_publish_def Let_def)

subsection \<open>How long a state has been held\<close>

datatype cluster_event = PublishedFacts cluster_facts instant | WentStale

fun cluster_event_step :: "cluster_event \<Rightarrow> cluster_snapshot store \<Rightarrow> cluster_snapshot store" where
  "cluster_event_step (PublishedFacts facts at) s = cluster_store_publish facts at s"
| "cluster_event_step WentStale s = mark_stale s"

fun published_facts :: "cluster_event list \<Rightarrow> (cluster_facts \<times> instant) list" where
  "published_facts [] = []"
| "published_facts (PublishedFacts facts at # es) = (facts, at) # published_facts es"
| "published_facts (WentStale # es) = published_facts es"

text \<open>The instant of the first publication of the unbroken series of publications, up to the last
  one, that all show the state.\<close>

definition held_from :: "string \<Rightarrow> (cluster_facts \<times> instant) list \<Rightarrow> instant option" where
  "held_from key pubs =
     (case takeWhile (\<lambda>(facts, at). key \<in> set (held_keys facts)) (rev pubs) of
        [] \<Rightarrow> None
      | p # ps \<Rightarrow> Some (snd (last (p # ps))))"

lemma published_facts_append [simp]: "published_facts (xs @ ys) = published_facts xs @ published_facts ys"
  by (induction xs rule: published_facts.induct) auto

lemma mget_hold_keys:
  "mget (hold_keys has since at keys held) k =
     (if k \<in> set keys then Some (case mget since k of Some a \<Rightarrow> if has then a else at | None \<Rightarrow> at) else mget held k)"
  by (induction has since at keys held rule: hold_keys.induct) auto

lemma held_from_snoc:
  "held_from key (pubs @ [(facts, at)]) =
     (if key \<in> set (held_keys facts) then Some (case held_from key pubs of Some a \<Rightarrow> a | None \<Rightarrow> at) else None)"
  by (auto simp: held_from_def split: list.splits)

lemma held_from_Nil [simp]: "held_from key [] = None"
  by (simp add: held_from_def)

lemma held_since_store:
  "let s = fold cluster_event_step es new_cluster_store
   in (so_has s \<longleftrightarrow> published_facts es \<noteq> []) \<and>
      facts_since (cn_cluster (so_snap s)) key = held_from key (published_facts es)"
proof (induction es rule: rev_induct)
  case Nil
  show ?case by (simp add: new_cluster_store_def no_facts_def facts_since_def)
next
  case (snoc e es)
  show ?case
  proof (cases e)
    case (PublishedFacts facts at)
    with snoc show ?thesis
      by (auto simp: Let_def held_from_snoc cluster_store_publish_def facts_since_def mget_hold_keys
          split: option.split)
  next
    case WentStale
    with snoc show ?thesis by (simp add: Let_def mark_stale_def facts_since_def)
  qed
qed

text \<open>The duration the console shows of a state is its own observation and nothing more: after any
sequence of publications and losses of contact, the instant kept for a state is the instant of the
first publication of the unbroken series that shows it up to the last one. A state that went away
and came back starts a new clock, a loss of contact does not interrupt one, and a state the last
publication does not show is not tracked.\<close>

theorem held_since_is_the_unbroken_presence:
  "facts_since (cn_cluster (so_snap (fold cluster_event_step es new_cluster_store))) key =
   held_from key (published_facts es)"
  using held_since_store [of es key] by (simp add: Let_def)

section \<open>The failover quorum\<close>

record failover_quorum_facts =
  fq_present :: bool
  fq_method :: string
  fq_primary :: string
  fq_standby_number :: int
  fq_standbys :: "string list"
  fq_standbys_truncated :: bool

record failover_quorum_state =
  qs_facts :: failover_quorum_facts

record failover_quorum_snapshot = observed +
  qn_quorum :: failover_quorum_facts

definition failover_quorum_store_publish ::
    "failover_quorum_facts \<Rightarrow> instant \<Rightarrow> failover_quorum_snapshot store \<Rightarrow> failover_quorum_snapshot store" where
  "failover_quorum_store_publish facts observed_at s =
     \<lparr>so_snap = \<lparr>og_generation = og_generation (so_snap s) + 1, og_observed_at = observed_at, og_stale = False,
        qn_quorum = facts\<rparr>, so_has = True\<rparr>"

record failover_quorum_collector =
  qc_facts :: failover_quorum_facts
  qc_store :: "failover_quorum_snapshot store"

definition failover_quorum_seed ::
    "failover_quorum_state \<Rightarrow> failover_quorum_collector \<Rightarrow> failover_quorum_collector \<times> unit" where
  "failover_quorum_seed state c = (c\<lparr>qc_facts := qs_facts state\<rparr>, ())"

definition failover_quorum_apply ::
    "failover_quorum_state \<Rightarrow> failover_quorum_collector \<Rightarrow> failover_quorum_collector \<times> bool" where
  "failover_quorum_apply state c = (c\<lparr>qc_facts := qs_facts state\<rparr>, True)"

definition failover_quorum_publish :: "instant \<Rightarrow> failover_quorum_collector \<Rightarrow> failover_quorum_collector" where
  "failover_quorum_publish observed_at c =
     c\<lparr>qc_store := failover_quorum_store_publish (qc_facts c) observed_at (qc_store c)\<rparr>"

definition failover_quorum_mark_stale :: "failover_quorum_collector \<Rightarrow> failover_quorum_collector" where
  "failover_quorum_mark_stale c = c\<lparr>qc_store := mark_stale (qc_store c)\<rparr>"

definition failover_quorum_feed :: "(failover_quorum_state, unit, failover_quorum_state, failover_quorum_collector,
    \<lparr>qn_quorum :: failover_quorum_facts\<rparr>) feed" where
  "failover_quorum_feed =
     \<lparr>fd_op = ''failover quorum'', fd_seed = failover_quorum_seed, fd_apply = failover_quorum_apply,
      fd_publish = failover_quorum_publish, fd_mark_stale = failover_quorum_mark_stale, fd_store = qc_store\<rparr>"

interpretation failover_quorum: feed_contract failover_quorum_feed
  by unfold_locales (simp_all add: failover_quorum_feed_def failover_quorum_seed_def failover_quorum_apply_def
      failover_quorum_publish_def failover_quorum_mark_stale_def failover_quorum_store_publish_def)

section \<open>The primary lease\<close>

record primary_lease_facts =
  pl_present :: bool
  pl_name :: string
  pl_holder :: string
  pl_acquired_at :: "instant option"
  pl_renewed_at :: "instant option"
  pl_duration_seconds :: "int option"
  pl_transitions :: "int option"

record primary_lease_state =
  ps_facts :: primary_lease_facts

record primary_lease_snapshot = observed +
  pn_lease :: primary_lease_facts

definition primary_lease_store_publish ::
    "primary_lease_facts \<Rightarrow> instant \<Rightarrow> primary_lease_snapshot store \<Rightarrow> primary_lease_snapshot store" where
  "primary_lease_store_publish facts observed_at s =
     \<lparr>so_snap = \<lparr>og_generation = og_generation (so_snap s) + 1, og_observed_at = observed_at, og_stale = False,
        pn_lease = facts\<rparr>, so_has = True\<rparr>"

record primary_lease_collector =
  pc_facts :: primary_lease_facts
  pc_store :: "primary_lease_snapshot store"

definition primary_lease_seed ::
    "primary_lease_state \<Rightarrow> primary_lease_collector \<Rightarrow> primary_lease_collector \<times> unit" where
  "primary_lease_seed state c = (c\<lparr>pc_facts := ps_facts state\<rparr>, ())"

definition primary_lease_apply ::
    "primary_lease_state \<Rightarrow> primary_lease_collector \<Rightarrow> primary_lease_collector \<times> bool" where
  "primary_lease_apply state c = (c\<lparr>pc_facts := ps_facts state\<rparr>, True)"

definition primary_lease_publish :: "instant \<Rightarrow> primary_lease_collector \<Rightarrow> primary_lease_collector" where
  "primary_lease_publish observed_at c =
     c\<lparr>pc_store := primary_lease_store_publish (pc_facts c) observed_at (pc_store c)\<rparr>"

definition primary_lease_mark_stale :: "primary_lease_collector \<Rightarrow> primary_lease_collector" where
  "primary_lease_mark_stale c = c\<lparr>pc_store := mark_stale (pc_store c)\<rparr>"

definition primary_lease_feed :: "(primary_lease_state, unit, primary_lease_state, primary_lease_collector,
    \<lparr>pn_lease :: primary_lease_facts\<rparr>) feed" where
  "primary_lease_feed =
     \<lparr>fd_op = ''primary lease'', fd_seed = primary_lease_seed, fd_apply = primary_lease_apply,
      fd_publish = primary_lease_publish, fd_mark_stale = primary_lease_mark_stale, fd_store = pc_store\<rparr>"

interpretation primary_lease: feed_contract primary_lease_feed
  by unfold_locales (simp_all add: primary_lease_feed_def primary_lease_seed_def primary_lease_apply_def
      primary_lease_publish_def primary_lease_mark_stale_def primary_lease_store_publish_def)

section \<open>The server version\<close>

record kube_version_snapshot = observed +
  kv_git_version :: string

definition kube_version_interval :: duration where "kube_version_interval = 5 * minute"
definition kube_version_retry :: duration where "kube_version_retry = minute"

definition new_kube_version_store :: "kube_version_snapshot store" where
  "new_kube_version_store =
     \<lparr>so_snap = \<lparr>og_generation = 0, og_observed_at = zero_time, og_stale = False, kv_git_version = ''''\<rparr>, so_has = False\<rparr>"

definition kube_version_publish :: "string \<Rightarrow> instant \<Rightarrow> kube_version_snapshot store \<Rightarrow> kube_version_snapshot store" where
  "kube_version_publish git_version at s =
     \<lparr>so_snap = \<lparr>og_generation = og_generation (so_snap s) + 1, og_observed_at = at, og_stale = False,
        kv_git_version = git_version\<rparr>, so_has = True\<rparr>"

text \<open>Unlike the others, this store counts the loss as a generation of its own.\<close>

definition kube_version_mark_stale :: "kube_version_snapshot store \<Rightarrow> kube_version_snapshot store" where
  "kube_version_mark_stale s =
     (if \<not> so_has s \<or> og_stale (so_snap s) then s
      else s\<lparr>so_snap := (so_snap s)\<lparr>og_generation := og_generation (so_snap s) + 1, og_stale := True\<rparr>\<rparr>)"

text \<open>One turn of \<open>Run\<close>: the store after the poll, the category logged, and the wait before the next.\<close>

definition kube_version_poll :: "go_error + string \<Rightarrow> instant \<Rightarrow> kube_version_snapshot store \<Rightarrow>
    kube_version_snapshot store \<times> string option \<times> duration" where
  "kube_version_poll answer now s =
     (case answer of
        Inl err \<Rightarrow> (kube_version_mark_stale s, Some (safe (Some err)), kube_version_retry)
      | Inr git_version \<Rightarrow> (kube_version_publish git_version now s, None, kube_version_interval))"

fun kube_version_polls :: "((go_error + string) \<times> instant) list \<Rightarrow> kube_version_snapshot store \<Rightarrow> kube_version_snapshot store" where
  "kube_version_polls [] s = s"
| "kube_version_polls ((answer, now) # polls) s = kube_version_polls polls (fst (kube_version_poll answer now s))"

lemma kube_version_polls_append [simp]:
  "kube_version_polls (ps @ qs) s = kube_version_polls qs (kube_version_polls ps s)"
  by (induction ps s rule: kube_version_polls.induct) simp_all

text \<open>The version shown is always the last one the server reported, marked as soon as a poll fails;
  the generation moves with every answer and with the first failure after one.\<close>

lemma kube_version_last_good:
  "let s = kube_version_polls ps new_kube_version_store; good = [(v, t). (Inr v, t) \<leftarrow> ps]
   in (so_has s \<longleftrightarrow> good \<noteq> []) \<and>
      (good \<noteq> [] \<longrightarrow> (kv_git_version (so_snap s), og_observed_at (so_snap s)) = last good \<and>
         (og_stale (so_snap s) \<longleftrightarrow> (\<exists>e t. last ps = (Inl e, t))))"
proof (induction ps rule: rev_induct)
  case Nil
  show ?case by (simp add: new_kube_version_store_def)
next
  case (snoc p ps)
  obtain a t where p: "p = (a, t)" by (cases p)
  from snoc show ?case
    by (cases a) (auto simp: p Let_def kube_version_poll_def kube_version_publish_def kube_version_mark_stale_def)
qed

end
