(* ===== verification/ObservePods.thy ===== *)
theory ObservePods
  imports ObserveLoop
begin

text \<open>
  The collectors of pods and events (\<open>pods.go\<close>, \<open>poolerpods.go\<close>, \<open>events.go\<close>). Instance pods are
  retained without a bound and cut at publication, in name order; the store remembers the operator's
  image after the pods are gone. Events are bounded in memory too, by age, and shown newest first.
\<close>

section \<open>Pods\<close>

definition max_pods :: int where "max_pods = 500"

record container_facts =
  ct_name :: string
  ct_image :: string
  ct_init :: bool
  ct_ready :: "bool option"
  ct_restarts :: "int option"
  ct_state :: string
  ct_reason :: string
  ct_exit_code :: "int option"

record pod_facts =
  pf_name :: string
  pf_uid :: string
  pf_role :: string
  pf_phase :: string
  pf_ready :: "bool option"
  pf_restarts :: "int option"
  pf_node :: string
  pf_ip :: string
  pf_started :: "instant option"
  pf_image :: string
  pf_owner_uid :: string
  pf_deleting :: bool
  pf_containers :: "container_facts list"

type_synonym pod_event = "pod_facts watch_change"

record pods_snapshot = observed +
  po_truncated :: bool
  po_pods :: "pod_facts list"
  po_operator_image :: string
  po_operator_image_pod :: string
  po_operator_image_seen_at :: instant
  po_operator_image_owner :: string

definition bootstrap_controller_container :: string where
  "bootstrap_controller_container = ''bootstrap-controller''"

definition new_pod_store :: "pods_snapshot store" where
  "new_pod_store =
     \<lparr>so_snap = \<lparr>og_generation = 0, og_observed_at = zero_time, og_stale = False, po_truncated = False, po_pods = [],
        po_operator_image = '''', po_operator_image_pod = '''', po_operator_image_seen_at = zero_time,
        po_operator_image_owner = ''''\<rparr>, so_has = False\<rparr>"

definition less_pod_name :: "pod_facts \<Rightarrow> pod_facts \<Rightarrow> bool" where
  "less_pod_name a b = str_less (pf_name a) (pf_name b)"

text \<open>The two loops of \<open>publish\<close> over the containers of the shown pods.\<close>

fun note_containers :: "instant \<Rightarrow> pod_facts \<Rightarrow> container_facts list \<Rightarrow> pods_snapshot \<Rightarrow> pods_snapshot" where
  "note_containers at pod [] next = next"
| "note_containers at pod (c # cs) next =
     note_containers at pod cs
       (if ct_init c \<and> ct_name c = bootstrap_controller_container \<and> ct_image c \<noteq> ''''
        then next\<lparr>po_operator_image := ct_image c, po_operator_image_pod := pf_name pod,
          po_operator_image_seen_at := at, po_operator_image_owner := pf_owner_uid pod\<rparr>
        else next)"

fun note_pods :: "instant \<Rightarrow> pod_facts list \<Rightarrow> pods_snapshot \<Rightarrow> pods_snapshot" where
  "note_pods at [] next = next"
| "note_pods at (pod # pods) next = note_pods at pods (note_containers at pod (pf_containers pod) next)"

definition pod_store_publish :: "pod_facts list \<Rightarrow> instant \<Rightarrow> pods_snapshot store \<Rightarrow> pods_snapshot store" where
  "pod_store_publish pods observed_at s =
     (let (sorted, truncated) = bounded less_pod_name max_pods pods;
          next = \<lparr>og_generation = og_generation (so_snap s) + 1, og_observed_at = observed_at, og_stale = False,
            po_truncated = truncated, po_pods = sorted,
            po_operator_image = po_operator_image (so_snap s),
            po_operator_image_pod = po_operator_image_pod (so_snap s),
            po_operator_image_seen_at = po_operator_image_seen_at (so_snap s),
            po_operator_image_owner = po_operator_image_owner (so_snap s)\<rparr>
      in \<lparr>so_snap = note_pods observed_at sorted next, so_has = True\<rparr>)"

definition pod_retention :: "pod_facts retention" where
  "pod_retention = \<lparr>rt_name = pf_name, rt_uid = pf_uid, rt_limit = 0, rt_evictable = (\<lambda>_ _. False)\<rparr>"

record pod_collector =
  pd_state :: "pod_facts keyed"
  pd_store :: "pods_snapshot store"

definition new_pod_collector :: pod_collector where
  "new_pod_collector = \<lparr>pd_state = [], pd_store = new_pod_store\<rparr>"

text \<open>A fetch answers the pods and the resource version the watch resumes from.\<close>

definition pod_seed :: "pod_facts list \<times> string \<Rightarrow> pod_collector \<Rightarrow> pod_collector \<times> string" where
  "pod_seed answer c =
     (let (pods, rv) = answer
      in (c\<lparr>pd_state := fst (keyed_put_all pod_retention pods ([], False))\<rparr>, rv))"

definition pod_apply :: "pod_event \<Rightarrow> pod_collector \<Rightarrow> pod_collector \<times> bool" where
  "pod_apply ev c =
     (case ch_put ev of
        Some pod \<Rightarrow> (c\<lparr>pd_state := fst (keyed_put pod_retention pod (pd_state c))\<rparr>, True)
      | None \<Rightarrow>
          (case ch_delete ev of
             Some d \<Rightarrow> (c\<lparr>pd_state := keyed_remove pod_retention (dl_name d) (dl_uid d) (pd_state c)\<rparr>, True)
           | None \<Rightarrow> (c, False)))"

definition pod_publish :: "instant \<Rightarrow> pod_collector \<Rightarrow> pod_collector" where
  "pod_publish observed_at c = c\<lparr>pd_store := pod_store_publish (keyed_list (pd_state c)) observed_at (pd_store c)\<rparr>"

definition pod_mark_stale :: "pod_collector \<Rightarrow> pod_collector" where
  "pod_mark_stale c = c\<lparr>pd_store := mark_stale (pd_store c)\<rparr>"

definition pod_feed :: "(pod_facts list \<times> string, string, pod_event, pod_collector,
    \<lparr>po_truncated :: bool, po_pods :: pod_facts list, po_operator_image :: string, po_operator_image_pod :: string,
     po_operator_image_seen_at :: instant, po_operator_image_owner :: string\<rparr>) feed" where
  "pod_feed =
     \<lparr>fd_op = ''pods'', fd_seed = pod_seed, fd_apply = pod_apply, fd_publish = pod_publish,
      fd_mark_stale = pod_mark_stale, fd_store = pd_store\<rparr>"

lemma note_containers_frame [simp]:
  "og_generation (note_containers at pod cs nx) = og_generation nx"
  "og_observed_at (note_containers at pod cs nx) = og_observed_at nx"
  "og_stale (note_containers at pod cs nx) = og_stale nx"
  "po_truncated (note_containers at pod cs nx) = po_truncated nx"
  "po_pods (note_containers at pod cs nx) = po_pods nx"
  by (induction at pod cs nx rule: note_containers.induct) simp_all

lemma note_pods_frame [simp]:
  "og_generation (note_pods at pods nx) = og_generation nx"
  "og_observed_at (note_pods at pods nx) = og_observed_at nx"
  "og_stale (note_pods at pods nx) = og_stale nx"
  "po_truncated (note_pods at pods nx) = po_truncated nx"
  "po_pods (note_pods at pods nx) = po_pods nx"
  by (induction at pods nx rule: note_pods.induct) simp_all

lemma pod_store_publish_frame [simp]:
  "so_has (pod_store_publish pods at s)"
  "og_generation (so_snap (pod_store_publish pods at s)) = og_generation (so_snap s) + 1"
  "og_observed_at (so_snap (pod_store_publish pods at s)) = at"
  "\<not> og_stale (so_snap (pod_store_publish pods at s))"
  "po_truncated (so_snap (pod_store_publish pods at s)) = snd (bounded less_pod_name max_pods pods)"
  "po_pods (so_snap (pod_store_publish pods at s)) = fst (bounded less_pod_name max_pods pods)"
  by (simp_all add: pod_store_publish_def Let_def split_beta)

interpretation pods: feed_contract pod_feed
  by unfold_locales (simp_all add: pod_feed_def pod_seed_def pod_apply_def pod_publish_def pod_mark_stale_def
      split_beta split: option.split)


text \<open>What the page should show: the pods by name as the watch told of them, with no bound.\<close>

definition member_put :: "pod_facts \<Rightarrow> (string \<rightharpoonup> pod_facts) \<Rightarrow> (string \<rightharpoonup> pod_facts)" where
  "member_put pod m = m(pf_name pod \<mapsto> pod)"

definition member_delete :: "deletion \<Rightarrow> (string \<rightharpoonup> pod_facts) \<Rightarrow> (string \<rightharpoonup> pod_facts)" where
  "member_delete d m =
     (case m (dl_name d) of
        Some pod \<Rightarrow> if pf_uid pod = dl_uid d then m(dl_name d := None) else m
      | None \<Rightarrow> m)"

fun pod_members :: "(string \<rightharpoonup> pod_facts) \<Rightarrow> (pod_facts list \<times> string, pod_event) loop_act list \<Rightarrow> (string \<rightharpoonup> pod_facts)" where
  "pod_members m [] = m"
| "pod_members m (Seeded q t # acts) = pod_members (fold member_put (fst q) Map.empty) acts"
| "pod_members m (Folded ev t # acts) =
     pod_members (case ch_put ev of
        Some pod \<Rightarrow> member_put pod m
      | None \<Rightarrow> (case ch_delete ev of Some d \<Rightarrow> member_delete d m | None \<Rightarrow> m)) acts"
| "pod_members m (a # acts) = pod_members m acts"

lemma pod_members_append [simp]: "pod_members m (xs @ ys) = pod_members (pod_members m xs) ys"
  by (induction m xs rule: pod_members.induct) auto

lemma pod_retention_simps [simp]: "rt_name pod_retention = pf_name" "rt_uid pod_retention = pf_uid"
  by (simp_all add: pod_retention_def)

lemma pod_put [simp]: "keyed_put pod_retention pod k = (mput (pf_name pod) pod k, False)"
  by (simp add: keyed_put_def pod_retention_def)

lemma mget_pod_put: "mget (mput (pf_name pod) pod k) = member_put pod (mget k)"
  by (simp add: member_put_def fun_eq_iff)

lemma mget_pod_remove: "mget (keyed_remove pod_retention (dl_name d) (dl_uid d) k) = member_delete d (mget k)"
  by (simp add: member_delete_def fun_eq_iff mget_keyed_remove split: option.split)

lemma mget_pod_put_all: "mget (fst (keyed_put_all pod_retention pods (k, e))) = fold member_put pods (mget k)"
  by (induction pods arbitrary: k e) (simp_all add: mget_pod_put)

lemma mget_empty: "mget [] = Map.empty"
  by (simp add: fun_eq_iff)

definition pods_shown :: "(pod_facts list \<times> string, pod_event) loop_act list \<Rightarrow> pod_collector \<Rightarrow> bool" where
  "pods_shown acts c \<longleftrightarrow>
     keyed_ok pod_retention (pd_state c) \<and> mget (pd_state c) = pod_members Map.empty acts \<and>
     (so_has (pd_store c) \<longrightarrow>
        (po_pods (so_snap (pd_store c)), po_truncated (so_snap (pd_store c))) =
          bounded less_pod_name max_pods (keyed_list (pd_state c)))"

lemma pods_shown_published:
  "keyed_ok pod_retention (pd_state c) \<Longrightarrow> mget (pd_state c) = pod_members Map.empty acts \<Longrightarrow> pods_shown acts (pod_publish t c)"
  by (simp add: pods_shown_def pod_publish_def)

lemma pods_shown_run: "loop_run pod_feed (new_loop new_pod_collector) acts l \<Longrightarrow> pods_shown acts (lo_feed l)"
proof (induction rule: loop_run.induct)
  case no_steps
  show ?case by (simp add: pods_shown_def new_loop_def new_pod_collector_def new_pod_store_def fun_eq_iff)
next
  case (one_more acts l' a l'')
  from one_more.hyps(2) show ?case
  proof (cases rule: loop_step.cases)
    case (seeds q s cursor now)
    then show ?thesis
      by (cases q) (auto simp: published_def pod_feed_def pod_seed_def mget_pod_put_all mget_empty keyed_ok_put_all
          intro!: pods_shown_published)
  next
    case (takes e es now)
    from takes(3) show ?thesis
    proof (cases rule: take_item_cases)
      case (1 s)
      then show ?thesis using one_more.IH keyed_ok_put [of pod_retention "pd_state (lo_feed l')"]
        by (auto simp: pod_feed_def pod_apply_def pods_shown_def [of acts] mget_pod_put mget_pod_remove keyed_ok_remove
            intro!: pods_shown_published split: option.splits)
    next
      case (2 s)
      then show ?thesis using one_more.IH by (auto simp: pod_feed_def pod_apply_def pods_shown_def split: option.splits)
    qed
  qed (use one_more.IH in \<open>simp_all add: pods_shown_def lose_contact_def pod_feed_def pod_mark_stale_def mark_stale_def\<close>)
qed

text \<open>C16. The page lists exactly the pods the watch told of, and says when it does not list them all.
Whatever the run of the collector (failed and repeated fetches, watches that end, deletions of an
incarnation already replaced), the published list is ordered by name without duplicates, holds at
most 500 of the current members and every one of them when there are no more, leaves out only
members whose names come after all the names shown, and carries the truncation flag exactly when
members are left out. A member is the last pod the seed or an update told of under a name, unless
the deletion of that very incarnation followed.\<close>

theorem pods_shown_are_the_members:
  assumes run: "loop_run pod_feed (new_loop new_pod_collector) acts l" and has: "so_has (pd_store (lo_feed l))"
  defines "shown \<equiv> po_pods (so_snap (pd_store (lo_feed l)))" and "members \<equiv> pod_members Map.empty acts"
  shows "sorted_wrt less_pod_name shown \<and> length shown = min 500 (card (dom members)) \<and>
    (\<forall>p \<in> set shown. members (pf_name p) = Some p) \<and>
    (\<forall>p \<in> set shown. \<forall>q. members (pf_name q) = Some q \<and> q \<notin> set shown \<longrightarrow> less_pod_name p q) \<and>
    (po_truncated (so_snap (pd_store (lo_feed l))) \<longleftrightarrow> 500 < card (dom members))"
proof -
  let ?k = "pd_state (lo_feed l)"
  from pods_shown_run [OF run] have ok: "keyed_ok pod_retention ?k" and mem: "mget ?k = members"
    and snap: "(shown, po_truncated (so_snap (pd_store (lo_feed l)))) = bounded less_pod_name (int 500) (keyed_list ?k)"
    using has by (simp_all add: pods_shown_def shown_def members_def max_pods_def)
  have shown: "shown = fst (bounded less_pod_name (int 500) (keyed_list ?k))" using snap by (metis fst_conv)
  have cut: "po_truncated (so_snap (pd_store (lo_feed l))) = snd (bounded less_pod_name (int 500) (keyed_list ?k))"
    using snap by (metis snd_conv)
  have lt: "less_pod_name a b \<longleftrightarrow> str_less (rt_name pod_retention a) (rt_name pod_retention b)" for a b
    by (simp add: less_pod_name_def)
  note roster = bounded_roster [OF ok lt, of 500, folded shown cut]
  have card: "card (dom members) = length ?k"
    using map_ok_card [of ?k] ok by (simp add: keyed_ok_def mem [symmetric] dom_def mkeys_iff [symmetric] del: mget_None_iff)
  have listed: "q \<in> set (keyed_list ?k) \<longleftrightarrow> members (pf_name q) = Some q" for q
    using set_keyed_list [OF ok, of q] by (simp add: mem)
  from roster card listed show ?thesis by auto
qed

subsection \<open>The loop on the pods\<close>

text \<open>A run that seeds one pod and starts its watch.\<close>

definition one_pod :: pod_facts where
  "one_pod =
     \<lparr>pf_name = ''pg-1'', pf_uid = ''u1'', pf_role = ''primary'', pf_phase = ''Running'', pf_ready = Some True,
      pf_restarts = Some 0, pf_node = ''n1'', pf_ip = ''10.0.0.1'', pf_started = None, pf_image = ''pg:17'',
      pf_owner_uid = ''c1'', pf_deleting = False, pf_containers = []\<rparr>"

definition following_pods :: "(string, pod_event, pod_collector) loop_state" where
  "following_pods =
     \<lparr>lo_phase = Draining, lo_backoff = backoff_initial, lo_cancelled = False, lo_queue = [], lo_closed = False,
      lo_watches = 1, lo_feed = pod_publish 5 (fst (pod_seed ([one_pod], ''7'') new_pod_collector))\<rparr>"

lemma following_pods_run:
  "loop_run pod_feed (new_loop new_pod_collector) [Silent, Seeded ([one_pod], ''7'') 5, Follows] following_pods"
proof -
  have "loop_run pod_feed (new_loop new_pod_collector) [Silent] ((new_loop new_pod_collector)\<lparr>lo_phase := Seeding\<rparr>)"
    by (rule one_more_step [OF no_steps top_goes]) (simp_all add: new_loop_def)
  note r = this
  have "loop_run pod_feed (new_loop new_pod_collector) [Silent, Seeded ([one_pod], ''7'') 5]
      (published pod_feed 5 ((new_loop new_pod_collector)\<lparr>lo_phase := Following ''7'',
         lo_feed := fst (pod_seed ([one_pod], ''7'') new_pod_collector)\<rparr>))"
    by (rule one_more_step [OF r seeds]) (simp_all add: new_loop_def pod_feed_def pod_seed_def)
  note r = this
  show ?thesis
    by (rule one_more_step [OF r follows])
      (simp_all add: new_loop_def published_def pod_feed_def following_pods_def)
qed

text \<open>C15. A broken watch is never shown as current. After any run of the collector loop the store has a
snapshot exactly when something was published, its generation counts the publications (modulo
2^64), its instant is that of the last one, and it is stale exactly when contact was lost since;
and whenever the loop is about to try again or waiting to, what readers see is stale.\<close>

theorem fresh_only_while_followed:
  assumes "loop_run pod_feed (new_loop new_pod_collector) acts l"
  defines "st \<equiv> pd_store (lo_feed l)"
  shows "(so_has st \<longleftrightarrow> publications acts \<noteq> []) \<and>
    og_generation (so_snap st) = of_nat (length (publications acts)) \<and>
    (so_has st \<longrightarrow> og_observed_at (so_snap st) = last (publications acts) \<and>
       (og_stale (so_snap st) \<longleftrightarrow> lost_since False acts)) \<and>
    (lo_phase l \<in> {AtTop, Seeding, Waiting} \<and> so_has st \<longrightarrow> og_stale (so_snap st))"
proof -
  have new: "\<not> so_has (fd_store pod_feed new_pod_collector)" "og_generation (so_snap (fd_store pod_feed new_pod_collector)) = 0"
    by (simp_all add: pod_feed_def new_pod_collector_def new_pod_store_def)
  have "fd_store pod_feed (lo_feed l) = st" by (simp add: st_def pod_feed_def)
  then show ?thesis
    using pods.accounted_run [OF assms(1) new] pods.idle_run [OF assms(1)] unfolding pods.accounted_def Let_def by metis
qed

theorem fresh_only_while_followed_witness:
  "og_stale (so_snap (pd_store (pod_mark_stale (lo_feed following_pods)))) \<and>
   og_generation (so_snap (pd_store (pod_mark_stale (lo_feed following_pods)))) = 1"
proof -
  let ?l = "following_pods\<lparr>lo_closed := True\<rparr>"
  let ?w = "?l\<lparr>lo_phase := WatchOver, lo_watches := lo_watches ?l - 1\<rparr>"
  have "loop_run pod_feed (new_loop new_pod_collector) [Silent, Seeded ([one_pod], ''7'') 5, Follows, Silent] ?l"
    by (rule one_more_step [OF following_pods_run closes]) (simp_all add: following_pods_def)
  note r = this
  have "loop_run pod_feed (new_loop new_pod_collector) [Silent, Seeded ([one_pod], ''7'') 5, Follows, Silent, Stops] ?w"
    by (rule one_more_step [OF r channel_closed]) (simp_all add: following_pods_def)
  note r = this
  have "loop_run pod_feed (new_loop new_pod_collector) [Silent, Seeded ([one_pod], ''7'') 5, Follows, Silent, Stops, Silent]
      (?w\<lparr>lo_phase := Losing (fd_op pod_feed @ '' watch'') None\<rparr>)"
    by (rule one_more_step [OF r watch_lost]) (simp_all add: following_pods_def)
  note r = this
  have "loop_run pod_feed (new_loop new_pod_collector)
      [Silent, Seeded ([one_pod], ''7'') 5, Follows, Silent, Stops, Silent, Loses (loss_line (fd_op pod_feed @ '' watch'') None)]
      (lose_contact pod_feed (?w\<lparr>lo_phase := Losing (fd_op pod_feed @ '' watch'') None, lo_phase := Waiting\<rparr>))"
    by (rule one_more_step [OF r loses]) simp_all
  from fresh_only_while_followed [OF this] show ?thesis by (simp add: lose_contact_def pod_feed_def)
qed

theorem pods_shown_are_the_members_witness:
  "po_pods (so_snap (pd_store (lo_feed following_pods))) \<noteq> [] \<and>
   set (po_pods (so_snap (pd_store (lo_feed following_pods)))) \<subseteq> {one_pod}"
proof -
  have "so_has (pd_store (lo_feed following_pods))" by (simp add: following_pods_def pod_publish_def)
  from pods_shown_are_the_members [OF following_pods_run this] show ?thesis
    by (auto simp: member_put_def split: if_splits)
qed

lemma ignored_carry_nothing:
  "loop_run pod_feed (new_loop s) acts l \<Longrightarrow> Ignored e \<in> set acts \<Longrightarrow> ch_put e = None \<and> ch_delete e = None"
proof (induction rule: loop_run.induct)
  case (one_more acts l' a l'')
  have "ch_put e = None \<and> ch_delete e = None" if "a = Ignored e"
    using one_more.hyps(2)
  proof (cases rule: loop_step.cases)
    case (takes e' es now)
    from takes(3) that show ?thesis
      by (cases rule: take_item_cases) (auto simp: pod_feed_def pod_apply_def split: option.splits)
  qed (use that in \<open>simp_all add: published_def\<close>)
  with one_more show ?case by auto
qed simp

text \<open>C19. No observation is lost to a restart of the watch, and the one that shutdown may lose is the one
that arrived after the last look. In any run the items the current watch delivered are, in order,
exactly those the loop has handed to the collector followed by those still waiting; an item the
collector ignored carries neither a pod nor a deletion; a watch that ends by itself has had every item
handed on, and one abandoned because the context is cancelled leaves exactly the items that came after
the loop last found the channel empty, which the comment on the loop says cannot happen. Over the whole
run every watch started is released exactly once, when its consumption ends.\<close>

theorem delivered_items_are_folded:
  assumes "loop_run pod_feed (new_loop new_pod_collector) acts l"
  shows "arrived [] acts = handed_on [] acts @ lo_queue l \<and>
    (\<forall>e. Ignored e \<in> set acts \<longrightarrow> ch_put e = None \<and> ch_delete e = None) \<and>
    (lo_phase l = WatchOver \<longrightarrow> lo_queue l = [] \<or> lo_cancelled l \<and> lo_queue l = since_look [] acts) \<and>
    stops_owed 0 acts = (if lo_phase l \<in> {Draining, Blocked} then 1 else 0)"
  using channel_run [OF assms] ignored_carry_nothing [OF assms] unfolding channel_ok_def by blast

theorem delivered_items_are_folded_witness:
  "\<exists>acts l. loop_run pod_feed (new_loop new_pod_collector) acts l \<and> lo_phase l = WatchOver \<and> stops_owed 0 acts = 0 \<and>
     handed_on [] acts = [] \<and> arrived [] acts = [\<lparr>ch_put = Some one_pod, ch_delete = None\<rparr>] \<and> lo_cancelled l"
proof -
  let ?ev = "\<lparr>ch_put = Some one_pod, ch_delete = None\<rparr>"
  let ?b = "following_pods\<lparr>lo_phase := Blocked\<rparr>"
  let ?c = "?b\<lparr>lo_cancelled := True\<rparr>"
  let ?q = "?c\<lparr>lo_queue := lo_queue ?c @ [?ev]\<rparr>"
  let ?acts = "[Silent, Seeded ([one_pod], ''7'') 5, Follows, Checked, Silent, Arrives ?ev, Stops]"
  have "loop_run pod_feed (new_loop new_pod_collector) [Silent, Seeded ([one_pod], ''7'') 5, Follows, Checked] ?b"
    by (rule one_more_step [OF following_pods_run nothing_ready]) (simp_all add: following_pods_def)
  note r = this
  have "loop_run pod_feed (new_loop new_pod_collector) [Silent, Seeded ([one_pod], ''7'') 5, Follows, Checked, Silent] ?c"
    by (rule one_more_step [OF r cancels]) simp_all
  note r = this
  have "loop_run pod_feed (new_loop new_pod_collector)
      [Silent, Seeded ([one_pod], ''7'') 5, Follows, Checked, Silent, Arrives ?ev] ?q"
    by (rule one_more_step [OF r arrives]) (simp_all add: following_pods_def)
  note r = this
  have run: "loop_run pod_feed (new_loop new_pod_collector) ?acts
      (?q\<lparr>lo_phase := WatchOver, lo_watches := lo_watches ?q - 1\<rparr>)"
    by (rule one_more_step [OF r consume_done]) simp_all
  from delivered_items_are_folded [OF run] show ?thesis
    using run by (intro exI [of _ ?acts] exI [of _ "?q\<lparr>lo_phase := WatchOver, lo_watches := lo_watches ?q - 1\<rparr>"]) simp
qed

subsection \<open>The operator's image\<close>

text \<open>The last bootstrap-controller image among the shown pods, with its pod and owner.\<close>

definition operator_images :: "pod_facts list \<Rightarrow> (string \<times> string \<times> string) list" where
  "operator_images pods =
     [(ct_image c, pf_name p, pf_owner_uid p). p \<leftarrow> pods,
        c \<leftarrow> filter (\<lambda>c. ct_init c \<and> ct_name c = bootstrap_controller_container \<and> ct_image c \<noteq> '''') (pf_containers p)]"

definition operator_image_of :: "pods_snapshot \<Rightarrow> string \<times> string \<times> string \<times> instant" where
  "operator_image_of sn =
     (po_operator_image sn, po_operator_image_pod sn, po_operator_image_owner sn, po_operator_image_seen_at sn)"

definition last_image :: "instant \<Rightarrow> string \<times> string \<times> string \<times> instant \<Rightarrow> (string \<times> string \<times> string) list \<Rightarrow>
    string \<times> string \<times> string \<times> instant" where
  "last_image at before images = (if images = [] then before else case last images of (i, p, u) \<Rightarrow> (i, p, u, at))"

lemma last_image_append: "last_image at before (xs @ ys) = last_image at (last_image at before xs) ys"
  by (simp add: last_image_def)

lemma note_containers_image:
  "operator_image_of (note_containers at pod cs nx) =
     last_image at (operator_image_of nx) (operator_images [pod\<lparr>pf_containers := cs\<rparr>])"
proof (induction at pod cs nx rule: note_containers.induct)
  case (2 at pod c cs nx)
  then show ?case by (simp add: operator_images_def operator_image_of_def last_image_def)
qed (simp add: operator_images_def last_image_def)

lemma operator_images_Cons: "operator_images (p # ps) = operator_images [p] @ operator_images ps"
  by (simp add: operator_images_def)

lemma note_pods_image:
  "operator_image_of (note_pods at pods nx) = last_image at (operator_image_of nx) (operator_images pods)"
proof (induction at pods nx rule: note_pods.induct)
  case (2 at pod pods nx)
  then show ?case by (simp add: operator_images_Cons [of pod pods] note_containers_image last_image_append)
qed (simp add: operator_images_def last_image_def)

text \<open>The image survives the pods: a publication that shows none keeps what the last one that did left.\<close>

lemma operator_image_survives:
  "operator_image_of (so_snap (pod_store_publish pods at s)) =
     last_image at (operator_image_of (so_snap s)) (operator_images (fst (bounded less_pod_name max_pods pods)))"
proof -
  have "operator_image_of \<lparr>og_generation = g, og_observed_at = t, og_stale = b, po_truncated = c, po_pods = ps,
      po_operator_image = po_operator_image x, po_operator_image_pod = po_operator_image_pod x,
      po_operator_image_seen_at = po_operator_image_seen_at x, po_operator_image_owner = po_operator_image_owner x\<rparr> =
      operator_image_of x" for g t b c ps x
    by (simp add: operator_image_of_def)
  then show ?thesis by (simp add: pod_store_publish_def Let_def split_beta note_pods_image)
qed

section \<open>Pods of the poolers\<close>

record pooler_pod_collector =
  pp_state :: "pod_facts keyed"
  pp_store :: "pods_snapshot store"

definition pooler_pod_seed :: "pod_facts list \<times> string \<Rightarrow> pooler_pod_collector \<Rightarrow> pooler_pod_collector \<times> string" where
  "pooler_pod_seed answer c =
     (let (pods, rv) = answer
      in (c\<lparr>pp_state := fst (keyed_put_all pod_retention pods ([], False))\<rparr>, rv))"

definition pooler_pod_apply :: "pod_event \<Rightarrow> pooler_pod_collector \<Rightarrow> pooler_pod_collector \<times> bool" where
  "pooler_pod_apply ev c =
     (case ch_put ev of
        Some pod \<Rightarrow> (c\<lparr>pp_state := fst (keyed_put pod_retention pod (pp_state c))\<rparr>, True)
      | None \<Rightarrow>
          (case ch_delete ev of
             Some d \<Rightarrow> (c\<lparr>pp_state := keyed_remove pod_retention (dl_name d) (dl_uid d) (pp_state c)\<rparr>, True)
           | None \<Rightarrow> (c, False)))"

definition pooler_pod_publish :: "instant \<Rightarrow> pooler_pod_collector \<Rightarrow> pooler_pod_collector" where
  "pooler_pod_publish observed_at c =
     c\<lparr>pp_store := pod_store_publish (keyed_list (pp_state c)) observed_at (pp_store c)\<rparr>"

definition pooler_pod_mark_stale :: "pooler_pod_collector \<Rightarrow> pooler_pod_collector" where
  "pooler_pod_mark_stale c = c\<lparr>pp_store := mark_stale (pp_store c)\<rparr>"

definition pooler_pod_feed :: "(pod_facts list \<times> string, string, pod_event, pooler_pod_collector,
    \<lparr>po_truncated :: bool, po_pods :: pod_facts list, po_operator_image :: string, po_operator_image_pod :: string,
     po_operator_image_seen_at :: instant, po_operator_image_owner :: string\<rparr>) feed" where
  "pooler_pod_feed =
     \<lparr>fd_op = ''pooler pods'', fd_seed = pooler_pod_seed, fd_apply = pooler_pod_apply, fd_publish = pooler_pod_publish,
      fd_mark_stale = pooler_pod_mark_stale, fd_store = pp_store\<rparr>"

interpretation pooler_pods: feed_contract pooler_pod_feed
  by unfold_locales (simp_all add: pooler_pod_feed_def pooler_pod_seed_def pooler_pod_apply_def pooler_pod_publish_def
      pooler_pod_mark_stale_def split_beta split: option.split)

section \<open>Events\<close>

definition max_events :: int where "max_events = 100"
definition max_events_retained :: int where "max_events_retained = 300"

record event_facts =
  ef_name :: string
  ef_uid :: string
  ef_kind :: string
  ef_object :: string
  ef_type :: string
  ef_reason :: string
  ef_message :: string
  ef_count :: int
  ef_last_seen :: instant

type_synonym event_change = "event_facts watch_change"

record events_snapshot = observed +
  ev_truncated :: bool
  ev_events :: "event_facts list"

definition less_event_recency :: "event_facts \<Rightarrow> event_facts \<Rightarrow> bool" where
  "less_event_recency a b =
     (if ef_last_seen a \<noteq> ef_last_seen b then time_after (ef_last_seen a) (ef_last_seen b)
      else str_less (ef_name a) (ef_name b))"

definition event_store_publish :: "event_facts list \<Rightarrow> instant \<Rightarrow> duration \<Rightarrow> events_snapshot store \<Rightarrow> events_snapshot store" where
  "event_store_publish events observed_at window s =
     (let cutoff = observed_at - window;
          kept = filter (\<lambda>e. \<not> time_before (ef_last_seen e) cutoff) events;
          (shown, truncated) = bounded less_event_recency max_events kept
      in \<lparr>so_snap = \<lparr>og_generation = og_generation (so_snap s) + 1, og_observed_at = observed_at, og_stale = False,
            ev_truncated = truncated, ev_events = shown\<rparr>,
          so_has = True\<rparr>)"

definition event_retention :: "event_facts retention" where
  "event_retention =
     \<lparr>rt_name = ef_name, rt_uid = ef_uid, rt_limit = max_events_retained,
      rt_evictable = (\<lambda>a b. time_before (ef_last_seen a) (ef_last_seen b))\<rparr>"

record event_collector =
  ec_window :: duration
  ec_state :: "event_facts keyed"
  ec_store :: "events_snapshot store"

definition event_seed :: "event_facts list \<times> string \<Rightarrow> event_collector \<Rightarrow> event_collector \<times> string" where
  "event_seed answer c =
     (let (events, rv) = answer
      in (c\<lparr>ec_state := fst (keyed_put_all event_retention events ([], False))\<rparr>, rv))"

definition event_apply :: "event_change \<Rightarrow> event_collector \<Rightarrow> event_collector \<times> bool" where
  "event_apply ev c =
     (case ch_put ev of
        Some e \<Rightarrow> (c\<lparr>ec_state := fst (keyed_put event_retention e (ec_state c))\<rparr>, True)
      | None \<Rightarrow>
          (case ch_delete ev of
             Some d \<Rightarrow> (c\<lparr>ec_state := keyed_remove event_retention (dl_name d) (dl_uid d) (ec_state c)\<rparr>, True)
           | None \<Rightarrow> (c, False)))"

definition event_publish :: "instant \<Rightarrow> event_collector \<Rightarrow> event_collector" where
  "event_publish observed_at c =
     c\<lparr>ec_store := event_store_publish (keyed_list (ec_state c)) observed_at (ec_window c) (ec_store c)\<rparr>"

definition event_mark_stale :: "event_collector \<Rightarrow> event_collector" where
  "event_mark_stale c = c\<lparr>ec_store := mark_stale (ec_store c)\<rparr>"

definition event_feed :: "(event_facts list \<times> string, string, event_change, event_collector,
    \<lparr>ev_truncated :: bool, ev_events :: event_facts list\<rparr>) feed" where
  "event_feed =
     \<lparr>fd_op = ''events'', fd_seed = event_seed, fd_apply = event_apply, fd_publish = event_publish,
      fd_mark_stale = event_mark_stale, fd_store = ec_store\<rparr>"

interpretation events: feed_contract event_feed
  by unfold_locales (simp_all add: event_feed_def event_seed_def event_apply_def event_publish_def
      event_mark_stale_def event_store_publish_def Let_def split_beta split: option.split)


end
