(* ===== verification/ObserveKinds.thy ===== *)
theory ObserveKinds
  imports ObserveLoop
begin

text \<open>
  The collectors of bounded kinds: \<open>quotas.go\<close>, \<open>poolers.go\<close>, \<open>imagecatalogs.go\<close>,
  \<open>databases.go\<close> (four kinds in one stream), \<open>backups.go\<close> (two) and \<open>accessreview.go\<close>. Each keeps a
  \<open>keyed\<close> set one larger than what it shows; all but the backups and the access requests are shown,
  and evicted, by name.
\<close>

section \<open>Resource quotas\<close>

definition max_quotas :: int where "max_quotas = 16"

record quota_resource_facts =
  qr_resource :: string
  qr_hard :: string
  qr_used :: string
  qr_exhausted :: bool

record quota_facts =
  qf_name :: string
  qf_uid :: string
  qf_resources :: "quota_resource_facts list"

record quotas_state =
  qt_quotas :: "quota_facts list"
  qt_resource_version :: string

type_synonym quota_change = "quota_facts watch_change"

record quotas_snapshot = observed +
  qo_quotas :: "quota_facts list"

definition less_quota_name :: "quota_facts \<Rightarrow> quota_facts \<Rightarrow> bool" where
  "less_quota_name a b = str_less (qf_name a) (qf_name b)"

definition quota_retention :: "quota_facts retention" where
  "quota_retention =
     \<lparr>rt_name = qf_name, rt_uid = qf_uid, rt_limit = max_quotas + 1,
      rt_evictable = (\<lambda>a b. str_less (qf_name b) (qf_name a))\<rparr>"

definition quota_store_publish :: "quota_facts list \<Rightarrow> instant \<Rightarrow> quotas_snapshot store \<Rightarrow> quotas_snapshot store" where
  "quota_store_publish quotas observed_at s =
     \<lparr>so_snap = \<lparr>og_generation = og_generation (so_snap s) + 1, og_observed_at = observed_at, og_stale = False,
        qo_quotas = fst (bounded less_quota_name max_quotas quotas)\<rparr>, so_has = True\<rparr>"

record quota_collector =
  qu_state :: "quota_facts keyed"
  qu_store :: "quotas_snapshot store"

definition quota_seed :: "quotas_state \<Rightarrow> quota_collector \<Rightarrow> quota_collector \<times> string" where
  "quota_seed state c =
     (c\<lparr>qu_state := fst (keyed_put_all quota_retention (qt_quotas state) ([], False))\<rparr>, qt_resource_version state)"

definition quota_apply :: "quota_change \<Rightarrow> quota_collector \<Rightarrow> quota_collector \<times> bool" where
  "quota_apply change c =
     (case ch_put change of
        Some q \<Rightarrow> (c\<lparr>qu_state := fst (keyed_put quota_retention q (qu_state c))\<rparr>, True)
      | None \<Rightarrow>
          (case ch_delete change of
             Some d \<Rightarrow> (c\<lparr>qu_state := keyed_remove quota_retention (dl_name d) (dl_uid d) (qu_state c)\<rparr>, True)
           | None \<Rightarrow> (c, False)))"

definition quota_publish :: "instant \<Rightarrow> quota_collector \<Rightarrow> quota_collector" where
  "quota_publish observed_at c = c\<lparr>qu_store := quota_store_publish (keyed_list (qu_state c)) observed_at (qu_store c)\<rparr>"

definition quota_mark_stale :: "quota_collector \<Rightarrow> quota_collector" where
  "quota_mark_stale c = c\<lparr>qu_store := mark_stale (qu_store c)\<rparr>"

definition quota_feed :: "(quotas_state, string, quota_change, quota_collector, \<lparr>qo_quotas :: quota_facts list\<rparr>) feed" where
  "quota_feed =
     \<lparr>fd_op = ''resource quotas'', fd_seed = quota_seed, fd_apply = quota_apply, fd_publish = quota_publish,
      fd_mark_stale = quota_mark_stale, fd_store = qu_store\<rparr>"

interpretation quotas: feed_contract quota_feed
  by unfold_locales (simp_all add: quota_feed_def quota_seed_def quota_apply_def quota_publish_def
      quota_mark_stale_def quota_store_publish_def split: option.split)

interpretation quota_kind: named_kind quota_retention less_quota_name 16
  by unfold_locales (simp_all add: quota_retention_def less_quota_name_def max_quotas_def)

section \<open>Poolers\<close>

definition max_poolers :: int where "max_poolers = 100"

record pooler_facts =
  pk_name :: string
  pk_uid :: string
  pk_type :: string
  pk_pool_mode :: string
  pk_desired_instances :: "int option"
  pk_ready_instances :: int
  pk_phase :: string
  pk_phase_reason :: string
  pk_image :: string
  pk_created_at :: instant

type_synonym pooler_change = "pooler_facts watch_change"

record poolers_snapshot = observed +
  pq_truncated :: bool
  pq_poolers :: "pooler_facts list"

definition less_pooler_name :: "pooler_facts \<Rightarrow> pooler_facts \<Rightarrow> bool" where
  "less_pooler_name a b = str_less (pk_name a) (pk_name b)"

definition pooler_retention :: "pooler_facts retention" where
  "pooler_retention =
     \<lparr>rt_name = pk_name, rt_uid = pk_uid, rt_limit = max_poolers + 1,
      rt_evictable = (\<lambda>a b. str_less (pk_name b) (pk_name a))\<rparr>"

definition pooler_store_publish :: "pooler_facts list \<Rightarrow> instant \<Rightarrow> bool \<Rightarrow> poolers_snapshot store \<Rightarrow> poolers_snapshot store" where
  "pooler_store_publish poolers observed_at source_truncated s =
     (let (sorted, cut) = bounded less_pooler_name max_poolers poolers
      in \<lparr>so_snap = \<lparr>og_generation = og_generation (so_snap s) + 1, og_observed_at = observed_at, og_stale = False,
            pq_truncated = source_truncated \<or> cut, pq_poolers = sorted\<rparr>,
          so_has = True\<rparr>)"

record pooler_collector =
  pr_state :: "pooler_facts keyed"
  pr_truncated :: bool
  pr_store :: "poolers_snapshot store"

text \<open>A fetch answers the poolers, the resource version and whether the source truncated.\<close>

definition pooler_seed :: "pooler_facts list \<times> string \<times> bool \<Rightarrow> pooler_collector \<Rightarrow> pooler_collector \<times> string" where
  "pooler_seed answer c =
     (let (poolers, rv, truncated) = answer;
          (k, e) = keyed_put_all pooler_retention poolers ([], truncated)
      in (c\<lparr>pr_state := k, pr_truncated := e\<rparr>, rv))"

definition pooler_apply :: "pooler_change \<Rightarrow> pooler_collector \<Rightarrow> pooler_collector \<times> bool" where
  "pooler_apply change c =
     (case ch_put change of
        Some p \<Rightarrow>
          (let (k, evicted) = keyed_put pooler_retention p (pr_state c)
           in (c\<lparr>pr_state := k, pr_truncated := evicted \<or> pr_truncated c\<rparr>, True))
      | None \<Rightarrow>
          (case ch_delete change of
             Some d \<Rightarrow> (c\<lparr>pr_state := keyed_remove pooler_retention (dl_name d) (dl_uid d) (pr_state c)\<rparr>, True)
           | None \<Rightarrow> (c, False)))"

definition pooler_publish :: "instant \<Rightarrow> pooler_collector \<Rightarrow> pooler_collector" where
  "pooler_publish observed_at c =
     c\<lparr>pr_store := pooler_store_publish (keyed_list (pr_state c)) observed_at (pr_truncated c) (pr_store c)\<rparr>"

definition pooler_mark_stale :: "pooler_collector \<Rightarrow> pooler_collector" where
  "pooler_mark_stale c = c\<lparr>pr_store := mark_stale (pr_store c)\<rparr>"

definition pooler_feed :: "(pooler_facts list \<times> string \<times> bool, string, pooler_change, pooler_collector,
    \<lparr>pq_truncated :: bool, pq_poolers :: pooler_facts list\<rparr>) feed" where
  "pooler_feed =
     \<lparr>fd_op = ''poolers'', fd_seed = pooler_seed, fd_apply = pooler_apply, fd_publish = pooler_publish,
      fd_mark_stale = pooler_mark_stale, fd_store = pr_store\<rparr>"

interpretation poolers: feed_contract pooler_feed
  by unfold_locales (simp_all add: pooler_feed_def pooler_seed_def pooler_apply_def pooler_publish_def
      pooler_mark_stale_def pooler_store_publish_def Let_def split_beta split: option.split)

interpretation pooler_kind: named_kind pooler_retention less_pooler_name 100
  by unfold_locales (simp_all add: pooler_retention_def less_pooler_name_def max_poolers_def)

section \<open>Image catalogs\<close>

definition max_image_catalogs :: int where "max_image_catalogs = 32"

datatype cluster_catalog_state =
    ClusterCatalogUnset
  | ClusterCatalogDisabled
  | ClusterCatalogNotReferenced
  | ClusterCatalogPresent
  | ClusterCatalogAbsent
  | ClusterCatalogUnknown

record catalog_image_facts =
  ci_major :: int
  ci_image :: string

record image_catalog_facts =
  ic_name :: string
  ic_uid :: string
  ic_images :: "catalog_image_facts list"
  ic_images_truncated :: bool
  ic_created_at :: instant

type_synonym image_catalog_change = "image_catalog_facts watch_change"

record image_catalogs_state =
  is_catalogs :: "image_catalog_facts list"
  is_resource_version :: string
  is_truncated :: bool
  is_cluster_catalog :: image_catalog_facts
  is_cluster_catalog_state :: cluster_catalog_state

record image_catalogs_snapshot = observed +
  io_truncated :: bool
  io_catalogs :: "image_catalog_facts list"
  io_cluster_catalog :: image_catalog_facts
  io_cluster_catalog_state :: cluster_catalog_state

definition snapshot_catalog :: "image_catalogs_snapshot \<Rightarrow> string \<Rightarrow> image_catalog_facts option" where
  "snapshot_catalog s name = find (\<lambda>c. ic_name c = name) (io_catalogs s)"

definition less_catalog_name :: "image_catalog_facts \<Rightarrow> image_catalog_facts \<Rightarrow> bool" where
  "less_catalog_name a b = str_less (ic_name a) (ic_name b)"

definition catalog_retention :: "image_catalog_facts retention" where
  "catalog_retention =
     \<lparr>rt_name = ic_name, rt_uid = ic_uid, rt_limit = max_image_catalogs + 1,
      rt_evictable = (\<lambda>a b. str_less (ic_name b) (ic_name a))\<rparr>"

definition image_catalog_store_publish :: "image_catalog_facts list \<Rightarrow> image_catalog_facts \<Rightarrow> cluster_catalog_state \<Rightarrow>
    instant \<Rightarrow> bool \<Rightarrow> image_catalogs_snapshot store \<Rightarrow> image_catalogs_snapshot store" where
  "image_catalog_store_publish catalogs cluster_catalog cluster_state observed_at source_truncated s =
     (let (sorted, cut) = bounded less_catalog_name max_image_catalogs catalogs
      in \<lparr>so_snap = \<lparr>og_generation = og_generation (so_snap s) + 1, og_observed_at = observed_at, og_stale = False,
            io_truncated = source_truncated \<or> cut, io_catalogs = sorted, io_cluster_catalog = cluster_catalog,
            io_cluster_catalog_state = cluster_state\<rparr>,
          so_has = True\<rparr>)"

record image_catalog_collector =
  il_state :: "image_catalog_facts keyed"
  il_truncated :: bool
  il_cluster_catalog :: image_catalog_facts
  il_cluster_state :: cluster_catalog_state
  il_store :: "image_catalogs_snapshot store"

definition image_catalog_seed :: "image_catalogs_state \<Rightarrow> image_catalog_collector \<Rightarrow> image_catalog_collector \<times> string" where
  "image_catalog_seed state c =
     (let (k, e) = keyed_put_all catalog_retention (is_catalogs state) ([], is_truncated state)
      in (c\<lparr>il_state := k, il_truncated := e, il_cluster_catalog := is_cluster_catalog state,
            il_cluster_state := is_cluster_catalog_state state\<rparr>, is_resource_version state))"

definition image_catalog_apply :: "image_catalog_change \<Rightarrow> image_catalog_collector \<Rightarrow> image_catalog_collector \<times> bool" where
  "image_catalog_apply change c =
     (case ch_put change of
        Some cat \<Rightarrow>
          (let (k, evicted) = keyed_put catalog_retention cat (il_state c)
           in (c\<lparr>il_state := k, il_truncated := evicted \<or> il_truncated c\<rparr>, True))
      | None \<Rightarrow>
          (case ch_delete change of
             Some d \<Rightarrow> (c\<lparr>il_state := keyed_remove catalog_retention (dl_name d) (dl_uid d) (il_state c)\<rparr>, True)
           | None \<Rightarrow> (c, False)))"

definition image_catalog_publish :: "instant \<Rightarrow> image_catalog_collector \<Rightarrow> image_catalog_collector" where
  "image_catalog_publish observed_at c =
     c\<lparr>il_store := image_catalog_store_publish (keyed_list (il_state c)) (il_cluster_catalog c) (il_cluster_state c)
        observed_at (il_truncated c) (il_store c)\<rparr>"

definition image_catalog_mark_stale :: "image_catalog_collector \<Rightarrow> image_catalog_collector" where
  "image_catalog_mark_stale c = c\<lparr>il_store := mark_stale (il_store c)\<rparr>"

definition image_catalog_feed :: "(image_catalogs_state, string, image_catalog_change, image_catalog_collector,
    \<lparr>io_truncated :: bool, io_catalogs :: image_catalog_facts list, io_cluster_catalog :: image_catalog_facts,
     io_cluster_catalog_state :: cluster_catalog_state\<rparr>) feed" where
  "image_catalog_feed =
     \<lparr>fd_op = ''image catalogs'', fd_seed = image_catalog_seed, fd_apply = image_catalog_apply,
      fd_publish = image_catalog_publish, fd_mark_stale = image_catalog_mark_stale, fd_store = il_store\<rparr>"

interpretation image_catalogs: feed_contract image_catalog_feed
  by unfold_locales (simp_all add: image_catalog_feed_def image_catalog_seed_def image_catalog_apply_def
      image_catalog_publish_def image_catalog_mark_stale_def image_catalog_store_publish_def Let_def split_beta
      split: option.split)

interpretation image_catalog_kind: named_kind catalog_retention less_catalog_name 32
  by unfold_locales (simp_all add: catalog_retention_def less_catalog_name_def max_image_catalogs_def)

section \<open>Declared database objects\<close>

definition max_database_objects :: int where "max_database_objects = 200"

record declared =
  de_applied :: "bool option"
  de_message :: string
  de_observed_generation :: int

record database_facts =
  db_name :: string
  db_uid :: string
  db_database :: string
  db_owner :: string
  db_encoding :: string
  db_ensure :: string
  db_created_at :: instant
  db_declared :: declared

record database_role_facts =
  dr_name :: string
  dr_uid :: string
  dr_role :: string
  dr_superuser :: bool
  dr_create_db :: bool
  dr_create_role :: bool
  dr_connection_limit :: int
  dr_in_roles :: "string list"
  dr_has_password_secret :: bool
  dr_valid_until :: "instant option"
  dr_created_at :: instant
  dr_declared :: declared

record publication_facts =
  pu_name :: string
  pu_uid :: string
  pu_publication :: string
  pu_database :: string
  pu_all_tables :: bool
  pu_created_at :: instant
  pu_declared :: declared

record subscription_facts =
  su_name :: string
  su_uid :: string
  su_subscription :: string
  su_database :: string
  su_publication :: string
  su_external_cluster :: string
  su_created_at :: instant
  su_declared :: declared

record database_objects_state =
  ds_databases :: "database_facts list"
  ds_roles :: "database_role_facts list"
  ds_publications :: "publication_facts list"
  ds_subscriptions :: "subscription_facts list"
  ds_truncated :: bool
  ds_database_resource_version :: string
  ds_role_resource_version :: string
  ds_publication_resource_version :: string
  ds_subscription_resource_version :: string

record database_objects_change =
  dc_put_database :: "database_facts option"
  dc_delete_database :: "deletion option"
  dc_put_role :: "database_role_facts option"
  dc_delete_role :: "deletion option"
  dc_put_publication :: "publication_facts option"
  dc_delete_publication :: "deletion option"
  dc_put_subscription :: "subscription_facts option"
  dc_delete_subscription :: "deletion option"

record database_objects_snapshot = observed +
  do_truncated :: bool
  do_databases :: "database_facts list"
  do_roles :: "database_role_facts list"
  do_publications :: "publication_facts list"
  do_subscriptions :: "subscription_facts list"

definition less_database_name :: "database_facts \<Rightarrow> database_facts \<Rightarrow> bool" where
  "less_database_name a b = str_less (db_name a) (db_name b)"
definition less_role_name :: "database_role_facts \<Rightarrow> database_role_facts \<Rightarrow> bool" where
  "less_role_name a b = str_less (dr_name a) (dr_name b)"
definition less_publication_name :: "publication_facts \<Rightarrow> publication_facts \<Rightarrow> bool" where
  "less_publication_name a b = str_less (pu_name a) (pu_name b)"
definition less_subscription_name :: "subscription_facts \<Rightarrow> subscription_facts \<Rightarrow> bool" where
  "less_subscription_name a b = str_less (su_name a) (su_name b)"

definition database_retention :: "database_facts retention" where
  "database_retention =
     \<lparr>rt_name = db_name, rt_uid = db_uid, rt_limit = max_database_objects + 1,
      rt_evictable = (\<lambda>a b. str_less (db_name b) (db_name a))\<rparr>"
definition database_role_retention :: "database_role_facts retention" where
  "database_role_retention =
     \<lparr>rt_name = dr_name, rt_uid = dr_uid, rt_limit = max_database_objects + 1,
      rt_evictable = (\<lambda>a b. str_less (dr_name b) (dr_name a))\<rparr>"
definition publication_retention :: "publication_facts retention" where
  "publication_retention =
     \<lparr>rt_name = pu_name, rt_uid = pu_uid, rt_limit = max_database_objects + 1,
      rt_evictable = (\<lambda>a b. str_less (pu_name b) (pu_name a))\<rparr>"
definition subscription_retention :: "subscription_facts retention" where
  "subscription_retention =
     \<lparr>rt_name = su_name, rt_uid = su_uid, rt_limit = max_database_objects + 1,
      rt_evictable = (\<lambda>a b. str_less (su_name b) (su_name a))\<rparr>"

definition database_objects_store_publish :: "database_facts list \<Rightarrow> database_role_facts list \<Rightarrow> publication_facts list \<Rightarrow>
    subscription_facts list \<Rightarrow> instant \<Rightarrow> bool \<Rightarrow> database_objects_snapshot store \<Rightarrow> database_objects_snapshot store" where
  "database_objects_store_publish dbs rls pubs subs observed_at source_truncated s =
     (let (databases, cut_db) = bounded less_database_name max_database_objects dbs;
          (roles, cut_role) = bounded less_role_name max_database_objects rls;
          (publications, cut_pub) = bounded less_publication_name max_database_objects pubs;
          (subscriptions, cut_sub) = bounded less_subscription_name max_database_objects subs
      in \<lparr>so_snap = \<lparr>og_generation = og_generation (so_snap s) + 1, og_observed_at = observed_at, og_stale = False,
            do_truncated = source_truncated \<or> cut_db \<or> cut_role \<or> cut_pub \<or> cut_sub,
            do_databases = databases, do_roles = roles, do_publications = publications, do_subscriptions = subscriptions\<rparr>,
          so_has = True\<rparr>)"

record database_objects_collector =
  dj_databases :: "database_facts keyed"
  dj_roles :: "database_role_facts keyed"
  dj_publications :: "publication_facts keyed"
  dj_subscriptions :: "subscription_facts keyed"
  dj_truncated :: bool
  dj_store :: "database_objects_snapshot store"

definition database_objects_seed :: "database_objects_state \<Rightarrow> database_objects_collector \<Rightarrow>
    database_objects_collector \<times> database_objects_state" where
  "database_objects_seed state c =
     (let (databases, e1) = keyed_put_all database_retention (ds_databases state) ([], ds_truncated state);
          (roles, e2) = keyed_put_all database_role_retention (ds_roles state) ([], e1);
          (publications, e3) = keyed_put_all publication_retention (ds_publications state) ([], e2);
          (subscriptions, e4) = keyed_put_all subscription_retention (ds_subscriptions state) ([], e3)
      in (c\<lparr>dj_databases := databases, dj_roles := roles, dj_publications := publications,
            dj_subscriptions := subscriptions, dj_truncated := e4\<rparr>, state))"

definition database_objects_apply :: "database_objects_change \<Rightarrow> database_objects_collector \<Rightarrow>
    database_objects_collector \<times> bool" where
  "database_objects_apply change c =
     (case dc_put_database change of
        Some x \<Rightarrow>
          (let (k, evicted) = keyed_put database_retention x (dj_databases c)
           in (c\<lparr>dj_databases := k, dj_truncated := evicted \<or> dj_truncated c\<rparr>, True))
      | None \<Rightarrow> (case dc_delete_database change of
        Some d \<Rightarrow> (c\<lparr>dj_databases := keyed_remove database_retention (dl_name d) (dl_uid d) (dj_databases c)\<rparr>, True)
      | None \<Rightarrow> (case dc_put_role change of
        Some x \<Rightarrow>
          (let (k, evicted) = keyed_put database_role_retention x (dj_roles c)
           in (c\<lparr>dj_roles := k, dj_truncated := evicted \<or> dj_truncated c\<rparr>, True))
      | None \<Rightarrow> (case dc_delete_role change of
        Some d \<Rightarrow> (c\<lparr>dj_roles := keyed_remove database_role_retention (dl_name d) (dl_uid d) (dj_roles c)\<rparr>, True)
      | None \<Rightarrow> (case dc_put_publication change of
        Some x \<Rightarrow>
          (let (k, evicted) = keyed_put publication_retention x (dj_publications c)
           in (c\<lparr>dj_publications := k, dj_truncated := evicted \<or> dj_truncated c\<rparr>, True))
      | None \<Rightarrow> (case dc_delete_publication change of
        Some d \<Rightarrow> (c\<lparr>dj_publications := keyed_remove publication_retention (dl_name d) (dl_uid d) (dj_publications c)\<rparr>, True)
      | None \<Rightarrow> (case dc_put_subscription change of
        Some x \<Rightarrow>
          (let (k, evicted) = keyed_put subscription_retention x (dj_subscriptions c)
           in (c\<lparr>dj_subscriptions := k, dj_truncated := evicted \<or> dj_truncated c\<rparr>, True))
      | None \<Rightarrow> (case dc_delete_subscription change of
        Some d \<Rightarrow> (c\<lparr>dj_subscriptions := keyed_remove subscription_retention (dl_name d) (dl_uid d) (dj_subscriptions c)\<rparr>, True)
      | None \<Rightarrow> (c, False)))))))))"

definition database_objects_publish :: "instant \<Rightarrow> database_objects_collector \<Rightarrow> database_objects_collector" where
  "database_objects_publish observed_at c =
     c\<lparr>dj_store := database_objects_store_publish (keyed_list (dj_databases c)) (keyed_list (dj_roles c))
        (keyed_list (dj_publications c)) (keyed_list (dj_subscriptions c)) observed_at (dj_truncated c) (dj_store c)\<rparr>"

definition database_objects_mark_stale :: "database_objects_collector \<Rightarrow> database_objects_collector" where
  "database_objects_mark_stale c = c\<lparr>dj_store := mark_stale (dj_store c)\<rparr>"

definition database_objects_feed :: "(database_objects_state, database_objects_state, database_objects_change,
    database_objects_collector, \<lparr>do_truncated :: bool, do_databases :: database_facts list,
      do_roles :: database_role_facts list, do_publications :: publication_facts list,
      do_subscriptions :: subscription_facts list\<rparr>) feed" where
  "database_objects_feed =
     \<lparr>fd_op = ''database objects'', fd_seed = database_objects_seed, fd_apply = database_objects_apply,
      fd_publish = database_objects_publish, fd_mark_stale = database_objects_mark_stale, fd_store = dj_store\<rparr>"

interpretation database_objects: feed_contract database_objects_feed
  by unfold_locales (simp_all add: database_objects_feed_def database_objects_seed_def database_objects_apply_def
      database_objects_publish_def database_objects_mark_stale_def database_objects_store_publish_def Let_def split_beta
      split: option.split)

interpretation database_kind: named_kind database_retention less_database_name 200
  by unfold_locales (simp_all add: database_retention_def less_database_name_def max_database_objects_def)
interpretation role_kind: named_kind database_role_retention less_role_name 200
  by unfold_locales (simp_all add: database_role_retention_def less_role_name_def max_database_objects_def)
interpretation publication_kind: named_kind publication_retention less_publication_name 200
  by unfold_locales (simp_all add: publication_retention_def less_publication_name_def max_database_objects_def)
interpretation subscription_kind: named_kind subscription_retention less_subscription_name 200
  by unfold_locales (simp_all add: subscription_retention_def less_subscription_name_def max_database_objects_def)

text \<open>The names a list of items uses, with the last item of each: what a seed should show of a kind.\<close>

definition seeded_set :: "('a \<Rightarrow> string) \<Rightarrow> 'a list \<Rightarrow> 'a keyed" where
  "seeded_set name xs = fold (\<lambda>x k. mput (name x) x k) xs []"

lemma unlimited_put_all: "fst (keyed_put_all (unlimited r) xs (k, e)) = fold (\<lambda>x k. mput (rt_name r x) x k) xs k"
  by (induction xs arbitrary: k e) (simp_all add: unlimited_put)

lemma length_seeded_set: "length (seeded_set name xs) = card (name ` set xs)"
proof -
  have "map_ok (fold (\<lambda>x k. mput (name x) x k) xs k) \<and>
      set (mkeys (fold (\<lambda>x k. mput (name x) x k) xs k)) = set (mkeys k) \<union> name ` set xs" if "map_ok k" for k
    using that by (induction xs arbitrary: k) (auto simp: mkeys_mput)
  from this [of "[]"] have "map_ok (seeded_set name xs)" "set (mkeys (seeded_set name xs)) = name ` set xs"
    by (simp_all add: seeded_set_def mkeys_def)
  then show ?thesis using map_ok_card [of "seeded_set name xs"] by simp
qed

lemma seeded_kind:
  assumes "named_kind r lt n"
  shows "fst (bounded lt (int n) (keyed_list (fst (keyed_put_all r xs ([], e))))) =
      take n (sort_by lt (keyed_list (seeded_set (rt_name r) xs)))"
    and "snd (keyed_put_all r xs ([], e)) \<or> snd (bounded lt (int n) (keyed_list (fst (keyed_put_all r xs ([], e))))) \<longleftrightarrow>
      e \<or> n < card (rt_name r ` set xs)"
  using named_kind.seed_shows_the_smallest [OF assms, where xs = xs and e = e and b = False]
  by (simp_all add: unlimited_put_all seeded_set_def [symmetric] length_seeded_set fst_bounded)

text \<open>C18. Bounding the memory of a seed cannot be seen. Whatever the source lists of databases, roles,
publications and subscriptions (in any order, with repeated names), the page published after the
seed shows of each kind the first 200 names of everything listed, each with the last object listed
under it, exactly as if every object had been retained; and it says it is truncated exactly when
the source said so or a kind has more than 200 names.\<close>

theorem seed_eviction_is_invisible:
  fixes state :: database_objects_state and c :: database_objects_collector and at :: instant
  defines "sn \<equiv> so_snap (dj_store (database_objects_publish at (fst (database_objects_seed state c))))"
  shows "do_databases sn = take 200 (sort_by less_database_name (keyed_list (seeded_set db_name (ds_databases state)))) \<and>
    do_roles sn = take 200 (sort_by less_role_name (keyed_list (seeded_set dr_name (ds_roles state)))) \<and>
    do_publications sn = take 200 (sort_by less_publication_name (keyed_list (seeded_set pu_name (ds_publications state)))) \<and>
    do_subscriptions sn = take 200 (sort_by less_subscription_name (keyed_list (seeded_set su_name (ds_subscriptions state)))) \<and>
    (do_truncated sn \<longleftrightarrow> ds_truncated state \<or> 200 < card (db_name ` set (ds_databases state)) \<or>
       200 < card (dr_name ` set (ds_roles state)) \<or> 200 < card (pu_name ` set (ds_publications state)) \<or>
       200 < card (su_name ` set (ds_subscriptions state)))"
proof -
  define e1 where "e1 = snd (keyed_put_all database_retention (ds_databases state) ([], ds_truncated state))"
  define e2 where "e2 = snd (keyed_put_all database_role_retention (ds_roles state) ([], e1))"
  define e3 where "e3 = snd (keyed_put_all publication_retention (ds_publications state) ([], e2))"
  define e4 where "e4 = snd (keyed_put_all subscription_retention (ds_subscriptions state) ([], e3))"
  let ?db = "bounded less_database_name (int 200) (keyed_list (fst (keyed_put_all database_retention (ds_databases state) ([], ds_truncated state))))"
  let ?ro = "bounded less_role_name (int 200) (keyed_list (fst (keyed_put_all database_role_retention (ds_roles state) ([], e1))))"
  let ?pu = "bounded less_publication_name (int 200) (keyed_list (fst (keyed_put_all publication_retention (ds_publications state) ([], e2))))"
  let ?su = "bounded less_subscription_name (int 200) (keyed_list (fst (keyed_put_all subscription_retention (ds_subscriptions state) ([], e3))))"
  have shown: "do_databases sn = fst ?db" "do_roles sn = fst ?ro" "do_publications sn = fst ?pu" "do_subscriptions sn = fst ?su"
      "do_truncated sn \<longleftrightarrow> e4 \<or> snd ?db \<or> snd ?ro \<or> snd ?pu \<or> snd ?su"
    by (simp_all add: sn_def database_objects_publish_def database_objects_seed_def database_objects_store_publish_def
        Let_def split_beta max_database_objects_def e1_def e2_def e3_def e4_def)
  have names: "rt_name database_retention = db_name" "rt_name database_role_retention = dr_name"
    "rt_name publication_retention = pu_name" "rt_name subscription_retention = su_name"
    by (simp_all add: database_retention_def database_role_retention_def publication_retention_def subscription_retention_def)
  note db = seeded_kind [OF database_kind.named_kind_axioms, of "ds_databases state" "ds_truncated state", unfolded names, folded e1_def]
  note ro = seeded_kind [OF role_kind.named_kind_axioms, of "ds_roles state" e1, unfolded names, folded e2_def]
  note pu = seeded_kind [OF publication_kind.named_kind_axioms, of "ds_publications state" e2, unfolded names, folded e3_def]
  note su = seeded_kind [OF subscription_kind.named_kind_axioms, of "ds_subscriptions state" e3, unfolded names, folded e4_def]
  have regroup: "(a1 \<or> c1 \<longleftrightarrow> b0 \<or> d1) \<Longrightarrow> (a2 \<or> c2 \<longleftrightarrow> a1 \<or> d2) \<Longrightarrow> (a3 \<or> c3 \<longleftrightarrow> a2 \<or> d3) \<Longrightarrow> (a4 \<or> c4 \<longleftrightarrow> a3 \<or> d4) \<Longrightarrow>
      (a4 \<or> c1 \<or> c2 \<or> c3 \<or> c4 \<longleftrightarrow> b0 \<or> d1 \<or> d2 \<or> d3 \<or> d4)" for a1 a2 a3 a4 b0 c1 c2 c3 c4 d1 d2 d3 d4 by metis
  show ?thesis
    unfolding shown by (intro conjI db(1) ro(1) pu(1) su(1) regroup [OF db(2) ro(2) pu(2) su(2)])
qed

end
