(* ===== verification/ObserveBackups.thy ===== *)
theory ObserveBackups
  imports ObserveLoop
begin

text \<open>
  The catalog of backups and schedules (\<open>backups.go\<close>) and the queue of access requests
  (\<open>accessreview.go\<close>): bounded kinds that are shown by time rather than by name. A page that does not
  say it is truncated is complete. The queue is shown with the longest-waiting request first and
  bounded by dropping the oldest, so under a flood it drops what it shows first.
\<close>

section \<open>Backups and schedules\<close>

definition max_backups :: int where "max_backups = 500"
definition max_scheduled_backups :: int where "max_scheduled_backups = 200"

datatype object_store_state = ObjectStoreUnset | ObjectStoreNotReferenced | ObjectStorePresent | ObjectStoreUnknown

record backup_facts =
  bf_name :: string
  bf_uid :: string
  bf_phase :: string
  bf_method :: string
  bf_backup_id :: string
  bf_plugin_name :: string
  bf_source_instance :: string
  bf_created_at :: instant
  bf_started_at :: "instant option"
  bf_stopped_at :: "instant option"

record scheduled_backup_facts =
  sf_name :: string
  sf_uid :: string
  sf_method :: string
  sf_schedule :: string
  sf_suspended :: "bool option"
  sf_created_at :: instant
  sf_last_schedule_time :: "instant option"
  sf_next_schedule_time :: "instant option"

record recovery_window =
  rw_first_recoverability_point :: "instant option"
  rw_last_successful_backup :: "instant option"
  rw_last_failed_backup :: "instant option"

record object_store_reference =
  oj_name :: string
  oj_state :: object_store_state
  oj_destination :: string
  oj_endpoint :: string
  oj_retention_policy :: string
  oj_server_name :: string
  oj_recovery_window :: "recovery_window option"

record backup_catalog_state =
  bs_backups :: "backup_facts list"
  bs_scheduled_backups :: "scheduled_backup_facts list"
  bs_object_store :: object_store_reference
  bs_backups_truncated :: bool
  bs_schedules_truncated :: bool
  bs_backup_resource_version :: string
  bs_scheduled_resource_version :: string

record backup_change =
  bc_put_backup :: "backup_facts option"
  bc_delete_backup :: "deletion option"
  bc_put_scheduled_backup :: "scheduled_backup_facts option"
  bc_delete_scheduled_backup :: "deletion option"

record backups_snapshot = observed +
  bn_backups_truncated :: bool
  bn_schedules_truncated :: bool
  bn_backups :: "backup_facts list"
  bn_scheduled_backups :: "scheduled_backup_facts list"
  bn_object_store :: object_store_reference

definition less_backup_recency :: "backup_facts \<Rightarrow> backup_facts \<Rightarrow> bool" where
  "less_backup_recency a b =
     (if bf_created_at a \<noteq> bf_created_at b then time_after (bf_created_at a) (bf_created_at b)
      else str_less (bf_name a) (bf_name b))"

definition less_schedule_name :: "scheduled_backup_facts \<Rightarrow> scheduled_backup_facts \<Rightarrow> bool" where
  "less_schedule_name a b = str_less (sf_name a) (sf_name b)"

definition backup_retention :: "backup_facts retention" where
  "backup_retention =
     \<lparr>rt_name = bf_name, rt_uid = bf_uid, rt_limit = max_backups + 1,
      rt_evictable = (\<lambda>a b. time_before (bf_created_at a) (bf_created_at b))\<rparr>"

definition schedule_retention :: "scheduled_backup_facts retention" where
  "schedule_retention =
     \<lparr>rt_name = sf_name, rt_uid = sf_uid, rt_limit = max_scheduled_backups + 1,
      rt_evictable = (\<lambda>a b. str_less (sf_name b) (sf_name a))\<rparr>"

definition backup_store_publish :: "backup_facts list \<Rightarrow> scheduled_backup_facts list \<Rightarrow> object_store_reference \<Rightarrow> instant \<Rightarrow>
    bool \<Rightarrow> bool \<Rightarrow> backups_snapshot store \<Rightarrow> backups_snapshot store" where
  "backup_store_publish backups schedules object_store observed_at source_backups_truncated source_schedules_truncated s =
     (let (backup_copy, backups_cut) = bounded less_backup_recency max_backups backups;
          (schedule_copy, schedules_cut) = bounded less_schedule_name max_scheduled_backups schedules
      in \<lparr>so_snap = \<lparr>og_generation = og_generation (so_snap s) + 1, og_observed_at = observed_at, og_stale = False,
            bn_backups_truncated = source_backups_truncated \<or> backups_cut,
            bn_schedules_truncated = source_schedules_truncated \<or> schedules_cut,
            bn_backups = backup_copy, bn_scheduled_backups = schedule_copy, bn_object_store = object_store\<rparr>,
          so_has = True\<rparr>)"

record backup_collector =
  bl_backups :: "backup_facts keyed"
  bl_schedules :: "scheduled_backup_facts keyed"
  bl_object_store :: object_store_reference
  bl_backups_truncated :: bool
  bl_schedules_truncated :: bool
  bl_store :: "backups_snapshot store"

definition backup_seed :: "backup_catalog_state \<Rightarrow> backup_collector \<Rightarrow> backup_collector \<times> backup_catalog_state" where
  "backup_seed state c =
     (let (backups, eb) = keyed_put_all backup_retention (bs_backups state) ([], bs_backups_truncated state);
          (schedules, es) = keyed_put_all schedule_retention (bs_scheduled_backups state) ([], bs_schedules_truncated state)
      in (c\<lparr>bl_backups := backups, bl_schedules := schedules, bl_object_store := bs_object_store state,
            bl_backups_truncated := eb, bl_schedules_truncated := es\<rparr>, state))"

definition backup_apply :: "backup_change \<Rightarrow> backup_collector \<Rightarrow> backup_collector \<times> bool" where
  "backup_apply change c =
     (case bc_put_backup change of
        Some b \<Rightarrow>
          (let (k, evicted) = keyed_put backup_retention b (bl_backups c)
           in (c\<lparr>bl_backups := k, bl_backups_truncated := evicted \<or> bl_backups_truncated c\<rparr>, True))
      | None \<Rightarrow> (case bc_delete_backup change of
        Some d \<Rightarrow> (c\<lparr>bl_backups := keyed_remove backup_retention (dl_name d) (dl_uid d) (bl_backups c)\<rparr>, True)
      | None \<Rightarrow> (case bc_put_scheduled_backup change of
        Some s \<Rightarrow>
          (let (k, evicted) = keyed_put schedule_retention s (bl_schedules c)
           in (c\<lparr>bl_schedules := k, bl_schedules_truncated := evicted \<or> bl_schedules_truncated c\<rparr>, True))
      | None \<Rightarrow> (case bc_delete_scheduled_backup change of
        Some d \<Rightarrow> (c\<lparr>bl_schedules := keyed_remove schedule_retention (dl_name d) (dl_uid d) (bl_schedules c)\<rparr>, True)
      | None \<Rightarrow> (c, False)))))"

definition backup_publish :: "instant \<Rightarrow> backup_collector \<Rightarrow> backup_collector" where
  "backup_publish observed_at c =
     c\<lparr>bl_store := backup_store_publish (keyed_list (bl_backups c)) (keyed_list (bl_schedules c)) (bl_object_store c)
        observed_at (bl_backups_truncated c) (bl_schedules_truncated c) (bl_store c)\<rparr>"

definition backup_mark_stale :: "backup_collector \<Rightarrow> backup_collector" where
  "backup_mark_stale c = c\<lparr>bl_store := mark_stale (bl_store c)\<rparr>"

definition backup_feed :: "(backup_catalog_state, backup_catalog_state, backup_change, backup_collector,
    \<lparr>bn_backups_truncated :: bool, bn_schedules_truncated :: bool, bn_backups :: backup_facts list,
     bn_scheduled_backups :: scheduled_backup_facts list, bn_object_store :: object_store_reference\<rparr>) feed" where
  "backup_feed =
     \<lparr>fd_op = ''backup catalog'', fd_seed = backup_seed, fd_apply = backup_apply, fd_publish = backup_publish,
      fd_mark_stale = backup_mark_stale, fd_store = bl_store\<rparr>"

interpretation backups: feed_contract backup_feed
  by unfold_locales (simp_all add: backup_feed_def backup_seed_def backup_apply_def backup_publish_def
      backup_mark_stale_def backup_store_publish_def Let_def split_beta split: option.split)

interpretation schedule_kind: named_kind schedule_retention less_schedule_name 200
  by unfold_locales (simp_all add: schedule_retention_def less_schedule_name_def max_scheduled_backups_def)

subsection \<open>An unflagged page is complete\<close>

text \<open>What a change of the merged stream says of each of the two kinds.\<close>

definition backup_part :: "backup_change \<Rightarrow> backup_facts watch_change" where
  "backup_part ch = \<lparr>ch_put = bc_put_backup ch, ch_delete = bc_delete_backup ch\<rparr>"

definition schedule_part :: "backup_change \<Rightarrow> scheduled_backup_facts watch_change" where
  "schedule_part ch =
     (if bc_put_backup ch = None \<and> bc_delete_backup ch = None
      then \<lparr>ch_put = bc_put_scheduled_backup ch, ch_delete = bc_delete_scheduled_backup ch\<rparr>
      else \<lparr>ch_put = None, ch_delete = None\<rparr>)"

definition backup_collected :: "backup_change list \<Rightarrow> backup_collector \<Rightarrow> backup_collector" where
  "backup_collected cs c = fold (\<lambda>ch c. fst (backup_apply ch c)) cs c"

lemma backup_apply_parts:
  "(bl_backups (fst (backup_apply ch c)), bl_backups_truncated (fst (backup_apply ch c))) =
     keyed_changes backup_retention [backup_part ch] (bl_backups c, bl_backups_truncated c)"
  "(bl_schedules (fst (backup_apply ch c)), bl_schedules_truncated (fst (backup_apply ch c))) =
     keyed_changes schedule_retention [schedule_part ch] (bl_schedules c, bl_schedules_truncated c)"
  by (simp_all add: backup_apply_def backup_part_def schedule_part_def keyed_fold_def Let_def split_beta split: option.split)

lemma keyed_changes_Cons: "keyed_changes r (c # cs) ke = keyed_changes r cs (keyed_changes r [c] ke)"
  by (cases ke) (simp add: Let_def split_beta)

lemma backup_collected_parts:
  "(bl_backups (backup_collected cs c), bl_backups_truncated (backup_collected cs c)) =
     keyed_changes backup_retention (map backup_part cs) (bl_backups c, bl_backups_truncated c) \<and>
   (bl_schedules (backup_collected cs c), bl_schedules_truncated (backup_collected cs c)) =
     keyed_changes schedule_retention (map schedule_part cs) (bl_schedules c, bl_schedules_truncated c)"
proof (induction cs arbitrary: c)
  case Nil
  show ?case by (simp add: backup_collected_def)
next
  case (Cons ch cs)
  show ?case
    unfolding list.map(2) keyed_changes_Cons [of _ "backup_part ch" "map backup_part cs"]
      keyed_changes_Cons [of _ "schedule_part ch" "map schedule_part cs"]
    using Cons [of "fst (backup_apply ch c)"] by (simp add: backup_collected_def backup_apply_parts)
qed

text \<open>The set a kind would hold with no bound, after a seed and the changes of a watch.\<close>

definition live_set :: "'a retention \<Rightarrow> 'a list \<Rightarrow> 'a watch_change list \<Rightarrow> 'a keyed" where
  "live_set r xs cs = fst (keyed_changes (unlimited r) cs (keyed_put_all (unlimited r) xs ([], False)))"

lemma honest_live:
  "honest (fst (keyed_changes r cs (keyed_put_all r xs ([], e)))) (live_set r xs cs) (snd (keyed_changes r cs (keyed_put_all r xs ([], e))))"
proof -
  have "honest [] [] e" by (simp add: honest_def)
  then have "honest (fst (keyed_put_all r xs ([], e))) (fst (keyed_put_all (unlimited r) xs ([], False)))
      (snd (keyed_put_all r xs ([], e)))" by (rule honest_put_all)
  from honest_changes [OF this, of r cs "snd (keyed_put_all (unlimited r) xs ([], False))"] show ?thesis
    by (simp add: live_set_def)
qed

lemma keyed_ok_live: "keyed_ok r (live_set r xs cs)"
  using keyed_ok_changes [of "unlimited r" "keyed_put_all (unlimited r) xs ([], False)" cs]
    keyed_ok_put_all [of "unlimited r" "([], False)" xs]
  by (simp add: live_set_def)

lemma keyed_ok_collected: "keyed_ok r (fst (keyed_changes r cs (keyed_put_all r xs ([], e))))"
  by (intro keyed_ok_changes keyed_ok_put_all) simp

lemma page_of_kind:
  fixes r :: "'a retention" and lt :: "'a \<Rightarrow> 'a \<Rightarrow> bool" and cs :: "'a watch_change list" and xs :: "'a list" and e :: bool
  defines "ke \<equiv> keyed_changes r cs (keyed_put_all r xs ([], e))"
  shows "\<forall>x \<in> set (fst (bounded lt (int n) (keyed_list (fst ke)))). mget (live_set r xs cs) (rt_name r x) = Some x"
    and "\<not> (snd ke \<or> snd (bounded lt (int n) (keyed_list (fst ke)))) \<Longrightarrow>
      fst (bounded lt (int n) (keyed_list (fst ke))) = sort_by lt (keyed_list (live_set r xs cs))"
proof -
  have honest: "honest (fst ke) (live_set r xs cs) (snd ke)" unfolding ke_def by (rule honest_live)
  have ok: "keyed_ok r (fst ke)" unfolding ke_def by (rule keyed_ok_collected)
  show "\<forall>x \<in> set (fst (bounded lt (int n) (keyed_list (fst ke)))). mget (live_set r xs cs) (rt_name r x) = Some x"
  proof
    fix x assume "x \<in> set (fst (bounded lt (int n) (keyed_list (fst ke))))"
    then have "x \<in> set (keyed_list (fst ke))" unfolding fst_bounded by (metis in_set_takeD set_sort_by)
    then have "mget (fst ke) (rt_name r x) = Some x" using set_keyed_list [OF ok] by blast
    then show "mget (live_set r xs cs) (rt_name r x) = Some x" using honest unfolding honest_def by blast
  qed
  assume "\<not> (snd ke \<or> snd (bounded lt (int n) (keyed_list (fst ke))))"
  then show "fst (bounded lt (int n) (keyed_list (fst ke))) = sort_by lt (keyed_list (live_set r xs cs))"
    using honest unfolding honest_def by (metis bounded_uncut)
qed

text \<open>What the API server has last said of each name, read off the listing and the changes alone: the last listed
under the name, replaced by each later report of it, and gone once the object of that identifier is deleted.\<close>

definition listed_last :: "('a \<Rightarrow> string) \<Rightarrow> 'a list \<Rightarrow> string \<Rightarrow> 'a option" where
  "listed_last name xs n = List.find (\<lambda>x. name x = n) (rev xs)"

definition after_change :: "('a \<Rightarrow> string) \<Rightarrow> ('a \<Rightarrow> string) \<Rightarrow> 'a watch_change \<Rightarrow> (string \<rightharpoonup> 'a) \<Rightarrow> (string \<rightharpoonup> 'a)" where
  "after_change name uid c m =
     (case ch_put c of
        Some x \<Rightarrow> m(name x \<mapsto> x)
      | None \<Rightarrow>
          (case ch_delete c of
             None \<Rightarrow> m
           | Some d \<Rightarrow> (\<lambda>n. if n = dl_name d \<and> map_option uid (m n) = Some (dl_uid d) then None else m n)))"

definition last_word :: "('a \<Rightarrow> string) \<Rightarrow> ('a \<Rightarrow> string) \<Rightarrow> 'a list \<Rightarrow> 'a watch_change list \<Rightarrow> (string \<rightharpoonup> 'a)" where
  "last_word name uid xs cs = fold (after_change name uid) cs (listed_last name xs)"

lemma live_changes:
  "mget (fst (keyed_changes (unlimited r) cs ke)) = fold (after_change (rt_name r) (rt_uid r)) cs (mget (fst ke))"
proof (induction cs arbitrary: ke)
  case (Cons c cs)
  obtain k e where ke: "ke = (k, e)" by (cases ke)
  have "mget (fst (fst (keyed_fold (unlimited r) c k))) = after_change (rt_name r) (rt_uid r) c (mget k)"
    by (auto simp: keyed_fold_def after_change_def unlimited_put unlimited_remove mget_keyed_remove fun_eq_iff split: option.splits)
  then show ?case unfolding ke using Cons.IH by (simp add: Let_def split_beta)
qed simp

lemma find_of_append: "List.find P (xs @ ys) = (case List.find P xs of None \<Rightarrow> List.find P ys | Some x \<Rightarrow> Some x)"
  by (induction xs) auto

lemma live_listed: "mget (fst (keyed_put_all (unlimited r) xs ([], e))) = listed_last (rt_name r) xs"
proof -
  have "mget (fst (keyed_put_all (unlimited r) xs (k, e))) n = (case List.find (\<lambda>x. rt_name r x = n) (rev xs) of None \<Rightarrow> mget k n | Some x \<Rightarrow> Some x)"
    for k n
    by (induction xs arbitrary: k e) (auto simp: unlimited_put find_of_append split: option.split)
  then show ?thesis by (simp add: fun_eq_iff listed_last_def split: option.split)
qed

lemma live_last_word: "mget (live_set r xs cs) = last_word (rt_name r) (rt_uid r) xs cs"
  by (simp add: live_set_def last_word_def live_changes live_listed)

lemma live_ran: "set (keyed_list (live_set r xs cs)) = ran (last_word (rt_name r) (rt_uid r) xs cs)"
proof -
  have ok: "keyed_ok r (live_set r xs cs)" by (rule keyed_ok_live)
  have "x \<in> set (keyed_list (live_set r xs cs)) \<longleftrightarrow> (\<exists>n. mget (live_set r xs cs) n = Some x)" for x
    using set_keyed_list [OF ok, of x] keyed_ok_get [OF ok, of _ x] by metis
  then show ?thesis unfolding live_last_word by (auto simp: ran_def)
qed

text \<open>A truncation once recorded stays recorded until the next seed.\<close>

lemma changes_flag: "snd (keyed_changes r cs (k, True))"
  by (induction cs arbitrary: k) (simp_all add: Let_def split_beta)

lemma source_flag: "e \<Longrightarrow> snd (keyed_changes r cs (keyed_put_all r xs ([], e)))"
  using changes_flag [of r cs "fst (keyed_put_all r xs ([], False))"] by (subst put_all_flag) simp

lemma backups_page_complete:
  fixes state :: backup_catalog_state and c :: backup_collector and cs :: "backup_change list" and at :: instant
  defines "sn \<equiv> so_snap (bl_store (backup_publish at (backup_collected cs (fst (backup_seed state c)))))"
    and "backups \<equiv> live_set backup_retention (bs_backups state) (map backup_part cs)"
    and "schedules \<equiv> live_set schedule_retention (bs_scheduled_backups state) (map schedule_part cs)"
  shows "(\<forall>b \<in> set (bn_backups sn). mget backups (bf_name b) = Some b) \<and>
    (\<forall>s \<in> set (bn_scheduled_backups sn). mget schedules (sf_name s) = Some s) \<and>
    (\<not> bn_backups_truncated sn \<longrightarrow> bn_backups sn = sort_by less_backup_recency (keyed_list backups)) \<and>
    (\<not> bn_schedules_truncated sn \<longrightarrow> bn_scheduled_backups sn = sort_by less_schedule_name (keyed_list schedules)) \<and>
    (bs_backups_truncated state \<longrightarrow> bn_backups_truncated sn) \<and> (bs_schedules_truncated state \<longrightarrow> bn_schedules_truncated sn)"
proof -
  let ?b = "keyed_changes backup_retention (map backup_part cs) (keyed_put_all backup_retention (bs_backups state) ([], bs_backups_truncated state))"
  let ?s = "keyed_changes schedule_retention (map schedule_part cs) (keyed_put_all schedule_retention (bs_scheduled_backups state) ([], bs_schedules_truncated state))"
  let ?c = "backup_collected cs (fst (backup_seed state c))"
  have parts: "bl_backups ?c = fst ?b" "bl_backups_truncated ?c = snd ?b" "bl_schedules ?c = fst ?s" "bl_schedules_truncated ?c = snd ?s"
    using backup_collected_parts [of cs "fst (backup_seed state c)"]
    by (simp_all add: backup_seed_def split_beta prod_eq_iff)
  have shown: "bn_backups sn = fst (bounded less_backup_recency (int 500) (keyed_list (fst ?b)))"
    "bn_scheduled_backups sn = fst (bounded less_schedule_name (int 200) (keyed_list (fst ?s)))"
    "bn_backups_truncated sn \<longleftrightarrow> snd ?b \<or> snd (bounded less_backup_recency (int 500) (keyed_list (fst ?b)))"
    "bn_schedules_truncated sn \<longleftrightarrow> snd ?s \<or> snd (bounded less_schedule_name (int 200) (keyed_list (fst ?s)))"
    unfolding sn_def by (simp_all add: backup_publish_def backup_store_publish_def split_beta parts max_backups_def max_scheduled_backups_def)
  have names: "rt_name backup_retention = bf_name" "rt_name schedule_retention = sf_name"
    by (simp_all add: backup_retention_def schedule_retention_def)
  note b = page_of_kind [where lt = less_backup_recency and n = 500 and r = backup_retention and cs = "map backup_part cs"
      and xs = "bs_backups state" and e = "bs_backups_truncated state",
      unfolded names]
  note s = page_of_kind [where lt = less_schedule_name and n = 200 and r = schedule_retention and cs = "map schedule_part cs"
      and xs = "bs_scheduled_backups state" and e = "bs_schedules_truncated state", unfolded names]
  show ?thesis
    unfolding shown backups_def schedules_def using b s by (intro conjI impI disjI1 source_flag)
qed

interpretation recency: strict_weak_order less_backup_recency
  by unfold_locales (auto simp: less_backup_recency_def time_after_def str_less_def split: if_splits)

interpretation schedule_names: strict_weak_order less_schedule_name
  by unfold_locales (auto simp: less_schedule_name_def str_less_def)

text \<open>C17. A page of backups that does not say it is truncated is complete, and nothing it shows is gone.
After any seed and any changes of the two merged watches, every backup and every schedule shown is
the last one reported under its name and not deleted since; if the backups are not flagged then
all of them are shown, newest first, and if the schedules are not flagged all of those, by name.
What the source itself cut stays flagged.\<close>

theorem unflagged_backups_are_complete:
  fixes state :: backup_catalog_state and c :: backup_collector and cs :: "backup_change list" and at :: instant
  defines "sn \<equiv> so_snap (bl_store (backup_publish at (backup_collected cs (fst (backup_seed state c)))))"
    and "backups \<equiv> last_word bf_name bf_uid (bs_backups state) (map backup_part cs)"
    and "schedules \<equiv> last_word sf_name sf_uid (bs_scheduled_backups state) (map schedule_part cs)"
  shows "(\<forall>b \<in> set (bn_backups sn). backups (bf_name b) = Some b) \<and>
    (\<forall>s \<in> set (bn_scheduled_backups sn). schedules (sf_name s) = Some s) \<and>
    (\<not> bn_backups_truncated sn \<longrightarrow> set (bn_backups sn) = ran backups \<and> distinct (bn_backups sn) \<and>
      sorted_wrt (\<lambda>a b. \<not> less_backup_recency b a) (bn_backups sn)) \<and>
    (\<not> bn_schedules_truncated sn \<longrightarrow> set (bn_scheduled_backups sn) = ran schedules \<and> distinct (bn_scheduled_backups sn) \<and>
      sorted_wrt (\<lambda>a b. \<not> less_schedule_name b a) (bn_scheduled_backups sn)) \<and>
    (bs_backups_truncated state \<longrightarrow> bn_backups_truncated sn) \<and> (bs_schedules_truncated state \<longrightarrow> bn_schedules_truncated sn)"
proof -
  let ?b = "live_set backup_retention (bs_backups state) (map backup_part cs)"
  let ?s = "live_set schedule_retention (bs_scheduled_backups state) (map schedule_part cs)"
  have names: "rt_name backup_retention = bf_name" "rt_uid backup_retention = bf_uid"
    "rt_name schedule_retention = sf_name" "rt_uid schedule_retention = sf_uid"
    by (simp_all add: backup_retention_def schedule_retention_def)
  have words: "mget ?b = backups" "mget ?s = schedules" "set (keyed_list ?b) = ran backups" "set (keyed_list ?s) = ran schedules"
    unfolding backups_def schedules_def live_last_word live_ran names by (rule refl)+
  have "distinct (keyed_list ?b)" "distinct (keyed_list ?s)" 
    using distinct_keyed_list [OF keyed_ok_live] by (auto simp: distinct_map)
  then have sorted: "distinct (sort_by less_backup_recency (keyed_list ?b))" "distinct (sort_by less_schedule_name (keyed_list ?s))"
    by simp_all
  note page = backups_page_complete [of at cs state c, folded sn_def, unfolded words(1,2)]
  have "set (bn_backups sn) = ran backups \<and> distinct (bn_backups sn) \<and> sorted_wrt (\<lambda>a b. \<not> less_backup_recency b a) (bn_backups sn)"
    if "\<not> bn_backups_truncated sn"
  proof -
    have shown: "bn_backups sn = sort_by less_backup_recency (keyed_list ?b)" using page that by blast
    show ?thesis unfolding shown set_sort_by using words(3) sorted(1) recency.sorted_sort_by by blast
  qed
  moreover have "set (bn_scheduled_backups sn) = ran schedules \<and> distinct (bn_scheduled_backups sn) \<and>
      sorted_wrt (\<lambda>a b. \<not> less_schedule_name b a) (bn_scheduled_backups sn)" if "\<not> bn_schedules_truncated sn"
  proof -
    have shown: "bn_scheduled_backups sn = sort_by less_schedule_name (keyed_list ?s)" using page that by blast
    show ?thesis unfolding shown set_sort_by using words(4) sorted(2) schedule_names.sorted_sort_by by blast
  qed
  ultimately show ?thesis using page by blast
qed

definition no_object_store :: object_store_reference where
  "no_object_store =
     \<lparr>oj_name = '''', oj_state = ObjectStoreUnset, oj_destination = '''', oj_endpoint = '''', oj_retention_policy = '''',
      oj_server_name = '''', oj_recovery_window = None\<rparr>"

definition new_backup_collector :: backup_collector where
  "new_backup_collector =
     \<lparr>bl_backups = [], bl_schedules = [], bl_object_store = no_object_store, bl_backups_truncated = False,
      bl_schedules_truncated = False,
      bl_store = \<lparr>so_snap = \<lparr>og_generation = 0, og_observed_at = zero_time, og_stale = False, bn_backups_truncated = False,
        bn_schedules_truncated = False, bn_backups = [], bn_scheduled_backups = [], bn_object_store = no_object_store\<rparr>,
        so_has = False\<rparr>\<rparr>"

definition one_backup :: backup_facts where
  "one_backup =
     \<lparr>bf_name = ''b1'', bf_uid = ''u1'', bf_phase = ''completed'', bf_method = ''plugin'', bf_backup_id = ''x'',
      bf_plugin_name = '''', bf_source_instance = ''pg-2'', bf_created_at = 7, bf_started_at = None, bf_stopped_at = None\<rparr>"

definition one_backup_state :: backup_catalog_state where
  "one_backup_state =
     \<lparr>bs_backups = [one_backup], bs_scheduled_backups = [], bs_object_store = no_object_store, bs_backups_truncated = False,
      bs_schedules_truncated = False, bs_backup_resource_version = ''1'', bs_scheduled_resource_version = ''2''\<rparr>"

theorem unflagged_backups_are_complete_witness:
  "bn_backups (so_snap (bl_store (backup_publish 9 (backup_collected [] (fst (backup_seed one_backup_state new_backup_collector))))))
     = [one_backup]"
proof -
  let ?sn = "so_snap (bl_store (backup_publish 9 (backup_collected [] (fst (backup_seed one_backup_state new_backup_collector)))))"
  have "\<not> bn_backups_truncated ?sn"
    by (simp add: backup_collected_def backup_seed_def one_backup_state_def keyed_put_def backup_retention_def Let_def
        backup_publish_def backup_store_publish_def bounded_def max_backups_def sort_by_def keyed_list_def mput_def split_beta)
  with unflagged_backups_are_complete [of 9 "[]" one_backup_state new_backup_collector]
  have "set (bn_backups ?sn) = ran (last_word bf_name bf_uid [one_backup] [])" "distinct (bn_backups ?sn)"
    by (simp_all add: one_backup_state_def)
  moreover have "ran (last_word bf_name bf_uid [one_backup] []) = {one_backup}"
    by (auto simp: last_word_def listed_last_def ran_def split: if_splits)
  ultimately have one: "set (bn_backups ?sn) = {one_backup}" "distinct (bn_backups ?sn)" by simp_all
  then have "length (bn_backups ?sn) = 1" using distinct_card by fastforce
  with one(1) show ?thesis by (cases "bn_backups ?sn") auto
qed

section \<open>Access requests\<close>

definition max_access_requests :: int where "max_access_requests = 500"

datatype access_request_state = AccessRequestPending | AccessRequestApproved | AccessRequestDenied | AccessRequestUnknown

record access_request_facts =
  ar_name :: string
  ar_uid :: string
  ar_subject :: string
  ar_message :: string
  ar_state :: access_request_state
  ar_created_at :: instant
  ar_requested_level :: string
  ar_decided_by :: string
  ar_decided_at :: "instant option"

definition request_pending :: "access_request_facts \<Rightarrow> bool" where
  "request_pending f \<longleftrightarrow> ar_state f = AccessRequestPending"

record access_review_state =
  as_requests :: "access_request_facts list"
  as_requests_truncated :: bool
  as_requests_resource_version :: string

type_synonym access_request_change = "access_request_facts watch_change"

record access_review_snapshot = observed +
  an_requests_truncated :: bool
  an_requests :: "access_request_facts list"

definition decided_order :: "access_request_facts \<Rightarrow> instant" where
  "decided_order f = (case ar_decided_at f of Some t \<Rightarrow> t | None \<Rightarrow> ar_created_at f)"

definition less_access_request :: "access_request_facts \<Rightarrow> access_request_facts \<Rightarrow> bool" where
  "less_access_request a b =
     (if request_pending a \<noteq> request_pending b then request_pending a
      else if request_pending a then
        (if ar_created_at a \<noteq> ar_created_at b then time_before (ar_created_at a) (ar_created_at b)
         else str_less (ar_name a) (ar_name b))
      else if decided_order a \<noteq> decided_order b then time_after (decided_order a) (decided_order b)
      else str_less (ar_name a) (ar_name b))"

definition access_request_retention :: "access_request_facts retention" where
  "access_request_retention =
     \<lparr>rt_name = ar_name, rt_uid = ar_uid, rt_limit = max_access_requests + 1,
      rt_evictable = (\<lambda>a b. time_before (ar_created_at a) (ar_created_at b))\<rparr>"

definition access_review_store_publish :: "access_request_facts list \<Rightarrow> instant \<Rightarrow> bool \<Rightarrow> access_review_snapshot store \<Rightarrow>
    access_review_snapshot store" where
  "access_review_store_publish requests observed_at source_truncated s =
     (let (request_copy, cut) = bounded less_access_request max_access_requests requests
      in \<lparr>so_snap = \<lparr>og_generation = og_generation (so_snap s) + 1, og_observed_at = observed_at, og_stale = False,
            an_requests_truncated = source_truncated \<or> cut, an_requests = request_copy\<rparr>,
          so_has = True\<rparr>)"

record access_review_collector =
  al_requests :: "access_request_facts keyed"
  al_truncated :: bool
  al_store :: "access_review_snapshot store"

definition access_review_seed :: "access_review_state \<Rightarrow> access_review_collector \<Rightarrow>
    access_review_collector \<times> access_review_state" where
  "access_review_seed state c =
     (let (k, e) = keyed_put_all access_request_retention (as_requests state) ([], as_requests_truncated state)
      in (c\<lparr>al_requests := k, al_truncated := e\<rparr>, state))"

definition access_review_apply :: "access_request_change \<Rightarrow> access_review_collector \<Rightarrow> access_review_collector \<times> bool" where
  "access_review_apply change c =
     (case ch_put change of
        Some request \<Rightarrow>
          (let (k, evicted) = keyed_put access_request_retention request (al_requests c)
           in (c\<lparr>al_requests := k, al_truncated := evicted \<or> al_truncated c\<rparr>, True))
      | None \<Rightarrow>
          (case ch_delete change of
             Some d \<Rightarrow> (c\<lparr>al_requests := keyed_remove access_request_retention (dl_name d) (dl_uid d) (al_requests c)\<rparr>, True)
           | None \<Rightarrow> (c, False)))"

definition access_review_publish :: "instant \<Rightarrow> access_review_collector \<Rightarrow> access_review_collector" where
  "access_review_publish observed_at c =
     c\<lparr>al_store := access_review_store_publish (keyed_list (al_requests c)) observed_at (al_truncated c) (al_store c)\<rparr>"

definition access_review_mark_stale :: "access_review_collector \<Rightarrow> access_review_collector" where
  "access_review_mark_stale c = c\<lparr>al_store := mark_stale (al_store c)\<rparr>"

definition access_review_feed :: "(access_review_state, access_review_state, access_request_change, access_review_collector,
    \<lparr>an_requests_truncated :: bool, an_requests :: access_request_facts list\<rparr>) feed" where
  "access_review_feed =
     \<lparr>fd_op = ''access review'', fd_seed = access_review_seed, fd_apply = access_review_apply,
      fd_publish = access_review_publish, fd_mark_stale = access_review_mark_stale, fd_store = al_store\<rparr>"

interpretation access_review: feed_contract access_review_feed
  by unfold_locales (simp_all add: access_review_feed_def access_review_seed_def access_review_apply_def
      access_review_publish_def access_review_mark_stale_def access_review_store_publish_def Let_def split_beta
      split: option.split)

text \<open>C20. Under a flood the queue drops the request that was created first, whatever its state.
When the collector retains its bound of 501 requests and one of them was created strictly before all the
others, decided ones included, the next request under a new name makes the collector forget exactly
that one, keep every other and flag the page. If the request forgotten is still pending it is the one
the page shows first, since it has waited longest; a pending request that is not the first created is
kept.\<close>

theorem oldest_request_is_dropped:
  fixes c :: access_review_collector and x new :: access_request_facts
  assumes ok: "keyed_ok access_request_retention (al_requests c)" and size: "length (al_requests c) = 501"
    and x: "mget (al_requests c) (ar_name x) = Some x"
    and oldest: "\<And>y. y \<in> set (keyed_list (al_requests c)) \<Longrightarrow> y \<noteq> x \<Longrightarrow> ar_created_at x < ar_created_at y"
    and new: "mget (al_requests c) (ar_name new) = None"
  defines "c' \<equiv> fst (access_review_apply \<lparr>ch_put = Some new, ch_delete = None\<rparr> c)"
  shows "set (keyed_list (al_requests c')) = set (keyed_list (al_requests c)) - {x} \<union> {new} \<and>
    mget (al_requests c') (ar_name x) = None \<and> al_truncated c' \<and>
    (request_pending x \<longrightarrow> (\<forall>y \<in> set (keyed_list (al_requests c)) - {x}. less_access_request x y))"
proof -
  have order: "strict_weak_order (rt_evictable access_request_retention)"
    by unfold_locales (auto simp: access_request_retention_def time_before_def)
  have ne: "al_requests c \<noteq> []" using size by auto
  obtain z where z: "mget (al_requests c) (keyed_evictee access_request_retention (al_requests c)) = Some z"
      "\<forall>y \<in> set (keyed_list (al_requests c)). \<not> rt_evictable access_request_retention y z"
    using strict_weak_order.evictee_loses_first [OF order refl ok ne] by blast
  have listed: "y \<in> set (keyed_list (al_requests c)) \<longleftrightarrow> mget (al_requests c) (ar_name y) = Some y" for y
    using set_keyed_list [OF ok, of y] by (simp add: access_request_retention_def)
  have xin: "x \<in> set (keyed_list (al_requests c))" using x listed by blast
  have zname: "ar_name z = keyed_evictee access_request_retention (al_requests c)"
    using keyed_ok_get [OF ok z(1)] by (simp add: access_request_retention_def)
  then have zin: "z \<in> set (keyed_list (al_requests c))" using z(1) listed by simp
  have "z = x" using z(2) xin oldest [OF zin] by (force simp: access_request_retention_def time_before_def)
  with zname have "keyed_evictee access_request_retention (al_requests c) = ar_name x" by simp
  then have put: "keyed_put access_request_retention new (al_requests c) = (mput (ar_name new) new (mdel (ar_name x) (al_requests c)), True)"
    using new size by (simp add: keyed_put_def access_request_retention_def max_access_requests_def)
  then have c': "al_requests c' = mput (ar_name new) new (mdel (ar_name x) (al_requests c))" "al_truncated c'"
    by (simp_all add: c'_def access_review_apply_def)
  have "keyed_ok access_request_retention (al_requests c')"
    using keyed_ok_put [OF ok, of new] by (simp add: put c'(1))
  from set_keyed_list [OF this] have after: "y \<in> set (keyed_list (al_requests c')) \<longleftrightarrow> mget (al_requests c') (ar_name y) = Some y" for y
    by (simp add: access_request_retention_def)
  have "y \<in> set (keyed_list (al_requests c')) \<longleftrightarrow> y \<in> set (keyed_list (al_requests c)) - {x} \<union> {new}" for y
    unfolding after using new x by (auto simp: listed c'(1))
  moreover have "mget (al_requests c') (ar_name x) = None" using new x by (auto simp: c'(1))
  moreover have "less_access_request x y" if "request_pending x" "y \<in> set (keyed_list (al_requests c)) - {x}" for y
    using oldest [of y] that by (auto simp: less_access_request_def time_before_def)
  ultimately show ?thesis using c'(2) by blast
qed

definition nth_request :: "nat \<Rightarrow> access_request_facts" where
  "nth_request i =
     \<lparr>ar_name = itoa (int i), ar_uid = ''u'', ar_subject = ''s'', ar_message = '''', ar_state = AccessRequestPending,
      ar_created_at = int i, ar_requested_level = '''', ar_decided_by = '''', ar_decided_at = None\<rparr>"

definition flooded_queue :: access_review_collector where
  "flooded_queue =
     \<lparr>al_requests = map (\<lambda>i. (itoa (int i), nth_request i)) [0..<501], al_truncated = False,
      al_store = \<lparr>so_snap = \<lparr>og_generation = 0, og_observed_at = zero_time, og_stale = False,
        an_requests_truncated = False, an_requests = []\<rparr>, so_has = False\<rparr>\<rparr>"

theorem oldest_request_is_dropped_witness:
  "mget (al_requests (fst (access_review_apply \<lparr>ch_put = Some (nth_request 501), ch_delete = None\<rparr> flooded_queue)))
     (ar_name (nth_request 0)) = None"
proof -
  have "map fst (al_requests flooded_queue) = map (\<lambda>i. itoa (int i)) [0..<501]" by (simp add: flooded_queue_def)
  moreover have "inj_on (\<lambda>i. itoa (int i)) A" for A by (rule inj_onI) (auto dest: itoa_inject)
  ultimately have ok: "keyed_ok access_request_retention (al_requests flooded_queue)"
    unfolding keyed_ok_def map_ok_def
    by (auto simp: comp_def distinct_map flooded_queue_def access_request_retention_def nth_request_def)
  have listed: "y \<in> set (keyed_list (al_requests flooded_queue)) \<longleftrightarrow> (\<exists>i<501. y = nth_request i)" for y
    by (auto simp: keyed_list_def flooded_queue_def)
  have found: "mget (al_requests flooded_queue) (ar_name (nth_request 0)) = Some (nth_request 0)"
  proof -
    have "nth_request 0 \<in> set (keyed_list (al_requests flooded_queue))" unfolding listed by (rule exI [of _ 0]) simp
    then show ?thesis using set_keyed_list [OF ok, of "nth_request 0"] by (simp add: access_request_retention_def)
  qed
  have absent: "mget (al_requests flooded_queue) (ar_name (nth_request 501)) = None"
    by (auto simp: mget_None_iff mkeys_def flooded_queue_def nth_request_def dest: itoa_inject)
  have size: "length (al_requests flooded_queue) = 501" by (simp add: flooded_queue_def)
  have older: "ar_created_at (nth_request 0) < ar_created_at y"
    if "y \<in> set (keyed_list (al_requests flooded_queue))" "y \<noteq> nth_request 0" for y
  proof -
    from that(1) obtain i where y: "y = nth_request i" unfolding listed by (elim exE conjE)
    with that(2) have "i \<noteq> 0" by (intro notI) simp
    then show ?thesis by (simp add: y nth_request_def)
  qed
  from oldest_request_is_dropped [OF ok size found older absent] show ?thesis by blast
qed

end
