(* ===== verification/ObserveInfra.thy ===== *)
theory ObserveInfra
  imports ObserveLoop
begin

text \<open>
  The infrastructure of the cluster (\<open>infrastructure.go\<close>): services, volumes, snapshots and the other
  objects the cluster owns, kept as lists rather than keyed sets, upserted and removed by name, and
  bounded at publication; the owned objects share a list and are bounded kind by kind.
\<close>

definition max_infrastructure_objects :: int where "max_infrastructure_objects = 50"

record service_facts =
  vf_name :: string
  vf_uid :: string
  vf_role :: string
  vf_type :: string
  vf_cluster_ip :: string
  vf_headless :: bool
  vf_port :: "int option"
  vf_target_selector :: "string list"

record volume_facts =
  vo_name :: string
  vo_uid :: string
  vo_instance :: string
  vo_role :: string
  vo_phase :: string
  vo_capacity :: string
  vo_storage_class :: string
  vo_volume_name :: string

record snapshot_facts =
  sp_name :: string
  sp_uid :: string
  sp_source_claim :: string
  sp_ready :: "bool option"
  sp_restore_size :: string
  sp_created_at :: "instant option"

record child_facts =
  ch_kind :: string
  ch_name :: string
  ch_uid :: string
  ch_created_at :: "instant option"
  ch_secret_type :: string
  ch_keys :: "int option"
  ch_min_available :: string
  ch_max_unavailable :: string
  ch_disruptions_allowed :: "int option"
  ch_rules :: "int option"
  ch_subjects :: "int option"
  ch_role_ref :: string
  ch_active :: "int option"
  ch_succeeded :: "int option"
  ch_failed :: "int option"
  ch_bootstrap_image :: string

record infrastructure_state =
  in_services :: "service_facts list"
  in_volumes :: "volume_facts list"
  in_snapshots :: "snapshot_facts list"
  in_children :: "child_facts list"
  in_snapshots_observable :: bool
  in_children_unobserved :: "string list"
  in_truncated :: bool
  in_service_resource_version :: string
  in_volume_resource_version :: string
  in_snapshot_resource_version :: string
  in_child_resource_versions :: "(string, string) gomap"

record infrastructure_deletion =
  id_kind :: string
  id_name :: string
  id_uid :: string

record infrastructure_change =
  ig_service :: "service_facts option"
  ig_volume :: "volume_facts option"
  ig_snapshot :: "snapshot_facts option"
  ig_child :: "child_facts option"
  ig_deleted :: "infrastructure_deletion option"

record infrastructure_snapshot = observed +
  fn_services :: "service_facts list"
  fn_volumes :: "volume_facts list"
  fn_snapshots :: "snapshot_facts list"
  fn_children :: "child_facts list"
  fn_snapshots_observable :: bool
  fn_children_unobserved :: "string list"
  fn_truncated :: bool

definition less_child :: "child_facts \<Rightarrow> child_facts \<Rightarrow> bool" where
  "less_child a b =
     (if ch_kind a \<noteq> ch_kind b then str_less (ch_kind a) (ch_kind b) else str_less (ch_name a) (ch_name b))"

text \<open>The loop of \<open>boundedChildren\<close> over the sorted list: the kind before, how many of it are kept.\<close>

fun children_from :: "string option \<Rightarrow> int \<Rightarrow> child_facts list \<Rightarrow> child_facts list \<times> bool" where
  "children_from before per_kind [] = ([], False)"
| "children_from before per_kind (c # cs) =
     (let n = (case before of Some kind \<Rightarrow> if kind \<noteq> ch_kind c then 0 else per_kind | None \<Rightarrow> per_kind)
      in if n \<ge> max_infrastructure_objects
         then (fst (children_from (Some (ch_kind c)) n cs), True)
         else (let (out, cut) = children_from (Some (ch_kind c)) (n + 1) cs in (c # out, cut)))"

definition bounded_children :: "child_facts list \<Rightarrow> child_facts list \<times> bool" where
  "bounded_children children =
     children_from None 0 (fst (bounded less_child (int (length children)) children))"

definition infrastructure_store_publish :: "infrastructure_state \<Rightarrow> instant \<Rightarrow> infrastructure_snapshot store \<Rightarrow>
    infrastructure_snapshot store" where
  "infrastructure_store_publish state observed_at s =
     (let (services, cut_services) =
            bounded (\<lambda>a b. str_less (vf_name a) (vf_name b)) max_infrastructure_objects (in_services state);
          (volumes, cut_volumes) =
            bounded (\<lambda>a b. str_less (vo_name a) (vo_name b)) max_infrastructure_objects (in_volumes state);
          (snapshots, cut_snapshots) =
            bounded (\<lambda>a b. str_less (sp_name a) (sp_name b)) max_infrastructure_objects (in_snapshots state);
          (children, cut_children) = bounded_children (in_children state)
      in \<lparr>so_snap = \<lparr>og_generation = og_generation (so_snap s) + 1, og_observed_at = observed_at, og_stale = False,
            fn_services = services, fn_volumes = volumes, fn_snapshots = snapshots, fn_children = children,
            fn_snapshots_observable = in_snapshots_observable state, fn_children_unobserved = in_children_unobserved state,
            fn_truncated = in_truncated state \<or> cut_services \<or> cut_volumes \<or> cut_snapshots \<or> cut_children\<rparr>,
          so_has = True\<rparr>)"

fun upsert_named :: "('a \<Rightarrow> string) \<Rightarrow> 'a \<Rightarrow> 'a list \<Rightarrow> 'a list" where
  "upsert_named name item [] = [item]"
| "upsert_named name item (x # xs) = (if name x = name item then item # xs else x # upsert_named name item xs)"

fun remove_named :: "('a \<Rightarrow> string \<times> string) \<Rightarrow> infrastructure_deletion \<Rightarrow> 'a list \<Rightarrow> 'a list" where
  "remove_named ident gone [] = []"
| "remove_named ident gone (x # xs) =
     (let (name, uid) = ident x
      in if name = id_name gone \<and> (id_uid gone = '''' \<or> uid = id_uid gone) then xs else x # remove_named ident gone xs)"

fun remove_child :: "infrastructure_deletion \<Rightarrow> child_facts list \<Rightarrow> child_facts list" where
  "remove_child gone [] = []"
| "remove_child gone (x # xs) =
     (if ch_kind x = id_kind gone \<and> ch_name x = id_name gone \<and> (id_uid gone = '''' \<or> ch_uid x = id_uid gone)
      then xs else x # remove_child gone xs)"

record infrastructure_collector =
  ik_state :: infrastructure_state
  ik_store :: "infrastructure_snapshot store"

definition infrastructure_seed :: "infrastructure_state \<Rightarrow> infrastructure_collector \<Rightarrow>
    infrastructure_collector \<times> infrastructure_state" where
  "infrastructure_seed state c = (c\<lparr>ik_state := state\<rparr>, state)"

definition infrastructure_fold :: "infrastructure_change \<Rightarrow> infrastructure_state \<Rightarrow> infrastructure_state \<times> bool" where
  "infrastructure_fold change st =
     (case ig_service change of
        Some s \<Rightarrow> (st\<lparr>in_services := upsert_named vf_name s (in_services st)\<rparr>, True)
      | None \<Rightarrow> (case ig_volume change of
        Some v \<Rightarrow> (st\<lparr>in_volumes := upsert_named vo_name v (in_volumes st)\<rparr>, True)
      | None \<Rightarrow> (case ig_snapshot change of
        Some s \<Rightarrow> (st\<lparr>in_snapshots := upsert_named sp_name s (in_snapshots st)\<rparr>, True)
      | None \<Rightarrow> (case ig_child change of
        Some f \<Rightarrow> (st\<lparr>in_children := upsert_named (\<lambda>f. ch_kind f @ ''/'' @ ch_name f) f (in_children st)\<rparr>, True)
      | None \<Rightarrow> (case ig_deleted change of
        Some gone \<Rightarrow>
          (if id_kind gone = ''Service''
           then st\<lparr>in_services := remove_named (\<lambda>s. (vf_name s, vf_uid s)) gone (in_services st)\<rparr>
           else if id_kind gone = ''PersistentVolumeClaim''
           then st\<lparr>in_volumes := remove_named (\<lambda>v. (vo_name v, vo_uid v)) gone (in_volumes st)\<rparr>
           else if id_kind gone = ''VolumeSnapshot''
           then st\<lparr>in_snapshots := remove_named (\<lambda>s. (sp_name s, sp_uid s)) gone (in_snapshots st)\<rparr>
           else st\<lparr>in_children := remove_child gone (in_children st)\<rparr>, True)
      | None \<Rightarrow> (st, False))))))"

definition infrastructure_apply :: "infrastructure_change \<Rightarrow> infrastructure_collector \<Rightarrow> infrastructure_collector \<times> bool" where
  "infrastructure_apply change c =
     (let (st, known) = infrastructure_fold change (ik_state c) in (c\<lparr>ik_state := st\<rparr>, known))"

definition infrastructure_publish :: "instant \<Rightarrow> infrastructure_collector \<Rightarrow> infrastructure_collector" where
  "infrastructure_publish observed_at c = c\<lparr>ik_store := infrastructure_store_publish (ik_state c) observed_at (ik_store c)\<rparr>"

definition infrastructure_mark_stale :: "infrastructure_collector \<Rightarrow> infrastructure_collector" where
  "infrastructure_mark_stale c = c\<lparr>ik_store := mark_stale (ik_store c)\<rparr>"

definition infrastructure_feed :: "(infrastructure_state, infrastructure_state, infrastructure_change,
    infrastructure_collector, \<lparr>fn_services :: service_facts list, fn_volumes :: volume_facts list,
      fn_snapshots :: snapshot_facts list, fn_children :: child_facts list, fn_snapshots_observable :: bool,
      fn_children_unobserved :: string list, fn_truncated :: bool\<rparr>) feed" where
  "infrastructure_feed =
     \<lparr>fd_op = ''infrastructure'', fd_seed = infrastructure_seed, fd_apply = infrastructure_apply,
      fd_publish = infrastructure_publish, fd_mark_stale = infrastructure_mark_stale, fd_store = ik_store\<rparr>"

interpretation infrastructure: feed_contract infrastructure_feed
  by unfold_locales (simp_all add: infrastructure_feed_def infrastructure_seed_def infrastructure_apply_def
      infrastructure_publish_def infrastructure_mark_stale_def infrastructure_store_publish_def Let_def split_beta)

section \<open>Each kind has its own bound\<close>

definition of_kind :: "string \<Rightarrow> child_facts list \<Rightarrow> child_facts list" where
  "of_kind kind = filter (\<lambda>c. ch_kind c = kind)"

lemma child_order: "strict_weak_order less_child"
  by unfold_locales (auto simp: less_child_def str_less_def split: if_splits)

text \<open>What may still be kept of a kind: the rest of its fifty for the kind before, fifty for any other.\<close>

definition room :: "string option \<Rightarrow> int \<Rightarrow> string \<Rightarrow> nat" where
  "room before n kind = (if before = Some kind then nat (50 - n) else 50)"

lemma children_from_kinds:
  "sorted_wrt (\<lambda>a b. \<not> less_child b a) cs \<Longrightarrow> 0 \<le> n \<Longrightarrow>
   (\<And>k c. before = Some k \<Longrightarrow> c \<in> set cs \<Longrightarrow> k \<le> ch_kind c) \<Longrightarrow> (before = None \<Longrightarrow> n = 0) \<Longrightarrow>
   of_kind kind (fst (children_from before n cs)) = take (room before n kind) (of_kind kind cs) \<and>
   (snd (children_from before n cs) \<longleftrightarrow> (\<exists>k. room before n k < length (of_kind k cs)))"
proof (induction cs arbitrary: before n)
  case Nil
  then show ?case by (simp add: of_kind_def)
next
  case (Cons c cs)
  define m where "m = (case before of Some k \<Rightarrow> if k \<noteq> ch_kind c then 0 else n | None \<Rightarrow> n)"
  have m: "0 \<le> m" using Cons.prems(2) by (simp add: m_def split: option.split)
  have above: "ch_kind c \<le> ch_kind d" if "d \<in> set cs" for d
    using Cons.prems(1) that by (force simp: less_child_def str_less_def split: if_splits)
  have gone: "of_kind k (c # cs) = []" if "before = Some k" "k \<noteq> ch_kind c" for k
  proof -
    have "k < ch_kind c" using Cons.prems(3) [OF that(1), of c] that(2) by simp
    then show ?thesis using above that(2) by (fastforce simp: of_kind_def filter_empty_conv)
  qed
  have room: "take (room before n k) (of_kind k (c # cs)) = take (room (Some (ch_kind c)) m k) (of_kind k (c # cs))"
    "room before n k < length (of_kind k (c # cs)) \<longleftrightarrow> room (Some (ch_kind c)) m k < length (of_kind k (c # cs))" for k
    using gone [of k] Cons.prems(4) by (auto simp: room_def m_def split: option.splits)
  have sorted: "sorted_wrt (\<lambda>a b. \<not> less_child b a) cs" using Cons.prems(1) by simp
  have rest: "of_kind kind (fst (children_from (Some (ch_kind c)) j cs)) = take (room (Some (ch_kind c)) j kind) (of_kind kind cs) \<and>
      (snd (children_from (Some (ch_kind c)) j cs) \<longleftrightarrow> (\<exists>k. room (Some (ch_kind c)) j k < length (of_kind k cs)))"
    if "0 \<le> j" for j
    by (rule Cons.IH [OF sorted that]) (use above in auto)
  show ?case
  proof (cases "50 \<le> m")
    case True
    then have eq: "children_from before n (c # cs) = (fst (children_from (Some (ch_kind c)) m cs), True)"
      by (simp add: m_def [symmetric] max_infrastructure_objects_def Let_def)
    have "of_kind kind (fst (children_from (Some (ch_kind c)) m cs)) =
        take (room (Some (ch_kind c)) m kind) (of_kind kind cs)"
      using rest [OF m] by blast
    moreover have "room (Some (ch_kind c)) m (ch_kind c) < length (of_kind (ch_kind c) (c # cs))"
      using True by (simp add: room_def of_kind_def)
    ultimately show ?thesis unfolding eq room using True by (auto simp: of_kind_def room_def)
  next
    case False
    then have eq: "children_from before n (c # cs) = (c # fst (children_from (Some (ch_kind c)) (m + 1) cs),
        snd (children_from (Some (ch_kind c)) (m + 1) cs))"
      by (simp add: m_def [symmetric] max_infrastructure_objects_def Let_def split_beta)
    have step: "room (Some (ch_kind c)) m k = (if k = ch_kind c then Suc (room (Some (ch_kind c)) (m + 1) k) else 50)"
      "k \<noteq> ch_kind c \<Longrightarrow> room (Some (ch_kind c)) (m + 1) k = 50" for k
      using False by (auto simp: room_def)
    have IH: "of_kind kind (fst (children_from (Some (ch_kind c)) (m + 1) cs)) =
        take (room (Some (ch_kind c)) (m + 1) kind) (of_kind kind cs)"
      "snd (children_from (Some (ch_kind c)) (m + 1) cs) \<longleftrightarrow> (\<exists>k. room (Some (ch_kind c)) (m + 1) k < length (of_kind k cs))"
      using rest [of "m + 1"] m by simp_all
    have "of_kind k (c # cs) = (if k = ch_kind c then c # of_kind k cs else of_kind k cs)" for k
      by (simp add: of_kind_def)
    moreover from this have "room (Some (ch_kind c)) m k < length (of_kind k (c # cs)) \<longleftrightarrow>
        room (Some (ch_kind c)) (m + 1) k < length (of_kind k cs)" for k
      using step [of k] by (cases "k = ch_kind c") simp_all
    ultimately show ?thesis
      unfolding eq room using IH step [of kind] by (auto simp: of_kind_def)
  qed
qed

lemma fst_bounded_all: "fst (bounded lt (int (length xs)) xs) = sort_by lt xs"
  by (simp add: bounded_def Let_def)

text \<open>A burst of one kind never pushes another kind out of the page. Of the owned objects of each
kind the page shows the first fifty in name order, whatever the others are, and the cut is flagged
exactly when some kind has more than fifty.\<close>

theorem each_kind_has_its_own_bound:
  "of_kind kind (fst (bounded_children children)) = take 50 (of_kind kind (sort_by less_child children)) \<and>
   (snd (bounded_children children) \<longleftrightarrow> (\<exists>k. 50 < length (of_kind k children)))"
proof -
  have "length (of_kind k (sort_by less_child children)) = length (of_kind k children)" for k
    unfolding of_kind_def by (metis mset_filter mset_sort_by size_mset)
  then show ?thesis
    using children_from_kinds [OF strict_weak_order.sorted_sort_by [OF child_order, of children], of 0 None kind]
    by (simp add: bounded_children_def fst_bounded_all room_def)
qed

section \<open>Incarnations\<close>

text \<open>A deletion that names an incarnation removes that one only: a newer object under the name stays.\<close>

lemma remove_named_other:
  "id_uid gone \<noteq> '''' \<Longrightarrow> x \<in> set xs \<Longrightarrow> snd (ident x) \<noteq> id_uid gone \<Longrightarrow> x \<in> set (remove_named ident gone xs)"
  by (induction xs) (auto simp: split_beta Let_def)

lemma remove_child_other:
  "x \<in> set xs \<Longrightarrow> ch_kind x \<noteq> id_kind gone \<or> id_uid gone \<noteq> '''' \<and> ch_uid x \<noteq> id_uid gone \<Longrightarrow> x \<in> set (remove_child gone xs)"
  by (induction gone xs rule: remove_child.induct) auto

lemma upsert_named_names:
  "distinct (map name xs) \<Longrightarrow> distinct (map name (upsert_named name item xs)) \<and>
     set (map name (upsert_named name item xs)) = insert (name item) (set (map name xs))"
  by (induction name item xs rule: upsert_named.induct) auto

end
