(* ===== verification/GoTime.thy ===== *)
theory GoTime
  imports GoDuration
begin

text \<open>
  Instants and durations as the pages print them: the layouts of \<open>time.Format\<close> the program uses, in UTC,
  and \<open>Duration.Round\<close>.
\<close>

section \<open>Layouts\<close>

text \<open>The civil date of a day counted from the epoch, in the proleptic Gregorian calendar.\<close>

definition civil_date :: "int \<Rightarrow> int \<times> int \<times> int" where
  "civil_date days =
     (let z = days + 719468;
          era = z div 146097;
          doe = z mod 146097;
          yoe = (doe - doe div 1460 + doe div 36524 - doe div 146096) div 365;
          doy = doe - (365 * yoe + yoe div 4 - yoe div 100);
          mp = (5 * doy + 2) div 153;
          d = doy - (153 * mp + 2) div 5 + 1;
          m = (if mp < 10 then mp + 3 else mp - 9)
      in (yoe + era * 400 + (if m \<le> 2 then 1 else 0), m, d))"

definition padded :: "nat \<Rightarrow> int \<Rightarrow> string" where
  "padded width n =
     (let digits = itoa \<bar>n\<bar>
      in (if n < 0 then ''-'' else '''') @ replicate (width - length digits) CHR ''0'' @ digits)"

text \<open>The layouts \<open>2006-01-02\<close> and \<open>15:04:05\<close>.\<close>

definition date_text :: "instant \<Rightarrow> string" where
  "date_text t =
     (let (y, m, d) = civil_date (time_unix t div 86400)
      in padded 4 y @ ''-'' @ padded 2 m @ ''-'' @ padded 2 d)"

definition day_time_text :: "instant \<Rightarrow> string" where
  "day_time_text t =
     (let s = time_unix t mod 86400
      in padded 2 (s div 3600) @ '':'' @ padded 2 (s div 60 mod 60) @ '':'' @ padded 2 (s mod 60))"

text \<open>The layouts \<open>2006-01-02 15:04:05Z\<close>, \<open>15:04:05Z\<close>, and RFC 3339.\<close>

definition utc_text :: "instant \<Rightarrow> string" where
  "utc_text t = date_text t @ '' '' @ day_time_text t @ ''Z''"

definition clock_text :: "instant \<Rightarrow> string" where
  "clock_text t = day_time_text t @ ''Z''"

definition rfc3339_text :: "instant \<Rightarrow> string" where
  "rfc3339_text t = date_text t @ ''T'' @ day_time_text t @ ''Z''"

section \<open>Rounding\<close>

text \<open>\<open>Duration.Round\<close>: half away from zero, saturating where the sum overflows.\<close>

definition duration_round :: "duration \<Rightarrow> duration \<Rightarrow> duration" where
  "duration_round d m =
     (if m \<le> 0 then d
      else
        (let r = rem d m
         in if d < 0
            then (let r' = wrap64 (- r)
                  in if r' + r' < m then d + r'
                     else let d1 = wrap64 (d - m + r') in if d1 < d then d1 else min_int64)
            else if r + r < m then d - r
            else let d1 = wrap64 (d + m - r) in if d1 > d then d1 else max_int64))"

definition ago :: "instant \<Rightarrow> instant \<Rightarrow> duration \<Rightarrow> string" where
  "ago now t m = duration_string (duration_round (time_sub now t) m)"

section \<open>The dash of the messages, in UTF-8\<close>

definition dash :: string where "dash = '' '' @ [CHR 0xE2, CHR 0x80, CHR 0x94] @ '' ''"

section \<open>Examples\<close>

text \<open>A day of the model and its text.\<close>

lemma utc_text_epoch: "utc_text 0 = ''1970-01-01 00:00:00Z''"
  by code_simp

lemma utc_text_leap: "utc_text (1709210096 * second) = ''2024-02-29 12:34:56Z''"
  by code_simp

lemma duration_round_half: "duration_round (90 * second) minute = 2 * minute" "duration_round (- 90 * second) minute = - 2 * minute"
    "duration_round (89 * second) minute = minute"
  by code_simp+

end
