(* ===== verification/Evidence.thy ===== *)
theory Evidence
  imports Redact "HOL-Library.Word"
begin

text \<open>
  The consumer of repository evidence, \<open>internal/evidence\<close>: the client that fetches and validates
  snapshots and assembles the backup collection page by page (\<open>client.go\<close>), the store of the last
  validated report (\<open>store.go\<close>) and the poller between them (\<open>poller.go\<close>).

  What is not under \<open>src/\<close> is a parameter: the transport (the answers of the sidecar), the decoding of
  JSON into the producer's types, and the producer's own \<open>Validate\<close>. The records \<open>wire_...\<close> are the
  fields of the producer's types that the consumer reads; the other fields are the extension of the
  record, which no definition can look into.
\<close>

section \<open>The projection\<close>

record state_fact =
  st_state :: string
  st_code :: string

record capability_fact =
  cp_id :: string
  cp_support :: string
  cp_state :: string
  cp_code :: string

record inventory_facts =
  iv_known :: bool
  iv_object_count :: "64 word option"
  iv_stored_bytes :: "64 word option"
  iv_unscoped_object_count :: "64 word option"
  iv_pages_examined :: "64 word"
  iv_objects_examined :: "64 word"
  iv_last_failure_category :: string

record state_count_facts =
  ss_healthy :: "64 word"
  ss_warning :: "64 word"
  ss_unhealthy :: "64 word"
  ss_unknown :: "64 word"

record wal_count_facts =
  wl_segment :: "64 word"
  wl_partial :: "64 word"
  wl_history :: "64 word"
  wl_backup_history :: "64 word"
  wl_unknown :: "64 word"
  wl_duplicate :: "64 word"

record retention_facts =
  rf_visible_backups :: "64 word option"
  rf_structurally_usable_backups :: "64 word option"
  rf_oldest_completion_at :: "instant option"
  rf_newest_completion_at :: "instant option"
  rf_minimum_configured :: bool
  rf_minimum_redundancy :: "64 word option"
  rf_result :: state_fact

record barman_facts =
  bm_backup_items :: "64 word option"
  bm_wal_range_items :: "64 word option"
  bm_wal_gap_items :: "64 word option"
  bm_recovery_path_items :: "64 word option"
  bm_structurally_usable_backups :: "64 word option"
  bm_backup_states :: "state_count_facts option"
  bm_wal_counts :: "wal_count_facts option"
  bm_wal :: state_fact
  bm_timeline :: state_fact
  bm_coverage :: state_fact
  bm_retention :: retention_facts
  bm_latest_archive_receipt_at :: "instant option"
  bm_ranges_truncated :: bool
  bm_diagnostics_truncated :: bool

record report =
  re_producer_version :: string
  re_cluster_namespace :: string
  re_cluster_uid :: string
  re_cluster_name :: string
  re_provider :: string
  re_format :: string
  re_scope_kind :: string
  re_scope_name :: string
  re_fingerprint :: string
  re_revision :: "64 word"
  re_evidence_generation :: "64 word"
  re_started_at :: "instant option"
  re_completed_at :: "instant option"
  re_last_attempt_at :: "instant option"
  re_completeness :: string
  re_source_stale :: bool
  re_overall :: state_fact
  re_capabilities :: "capability_fact list"
  re_inventory :: inventory_facts
  re_details_type :: string
  re_barman :: "barman_facts option"

record repo_backup =
  rb_server :: string
  rb_backup_id :: string
  rb_status :: string
  rb_backup_type :: string
  rb_result :: state_fact
  rb_timeline :: "64 word option"
  rb_begin_at :: "instant option"
  rb_end_at :: "instant option"
  rb_stored_artifact_bytes :: "64 word option"

subsection \<open>What is read of the producer's types\<close>

record wire_identity =
  wi_namespace :: string
  wi_cluster_uid :: string
  wi_cluster_name :: "string option"
  wi_provider :: string
  wi_format :: string
  wi_scope_kind :: string
  wi_scope_name :: string
  wi_fingerprint :: string

record wire_capability =
  wc_id :: string
  wc_support :: string
  wc_state :: string
  wc_code :: string

record wire_inventory =
  wv_known :: bool
  wv_object_count :: "64 word option"
  wv_stored_bytes :: "64 word option"
  wv_unscoped_object_count :: "64 word option"
  wv_pages_examined :: "64 word"
  wv_objects_examined :: "64 word"
  wv_last_failure_category :: "string option"

record wire_summary =
  wb_backup_items :: "64 word option"
  wb_wal_range_items :: "64 word option"
  wb_wal_gap_items :: "64 word option"
  wb_recovery_path_items :: "64 word option"
  wb_structurally_usable_backups :: "64 word option"
  wb_backup_states :: "state_count_facts option"
  wb_wal_counts :: "wal_count_facts option"
  wb_wal :: state_fact
  wb_timeline :: state_fact
  wb_coverage :: state_fact
  wb_retention :: retention_facts
  wb_latest_archive_receipt_at :: "instant option"
  wb_ranges_truncated :: bool
  wb_diagnostics_truncated :: bool

record wire_snapshot =
  ws_api_version :: string
  ws_kind :: string
  ws_producer_version :: string
  ws_identity :: wire_identity
  ws_revision :: "64 word"
  ws_evidence_generation :: "64 word"
  ws_started_at :: "instant option"
  ws_completed_at :: "instant option"
  ws_last_attempt_at :: "instant option"
  ws_completeness :: string
  ws_stale :: bool
  ws_overall :: state_fact
  ws_capabilities :: "wire_capability list"
  ws_inventory :: wire_inventory
  ws_details_type :: string
  ws_details_unknown :: bool
  ws_barman_cloud :: "wire_summary option"

record wire_backup =
  wk_server :: string
  wk_backup_id :: string
  wk_result :: state_fact
  wk_timeline :: "64 word option"
  wk_begin_at :: "instant option"
  wk_end_at :: "instant option"
  wk_stored_artifact_bytes :: "64 word option"
  wk_status :: "string option"
  wk_backup_type :: "string option"

record wire_page =
  wp_api_version :: string
  wp_kind :: string
  wp_revision :: "64 word"
  wp_evidence_generation :: "64 word"
  wp_items :: "wire_backup list"
  wp_next_cursor :: "string option"

subsection \<open>Reducing it\<close>

definition or_empty :: "string option \<Rightarrow> string" where
  "or_empty v = (case v of Some s \<Rightarrow> s | None \<Rightarrow> '''')"

definition project_backup :: "wire_backup \<Rightarrow> repo_backup" where
  "project_backup item =
     \<lparr>rb_server = wk_server item, rb_backup_id = wk_backup_id item, rb_status = or_empty (wk_status item),
      rb_backup_type = or_empty (wk_backup_type item), rb_result = wk_result item, rb_timeline = wk_timeline item,
      rb_begin_at = wk_begin_at item, rb_end_at = wk_end_at item,
      rb_stored_artifact_bytes = wk_stored_artifact_bytes item\<rparr>"

definition project_barman :: "wire_summary \<Rightarrow> barman_facts" where
  "project_barman b =
     \<lparr>bm_backup_items = wb_backup_items b, bm_wal_range_items = wb_wal_range_items b, bm_wal_gap_items = wb_wal_gap_items b,
      bm_recovery_path_items = wb_recovery_path_items b,
      bm_structurally_usable_backups = wb_structurally_usable_backups b, bm_backup_states = wb_backup_states b,
      bm_wal_counts = wb_wal_counts b, bm_wal = wb_wal b, bm_timeline = wb_timeline b, bm_coverage = wb_coverage b,
      bm_retention = wb_retention b, bm_latest_archive_receipt_at = wb_latest_archive_receipt_at b,
      bm_ranges_truncated = wb_ranges_truncated b, bm_diagnostics_truncated = wb_diagnostics_truncated b\<rparr>"

definition project_snapshot :: "wire_snapshot \<Rightarrow> report" where
  "project_snapshot s =
     \<lparr>re_producer_version = ws_producer_version s, re_cluster_namespace = wi_namespace (ws_identity s),
      re_cluster_uid = wi_cluster_uid (ws_identity s), re_cluster_name = or_empty (wi_cluster_name (ws_identity s)),
      re_provider = wi_provider (ws_identity s), re_format = wi_format (ws_identity s),
      re_scope_kind = wi_scope_kind (ws_identity s), re_scope_name = wi_scope_name (ws_identity s),
      re_fingerprint = wi_fingerprint (ws_identity s), re_revision = ws_revision s,
      re_evidence_generation = ws_evidence_generation s, re_started_at = ws_started_at s,
      re_completed_at = ws_completed_at s, re_last_attempt_at = ws_last_attempt_at s,
      re_completeness = ws_completeness s, re_source_stale = ws_stale s, re_overall = ws_overall s,
      re_capabilities = map (\<lambda>c. \<lparr>cp_id = wc_id c, cp_support = wc_support c, cp_state = wc_state c, cp_code = wc_code c\<rparr>)
        (ws_capabilities s),
      re_inventory =
        \<lparr>iv_known = wv_known (ws_inventory s), iv_object_count = wv_object_count (ws_inventory s),
         iv_stored_bytes = wv_stored_bytes (ws_inventory s),
         iv_unscoped_object_count = wv_unscoped_object_count (ws_inventory s),
         iv_pages_examined = wv_pages_examined (ws_inventory s), iv_objects_examined = wv_objects_examined (ws_inventory s),
         iv_last_failure_category = or_empty (wv_last_failure_category (ws_inventory s))\<rparr>,
      re_details_type = ws_details_type s,
      re_barman =
        (if ws_details_unknown s then None else map_option project_barman (ws_barman_cloud s))\<rparr>"

section \<open>The client\<close>

definition snapshot_max_bytes :: int where "snapshot_max_bytes = 256 * 1024"
definition token_file_max_bytes :: int where "token_file_max_bytes = 128"
definition token_length :: int where "token_length = 43"
definition media_type :: string where "media_type = ''application/vnd.objectstoreviewer.evidence.v1alpha1+json''"
definition snapshot_path :: string where "snapshot_path = ''/api/v1alpha1/snapshot''"
definition backups_path :: string where "backups_path = ''/api/v1alpha1/backups''"
definition page_max_bytes :: int where "page_max_bytes = 1024 * 1024"
definition page_request_limit :: int where "page_request_limit = 200"
definition max_assembly_pages :: nat where "max_assembly_pages = 20"
definition max_repository_backups :: nat where "max_repository_backups = 1000"

record expectation =
  ex_fingerprint :: string
  ex_barman_server :: string
  ex_namespace :: string

definition evidence_failure :: "failure_kind \<Rightarrow> go_error option \<Rightarrow> go_error" where
  "evidence_failure kind cause = EvidenceFailure kind cause"

text \<open>\<open>errors.New\<close>, and \<open>strings.TrimPrefix\<close>, \<open>strings.TrimSuffix\<close>.\<close>

definition plain_error :: "string \<Rightarrow> go_error" where "plain_error text = OtherError text []"

definition trim_prefix :: "string \<Rightarrow> string \<Rightarrow> string" where
  "trim_prefix s p = (if has_prefix s p then drop (length p) s else s)"

definition trim_suffix :: "string \<Rightarrow> string \<Rightarrow> string" where
  "trim_suffix s p = (if has_suffix s p then take (length s - length p) s else s)"

definition socket_path_from_url :: "string \<Rightarrow> string" where
  "socket_path_from_url raw = trim_prefix raw ''unix://''"

subsection \<open>The token file\<close>

text \<open>A rune of the alphabet is one byte; any other byte, also of a longer rune, is refused.\<close>

definition base64url_char :: "char \<Rightarrow> bool" where
  "base64url_char c \<longleftrightarrow>
     65 \<le> byte c \<and> byte c \<le> 90 \<or> 97 \<le> byte c \<and> byte c \<le> 122 \<or> 48 \<le> byte c \<and> byte c \<le> 57 \<or> c = CHR ''-'' \<or> c = CHR ''_''"

definition base64url_only :: "string \<Rightarrow> bool" where
  "base64url_only value \<longleftrightarrow> list_all base64url_char value"

text \<open>What \<open>os.Lstat\<close> and \<open>os.ReadFile\<close> answer.\<close>

record file_info =
  fi_regular :: bool
  fi_size :: int

definition load_token :: "(go_error + file_info) \<Rightarrow> (go_error + string) \<Rightarrow> go_error + string" where
  "load_token lstat read_file =
     (case lstat of
        Inl err \<Rightarrow> Inl (new_error ''evidence token'' CategoryUnavailable (Some err))
      | Inr info \<Rightarrow>
          if \<not> fi_regular info
          then Inl (new_error ''evidence token'' CategoryInternal (Some (plain_error ''token file must be a regular file'')))
          else if fi_size info > token_file_max_bytes
          then Inl (new_error ''evidence token'' CategoryInternal (Some (plain_error ''token file exceeds the contract bound'')))
          else
            (case read_file of
               Inl err \<Rightarrow> Inl (new_error ''evidence token'' CategoryUnavailable (Some err))
             | Inr raw \<Rightarrow>
                 (let token = trim_suffix raw [CHR 0x0A]
                  in if int (length token) \<noteq> token_length \<or> \<not> base64url_only token
                     then Inl (new_error ''evidence token'' CategoryInternal
                       (Some (plain_error ''token file does not hold one unpadded base64url token'')))
                     else Inr token)))"

subsection \<open>Requests\<close>

text \<open>The answer to one request: it could not be built, it failed (with the context's own error then),
  or a status, a content type and a body, whose reading may fail too.\<close>

datatype http_answer =
    NotBuilt go_error
  | NotDone go_error "go_error option"
  | Answered int string "(go_error \<times> go_error option) + string"

definition transport_kind :: "go_error \<Rightarrow> go_error option \<Rightarrow> failure_kind" where
  "transport_kind err ctx_err =
     (let is = (\<lambda>target. error_is target err \<or> (case ctx_err of Some e \<Rightarrow> error_is target e | None \<Rightarrow> False))
      in if is ContextDeadlineExceeded then FailureTimeout
         else if is ContextCanceled then FailureCanceled
         else FailureUnavailable)"

definition get_json :: "http_answer \<Rightarrow> int \<Rightarrow> go_error + string" where
  "get_json answer max_bytes =
     (case answer of
        NotBuilt err \<Rightarrow> Inl (evidence_failure FailureInvalid (Some err))
      | NotDone err ctx_err \<Rightarrow> Inl (evidence_failure (transport_kind err ctx_err) (Some err))
      | Answered status content_type body \<Rightarrow>
          if status = 401 then Inl (evidence_failure FailureUnauthenticated None)
          else if status = 429 then Inl (evidence_failure FailureBusy None)
          else if status = 409 then Inl (evidence_failure FailurePublicationChanged None)
          else if status \<noteq> 200
          then Inl (evidence_failure FailureUnavailable (Some (plain_error (''evidence status '' @ itoa status))))
          else if \<not> has_prefix content_type media_type
          then Inl (evidence_failure FailureIncompatible (Some (plain_error ''unexpected media type'')))
          else
            (case body of
               Inl (err, ctx_err) \<Rightarrow> Inl (evidence_failure (transport_kind err ctx_err) (Some err))
             | Inr bytes \<Rightarrow>
                 (let read = take (nat (max_bytes + 1)) bytes
                  in if int (length read) > max_bytes
                     then Inl (evidence_failure FailureInvalid (Some (plain_error ''response exceeds its ceiling'')))
                     else Inr read)))"

text \<open>The producer's module: its constants, its decoding and its validation.\<close>

record producer =
  pd_api_version :: string
  pd_snapshot_kind :: string
  pd_page_kind :: string
  pd_decode_snapshot :: "string \<Rightarrow> go_error + wire_snapshot"
  pd_validate_snapshot :: "wire_snapshot \<Rightarrow> go_error option"
  pd_decode_page :: "string \<Rightarrow> go_error + wire_page"
  pd_validate_page :: "wire_page \<Rightarrow> go_error option"

definition check_identity :: "expectation \<Rightarrow> wire_identity \<Rightarrow> go_error option" where
  "check_identity expect identity =
     (if wi_fingerprint identity \<noteq> ex_fingerprint expect then Some (plain_error ''destination fingerprint mismatch'')
      else if wi_scope_name identity \<noteq> ex_barman_server expect then Some (plain_error ''barman server mismatch'')
      else if wi_namespace identity \<noteq> ex_namespace expect then Some (plain_error ''cluster namespace mismatch'')
      else None)"

definition fetch_snapshot :: "producer \<Rightarrow> expectation \<Rightarrow> (string \<Rightarrow> http_answer) \<Rightarrow> go_error + report" where
  "fetch_snapshot p expect serve =
     (case get_json (serve snapshot_path) snapshot_max_bytes of
        Inl err \<Rightarrow> Inl err
      | Inr body \<Rightarrow>
          (case pd_decode_snapshot p body of
             Inl err \<Rightarrow> Inl (evidence_failure FailureInvalid (Some err))
           | Inr snapshot \<Rightarrow>
               if ws_api_version snapshot \<noteq> pd_api_version p \<or> ws_kind snapshot \<noteq> pd_snapshot_kind p
               then Inl (evidence_failure FailureIncompatible (Some (plain_error ''incompatible version or kind'')))
               else
                 (case pd_validate_snapshot p snapshot of
                    Some err \<Rightarrow> Inl (evidence_failure FailureInvalid (Some err))
                  | None \<Rightarrow>
                      (case check_identity expect (ws_identity snapshot) of
                         Some err \<Rightarrow> Inl (evidence_failure FailureIdentityMismatch (Some err))
                       | None \<Rightarrow> Inr (project_snapshot snapshot)))))"

subsection \<open>The collection\<close>

text \<open>\<open>url.QueryEscape\<close>.\<close>

definition hex_digit :: "nat \<Rightarrow> char" where
  "hex_digit d = (if d < 10 then char_of (48 + d) else char_of (55 + d))"

definition escape_char :: "char \<Rightarrow> string" where
  "escape_char c =
     (if base64url_char c \<or> c = CHR ''.'' \<or> c = CHR ''~'' then [c]
      else if c = CHR '' '' then ''+''
      else [CHR ''%'', hex_digit (byte c div 16), hex_digit (byte c mod 16)])"

definition query_escape :: "string \<Rightarrow> string" where
  "query_escape s = concat (map escape_char s)"

definition page_path :: "64 word \<Rightarrow> string \<Rightarrow> string" where
  "page_path revision cursor =
     backups_path @ ''?revision='' @ itoa (uint revision) @ ''&limit='' @ itoa page_request_limit @
     (if cursor \<noteq> '''' then ''&cursor='' @ query_escape cursor else '''')"

text \<open>The body of the loop of \<open>FetchBackups\<close> up to the validated page.\<close>

definition fetch_page :: "producer \<Rightarrow> (string \<Rightarrow> http_answer) \<Rightarrow> 64 word \<Rightarrow> 64 word \<Rightarrow> string \<Rightarrow> go_error + wire_page" where
  "fetch_page p serve revision generation cursor =
     (case get_json (serve (page_path revision cursor)) page_max_bytes of
        Inl err \<Rightarrow> Inl err
      | Inr body \<Rightarrow>
          (case pd_decode_page p body of
             Inl err \<Rightarrow> Inl (evidence_failure FailureInvalid (Some err))
           | Inr page \<Rightarrow>
               if wp_api_version page \<noteq> pd_api_version p \<or> wp_kind page \<noteq> pd_page_kind p
               then Inl (evidence_failure FailureIncompatible (Some (plain_error ''incompatible page version or kind'')))
               else
                 (case pd_validate_page p page of
                    Some err \<Rightarrow> Inl (evidence_failure FailureInvalid (Some err))
                  | None \<Rightarrow>
                      if wp_revision page \<noteq> revision \<or> wp_evidence_generation page \<noteq> generation
                      then Inl (evidence_failure FailureInvalid (Some (plain_error ''page publication identity mismatch'')))
                      else Inr page)))"

fun add_items :: "repo_backup list \<Rightarrow> wire_backup list \<Rightarrow> repo_backup list \<times> bool" where
  "add_items items [] = (items, False)"
| "add_items items (x # xs) =
     (if length items \<ge> max_repository_backups then (items, True)
      else add_items (items @ [project_backup x]) xs)"

text \<open>The loop: the pages left, the number of the request, the cursor, and the items so far. The
  sidecar may answer each request differently.\<close>

fun assemble_pages :: "producer \<Rightarrow> (nat \<Rightarrow> string \<Rightarrow> http_answer) \<Rightarrow> 64 word \<Rightarrow> 64 word \<Rightarrow> nat \<Rightarrow> nat \<Rightarrow> string \<Rightarrow>
    repo_backup list \<Rightarrow> go_error + (repo_backup list \<times> bool)" where
  "assemble_pages p serve revision generation 0 i cursor items =
     Inl (evidence_failure FailureInvalid (Some (plain_error ''cursor chain exceeds the assembly bound'')))"
| "assemble_pages p serve revision generation (Suc n) i cursor items =
     (case fetch_page p (serve i) revision generation cursor of
        Inl err \<Rightarrow> Inl err
      | Inr page \<Rightarrow>
          (let (items', full) = add_items items (wp_items page)
           in if full then Inr (items', True)
              else
                (case wp_next_cursor page of
                   None \<Rightarrow> Inr (items', False)
                 | Some next \<Rightarrow> assemble_pages p serve revision generation n (i + 1) next items')))"

definition fetch_backups :: "producer \<Rightarrow> (nat \<Rightarrow> string \<Rightarrow> http_answer) \<Rightarrow> 64 word \<Rightarrow> 64 word \<Rightarrow>
    go_error + (repo_backup list \<times> bool)" where
  "fetch_backups p serve revision generation =
     assemble_pages p serve revision generation max_assembly_pages 0 '''' []"

subsection \<open>An assembled collection is whole\<close>

text \<open>A chain of validated pages of one publication, each asked for with the cursor of the one before.\<close>

fun page_chain :: "producer \<Rightarrow> (nat \<Rightarrow> string \<Rightarrow> http_answer) \<Rightarrow> 64 word \<Rightarrow> 64 word \<Rightarrow> nat \<Rightarrow> string \<Rightarrow> wire_page list \<Rightarrow> bool" where
  "page_chain p serve revision generation i cursor [] \<longleftrightarrow> True"
| "page_chain p serve revision generation i cursor (pg # pgs) \<longleftrightarrow>
     fetch_page p (serve i) revision generation cursor = Inr pg \<and>
     (pgs \<noteq> [] \<longrightarrow>
        (case wp_next_cursor pg of
           None \<Rightarrow> False
         | Some next \<Rightarrow> page_chain p serve revision generation (i + 1) next pgs))"

lemma add_items_eq:
  "length items \<le> max_repository_backups \<Longrightarrow>
   add_items items xs = (take max_repository_backups (items @ map project_backup xs), max_repository_backups < length items + length xs)"
  by (induction items xs rule: add_items.induct) auto

definition chain_items :: "wire_page list \<Rightarrow> repo_backup list" where
  "chain_items pages = map project_backup (concat (map wp_items pages))"

lemma assemble_pages_chain:
  "assemble_pages p serve revision generation n i cursor items = Inr (out, trunc) \<Longrightarrow>
   length items \<le> max_repository_backups \<Longrightarrow>
   \<exists>pages. pages \<noteq> [] \<and> length pages \<le> n \<and> page_chain p serve revision generation i cursor pages \<and>
     out = take max_repository_backups (items @ chain_items pages) \<and>
     (trunc \<longleftrightarrow> max_repository_backups < length items + length (chain_items pages)) \<and>
     (\<not> trunc \<longrightarrow> wp_next_cursor (last pages) = None)"
proof (induction n arbitrary: i cursor items)
  case 0
  then show ?case by simp
next
  case (Suc n)
  from Suc.prems(1) obtain pg where pg: "fetch_page p (serve i) revision generation cursor = Inr pg"
    by (auto split: sum.splits)
  note added = add_items_eq [OF Suc.prems(2), of "wp_items pg"]
  show ?case
  proof (cases "max_repository_backups < length items + length (wp_items pg) \<or> wp_next_cursor pg = None")
    case True
    with Suc.prems(1) pg added have "out = take max_repository_backups (items @ map project_backup (wp_items pg))"
      "trunc \<longleftrightarrow> max_repository_backups < length items + length (wp_items pg)" "\<not> trunc \<longrightarrow> wp_next_cursor pg = None"
      by (auto split: if_splits option.splits)
    with pg show ?thesis by (intro exI [of _ "[pg]"]) (simp add: chain_items_def)
  next
    case False
    then obtain nx where nx: "wp_next_cursor pg = Some nx" by auto
    from False have small: "length items + length (wp_items pg) \<le> max_repository_backups" by simp
    then have items: "fst (add_items items (wp_items pg)) = items @ map project_backup (wp_items pg)" "\<not> snd (add_items items (wp_items pg))"
      by (simp_all add: added)
    with Suc.prems(1) pg nx have "assemble_pages p serve revision generation n (i + 1) nx (items @ map project_backup (wp_items pg)) = Inr (out, trunc)"
      by (simp add: Let_def split_beta)
    from Suc.IH [OF this] small obtain pages where
      pages: "pages \<noteq> []" "length pages \<le> n" "page_chain p serve revision generation (i + 1) nx pages"
        "out = take max_repository_backups ((items @ map project_backup (wp_items pg)) @ chain_items pages)"
        "trunc \<longleftrightarrow> max_repository_backups < length (items @ map project_backup (wp_items pg)) + length (chain_items pages)"
        "\<not> trunc \<longrightarrow> wp_next_cursor (last pages) = None"
      using Suc.prems(2) by auto
    then show ?thesis using pg nx
      by (intro exI [of _ "pg # pages"]) (simp add: chain_items_def add.assoc)
  qed
qed

lemma fetch_page_publication:
  "fetch_page p serve revision generation cursor = Inr pg \<Longrightarrow>
     wp_revision pg = revision \<and> wp_evidence_generation pg = generation \<and> pd_validate_page p pg = None"
  by (auto simp: fetch_page_def split: sum.splits if_splits option.splits)

lemma page_chain_publication:
  "page_chain p serve revision generation i cursor pages \<Longrightarrow> pg \<in> set pages \<Longrightarrow>
     wp_revision pg = revision \<and> wp_evidence_generation pg = generation \<and> pd_validate_page p pg = None"
proof (induction pages arbitrary: i cursor)
  case Nil
  then show ?case by simp
next
  case (Cons x pgs)
  from Cons.prems(1) have x: "fetch_page p (serve i) revision generation cursor = Inr x" by simp
  show ?case
  proof (cases "pg = x")
    case True
    then show ?thesis using fetch_page_publication [OF x] by simp
  next
    case False
    with Cons.prems obtain nx where "page_chain p serve revision generation (i + 1) nx pgs" "pg \<in> set pgs"
      by (auto split: option.splits)
    then show ?thesis by (rule Cons.IH)
  qed
qed

end
