(* ===== verification/EvidencePoller.thy ===== *)
theory EvidencePoller
  imports Evidence
begin

text \<open>
  The store of the last validated report (\<open>internal/evidence/store.go\<close>) and the poller that
  maintains it (\<open>internal/evidence/poller.go\<close>). The poller is a step relation over the program
  points of \<open>Run\<close>; a \<open>fetcher\<close> is the Go interface, over whatever answers one round of fetches
  (for the client: the responses of the sidecar). Cancellation may come between any two effects.
\<close>

section \<open>The store\<close>

definition no_fact :: state_fact where "no_fact = \<lparr>st_state = '''', st_code = ''''\<rparr>"

definition zero_report :: report where
  "zero_report =
     \<lparr>re_producer_version = '''', re_cluster_namespace = '''', re_cluster_uid = '''', re_cluster_name = '''',
      re_provider = '''', re_format = '''', re_scope_kind = '''', re_scope_name = '''', re_fingerprint = '''',
      re_revision = 0, re_evidence_generation = 0, re_started_at = None, re_completed_at = None,
      re_last_attempt_at = None, re_completeness = '''', re_source_stale = False, re_overall = no_fact,
      re_capabilities = [],
      re_inventory = \<lparr>iv_known = False, iv_object_count = None, iv_stored_bytes = None, iv_unscoped_object_count = None,
        iv_pages_examined = 0, iv_objects_examined = 0, iv_last_failure_category = ''''\<rparr>,
      re_details_type = '''', re_barman = None\<rparr>"

record evidence_snapshot =
  eg_generation :: "64 word"
  eg_observed_at :: instant
  eg_stale :: bool
  eg_failure :: failure_kind
  eg_report :: report
  eg_backups :: "repo_backup list"
  eg_backups_truncated :: bool

record evidence_status =
  ev_has_report :: bool
  ev_snapshot :: evidence_snapshot
  ev_failure :: failure_kind

record evidence_store =
  es_snap :: evidence_snapshot
  es_has :: bool
  es_failure :: failure_kind

definition new_evidence_store :: evidence_store where
  "new_evidence_store =
     \<lparr>es_snap = \<lparr>eg_generation = 0, eg_observed_at = zero_time, eg_stale = False, eg_failure = FailureNone,
        eg_report = zero_report, eg_backups = [], eg_backups_truncated = False\<rparr>,
      es_has = False, es_failure = FailureNone\<rparr>"

definition current_evidence :: "evidence_store \<Rightarrow> evidence_status" where
  "current_evidence s = \<lparr>ev_has_report = es_has s, ev_snapshot = es_snap s, ev_failure = es_failure s\<rparr>"

definition evidence_publish :: "report \<Rightarrow> repo_backup list \<Rightarrow> bool \<Rightarrow> instant \<Rightarrow> evidence_store \<Rightarrow> evidence_store" where
  "evidence_publish report backups truncated now s =
     s\<lparr>es_snap := \<lparr>eg_generation = eg_generation (es_snap s) + 1, eg_observed_at = now, eg_stale = False,
         eg_failure = FailureNone, eg_report = report, eg_backups = backups, eg_backups_truncated = truncated\<rparr>,
       es_has := True, es_failure := FailureNone\<rparr>"

definition evidence_mark_failed :: "failure_kind \<Rightarrow> evidence_store \<Rightarrow> evidence_store" where
  "evidence_mark_failed kind s =
     (let s' = s\<lparr>es_failure := kind\<rparr>
      in if \<not> es_has s' then s' else s'\<lparr>es_snap := (es_snap s')\<lparr>eg_stale := True, eg_failure := kind\<rparr>\<rparr>)"

section \<open>The poller\<close>

definition poll_interval :: duration where "poll_interval = 15 * second"
definition poll_jitter_max :: duration where "poll_jitter_max = 3 * second"
definition poll_backoff_initial :: duration where "poll_backoff_initial = second"
definition poll_backoff_max :: duration where "poll_backoff_max = 30 * second"

record 'w fetcher =
  fr_snapshot :: "'w \<Rightarrow> go_error + report"
  fr_backups :: "'w \<Rightarrow> 64 word \<Rightarrow> 64 word \<Rightarrow> go_error + (repo_backup list \<times> bool)"

text \<open>The client as a fetcher: the answers of one round are numbered, the snapshot first.\<close>

definition client_fetcher :: "producer \<Rightarrow> expectation \<Rightarrow> (nat \<Rightarrow> string \<Rightarrow> http_answer) fetcher" where
  "client_fetcher p expect =
     \<lparr>fr_snapshot = (\<lambda>serve. fetch_snapshot p expect (serve 0)),
      fr_backups = (\<lambda>serve revision generation. fetch_backups p (\<lambda>i. serve (i + 1)) revision generation)\<rparr>"

text \<open>The program points: the head of the loop, the fetch, \<open>assemble\<close>, the handling of an error, the
  publication, and the wait.\<close>

datatype poll_phase =
    PollTop
  | PollFetching
  | PollFetched report
  | PollFailed go_error
  | PollPublishing report
  | PollWaiting duration
  | PollReturned

record poller =
  pl_phase :: poll_phase
  pl_cancelled :: bool
  pl_store :: evidence_store
  pl_backoff :: duration
  pl_assembled :: bool
  pl_assembled_generation :: "64 word"
  pl_backups :: "repo_backup list"
  pl_backups_truncated :: bool

definition new_poller :: poller where
  "new_poller =
     \<lparr>pl_phase = PollTop, pl_cancelled = False, pl_store = new_evidence_store, pl_backoff = poll_backoff_initial,
      pl_assembled = False, pl_assembled_generation = 0, pl_backups = [], pl_backups_truncated = False\<rparr>"

text \<open>\<open>rand.Read\<close> fails or answers eight bytes.\<close>

definition random_jitter :: "64 word option \<Rightarrow> duration \<Rightarrow> duration" where
  "random_jitter entropy maximum = (case entropy of None \<Rightarrow> quo maximum 2 | Some v \<Rightarrow> uint v mod maximum)"

definition set_assembled :: "64 word \<Rightarrow> repo_backup list \<Rightarrow> bool \<Rightarrow> poller \<Rightarrow> poller" where
  "set_assembled generation backups truncated pl =
     pl\<lparr>pl_assembled := True, pl_assembled_generation := generation, pl_backups := backups,
        pl_backups_truncated := truncated\<rparr>"

definition poll_assemble :: "'w fetcher \<Rightarrow> 'w \<Rightarrow> report \<Rightarrow> poller \<Rightarrow> go_error option \<times> poller" where
  "poll_assemble f w report pl =
     (if re_evidence_generation report = 0 then (None, set_assembled 0 [] False pl)
      else if pl_assembled pl \<and> pl_assembled_generation pl = re_evidence_generation report then (None, pl)
      else
        (case fr_backups f w (re_revision report) (re_evidence_generation report) of
           Inl err \<Rightarrow> (Some err, pl)
         | Inr (backups, truncated) \<Rightarrow> (None, set_assembled (re_evidence_generation report) backups truncated pl)))"

definition poll_next_backoff :: "poller \<Rightarrow> duration \<times> poller" where
  "poll_next_backoff pl =
     (pl_backoff pl,
      pl\<lparr>pl_backoff := (if pl_backoff pl * 2 > poll_backoff_max then poll_backoff_max else pl_backoff pl * 2)\<rparr>)"

text \<open>What an observer sees of a step.\<close>

datatype poll_act =
    PollSilent
  | PollPublished report instant
  | PollLost failure_kind string
  | PollSlept duration

inductive poll_step :: "'w fetcher \<Rightarrow> poller \<Rightarrow> poll_act \<Rightarrow> poller \<Rightarrow> bool" for f where
  poll_done: "pl_phase pl = PollTop \<Longrightarrow> pl_cancelled pl \<Longrightarrow> poll_step f pl PollSilent (pl\<lparr>pl_phase := PollReturned\<rparr>)"
| poll_goes: "pl_phase pl = PollTop \<Longrightarrow> \<not> pl_cancelled pl \<Longrightarrow> poll_step f pl PollSilent (pl\<lparr>pl_phase := PollFetching\<rparr>)"
| poll_fetch_fails: "pl_phase pl = PollFetching \<Longrightarrow> fr_snapshot f w = Inl err \<Longrightarrow>
    poll_step f pl PollSilent (pl\<lparr>pl_phase := PollFailed err\<rparr>)"
| poll_fetches: "pl_phase pl = PollFetching \<Longrightarrow> fr_snapshot f w = Inr report \<Longrightarrow>
    poll_step f pl PollSilent (pl\<lparr>pl_phase := PollFetched report\<rparr>)"
| poll_assemble_fails: "pl_phase pl = PollFetched report \<Longrightarrow> poll_assemble f w report pl = (Some err, pl') \<Longrightarrow>
    poll_step f pl PollSilent (pl'\<lparr>pl_phase := PollFailed err\<rparr>)"
| poll_assembles: "pl_phase pl = PollFetched report \<Longrightarrow> poll_assemble f w report pl = (None, pl') \<Longrightarrow>
    poll_step f pl PollSilent (pl'\<lparr>pl_phase := PollPublishing report\<rparr>)"
| poll_failed_done: "pl_phase pl = PollFailed err \<Longrightarrow> pl_cancelled pl \<Longrightarrow>
    poll_step f pl PollSilent (pl\<lparr>pl_phase := PollReturned\<rparr>)"
| poll_fails: "pl_phase pl = PollFailed err \<Longrightarrow> \<not> pl_cancelled pl \<Longrightarrow>
    poll_next_backoff (pl\<lparr>pl_store := evidence_mark_failed (kind_of err) (pl_store pl)\<rparr>) = (d, pl') \<Longrightarrow>
    poll_step f pl (PollLost (kind_of err) (safe (Some err))) (pl'\<lparr>pl_phase := PollWaiting d\<rparr>)"
| poll_publishes: "pl_phase pl = PollPublishing report \<Longrightarrow>
    poll_step f pl (PollPublished report now)
      (pl\<lparr>pl_store := evidence_publish report (pl_backups pl) (pl_backups_truncated pl) now (pl_store pl),
          pl_backoff := poll_backoff_initial,
          pl_phase := PollWaiting (poll_interval + random_jitter entropy poll_jitter_max)\<rparr>)"
| poll_wakes: "pl_phase pl = PollWaiting d \<Longrightarrow> poll_step f pl (PollSlept d) (pl\<lparr>pl_phase := PollTop\<rparr>)"
| poll_wait_done: "pl_phase pl = PollWaiting d \<Longrightarrow> pl_cancelled pl \<Longrightarrow>
    poll_step f pl PollSilent (pl\<lparr>pl_phase := PollReturned\<rparr>)"
| poll_cancels: "poll_step f pl PollSilent (pl\<lparr>pl_cancelled := True\<rparr>)"

inductive poll_run :: "'w fetcher \<Rightarrow> poll_act list \<Rightarrow> poller \<Rightarrow> bool" for f where
  poll_starts: "poll_run f [] new_poller"
| poll_more: "poll_run f acts pl \<Longrightarrow> poll_step f pl a pl' \<Longrightarrow> poll_run f (acts @ [a]) pl'"

section \<open>What is published\<close>

text \<open>
  What the poller relies on from a fetcher: a report it answers was accepted, and a collection is
  whole for the publication it was asked for.
\<close>

locale evidence_fetcher =
  fixes f :: "'w fetcher"
    and accepted :: "report \<Rightarrow> bool"
    and whole :: "64 word \<Rightarrow> 64 word \<Rightarrow> repo_backup list \<Rightarrow> bool \<Rightarrow> bool"
  assumes snapshot_accepted: "fr_snapshot f w = Inr report \<Longrightarrow> accepted report"
    and backups_whole: "fr_backups f w revision generation = Inr (backups, truncated) \<Longrightarrow>
      whole revision generation backups truncated"
begin

definition collection_of :: "64 word \<Rightarrow> repo_backup list \<Rightarrow> bool \<Rightarrow> bool" where
  "collection_of generation backups truncated \<longleftrightarrow>
     (if generation = 0 then backups = [] \<and> \<not> truncated else \<exists>revision. whole revision generation backups truncated)"

definition poller_ok :: "poller \<Rightarrow> bool" where
  "poller_ok pl \<longleftrightarrow>
     (pl_assembled pl \<longrightarrow> collection_of (pl_assembled_generation pl) (pl_backups pl) (pl_backups_truncated pl)) \<and>
     (case pl_phase pl of
        PollFetched report \<Rightarrow> accepted report
      | PollPublishing report \<Rightarrow> accepted report \<and> pl_assembled pl \<and> pl_assembled_generation pl = re_evidence_generation report
      | _ \<Rightarrow> True) \<and>
     (es_has (pl_store pl) \<longrightarrow>
        accepted (eg_report (es_snap (pl_store pl))) \<and>
        collection_of (re_evidence_generation (eg_report (es_snap (pl_store pl)))) (eg_backups (es_snap (pl_store pl)))
          (eg_backups_truncated (es_snap (pl_store pl))))"

lemma assemble_failed: "poll_assemble f w report pl = (Some err, pl') \<Longrightarrow> pl' = pl"
  by (auto simp: poll_assemble_def split: if_splits sum.splits)

lemma assemble_ok:
  assumes "poll_assemble f w report pl = (None, pl')" and "poller_ok pl" and "accepted report"
  shows "poller_ok (pl'\<lparr>pl_phase := PollPublishing report\<rparr>)"
proof -
  consider "re_evidence_generation report = 0" "pl' = set_assembled 0 [] False pl"
    | "pl' = pl" "pl_assembled pl" "pl_assembled_generation pl = re_evidence_generation report"
    | backups truncated where "re_evidence_generation report \<noteq> 0"
        "fr_backups f w (re_revision report) (re_evidence_generation report) = Inr (backups, truncated)"
        "pl' = set_assembled (re_evidence_generation report) backups truncated pl"
    using assms(1) by (auto simp: poll_assemble_def split: if_splits sum.splits)
  then show ?thesis
  proof cases
    case 3
    from backups_whole [OF 3(2)] have "collection_of (re_evidence_generation report) backups truncated"
      using 3(1) by (auto simp: collection_of_def)
    with 3 assms(2,3) show ?thesis by (simp add: set_assembled_def poller_ok_def)
  qed (use assms(2,3) in \<open>simp_all add: set_assembled_def poller_ok_def collection_of_def\<close>)
qed

lemma poller_ok_step:
  assumes "poll_step f pl a pl'" and ok: "poller_ok pl"
  shows "poller_ok pl'"
  using assms(1)
proof (cases rule: poll_step.cases)
  case (poll_assemble_fails report w err pl1)
  then show ?thesis using ok assemble_failed [of w report pl err pl1] by (simp add: poller_ok_def)
next
  case (poll_assembles report w pl1)
  from poll_assembles ok have "accepted report" by (simp add: poller_ok_def)
  with poll_assembles ok show ?thesis by (simp add: assemble_ok)
next
  case (poll_fetches w report)
  then show ?thesis using ok snapshot_accepted [OF poll_fetches(4)] by (simp add: poller_ok_def)
next
  case (poll_fails err d pl1)
  then obtain b where pl1: "pl1 = pl\<lparr>pl_store := evidence_mark_failed (kind_of err) (pl_store pl), pl_backoff := b\<rparr>"
    by (auto simp: poll_next_backoff_def)
  show ?thesis using ok poll_fails(3) unfolding poll_fails(2) pl1 by (simp add: poller_ok_def evidence_mark_failed_def Let_def)
next
  case (poll_publishes report now entropy)
  with ok have "collection_of (re_evidence_generation report) (pl_backups pl) (pl_backups_truncated pl)"
    by (auto simp: poller_ok_def)
  with poll_publishes ok show ?thesis by (simp add: poller_ok_def evidence_publish_def)
next
  case poll_cancels
  then show ?thesis using ok by (cases "pl_phase pl") (auto simp: poller_ok_def)
qed (use ok in \<open>simp_all add: poller_ok_def\<close>)

lemma poller_ok_run: "poll_run f acts pl \<Longrightarrow> poller_ok pl"
proof (induction rule: poll_run.induct)
  case poll_starts
  show ?case by (simp add: poller_ok_def new_poller_def new_evidence_store_def)
qed (rule poller_ok_step)

end

section \<open>What a trace says\<close>

fun published_reports :: "poll_act list \<Rightarrow> (report \<times> instant) list" where
  "published_reports [] = []"
| "published_reports (PollPublished r t # acts) = (r, t) # published_reports acts"
| "published_reports (a # acts) = published_reports acts"

text \<open>The failure since the last publication.\<close>

fun lost_contact :: "failure_kind option \<Rightarrow> poll_act list \<Rightarrow> failure_kind option" where
  "lost_contact k [] = k"
| "lost_contact k (PollPublished r t # acts) = lost_contact None acts"
| "lost_contact k (PollLost kind line # acts) = lost_contact (Some kind) acts"
| "lost_contact k (a # acts) = lost_contact k acts"

text \<open>The number of failures since then, less one.\<close>

fun poll_pace :: "nat option \<Rightarrow> poll_act list \<Rightarrow> nat option" where
  "poll_pace n [] = n"
| "poll_pace n (PollPublished r t # acts) = poll_pace None acts"
| "poll_pace n (PollLost kind line # acts) = poll_pace (Some (case n of None \<Rightarrow> 0 | Some m \<Rightarrow> m + 1)) acts"
| "poll_pace n (a # acts) = poll_pace n acts"

lemma published_reports_append [simp]: "published_reports (xs @ ys) = published_reports xs @ published_reports ys"
  by (induction xs rule: published_reports.induct) auto

lemma lost_contact_append [simp]: "lost_contact k (xs @ ys) = lost_contact (lost_contact k xs) ys"
  by (induction k xs rule: lost_contact.induct) auto

lemma poll_pace_append [simp]: "poll_pace n (xs @ ys) = poll_pace (poll_pace n xs) ys"
  by (induction n xs rule: poll_pace.induct) auto

definition status_ok :: "poll_act list \<Rightarrow> evidence_store \<Rightarrow> bool" where
  "status_ok acts s \<longleftrightarrow>
     (es_has s \<longleftrightarrow> published_reports acts \<noteq> []) \<and>
     eg_generation (es_snap s) = of_nat (length (published_reports acts)) \<and>
     es_failure s = (case lost_contact None acts of None \<Rightarrow> FailureNone | Some kind \<Rightarrow> kind) \<and>
     (es_has s \<longrightarrow>
        (eg_report (es_snap s), eg_observed_at (es_snap s)) = last (published_reports acts) \<and>
        (eg_stale (es_snap s) \<longleftrightarrow> lost_contact None acts \<noteq> None) \<and>
        eg_failure (es_snap s) = es_failure s)"

lemma assembled_store: "poll_assemble f w report pl = (e, pl') \<Longrightarrow> pl_store pl' = pl_store pl \<and> pl_backoff pl' = pl_backoff pl"
  by (auto simp: poll_assemble_def set_assembled_def split: if_splits sum.splits)

lemma status_ok_step:
  assumes "poll_step f pl a pl'" and ok: "status_ok acts (pl_store pl)"
  shows "status_ok (acts @ [a]) (pl_store pl')"
  using assms(1)
proof (cases rule: poll_step.cases)
  case (poll_fails err d pl1)
  then have "pl_store pl1 = evidence_mark_failed (kind_of err) (pl_store pl)" by (auto simp: poll_next_backoff_def)
  with poll_fails ok show ?thesis by (auto simp: status_ok_def evidence_mark_failed_def Let_def)
qed (use ok in \<open>auto simp: status_ok_def evidence_publish_def dest: assembled_store\<close>)

lemma status_ok_run: "poll_run f acts pl \<Longrightarrow> status_ok acts (pl_store pl)"
proof (induction rule: poll_run.induct)
  case poll_starts
  show ?case by (simp add: status_ok_def new_poller_def new_evidence_store_def)
qed (rule status_ok_step)

text \<open>The delay after the \<open>n\<close>-th further failure.\<close>

definition poll_delay :: "nat \<Rightarrow> duration" where
  "poll_delay n = min poll_backoff_max (poll_backoff_initial * 2 ^ n)"

definition delay_ok :: "nat option \<Rightarrow> duration \<Rightarrow> bool" where
  "delay_ok n d \<longleftrightarrow>
     (case n of None \<Rightarrow> poll_interval \<le> d \<and> d < poll_interval + poll_jitter_max | Some k \<Rightarrow> d = poll_delay k)"

definition poll_paced :: "poll_act list \<Rightarrow> poller \<Rightarrow> bool" where
  "poll_paced acts pl \<longleftrightarrow>
     pl_backoff pl = poll_delay (case poll_pace None acts of None \<Rightarrow> 0 | Some n \<Rightarrow> n + 1) \<and>
     (case pl_phase pl of PollWaiting d \<Rightarrow> delay_ok (poll_pace None acts) d | _ \<Rightarrow> True)"

lemma random_jitter_bound: "0 \<le> random_jitter e poll_jitter_max \<and> random_jitter e poll_jitter_max < poll_jitter_max"
  by (cases e) (simp_all add: random_jitter_def poll_jitter_max_def second_def quo_def)

lemma poll_delay_double: "(if poll_delay n * 2 > poll_backoff_max then poll_backoff_max else poll_delay n * 2) = poll_delay (Suc n)"
proof -
  have "0 < poll_backoff_initial" by (simp add: poll_backoff_initial_def)
  then show ?thesis using second_pos by (auto simp: poll_delay_def min_def poll_backoff_max_def simp del: second_pos)
qed

lemma poll_delay_0: "poll_delay 0 = poll_backoff_initial"
  by (simp add: poll_delay_def poll_backoff_initial_def poll_backoff_max_def second_def)

lemma poll_paced_step:
  assumes "poll_step f pl a pl'" and ok: "poll_paced acts pl"
  shows "poll_paced (acts @ [a]) pl'"
  using assms(1)
proof (cases rule: poll_step.cases)
  case (poll_fails err d pl1)
  then have d: "d = pl_backoff pl"
    and b: "pl_backoff pl1 = (if pl_backoff pl * 2 > poll_backoff_max then poll_backoff_max else pl_backoff pl * 2)"
    by (auto simp: poll_next_backoff_def)
  define k where "k = (case poll_pace None acts of None \<Rightarrow> 0 | Some n \<Rightarrow> n + 1)"
  from ok have "pl_backoff pl = poll_delay k" by (simp add: poll_paced_def k_def)
  with d b have "d = poll_delay k" "pl_backoff pl1 = poll_delay (Suc k)" by (simp_all only: poll_delay_double)
  with poll_fails show ?thesis by (simp add: poll_paced_def delay_ok_def k_def split: option.splits)
next
  case (poll_publishes report now entropy)
  then show ?thesis using random_jitter_bound [of entropy] by (simp add: poll_paced_def delay_ok_def poll_delay_0)
next
  case poll_cancels
  then show ?thesis using ok by (cases "pl_phase pl") (simp_all add: poll_paced_def)
qed (use ok in \<open>auto simp: poll_paced_def dest: assembled_store\<close>)

lemma poll_paced_run: "poll_run f acts pl \<Longrightarrow> poll_paced acts pl"
proof (induction rule: poll_run.induct)
  case poll_starts
  show ?case by (simp add: poll_paced_def new_poller_def poll_delay_0)
qed (rule poll_paced_step)

section \<open>The client's evidence\<close>

definition report_expected :: "expectation \<Rightarrow> report \<Rightarrow> bool" where
  "report_expected expect r \<longleftrightarrow>
     re_fingerprint r = ex_fingerprint expect \<and> re_scope_name r = ex_barman_server expect \<and>
     re_cluster_namespace r = ex_namespace expect"

text \<open>The collection of one publication: a chain of validated pages, followed to its end or to the bound.\<close>

definition whole_collection :: "producer \<Rightarrow> 64 word \<Rightarrow> 64 word \<Rightarrow> repo_backup list \<Rightarrow> bool \<Rightarrow> bool" where
  "whole_collection p revision generation backups truncated \<longleftrightarrow>
     (\<exists>serve pages. pages \<noteq> [] \<and> length pages \<le> max_assembly_pages \<and>
        page_chain p serve revision generation 0 '''' pages \<and>
        list_all (\<lambda>pg. wp_revision pg = revision \<and> wp_evidence_generation pg = generation \<and> pd_validate_page p pg = None) pages \<and>
        backups = take max_repository_backups (chain_items pages) \<and>
        (truncated \<longleftrightarrow> max_repository_backups < length (chain_items pages)) \<and>
        (truncated \<or> wp_next_cursor (last pages) = None))"

lemma fetched_snapshot_expected: "fetch_snapshot p expect serve = Inr r \<Longrightarrow> report_expected expect r"
  by (auto simp: fetch_snapshot_def check_identity_def project_snapshot_def report_expected_def
      split: sum.splits if_splits option.splits)

lemma fetched_backups_whole:
  assumes "fetch_backups p serve revision generation = Inr (backups, truncated)"
  shows "whole_collection p revision generation backups truncated"
proof -
  from assemble_pages_chain [OF assms [unfolded fetch_backups_def]] obtain pages where
    pages: "pages \<noteq> []" "length pages \<le> max_assembly_pages" "page_chain p serve revision generation 0 '''' pages"
      "backups = take max_repository_backups (chain_items pages)"
      "truncated \<longleftrightarrow> max_repository_backups < length (chain_items pages)" "\<not> truncated \<longrightarrow> wp_next_cursor (last pages) = None"
    by auto
  then have "list_all (\<lambda>pg. wp_revision pg = revision \<and> wp_evidence_generation pg = generation \<and> pd_validate_page p pg = None) pages"
    using page_chain_publication [OF pages(3)] by (simp add: list_all_iff)
  with pages show ?thesis unfolding whole_collection_def by blast
qed

interpretation ec: evidence_fetcher "client_fetcher p expect" "report_expected expect" "whole_collection p" for p expect
  by unfold_locales (auto simp: client_fetcher_def intro: fetched_snapshot_expected fetched_backups_whole)

text \<open>C23. What the console shows of the repository is bound to its configuration and is whole. After
any run of the poller over any answers of the sidecar, a report shown carries the expected
fingerprint, server and namespace, and the backups shown with it are the collection of that report's
evidence generation: empty for generation zero, and otherwise the items of a chain of validated pages
of one revision of that generation, at most 1000 of them, complete unless flagged truncated.\<close>

theorem evidence_shown_is_whole:
  assumes "poll_run (client_fetcher p expect) acts pl" and "ev_has_report (current_evidence (pl_store pl))"
  defines "s \<equiv> ev_snapshot (current_evidence (pl_store pl))"
  shows "report_expected expect (eg_report s) \<and>
    (if re_evidence_generation (eg_report s) = 0 then eg_backups s = [] \<and> \<not> eg_backups_truncated s
     else \<exists>revision. whole_collection p revision (re_evidence_generation (eg_report s)) (eg_backups s) (eg_backups_truncated s))"
  using ec.poller_ok_run [OF assms(1)] assms(2)
  by (simp add: ec.poller_ok_def ec.collection_of_def s_def current_evidence_def)

subsection \<open>A sidecar\<close>

definition one_fact :: state_fact where "one_fact = \<lparr>st_state = ''healthy'', st_code = ''ok''\<rparr>"

definition one_snapshot :: wire_snapshot where
  "one_snapshot =
     \<lparr>ws_api_version = ''v'', ws_kind = ''s'', ws_producer_version = ''1'',
      ws_identity = \<lparr>wi_namespace = ''ns'', wi_cluster_uid = ''u'', wi_cluster_name = None, wi_provider = ''s3'',
        wi_format = ''barman'', wi_scope_kind = ''barman-server'', wi_scope_name = ''pg'', wi_fingerprint = ''f''\<rparr>,
      ws_revision = 7, ws_evidence_generation = 3, ws_started_at = None, ws_completed_at = None,
      ws_last_attempt_at = None, ws_completeness = ''complete'', ws_stale = False, ws_overall = one_fact,
      ws_capabilities = [],
      ws_inventory = \<lparr>wv_known = False, wv_object_count = None, wv_stored_bytes = None, wv_unscoped_object_count = None,
        wv_pages_examined = 0, wv_objects_examined = 0, wv_last_failure_category = None\<rparr>,
      ws_details_type = ''barman'', ws_details_unknown = True, ws_barman_cloud = None\<rparr>"

definition one_wire_backup :: wire_backup where
  "one_wire_backup =
     \<lparr>wk_server = ''pg'', wk_backup_id = ''20260101T000000'', wk_result = one_fact, wk_timeline = Some 1,
      wk_begin_at = None, wk_end_at = Some 0, wk_stored_artifact_bytes = None, wk_status = None, wk_backup_type = None\<rparr>"

definition one_page :: wire_page where
  "one_page =
     \<lparr>wp_api_version = ''v'', wp_kind = ''p'', wp_revision = 7, wp_evidence_generation = 3,
      wp_items = [one_wire_backup], wp_next_cursor = None\<rparr>"

definition one_producer :: producer where
  "one_producer =
     \<lparr>pd_api_version = ''v'', pd_snapshot_kind = ''s'', pd_page_kind = ''p'',
      pd_decode_snapshot = (\<lambda>body. Inr one_snapshot), pd_validate_snapshot = (\<lambda>snapshot. None),
      pd_decode_page = (\<lambda>body. Inr one_page), pd_validate_page = (\<lambda>page. None)\<rparr>"

definition one_expectation :: expectation where
  "one_expectation = \<lparr>ex_fingerprint = ''f'', ex_barman_server = ''pg'', ex_namespace = ''ns''\<rparr>"

definition one_sidecar :: "nat \<Rightarrow> string \<Rightarrow> http_answer" where
  "one_sidecar i path = Answered 200 media_type (Inr ''{}'')"

abbreviation "one_fetcher \<equiv> client_fetcher one_producer one_expectation"

lemma one_snapshot_fetched: "fr_snapshot one_fetcher one_sidecar = Inr (project_snapshot one_snapshot)"
  by (simp add: client_fetcher_def fetch_snapshot_def get_json_def one_sidecar_def one_producer_def snapshot_max_bytes_def
      one_snapshot_def check_identity_def one_expectation_def has_prefix_def Let_def)

lemma one_page_fetched: "fetch_page one_producer (one_sidecar i) 7 3 cursor = Inr one_page"
  by (simp add: fetch_page_def get_json_def one_sidecar_def one_producer_def page_max_bytes_def one_page_def has_prefix_def Let_def)

lemma one_page_collected:
  "assemble_pages one_producer (\<lambda>i. one_sidecar (i + 1)) 7 3 (Suc n) i cursor [] = Inr ([project_backup one_wire_backup], False)"
proof -
  have "wp_items one_page = [one_wire_backup]" "wp_next_cursor one_page = None" "0 < max_repository_backups"
    by (simp_all add: one_page_def max_repository_backups_def)
  then show ?thesis by (simp add: one_page_fetched)
qed

lemma one_backups_fetched: "fr_backups one_fetcher one_sidecar 7 3 = Inr ([project_backup one_wire_backup], False)"
  using one_page_collected [of 19 0 "[]"]
  by (simp add: client_fetcher_def fetch_backups_def max_assembly_pages_def del: assemble_pages.simps)

definition published_poller :: poller where
  "published_poller =
     (set_assembled 3 [project_backup one_wire_backup] False new_poller)
       \<lparr>pl_store := evidence_publish (project_snapshot one_snapshot) [project_backup one_wire_backup] False 0 new_evidence_store,
        pl_phase := PollWaiting (poll_interval + random_jitter None poll_jitter_max)\<rparr>"

abbreviation "published_acts \<equiv> [PollSilent, PollSilent, PollSilent, PollPublished (project_snapshot one_snapshot) 0]"

lemma poll_step_more: "poll_run f acts pl \<Longrightarrow> poll_step f pl a pl' \<Longrightarrow> acts' = acts @ [a] \<Longrightarrow> pl'' = pl' \<Longrightarrow> poll_run f acts' pl''"
  by (simp add: poll_more)

lemma published_poller_run: "poll_run one_fetcher published_acts published_poller"
proof -
  have 1: "poll_run one_fetcher [PollSilent] (new_poller\<lparr>pl_phase := PollFetching\<rparr>)"
    by (rule poll_step_more [OF poll_starts poll_goes]) (simp_all add: new_poller_def)
  have 2: "poll_run one_fetcher [PollSilent, PollSilent] (new_poller\<lparr>pl_phase := PollFetched (project_snapshot one_snapshot)\<rparr>)"
    by (rule poll_step_more [OF 1 poll_fetches [OF _ one_snapshot_fetched]]) simp_all
  have "poll_assemble one_fetcher one_sidecar (project_snapshot one_snapshot)
      (new_poller\<lparr>pl_phase := PollFetched (project_snapshot one_snapshot)\<rparr>) =
    (None, set_assembled 3 [project_backup one_wire_backup] False (new_poller\<lparr>pl_phase := PollFetched (project_snapshot one_snapshot)\<rparr>))"
    using one_backups_fetched by (simp add: poll_assemble_def new_poller_def project_snapshot_def one_snapshot_def)
  from poll_step_more [OF 2 poll_assembles [OF _ this] refl refl]
  have 3: "poll_run one_fetcher [PollSilent, PollSilent, PollSilent]
      ((set_assembled 3 [project_backup one_wire_backup] False new_poller)\<lparr>pl_phase := PollPublishing (project_snapshot one_snapshot)\<rparr>)"
    by (simp add: set_assembled_def new_poller_def)
  show ?thesis
    by (rule poll_step_more [OF 3 poll_publishes])
      (simp_all add: published_poller_def set_assembled_def new_poller_def)
qed

theorem evidence_shown_is_whole_witness:
  "\<exists>acts pl revision. poll_run one_fetcher acts pl \<and>
     map rb_backup_id (eg_backups (es_snap (pl_store pl))) = [''20260101T000000''] \<and>
     whole_collection one_producer revision 3 (eg_backups (es_snap (pl_store pl))) False"
proof -
  let ?s = "ev_snapshot (current_evidence (pl_store published_poller))"
  have facts: "ev_has_report (current_evidence (pl_store published_poller))" "re_evidence_generation (eg_report ?s) = 3"
    "\<not> eg_backups_truncated ?s" "map rb_backup_id (eg_backups ?s) = [''20260101T000000'']" "?s = es_snap (pl_store published_poller)"
    by (simp_all add: current_evidence_def published_poller_def evidence_publish_def project_snapshot_def one_snapshot_def
        project_backup_def one_wire_backup_def)
  with evidence_shown_is_whole [OF published_poller_run facts(1)]
  obtain revision where "whole_collection one_producer revision 3 (eg_backups ?s) False" by auto
  with facts(4) published_poller_run show ?thesis unfolding facts(5) by (intro exI conjI)
qed

section \<open>The status and the pace\<close>

text \<open>The status is exactly the contact the poller had. After any run, over any fetcher, there is a
report just when one was published; its generation counts the publications, it is the last one
published, stamped with that instant; the failure shown is that of the last failed poll since, none if
there was none; and the report is stale just when a poll has failed since.\<close>

theorem evidence_status_follows_contact:
  assumes "poll_run f acts pl"
  defines "s \<equiv> current_evidence (pl_store pl)"
  shows "(ev_has_report s \<longleftrightarrow> published_reports acts \<noteq> []) \<and>
    eg_generation (ev_snapshot s) = of_nat (length (published_reports acts)) \<and>
    ev_failure s = (case lost_contact None acts of None \<Rightarrow> FailureNone | Some kind \<Rightarrow> kind) \<and>
    (ev_has_report s \<longrightarrow>
       (eg_report (ev_snapshot s), eg_observed_at (ev_snapshot s)) = last (published_reports acts) \<and>
       (eg_stale (ev_snapshot s) \<longleftrightarrow> lost_contact None acts \<noteq> None) \<and>
       eg_failure (ev_snapshot s) = ev_failure s)"
  using status_ok_run [OF assms(1)] by (simp add: status_ok_def s_def current_evidence_def)

text \<open>After the publication the sidecar answers that it is busy.\<close>

definition busy_sidecar :: "nat \<Rightarrow> string \<Rightarrow> http_answer" where
  "busy_sidecar i path = Answered 429 '''' (Inr '''')"

definition busy_poller :: poller where
  "busy_poller =
     published_poller\<lparr>pl_store := evidence_mark_failed FailureBusy (pl_store published_poller),
       pl_backoff := poll_delay 1, pl_phase := PollWaiting (poll_delay 0)\<rparr>"

abbreviation "busy_acts \<equiv> published_acts @ [PollSlept (poll_interval + random_jitter None poll_jitter_max), PollSilent, PollSilent,
  PollLost FailureBusy (safe (Some (evidence_failure FailureBusy None)))]"

lemma busy_poller_run: "poll_run one_fetcher busy_acts busy_poller"
proof -
  let ?err = "evidence_failure FailureBusy None"
  have live: "\<not> pl_cancelled published_poller"
    by (simp add: published_poller_def set_assembled_def new_poller_def)
  have busy: "fr_snapshot one_fetcher busy_sidecar = Inl ?err"
    by (simp add: client_fetcher_def fetch_snapshot_def get_json_def busy_sidecar_def)
  have kind: "kind_of ?err = FailureBusy" by (simp add: evidence_failure_def kind_of_def)
  have backoff: "pl_backoff published_poller = poll_backoff_initial"
    by (simp add: published_poller_def set_assembled_def new_poller_def)
  have 1: "poll_run one_fetcher (published_acts @ [PollSlept (poll_interval + random_jitter None poll_jitter_max)])
      (published_poller\<lparr>pl_phase := PollTop\<rparr>)"
    by (rule poll_step_more [OF published_poller_run poll_wakes]) (simp_all add: published_poller_def)
  have 2: "poll_run one_fetcher (published_acts @ [PollSlept (poll_interval + random_jitter None poll_jitter_max), PollSilent])
      (published_poller\<lparr>pl_phase := PollFetching\<rparr>)"
    by (rule poll_step_more [OF 1 poll_goes]) (simp_all add: live)
  have 3: "poll_run one_fetcher (published_acts @ [PollSlept (poll_interval + random_jitter None poll_jitter_max), PollSilent, PollSilent])
      (published_poller\<lparr>pl_phase := PollFailed ?err\<rparr>)"
    by (rule poll_step_more [OF 2 poll_fetch_fails [OF _ busy]]) simp_all
  let ?pl = "published_poller\<lparr>pl_phase := PollFailed ?err\<rparr>"
  have 4: "poll_next_backoff (?pl\<lparr>pl_store := evidence_mark_failed (kind_of ?err) (pl_store ?pl)\<rparr>) =
      (poll_delay 0, busy_poller\<lparr>pl_phase := PollFailed ?err\<rparr>)"
    by (simp add: kind poll_next_backoff_def backoff busy_poller_def poll_delay_def poll_backoff_initial_def
        poll_backoff_max_def second_def)
  show ?thesis
    by (rule poll_step_more [OF 3 poll_fails [OF _ _ 4]])
      (simp_all add: live kind busy_poller_def)
qed

theorem evidence_status_follows_contact_witness:
  "\<exists>acts pl. poll_run one_fetcher acts pl \<and> eg_stale (es_snap (pl_store pl)) \<and> eg_generation (es_snap (pl_store pl)) = 1 \<and>
     es_failure (pl_store pl) = FailureBusy \<and> re_cluster_uid (eg_report (es_snap (pl_store pl))) = ''u''"
proof -
  have "re_cluster_uid (project_snapshot one_snapshot) = ''u''" by (simp add: project_snapshot_def one_snapshot_def)
  with evidence_status_follows_contact [OF busy_poller_run]
  have "eg_stale (es_snap (pl_store busy_poller)) \<and> eg_generation (es_snap (pl_store busy_poller)) = 1 \<and>
    es_failure (pl_store busy_poller) = FailureBusy \<and>
    re_cluster_uid (eg_report (es_snap (pl_store busy_poller))) = ''u''"
    by (auto simp: current_evidence_def)
  with busy_poller_run show ?thesis by (intro exI [of _ busy_acts] exI [of _ busy_poller] conjI) simp_all
qed

text \<open>The sidecar is never polled in a storm. In any run, over any fetcher, a wait after a
publication lasts at least the interval of 15 seconds and less than 3 seconds more, and the wait after
the \<open>n\<close>-th failure in a row is \<open>2 ^ n\<close> seconds up to 30.\<close>

theorem evidence_polls_are_paced:
  assumes "poll_run f acts pl" and "pl_phase pl = PollWaiting d"
  shows "case poll_pace None acts of
      None \<Rightarrow> 15 * second \<le> d \<and> d < 18 * second
    | Some n \<Rightarrow> d = min (30 * second) (2 ^ n * second)"
  using poll_paced_run [OF assms(1)] assms(2)
  by (auto simp: poll_paced_def delay_ok_def poll_delay_def poll_interval_def poll_jitter_max_def poll_backoff_max_def
      poll_backoff_initial_def mult.commute split: option.splits)

theorem evidence_polls_are_paced_witness:
  "\<exists>acts pl d. poll_run one_fetcher acts pl \<and> pl_phase pl = PollWaiting d \<and> d = min (30 * second) second"
proof -
  have "pl_phase busy_poller = PollWaiting (poll_delay 0)" by (simp add: busy_poller_def)
  from evidence_polls_are_paced [OF busy_poller_run this] this busy_poller_run show ?thesis
    by (intro exI [of _ busy_acts] exI [of _ busy_poller] exI [of _ "poll_delay 0"] conjI) simp_all
qed

end
