(* ===== verification/CrossCheck.thy ===== *)
theory CrossCheck
  imports GoTime EvidencePoller ObserveBackups ObserveSingle
begin

text \<open>
  The backup cross-check of \<open>internal/web/crosscheck.go\<close>: the operator's catalog of backups beside the
  repository's evidence, correlated by exact backup ID under the observed identity of the cluster. It
  composes three stores: the catalog of \<open>ObserveBackups\<close>, the evidence of \<open>EvidencePoller\<close> and the
  cluster of \<open>ObserveSingle\<close>.
\<close>

section \<open>Times as the pages show them\<close>

definition unknown_text :: string where "unknown_text = ''unknown''"

definition or_unknown :: "string \<Rightarrow> string" where
  "or_unknown s = (if s = '''' then unknown_text else s)"

definition format_time :: "instant option \<Rightarrow> string" where
  "format_time v = (case v of None \<Rightarrow> unknown_text | Some t \<Rightarrow> if is_zero t then unknown_text else utc_text t)"

section \<open>The view\<close>

definition accepted_barman_plugin :: string where "accepted_barman_plugin = ''barman-cloud.cloudnative-pg.io''"
definition method_barman_object_store :: string where "method_barman_object_store = ''barmanObjectStore''"
definition method_plugin :: string where "method_plugin = ''plugin''"
definition completed_phase :: string where "completed_phase = ''completed''"
definition max_orphan_rows :: nat where "max_orphan_rows = 50"

datatype outcome =
    OutcomeAgreement | OutcomeOperatorOnly | OutcomeDiscrepancy | OutcomeOrphan | OutcomeAmbiguous | OutcomeUnknown

datatype origin = OriginOperator | OriginKubernetes | OriginRepository

record cross_check_row =
  xr_name :: string
  xr_operator_claim :: string
  xr_backup_id :: string
  xr_repository_claim :: string
  xr_outcome :: outcome
  xr_detail :: string
  xr_finding :: bool

record orphan_row =
  xo_backup_id :: string
  xo_repository_claim :: string
  xo_completed :: string

record cross_check_view =
  xv_operator_origin :: origin
  xv_repository_origin :: origin
  xv_degraded :: string
  xv_rows :: "cross_check_row list"
  xv_orphans :: "orphan_row list"
  xv_orphans_truncated :: bool
  xv_orphans_unknown :: string
  xv_finding_count :: int

record cross_check_inputs =
  xi_backups :: backups_snapshot
  xi_evidence :: evidence_status
  xi_cluster :: cluster_snapshot
  xi_cluster_ok :: bool

text \<open>\<open>StateLineView.Display\<close>.\<close>

definition state_display :: "state_fact \<Rightarrow> string" where
  "state_display s =
     (if st_state s = '''' then unknown_text
      else if st_code s = '''' then st_state s
      else st_state s @ '' ('' @ st_code s @ '')'')"

subsection \<open>The identity of the cluster\<close>

datatype identity_match = IdentityUnknown | IdentityMatchCurrent | IdentityMatchStale | IdentityMismatch

definition cluster_identity_match :: "string \<Rightarrow> cluster_snapshot \<Rightarrow> bool \<Rightarrow> identity_match" where
  "cluster_identity_match evidence_uid cluster cluster_ok =
     (if \<not> cluster_ok \<or> \<not> cf_present (cn_cluster cluster) \<or> cf_uid (cn_cluster cluster) = '''' then IdentityUnknown
      else if cf_uid (cn_cluster cluster) \<noteq> evidence_uid then IdentityMismatch
      else if og_stale cluster then IdentityMatchStale
      else IdentityMatchCurrent)"

definition degraded_reason :: "cross_check_inputs \<Rightarrow> identity_match \<Rightarrow> string" where
  "degraded_reason i identity =
     (let ev = xi_evidence i; sn = ev_snapshot ev; catalog_stale = og_stale (xi_backups i);
          source_stale = re_source_stale (eg_report sn)
      in if \<not> ev_has_report ev then ''repository evidence unavailable'' @ dash @ ''no successful sidecar contact''
         else if re_evidence_generation (eg_report sn) = 0 then ''no completed repository scan''
         else if identity = IdentityMismatch
         then ''cluster identity mismatch'' @ dash @ ''the evidence is bound to a different cluster incarnation''
         else if identity = IdentityUnknown
         then ''cluster identity unknown'' @ dash @ ''no observed cluster UID to compare against''
         else if catalog_stale \<and> (eg_stale sn \<or> source_stale)
         then ''both sources stale'' @ dash @ ''operator catalog and repository evidence''
         else if catalog_stale then ''operator catalog stale''
         else if eg_stale sn then ''repository evidence stale (console contact lost)''
         else if source_stale then ''repository evidence stale (sidecar-reported)''
         else if identity = IdentityMatchStale
         then ''cluster observation stale'' @ dash @ ''matches are historical, not current agreement''
         else '''')"

subsection \<open>The rows\<close>

text \<open>The loop of \<open>indexRepoBackups\<close>, over the index and the duplicated identities.\<close>

definition index_item :: "repo_backup \<Rightarrow> (string, repo_backup) gomap \<times> string list \<Rightarrow> (string, repo_backup) gomap \<times> string list" where
  "index_item item acc =
     (case mget (fst acc) (rb_backup_id item) of
        Some _ \<Rightarrow> (fst acc, rb_backup_id item # snd acc)
      | None \<Rightarrow> (mput (rb_backup_id item) item (fst acc), snd acc))"

definition index_repo_backups :: "repo_backup list \<Rightarrow> (string, repo_backup) gomap \<times> string list" where
  "index_repo_backups items = fold index_item items ([], [])"

definition match_outcome :: "string \<Rightarrow> (string, repo_backup) gomap \<Rightarrow> bool \<Rightarrow> outcome \<times> string \<times> bool" where
  "match_outcome backup_id repo_by_id repo_truncated =
     (case mget repo_by_id backup_id of
        None \<Rightarrow>
          if repo_truncated
          then (OutcomeUnknown, ''repository collection truncated'' @ dash @ ''absence cannot be concluded'', False)
          else (OutcomeDiscrepancy, ''completed claim without repository artifacts'', True)
      | Some item \<Rightarrow>
          if st_state (rb_result item) \<in> {''healthy'', ''warning''}
          then (OutcomeAgreement, ''operator claim plus structural repository evidence'', False)
          else if st_state (rb_result item) = ''unhealthy''
          then (OutcomeDiscrepancy, ''repository evidence contradicts the completed claim'', True)
          else (OutcomeUnknown, ''repository evidence state unknown'', False))"

definition repository_backed :: "backup_facts \<Rightarrow> bool" where
  "repository_backed b \<longleftrightarrow>
     bf_method b = method_barman_object_store \<or> bf_method b = method_plugin \<and> bf_plugin_name b = accepted_barman_plugin"

definition correlate_row :: "backup_facts \<Rightarrow> (string, repo_backup) gomap \<Rightarrow> string list \<Rightarrow> (string, int) gomap \<Rightarrow> string \<Rightarrow>
    bool \<Rightarrow> cross_check_row" where
  "correlate_row b repo_by_id repo_duplicates operator_id_counts degraded repo_truncated =
     (let (decided, detail, finding) =
        (if degraded \<noteq> '''' then (OutcomeUnknown, degraded, False)
         else if \<not> repository_backed b then (OutcomeOperatorOnly, ''not a repository-backed method'', False)
         else if bf_phase b \<noteq> completed_phase
         then (OutcomeOperatorOnly, ''not completed'' @ dash @ ''no repository counterpart expected yet'', False)
         else if bf_backup_id b = ''''
         then (OutcomeOperatorOnly, ''no backup ID reported'' @ dash @ ''nothing to correlate by'', False)
         else if (case mget operator_id_counts (bf_backup_id b) of Some n \<Rightarrow> n | None \<Rightarrow> 0) > 1
         then (OutcomeAmbiguous, ''more than one Backup resource carries this backup ID'', False)
         else if bf_backup_id b \<in> set repo_duplicates
         then (OutcomeAmbiguous, ''more than one repository item carries this backup ID'', False)
         else match_outcome (bf_backup_id b) repo_by_id repo_truncated)
      in \<lparr>xr_name = or_unknown (bf_name b), xr_operator_claim = or_unknown (bf_phase b),
          xr_backup_id = or_unknown (bf_backup_id b),
          xr_repository_claim =
            (case mget repo_by_id (bf_backup_id b) of
               Some item \<Rightarrow> if bf_backup_id b \<noteq> '''' then state_display (rb_result item) else ''not observed''
             | None \<Rightarrow> ''not observed''),
          xr_outcome = decided, xr_detail = detail, xr_finding = finding\<rparr>)"

subsection \<open>The orphans and the whole\<close>

text \<open>\<open>sort.Slice\<close> with the newest identifier first. The Go sort is not stable, so the order of items that share
  an identifier, and which of them the cut at fifty keeps, is not determined by the code; the model
  keeps the order of the collection.\<close>

definition newest_id_first :: "repo_backup \<Rightarrow> repo_backup \<Rightarrow> bool" where
  "newest_id_first a b \<longleftrightarrow> str_less (rb_backup_id b) (rb_backup_id a)"

definition orphan_row_of :: "repo_backup \<Rightarrow> orphan_row" where
  "orphan_row_of item =
     \<lparr>xo_backup_id = rb_backup_id item, xo_repository_claim = state_display (rb_result item),
      xo_completed = format_time (rb_end_at item)\<rparr>"

definition build_orphans :: "cross_check_inputs \<Rightarrow> string list \<Rightarrow> cross_check_view \<Rightarrow> cross_check_view" where
  "build_orphans i accounted v =
     (if xv_degraded v \<noteq> '''' then v\<lparr>xv_orphans_unknown := xv_degraded v\<rparr>
      else if bn_backups_truncated (xi_backups i)
      then v\<lparr>xv_orphans_unknown := ''operator catalog truncated'' @ dash @ ''absence cannot be concluded''\<rparr>
      else if eg_backups_truncated (ev_snapshot (xi_evidence i))
      then v\<lparr>xv_orphans_unknown := ''repository collection truncated'' @ dash @ ''absence cannot be concluded''\<rparr>
      else
        (let orphans = sort_by newest_id_first
               (filter (\<lambda>item. rb_backup_id item \<notin> set accounted) (eg_backups (ev_snapshot (xi_evidence i))))
         in v\<lparr>xv_orphans := map orphan_row_of (take max_orphan_rows orphans),
              xv_orphans_truncated := max_orphan_rows < length orphans,
              xv_finding_count := xv_finding_count v + int (length orphans)\<rparr>))"

definition count_id :: "backup_facts \<Rightarrow> (string, int) gomap \<Rightarrow> (string, int) gomap" where
  "count_id b counts =
     (if bf_backup_id b \<noteq> ''''
      then mput (bf_backup_id b) ((case mget counts (bf_backup_id b) of Some n \<Rightarrow> n | None \<Rightarrow> 0) + 1) counts
      else counts)"

definition build_cross_check :: "cross_check_inputs \<Rightarrow> cross_check_view" where
  "build_cross_check i =
     (let sn = ev_snapshot (xi_evidence i);
          identity = cluster_identity_match (re_cluster_uid (eg_report sn)) (xi_cluster i) (xi_cluster_ok i);
          degraded = degraded_reason i identity;
          (repo_by_id, repo_duplicates) = index_repo_backups (eg_backups sn);
          counts = fold count_id (bn_backups (xi_backups i)) [];
          rows = map (\<lambda>b. correlate_row b repo_by_id repo_duplicates counts degraded (eg_backups_truncated sn))
            (bn_backups (xi_backups i));
          accounted = filter (\<lambda>k. k \<noteq> '''') (map bf_backup_id (bn_backups (xi_backups i)))
      in build_orphans i accounted
           \<lparr>xv_operator_origin = OriginOperator, xv_repository_origin = OriginRepository, xv_degraded = degraded,
            xv_rows = rows, xv_orphans = [], xv_orphans_truncated = False, xv_orphans_unknown = '''',
            xv_finding_count = int (length (filter xr_finding rows))\<rparr>)"

section \<open>What the indexes hold\<close>

lemma index_repo_backups_snoc: "index_repo_backups (items @ [x]) = index_item x (index_repo_backups items)"
  by (simp add: index_repo_backups_def)

lemma find_snoc: "find P (xs @ [x]) = (case find P xs of Some y \<Rightarrow> Some y | None \<Rightarrow> if P x then Some x else None)"
  by (induction xs) auto

lemma find_as_filter: "find P xs = (case filter P xs of [] \<Rightarrow> None | x # _ \<Rightarrow> Some x)"
  by (induction xs) auto

lemma indexed_first: "mget (fst (index_repo_backups items)) k = find (\<lambda>x. rb_backup_id x = k) items"
proof (induction items arbitrary: k rule: rev_induct)
  case Nil
  show ?case by (simp add: index_repo_backups_def)
next
  case (snoc x items)
  show ?case
    by (auto simp: index_repo_backups_snoc index_item_def find_snoc snoc mget_mput split: option.splits)
qed

lemma indexed_duplicates: "k \<in> set (snd (index_repo_backups items)) \<longleftrightarrow> 1 < length (filter (\<lambda>x. rb_backup_id x = k) items)"
proof (induction items rule: rev_induct)
  case Nil
  show ?case by (simp add: index_repo_backups_def)
next
  case (snoc x items)
  have "mget (fst (index_repo_backups items)) (rb_backup_id x) = None \<longleftrightarrow> filter (\<lambda>y. rb_backup_id y = rb_backup_id x) items = []"
    by (simp add: indexed_first find_as_filter split: list.split)
  then show ?case
    using snoc by (auto simp: index_repo_backups_snoc index_item_def split: option.splits)
qed

lemma counted_ids:
  "k \<noteq> '''' \<Longrightarrow> (case mget (fold count_id bs []) k of Some n \<Rightarrow> n | None \<Rightarrow> 0) = int (length (filter (\<lambda>b. bf_backup_id b = k) bs))"
  by (induction bs rule: rev_induct) (auto simp: count_id_def mget_mput split: option.splits)

section \<open>The outcomes\<close>

text \<open>The preconditions of a conclusion: a completed scan of the observed incarnation of the cluster, and
  no side stale.\<close>

definition correlation_current :: "cross_check_inputs \<Rightarrow> bool" where
  "correlation_current i \<longleftrightarrow>
     (let ev = xi_evidence i; r = eg_report (ev_snapshot ev); cl = xi_cluster i
      in ev_has_report ev \<and> re_evidence_generation r \<noteq> 0 \<and>
         xi_cluster_ok i \<and> cf_present (cn_cluster cl) \<and> cf_uid (cn_cluster cl) \<noteq> '''' \<and> cf_uid (cn_cluster cl) = re_cluster_uid r \<and>
         \<not> og_stale cl \<and> \<not> og_stale (xi_backups i) \<and> \<not> eg_stale (ev_snapshot ev) \<and> \<not> re_source_stale r)"

text \<open>The outcome of one claim, said of the two lists themselves.\<close>

definition expected_outcome :: "cross_check_inputs \<Rightarrow> backup_facts \<Rightarrow> outcome" where
  "expected_outcome i b =
     (let same_claims = filter (\<lambda>b'. bf_backup_id b' = bf_backup_id b) (bn_backups (xi_backups i));
          counterparts = filter (\<lambda>x. rb_backup_id x = bf_backup_id b) (eg_backups (ev_snapshot (xi_evidence i)))
      in if \<not> correlation_current i then OutcomeUnknown
         else if \<not> (repository_backed b \<and> bf_phase b = completed_phase \<and> bf_backup_id b \<noteq> '''') then OutcomeOperatorOnly
         else if 1 < length same_claims \<or> 1 < length counterparts then OutcomeAmbiguous
         else if counterparts = []
         then (if eg_backups_truncated (ev_snapshot (xi_evidence i)) then OutcomeUnknown else OutcomeDiscrepancy)
         else if st_state (rb_result (hd counterparts)) \<in> {''healthy'', ''warning''} then OutcomeAgreement
         else if st_state (rb_result (hd counterparts)) = ''unhealthy'' then OutcomeDiscrepancy
         else OutcomeUnknown)"

definition identity_of :: "cross_check_inputs \<Rightarrow> identity_match" where
  "identity_of i =
     cluster_identity_match (re_cluster_uid (eg_report (ev_snapshot (xi_evidence i)))) (xi_cluster i) (xi_cluster_ok i)"

lemma degraded_iff: "degraded_reason i (identity_of i) = '''' \<longleftrightarrow> correlation_current i"
  by (auto simp: degraded_reason_def identity_of_def cluster_identity_match_def correlation_current_def Let_def dash_def)

definition row_of :: "cross_check_inputs \<Rightarrow> backup_facts \<Rightarrow> cross_check_row" where
  "row_of i b =
     correlate_row b (fst (index_repo_backups (eg_backups (ev_snapshot (xi_evidence i)))))
       (snd (index_repo_backups (eg_backups (ev_snapshot (xi_evidence i))))) (fold count_id (bn_backups (xi_backups i)) [])
       (degraded_reason i (identity_of i)) (eg_backups_truncated (ev_snapshot (xi_evidence i)))"

lemma build_orphans_frame [simp]:
  "xv_rows (build_orphans i a v) = xv_rows v" "xv_degraded (build_orphans i a v) = xv_degraded v"
  by (simp_all add: build_orphans_def Let_def)

lemma build_rows: "xv_rows (build_cross_check i) = map (row_of i) (bn_backups (xi_backups i))"
  "xv_degraded (build_cross_check i) = degraded_reason i (identity_of i)"
  by (simp_all add: build_cross_check_def row_of_def identity_of_def Let_def split_beta)

lemma row_outcome:
  "xr_outcome (row_of i b) = expected_outcome i b \<and> (xr_finding (row_of i b) \<longleftrightarrow> expected_outcome i b = OutcomeDiscrepancy)"
proof -
  let ?items = "filter (\<lambda>x. rb_backup_id x = bf_backup_id b) (eg_backups (ev_snapshot (xi_evidence i)))"
  have first: "mget (fst (index_repo_backups (eg_backups (ev_snapshot (xi_evidence i))))) (bf_backup_id b) =
      (case ?items of [] \<Rightarrow> None | x # _ \<Rightarrow> Some x)"
    by (simp add: indexed_first find_as_filter)
  have counts: "bf_backup_id b \<noteq> '''' \<Longrightarrow>
      (1 < (case mget (fold count_id (bn_backups (xi_backups i)) []) (bf_backup_id b) of Some n \<Rightarrow> n | None \<Rightarrow> 0) \<longleftrightarrow>
       1 < length (filter (\<lambda>b'. bf_backup_id b' = bf_backup_id b) (bn_backups (xi_backups i))))"
    by (simp add: counted_ids)
  have outcome: "match_outcome (bf_backup_id b) (fst (index_repo_backups (eg_backups (ev_snapshot (xi_evidence i))))) t =
      (case ?items of
         [] \<Rightarrow> if t then (OutcomeUnknown, ''repository collection truncated'' @ dash @ ''absence cannot be concluded'', False)
            else (OutcomeDiscrepancy, ''completed claim without repository artifacts'', True)
       | item # _ \<Rightarrow>
          if st_state (rb_result item) \<in> {''healthy'', ''warning''}
          then (OutcomeAgreement, ''operator claim plus structural repository evidence'', False)
          else if st_state (rb_result item) = ''unhealthy''
          then (OutcomeDiscrepancy, ''repository evidence contradicts the completed claim'', True)
          else (OutcomeUnknown, ''repository evidence state unknown'', False))" for t
    unfolding match_outcome_def first by (simp split: list.split)
  show ?thesis
    unfolding row_of_def correlate_row_def expected_outcome_def outcome indexed_duplicates degraded_iff [symmetric]
    using counts by (auto simp: Let_def split: list.split)
qed

text \<open>C22. The cross-check concludes exactly what the two lists support. The outcome of every row is the one
said of the lists themselves: unknown unless a completed scan of the observed incarnation of the
cluster is at hand and no source is stale; a bare operator claim when the repository is not expected
to know; ambiguous when the identifier is shared on either side; a discrepancy when the one
counterpart is unhealthy, or when there is none in a complete collection; agreement only when the one
counterpart is healthy or in warning. The findings are exactly the discrepancies. A completed,
repository-backed claim without a repository object is thus a discrepancy, or unknown when the
collection is cut, and never a bare operator claim: the repository's document on the evidence, which
calls it operator-claim-only, does not describe the code.\<close>

theorem cross_check_concludes_what_the_lists_support:
  "map xr_outcome (xv_rows (build_cross_check i)) = map (expected_outcome i) (bn_backups (xi_backups i)) \<and>
   map xr_finding (xv_rows (build_cross_check i)) = map (\<lambda>b. expected_outcome i b = OutcomeDiscrepancy) (bn_backups (xi_backups i))"
  by (simp add: build_rows row_outcome)

section \<open>The orphans\<close>

definition unaccounted :: "cross_check_inputs \<Rightarrow> repo_backup list" where
  "unaccounted i =
     sort_by newest_id_first
       (filter (\<lambda>x. rb_backup_id x = '''' \<or> rb_backup_id x \<notin> bf_backup_id ` set (bn_backups (xi_backups i)))
         (eg_backups (ev_snapshot (xi_evidence i))))"

definition absence_provable :: "cross_check_inputs \<Rightarrow> bool" where
  "absence_provable i \<longleftrightarrow>
     correlation_current i \<and> \<not> bn_backups_truncated (xi_backups i) \<and> \<not> eg_backups_truncated (ev_snapshot (xi_evidence i))"

lemma build_cross_check_eq:
  "build_cross_check i =
     build_orphans i (filter (\<lambda>k. k \<noteq> '''') (map bf_backup_id (bn_backups (xi_backups i))))
       \<lparr>xv_operator_origin = OriginOperator, xv_repository_origin = OriginRepository,
        xv_degraded = degraded_reason i (identity_of i), xv_rows = map (row_of i) (bn_backups (xi_backups i)), xv_orphans = [],
        xv_orphans_truncated = False, xv_orphans_unknown = '''',
        xv_finding_count = int (length (filter xr_finding (map (row_of i) (bn_backups (xi_backups i)))))\<rparr>"
  by (simp add: build_cross_check_def row_of_def [abs_def] identity_of_def Let_def split_beta)

lemma orphans_built:
  fixes i :: cross_check_inputs
  defines "v \<equiv> build_cross_check i"
  shows "(xv_orphans_unknown v = '''' \<longleftrightarrow> absence_provable i) \<and>
    xv_orphans v = (if absence_provable i then map orphan_row_of (take 50 (unaccounted i)) else []) \<and>
    (xv_orphans_truncated v \<longleftrightarrow> absence_provable i \<and> 50 < length (unaccounted i)) \<and>
    xv_finding_count v =
      int (length (filter (\<lambda>b. expected_outcome i b = OutcomeDiscrepancy) (bn_backups (xi_backups i)))) +
      (if absence_provable i then int (length (unaccounted i)) else 0)"
proof -
  have same: "(\<lambda>x. rb_backup_id x \<notin> set (filter (\<lambda>k. k \<noteq> '''') (map bf_backup_id (bn_backups (xi_backups i))))) =
      (\<lambda>x. rb_backup_id x = '''' \<or> rb_backup_id x \<notin> bf_backup_id ` set (bn_backups (xi_backups i)))"
    by auto
  have findings: "length (filter xr_finding (map (row_of i) (bn_backups (xi_backups i)))) =
      length (filter (\<lambda>b. expected_outcome i b = OutcomeDiscrepancy) (bn_backups (xi_backups i)))"
    by (simp add: filter_map o_def row_outcome)
  show ?thesis
    unfolding v_def build_cross_check_eq build_orphans_def same findings
    by (simp add: absence_provable_def degraded_iff [symmetric] unaccounted_def [symmetric] max_orphan_rows_def Let_def dash_def)
qed

text \<open>C21. An orphan is reported only when both sides prove it, and then every one is counted. Take the catalog
after any seed and changes of its watches, and the evidence after any run of the poller. A row of the
orphans is an item of the whole collection the sidecar published for the report shown, of the
expected repository and of the incarnation of the cluster that is observed; and no Backup resource
last reported and not deleted since carries its identifier. When absence cannot be proved, by a stale,
incomplete or unbound side, no orphan is shown or counted; when it can, the first 50 unaccounted items
by identifier are shown, more are flagged, and the findings number the discrepancies of the rows and
all the unaccounted items, the ones not displayed included.\<close>

theorem orphans_are_unaccounted_for:
  fixes state :: backup_catalog_state and c :: backup_collector and cs :: "backup_change list" and at :: instant
    and cluster :: cluster_snapshot and cluster_ok :: bool
  assumes run: "poll_run (client_fetcher p expect) acts pl"
  defines "sn \<equiv> so_snap (bl_store (backup_publish at (backup_collected cs (fst (backup_seed state c)))))"
    and "live \<equiv> last_word bf_name bf_uid (bs_backups state) (map backup_part cs)"
  defines "i \<equiv> \<lparr>xi_backups = sn, xi_evidence = current_evidence (pl_store pl), xi_cluster = cluster, xi_cluster_ok = cluster_ok\<rparr>"
  defines "v \<equiv> build_cross_check i" and "r \<equiv> eg_report (es_snap (pl_store pl))" and "items \<equiv> eg_backups (es_snap (pl_store pl))"
  shows "(xv_orphans v \<noteq> [] \<longrightarrow>
      absence_provable i \<and> report_expected expect r \<and> re_cluster_uid r = cf_uid (cn_cluster cluster) \<and>
      (\<exists>revision. whole_collection p revision (re_evidence_generation r) items False)) \<and>
    (absence_provable i \<longrightarrow>
      xv_orphans v = map orphan_row_of (take 50 (unaccounted i)) \<and> (xv_orphans_truncated v \<longleftrightarrow> 50 < length (unaccounted i)) \<and>
      mset (unaccounted i) =
        filter_mset (\<lambda>x. rb_backup_id x = '''' \<or> (\<nexists>b. b \<in> ran live \<and> bf_backup_id b = rb_backup_id x)) (mset items)) \<and>
    xv_finding_count v =
      int (length (filter (\<lambda>row. xr_outcome row = OutcomeDiscrepancy) (xv_rows v))) +
      (if absence_provable i then int (length (unaccounted i)) else 0)"
proof -
  have ev: "xi_evidence i = current_evidence (pl_store pl)" "xi_backups i = sn" "xi_cluster i = cluster"
    by (simp_all add: i_def)
  have built: "xv_orphans v = (if absence_provable i then map orphan_row_of (take 50 (unaccounted i)) else [])"
    "xv_orphans_truncated v \<longleftrightarrow> absence_provable i \<and> 50 < length (unaccounted i)"
    unfolding v_def using orphans_built [of i] by blast+
  have backed: "report_expected expect r \<and> re_cluster_uid r = cf_uid (cn_cluster cluster) \<and>
      (\<exists>revision. whole_collection p revision (re_evidence_generation r) items False)" if "absence_provable i"
  proof -
    from that have now: "es_has (pl_store pl)" "re_evidence_generation r \<noteq> 0" "cf_uid (cn_cluster cluster) = re_cluster_uid r"
      "\<not> eg_backups_truncated (es_snap (pl_store pl))"
      by (simp_all add: absence_provable_def correlation_current_def ev r_def current_evidence_def Let_def)
    with ec.poller_ok_run [OF run] show ?thesis
      by (auto simp: ec.poller_ok_def ec.collection_of_def r_def items_def)
  qed
  have accounted: "mset (unaccounted i) =
      filter_mset (\<lambda>x. rb_backup_id x = '''' \<or> (\<nexists>b. b \<in> ran live \<and> bf_backup_id b = rb_backup_id x)) (mset items)"
    if "absence_provable i"
  proof -
    from that have "\<not> bn_backups_truncated sn" by (simp add: absence_provable_def ev)
    then have "set (bn_backups sn) = set (keyed_list (live_set backup_retention (bs_backups state) (map backup_part cs)))"
      using backups_page_complete [of at cs state c] unfolding sn_def by simp
    then have shown: "set (bn_backups sn) = ran live"
      unfolding live_ran live_def by (simp add: backup_retention_def)
    have none: "k \<notin> bf_backup_id ` ran live \<longleftrightarrow> (\<nexists>b. b \<in> ran live \<and> bf_backup_id b = k)" for k by blast
    have "ev_snapshot (current_evidence (pl_store pl)) = es_snap (pl_store pl)" by (simp add: current_evidence_def)
    then show ?thesis unfolding unaccounted_def ev items_def mset_sort_by mset_filter shown none by simp
  qed
  have rows: "length (filter (\<lambda>row. xr_outcome row = OutcomeDiscrepancy) (xv_rows v)) =
      length (filter (\<lambda>b. expected_outcome i b = OutcomeDiscrepancy) (bn_backups (xi_backups i)))"
    unfolding v_def build_rows by (simp add: filter_map o_def row_outcome)
  have "xv_finding_count v = int (length (filter (\<lambda>row. xr_outcome row = OutcomeDiscrepancy) (xv_rows v))) +
      (if absence_provable i then int (length (unaccounted i)) else 0)"
    unfolding rows unfolding v_def using orphans_built [of i] by blast
  with built backed accounted show ?thesis by auto
qed

definition one_cluster :: cluster_snapshot where
  "one_cluster =
     \<lparr>og_generation = 1, og_observed_at = 5, og_stale = False, cn_cluster = no_facts\<lparr>cf_present := True, cf_uid := ''u''\<rparr>\<rparr>"

definition one_catalog :: backups_snapshot where
  "one_catalog = so_snap (bl_store (backup_publish 9 (backup_collected [] (fst (backup_seed one_backup_state new_backup_collector)))))"

lemma one_catalog_simps:
  "bn_backups one_catalog = [one_backup]" "\<not> bn_backups_truncated one_catalog" "\<not> og_stale one_catalog"
  by (simp_all add: one_catalog_def backup_collected_def backup_seed_def one_backup_state_def keyed_put_def backup_retention_def Let_def
      backup_publish_def backup_store_publish_def bounded_def max_backups_def max_scheduled_backups_def sort_by_def keyed_list_def
      mput_def split_beta)

definition one_input :: cross_check_inputs where
  "one_input =
     \<lparr>xi_backups = one_catalog, xi_evidence = current_evidence (pl_store published_poller), xi_cluster = one_cluster,
      xi_cluster_ok = True\<rparr>"

lemma one_input_simps: "absence_provable one_input" "unaccounted one_input = [project_backup one_wire_backup]"
proof -
  have "correlation_current one_input"
    by (simp add: correlation_current_def one_input_def one_catalog_simps one_cluster_def current_evidence_def published_poller_def
        evidence_publish_def project_snapshot_def one_snapshot_def Let_def)
  then show "absence_provable one_input"
    by (simp add: absence_provable_def one_input_def one_catalog_simps current_evidence_def published_poller_def
        evidence_publish_def)
  show "unaccounted one_input = [project_backup one_wire_backup]"
    by (simp add: unaccounted_def one_input_def one_catalog_simps current_evidence_def published_poller_def evidence_publish_def
        project_backup_def one_wire_backup_def one_backup_def sort_by_def)
qed

theorem orphans_are_unaccounted_for_witness:
  "xv_orphans (build_cross_check one_input) =
     [\<lparr>xo_backup_id = ''20260101T000000'', xo_repository_claim = ''healthy (ok)'', xo_completed = ''1970-01-01 00:00:00Z''\<rparr>] \<and>
   (\<exists>revision. whole_collection one_producer revision 3 [project_backup one_wire_backup] False)"
proof -
  have i: "\<lparr>xi_backups = so_snap (bl_store (backup_publish 9 (backup_collected [] (fst (backup_seed one_backup_state new_backup_collector))))),
      xi_evidence = current_evidence (pl_store published_poller), xi_cluster = one_cluster, xi_cluster_ok = True\<rparr> = one_input"
    by (simp add: one_input_def one_catalog_def)
  note facts = orphans_are_unaccounted_for [OF published_poller_run, of 9 "[]" one_backup_state new_backup_collector one_cluster True,
      unfolded i]
  have orphans: "xv_orphans (build_cross_check one_input) = [orphan_row_of (project_backup one_wire_backup)]"
    using facts one_input_simps by simp
  have report: "re_evidence_generation (eg_report (es_snap (pl_store published_poller))) = 3"
    "eg_backups (es_snap (pl_store published_poller)) = [project_backup one_wire_backup]"
    by (simp_all add: published_poller_def evidence_publish_def project_snapshot_def one_snapshot_def)
  have "xv_orphans (build_cross_check one_input) \<noteq> []" using orphans by simp
  with conjunct1 [OF facts]
  have "\<exists>revision. whole_collection one_producer revision 3 [project_backup one_wire_backup] False"
    unfolding report by blast
  with orphans show ?thesis
    by (simp add: orphan_row_of_def project_backup_def one_wire_backup_def one_fact_def state_display_def format_time_def
        is_zero_def zero_time_def second_def utc_text_epoch)
qed

end
