(* ===== verification/DiagnoseVersion.thy ===== *)
theory DiagnoseVersion
  imports GoDuration
begin

text \<open>
  The versions the diagnostics are pinned to, \<open>internal/diagnose/version.go\<close>: reading dotted numerals,
  comparing them, the tag of an image, and the constraint a rule is pinned by. A constraint fails
  closed: what cannot be read does not apply.
\<close>

section \<open>Reading a version\<close>

definition drop_v :: "string \<Rightarrow> string" where
  "drop_v s = (if has_prefix s ''v'' then drop 1 s else s)"

function version_fields :: "string \<Rightarrow> int list option" where
  "version_fields s =
     (let digits = takeWhile is_digit s; rest = dropWhile is_digit s
      in if digits = [] then None
         else
           (case parse_int64 digits of
              None \<Rightarrow> None
            | Some n \<Rightarrow>
                if has_prefix rest ''.'' then map_option ((#) n) (version_fields (drop 1 rest)) else Some [n]))"
  by pat_completeness auto
termination
proof (relation "measure length")
  fix s digits rest n
  assume "digits = takeWhile is_digit s" and rest: "rest = dropWhile is_digit s" and "digits \<noteq> []"
    and "has_prefix rest ''.''"
  have "length rest \<le> length s" by (simp add: rest length_dropWhile_le)
  with \<open>has_prefix rest ''.''\<close> show "(drop 1 rest, s) \<in> measure length"
    by (cases rest) (auto simp: has_prefix_def)
qed simp

declare version_fields.simps [simp del]

definition parse_version :: "string \<Rightarrow> int list option" where
  "parse_version s = version_fields (drop_v s)"

definition join_version :: "int list \<Rightarrow> string" where
  "join_version fields = str_join ''.'' (map itoa fields)"

definition image_tag_version :: "string \<Rightarrow> string option" where
  "image_tag_version img =
     (let named = takeWhile (\<lambda>c. c \<noteq> CHR ''@'') img
      in case last_index named CHR '':'' of
           None \<Rightarrow> None
         | Some colon \<Rightarrow>
             if CHR ''/'' \<in> set (drop colon named) then None
             else map_option join_version (parse_version (drop_v (drop (colon + 1) named))))"

section \<open>Comparing and constraining\<close>

fun compare_versions :: "int list \<Rightarrow> int list \<Rightarrow> int" where
  "compare_versions [] [] = 0"
| "compare_versions (x # xs) [] = (if x \<noteq> 0 then if x < 0 then - 1 else 1 else compare_versions xs [])"
| "compare_versions [] (y # ys) = (if 0 \<noteq> y then if 0 < y then - 1 else 1 else compare_versions [] ys)"
| "compare_versions (x # xs) (y # ys) = (if x \<noteq> y then if x < y then - 1 else 1 else compare_versions xs ys)"

definition split_clause :: "string \<Rightarrow> string \<times> string" where
  "split_clause clause =
     (case find (has_prefix clause) [''>='', ''<='', ''!='', ''>'', ''<'', ''=''] of
        None \<Rightarrow> (''='', clause)
      | Some op \<Rightarrow> (op, drop (length op) clause))"

definition clause_holds :: "string \<Rightarrow> int \<Rightarrow> bool" where
  "clause_holds op cmp \<longleftrightarrow>
     (if op = ''>='' then cmp \<ge> 0
      else if op = ''<='' then cmp \<le> 0
      else if op = ''>'' then cmp > 0
      else if op = ''<'' then cmp < 0
      else if op = ''='' then cmp = 0
      else if op = ''!='' then cmp \<noteq> 0
      else False)"

fun clauses_hold :: "int list \<Rightarrow> string list \<Rightarrow> bool" where
  "clauses_hold v [] \<longleftrightarrow> True"
| "clauses_hold v (clause # clauses) \<longleftrightarrow>
     (let (op, rest) = split_clause clause
      in case parse_version rest of
           None \<Rightarrow> False
         | Some bound \<Rightarrow> clause_holds op (compare_versions v bound) \<and> clauses_hold v clauses)"

definition satisfies :: "string \<Rightarrow> string \<Rightarrow> bool" where
  "satisfies version constr =
     (case parse_version version of None \<Rightarrow> False | Some v \<Rightarrow> clauses_hold v (str_fields constr))"

section \<open>The order of versions\<close>

lemma compare_range: "compare_versions a b \<in> {- 1, 0, 1}"
  by (induction a b rule: compare_versions.induct) auto

lemma compare_flip: "compare_versions b a = - compare_versions a b"
  by (induction a b rule: compare_versions.induct) auto

lemma compare_same [simp]: "compare_versions a a = 0"
  using compare_flip [of a a] by simp

text \<open>A version as the sequence of its fields, zero from the end on.\<close>

definition field_at :: "int list \<Rightarrow> nat \<Rightarrow> int" where
  "field_at v i = (if i < length v then v ! i else 0)"

lemma field_at_simps [simp]:
  "field_at [] i = 0" "field_at (x # xs) 0 = x" "field_at (x # xs) (Suc i) = field_at xs i"
  by (simp_all add: field_at_def)

lemma ex_nat_split: "(\<exists>i. P i) \<longleftrightarrow> P 0 \<or> (\<exists>i. P (Suc i))"
  by (metis nat.exhaust)

lemma all_nat_less_split: "(\<forall>j < Suc i. Q j) \<longleftrightarrow> Q 0 \<and> (\<forall>j < i. Q (Suc j))"
  by (auto simp: less_Suc_eq_0_disj)

lemma compare_less: "compare_versions a b < 0 \<longleftrightarrow> (\<exists>i. field_at a i < field_at b i \<and> (\<forall>j < i. field_at a j = field_at b j))"
proof (induction a b rule: compare_versions.induct)
  case 1
  show ?case by simp
next
  case (2 x xs)
  have "(\<exists>i. field_at (x # xs) i < field_at [] i \<and> (\<forall>j < i. field_at (x # xs) j = field_at [] j)) \<longleftrightarrow>
      x < 0 \<or> x = 0 \<and> (\<exists>i. field_at xs i < field_at [] i \<and> (\<forall>j < i. field_at xs j = field_at [] j))"
    by (subst ex_nat_split) (auto simp: all_nat_less_split)
  with 2 show ?case by (cases "x = 0") auto
next
  case (3 y ys)
  have "(\<exists>i. field_at [] i < field_at (y # ys) i \<and> (\<forall>j < i. field_at [] j = field_at (y # ys) j)) \<longleftrightarrow>
      0 < y \<or> y = 0 \<and> (\<exists>i. field_at [] i < field_at ys i \<and> (\<forall>j < i. field_at [] j = field_at ys j))"
    by (subst ex_nat_split) (auto simp: all_nat_less_split)
  with 3 show ?case by (cases "y = 0") auto
next
  case (4 x xs y ys)
  have "(\<exists>i. field_at (x # xs) i < field_at (y # ys) i \<and> (\<forall>j < i. field_at (x # xs) j = field_at (y # ys) j)) \<longleftrightarrow>
      x < y \<or> x = y \<and> (\<exists>i. field_at xs i < field_at ys i \<and> (\<forall>j < i. field_at xs j = field_at ys j))"
    by (subst ex_nat_split) (auto simp: all_nat_less_split)
  with 4 show ?case by (cases "x = y") auto
qed

definition version_before :: "int list \<Rightarrow> int list \<Rightarrow> bool" where
  "version_before a b \<longleftrightarrow> (\<exists>i. field_at a i < field_at b i \<and> (\<forall>j < i. field_at a j = field_at b j))"

lemma compare_before: "compare_versions a b < 0 \<longleftrightarrow> version_before a b"
  unfolding compare_less version_before_def ..

lemma version_before_trans:
  assumes "version_before a b" and "version_before b c"
  shows "version_before a c"
proof -
  from assms obtain i k where
    i: "field_at a i < field_at b i" "\<forall>j < i. field_at a j = field_at b j" and
    k: "field_at b k < field_at c k" "\<forall>j < k. field_at b j = field_at c j"
    unfolding version_before_def by blast
  show ?thesis unfolding version_before_def
    using i k by (intro exI [of _ "min i k"]) (cases i k rule: linorder_cases; force)
qed

lemma version_before_irrefl: "\<not> version_before a a"
  by (simp add: version_before_def)

lemma version_incomparable: "\<not> version_before a b \<and> \<not> version_before b a \<longleftrightarrow> (\<forall>i. field_at a i = field_at b i)"
proof
  assume none: "\<not> version_before a b \<and> \<not> version_before b a"
  show "\<forall>i. field_at a i = field_at b i"
  proof
    fix i
    show "field_at a i = field_at b i"
      using none unfolding version_before_def by (induction i rule: less_induct) (metis linorder_neqE)
  qed
qed (simp add: version_before_def)

interpretation versions: strict_weak_order "\<lambda>a b. compare_versions a b < 0"
proof
  fix a b c :: "int list"
  show "\<not> compare_versions b a < 0" if "compare_versions a b < 0"
    using that compare_flip [of a b] by simp
  assume ba: "\<not> compare_versions b a < 0" and cb: "\<not> compare_versions c b < 0"
  show "\<not> compare_versions c a < 0"
  proof
    assume "compare_versions c a < 0"
    then have ca: "version_before c a" by (simp only: compare_before)
    show False
    proof (cases "version_before a b")
      case True
      with ca cb version_before_trans show False unfolding compare_before by blast
    next
      case False
      with ba have "\<forall>i. field_at a i = field_at b i" unfolding compare_before using version_incomparable by blast
      with ca cb show False unfolding compare_before version_before_def by simp
    qed
  qed
qed

section \<open>What is printed is read back\<close>

text \<open>What may follow a version in a tag: nothing that would be read as more of it.\<close>

definition variant_suffix :: "string \<Rightarrow> bool" where
  "variant_suffix t \<longleftrightarrow> t = '''' \<or> \<not> is_digit (hd t) \<and> hd t \<noteq> CHR ''.''"

lemma itoa_digits:
  assumes "0 \<le> n" and "in_int64 n"
  shows "itoa n \<noteq> ''''" and "\<forall>c \<in> set (itoa n). is_digit c" and "parse_int64 (itoa n) = Some n"
proof -
  show "parse_int64 (itoa n) = Some n" using assms(2) by (rule parse_int64_itoa)
  from assms(1) show "itoa n \<noteq> ''''" "\<forall>c \<in> set (itoa n). is_digit c"
    by (auto simp: itoa_def is_digit_def digit_of_def dest: nat_digits_bytes)
qed

lemma version_field_read:
  assumes n: "0 \<le> n" "in_int64 n" and t: "t = '''' \<or> \<not> is_digit (hd t)"
  shows "version_fields (itoa n @ t) =
    (if has_prefix t ''.'' then map_option ((#) n) (version_fields (drop 1 t)) else Some [n])"
proof -
  note d = itoa_digits [OF n]
  have stop: "takeWhile is_digit t = ''''" "dropWhile is_digit t = t" using t by (cases t; simp)+
  with d have "takeWhile is_digit (itoa n @ t) = itoa n" "dropWhile is_digit (itoa n @ t) = t"
    by (simp_all add: takeWhile_append dropWhile_append)
  with d show ?thesis by (subst version_fields.simps) (simp add: Let_def)
qed

definition version_ok :: "int list \<Rightarrow> bool" where
  "version_ok fields \<longleftrightarrow> fields \<noteq> [] \<and> list_all (\<lambda>n. 0 \<le> n \<and> in_int64 n) fields"

lemma join_version_Cons: "fields \<noteq> [] \<Longrightarrow> join_version (n # fields) = itoa n @ ''.'' @ join_version fields"
  by (cases fields) (simp_all add: join_version_def)

lemma version_fields_join:
  "version_ok fields \<Longrightarrow> variant_suffix t \<Longrightarrow> version_fields (join_version fields @ t) = Some fields"
proof (induction fields)
  case Nil
  then show ?case by (simp add: version_ok_def)
next
  case (Cons n fields)
  then have n: "0 \<le> n" "in_int64 n" by (simp_all add: version_ok_def)
  show ?case
  proof (cases "fields = []")
    case True
    from Cons.prems have "t = '''' \<or> \<not> is_digit (hd t)" "\<not> has_prefix t ''.''"
      by (cases t; auto simp: variant_suffix_def has_prefix_def)+
    with True show ?thesis using version_field_read [OF n] by (simp add: join_version_def)
  next
    case False
    with Cons.prems have "version_fields (join_version fields @ t) = Some fields"
      by (intro Cons.IH) (simp_all add: version_ok_def)
    with False version_field_read [OF n, of "''.'' @ join_version fields @ t"] show ?thesis
      by (simp add: join_version_Cons has_prefix_def is_digit_def digit_of_def)
  qed
qed

lemma join_version_head: "version_ok fields \<Longrightarrow> \<exists>c cs. join_version fields = c # cs \<and> is_digit c"
proof -
  assume ok: "version_ok fields"
  then obtain n rest where f: "fields = n # rest" by (cases fields) (auto simp: version_ok_def)
  with ok have n: "0 \<le> n" "in_int64 n" by (simp_all add: version_ok_def)
  have "join_version fields = itoa n @ (if rest = [] then '''' else ''.'' @ join_version rest)"
    by (simp add: f join_version_Cons) (simp add: join_version_def)
  then show ?thesis using itoa_digits(1,2) [OF n] by (cases "itoa n") auto
qed

lemma parse_version_join:
  assumes "version_ok fields" and "variant_suffix t"
  shows "parse_version (join_version fields @ t) = Some fields" and "parse_version (''v'' @ join_version fields @ t) = Some fields"
proof -
  obtain c cs where "join_version fields = c # cs" "is_digit c" using join_version_head [OF assms(1)] by blast
  moreover from this have "c \<noteq> CHR ''v''" by (auto simp: is_digit_def digit_of_def byte_def)
  ultimately have "drop_v (join_version fields @ t) = join_version fields @ t"
    by (simp add: drop_v_def has_prefix_def)
  then show "parse_version (join_version fields @ t) = Some fields"
    "parse_version (''v'' @ join_version fields @ t) = Some fields"
    using version_fields_join [OF assms] by (simp_all add: parse_version_def drop_v_def has_prefix_def)
qed

lemma join_version_chars: "version_ok fields \<Longrightarrow> c \<in> set (join_version fields) \<Longrightarrow> is_digit c \<or> c = CHR ''.''"
proof (induction fields)
  case (Cons n fields)
  then have n: "\<forall>c \<in> set (itoa n). is_digit c" by (intro itoa_digits) (simp_all add: version_ok_def)
  show ?case
  proof (cases "fields = []")
    case True
    then show ?thesis using n Cons.prems by (simp add: join_version_def)
  next
    case False
    then show ?thesis using n Cons by (auto simp: join_version_Cons version_ok_def)
  qed
qed (simp add: version_ok_def)

definition tag_text :: "string \<Rightarrow> bool" where
  "tag_text t \<longleftrightarrow> list_all (\<lambda>c. c \<noteq> CHR '':'' \<and> c \<noteq> CHR ''/'' \<and> c \<noteq> CHR ''@'') t"

lemma join_version_tag: "version_ok fields \<Longrightarrow> tag_text (join_version fields)"
  using join_version_chars [of fields] by (fastforce simp: tag_text_def list_all_iff is_digit_def digit_of_def byte_def)

lemma last_index_append: "c \<notin> set b \<Longrightarrow> last_index (a @ c # b) c = Some (length a)"
  by (simp add: last_index_def index_byte_append)

text \<open>The version of a component is read back from the tag of its image, whatever the registry, an
optional \<open>v\<close>, the build variant after it and a digest; and it is the version that pins compare.\<close>

theorem image_tag_is_read_back:
  assumes "version_ok fields" and "variant_suffix t" and "tag_text t" and "CHR ''@'' \<notin> set repository"
    and "digest = '''' \<or> hd digest = CHR ''@''" and "v \<in> {'''', ''v''}"
  shows "image_tag_version (repository @ '':'' @ v @ join_version fields @ t @ digest) = Some (join_version fields) \<and>
    parse_version (join_version fields) = Some fields"
proof -
  let ?tag = "v @ join_version fields @ t"
  have tag: "tag_text ?tag" using assms(3,6) join_version_tag [OF assms(1)] by (auto simp: tag_text_def)
  then have "takeWhile (\<lambda>c. c \<noteq> CHR ''@'') (repository @ '':'' @ ?tag @ digest) = repository @ '':'' @ ?tag"
    using assms(4,5) by (cases digest) (auto simp: takeWhile_append tag_text_def list_all_iff takeWhile_eq_all_conv)
  moreover have "last_index (repository @ '':'' @ ?tag) CHR '':'' = Some (length repository)"
    using tag last_index_append [of "CHR '':''" ?tag repository] by (auto simp: tag_text_def list_all_iff)
  moreover have "CHR ''/'' \<notin> set ?tag" using tag by (auto simp: tag_text_def list_all_iff)
  moreover have "parse_version (drop_v ?tag) = Some fields"
  proof (cases "v = ''v''")
    case True
    then show ?thesis using parse_version_join(1) [OF assms(1,2)] by (simp add: drop_v_def has_prefix_def)
  next
    case False
    obtain c cs where "join_version fields = c # cs" "is_digit c" using join_version_head [OF assms(1)] by blast
    moreover from this have "c \<noteq> CHR ''v''" by (auto simp: is_digit_def digit_of_def byte_def)
    ultimately have "drop_v (join_version fields @ t) = join_version fields @ t" by (simp add: drop_v_def has_prefix_def)
    with False assms(6) show ?thesis using parse_version_join(1) [OF assms(1,2)] by simp
  qed
  moreover have "parse_version (join_version fields) = Some fields"
    using parse_version_join(1) [OF assms(1), of "''''"] by (simp add: variant_suffix_def)
  ultimately show ?thesis by (simp add: image_tag_version_def Let_def)
qed

theorem image_tag_is_read_back_witness:
  "image_tag_version ''ghcr.io:5000/cnpg/operator:v1.27.0-rc1@sha256:ab'' = Some ''1.27.0''"
proof -
  have ok: "version_ok [1, 27, 0]" by (simp add: version_ok_def in_int64_def min_int64_def max_int64_def)
  have printed: "join_version [1, 27, 0] = ''1.27.0''" by code_simp
  have "variant_suffix ''-rc1''" "tag_text ''-rc1''"
    by (simp_all add: variant_suffix_def tag_text_def is_digit_def digit_of_def byte_def)
  from image_tag_is_read_back [OF ok this, of "''ghcr.io:5000/cnpg/operator''" "''@sha256:ab''" "''v''"]
  show ?thesis by (simp add: printed)
qed

section \<open>A pin is a range of versions\<close>

lemma space_heads: "list_all (\<lambda>w. w \<noteq> [] \<and> (byte (hd w) \<le> 0x20 \<or> 0x80 \<le> byte (hd w))) space_encodings"
  by code_simp

lemma plain_no_space:
  assumes "0x20 < byte c" and "byte c < 0x80"
  shows "find (\<lambda>w. has_prefix (c # cs) w) space_encodings = None"
proof -
  have "\<not> has_prefix (c # cs) w" if w: "w \<in> set space_encodings" for w
  proof
    assume pre: "has_prefix (c # cs) w"
    from w space_heads have "w \<noteq> []" "byte (hd w) \<le> 0x20 \<or> 0x80 \<le> byte (hd w)"
      unfolding list_all_iff by blast+
    moreover from pre \<open>w \<noteq> []\<close> have "hd w = c" by (cases w) (simp_all add: has_prefix_def)
    ultimately show False using assms by auto
  qed
  then show ?thesis unfolding find_None_iff by blast
qed

lemma fields_from_word:
  "\<forall>c \<in> set w. 0x20 < byte c \<and> byte c < 0x80 \<Longrightarrow> fields_from 0 word (w @ s) = fields_from 0 (word @ w) s"
  by (induction w arbitrary: word) (simp_all add: plain_no_space)

lemma str_fields_two:
  assumes "\<forall>c \<in> set (a @ b). 0x20 < byte c \<and> byte c < 0x80" and "a \<noteq> ''''" "b \<noteq> ''''"
  shows "str_fields (a @ '' '' @ b) = [a, b]"
proof -
  have "find (\<lambda>w. has_prefix (CHR '' '' # b) w) space_encodings = Some [CHR '' '']"
    by (simp add: space_encodings_def has_prefix_def)
  then have "fields_from 0 a ('' '' @ b) = a # fields_from 0 [] b" using assms(2) by simp
  moreover have "fields_from 0 [] (b @ '''') = [b]" using assms fields_from_word [of b "[]" "''''"] by simp
  moreover have "fields_from 0 [] (a @ '' '' @ b) = fields_from 0 a ('' '' @ b)"
    using assms fields_from_word [of a "[]" "'' '' @ b"] by simp
  ultimately show ?thesis by (simp add: str_fields_def)
qed

lemma join_version_plain: "version_ok fields \<Longrightarrow> c \<in> set (join_version fields) \<Longrightarrow> 0x20 < byte c \<and> byte c < 0x80"
  using join_version_chars [of fields c] by (auto simp: is_digit_def digit_of_def split: if_splits)

text \<open>A pin \<open>>=low <high\<close> holds for exactly the versions that can be read and lie in the half-open
range, in the order that compares field by field and takes a missing field for zero; what cannot be
read never satisfies it.\<close>

theorem pin_is_a_range:
  assumes "version_ok low" and "version_ok high"
  shows "satisfies v (''>='' @ join_version low @ '' '' @ ''<'' @ join_version high) \<longleftrightarrow>
    (\<exists>fields. parse_version v = Some fields \<and> \<not> version_before fields low \<and> version_before fields high)"
proof -
  let ?a = "''>='' @ join_version low" and ?b = "''<'' @ join_version high"
  have plain: "\<forall>c \<in> set (?a @ ?b). 0x20 < byte c \<and> byte c < 0x80"
    using join_version_plain [OF assms(1)] join_version_plain [OF assms(2)] by (auto simp: byte_def)
  have fields: "str_fields (?a @ '' '' @ ?b) = [?a, ?b]"
    by (rule str_fields_two [OF plain]) simp_all
  have low: "split_clause ?a = (''>='', join_version low)"
    by (simp add: split_clause_def has_prefix_def)
  obtain c cs where high: "join_version high = c # cs" "is_digit c" using join_version_head [OF assms(2)] by blast
  then have "c \<noteq> CHR ''=''" by (auto simp: is_digit_def digit_of_def byte_def)
  with high have high: "split_clause ?b = (''<'', join_version high)"
    by (simp add: split_clause_def has_prefix_def)
  have parsed: "parse_version (join_version low) = Some low" "parse_version (join_version high) = Some high"
    using parse_version_join(1) [OF assms(1), of "''''"] parse_version_join(1) [OF assms(2), of "''''"]
    by (simp_all add: variant_suffix_def)
  have "satisfies v (?a @ '' '' @ ?b) \<longleftrightarrow>
      (\<exists>fields. parse_version v = Some fields \<and> compare_versions fields low \<ge> 0 \<and> compare_versions fields high < 0)"
    unfolding satisfies_def fields by (simp add: low high parsed clause_holds_def split: option.split del: append_Cons)
  then show ?thesis by (simp add: compare_before [symmetric] not_less)
qed

theorem pin_is_a_range_witness:
  "satisfies ''v1.26.1-rc2'' ''>=1.24 <1.27'' \<and> \<not> satisfies ''1.27'' ''>=1.24 <1.27'' \<and> \<not> satisfies ''latest'' ''>=1.24 <1.27''"
proof -
  have ok: "version_ok [1, 24]" "version_ok [1, 27]" by (simp_all add: version_ok_def in_int64_def min_int64_def max_int64_def)
  have printed: "''>='' @ join_version [1, 24] @ '' '' @ ''<'' @ join_version [1, 27] = ''>=1.24 <1.27''" by code_simp
  have read: "parse_version ''v1.26.1-rc2'' = Some [1, 26, 1]" "parse_version ''1.27'' = Some [1, 27]" "parse_version ''latest'' = None"
    by code_simp+
  note pin = pin_is_a_range [OF ok, unfolded printed]
  show ?thesis
    unfolding pin compare_before [symmetric] read by simp
qed

end
