(* ===== verification/Diagnose.thy ===== *)
theory Diagnose
  imports CrossCheck ObservePods ObserveKinds ObserveInfra LogMatcher DiagnoseVersion
begin

text \<open>
  The vocabulary of the diagnostics, \<open>internal/diagnose/diagnose.go\<close>, \<open>layer.go\<close> and \<open>stale.go\<close>: findings
  and the claims they rest on, the declared relations between them, the checks, the input, and for
  each source of the input the reason it cannot be read. An input is the published snapshots of the
  collectors, each with whether it exists; the sources no modelled condition reads are the extension
  of the record.
\<close>

section \<open>Findings\<close>

text \<open>The middle dot of the terms, in UTF-8.\<close>

definition dot :: string where "dot = '' '' @ [CHR 0xC2, CHR 0xB7] @ '' ''"

datatype severity = SeverityNote | SeverityWarning | SeverityCritical

fun severity_rank :: "severity \<Rightarrow> nat" where
  "severity_rank SeverityNote = 0"
| "severity_rank SeverityWarning = 1"
| "severity_rank SeverityCritical = 2"

record claim =
  ea_origin :: string
  ea_object :: string
  ea_detail :: string

record entity_ref =
  er_kind :: string
  er_name :: string

definition entity_string :: "entity_ref \<Rightarrow> string" where
  "entity_string e = (if er_name e = '''' then er_kind e else er_kind e @ ''/'' @ er_name e)"

definition no_entity :: entity_ref where "no_entity = \<lparr>er_kind = '''', er_name = ''''\<rparr>"

datatype scope = ScopeCluster | ScopePod

definition scope_string :: "scope \<Rightarrow> string" where
  "scope_string s = (if s = ScopePod then ''same pod'' else ''same cluster'')"

datatype strength = StrengthEstablished | StrengthPlausible

definition strength_string :: "strength \<Rightarrow> string" where
  "strength_string s = (if s = StrengthPlausible then ''plausible'' else ''established mechanism'')"

record relation =
  rn_cause :: string
  rn_scope :: scope
  rn_within :: duration
  rn_strength :: strength

record finding =
  fg_id :: string
  fg_check :: string
  fg_subject :: entity_ref
  fg_at :: instant
  fg_severity :: severity
  fg_summary :: string
  fg_detail :: string
  fg_evidence :: "claim list"
  fg_next_steps :: string
  fg_consequence_of :: "relation list"
  fg_link :: string
  fg_link_label :: string

definition relation_holds :: "relation \<Rightarrow> finding \<Rightarrow> finding \<Rightarrow> bool \<times> string" where
  "relation_holds r effect cause =
     (let pod_misses =
        (if rn_scope r \<noteq> ScopePod then None
         else if er_kind (fg_subject effect) \<noteq> ''Pod'' \<or> er_kind (fg_subject cause) \<noteq> ''Pod'' \<or>
            er_name (fg_subject effect) = '''' \<or> er_name (fg_subject cause) = ''''
         then Some ''the catalog relates the two only on the same pod, and one of them names none''
         else if er_name (fg_subject effect) \<noteq> er_name (fg_subject cause)
         then Some (''the catalog relates the two only on the same pod; this one is on '' @ entity_string (fg_subject cause))
         else None);
        gap = (let g = time_sub (fg_at effect) (fg_at cause) in if g < 0 then wrap64 (- g) else g)
      in if fg_check cause \<noteq> rn_cause r then (False, ''not the named cause'')
         else
           (case pod_misses of
              Some because \<Rightarrow> (False, because)
            | None \<Rightarrow>
                if rn_within r > 0 \<and> \<not> is_zero (fg_at effect) \<and> \<not> is_zero (fg_at cause) \<and> gap > rn_within r
                then (False, ''the catalog relates the two only within '' @ duration_string (rn_within r) @
                   ''; these observations are '' @ duration_string (duration_round gap minute) @ '' apart'')
                else (True, '''')))"

definition relation_string :: "relation \<Rightarrow> string" where
  "relation_string r =
     strength_string (rn_strength r) @ dot @ scope_string (rn_scope r) @
     (if rn_within r > 0 then dot @ ''within '' @ duration_string (rn_within r) else '''')"

definition relation_terms :: "relation \<Rightarrow> finding \<Rightarrow> finding \<Rightarrow> string" where
  "relation_terms r effect cause =
     strength_string (rn_strength r) @ dot @ scope_string (rn_scope r) @
     (if rn_within r = 0 then ''''
      else if is_zero (fg_at effect) \<and> is_zero (fg_at cause)
      then dot @ ''window not enforced: neither finding carries a time''
      else if is_zero (fg_at effect) \<or> is_zero (fg_at cause)
      then dot @ ''window not enforced: one finding carries no time''
      else dot @ ''within '' @ duration_string (rn_within r))"

section \<open>Checks\<close>

datatype check_outcome = CheckMatched | CheckClear | CheckUnavailable | CheckNotApplicable

fun check_outcome_string :: "check_outcome \<Rightarrow> string" where
  "check_outcome_string CheckMatched = ''matched''"
| "check_outcome_string CheckUnavailable = ''could not run''"
| "check_outcome_string CheckNotApplicable = ''does not apply''"
| "check_outcome_string CheckClear = ''clear''"

datatype layer =
    LayerKubernetes | LayerOperator | LayerPostgreSQL | LayerReplication | LayerBackups | LayerPoolers | LayerDeclared

definition layers :: "layer list" where
  "layers = [LayerKubernetes, LayerOperator, LayerPostgreSQL, LayerReplication, LayerBackups, LayerPoolers, LayerDeclared]"

record check =
  ck_name :: string
  ck_layer :: layer
  ck_describes :: string
  ck_outcome :: check_outcome
  ck_because :: string
  ck_source_off :: bool

record result =
  rs_findings :: "finding list"
  rs_checks :: "check list"

section \<open>The input\<close>

record log_reading =
  lg_observations :: "log_observation list"
  lg_unread :: "unread_window list"

record dg_input =
  di_now :: instant
  di_has_backups :: bool
  di_backups :: backups_snapshot
  di_has_events :: bool
  di_events :: events_snapshot
  di_has_pods :: bool
  di_pods :: pods_snapshot
  di_has_cluster :: bool
  di_cluster :: cluster_snapshot
  di_has_infrastructure :: bool
  di_infrastructure :: infrastructure_snapshot
  di_has_poolers :: bool
  di_poolers :: poolers_snapshot
  di_has_pooler_pods :: bool
  di_pooler_pods :: pods_snapshot
  di_has_quorum :: bool
  di_quorum :: failover_quorum_snapshot
  di_has_lease :: bool
  di_lease :: primary_lease_snapshot
  di_has_image_catalogs :: bool
  di_image_catalogs :: image_catalogs_snapshot
  di_has_kube_version :: bool
  di_kube_version :: kube_version_snapshot
  di_has_quotas :: bool
  di_quotas :: quotas_snapshot
  di_has_database_objects :: bool
  di_database_objects :: database_objects_snapshot
  di_has_evidence :: bool
  di_evidence :: evidence_status
  di_logs :: "log_reading option"

text \<open>The zero value, at an instant: nothing has been observed.\<close>

definition zero_observed :: observed where
  "zero_observed = \<lparr>og_generation = 0, og_observed_at = zero_time, og_stale = False\<rparr>"

definition zero_object_store :: object_store_reference where
  "zero_object_store =
     \<lparr>oj_name = '''', oj_state = ObjectStoreUnset, oj_destination = '''', oj_endpoint = '''', oj_retention_policy = '''',
      oj_server_name = '''', oj_recovery_window = None\<rparr>"

definition unobserved_input :: "instant \<Rightarrow> dg_input" where
  "unobserved_input now =
     \<lparr>di_now = now,
      di_has_backups = False,
      di_backups = observed.extend zero_observed
        \<lparr>bn_backups_truncated = False, bn_schedules_truncated = False, bn_backups = [], bn_scheduled_backups = [],
         bn_object_store = zero_object_store\<rparr>,
      di_has_events = False, di_events = observed.extend zero_observed \<lparr>ev_truncated = False, ev_events = []\<rparr>,
      di_has_pods = False, di_pods = so_snap new_pod_store,
      di_has_cluster = False, di_cluster = so_snap new_cluster_store,
      di_has_infrastructure = False,
      di_infrastructure = observed.extend zero_observed
        \<lparr>fn_services = [], fn_volumes = [], fn_snapshots = [], fn_children = [], fn_snapshots_observable = False,
         fn_children_unobserved = [], fn_truncated = False\<rparr>,
      di_has_poolers = False, di_poolers = observed.extend zero_observed \<lparr>pq_truncated = False, pq_poolers = []\<rparr>,
      di_has_pooler_pods = False, di_pooler_pods = so_snap new_pod_store,
      di_has_quorum = False,
      di_quorum = observed.extend zero_observed
        \<lparr>qn_quorum = \<lparr>fq_present = False, fq_method = '''', fq_primary = '''', fq_standby_number = 0, fq_standbys = [],
           fq_standbys_truncated = False\<rparr>\<rparr>,
      di_has_lease = False,
      di_lease = observed.extend zero_observed
        \<lparr>pn_lease = \<lparr>pl_present = False, pl_name = '''', pl_holder = '''', pl_acquired_at = None, pl_renewed_at = None,
           pl_duration_seconds = None, pl_transitions = None\<rparr>\<rparr>,
      di_has_image_catalogs = False,
      di_image_catalogs = observed.extend zero_observed
        \<lparr>io_truncated = False, io_catalogs = [],
         io_cluster_catalog = \<lparr>ic_name = '''', ic_uid = '''', ic_images = [], ic_images_truncated = False,
           ic_created_at = zero_time\<rparr>,
         io_cluster_catalog_state = ClusterCatalogUnset\<rparr>,
      di_has_kube_version = False, di_kube_version = so_snap new_kube_version_store,
      di_has_quotas = False, di_quotas = observed.extend zero_observed \<lparr>qo_quotas = []\<rparr>,
      di_has_database_objects = False,
      di_database_objects = observed.extend zero_observed
        \<lparr>do_truncated = False, do_databases = [], do_roles = [], do_publications = [], do_subscriptions = []\<rparr>,
      di_has_evidence = False,
      di_evidence = \<lparr>ev_has_report = False, ev_snapshot = es_snap new_evidence_store, ev_failure = FailureNone\<rparr>,
      di_logs = None\<rparr>"

section \<open>What cannot be read\<close>

definition reason_evidence_off :: string where
  "reason_evidence_off = ''the repository-evidence consumer is not configured''"
definition reason_history_off :: string where
  "reason_history_off = ''the object timeline is not recorded, so nothing can be counted over time''"
definition reason_logs_off :: string where
  "reason_logs_off = ''log following is off, so nothing in the logs has been read''"
definition reason_metrics_off :: string where "reason_metrics_off = ''instance metrics are not scraped''"
definition reason_pooler_metrics_off :: string where "reason_pooler_metrics_off = ''pooler metrics are not scraped''"
definition reason_status_off :: string where
  "reason_status_off = ''the instance managers'' @ [CHR 0x27] @ '' status reports are not read''"

definition source_off :: "string \<Rightarrow> bool" where
  "source_off reason \<longleftrightarrow>
     reason \<in> {reason_evidence_off, reason_history_off, reason_logs_off, reason_metrics_off, reason_pooler_metrics_off,
       reason_status_off}"

definition events_unavailable :: "'z dg_input_scheme \<Rightarrow> string" where
  "events_unavailable i =
     (if \<not> di_has_events i then ''events have not been observed yet''
      else if og_stale (di_events i) then ''the event list is stale, so current events are unknown''
      else '''')"

definition pods_unavailable :: "'z dg_input_scheme \<Rightarrow> string" where
  "pods_unavailable i =
     (if \<not> di_has_pods i then ''instance pods have not been observed yet''
      else if og_stale (di_pods i) then ''the instance pods are stale, so current container states are unknown''
      else '''')"

definition pooler_pods_unavailable :: "'z dg_input_scheme \<Rightarrow> string" where
  "pooler_pods_unavailable i =
     (if di_has_pooler_pods i \<and> og_stale (di_pooler_pods i)
      then ''the pooler pods are stale, so current container states are unknown'' else '''')"

definition cluster_unavailable :: "'z dg_input_scheme \<Rightarrow> string" where
  "cluster_unavailable i =
     (if \<not> di_has_cluster i then ''the Cluster has not been observed yet''
      else if og_stale (di_cluster i) then ''the Cluster snapshot is stale, so its current status is unknown''
      else if \<not> cf_present (cn_cluster (di_cluster i)) then ''the API server reports no Cluster object''
      else '''')"

definition poolers_unavailable :: "'z dg_input_scheme \<Rightarrow> string" where
  "poolers_unavailable i =
     (if \<not> di_has_poolers i then ''poolers have not been observed yet''
      else if og_stale (di_poolers i) then ''the poolers are stale, so current instance counts are unknown''
      else '''')"

definition quorum_unavailable :: "'z dg_input_scheme \<Rightarrow> string" where
  "quorum_unavailable i =
     (if \<not> di_has_quorum i then ''the failover quorum has not been observed yet''
      else if og_stale (di_quorum i) then ''the failover quorum is stale, so the current standby set is unknown''
      else '''')"

definition lease_unavailable :: "'z dg_input_scheme \<Rightarrow> string" where
  "lease_unavailable i =
     (if \<not> di_has_lease i then ''the primary lease has not been observed yet''
      else if og_stale (di_lease i) then ''the primary lease snapshot is stale, so the current holder is unknown''
      else '''')"

definition image_catalogs_unavailable :: "'z dg_input_scheme \<Rightarrow> string" where
  "image_catalogs_unavailable i =
     (if \<not> di_has_image_catalogs i then ''image catalogs have not been observed yet''
      else if og_stale (di_image_catalogs i) then ''the image catalogs are stale, so their current content is unknown''
      else '''')"

definition evidence_unavailable :: "'z dg_input_scheme \<Rightarrow> string" where
  "evidence_unavailable i =
     (let s = di_evidence i; r = eg_report (ev_snapshot s)
      in if \<not> di_has_evidence i then reason_evidence_off
         else if \<not> ev_has_report s
         then ''the repository-evidence sidecar has not answered yet'' @
           (if failure_kind_string (ev_failure s) \<noteq> ''''
            then '' (latest poll: '' @ failure_kind_string (ev_failure s) @ '')'' else '''')
         else if eg_stale (ev_snapshot s)
         then ''contact with the repository-evidence sidecar is lost, so the retained report is not current''
         else if re_completeness r = ''no-completed-scan''
         then ''the repository-evidence sidecar has not completed a scan''
         else if re_source_stale r
         then ''the repository-evidence sidecar reports its own evidence as stale against the repository''
         else if re_barman r = None
         then ''the repository report'' @ [CHR 0x27] @ ''s details are of a variant this console does not recognise''
         else '''')"

definition infrastructure_unavailable :: "'z dg_input_scheme \<Rightarrow> string" where
  "infrastructure_unavailable i =
     (if \<not> di_has_infrastructure i then ''the cluster'' @ [CHR 0x27] @ ''s volumes have not been observed yet''
      else if og_stale (di_infrastructure i)
      then ''the cluster'' @ [CHR 0x27] @ ''s volumes are stale, so current phases are unknown''
      else '''')"

definition logs_unavailable :: "'z dg_input_scheme \<Rightarrow> string" where
  "logs_unavailable i = (case di_logs i of None \<Rightarrow> reason_logs_off | Some _ \<Rightarrow> '''')"

definition logs_incomplete :: "'z dg_input_scheme \<Rightarrow> string" where
  "logs_incomplete i =
     (case di_logs i of
        None \<Rightarrow> ''''
      | Some logs \<Rightarrow>
          if pods_unavailable i \<noteq> ''''
          then ''which containers should be talking is unknown, because '' @ pods_unavailable i
          else
            (case lg_unread logs of
               [] \<Rightarrow> ''''
             | first # others \<Rightarrow>
                 ''no log stream is open for '' @ uw_pod first @ '' container '' @ uw_container first @
                 (if others \<noteq> [] then '' and '' @ itoa (int (length others)) @ '' other container'' else '''') @
                 (if length others > 1 then ''s'' else '''') @
                 (if is_zero (uw_since first) then '''' else '' for '' @ ago (di_now i) (uw_since first) second) @
                 '' ('' @ uw_reason first @ ''), so a line written there would not have been seen''))"

end
