(* ===== verification/DiagnoseConditions.thy ===== *)
theory DiagnoseConditions
  imports Diagnose
begin

text \<open>
  The conditions a catalog rule can wait for that read the snapshots, \<open>internal/diagnose/rule.go\<close> and
  \<open>internal/diagnose/status.go\<close>. Each answers the matches it found, or the reason it could not be
  evaluated. The parameter \<open>q\<close> is the verb \<open>%q\<close> of \<open>fmt\<close> on strings.
\<close>

section \<open>Matches\<close>

record condition_match =
  cm_suffix :: string
  cm_summary :: string
  cm_evidence :: "claim list"
  cm_subject :: entity_ref
  cm_at :: instant
  cm_link :: string
  cm_link_label :: string

type_synonym answer = "condition_match list \<times> string"

definition no_match :: condition_match where
  "no_match =
     \<lparr>cm_suffix = '''', cm_summary = '''', cm_evidence = [], cm_subject = no_entity, cm_at = zero_time, cm_link = '''',
      cm_link_label = ''''\<rparr>"

definition cluster_subject :: entity_ref where "cluster_subject = \<lparr>er_kind = ''Cluster'', er_name = ''''\<rparr>"

definition claimed :: "string \<Rightarrow> string \<Rightarrow> string \<Rightarrow> claim" where
  "claimed source obj detail = \<lparr>ea_origin = source, ea_object = obj, ea_detail = detail\<rparr>"

definition operator_reported :: string where "operator_reported = ''operator-reported''"
definition kubernetes_observed :: string where "kubernetes_observed = ''Kubernetes-observed''"

definition entity :: "string \<Rightarrow> string \<Rightarrow> entity_ref" where
  "entity kind name = \<lparr>er_kind = kind, er_name = name\<rparr>"

definition unless_empty :: "string \<Rightarrow> string \<Rightarrow> string" where
  "unless_empty pre s = (if s = '''' then '''' else pre @ s)"

text \<open>\<open>strings.ToLower\<close> and \<open>strings.EqualFold\<close> on ASCII: the phases compared with are ASCII literals, and
  the two runes outside ASCII that fold to a letter are taken as that letter.\<close>

definition lower_char :: "char \<Rightarrow> char" where
  "lower_char c = (if 65 \<le> byte c \<and> byte c \<le> 90 then char_of (byte c + 32) else c)"

fun fold_text :: "string \<Rightarrow> string" where
  "fold_text [] = []"
| "fold_text (a # b # c # s) =
     (if [a, b, c] = [CHR 0xE2, CHR 0x84, CHR 0xAA] then CHR ''k'' # fold_text s
      else if [a, b] = [CHR 0xC5, CHR 0xBF] then CHR ''s'' # fold_text (c # s)
      else lower_char a # fold_text (b # c # s))"
| "fold_text [a, b] = (if [a, b] = [CHR 0xC5, CHR 0xBF] then ''s'' else [lower_char a, lower_char b])"
| "fold_text [a] = [lower_char a]"

definition equal_fold :: "string \<Rightarrow> string \<Rightarrow> bool" where
  "equal_fold s t \<longleftrightarrow> fold_text s = fold_text t"

section \<open>Logs\<close>

definition log_match :: "log_observation \<Rightarrow> condition_match" where
  "log_match v =
     no_match\<lparr>cm_suffix := ''/'' @ lo_pod v @ ''/'' @ lo_container v, cm_subject := entity ''Pod'' (lo_pod v), cm_at := lo_last v,
       cm_evidence :=
         [claimed ''container log (best effort)'' (''Pod/'' @ lo_pod v @ '' container '' @ lo_container v) (lo_line v),
          claimed ''console-observed'' ''matching window''
            (''first seen '' @ clock_text (lo_first v) @ '', most recently '' @ clock_text (lo_last v) @ '', at least '' @
             itoa (lo_count v) @ '' matching lines'')],
       cm_link := ''/logs/'' @ lo_pod v @ ''/'' @ lo_container v, cm_link_label := ''Log tail''\<rparr>"

definition log_matches :: "string \<Rightarrow> 'z dg_input_scheme \<Rightarrow> answer" where
  "log_matches rule_id i =
     (case di_logs i of
        None \<Rightarrow> ([], logs_unavailable i)
      | Some logs \<Rightarrow>
          (let matches = map log_match (filter (\<lambda>v. lo_rule v = rule_id) (lg_observations logs))
           in if matches = [] then ([], logs_incomplete i) else (matches, '''')))"

section \<open>Events\<close>

definition event_evidence :: "event_facts \<Rightarrow> claim" where
  "event_evidence e =
     claimed kubernetes_observed (if ef_kind e = '''' then ef_object e else ef_kind e @ ''/'' @ ef_object e)
       (if ef_count e > 1 then ef_message e @ '' ('' @ [CHR 0xC3, CHR 0x97] @ itoa (ef_count e) @ '')'' else ef_message e)"

definition event_admitted :: "'z dg_input_scheme \<Rightarrow> event_facts \<Rightarrow> bool \<times> string" where
  "event_admitted i e =
     (if ef_kind e = ''Backup'' \<or> ef_kind e = ''ScheduledBackup''
      then
        (let rest = '', so events on '' @ ef_kind e @ '' objects cannot be attributed to this cluster''
         in if \<not> di_has_backups i then (False, ''the backup catalog has not been observed yet'' @ rest)
            else if og_stale (di_backups i) then (False, ''the backup catalog is stale'' @ rest)
            else if ef_kind e = ''Backup''
            then (list_ex (\<lambda>b. bf_name b = ef_object e) (bn_backups (di_backups i)), '''')
            else (list_ex (\<lambda>s. sf_name s = ef_object e) (bn_scheduled_backups (di_backups i)), ''''))
      else if ef_kind e = ''Pooler''
      then
        (if poolers_unavailable i \<noteq> ''''
         then (False, poolers_unavailable i @ '', so events on Pooler objects cannot be attributed to this cluster'')
         else (list_ex (\<lambda>p. pk_name p = ef_object e) (pq_poolers (di_poolers i)), ''''))
      else (True, ''''))"

definition max_quoted :: nat where "max_quoted = 3"

definition event_accepted :: "string list \<Rightarrow> string list \<Rightarrow> string list \<Rightarrow> string list \<Rightarrow> event_facts \<Rightarrow> bool" where
  "event_accepted reasons types message_contains kinds e \<longleftrightarrow>
     ef_type e \<in> set (if types = [] then [''Warning''] else types) \<and>
     ef_kind e \<in> set (if kinds = [] then [''Cluster'', ''Pod''] else kinds) \<and>
     ef_reason e \<in> set reasons \<and> list_all (str_contains (ef_message e)) message_contains"

text \<open>The loop over the events, newest first: the evidence so far and the first event quoted.\<close>

fun match_events :: "'z dg_input_scheme \<Rightarrow> (event_facts \<Rightarrow> bool) \<Rightarrow> event_facts list \<Rightarrow> claim list \<Rightarrow> event_facts option \<Rightarrow>
    (claim list \<times> event_facts option) \<times> string" where
  "match_events i accepts [] evidence newest = ((evidence, newest), '''')"
| "match_events i accepts (e # es) evidence newest =
     (if length evidence \<ge> max_quoted then ((evidence, newest), '''')
      else if \<not> accepts e then match_events i accepts es evidence newest
      else
        (let (admitted, unattributable) = event_admitted i e
         in if unattributable \<noteq> '''' then ((evidence, newest), unattributable)
            else if admitted
            then match_events i accepts es (evidence @ [event_evidence e])
              (case newest of None \<Rightarrow> Some e | Some n \<Rightarrow> Some n)
            else match_events i accepts es evidence newest))"

definition event_match :: "string list \<Rightarrow> string list \<Rightarrow> string list \<Rightarrow> string list \<Rightarrow> 'z dg_input_scheme \<Rightarrow> answer" where
  "event_match reasons types message_contains kinds i =
     (if events_unavailable i \<noteq> '''' then ([], events_unavailable i)
      else
        (case match_events i (event_accepted reasons types message_contains kinds) (ev_events (di_events i)) [] None of
           ((evidence, newest), unattributable) \<Rightarrow>
             if unattributable \<noteq> '''' then ([], unattributable)
             else
               (case newest of
                  None \<Rightarrow> ([], '''')
                | Some e \<Rightarrow>
                    ([no_match\<lparr>cm_evidence := evidence, cm_subject := entity (ef_kind e) (ef_object e), cm_at := ef_last_seen e\<rparr>],
                     ''''))))"

section \<open>Backups and schedules\<close>

definition backups_unread :: "string \<Rightarrow> 'z dg_input_scheme \<Rightarrow> string" where
  "backups_unread what i =
     (if \<not> di_has_backups i then ''the backup catalog has not been observed yet''
      else if og_stale (di_backups i) then ''the backup catalog is stale, so current '' @ what @ '' are unknown''
      else '''')"

definition backups_linked :: "condition_match \<Rightarrow> condition_match" where
  "backups_linked m = m\<lparr>cm_link := ''/backups'', cm_link_label := ''Backups''\<rparr>"

definition on_object :: "string \<Rightarrow> string \<Rightarrow> claim list \<Rightarrow> condition_match" where
  "on_object kind name evidence =
     no_match\<lparr>cm_suffix := ''/'' @ name, cm_subject := entity kind name, cm_evidence := evidence\<rparr>"

definition backup_phase :: "string list \<Rightarrow> duration \<Rightarrow> 'z dg_input_scheme \<Rightarrow> answer" where
  "backup_phase any_of min_age i =
     (if backups_unread ''phases'' i \<noteq> '''' then ([], backups_unread ''phases'' i)
      else
        (map (\<lambda>b. backups_linked
            ((on_object ''Backup'' (bf_name b)
               [claimed operator_reported (''Backup/'' @ bf_name b)
                  (''phase '' @ bf_phase b @ '', created '' @ utc_text (bf_created_at b))])
             \<lparr>cm_at := bf_created_at b\<rparr>))
          (filter (\<lambda>b. list_ex (equal_fold (bf_phase b)) any_of \<and>
              \<not> (min_age > 0 \<and> time_sub (di_now i) (bf_created_at b) < min_age))
             (bn_backups (di_backups i))), ''''))"

definition scheduled_backup_suspended :: "'z dg_input_scheme \<Rightarrow> answer" where
  "scheduled_backup_suspended i =
     (if backups_unread ''schedules'' i \<noteq> '''' then ([], backups_unread ''schedules'' i)
      else
        (map (\<lambda>s. backups_linked
            (on_object ''ScheduledBackup'' (sf_name s)
               [claimed operator_reported (''ScheduledBackup/'' @ sf_name s) ''suspend is true'']))
          (filter (\<lambda>s. sf_suspended s = Some True) (bn_scheduled_backups (di_backups i))), ''''))"

definition overdue_match :: "instant \<Rightarrow> scheduled_backup_facts \<Rightarrow> instant \<Rightarrow> condition_match" where
  "overdue_match now s due =
     backups_linked
       ((on_object ''ScheduledBackup'' (sf_name s)
          [claimed operator_reported (''ScheduledBackup/'' @ sf_name s)
             (''next run reported for '' @ utc_text due @ '', now '' @
              duration_string (duration_round (time_sub now due) minute) @ '' past'' @
              (case sf_last_schedule_time s of None \<Rightarrow> '''' | Some at \<Rightarrow> '', last scheduled '' @ utc_text at))])
        \<lparr>cm_at := due\<rparr>)"

definition scheduled_backup_overdue :: "duration \<Rightarrow> 'z dg_input_scheme \<Rightarrow> answer" where
  "scheduled_backup_overdue grace i =
     (if backups_unread ''schedules'' i \<noteq> '''' then ([], backups_unread ''schedules'' i)
      else
        (concat (map (\<lambda>s.
            if sf_suspended s = Some True then []
            else
              (case sf_next_schedule_time s of
                 None \<Rightarrow> []
               | Some due \<Rightarrow> if time_sub (di_now i) due < grace then [] else [overdue_match (di_now i) s due]))
          (bn_scheduled_backups (di_backups i))), ''''))"

section \<open>The operator's conditions and phase\<close>

definition on_cluster :: "claim list \<Rightarrow> condition_match" where
  "on_cluster evidence = no_match\<lparr>cm_subject := cluster_subject, cm_evidence := evidence\<rparr>"

definition condition_detail :: "condition \<Rightarrow> string" where
  "condition_detail c =
     ''status '' @ cd_status c @ '', reason '' @ cd_reason c @ unless_empty '': '' (cd_message c)"

definition cluster_condition :: "string \<Rightarrow> string \<Rightarrow> string \<Rightarrow> duration \<Rightarrow> 'z dg_input_scheme \<Rightarrow> answer" where
  "cluster_condition type status reason min_age i =
     (if cluster_unavailable i \<noteq> '''' then ([], cluster_unavailable i)
      else
        (case List.find (\<lambda>c. cd_type c = type \<and> cd_status c = status \<and> (reason = '''' \<or> cd_reason c = reason))
            (cf_conditions (cn_cluster (di_cluster i))) of
           None \<Rightarrow> ([], '''')
         | Some c \<Rightarrow>
             (let says = (\<lambda>detail. ([on_cluster [claimed operator_reported (''Cluster condition '' @ type) detail]], ''''))
              in if min_age > 0
                 then
                   (case cd_last_transition c of
                      None \<Rightarrow>
                        ([], ''condition '' @ type @ '' carries no transition time, so how long it has held is unknown'')
                    | Some at \<Rightarrow>
                        if time_sub (di_now i) at < min_age then ([], '''')
                        else says (condition_detail c @ ''; last transition '' @ rfc3339_text at @ dash @ ago (di_now i) at minute @
                               '' ago''))
                 else says (condition_detail c))))"

definition phase_detail :: "cluster_facts \<Rightarrow> string" where
  "phase_detail f = ''phase '' @ cf_phase f @ unless_empty '': '' (cf_phase_reason f)"

definition cluster_phase :: "string list \<Rightarrow> 'z dg_input_scheme \<Rightarrow> answer" where
  "cluster_phase any_of i =
     (let f = cn_cluster (di_cluster i)
      in if cluster_unavailable i \<noteq> '''' then ([], cluster_unavailable i)
         else if cf_phase f \<in> set any_of
         then ([on_cluster [claimed operator_reported ''Cluster'' (phase_detail f)]], '''')
         else ([], ''''))"

definition primary_moving :: "cluster_facts \<Rightarrow> bool" where
  "primary_moving f \<longleftrightarrow> cf_target_primary f \<noteq> '''' \<and> cf_target_primary f \<noteq> cf_current_primary f"

definition primary_mismatch :: "duration \<Rightarrow> 'z dg_input_scheme \<Rightarrow> answer" where
  "primary_mismatch min_age i =
     (let f = cn_cluster (di_cluster i)
      in if cluster_unavailable i \<noteq> '''' then ([], cluster_unavailable i)
         else if cf_current_primary f = '''' \<or> cf_target_primary f = '''' \<or> cf_current_primary f = cf_target_primary f
         then ([], '''')
         else
           (case cf_target_primary_timestamp f of
              None \<Rightarrow> ([], '''')
            | Some at \<Rightarrow>
                if time_sub (di_now i) at < min_age then ([], '''')
                else
                  ([(on_cluster
                      [claimed operator_reported ''Cluster primaries''
                         (''currentPrimary '' @ cf_current_primary f @ '', targetPrimary '' @ cf_target_primary f @
                          '', requested '' @ clock_text at @ '' ('' @ ago (di_now i) at minute @ '' ago)'' @
                          (if cf_target_primary f = ''pending''
                           then ''; '' @ [CHR 0x22] @ ''pending'' @ [CHR 0x22] @
                             '' is the operator'' @ [CHR 0x27] @ ''s marker for a failover decided with no candidate chosen yet''
                           else ''''))])
                    \<lparr>cm_at := at\<rparr>], '''')))"

section \<open>Containers and declared objects\<close>

definition container_match :: "(string \<Rightarrow> string) \<Rightarrow> pod_facts \<Rightarrow> container_facts \<Rightarrow> condition_match" where
  "container_match q pod c =
     no_match\<lparr>cm_suffix := ''/'' @ pf_name pod @ ''/'' @ ct_name c, cm_subject := entity ''Pod'' (pf_name pod),
       cm_evidence :=
         [claimed kubernetes_observed (''Pod/'' @ pf_name pod)
            (''container '' @ q (ct_name c) @ '': '' @ ct_reason c @ unless_empty '', state '' (ct_state c) @
             (case ct_restarts c of None \<Rightarrow> '''' | Some n \<Rightarrow> '', '' @ itoa n @ '' restarts'') @
             (case ct_exit_code c of None \<Rightarrow> '''' | Some n \<Rightarrow> '', last exit code '' @ itoa n))]\<rparr>"

definition container_state :: "(string \<Rightarrow> string) \<Rightarrow> string list \<Rightarrow> 'z dg_input_scheme \<Rightarrow> answer" where
  "container_state q reasons i =
     (if pods_unavailable i \<noteq> '''' then ([], pods_unavailable i)
      else if pooler_pods_unavailable i \<noteq> '''' then ([], pooler_pods_unavailable i)
      else
        (concat (map (\<lambda>pod. map (container_match q pod) (filter (\<lambda>c. ct_reason c \<in> set reasons) (pf_containers pod)))
           (po_pods (di_pods i) @ (if di_has_pooler_pods i then po_pods (di_pooler_pods i) else []))), ''''))"

definition declared_failed :: "(string \<Rightarrow> string) \<Rightarrow> string \<Rightarrow> string \<times> declared \<Rightarrow> condition_match list" where
  "declared_failed q kind declared =
     (case declared of (name, d) \<Rightarrow>
        if de_applied d = Some False
        then
          [(on_object kind name
             [claimed operator_reported (kind @ ''/'' @ name) (''applied false'' @ unless_empty '': '' (de_message d))])
           \<lparr>cm_suffix := ''/'' @ map lower_char kind @ ''/'' @ name,
             cm_summary := ''The operator cannot apply the declared '' @ kind @ '' '' @ q name @ ''.'',
             cm_link := ''/databases'', cm_link_label := ''Databases''\<rparr>]
        else [])"

definition declared_object_failed :: "(string \<Rightarrow> string) \<Rightarrow> 'z dg_input_scheme \<Rightarrow> answer" where
  "declared_object_failed q i =
     (let s = di_database_objects i
      in if \<not> di_has_database_objects i then ([], ''the declared database objects have not been observed yet'')
         else if og_stale s then ([], ''the declared database objects are stale, so current reports are unknown'')
         else
           (concat (map (declared_failed q ''Database'') (map (\<lambda>v. (db_name v, db_declared v)) (do_databases s))) @
            concat (map (declared_failed q ''DatabaseRole'') (map (\<lambda>v. (dr_name v, dr_declared v)) (do_roles s))) @
            concat (map (declared_failed q ''Publication'') (map (\<lambda>v. (pu_name v, pu_declared v)) (do_publications s))) @
            concat (map (declared_failed q ''Subscription'') (map (\<lambda>v. (su_name v, su_declared v)) (do_subscriptions s))), ''''))"

end
