(* ===== verification/DiagnoseStatus.thy ===== *)
theory DiagnoseStatus
  imports DiagnoseConditions
begin

text \<open>
  The conditions over the operator's status and the primary lease, \<open>internal/diagnose/status.go\<close>. The
  operator writes no clock beside several of the states, so a condition with a minimum age reads the
  instant at which the store first saw the state; without one it answers that it cannot tell.
\<close>

section \<open>How long a state has held\<close>

definition no_claim :: claim where "no_claim = claimed '''' '''' ''''"

definition held_evidence :: "'z dg_input_scheme \<Rightarrow> string \<Rightarrow> duration \<Rightarrow> string \<Rightarrow> claim \<times> bool \<times> string" where
  "held_evidence i key min_age what =
     (if min_age = 0 then (no_claim, True, '''')
      else
        (case facts_since (cn_cluster (di_cluster i)) key of
           None \<Rightarrow>
             (no_claim, False,
              ''the console has no record yet of how long '' @ what @ '' has held, and the check applies only after '' @
              duration_string min_age)
         | Some since \<Rightarrow>
             if time_sub (di_now i) since < min_age then (no_claim, False, '''')
             else
               (claimed ''console-observed'' ''Cluster status''
                  (what @ '' unchanged since at least '' @ clock_text since @ '', when the console first saw it'' @ dash @
                   ago (di_now i) since minute @ '' ago''), True, '''')))"

text \<open>The conditions on the cluster ask \<open>held\<close> for one state and answer one match, or for every name of
a list and answer a match each; the loop stops at the first name that cannot be judged.\<close>

definition held_once :: "claim \<times> bool \<times> string \<Rightarrow> (claim \<Rightarrow> condition_match) \<Rightarrow> answer" where
  "held_once held say =
     (case held of (evidence, ok, unjudged) \<Rightarrow>
        if unjudged \<noteq> '''' then ([], unjudged) else if ok then ([say evidence], '''') else ([], ''''))"

fun held_each :: "('a \<Rightarrow> claim \<times> bool \<times> string) \<Rightarrow> ('a \<Rightarrow> claim \<Rightarrow> condition_match) \<Rightarrow> 'a list \<Rightarrow> answer" where
  "held_each held say [] = ([], '''')"
| "held_each held say (x # xs) =
     (case held x of (evidence, ok, unjudged) \<Rightarrow>
        if unjudged \<noteq> '''' then ([], unjudged)
        else
          (case held_each held say xs of (matches, because) \<Rightarrow>
             if because \<noteq> '''' then ([], because)
             else ((if ok then [say x evidence] else []) @ matches, '''')))"

definition and_held :: "claim list \<Rightarrow> claim \<Rightarrow> claim list" where
  "and_held evidence held = evidence @ (if ea_origin held \<noteq> '''' then [held] else [])"

section \<open>Phases and lists\<close>

definition cluster_phase_held :: "string list \<Rightarrow> duration \<Rightarrow> 'z dg_input_scheme \<Rightarrow> answer" where
  "cluster_phase_held any_of min_age i =
     (let f = cn_cluster (di_cluster i)
      in if cluster_unavailable i \<noteq> '''' then ([], cluster_unavailable i)
         else if cf_phase f \<notin> set any_of then ([], '''')
         else held_once (held_evidence i (''phase='' @ cf_phase f) min_age ''the phase'')
           (\<lambda>held. on_cluster [claimed operator_reported ''Cluster status'' (phase_detail f), held]))"

datatype status_list =
    ListFailedInstances | ListUnusablePVC | ListDanglingPVC | ListResizingPVC | ListInitializingPVC

fun status_list_text :: "status_list \<Rightarrow> string" where
  "status_list_text ListFailedInstances = ''failed instances''"
| "status_list_text ListUnusablePVC = ''unusable claims''"
| "status_list_text ListDanglingPVC = ''dangling claims''"
| "status_list_text ListResizingPVC = ''resizing claims''"
| "status_list_text ListInitializingPVC = ''initializing claims''"

fun status_list_read :: "status_list \<Rightarrow> cluster_facts \<Rightarrow> string list \<times> string \<times> string" where
  "status_list_read ListFailedInstances f = (cf_failed_instances f, ''failedInstance'', ''Pod'')"
| "status_list_read ListUnusablePVC f = (cf_unusable_pvcs f, ''unusablePVC'', ''PersistentVolumeClaim'')"
| "status_list_read ListDanglingPVC f = (cf_dangling_pvcs f, ''danglingPVC'', ''PersistentVolumeClaim'')"
| "status_list_read ListResizingPVC f = (cf_resizing_pvcs f, ''resizingPVC'', ''PersistentVolumeClaim'')"
| "status_list_read ListInitializingPVC f = (cf_initializing_pvcs f, ''initializingPVC'', ''PersistentVolumeClaim'')"

definition status_listed :: "status_list \<Rightarrow> duration \<Rightarrow> 'z dg_input_scheme \<Rightarrow> answer" where
  "status_listed l min_age i =
     (if cluster_unavailable i \<noteq> '''' then ([], cluster_unavailable i)
      else
        (case status_list_read l (cn_cluster (di_cluster i)) of (names, key, kind) \<Rightarrow>
           held_each (\<lambda>name. held_evidence i (key @ ''='' @ name) min_age ''its listing'')
             (\<lambda>name held. on_object kind name
                (and_held [claimed operator_reported (kind @ ''/'' @ name)
                   (''listed under '' @ status_list_text l @ '' in the Cluster status'')] held))
             names))"

section \<open>The primary and the timelines\<close>

definition primary_failing :: "duration \<Rightarrow> 'z dg_input_scheme \<Rightarrow> answer" where
  "primary_failing min_age i =
     (let f = cn_cluster (di_cluster i)
      in if cluster_unavailable i \<noteq> '''' then ([], cluster_unavailable i)
         else
           (case cf_primary_failing_since f of
              None \<Rightarrow> ([], '''')
            | Some since \<Rightarrow>
                if time_sub (di_now i) since < min_age then ([], '''')
                else
                  ([(on_object ''Pod'' (cf_current_primary f)
                       [claimed operator_reported ''Cluster status''
                          (''currentPrimaryFailingSinceTimestamp '' @ rfc3339_text since @ dash @ ago (di_now i) since minute @
                           '' ago'')])
                    \<lparr>cm_at := since\<rparr>], '''')))"

definition timeline_match :: "int \<Rightarrow> instance_timeline \<Rightarrow> claim \<Rightarrow> condition_match" where
  "timeline_match timeline t held =
     (on_object ''Pod'' (it_instance t)
        (and_held
           [claimed operator_reported ''Cluster status'' (''timelineID '' @ itoa timeline),
            claimed ''instance-reported through the operator'' (''Pod/'' @ it_instance t)
              (''instancesReportedState timeLineID '' @ itoa (it_timeline_id t))] held))
     \<lparr>cm_summary := ''Instance '' @ it_instance t @ '' reports timeline '' @ itoa (it_timeline_id t) @
        '' while the cluster is on timeline '' @ itoa timeline @ ''.''\<rparr>"

definition timeline_divergence :: "duration \<Rightarrow> 'z dg_input_scheme \<Rightarrow> answer" where
  "timeline_divergence min_age i =
     (let f = cn_cluster (di_cluster i)
      in if cluster_unavailable i \<noteq> '''' then ([], cluster_unavailable i)
         else
           (case cf_timeline_id f of
              None \<Rightarrow> ([], ''the operator reports no cluster timeline to compare instances against'')
            | Some timeline \<Rightarrow>
                held_each (\<lambda>t. held_evidence i (''instanceTimeline='' @ it_instance t @ '':'' @ itoa (it_timeline_id t)) min_age
                    (''the instance'' @ [CHR 0x27] @ ''s timeline''))
                  (timeline_match timeline)
                  (filter (\<lambda>t. it_timeline_id t \<noteq> 0 \<and> it_timeline_id t \<noteq> timeline) (cf_instance_timelines f))))"

definition replica_switch_stuck :: "duration \<Rightarrow> 'z dg_input_scheme \<Rightarrow> answer" where
  "replica_switch_stuck min_age i =
     (if cluster_unavailable i \<noteq> '''' then ([], cluster_unavailable i)
      else if \<not> cf_replica_switch_in_progress (cn_cluster (di_cluster i)) then ([], '''')
      else held_once (held_evidence i ''replicaSwitch=inProgress'' min_age ''the switch'')
        (\<lambda>held. on_cluster
           [claimed operator_reported ''Cluster status'' ''switchReplicaClusterStatus.inProgress true'', held]))"

definition instances_short :: "duration \<Rightarrow> 'z dg_input_scheme \<Rightarrow> answer" where
  "instances_short min_age i =
     (let f = cn_cluster (di_cluster i)
      in if cluster_unavailable i \<noteq> '''' then ([], cluster_unavailable i)
         else
           (case (cf_desired_instances f, cf_ready_instances f) of
              (Some desired, Some ready) \<Rightarrow>
                if ready \<ge> desired then ([], '''')
                else held_once (held_evidence i (''readyShort='' @ itoa ready @ ''/'' @ itoa desired) min_age ''the shortfall'')
                  (\<lambda>held. (on_cluster
                     [claimed operator_reported ''Cluster status''
                        (itoa desired @ '' instances declared, readyInstances '' @ itoa ready), held])
                     \<lparr>cm_summary := itoa ready @ '' of '' @ itoa desired @ '' declared instances are ready.''\<rparr>)
            | _ \<Rightarrow> ([], ''the operator reports no ready-instance count to compare against the declared one'')))"

section \<open>Certificates, roles, tablespaces, poolers\<close>

definition certificate_match :: "duration \<Rightarrow> certificate_expiry \<Rightarrow> condition_match" where
  "certificate_match left c =
     on_object ''Secret'' (ce_secret c)
       [claimed operator_reported (''Secret/'' @ ce_secret c)
          (''expires '' @ rfc3339_text (ce_expires_at c) @
           (if left \<le> 0
            then dash @ ''expired '' @ duration_string (duration_round (wrap64 (- left)) minute) @ '' ago''
            else dash @ ''in '' @ duration_string (duration_round left minute)))]"

definition certificate_expiring :: "duration \<Rightarrow> 'z dg_input_scheme \<Rightarrow> answer" where
  "certificate_expiring within i =
     (if cluster_unavailable i \<noteq> '''' then ([], cluster_unavailable i)
      else
        (let left = (\<lambda>c. time_sub (ce_expires_at c) (di_now i))
         in (map (\<lambda>c. certificate_match (left c) c)
               (filter (\<lambda>c. left c \<le> within \<and> \<not> (within > 0 \<and> left c \<le> 0))
                  (cf_certificate_expirations (cn_cluster (di_cluster i)))), '''')))"

definition role_unreconcilable :: "(string \<Rightarrow> string) \<Rightarrow> 'z dg_input_scheme \<Rightarrow> answer" where
  "role_unreconcilable q i =
     (if cluster_unavailable i \<noteq> '''' then ([], cluster_unavailable i)
      else
        (map (\<lambda>p. (on_object ''ManagedRole'' (rp_role p)
                [claimed operator_reported (''managed role '' @ rp_role p) (''cannotReconcile: '' @ str_join ''; '' (rp_errors p))])
              \<lparr>cm_summary := ''The operator cannot reconcile the managed role '' @ q (rp_role p) @ ''.''\<rparr>)
          (cf_unreconcilable_roles (cn_cluster (di_cluster i))), ''''))"

definition tablespace_error :: "(string \<Rightarrow> string) \<Rightarrow> 'z dg_input_scheme \<Rightarrow> answer" where
  "tablespace_error q i =
     (if cluster_unavailable i \<noteq> '''' then ([], cluster_unavailable i)
      else
        (map (\<lambda>t. (on_object ''Tablespace'' (tf_name t)
                [claimed operator_reported (''tablespace '' @ tf_name t) (''state '' @ tf_state t @ '': '' @ tf_error t)])
              \<lparr>cm_summary := ''The operator cannot reconcile the tablespace '' @ q (tf_name t) @ ''.''\<rparr>)
          (filter (\<lambda>t. tf_error t \<noteq> '''') (cf_tablespaces (cn_cluster (di_cluster i)))), ''''))"

definition pooler_phase :: "string list \<Rightarrow> 'z dg_input_scheme \<Rightarrow> answer" where
  "pooler_phase any_of i =
     (if poolers_unavailable i \<noteq> '''' then ([], poolers_unavailable i)
      else
        (map (\<lambda>p. (on_object ''Pooler'' (pk_name p)
                [claimed operator_reported (''Pooler/'' @ pk_name p) (''phase '' @ pk_phase p @ unless_empty '': '' (pk_phase_reason p))])
              \<lparr>cm_summary := ''Pooler '' @ pk_name p @ '' is in phase '' @ pk_phase p @ ''.'', cm_link := ''/poolers'',
                cm_link_label := ''Poolers''\<rparr>)
          (filter (\<lambda>p. pk_phase p \<in> set any_of) (pq_poolers (di_poolers i))), ''''))"

section \<open>The primary lease\<close>

definition lease_name :: "'z dg_input_scheme \<Rightarrow> string" where
  "lease_name i = (let name = pl_name (pn_lease (di_lease i)) in if name \<noteq> '''' then name else ''primary'')"

definition lease_released :: "duration \<Rightarrow> 'z dg_input_scheme \<Rightarrow> answer" where
  "lease_released grace i =
     (let lease = pn_lease (di_lease i); f = cn_cluster (di_cluster i)
      in if cf_current_primary f = '''' \<or> primary_moving f then ([], '''')
         else if (case pl_renewed_at lease of None \<Rightarrow> False | Some at \<Rightarrow> time_sub (di_now i) at < grace) then ([], '''')
         else
           ([(on_object ''Pod'' (cf_current_primary f)
                [claimed kubernetes_observed (''Lease/'' @ lease_name i)
                   (''holderIdentity empty'' @
                    (case pl_renewed_at lease of None \<Rightarrow> '''' | Some at \<Rightarrow> '', released '' @ rfc3339_text at)),
                 claimed operator_reported ''Cluster status'' (''currentPrimary '' @ cf_current_primary f)])
             \<lparr>cm_summary := ''The primary lease is released while the operator names '' @ cf_current_primary f @
                '' as the current primary.''\<rparr>], ''''))"

definition lease_unrenewed :: "duration \<Rightarrow> 'z dg_input_scheme \<Rightarrow> answer" where
  "lease_unrenewed grace i =
     (let lease = pn_lease (di_lease i)
      in case (pl_renewed_at lease, pl_duration_seconds lease) of
           (Some renewed, Some seconds) \<Rightarrow>
             (let expiry = renewed + wrap64 (seconds * second)
              in if time_sub (di_now i) expiry < grace then ([], '''')
                 else
                   ([(on_object ''Pod'' (pl_holder lease)
                        [claimed kubernetes_observed (''Lease/'' @ lease_name i)
                           (''holderIdentity '' @ pl_holder lease @ '', renewTime '' @ rfc3339_text renewed @
                            '', leaseDurationSeconds '' @ itoa seconds)])
                     \<lparr>cm_at := renewed,
                       cm_summary := ''The primary lease held by '' @ pl_holder lease @ '' has not been renewed since '' @
                         clock_text renewed @ '', '' @ ago (di_now i) expiry second @ '' past its duration.''\<rparr>], ''''))
         | _ \<Rightarrow> ([], ''the primary lease carries no renewal time or duration, so its validity cannot be judged''))"

definition primary_lease_expired :: "duration \<Rightarrow> 'z dg_input_scheme \<Rightarrow> answer" where
  "primary_lease_expired grace i =
     (if lease_unavailable i \<noteq> '''' then ([], lease_unavailable i)
      else if cluster_unavailable i \<noteq> '''' then ([], cluster_unavailable i)
      else if \<not> pl_present (pn_lease (di_lease i)) then ([], '''')
      else if pl_holder (pn_lease (di_lease i)) = '''' then lease_released grace i
      else lease_unrenewed grace i)"

definition primary_lease_holder_mismatch :: "'z dg_input_scheme \<Rightarrow> answer" where
  "primary_lease_holder_mismatch i =
     (let lease = pn_lease (di_lease i); f = cn_cluster (di_cluster i)
      in if lease_unavailable i \<noteq> '''' then ([], lease_unavailable i)
         else if cluster_unavailable i \<noteq> '''' then ([], cluster_unavailable i)
         else if \<not> pl_present lease \<or> pl_holder lease = '''' \<or> cf_current_primary f = '''' then ([], '''')
         else if primary_moving f then ([], '''')
         else if pl_holder lease = cf_current_primary f then ([], '''')
         else
           ([(on_object ''Pod'' (pl_holder lease)
                [claimed kubernetes_observed (''Lease/'' @ lease_name i) (''holderIdentity '' @ pl_holder lease),
                 claimed operator_reported ''Cluster status''
                   (''currentPrimary '' @ cf_current_primary f @ '', targetPrimary '' @ cf_target_primary f)])
             \<lparr>cm_summary := ''The primary lease is held by '' @ pl_holder lease @ '' while the operator names '' @
                cf_current_primary f @ '' as the current primary.''\<rparr>], ''''))"

section \<open>Held states over a published cluster\<close>

lemma published_cluster:
  assumes "published_facts es \<noteq> []"
  shows "cn_cluster (so_snap (fold cluster_event_step es new_cluster_store)) =
    (fst (last (published_facts es)))
      \<lparr>cf_observed_since := cf_observed_since (cn_cluster (so_snap (fold cluster_event_step es new_cluster_store)))\<rparr>"
  using assms
proof (induction es rule: rev_induct)
  case (snoc e es)
  show ?case
  proof (cases e)
    case (PublishedFacts facts at)
    then show ?thesis by (simp add: cluster_store_publish_def Let_def)
  next
    case WentStale
    with snoc show ?thesis by (simp add: mark_stale_def)
  qed
qed simp

lemma unpublished_cluster:
  assumes "published_facts es = []"
  shows "\<not> cf_present (cn_cluster (so_snap (fold cluster_event_step es new_cluster_store)))"
  using assms
proof (induction es rule: rev_induct)
  case Nil
  show ?case by (simp add: new_cluster_store_def no_facts_def)
next
  case (snoc e es)
  then show ?case by (cases e) (simp_all add: mark_stale_def)
qed

lemma held_keys_since_irrelevant [simp]: "held_keys (f\<lparr>cf_observed_since := h\<rparr>) = held_keys f"
  by (simp add: held_keys_def)

lemma held_from_shown:
  assumes "published_facts es \<noteq> []" "key \<in> set (held_keys (fst (last (published_facts es))))"
  shows "\<exists>since. held_from key (published_facts es) = Some since"
proof -
  obtain pubs facts at where "published_facts es = pubs @ [(facts, at)]"
    using assms(1) by (metis append_butlast_last_id surj_pair)
  with assms(2) show ?thesis by (auto simp: held_from_snoc)
qed

text \<open>The judgement of a held state the last publication shows.\<close>

lemma held_evidence_judged:
  assumes cluster: "di_cluster i = so_snap (fold cluster_event_step es new_cluster_store)"
    and read: "cluster_unavailable i = ''''"
    and shown: "key \<in> set (held_keys (cn_cluster (di_cluster i)))"
  shows "\<exists>since. held_from key (published_facts es) = Some since \<and>
    (\<forall>min_age what. snd (snd (held_evidence i key min_age what)) = '''' \<and>
       (fst (snd (held_evidence i key min_age what)) \<longleftrightarrow> min_age = 0 \<or> \<not> time_sub (di_now i) since < min_age))"
proof -
  have pubs: "published_facts es \<noteq> []"
    using read cluster unpublished_cluster [of es] by (auto simp: cluster_unavailable_def split: if_splits)
  with shown cluster have "key \<in> set (held_keys (fst (last (published_facts es))))"
    by (metis published_cluster held_keys_since_irrelevant)
  with pubs obtain since where since: "held_from key (published_facts es) = Some since"
    using held_from_shown by blast
  with cluster have "facts_since (cn_cluster (di_cluster i)) key = Some since"
    using held_since_store [of es key] by (simp add: Let_def)
  with since show ?thesis
    by (auto simp: held_evidence_def)
qed

lemma held_each_judged:
  assumes "\<And>x. x \<in> set xs \<Longrightarrow> snd (snd (held x)) = ''''"
  shows "held_each held say xs =
    (map (\<lambda>x. say x (fst (held x))) (filter (\<lambda>x. fst (snd (held x))) xs), '''')"
  using assms
proof (induction xs)
  case (Cons x xs)
  then have "snd (snd (held x)) = ''''" by simp
  with Cons show ?case by (cases "held x") auto
qed simp

text \<open>The keys of a status list are among those the store tracks.\<close>

lemma status_list_keys:
  assumes "status_list_read l f = (names, key, kind)" "name \<in> set names"
  shows "key @ ''='' @ name \<in> set (held_keys f)"
  using assms by (cases l) (auto simp: held_keys_def)

text \<open>C28. Where the console kept its clock, a minimum age is judged and never answered with "no record":
over any cluster the store published, a status list names exactly the entries whose unbroken presence
through the publications, up to the last one, is at least the minimum age at the instant of the run.\<close>

theorem listed_names_held_long_enough:
  assumes "di_cluster i = so_snap (fold cluster_event_step es new_cluster_store)"
    and "cluster_unavailable i = ''''"
    and "min_age > 0"
    and "status_list_read l (cn_cluster (di_cluster i)) = (names, key, kind)"
  shows "snd (status_listed l min_age i) = '''' \<and>
    map (\<lambda>m. er_name (cm_subject m)) (fst (status_listed l min_age i)) =
      filter (\<lambda>name. case held_from (key @ ''='' @ name) (published_facts es) of
          None \<Rightarrow> False
        | Some since \<Rightarrow> min_age \<le> time_sub (di_now i) since) names"
proof -
  let ?held = "\<lambda>name. held_evidence i (key @ ''='' @ name) min_age ''its listing''"
  have judged: "snd (snd (?held name)) = '''' \<and>
      fst (snd (?held name)) =
        (case held_from (key @ ''='' @ name) (published_facts es) of
           None \<Rightarrow> False
         | Some since \<Rightarrow> min_age \<le> time_sub (di_now i) since)"
    if "name \<in> set names" for name
  proof -
    have "key @ ''='' @ name \<in> set (held_keys (cn_cluster (di_cluster i)))"
      using assms(4) that by (rule status_list_keys)
    with held_evidence_judged [OF assms(1,2)] assms(3) show ?thesis by fastforce
  qed
  have listed: "status_listed l min_age i =
      (map (\<lambda>name. on_object kind name
         (and_held [claimed operator_reported (kind @ ''/'' @ name)
            (''listed under '' @ status_list_text l @ '' in the Cluster status'')] (fst (?held name))))
        (filter (\<lambda>name. fst (snd (?held name))) names), '''')"
    using assms(2,4) judged by (simp add: status_listed_def held_each_judged)
  then show ?thesis
    using judged by (simp add: comp_def on_object_def entity_def cong: filter_cong)
qed

text \<open>An instance listed as failed in two publications an hour apart, judged ten minutes later.\<close>

definition failing_cluster :: "cluster_event list" where
  "failing_cluster =
     (let f = no_facts\<lparr>cf_present := True, cf_failed_instances := [''pg-2'']\<rparr>
      in [PublishedFacts (f\<lparr>cf_failed_instances := []\<rparr>) 0, PublishedFacts f (1 * hour), WentStale, PublishedFacts f (2 * hour)])"

definition failing_input :: dg_input where
  "failing_input =
     (unobserved_input (2 * hour + 10 * minute))
     \<lparr>di_has_cluster := True, di_cluster := so_snap (fold cluster_event_step failing_cluster new_cluster_store)\<rparr>"

lemma listed_names_held_long_enough_witness:
  "map (\<lambda>m. er_name (cm_subject m)) (fst (status_listed ListFailedInstances hour failing_input)) = [''pg-2'']"
proof -
  have "cluster_unavailable failing_input = ''''" by code_simp
  moreover have "hour > 0" by code_simp
  moreover have "status_list_read ListFailedInstances (cn_cluster (di_cluster failing_input)) =
      ([''pg-2''], ''failedInstance'', ''Pod'')"
    by code_simp
  moreover have "di_cluster failing_input = so_snap (fold cluster_event_step failing_cluster new_cluster_store)"
    by (simp add: failing_input_def)
  ultimately have "map (\<lambda>m. er_name (cm_subject m)) (fst (status_listed ListFailedInstances hour failing_input)) =
      filter (\<lambda>name. case held_from (''failedInstance'' @ ''='' @ name) (published_facts failing_cluster) of
          None \<Rightarrow> False
        | Some since \<Rightarrow> hour \<le> time_sub (di_now failing_input) since) [''pg-2'']"
    by (intro conjunct2 [OF listed_names_held_long_enough])
  also have "\<dots> = [''pg-2'']" by code_simp
  finally show ?thesis .
qed

end
