(* ===== verification/DiagnoseResources.thy ===== *)
theory DiagnoseResources
  imports DiagnoseConditions
begin

text \<open>
  The conditions over the operator's secondary resources, the plugin's report of the object store and
  the repository evidence: \<open>internal/diagnose/resources.go\<close>, \<open>objectstore.go\<close> and \<open>repository.go\<close>.
\<close>

section \<open>Poolers and the failover quorum\<close>

definition pooler_short_match :: "pooler_facts \<Rightarrow> int \<Rightarrow> condition_match" where
  "pooler_short_match p desired =
     (on_object ''Pooler'' (pk_name p)
        [claimed operator_reported (''Pooler/'' @ pk_name p)
           (itoa desired @ '' instances declared, '' @ itoa (pk_ready_instances p) @ '' ready'' @
            (if pk_phase p \<noteq> '''' then '', phase '' @ pk_phase p @ unless_empty '': '' (pk_phase_reason p) else ''''))])
     \<lparr>cm_summary := ''Pooler '' @ pk_name p @ '' has '' @ itoa (pk_ready_instances p) @ '' of '' @ itoa desired @
        '' instances ready.'',
      cm_link := ''/poolers'', cm_link_label := ''Poolers''\<rparr>"

definition pooler_short :: "'z dg_input_scheme \<Rightarrow> answer" where
  "pooler_short i =
     (if poolers_unavailable i \<noteq> '''' then ([], poolers_unavailable i)
      else
        (concat (map (\<lambda>p.
            case pk_desired_instances p of
              None \<Rightarrow> []
            | Some desired \<Rightarrow> if pk_ready_instances p \<ge> desired then [] else [pooler_short_match p desired])
          (pq_poolers (di_poolers i))), ''''))"

definition quorum_standbys_short :: "'z dg_input_scheme \<Rightarrow> answer" where
  "quorum_standbys_short i =
     (let quorum = qn_quorum (di_quorum i)
      in if quorum_unavailable i \<noteq> '''' then ([], quorum_unavailable i)
         else if \<not> fq_present quorum \<or> fq_standby_number quorum \<le> 0 then ([], '''')
         else if fq_standbys_truncated quorum
         then ([], ''more standbys were reported than the console retains, so the count cannot be compared'')
         else if int (length (fq_standbys quorum)) \<ge> fq_standby_number quorum then ([], '''')
         else
           ([(on_cluster
                [claimed operator_reported ''FailoverQuorum''
                   (''standbyNumber '' @ itoa (fq_standby_number quorum) @ '', standbyNames ['' @
                    str_join '', '' (fq_standbys quorum) @ '']'' @ unless_empty '', method '' (fq_method quorum) @
                    unless_empty '', written by '' (fq_primary quorum))])
             \<lparr>cm_summary := ''Transactions wait for '' @ itoa (fq_standby_number quorum) @ '' synchronous standbys and only '' @
                itoa (int (length (fq_standbys quorum))) @ '' are potentially synchronous.'',
              cm_link := ''/cluster/overview'', cm_link_label := ''Overview''\<rparr>], ''''))"

section \<open>Image catalogs\<close>

datatype catalog_lookup = CatalogFound | CatalogAbsent | CatalogUnreferenced

definition no_catalog :: image_catalog_facts where
  "no_catalog = \<lparr>ic_name = '''', ic_uid = '''', ic_images = [], ic_images_truncated = False, ic_created_at = zero_time\<rparr>"

definition resolve_named_catalog :: "image_catalogs_snapshot \<Rightarrow> string \<Rightarrow> image_catalog_facts \<times> catalog_lookup \<times> string" where
  "resolve_named_catalog s name =
     (case snapshot_catalog s name of
        Some catalog \<Rightarrow> (catalog, CatalogFound, '''')
      | None \<Rightarrow>
          if io_truncated s
          then (no_catalog, CatalogUnreferenced,
            ''more catalogs exist than the console retains, so the referenced one may be among those not shown'')
          else (no_catalog, CatalogAbsent, ''''))"

definition resolve_cluster_catalog :: "image_catalogs_snapshot \<Rightarrow> image_catalog_facts \<times> catalog_lookup \<times> string" where
  "resolve_cluster_catalog s =
     (case io_cluster_catalog_state s of
        ClusterCatalogPresent \<Rightarrow> (io_cluster_catalog s, CatalogFound, '''')
      | ClusterCatalogAbsent \<Rightarrow> (no_catalog, CatalogAbsent, '''')
      | ClusterCatalogDisabled \<Rightarrow>
          (no_catalog, CatalogUnreferenced, ''the cluster-scoped catalog lookup is not enabled for this deployment'')
      | _ \<Rightarrow> (no_catalog, CatalogUnreferenced, ''the cluster-scoped catalog could not be looked up''))"

definition resolve_catalog :: "'z dg_input_scheme \<Rightarrow> image_catalog_facts \<times> catalog_lookup \<times> string" where
  "resolve_catalog i =
     (if cluster_unavailable i \<noteq> '''' then (no_catalog, CatalogUnreferenced, cluster_unavailable i)
      else
        (case cf_image_catalog_ref (cn_cluster (di_cluster i)) of
           None \<Rightarrow> (no_catalog, CatalogUnreferenced, '''')
         | Some ref \<Rightarrow>
             if image_catalogs_unavailable i \<noteq> '''' then (no_catalog, CatalogUnreferenced, image_catalogs_unavailable i)
             else if ir_kind ref = ''ImageCatalog'' then resolve_named_catalog (di_image_catalogs i) (ir_name ref)
             else if ir_kind ref = ''ClusterImageCatalog'' then resolve_cluster_catalog (di_image_catalogs i)
             else (no_catalog, CatalogUnreferenced, '''')))"

text \<open>The reference the two conditions quote; they reach it only where the lookup followed one.\<close>

definition catalog_ref :: "'z dg_input_scheme \<Rightarrow> image_catalog_ref" where
  "catalog_ref i =
     (case cf_image_catalog_ref (cn_cluster (di_cluster i)) of
        Some ref \<Rightarrow> ref
      | None \<Rightarrow> \<lparr>ir_kind = '''', ir_name = '''', ir_major = 0\<rparr>)"

definition ref_text :: "image_catalog_ref \<Rightarrow> string" where
  "ref_text ref = ir_kind ref @ ''/'' @ ir_name ref"

definition objects_linked :: "condition_match \<Rightarrow> condition_match" where
  "objects_linked m = m\<lparr>cm_link := ''/objects'', cm_link_label := ''Objects''\<rparr>"

definition image_catalog_missing :: "'z dg_input_scheme \<Rightarrow> answer" where
  "image_catalog_missing i =
     (case resolve_catalog i of (_, lookup, reason) \<Rightarrow>
        if reason \<noteq> '''' then ([], reason)
        else if lookup \<noteq> CatalogAbsent then ([], '''')
        else
          ([objects_linked
              (on_cluster
                 [claimed operator_reported ''Cluster'' (''imageCatalogRef '' @ ref_text (catalog_ref i)),
                  claimed kubernetes_observed (ref_text (catalog_ref i)) ''the API server reports no such object''])], ''''))"

definition image_catalog_lacks_major :: "'z dg_input_scheme \<Rightarrow> answer" where
  "image_catalog_lacks_major i =
     (case resolve_catalog i of (catalog, lookup, reason) \<Rightarrow>
        if reason \<noteq> '''' then ([], reason)
        else if lookup \<noteq> CatalogFound then ([], '''')
        else
          (case cf_postgres_major_version (cn_cluster (di_cluster i)) of
             None \<Rightarrow> ([], ''the operator reports no PostgreSQL major version to look up'')
           | Some major \<Rightarrow>
               if list_ex (\<lambda>v. ci_major v = major) (ic_images catalog) then ([], '''')
               else if ic_images_truncated catalog
               then ([], ''the catalog offers more images than the console retains, so the major may be among those not shown'')
               else
                 ([objects_linked
                     (no_match
                      \<lparr>cm_subject := entity (ir_kind (catalog_ref i)) (ir_name (catalog_ref i)),
                       cm_summary := ''The referenced '' @ ir_kind (catalog_ref i) @ '' offers no image for PostgreSQL '' @
                         itoa major @ ''.'',
                       cm_evidence :=
                         [claimed operator_reported ''Cluster''
                            (''imageCatalogRef '' @ ref_text (catalog_ref i) @ '', PostgreSQL major version '' @ itoa major),
                          claimed kubernetes_observed (ref_text (catalog_ref i))
                            (itoa (int (length (ic_images catalog))) @ '' images, for majors ['' @
                             str_join '', '' (map (\<lambda>v. itoa (ci_major v)) (ic_images catalog)) @ '']'')]\<rparr>)], '''')))"

section \<open>The object store\<close>

definition recovery_window_of :: "(string \<Rightarrow> string) \<Rightarrow> 'z dg_input_scheme \<Rightarrow>
    object_store_reference \<times> recovery_window option \<times> string" where
  "recovery_window_of q i =
     (let ref = bn_object_store (di_backups i)
      in if \<not> di_has_backups i then (zero_object_store, None, ''the backup catalog has not been observed yet'')
         else if og_stale (di_backups i)
         then (zero_object_store, None,
           ''the backup catalog is stale, so the object store'' @ [CHR 0x27] @ ''s report is unknown'')
         else if oj_state ref = ObjectStoreNotReferenced then (ref, None, '''')
         else if oj_state ref = ObjectStorePresent then (ref, oj_recovery_window ref, '''')
         else (ref, None, ''the referenced ObjectStore '' @ q (oj_name ref) @
           '' could not be read, so its report of the backups is unknown''))"

definition plugin_reported :: string where "plugin_reported = ''plugin-reported''"

definition store_match :: "string \<Rightarrow> claim list \<Rightarrow> condition_match" where
  "store_match name evidence =
     backups_linked (no_match\<lparr>cm_subject := entity ''ObjectStore'' name, cm_evidence := evidence\<rparr>)"

definition store_backup_failed :: "(string \<Rightarrow> string) \<Rightarrow> 'z dg_input_scheme \<Rightarrow> answer" where
  "store_backup_failed q i =
     (case recovery_window_of q i of (ref, window, reason) \<Rightarrow>
        if reason \<noteq> '''' then ([], reason)
        else
          (case Option.bind window rw_last_failed_backup of
             None \<Rightarrow> ([], '''')
           | Some failed \<Rightarrow>
               (let success = Option.bind window rw_last_successful_backup
                in if (case success of None \<Rightarrow> False | Some at \<Rightarrow> \<not> failed > at) then ([], '''')
                   else
                     ([(store_match (oj_name ref)
                          [claimed plugin_reported (''ObjectStore/'' @ oj_name ref @ '' server '' @ oj_server_name ref)
                             (''lastFailedBackupTime '' @ rfc3339_text failed @
                              (case success of
                                 None \<Rightarrow> '', no successful backup reported''
                               | Some at \<Rightarrow> '', lastSuccessfulBackupTime '' @ rfc3339_text at))])
                       \<lparr>cm_at := failed\<rparr>], ''''))))"

fun oldest_schedule :: "scheduled_backup_facts option \<Rightarrow> scheduled_backup_facts list \<Rightarrow> scheduled_backup_facts option" where
  "oldest_schedule oldest [] = oldest"
| "oldest_schedule oldest (s # ss) =
     oldest_schedule
       (case oldest of
          None \<Rightarrow> Some s
        | Some v \<Rightarrow> if sf_created_at s < sf_created_at v then Some s else Some v) ss"

definition store_no_backup_detail :: "object_store_reference \<Rightarrow> recovery_window option \<Rightarrow> string" where
  "store_no_backup_detail ref window =
     (case window of
        None \<Rightarrow> ''no serverRecoveryWindow entry for server '' @ oj_server_name ref
      | Some w \<Rightarrow>
          ''serverRecoveryWindow for server '' @ oj_server_name ref @ '' carries no lastSuccessfulBackupTime'' @
          (case rw_last_failed_backup w of
             None \<Rightarrow> ''''
           | Some at \<Rightarrow> '', lastFailedBackupTime '' @ rfc3339_text at))"

definition store_no_backup :: "(string \<Rightarrow> string) \<Rightarrow> duration \<Rightarrow> 'z dg_input_scheme \<Rightarrow> answer" where
  "store_no_backup q since i =
     (case recovery_window_of q i of (ref, window, reason) \<Rightarrow>
        if reason \<noteq> '''' then ([], reason)
        else if oj_state ref \<noteq> ObjectStorePresent then ([], '''')
        else if Option.bind window rw_last_successful_backup \<noteq> None then ([], '''')
        else
          (case oldest_schedule None (bn_scheduled_backups (di_backups i)) of
             None \<Rightarrow> ([], '''')
           | Some oldest \<Rightarrow>
               if time_sub (di_now i) (sf_created_at oldest) < since then ([], '''')
               else
                 ([store_match (oj_name ref)
                     [claimed plugin_reported (''ObjectStore/'' @ oj_name ref) (store_no_backup_detail ref window),
                      claimed operator_reported (''ScheduledBackup/'' @ sf_name oldest)
                        (''created '' @ rfc3339_text (sf_created_at oldest) @ dash @
                         ago (di_now i) (sf_created_at oldest) hour @ '' ago'')]], '''')))"

section \<open>Repository evidence\<close>

definition repository_wal :: string where "repository_wal = ''WAL continuity''"
definition repository_coverage :: string where "repository_coverage = ''recovery coverage''"
definition repository_retention :: string where "repository_retention = ''retention''"

definition aspect_fact :: "string \<Rightarrow> barman_facts \<Rightarrow> state_fact option" where
  "aspect_fact aspect barman =
     (if aspect = repository_wal then Some (bm_wal barman)
      else if aspect = repository_coverage then Some (bm_coverage barman)
      else if aspect = repository_retention then Some (rf_result (bm_retention barman))
      else None)"

text \<open>Where the source of the evidence can be read, the report carries the details; the branch without
them is the nil dereference the guard excludes.\<close>

definition aspect_detail :: "report \<Rightarrow> state_fact \<Rightarrow> string" where
  "aspect_detail r f =
     ''state '' @ st_state f @ '', reason code '' @ st_code f @ ''; evidence generation '' @
     itoa (uint (re_evidence_generation r)) @
     (case re_completed_at r of None \<Rightarrow> '''' | Some at \<Rightarrow> '', scan completed '' @ utc_text at) @
     (if re_completeness r = ''incomplete''
      then '' (the scan is incomplete, so the state rests on what was examined)'' else '''')"

definition repository_match :: "string \<Rightarrow> report \<Rightarrow> state_fact \<Rightarrow> condition_match" where
  "repository_match aspect r f =
     no_match
       \<lparr>cm_subject := entity ''Repository'' (re_scope_name r),
        cm_at := (case re_completed_at r of None \<Rightarrow> zero_time | Some at \<Rightarrow> at),
        cm_evidence := [claimed ''repository-evidence'' (''repository '' @ aspect) (aspect_detail r f)],
        cm_link := ''/backups/evidence'', cm_link_label := ''Repository evidence''\<rparr>"

definition repository_state :: "string \<Rightarrow> string list \<Rightarrow> 'z dg_input_scheme \<Rightarrow> answer" where
  "repository_state aspect states i =
     (let r = eg_report (ev_snapshot (di_evidence i))
      in if evidence_unavailable i \<noteq> '''' then ([], evidence_unavailable i)
         else
           (case Option.bind (re_barman r) (aspect_fact aspect) of
              None \<Rightarrow> ([], ''the catalog names a repository aspect this console does not read'')
            | Some f \<Rightarrow>
                if st_state f \<in> set (if states = [] then [''unhealthy''] else states)
                then ([repository_match aspect r f], '''') else ([], '''')))"

end
