(* ===== verification/DiagnoseDetectors.thy ===== *)
theory DiagnoseDetectors
  imports DiagnoseConditions
begin

text \<open>
  The detectors that correlate across snapshots: \<open>internal/diagnose/eventbacked.go\<close>, \<open>quotaexhausted.go\<close> and
  \<open>backupcadence.go\<close>. Each answers its findings, or the reason it could not run. The parameter \<open>q\<close> is
  the verb \<open>%q\<close> of \<open>fmt\<close> on strings.
\<close>

type_synonym verdict = "finding list \<times> string"

definition no_finding :: finding where
  "no_finding =
     \<lparr>fg_id = '''', fg_check = '''', fg_subject = no_entity, fg_at = zero_time, fg_severity = SeverityNote, fg_summary = '''',
      fg_detail = '''', fg_evidence = [], fg_next_steps = '''', fg_consequence_of = [], fg_link = '''', fg_link_label = ''''\<rparr>"

definition established :: "string \<Rightarrow> relation" where
  "established cause = \<lparr>rn_cause = cause, rn_scope = ScopeCluster, rn_within = 0, rn_strength = StrengthEstablished\<rparr>"

definition plausible :: "string \<Rightarrow> relation" where
  "plausible cause = (established cause)\<lparr>rn_strength := StrengthPlausible\<rparr>"

definition pods_linked :: "finding \<Rightarrow> finding" where
  "pods_linked f = f\<lparr>fg_link := ''/cluster/pods'', fg_link_label := ''Pods''\<rparr>"

section \<open>Events\<close>

definition warning_events :: "string list \<Rightarrow> event_facts list \<Rightarrow> event_facts list" where
  "warning_events reasons events = take 3 (filter (\<lambda>e. ef_type e = ''Warning'' \<and> ef_reason e \<in> set reasons) events)"

definition instance_shortfall :: "'z dg_input_scheme \<Rightarrow> claim option" where
  "instance_shortfall i =
     (let seen = int (length (po_pods (di_pods i)))
      in if \<not> di_has_cluster i \<or> og_stale (di_cluster i) \<or> pods_unavailable i \<noteq> '''' then None
         else
           (case cf_desired_instances (cn_cluster (di_cluster i)) of
              None \<Rightarrow> None
            | Some desired \<Rightarrow>
                if seen \<ge> desired then None
                else Some (claimed ''operator-reported and Kubernetes-observed'' ''Cluster instances''
                  (itoa desired @ '' instances declared, '' @ itoa seen @ '' pods observed''))))"

definition event_subject :: "event_facts \<Rightarrow> entity_ref" where
  "event_subject e = entity (ef_kind e) (ef_object e)"

definition refused_by_quota :: "event_facts \<Rightarrow> bool" where
  "refused_by_quota e \<longleftrightarrow>
     str_contains (ef_message e) ''exceeded quota'' \<or> str_contains (ef_message e) ''forbidden: quota''"

definition quota_events :: "'z dg_input_scheme \<Rightarrow> event_facts list" where
  "quota_events i =
     filter refused_by_quota (warning_events [''FailedCreate'', ''FailedScheduling''] (ev_events (di_events i)))"

definition quota_finding :: "event_facts \<Rightarrow> claim list \<Rightarrow> finding" where
  "quota_finding newest evidence =
     pods_linked
       (no_finding
        \<lparr>fg_id := ''resource-quota'', fg_subject := event_subject newest, fg_at := ef_last_seen newest,
         fg_severity := SeverityCritical,
         fg_summary := ''The namespace quota is refusing objects this cluster needs.'',
         fg_detail := ''The API server rejected a create, so the object does not exist and '' @
           ''nothing will retry it into existence. The refusal below carries the '' @
           ''quota'' @ [CHR 0x27] @ ''s own numbers.'',
         fg_next_steps := ''Raise the quota'' @ [CHR 0x27] @ ''s ceiling or lower what the cluster asks for; the '' @
           ''operator retries refused objects on its own once room exists.'',
         fg_consequence_of := [established ''quota-exhausted''],
         fg_evidence := evidence\<rparr>)"

definition quota_detect :: "'z dg_input_scheme \<Rightarrow> verdict" where
  "quota_detect i =
     (if events_unavailable i \<noteq> '''' then ([], events_unavailable i)
      else
        (case quota_events i of
           [] \<Rightarrow> ([], '''')
         | e # es \<Rightarrow>
             ([quota_finding e
                 (map event_evidence (e # es) @ (case instance_shortfall i of None \<Rightarrow> [] | Some c \<Rightarrow> [c]))], '''')))"

definition unplaceable_events :: "'z dg_input_scheme \<Rightarrow> event_facts list" where
  "unplaceable_events i =
     filter (\<lambda>e. \<not> str_contains (ef_message e) ''exceeded quota'')
       (warning_events [''FailedScheduling''] (ev_events (di_events i)))"

definition scheduling_finding :: "event_facts \<Rightarrow> claim list \<Rightarrow> finding" where
  "scheduling_finding newest evidence =
     pods_linked
       (no_finding
        \<lparr>fg_id := ''pod-scheduling'', fg_subject := event_subject newest, fg_at := ef_last_seen newest,
         fg_severity := SeverityWarning,
         fg_summary := ''A pod cannot be scheduled onto any node.'',
         fg_detail := ''The pod exists and will stay Pending until the constraint below is satisfied.'',
         fg_next_steps := ''The scheduler'' @ [CHR 0x27] @ ''s message names the missing piece. A missing '' @
           ''persistentvolumeclaim usually means the claim'' @ [CHR 0x27] @ ''s creation was refused'' @ dash @
           ''an exhausted storage quota is the common cause'' @ dash @ ''while insufficient '' @
           ''cpu or memory needs node capacity or smaller requests, and an '' @
           ''unsatisfied affinity needs a node that matches.'',
         fg_consequence_of := [plausible ''quota-exhausted'', plausible ''resource-quota''],
         fg_evidence := evidence\<rparr>)"

definition scheduling_detect :: "'z dg_input_scheme \<Rightarrow> verdict" where
  "scheduling_detect i =
     (if events_unavailable i \<noteq> '''' then ([], events_unavailable i)
      else
        (case unplaceable_events i of
           [] \<Rightarrow> ([], '''')
         | e # es \<Rightarrow> ([scheduling_finding e (map event_evidence (e # es))], '''')))"

section \<open>Images and volumes\<close>

definition image_pull_reason :: "string \<Rightarrow> bool" where
  "image_pull_reason reason \<longleftrightarrow>
     reason \<in> {''ImagePullBackOff'', ''ErrImagePull'', ''InvalidImageName'', ''ErrImageNeverPull''}"

definition image_pull_finding :: "(string \<Rightarrow> string) \<Rightarrow> pod_facts \<Rightarrow> container_facts \<Rightarrow> finding" where
  "image_pull_finding q pod c =
     no_finding
       \<lparr>fg_id := ''image-pull/'' @ pf_name pod @ ''/'' @ ct_name c, fg_subject := entity ''Pod'' (pf_name pod),
        fg_severity := SeverityCritical,
        fg_summary := ''Container '' @ ct_name c @ '' in pod '' @ pf_name pod @ '' cannot pull its image.'',
        fg_detail := ''The container cannot start, so whatever it provides is absent until the image is reachable.'',
        fg_evidence :=
          [claimed kubernetes_observed (''Pod/'' @ pf_name pod)
             (''container '' @ q (ct_name c) @ '': '' @ ct_reason c @ '', image '' @ q (ct_image c))],
        fg_link := ''/cluster/pods/'' @ pf_name pod, fg_link_label := ''Pod detail''\<rparr>"

definition image_pull_detect :: "(string \<Rightarrow> string) \<Rightarrow> 'z dg_input_scheme \<Rightarrow> verdict" where
  "image_pull_detect q i =
     (if pods_unavailable i \<noteq> '''' then ([], pods_unavailable i)
      else
        (concat (map (\<lambda>pod. map (image_pull_finding q pod) (filter (\<lambda>c. image_pull_reason (ct_reason c)) (pf_containers pod)))
           (po_pods (di_pods i))), ''''))"

definition unbound_volumes :: "'z dg_input_scheme \<Rightarrow> volume_facts list" where
  "unbound_volumes i =
     filter (\<lambda>v. vo_phase v \<noteq> '''' \<and> vo_phase v \<noteq> ''Bound'') (fn_volumes (di_infrastructure i))"

definition volume_events :: "'z dg_input_scheme \<Rightarrow> event_facts list" where
  "volume_events i =
     (if events_unavailable i = ''''
      then warning_events [''ProvisioningFailed'', ''FailedBinding'', ''VolumeBindingFailed''] (ev_events (di_events i))
      else [])"

definition volume_finding :: "volume_facts list \<Rightarrow> event_facts list \<Rightarrow> finding" where
  "volume_finding unbound events =
     no_finding
       \<lparr>fg_id := ''volume-binding'', fg_severity := SeverityCritical,
        fg_summary := itoa (int (length unbound)) @ '' persistent volume claims have not bound.'',
        fg_detail := ''An instance cannot start without its data volume, so the pod stays Pending.'',
        fg_link := ''/objects'', fg_link_label := ''Objects'',
        fg_subject := (case unbound of [v] \<Rightarrow> entity ''PersistentVolumeClaim'' (vo_name v) | _ \<Rightarrow> no_entity),
        fg_evidence :=
          map (\<lambda>v. claimed kubernetes_observed (''PersistentVolumeClaim/'' @ vo_name v) (''phase '' @ vo_phase v)) unbound @
          map event_evidence events\<rparr>"

definition volume_detect :: "'z dg_input_scheme \<Rightarrow> verdict" where
  "volume_detect i =
     (if infrastructure_unavailable i \<noteq> '''' then ([], infrastructure_unavailable i)
      else if unbound_volumes i = [] then ([], '''')
      else ([volume_finding (unbound_volumes i) (volume_events i)], ''''))"

section \<open>Exhausted quotas\<close>

definition quota_line :: "quota_facts \<Rightarrow> quota_resource_facts \<Rightarrow> claim" where
  "quota_line v line =
     claimed ''Kubernetes-reported'' (''ResourceQuota/'' @ qf_name v)
       (qr_resource line @ '': used '' @ qr_used line @ '' of '' @ qr_hard line @ dash @ ''the ceiling is reached'')"

definition quota_exhausted_finding :: "(string \<Rightarrow> string) \<Rightarrow> claim option \<Rightarrow> quota_facts \<Rightarrow> finding" where
  "quota_exhausted_finding q shortfall v =
     (let exhausted = filter qr_exhausted (qf_resources v)
      in pods_linked
           (no_finding
            \<lparr>fg_id := ''quota-exhausted/'' @ qf_name v, fg_check := ''quota-exhausted'',
             fg_subject := entity ''ResourceQuota'' (qf_name v),
             fg_severity := (if shortfall = None then SeverityWarning else SeverityCritical),
             fg_summary := ''The namespace quota '' @ q (qf_name v) @ '' is exhausted for '' @
               str_join '', '' (map qr_resource exhausted) @ ''.'',
             fg_detail := ''Anything that needs another unit of these is refused at admission '' @
               ''until room exists. The refusal is silent from the cluster'' @ [CHR 0x27] @ ''s side: the '' @
               ''operator keeps retrying, and the objects simply never appear.'',
             fg_next_steps := ''Raise the quota'' @ [CHR 0x27] @ ''s ceiling, or lower what this namespace asks of it'' @ dash @
               ''fewer instances, smaller volumes, freed leftovers. The operator '' @
               ''retries refused objects on its own once room exists; nothing needs '' @
               ''recreating by hand.'',
             fg_evidence := map (quota_line v) exhausted @ (case shortfall of None \<Rightarrow> [] | Some c \<Rightarrow> [c])\<rparr>))"

definition quota_exhausted_detect :: "(string \<Rightarrow> string) \<Rightarrow> 'z dg_input_scheme \<Rightarrow> verdict" where
  "quota_exhausted_detect q i =
     (if \<not> di_has_quotas i
      then ([], ''resource quotas have not been observed yet'' @ dash @ ''deployments predating the '' @
        ''resourcequotas grant need the updated Role'')
      else if og_stale (di_quotas i) then ([], ''the resource quotas are stale, so current usage is unknown'')
      else
        (map (quota_exhausted_finding q (instance_shortfall i))
           (filter (\<lambda>v. list_ex qr_exhausted (qf_resources v)) (qo_quotas (di_quotas i))), ''''))"

section \<open>The cadence of a schedule\<close>

definition cadence_alarm :: int where "cadence_alarm = 6"
definition observed_window :: duration where "observed_window = 24 * hour"

text \<open>The verb \<open>%d\<close> of \<open>fmt.Sscanf\<close>: an optional sign and the leading digits; what follows them is not read.\<close>

definition scan_int :: "string \<Rightarrow> int option" where
  "scan_int s =
     (let (sign, rest) = (case s of c # cs \<Rightarrow> if c = CHR ''+'' \<or> c = CHR ''-'' then ([c], cs) else ([], s) | [] \<Rightarrow> ([], []));
          digits = takeWhile is_digit rest
      in if digits = [] then None else parse_int64 (sign @ digits))"

definition field_rate :: "string \<Rightarrow> int \<Rightarrow> int option" where
  "field_rate field span =
     (if field = ''*'' then Some span
      else if has_prefix field ''*/''
      then
        (case scan_int (drop 2 field) of
           None \<Rightarrow> None
         | Some step \<Rightarrow> if step \<le> 0 \<or> step > span then None else Some ((span + step - 1) div step))
      else if list_all (\<lambda>c. c \<noteq> CHR '','' \<and> c \<noteq> CHR ''-'' \<and> c \<noteq> CHR ''/'') field
      then map_option (\<lambda>_. 1) (scan_int field)
      else None)"

definition is_every :: "string \<Rightarrow> bool" where "is_every field \<longleftrightarrow> field = ''*''"

definition runs_per_day :: "string \<Rightarrow> int option" where
  "runs_per_day expr =
     (case str_fields expr of
        [second_field, minute_field, hour_field, day, month, weekday] \<Rightarrow>
          (case (field_rate second_field 60, field_rate minute_field 60, field_rate hour_field 24) of
             (Some seconds, Some minutes, Some hours) \<Rightarrow>
               if is_every day \<and> is_every month \<and> is_every weekday then Some (seconds * minutes * hours) else None
           | _ \<Rightarrow> None)
      | _ \<Rightarrow> None)"

definition count_recent_backups :: "backup_facts list \<Rightarrow> string \<Rightarrow> instant \<Rightarrow> int" where
  "count_recent_backups backups wanted now =
     int (length (filter
       (\<lambda>b. \<not> (wanted \<noteq> '''' \<and> bf_method b \<noteq> '''' \<and> bf_method b \<noteq> wanted) \<and>
          bf_created_at b > now + (- observed_window)) backups))"

definition cadence_finding :: "(string \<Rightarrow> string) \<Rightarrow> 'z dg_input_scheme \<Rightarrow> scheduled_backup_facts \<Rightarrow> int \<Rightarrow> finding" where
  "cadence_finding q i s per_day =
     (let seen = count_recent_backups (bn_backups (di_backups i)) (sf_method s) (di_now i)
      in no_finding
           \<lparr>fg_id := ''backup-cadence/'' @ sf_name s, fg_subject := entity ''ScheduledBackup'' (sf_name s),
            fg_severity := SeverityCritical,
            fg_summary := ''ScheduledBackup '' @ sf_name s @ '' is set to run '' @ itoa per_day @ '' times a day.'',
            fg_detail := ''A six-field CloudNativePG cron starts with seconds, so a five-field '' @
              ''expression written from habit shifts every field and usually lands on '' @
              ''an hourly or faster schedule. Nothing reports this as unhealthy: the '' @
              ''backups succeed, and a full base backup simply runs at that rate, '' @
              ''consuming storage, egress and IO until someone notices the cost.'',
            fg_evidence :=
              [claimed operator_reported (''ScheduledBackup/'' @ sf_name s) (''schedule: '' @ q (sf_schedule s))] @
              (if seen \<ge> 0
               then [claimed kubernetes_observed ''Backup catalog'' (itoa seen @ '' backups created in the last 24 hours'')]
               else []),
            fg_link := ''/backups'', fg_link_label := ''Backups''\<rparr>)"

definition backup_cadence_detect :: "(string \<Rightarrow> string) \<Rightarrow> 'z dg_input_scheme \<Rightarrow> verdict" where
  "backup_cadence_detect q i =
     (if \<not> di_has_backups i then ([], ''the backup catalog has not been observed yet'')
      else if og_stale (di_backups i)
      then ([], ''the backup catalog is stale, so the observed rate cannot be compared'')
      else
        (concat (map (\<lambda>s.
            if sf_suspended s = Some True then []
            else
              (case runs_per_day (sf_schedule s) of
                 None \<Rightarrow> []
               | Some per_day \<Rightarrow> if per_day < cadence_alarm then [] else [cadence_finding q i s per_day]))
          (bn_scheduled_backups (di_backups i))), ''''))"

subsection \<open>The rate is the number of firings\<close>

text \<open>The instants of a day one field selects: every one, every multiple of a step, or one value.\<close>

definition field_selects :: "string \<Rightarrow> int \<Rightarrow> bool" where
  "field_selects field v \<longleftrightarrow>
     (if field = ''*'' then True
      else if has_prefix field ''*/''
      then (case scan_int (drop 2 field) of None \<Rightarrow> False | Some step \<Rightarrow> v mod step = 0)
      else scan_int field = Some v)"

text \<open>A plain value within its unit.\<close>

definition field_in_span :: "string \<Rightarrow> int \<Rightarrow> bool" where
  "field_in_span field span \<longleftrightarrow>
     has_prefix field ''*'' \<or> (case scan_int field of None \<Rightarrow> True | Some v \<Rightarrow> 0 \<le> v \<and> v < span)"

definition firings :: "string \<Rightarrow> string \<Rightarrow> string \<Rightarrow> (int \<times> int \<times> int) set" where
  "firings second_field minute_field hour_field =
     {(s, m, h). s \<in> {0..<60} \<and> field_selects second_field s \<and> m \<in> {0..<60} \<and> field_selects minute_field m \<and>
        h \<in> {0..<24} \<and> field_selects hour_field h}"

lemma card_multiples:
  assumes "0 < step" "0 \<le> span"
  shows "int (card {v \<in> {0..<span}. v mod step = 0}) = (span + step - 1) div (step :: int)"
proof -
  have "{v \<in> {0..<span}. v mod step = 0} = (\<lambda>k. step * k) ` {0..<(span + step - 1) div step}"
  proof (intro set_eqI iffI)
    fix v assume v: "v \<in> {v \<in> {0..<span}. v mod step = 0}"
    then obtain k where k: "v = step * k" by auto
    with v assms have "0 \<le> k" by (simp add: zero_le_mult_iff)
    moreover have "k < (span + step - 1) div step"
    proof -
      have "step * k + step \<le> span + step - 1" using v k by simp
      then have "(k + 1) * step \<le> span + step - 1" by (simp add: algebra_simps)
      then have "(k + 1) * step div step \<le> (span + step - 1) div step"
        using assms(1) by (rule zdiv_mono1)
      with assms(1) show ?thesis by simp
    qed
    ultimately show "v \<in> (\<lambda>k. step * k) ` {0..<(span + step - 1) div step}" using k by auto
  next
    fix v assume "v \<in> (\<lambda>k. step * k) ` {0..<(span + step - 1) div step}"
    then obtain k where k: "v = step * k" and "k \<in> {0..<(span + step - 1) div step}" by blast
    then have k_range: "0 \<le> k" "k < (span + step - 1) div step" by simp_all
    from k_range have "k + 1 \<le> (span + step - 1) div step" by simp
    then have "step * (k + 1) \<le> step * ((span + step - 1) div step)" using assms(1) by simp
    also have "\<dots> \<le> span + step - 1"
      using assms(1) by (metis mult_div_mod_eq add.commute le_add_same_cancel2 pos_mod_sign)
    finally have "v < span" using k by (simp add: algebra_simps)
    with k k_range assms show "v \<in> {v \<in> {0..<span}. v mod step = 0}" by simp
  qed
  moreover have "inj_on (\<lambda>k. step * k) {0..<(span + step - 1) div step}"
    using assms(1) by (simp add: inj_on_def)
  moreover have "0 \<le> (span + step - 1) div step"
    using assms by (simp add: pos_imp_zdiv_nonneg_iff)
  ultimately show ?thesis by (simp add: card_image)
qed

lemma field_rate_counts:
  assumes "field_rate field span = Some n" "field_in_span field span" "0 < span"
  shows "n = int (card {v \<in> {0..<span}. field_selects field v})"
proof (cases "field = ''*''")
  case True
  then have "{v \<in> {0..<span}. field_selects field v} = {0..<span}" by (auto simp: field_selects_def)
  with True assms show ?thesis by (simp add: field_rate_def)
next
  case plain: False
  show ?thesis
  proof (cases "has_prefix field ''*/''")
    case True
    with assms plain obtain step where "scan_int (drop 2 field) = Some step" "0 < step"
        and "n = (span + step - 1) div step"
      by (auto simp: field_rate_def split: option.splits if_splits)
    with True plain assms(3) card_multiples [of step span] show ?thesis
      by (simp add: field_selects_def)
  next
    case False
    with plain assms(1) obtain v where v: "scan_int field = Some v" and n: "n = 1"
      by (auto simp: field_rate_def split: if_splits)
    have "\<not> has_prefix field ''*''"
    proof
      assume "has_prefix field ''*''"
      then have "scan_int field = None"
        by (cases field) (auto simp: has_prefix_def scan_int_def is_digit_def digit_of_def byte_def)
      with v show False by simp
    qed
    with assms(2) v have "0 \<le> v \<and> v < span" by (simp add: field_in_span_def)
    then have "{w \<in> {0..<span}. field_selects field w} = {v}"
      using False plain v by (auto simp: field_selects_def)
    with n show ?thesis by simp
  qed
qed

lemma runs_per_day_cases:
  assumes "runs_per_day expr = Some n"
  obtains s m h a b c where "str_fields expr = [s, m, h, ''*'', ''*'', ''*'']"
    and "field_rate s 60 = Some a" "field_rate m 60 = Some b" "field_rate h 24 = Some c" "n = a * b * c"
  using assms by (auto simp: runs_per_day_def is_every_def split: list.splits option.splits if_splits)

text \<open>The rate the cadence detector alarms on is the true one: an expression it reads as \<open>n\<close> runs a day,
with no plain value outside its unit, selects exactly \<open>n\<close> seconds of every day.\<close>

theorem runs_per_day_counts_the_firings:
  assumes "runs_per_day expr = Some n"
    and "str_fields expr = s # m # h # days"
    and "field_in_span s 60" "field_in_span m 60" "field_in_span h 24"
  shows "n = int (card (firings s m h)) \<and> days = [''*'', ''*'', ''*'']"
proof -
  obtain a b c where fields: "days = [''*'', ''*'', ''*'']"
    and rates: "field_rate s 60 = Some a" "field_rate m 60 = Some b" "field_rate h 24 = Some c" "n = a * b * c"
    using assms(1,2) by (elim runs_per_day_cases) simp
  have "firings s m h =
      {v \<in> {0..<60}. field_selects s v} \<times> {v \<in> {0..<60}. field_selects m v} \<times> {v \<in> {0..<24}. field_selects h v}"
    by (auto simp: firings_def)
  moreover have "a = int (card {v \<in> {0..<60}. field_selects s v})"
    using rates(1) assms(3) by (rule field_rate_counts) simp
  moreover have "b = int (card {v \<in> {0..<60}. field_selects m v})"
    using rates(2) assms(4) by (rule field_rate_counts) simp
  moreover have "c = int (card {v \<in> {0..<24}. field_selects h v})"
    using rates(3) assms(5) by (rule field_rate_counts) simp
  ultimately show ?thesis
    using rates(4) fields by (simp only: card_cartesian_product of_nat_mult) simp
qed

section \<open>What the bound on events hides\<close>

lemma in_take_append: "length xs < n \<Longrightarrow> x \<in> set (take n (xs @ x # ys))"
proof (induction xs arbitrary: n)
  case Nil
  then show ?case by (cases n) simp_all
next
  case (Cons y xs)
  then show ?case by (cases n) simp_all
qed


definition warned :: "string \<Rightarrow> string \<Rightarrow> event_facts" where
  "warned reason message =
     \<lparr>ef_name = ''e'', ef_uid = ''u'', ef_kind = ''Pod'', ef_object = ''pg-2'', ef_type = ''Warning'', ef_reason = reason,
      ef_message = message, ef_count = 1, ef_last_seen = 0\<rparr>"

definition busy_input :: "event_facts list \<Rightarrow> dg_input" where
  "busy_input events =
     (unobserved_input 0)
     \<lparr>di_has_events := True, di_events := observed.extend zero_observed \<lparr>ev_truncated = False, ev_events = events\<rparr>\<rparr>"


text \<open>Two minutes past every hour is twenty-four backups a day.\<close>

lemma runs_per_day_counts_the_firings_witness:
  "(24 :: int) = int (card (firings ''0'' ''2'' ''*''))"
proof -
  have "runs_per_day ''0 2 * * * *'' = Some 24" by code_simp
  moreover have "str_fields ''0 2 * * * *'' = ''0'' # ''2'' # ''*'' # [''*'', ''*'', ''*'']" by code_simp
  moreover have "field_in_span ''0'' 60" "field_in_span ''2'' 60" "field_in_span ''*'' 24" by code_simp+
  ultimately show ?thesis by (blast dest: runs_per_day_counts_the_firings)
qed

end
