(* ===== verification/DiagnoseRun.thy ===== *)
theory DiagnoseRun
  imports DiagnoseStatus DiagnoseResources DiagnoseDetectors
begin

text \<open>
  The run of the diagnostics: the observed versions (\<open>internal/diagnose/version.go\<close>), the conditions a
  rule can wait for, a rule's check and findings, the matcher rules derived from a catalog
  (\<open>internal/diagnose/rule.go\<close>), which conditions name a pod (\<open>subject.go\<close>), and \<open>Run\<close> (\<open>diagnose.go\<close>).
  A condition over the metrics, the instance reports or the history is a parameter: its class, its
  description and what it answers.
\<close>

section \<open>Observed versions\<close>

definition component_cnpg :: string where "component_cnpg = ''CloudNativePG''"
definition component_postgresql :: string where "component_postgresql = ''PostgreSQL''"
definition component_barman :: string where "component_barman = ''Barman Cloud plugin''"
definition component_kubernetes :: string where "component_kubernetes = ''Kubernetes''"

record component_version =
  cv_version :: string
  cv_origin :: string
  cv_object :: string
  cv_detail :: string

definition version_evidence :: "component_version \<Rightarrow> claim" where
  "version_evidence v = claimed (cv_origin v) (cv_object v) (cv_detail v)"

type_synonym component_versions = "(string, component_version) gomap"

definition barman_sidecar_container :: string where "barman_sidecar_container = ''plugin-barman-cloud''"

definition parsed_from_image :: string where "parsed_from_image = ''console-parsed from Kubernetes-observed image''"

text \<open>The first container of that name, over the pods in order, whose image carries a version.\<close>

definition member_container_version :: "pod_facts list \<Rightarrow> string \<Rightarrow> (string \<times> container_facts \<times> string) option" where
  "member_container_version pods name =
     (case List.find (\<lambda>(pod, c, v). v \<noteq> None)
         (concat (map (\<lambda>pod. map (\<lambda>c. (pf_name pod, c, image_tag_version (ct_image c)))
            (filter (\<lambda>c. ct_name c = name) (pf_containers pod))) pods)) of
        Some (pod, c, Some v) \<Rightarrow> Some (pod, c, v)
      | _ \<Rightarrow> None)"

definition kubernetes_fact :: "(string \<Rightarrow> string) \<Rightarrow> 'z dg_input_scheme \<Rightarrow> component_version option" where
  "kubernetes_fact q i =
     (if \<not> di_has_kube_version i then None
      else
        map_option (\<lambda>fields.
           \<lparr>cv_version = join_version fields, cv_origin = ''Kubernetes-reported'', cv_object = ''API server'',
            cv_detail = ''/version reports '' @ q (kv_git_version (di_kube_version i)) @
              (if og_stale (di_kube_version i)
               then '' (stale: contact has since been lost, this is the retained last-good report)'' else '''')\<rparr>)
          (parse_version (kv_git_version (di_kube_version i))))"

definition postgresql_fact :: "'z dg_input_scheme \<Rightarrow> component_version option" where
  "postgresql_fact i =
     (let f = cn_cluster (di_cluster i)
      in if \<not> di_has_cluster i \<or> \<not> cf_present f then None
         else map_option (\<lambda>major.
             \<lparr>cv_version = itoa major, cv_origin = operator_reported, cv_object = ''Cluster'',
              cv_detail = ''status reports PostgreSQL major version '' @ itoa major\<rparr>)
           (cf_postgres_major_version f))"

definition container_fact :: "(string \<Rightarrow> string) \<Rightarrow> string \<Rightarrow> string \<Rightarrow> string \<Rightarrow> 'z dg_input_scheme \<Rightarrow>
    component_version option" where
  "container_fact q name kind what i =
     (if \<not> di_has_pods i then None
      else
        map_option (\<lambda>(pod, c, v).
            \<lparr>cv_version = v, cv_origin = parsed_from_image, cv_object = ''Pod/'' @ pod @ '' '' @ kind @ '' '' @ ct_name c,
             cv_detail = what @ '' image '' @ q (ct_image c)\<rparr>)
          (member_container_version (po_pods (di_pods i)) name))"

definition job_fact :: "(string \<Rightarrow> string) \<Rightarrow> 'z dg_input_scheme \<Rightarrow> component_version option" where
  "job_fact q i =
     (if \<not> di_has_infrastructure i then None
      else
        (case List.find (\<lambda>c. ch_kind c = ''Job'' \<and> ch_bootstrap_image c \<noteq> '''' \<and> image_tag_version (ch_bootstrap_image c) \<noteq> None)
            (fn_children (di_infrastructure i)) of
           None \<Rightarrow> None
         | Some c \<Rightarrow>
             map_option (\<lambda>v.
                \<lparr>cv_version = v, cv_origin = parsed_from_image,
                 cv_object = ''Job/'' @ ch_name c @ '' init container '' @ bootstrap_controller_container,
                 cv_detail = ''operator bootstrap image '' @ q (ch_bootstrap_image c)\<rparr>)
               (image_tag_version (ch_bootstrap_image c))))"

definition retained_fact :: "(string \<Rightarrow> string) \<Rightarrow> 'z dg_input_scheme \<Rightarrow> component_version option" where
  "retained_fact q i =
     (let p = di_pods i; f = cn_cluster (di_cluster i)
      in if di_has_pods i \<and> po_operator_image p \<noteq> '''' \<and> di_has_cluster i \<and> cf_present f \<and> cf_uid f \<noteq> '''' \<and>
           po_operator_image_owner p = cf_uid f
         then
           map_option (\<lambda>v.
              \<lparr>cv_version = v, cv_origin = ''console-retained from a Kubernetes-observed image'',
               cv_object = ''Pod/'' @ po_operator_image_pod p @ '' init container '' @ bootstrap_controller_container,
               cv_detail = ''operator bootstrap image '' @ q (po_operator_image p) @ '', last seen '' @
                 rfc3339_text (po_operator_image_seen_at p) @ ''; no instance pod carries it now''\<rparr>)
             (image_tag_version (po_operator_image p))
         else None)"

definition learn :: "string \<Rightarrow> component_version option \<Rightarrow> component_versions \<Rightarrow> component_versions" where
  "learn component learned facts = (case learned of None \<Rightarrow> facts | Some v \<Rightarrow> mput component v facts)"

definition unless_known :: "string \<Rightarrow> component_versions \<Rightarrow> component_version option \<Rightarrow> component_version option" where
  "unless_known component facts learned = (if mget facts component = None then learned else None)"

definition version_facts :: "(string \<Rightarrow> string) \<Rightarrow> 'z dg_input_scheme \<Rightarrow> component_versions" where
  "version_facts q i =
     (let facts = learn component_kubernetes (kubernetes_fact q i) [];
          facts = learn component_postgresql (postgresql_fact i) facts;
          facts = learn component_barman (container_fact q barman_sidecar_container ''container'' ''sidecar'' i) facts;
          facts = learn component_cnpg (container_fact q bootstrap_controller_container ''init container'' ''operator bootstrap'' i)
            facts;
          facts = learn component_cnpg (unless_known component_cnpg facts (job_fact q i)) facts
      in learn component_cnpg (unless_known component_cnpg facts (retained_fact q i)) facts)"

section \<open>Conditions\<close>

datatype pod_subject = PodSubjectNever | PodSubjectSometimes | PodSubjectAlways

record 'i other_condition =
  oc_pod :: pod_subject
  oc_describe :: string
  oc_evaluate :: "string \<Rightarrow> 'i \<Rightarrow> answer"

datatype 'i rule_condition =
    LogContains "string list" "string list"
  | LogFields "field_test list" "string list"
  | EventMatch "string list" "string list" "string list" "string list"
  | BackupPhase "string list" duration
  | ClusterCondition string string string duration
  | ClusterPhase "string list"
  | ContainerState "string list"
  | PrimaryMismatch duration
  | ScheduledBackupSuspended
  | ScheduledBackupOverdue duration
  | DeclaredObjectFailed
  | ClusterPhaseHeld "string list" duration
  | StatusListed status_list duration
  | PrimaryFailing duration
  | TimelineDivergence duration
  | CertificateExpiring duration
  | RoleUnreconcilable
  | TablespaceError
  | ReplicaSwitchStuck duration
  | InstancesShort duration
  | PoolerPhase "string list"
  | PrimaryLeaseExpired duration
  | PrimaryLeaseHolderMismatch
  | PoolerShort
  | QuorumStandbysShort
  | ImageCatalogMissing
  | ImageCatalogLacksMajor
  | StoreBackupFailed
  | StoreNoBackup duration
  | RepositoryState string "string list"
  | Other "'i other_condition"
  | AllOf "'i rule_condition list"

definition subjects_agree :: "entity_ref \<Rightarrow> entity_ref \<Rightarrow> bool" where
  "subjects_agree a b \<longleftrightarrow> er_name a = '''' \<or> er_name b = '''' \<or> a = b"

definition agreeing_match :: "condition_match \<Rightarrow> condition_match list \<Rightarrow> condition_match option" where
  "agreeing_match candidate matches = List.find (\<lambda>m. subjects_agree (cm_subject candidate) (cm_subject m)) matches"

text \<open>The branches after the first, in order: their matches, or what stopped the reading of them.\<close>

fun read_branches :: "answer list \<Rightarrow> condition_match list list + string" where
  "read_branches [] = Inl []"
| "read_branches ((matches, unavailable) # rest) =
     (if unavailable \<noteq> '''' then Inr unavailable
      else if matches = [] then Inr ''''
      else (case read_branches rest of Inl others \<Rightarrow> Inl (matches # others) | Inr stop \<Rightarrow> Inr stop))"

fun corroborate :: "condition_match \<Rightarrow> condition_match list list \<Rightarrow> claim list option" where
  "corroborate candidate [] = Some []"
| "corroborate candidate (matches # rest) =
     (case agreeing_match candidate matches of
        None \<Rightarrow> None
      | Some m \<Rightarrow> map_option ((@) (cm_evidence m)) (corroborate candidate rest))"

fun all_of :: "answer list \<Rightarrow> answer" where
  "all_of [] = ([], '''')"
| "all_of ((lead, unavailable) # rest) =
     (if unavailable \<noteq> '''' then ([], unavailable)
      else if lead = [] then ([], '''')
      else
        (case read_branches rest of
           Inr stop \<Rightarrow> ([], stop)
         | Inl others \<Rightarrow>
             (concat (map (\<lambda>candidate.
                case corroborate candidate others of
                  None \<Rightarrow> []
                | Some corroboration \<Rightarrow> [candidate\<lparr>cm_evidence := cm_evidence candidate @ corroboration\<rparr>]) lead), '''')))"

fun evaluate :: "(string \<Rightarrow> string) \<Rightarrow> string \<Rightarrow> 'z dg_input_scheme rule_condition \<Rightarrow> 'z dg_input_scheme \<Rightarrow> answer" where
  "evaluate q rule_id (LogContains _ _) i = log_matches rule_id i"
| "evaluate q rule_id (LogFields _ _) i = log_matches rule_id i"
| "evaluate q rule_id (EventMatch reasons types contains kinds) i = event_match reasons types contains kinds i"
| "evaluate q rule_id (BackupPhase any_of min_age) i = backup_phase any_of min_age i"
| "evaluate q rule_id (ClusterCondition type status reason min_age) i = cluster_condition type status reason min_age i"
| "evaluate q rule_id (ClusterPhase any_of) i = cluster_phase any_of i"
| "evaluate q rule_id (ContainerState reasons) i = container_state q reasons i"
| "evaluate q rule_id (PrimaryMismatch min_age) i = primary_mismatch min_age i"
| "evaluate q rule_id ScheduledBackupSuspended i = scheduled_backup_suspended i"
| "evaluate q rule_id (ScheduledBackupOverdue grace) i = scheduled_backup_overdue grace i"
| "evaluate q rule_id DeclaredObjectFailed i = declared_object_failed q i"
| "evaluate q rule_id (ClusterPhaseHeld any_of min_age) i = cluster_phase_held any_of min_age i"
| "evaluate q rule_id (StatusListed l min_age) i = status_listed l min_age i"
| "evaluate q rule_id (PrimaryFailing min_age) i = primary_failing min_age i"
| "evaluate q rule_id (TimelineDivergence min_age) i = timeline_divergence min_age i"
| "evaluate q rule_id (CertificateExpiring within) i = certificate_expiring within i"
| "evaluate q rule_id RoleUnreconcilable i = role_unreconcilable q i"
| "evaluate q rule_id TablespaceError i = tablespace_error q i"
| "evaluate q rule_id (ReplicaSwitchStuck min_age) i = replica_switch_stuck min_age i"
| "evaluate q rule_id (InstancesShort min_age) i = instances_short min_age i"
| "evaluate q rule_id (PoolerPhase any_of) i = pooler_phase any_of i"
| "evaluate q rule_id (PrimaryLeaseExpired grace) i = primary_lease_expired grace i"
| "evaluate q rule_id PrimaryLeaseHolderMismatch i = primary_lease_holder_mismatch i"
| "evaluate q rule_id PoolerShort i = pooler_short i"
| "evaluate q rule_id QuorumStandbysShort i = quorum_standbys_short i"
| "evaluate q rule_id ImageCatalogMissing i = image_catalog_missing i"
| "evaluate q rule_id ImageCatalogLacksMajor i = image_catalog_lacks_major i"
| "evaluate q rule_id StoreBackupFailed i = store_backup_failed q i"
| "evaluate q rule_id (StoreNoBackup since) i = store_no_backup q since i"
| "evaluate q rule_id (RepositoryState aspect states) i = repository_state aspect states i"
| "evaluate q rule_id (Other c) i = oc_evaluate c rule_id i"
| "evaluate q rule_id (AllOf branches) i = all_of (map (\<lambda>c. evaluate q rule_id c i) branches)"

subsection \<open>What a condition looks for\<close>

definition excluding :: "string list \<Rightarrow> string" where
  "excluding excepted =
     (if excepted = [] then ''''
      else '', excluding '' @ itoa (int (length excepted)) @ '' known-benign messages'')"

definition describe_field :: "(string \<Rightarrow> string) \<Rightarrow> field_test \<Rightarrow> string" where
  "describe_field q t =
     (if \<not> test_valid t
      then (if ft_path t = '''' then ''an unnamed field'' else ft_path t) @
        '' is tested by a malformed field, which matches nothing''
      else if ft_equals t \<noteq> '''' then ft_path t @ '' is '' @ q (ft_equals t)
      else ft_path t @ '' contains '' @ q (ft_contains t))"

definition or_list :: "string list \<Rightarrow> string" where "or_list = str_join '' or ''"

definition at_least :: "duration \<Rightarrow> string" where "at_least d = '' for at least '' @ duration_string d"

fun describe_condition :: "(string \<Rightarrow> string) \<Rightarrow> 'i rule_condition \<Rightarrow> string" where
  "describe_condition q (LogContains substrings excepted) =
     ''a followed log line containing '' @ str_join '' and '' (map q substrings) @ excluding excepted"
| "describe_condition q (LogFields tests excepted) =
     ''a followed log line whose '' @ str_join '' and '' (map (describe_field q) tests) @ excluding excepted"
| "describe_condition q (EventMatch reasons types contains kinds) =
     ''an event with reason '' @ or_list reasons @ (if kinds \<noteq> [] then '' on a '' @ or_list kinds else '''')"
| "describe_condition q (BackupPhase any_of min_age) = ''a Backup whose reported phase is '' @ or_list any_of"
| "describe_condition q (ClusterCondition type status reason min_age) =
     ''the operator reporting condition '' @ type @ '' as '' @ status @ unless_empty '' with reason '' reason @
     (if min_age > 0 then at_least min_age else '''')"
| "describe_condition q (ClusterPhase any_of) = ''the operator reporting phase '' @ or_list any_of"
| "describe_condition q (ContainerState reasons) = ''a container whose state reason is '' @ or_list reasons"
| "describe_condition q (PrimaryMismatch min_age) = ''a primary move still in flight after '' @ duration_string min_age"
| "describe_condition q ScheduledBackupSuspended = ''a ScheduledBackup whose suspend flag is set''"
| "describe_condition q (ScheduledBackupOverdue grace) =
     ''a ScheduledBackup whose reported next run is over '' @ duration_string grace @ '' past''"
| "describe_condition q DeclaredObjectFailed = ''a declared database object whose reconciliation the operator reports as failed''"
| "describe_condition q (ClusterPhaseHeld any_of min_age) = ''the operator reporting phase '' @ or_list any_of @ at_least min_age"
| "describe_condition q (StatusListed l min_age) =
     ''the operator listing '' @ status_list_text l @ (if min_age > 0 then at_least min_age else '''')"
| "describe_condition q (PrimaryFailing min_age) = ''the operator reporting the current primary as failing'' @ at_least min_age"
| "describe_condition q (TimelineDivergence min_age) =
     ''an instance reporting a timeline other than the cluster'' @ [CHR 0x27] @ ''s'' @ at_least min_age"
| "describe_condition q (CertificateExpiring within) =
     (if within = 0 then ''a certificate the operator reports as already expired''
      else ''a certificate the operator reports as expiring within '' @ duration_string within)"
| "describe_condition q RoleUnreconcilable = ''a managed role the operator reports it cannot reconcile''"
| "describe_condition q TablespaceError = ''a declared tablespace whose reconciliation the operator reports an error for''"
| "describe_condition q (ReplicaSwitchStuck min_age) =
     ''the operator reporting a switch to replica cluster in progress'' @ at_least min_age"
| "describe_condition q (InstancesShort min_age) =
     ''the operator reporting fewer ready instances than declared'' @ at_least min_age"
| "describe_condition q (PoolerPhase any_of) = ''a Pooler the operator reports in phase '' @ or_list any_of"
| "describe_condition q (PrimaryLeaseExpired grace) =
     ''the primary lease unrenewed for '' @ duration_string grace @ '' past its duration, or released with a primary named''"
| "describe_condition q PrimaryLeaseHolderMismatch =
     ''the primary lease held by an instance other than the operator'' @ [CHR 0x27] @ ''s current primary''"
| "describe_condition q PoolerShort = ''a Pooler with fewer ready instances than declared''"
| "describe_condition q QuorumStandbysShort =
     ''a failover quorum with fewer potentially synchronous standbys than transactions wait for''"
| "describe_condition q ImageCatalogMissing = ''a Cluster whose imageCatalogRef names a catalog that does not exist''"
| "describe_condition q ImageCatalogLacksMajor =
     ''a referenced image catalog with no image for the Cluster'' @ [CHR 0x27] @ ''s PostgreSQL major''"
| "describe_condition q StoreBackupFailed =
     ''the barman-cloud plugin reporting this cluster'' @ [CHR 0x27] @ ''s last backup as failed''"
| "describe_condition q (StoreNoBackup since) =
     ''the barman-cloud plugin reporting no successful backup, on a cluster scheduled for at least '' @ duration_string since"
| "describe_condition q (RepositoryState aspect states) =
     ''the repository-evidence sidecar reporting '' @ aspect @ '' as '' @ or_list (if states = [] then [''unhealthy''] else states)"
| "describe_condition q (Other c) = oc_describe c"
| "describe_condition q (AllOf branches) = str_join '', together with '' (map (describe_condition q) branches)"

subsection \<open>Which conditions name a pod\<close>

fun pod_subject_of :: "'i rule_condition \<Rightarrow> pod_subject" where
  "pod_subject_of (LogContains _ _) = PodSubjectAlways"
| "pod_subject_of (LogFields _ _) = PodSubjectAlways"
| "pod_subject_of (ContainerState _) = PodSubjectAlways"
| "pod_subject_of (PrimaryFailing _) = PodSubjectAlways"
| "pod_subject_of (TimelineDivergence _) = PodSubjectAlways"
| "pod_subject_of (PrimaryLeaseExpired _) = PodSubjectAlways"
| "pod_subject_of PrimaryLeaseHolderMismatch = PodSubjectAlways"
| "pod_subject_of (StatusListed l _) = (if l = ListFailedInstances then PodSubjectAlways else PodSubjectNever)"
| "pod_subject_of (EventMatch _ _ _ kinds) =
     (if kinds = [] \<or> ''Pod'' \<in> set kinds then PodSubjectSometimes else PodSubjectNever)"
| "pod_subject_of (Other c) = oc_pod c"
| "pod_subject_of (AllOf []) = PodSubjectNever"
| "pod_subject_of (AllOf (lead # _)) = pod_subject_of lead"
| "pod_subject_of _ = PodSubjectNever"

section \<open>Rules\<close>

record requirement =
  rq_component :: string
  rq_constraint :: string

definition requirement_string :: "requirement \<Rightarrow> string" where
  "requirement_string r = rq_component r @ '' '' @ rq_constraint r"

record 'i rule =
  ru_id :: string
  ru_component :: string
  ru_layer :: layer
  ru_requires :: "requirement list"
  ru_pinned :: "string list"
  ru_severity :: severity
  ru_describes :: string
  ru_summary :: string
  ru_detail :: string
  ru_when :: "'i rule_condition option"
  ru_review_by :: string
  ru_next_steps :: string
  ru_consequence_of :: "relation list"
  ru_link :: string
  ru_link_label :: string

definition rule_describes :: "(string \<Rightarrow> string) \<Rightarrow> 'i rule \<Rightarrow> string" where
  "rule_describes q r =
     (let describes = (case ru_when r of Some c \<Rightarrow> if ru_describes r = '''' then describe_condition q c else ru_describes r
                       | None \<Rightarrow> ru_describes r)
      in if ru_requires r = [] then describes
         else describes @ '' (applies to '' @ str_join '', '' (map requirement_string (ru_requires r)) @ '')'')"

text \<open>The pins in order: the evidence of each, or the outcome and the reason of the first that does not hold.\<close>

fun check_pins :: "component_versions \<Rightarrow> requirement list \<Rightarrow> claim list + (check_outcome \<times> string)" where
  "check_pins facts [] = Inl []"
| "check_pins facts (r # rs) =
     (case mget facts (rq_component r) of
        None \<Rightarrow>
          Inr (CheckUnavailable, ''the '' @ rq_component r @ '' version is not observed, and this check applies only to '' @
            requirement_string r)
      | Some v \<Rightarrow>
          if \<not> satisfies (cv_version v) (rq_constraint r)
          then Inr (CheckNotApplicable, ''applies to '' @ requirement_string r @ ''; observed '' @ cv_version v)
          else (case check_pins facts rs of Inl pins \<Rightarrow> Inl (version_evidence v # pins) | Inr stop \<Rightarrow> Inr stop))"

definition rule_finding :: "'i rule \<Rightarrow> claim list \<Rightarrow> condition_match \<Rightarrow> finding" where
  "rule_finding r pins m =
     \<lparr>fg_id = ru_id r @ cm_suffix m, fg_check = ru_id r, fg_subject = cm_subject m, fg_at = cm_at m,
      fg_severity = ru_severity r,
      fg_summary = (if cm_summary m \<noteq> '''' then cm_summary m else ru_summary r),
      fg_detail = ru_detail r, fg_evidence = cm_evidence m @ pins, fg_next_steps = ru_next_steps r,
      fg_consequence_of = ru_consequence_of r,
      fg_link = (if cm_link m \<noteq> '''' then cm_link m else ru_link r),
      fg_link_label = (if cm_link m \<noteq> '''' then cm_link_label m else ru_link_label r)\<rparr>"

definition evaluate_rule :: "(string \<Rightarrow> string) \<Rightarrow> 'z dg_input_scheme rule \<Rightarrow> 'z dg_input_scheme \<Rightarrow> check \<times> finding list" where
  "evaluate_rule q r i =
     (let row = (\<lambda>outcome because off. \<lparr>ck_name = ru_id r, ck_layer = ru_layer r, ck_describes = rule_describes q r,
                   ck_outcome = outcome, ck_because = because, ck_source_off = off\<rparr>)
      in case check_pins (version_facts q i) (ru_requires r) of
           Inr (outcome, because) \<Rightarrow> (row outcome because False, [])
         | Inl pins \<Rightarrow>
             (case (case ru_when r of None \<Rightarrow> ([no_match], '''') | Some c \<Rightarrow> evaluate q (ru_id r) c i) of
                (matches, unavailable) \<Rightarrow>
                  if unavailable \<noteq> '''' then (row CheckUnavailable unavailable (source_off unavailable), [])
                  else if matches = [] then (row CheckClear '''' False, [])
                  else (row CheckMatched '''' False, map (rule_finding r pins) matches)))"

subsection \<open>The rules of the log matcher\<close>

fun log_rule_of :: "'i rule_condition \<Rightarrow> log_rule option" where
  "log_rule_of (LogContains substrings excepted) =
     Some \<lparr>lr_id = '''', lr_contains = substrings, lr_except = excepted, lr_fields = [], lr_summary = ''''\<rparr>"
| "log_rule_of (LogFields tests excepted) =
     Some \<lparr>lr_id = '''', lr_contains = [], lr_except = excepted, lr_fields = tests, lr_summary = ''''\<rparr>"
| "log_rule_of (AllOf branches) =
     (case List.find (\<lambda>v. v \<noteq> None) (map log_rule_of branches) of None \<Rightarrow> None | Some v \<Rightarrow> v)"
| "log_rule_of _ = None"

definition log_rules :: "'i rule list \<Rightarrow> log_rule list" where
  "log_rules rules =
     concat (map (\<lambda>r. case Option.bind (ru_when r) log_rule_of of
         None \<Rightarrow> []
       | Some m \<Rightarrow> [m\<lparr>lr_id := ru_id r, lr_summary := ru_summary r\<rparr>]) rules)"

section \<open>The run\<close>

record 'i detector =
  dt_name :: string
  dt_layer :: layer
  dt_describes :: string
  dt_detect :: "'i \<Rightarrow> verdict"

definition detectors :: "(string \<Rightarrow> string) \<Rightarrow> 'z dg_input_scheme detector list" where
  "detectors q =
     [\<lparr>dt_name = ''resource-quota'', dt_layer = LayerKubernetes,
       dt_describes = ''an object the API server refused to create against a namespace quota'', dt_detect = quota_detect\<rparr>,
      \<lparr>dt_name = ''quota-exhausted'', dt_layer = LayerKubernetes,
       dt_describes = ''a namespace quota whose usage has reached its ceiling'', dt_detect = quota_exhausted_detect q\<rparr>,
      \<lparr>dt_name = ''pod-scheduling'', dt_layer = LayerKubernetes,
       dt_describes = ''a pod the scheduler cannot place on any node'', dt_detect = scheduling_detect\<rparr>,
      \<lparr>dt_name = ''image-pull'', dt_layer = LayerKubernetes,
       dt_describes = ''a container whose image the kubelet cannot pull'', dt_detect = image_pull_detect q\<rparr>,
      \<lparr>dt_name = ''volume-binding'', dt_layer = LayerKubernetes,
       dt_describes = ''a persistent volume claim that has not bound'', dt_detect = volume_detect\<rparr>,
      \<lparr>dt_name = ''backup-cadence'', dt_layer = LayerBackups,
       dt_describes = ''a backup schedule that runs far more often than its author is likely to have intended'',
       dt_detect = backup_cadence_detect q\<rparr>]"

definition run_detector :: "'i \<Rightarrow> 'i detector \<Rightarrow> check \<times> finding list" where
  "run_detector i d =
     (let row = (\<lambda>outcome because off. \<lparr>ck_name = dt_name d, ck_layer = dt_layer d, ck_describes = dt_describes d,
                   ck_outcome = outcome, ck_because = because, ck_source_off = off\<rparr>)
      in case dt_detect d i of
           (findings, unavailable) \<Rightarrow>
             if unavailable \<noteq> '''' then (row CheckUnavailable unavailable (source_off unavailable), [])
             else if findings \<noteq> []
             then (row CheckMatched '''' False, map (\<lambda>f. if fg_check f = '''' then f\<lparr>fg_check := dt_name d\<rparr> else f) findings)
             else (row CheckClear '''' False, []))"

definition finding_less :: "finding \<Rightarrow> finding \<Rightarrow> bool" where
  "finding_less a b \<longleftrightarrow>
     (if fg_severity a \<noteq> fg_severity b then severity_rank (fg_severity a) > severity_rank (fg_severity b)
      else str_less (fg_id a) (fg_id b))"

definition run :: "(string \<Rightarrow> string) \<Rightarrow> 'z dg_input_scheme rule list \<Rightarrow> 'z dg_input_scheme \<Rightarrow> result" where
  "run q rules i =
     (let rows = map (run_detector i) (detectors q) @ map (\<lambda>r. evaluate_rule q r i) rules
      in \<lparr>rs_findings = sort_by finding_less (concat (map snd rows)), rs_checks = map fst rows\<rparr>)"

section \<open>What a run accounts for\<close>

lemma severity_rank_inject [simp]: "severity_rank a = severity_rank b \<longleftrightarrow> a = b"
  by (cases a; cases b) simp_all

interpretation findings: strict_weak_order finding_less
proof
  fix a b c :: finding
  show "\<not> finding_less b a" if "finding_less a b"
    using that by (auto simp: finding_less_def str_less_def split: if_splits)
  show "\<not> finding_less c a" if "\<not> finding_less b a" "\<not> finding_less c b"
  proof -
    have "severity_rank (fg_severity a) \<ge> severity_rank (fg_severity b)"
        "severity_rank (fg_severity b) \<ge> severity_rank (fg_severity c)"
      using that by (auto simp: finding_less_def split: if_splits)
    moreover have "severity_rank (fg_severity a) = severity_rank (fg_severity c) \<Longrightarrow>
        fg_severity a = fg_severity b \<and> fg_severity b = fg_severity c"
      using calculation by (metis le_antisym severity_rank_inject)
    ultimately show ?thesis
      using that by (auto simp: finding_less_def str_less_def split: if_splits)
  qed
qed

text \<open>A check and its findings agree: it matched exactly where it has one, and each carries its name.\<close>

definition row_agrees :: "check \<times> finding list \<Rightarrow> bool" where
  "row_agrees v \<longleftrightarrow>
     (ck_outcome (fst v) = CheckMatched \<longleftrightarrow> snd v \<noteq> []) \<and> fg_check ` set (snd v) \<subseteq> {ck_name (fst v)}"

lemma check_pins_stops:
  "check_pins facts rs = Inr (outcome, because) \<Longrightarrow> outcome = CheckUnavailable \<or> outcome = CheckNotApplicable"
  by (induction rs) (auto split: option.splits if_splits sum.splits)

lemma evaluate_rule_agrees: "row_agrees (evaluate_rule q r i)"
  by (auto simp: evaluate_rule_def row_agrees_def Let_def rule_finding_def dest: check_pins_stops
      split: sum.splits prod.splits)

lemma rule_check_name [simp]: "ck_name (fst (evaluate_rule q r i)) = ru_id r"
  by (simp add: evaluate_rule_def Let_def split: sum.splits prod.splits)

lemma detector_check_name [simp]: "ck_name (fst (run_detector i d)) = dt_name d"
  by (simp add: run_detector_def Let_def split: prod.splits)

lemma run_detector_agrees:
  assumes "\<And>f. f \<in> set (fst (dt_detect d i)) \<Longrightarrow> fg_check f = '''' \<or> fg_check f = dt_name d"
  shows "row_agrees (run_detector i d)"
proof (cases "dt_detect d i")
  case (Pair findings unavailable)
  with assms have "fg_check f = '''' \<or> fg_check f = dt_name d" if "f \<in> set findings" for f
    using that by simp
  then have "fg_check ` set (map (\<lambda>f. if fg_check f = '''' then f\<lparr>fg_check := dt_name d\<rparr> else f) findings) \<subseteq> {dt_name d}"
    by fastforce
  with Pair show ?thesis by (simp add: run_detector_def row_agrees_def Let_def)
qed

lemmas detector_findings =
  quota_detect_def quota_finding_def pods_linked_def no_finding_def quota_exhausted_detect_def quota_exhausted_finding_def
  scheduling_detect_def scheduling_finding_def image_pull_detect_def image_pull_finding_def volume_detect_def
  volume_finding_def backup_cadence_detect_def cadence_finding_def

lemma detector_check:
  assumes "d \<in> set (detectors q)" "f \<in> set (fst (dt_detect d i))"
  shows "fg_check f = '''' \<or> fg_check f = dt_name d"
  using assms by (auto simp: detectors_def detector_findings Let_def split: if_splits list.splits option.splits)

definition rows :: "(string \<Rightarrow> string) \<Rightarrow> 'z dg_input_scheme rule list \<Rightarrow> 'z dg_input_scheme \<Rightarrow> (check \<times> finding list) list" where
  "rows q rules i = map (run_detector i) (detectors q) @ map (\<lambda>r. evaluate_rule q r i) rules"

lemma rows_agree: "v \<in> set (rows q rules i) \<Longrightarrow> row_agrees v"
  unfolding rows_def using run_detector_agrees [OF detector_check] by (auto simp: evaluate_rule_agrees)

lemma run_rows: "run q rules i = \<lparr>rs_findings = sort_by finding_less (concat (map snd (rows q rules i))),
    rs_checks = map fst (rows q rules i)\<rparr>"
  by (simp add: run_def rows_def Let_def)

text \<open>An empty screen is not silence: a run answers for every detector and every rule, in order, under
its own name; the checks that say they matched are exactly those some finding is filed under; and the
findings come most severe first, then by identifier.\<close>

theorem run_accounts_for_every_check:
  fixes i :: "'z dg_input_scheme"
  shows "map ck_name (rs_checks (run q rules i)) =
      map dt_name (detectors q :: 'z dg_input_scheme detector list) @ map ru_id rules \<and>
    fg_check ` set (rs_findings (run q rules i)) =
      ck_name ` {c \<in> set (rs_checks (run q rules i)). ck_outcome c = CheckMatched} \<and>
    sorted_wrt (\<lambda>a b. \<not> finding_less b a) (rs_findings (run q rules i))"
proof -
  have "fg_check ` set (snd v) = (if ck_outcome (fst v) = CheckMatched then {ck_name (fst v)} else {})"
    if "v \<in> set (rows q rules i)" for v
    using rows_agree [OF that] by (cases "snd v") (auto simp: row_agrees_def)
  then have "(\<Union>v \<in> set (rows q rules i). fg_check ` set (snd v)) =
      ck_name ` {c \<in> fst ` set (rows q rules i). ck_outcome c = CheckMatched}"
    by (auto split: if_splits)
  then have "fg_check ` set (rs_findings (run q rules i)) =
      ck_name ` {c \<in> set (rs_checks (run q rules i)). ck_outcome c = CheckMatched}"
    by (simp add: run_rows image_UN)
  moreover have "map ck_name (rs_checks (run q rules i)) =
      map dt_name (detectors q :: 'z dg_input_scheme detector list) @ map ru_id rules"
    by (simp add: run_rows rows_def comp_def)
  ultimately show ?thesis
    by (simp add: run_rows findings.sorted_sort_by)
qed

end
