(* ===== verification/DiagnoseIncidents.thy ===== *)
theory DiagnoseIncidents
  imports DiagnoseRun
begin

text \<open>
  The diagnostics page, \<open>internal/web/diagnostics.go\<close>: findings nested under their declared causes so
  that one incident is one card, the checks in groups by outcome, and one line a layer of the stack.
\<close>

section \<open>Bounded text\<close>

definition max_display_message :: nat where "max_display_message = 512"
definition max_display_evidence :: nat where "max_display_evidence = 2048"

lemma rune_length_pos: "rune_length s = Some k \<Longrightarrow> 0 < k"
  by (auto simp: rune_length_def split: list.splits if_splits)

text \<open>\<open>[]rune(s)\<close>, each rune as its encoding: a byte that starts no well-formed one is U+FFFD.\<close>

function runes :: "string \<Rightarrow> string list" where
  "runes s =
     (if s = [] then []
      else (case rune_length s of
          None \<Rightarrow> [CHR 0xEF, CHR 0xBF, CHR 0xBD] # runes (drop 1 s)
        | Some k \<Rightarrow> take k s # runes (drop k s)))"
  by pat_completeness auto
termination
  by (relation "measure length") (auto simp: neq_Nil_conv dest!: rune_length_pos)

declare runes.simps [simp del]

definition bound_text :: "nat \<Rightarrow> string \<Rightarrow> string" where
  "bound_text limit s =
     (if length (runes s) \<le> limit then s else concat (take limit (runes s)) @ [CHR 0xE2, CHR 0x80, CHR 0xA6])"

definition bound_message :: "string \<Rightarrow> string" where "bound_message = bound_text max_display_message"

definition bound_evidence :: "string \<Rightarrow> string" where "bound_evidence = bound_text max_display_evidence"

section \<open>Cards\<close>

fun severity_string :: "severity \<Rightarrow> string" where
  "severity_string SeverityCritical = ''critical''"
| "severity_string SeverityWarning = ''warning''"
| "severity_string SeverityNote = ''note''"

fun layer_string :: "layer \<Rightarrow> string" where
  "layer_string LayerKubernetes = ''Kubernetes''"
| "layer_string LayerOperator = ''Operator''"
| "layer_string LayerPostgreSQL = ''PostgreSQL''"
| "layer_string LayerReplication = ''Replication''"
| "layer_string LayerBackups = ''Backups and archive''"
| "layer_string LayerPoolers = ''Poolers''"
| "layer_string LayerDeclared = ''Declared objects''"

text \<open>An absolute moment, as text and in the machine-readable form beside it.\<close>

record stamp =
  stm_text :: string
  stm_iso :: string

definition stamp_of :: "instant option \<Rightarrow> stamp" where
  "stamp_of value =
     (case value of
        None \<Rightarrow> \<lparr>stm_text = unknown_text, stm_iso = ''''\<rparr>
      | Some t \<Rightarrow>
          if is_zero t then \<lparr>stm_text = unknown_text, stm_iso = ''''\<rparr>
          else \<lparr>stm_text = utc_text t, stm_iso = rfc3339_text t\<rparr>)"

record sequence_view =
  qv_at :: stamp
  qv_severity :: string
  qv_summary :: string
  qv_origin :: string

record related_view =
  rv_id :: string
  rv_summary :: string
  rv_object :: string
  rv_because :: string

record card =
  fv_id :: string
  fv_layer :: string
  fv_severity :: string
  fv_summary :: string
  fv_detail :: string
  fv_evidence :: "claim list"
  fv_next_steps :: string
  fv_via :: string
  fv_related :: "related_view list"
  fv_link :: string
  fv_link_label :: string

text \<open>A card and the cards nested in it; a nested card carries none.\<close>

record incident_view =
  iv_card :: card
  iv_consequences :: "card list"
  iv_sequence :: "sequence_view list"

definition check_layer :: "check list \<Rightarrow> string \<Rightarrow> layer option" where
  "check_layer checks name = map_option ck_layer (List.find (\<lambda>c. ck_name c = name) (rev checks))"

definition render_finding :: "check list \<Rightarrow> finding \<Rightarrow> card" where
  "render_finding checks f =
     \<lparr>fv_id = fg_id f,
      fv_layer = (case check_layer checks (fg_check f) of None \<Rightarrow> '''' | Some l \<Rightarrow> layer_string l),
      fv_severity = severity_string (fg_severity f), fv_summary = bound_message (fg_summary f),
      fv_detail = bound_message (fg_detail f),
      fv_evidence = map (\<lambda>c. c\<lparr>ea_detail := bound_evidence (ea_detail c)\<rparr>) (fg_evidence f),
      fv_next_steps = bound_message (fg_next_steps f), fv_via = '''', fv_related = [], fv_link = fg_link f,
      fv_link_label = fg_link_label f\<rparr>"

section \<open>Incidents\<close>

definition by_check :: "finding list \<Rightarrow> string \<Rightarrow> nat list" where
  "by_check fs name = filter (\<lambda>i. fg_check (fs ! i) = name) [0..<length fs]"

definition near_miss :: "finding \<Rightarrow> string \<Rightarrow> related_view" where
  "near_miss cause because =
     \<lparr>rv_id = fg_id cause, rv_summary = bound_message (fg_summary cause), rv_object = entity_string (fg_subject cause),
      rv_because = bound_message because\<rparr>"

text \<open>The findings of one named cause, in order: the first the relation admits, and the misses before it.\<close>

fun admit_among :: "finding list \<Rightarrow> nat \<Rightarrow> relation \<Rightarrow> nat list \<Rightarrow> nat option \<times> related_view list" where
  "admit_among fs i l [] = (None, [])"
| "admit_among fs i l (j # js) =
     (if j = i then admit_among fs i l js
      else
        (case relation_holds l (fs ! i) (fs ! j) of (holds, because) \<Rightarrow>
           if holds then (Some j, [])
           else (case admit_among fs i l js of (found, misses) \<Rightarrow> (found, near_miss (fs ! j) because # misses))))"

fun admitted_cause :: "finding list \<Rightarrow> nat \<Rightarrow> relation list \<Rightarrow> (nat \<times> relation) option \<times> related_view list" where
  "admitted_cause fs i [] = (None, [])"
| "admitted_cause fs i (l # ls) =
     (if rn_cause l = fg_check (fs ! i) then admitted_cause fs i ls
      else
        (case admit_among fs i l (by_check fs (rn_cause l)) of
           (Some j, _) \<Rightarrow> (Some (j, l), [])
         | (None, misses) \<Rightarrow>
             (case admitted_cause fs i ls of
                (Some a, _) \<Rightarrow> (Some a, [])
              | (None, others) \<Rightarrow> (None, misses @ others))))"

definition cause_of :: "finding list \<Rightarrow> nat \<Rightarrow> (nat \<times> relation) option" where
  "cause_of fs i = fst (admitted_cause fs i (fg_consequence_of (fs ! i)))"

definition misses_of :: "finding list \<Rightarrow> nat \<Rightarrow> related_view list" where
  "misses_of fs i = snd (admitted_cause fs i (fg_consequence_of (fs ! i)))"

text \<open>The climb to the topmost cause, with the findings seen; the fuel is the number of findings.\<close>

fun climb :: "(nat \<Rightarrow> nat option) \<Rightarrow> nat \<Rightarrow> nat list \<Rightarrow> nat \<Rightarrow> nat \<Rightarrow> (nat \<times> nat) option" where
  "climb parent 0 seen here depth = None"
| "climb parent (Suc fuel) seen here depth =
     (case parent here of
        None \<Rightarrow> Some (here, depth)
      | Some upper \<Rightarrow> if upper \<in> set seen then None else climb parent fuel (upper # seen) upper (depth + 1))"

definition parent_of :: "finding list \<Rightarrow> nat \<Rightarrow> nat option" where
  "parent_of fs i = map_option fst (cause_of fs i)"

definition root_of :: "finding list \<Rightarrow> nat \<Rightarrow> nat \<times> nat" where
  "root_of fs i = (case climb (parent_of fs) (length fs) [i] i 0 of None \<Rightarrow> (i, 0) | Some r \<Rightarrow> r)"

definition roots :: "finding list \<Rightarrow> nat list" where
  "roots fs = filter (\<lambda>i. fst (root_of fs i) = i) [0..<length fs]"

text \<open>The findings nested under a root, the nearest consequences first.\<close>

definition chain :: "finding list \<Rightarrow> nat \<Rightarrow> nat list" where
  "chain fs r =
     sort_by (\<lambda>a b. snd (root_of fs a) < snd (root_of fs b))
       (filter (\<lambda>i. fst (root_of fs i) = r \<and> i \<noteq> r) [0..<length fs])"

definition via_terms :: "finding list \<Rightarrow> nat \<Rightarrow> string" where
  "via_terms fs i = (case cause_of fs i of None \<Rightarrow> '''' | Some (j, l) \<Rightarrow> relation_terms l (fs ! i) (fs ! j))"

definition worst_of :: "finding list \<Rightarrow> nat \<Rightarrow> nat" where
  "worst_of fs r =
     foldl (\<lambda>worst i. if severity_rank (fg_severity (fs ! i)) > worst then severity_rank (fg_severity (fs ! i)) else worst)
       (severity_rank (fg_severity (fs ! r))) (chain fs r)"

definition incident_order :: "finding list \<Rightarrow> nat list" where
  "incident_order fs = sort_by (\<lambda>a b. worst_of fs a > worst_of fs b) (roots fs)"

definition incident_of :: "finding list \<Rightarrow> card list \<Rightarrow> nat \<Rightarrow> incident_view" where
  "incident_of fs rendered r =
     \<lparr>iv_card = (rendered ! r)\<lparr>fv_related := misses_of fs r\<rparr>,
      iv_consequences = map (\<lambda>i. (rendered ! i)\<lparr>fv_via := via_terms fs i, fv_related := []\<rparr>) (chain fs r),
      iv_sequence = []\<rparr>"

definition group_incidents :: "finding list \<Rightarrow> card list \<Rightarrow> incident_view list" where
  "group_incidents fs rendered = map (incident_of fs rendered) (incident_order fs)"

section \<open>Every finding is shown once\<close>

lemma climb_root: "climb parent fuel seen here depth = Some (r, d) \<Longrightarrow> parent r = None"
  by (induction parent fuel seen here depth rule: climb.induct) (auto split: option.splits if_splits)

lemma by_check_bound: "j \<in> set (by_check fs name) \<Longrightarrow> j < length fs"
  by (simp add: by_check_def)

lemma admit_among_in: "admit_among fs i l js = (Some j, misses) \<Longrightarrow> j \<in> set js \<and> j \<noteq> i \<and> fst (relation_holds l (fs ! i) (fs ! j))"
  by (induction js arbitrary: misses) (auto split: if_splits prod.splits)

lemma admitted_cause_in:
  assumes "fst (admitted_cause fs i ls) = Some (j, l)"
  shows "l \<in> set ls \<and> j \<in> set (by_check fs (rn_cause l)) \<and> j \<noteq> i \<and> fst (relation_holds l (fs ! i) (fs ! j))"
  using assms
  by (induction ls) (auto split: if_splits prod.splits option.splits dest: admit_among_in)

lemma cause_of_in:
  assumes "cause_of fs i = Some (j, l)"
  shows "l \<in> set (fg_consequence_of (fs ! i))" and "j < length fs" and "j \<noteq> i"
    and "fst (relation_holds l (fs ! i) (fs ! j))"
  using admitted_cause_in [of fs i _ j l] assms by (auto simp: cause_of_def dest: by_check_bound)

lemma climb_bound:
  assumes "\<forall>k j. parent k = Some j \<longrightarrow> j < n" "here < n" "climb parent fuel seen here depth = Some (r, d)"
  shows "r < n"
  using assms
  by (induction parent fuel seen here depth rule: climb.induct) (auto split: option.splits if_splits)

lemma root_of_self: "parent_of fs i = None \<Longrightarrow> i < length fs \<Longrightarrow> root_of fs i = (i, 0)"
  by (cases "length fs") (simp_all add: root_of_def)

lemma root_of_root:
  assumes "i < length fs"
  shows "fst (root_of fs (fst (root_of fs i))) = fst (root_of fs i) \<and> fst (root_of fs i) < length fs"
proof (cases "climb (parent_of fs) (length fs) [i] i 0")
  case None
  with assms show ?thesis by (simp add: root_of_def)
next
  case (Some rd)
  obtain r d where rd: "rd = (r, d)" by fastforce
  have "r < length fs"
    using climb_bound [of "parent_of fs" "length fs" i] Some rd assms cause_of_in(2)
    by (fastforce simp: parent_of_def)
  moreover from Some rd have "parent_of fs r = None" by (auto dest: climb_root)
  ultimately show ?thesis using Some rd root_of_self [of fs r] by (simp add: root_of_def)
qed

lemma mset_incident:
  assumes "r \<in> set (roots fs)"
  shows "mset (r # chain fs r) = mset (filter (\<lambda>i. fst (root_of fs i) = r) [0..<length fs])"
proof -
  have r: "r \<in> set [0..<length fs]" "fst (root_of fs r) = r" using assms by (auto simp: roots_def)
  have "filter (\<lambda>i. fst (root_of fs i) = r \<and> i \<noteq> r) [0..<length fs] =
      removeAll r (filter (\<lambda>i. fst (root_of fs i) = r) [0..<length fs])"
    by (auto simp: removeAll_filter_not_eq intro: filter_cong)
  also have "\<dots> = remove1 r (filter (\<lambda>i. fst (root_of fs i) = r) [0..<length fs])"
    by (simp add: distinct_remove1_removeAll)
  finally show ?thesis using r by (simp add: chain_def)
qed

lemma partition_mset:
  assumes "distinct ks" "set (map g xs) \<subseteq> set ks"
  shows "mset (concat (map (\<lambda>k. filter (\<lambda>x. g x = k) xs) ks)) = mset xs"
  using assms
proof (induction xs)
  case Nil
  then show ?case by (induction ks) simp_all
next
  case (Cons x xs)
  have "mset (concat (map (\<lambda>k. filter (\<lambda>y. g y = k) (x # xs)) ks)) =
      (if g x \<in> set ks then {#x#} else {#}) + mset (concat (map (\<lambda>k. filter (\<lambda>y. g y = k) xs) ks))"
    using Cons.prems(1) by (induction ks) auto
  with Cons show ?case by simp
qed

lemma shown_indices:
  "mset (concat (map (\<lambda>r. r # chain fs r) (incident_order fs))) = mset [0..<length fs]"
proof -
  have "mset (concat (map (\<lambda>r. r # chain fs r) (incident_order fs))) =
      mset (concat (map (\<lambda>r. r # chain fs r) (roots fs)))"
    by (simp add: mset_concat incident_order_def flip: sum_mset_sum_list)
  also have "map mset (map (\<lambda>r. r # chain fs r) (roots fs)) =
      map mset (map (\<lambda>r. filter (\<lambda>i. fst (root_of fs i) = r) [0..<length fs]) (roots fs))"
    using mset_incident by (simp del: mset.simps mset_filter mset_upt)
  then have "mset (concat (map (\<lambda>r. r # chain fs r) (roots fs))) =
      mset (concat (map (\<lambda>r. filter (\<lambda>i. fst (root_of fs i) = r) [0..<length fs]) (roots fs)))"
    by (simp only: mset_concat)
  also have "\<dots> = mset [0..<length fs]"
    using root_of_root by (intro partition_mset) (auto simp: roots_def)
  finally show ?thesis .
qed

text \<open>C25. Grouping into incidents hides nothing and repeats nothing: every finding of a run is shown exactly
once, as a card of its own or inside the card of its topmost cause, whatever the catalog relates and
however its relations loop.\<close>

theorem every_finding_is_shown_once:
  "mset (concat (map (\<lambda>v. fv_id (iv_card v) # map fv_id (iv_consequences v))
      (group_incidents fs (map (render_finding checks) fs)))) = mset (map fg_id fs)"
proof -
  let ?id = "\<lambda>i. fg_id (fs ! i)"
  have bound: "i < length fs" if "r \<in> set (incident_order fs)" "i \<in> set (r # chain fs r)" for r i
    using that by (auto simp: incident_order_def roots_def chain_def)
  have "map (\<lambda>v. fv_id (iv_card v) # map fv_id (iv_consequences v)) (group_incidents fs (map (render_finding checks) fs)) =
      map (\<lambda>r. map ?id (r # chain fs r)) (incident_order fs)"
    using bound by (simp add: group_incidents_def incident_of_def render_finding_def)
  then have "concat (map (\<lambda>v. fv_id (iv_card v) # map fv_id (iv_consequences v))
      (group_incidents fs (map (render_finding checks) fs))) =
      map ?id (concat (map (\<lambda>r. r # chain fs r) (incident_order fs)))"
    by (simp add: map_concat comp_def)
  then have "mset (concat (map (\<lambda>v. fv_id (iv_card v) # map fv_id (iv_consequences v))
      (group_incidents fs (map (render_finding checks) fs)))) = mset (map ?id [0..<length fs])"
    by (metis mset_map shown_indices)
  also have "map ?id [0..<length fs] = map fg_id fs"
    by (rule nth_equalityI) simp_all
  finally show ?thesis .
qed

text \<open>Incidents come worst first, by the worst finding of each.\<close>

lemma foldl_max: "foldl (\<lambda>w i. if f i > w then f i else w) (a::nat) xs = Max (insert a (f ` set xs))"
proof (induction xs arbitrary: a)
  case (Cons x xs)
  have "Max (insert (max a (f x)) (f ` set xs)) = Max (insert a (insert (f x) (f ` set xs)))"
    by (cases "xs = []") (simp_all add: Max_insert2 max.assoc)
  moreover have "(if f x > a then f x else a) = max a (f x)" by simp
  ultimately show ?case by (simp only: foldl_Cons Cons.IH) simp
qed simp

lemma worst_of_max: "worst_of fs r = Max ((\<lambda>i. severity_rank (fg_severity (fs ! i))) ` set (r # chain fs r))"
  by (simp add: worst_of_def foldl_max)

lemma worst_first_order: "strict_weak_order (\<lambda>a b. worst_of fs a > worst_of fs b)"
  by unfold_locales auto

lemma incidents_worst_first: "sorted_wrt (\<lambda>a b. worst_of fs b \<le> worst_of fs a) (incident_order fs)"
  using strict_weak_order.sorted_sort_by [OF worst_first_order] by (simp add: incident_order_def not_less)

text \<open>The fuel of the climb is enough: with more of it the answer is the same.\<close>

lemma climb_fuel:
  assumes "\<forall>k j. parent k = Some j \<longrightarrow> j < n" "distinct seen" "set seen \<subseteq> {..<n}" "fuel + length seen \<ge> Suc n" "fuel \<le> fuel'"
  shows "climb parent fuel' seen here depth = climb parent fuel seen here depth"
  using assms
proof (induction parent fuel seen here depth arbitrary: fuel' rule: climb.induct)
  case (1 parent seen here depth)
  have "card (set seen) \<le> n" using card_mono [OF _ 1(3)] by simp
  with 1(2,4) show ?case by (simp add: distinct_card)
next
  case (2 parent fuel seen here depth)
  obtain fuel'' where fuel: "fuel' = Suc fuel''" "fuel \<le> fuel''" using 2(6) by (cases fuel') auto
  show ?case
  proof (cases "parent here")
    case (Some upper)
    show ?thesis
    proof (cases "upper \<in> set seen")
      case False
      have "climb parent fuel'' (upper # seen) upper (depth + 1) = climb parent fuel (upper # seen) upper (depth + 1)"
        using 2(2,3,4,5) Some False fuel(2) by (intro 2(1)) auto
      with Some False fuel(1) show ?thesis by simp
    qed (simp add: Some fuel(1))
  qed (simp add: fuel(1))
qed

lemma root_of_fuel:
  assumes "i < length fs" "length fs \<le> fuel"
  shows "root_of fs i = (case climb (parent_of fs) fuel [i] i 0 of None \<Rightarrow> (i, 0) | Some r \<Rightarrow> r)"
proof -
  have "climb (parent_of fs) fuel [i] i 0 = climb (parent_of fs) (length fs) [i] i 0"
    using assms cause_of_in(2) by (intro climb_fuel [where n = "length fs"]) (auto simp: parent_of_def)
  then show ?thesis by (simp add: root_of_def)
qed

section \<open>What nesting rests on\<close>

lemma climb_depth: "climb parent fuel seen here depth = Some (r, d) \<Longrightarrow> depth \<le> d"
  by (induction parent fuel seen here depth rule: climb.induct) (auto split: option.splits if_splits)

lemma climb_from:
  assumes "climb parent fuel seen here depth = Some (r, d)" "set seen' \<subseteq> set seen" "fuel \<le> fuel'"
  shows "climb parent fuel' seen' here depth' = Some (r, d - depth + depth')"
  using assms
proof (induction parent fuel seen here depth arbitrary: fuel' seen' depth' rule: climb.induct)
  case (2 parent fuel seen here depth)
  then obtain fuel'' where fuel: "fuel' = Suc fuel''" "fuel \<le> fuel''" by (cases fuel') auto
  show ?case
  proof (cases "parent here")
    case None
    with 2(2) fuel show ?thesis by simp
  next
    case (Some upper)
    with 2(2) have fresh: "upper \<notin> set seen" and up: "climb parent fuel (upper # seen) upper (depth + 1) = Some (r, d)"
      by (auto split: if_splits)
    have "climb parent fuel'' (upper # seen') upper (depth' + 1) = Some (r, d - (depth + 1) + (depth' + 1))"
      using 2(1) [OF Some fresh up, of "upper # seen'" fuel'' "depth' + 1"] 2(3) fuel(2) by auto
    moreover have "upper \<notin> set seen'" using fresh 2(3) by auto
    ultimately show ?thesis using Some fuel(1) climb_depth [OF up] by simp
  qed
qed simp

lemma root_of_cause:
  assumes "fst (root_of fs i) \<noteq> i" "cause_of fs i = Some (j, l)"
  shows "fst (root_of fs j) = fst (root_of fs i)"
proof -
  have parent: "parent_of fs i = Some j" using assms(2) by (simp add: parent_of_def)
  from assms(1) obtain r d where up: "climb (parent_of fs) (length fs) [i] i 0 = Some (r, d)"
    by (auto simp: root_of_def split: option.splits)
  then obtain fuel where fuel: "length fs = Suc fuel" by (cases "length fs") simp_all
  with up parent have "climb (parent_of fs) fuel [j, i] j 1 = Some (r, d)" by (auto split: if_splits)
  then have "climb (parent_of fs) (length fs) [j] j 0 = Some (r, d - 1 + 0)"
    by (rule climb_from) (use fuel in auto)
  with up show ?thesis by (simp add: root_of_def)
qed

lemma nested_has_cause:
  assumes "fst (root_of fs i) \<noteq> i"
  obtains j l where "cause_of fs i = Some (j, l)"
proof (cases "cause_of fs i")
  case None
  then have "parent_of fs i = None" by (simp add: parent_of_def)
  with assms show ?thesis by (cases "length fs") (simp_all add: root_of_def)
next
  case (Some a)
  then show ?thesis using that by (cases a) simp
qed

text \<open>C26. Nothing is nested on a guess: a card inside another is a finding whose catalog relation names the
check of another finding of the same card and admits the pair, on the same pod and within the window
where it says so, and the terms printed with it are those of that relation.\<close>

theorem nesting_rests_on_an_admitted_relation:
  assumes "v \<in> set (group_incidents fs (map (render_finding checks) fs))" "c \<in> set (iv_consequences v)"
  shows "\<exists>effect cause l. effect \<in> set fs \<and> cause \<in> set fs \<and> fv_id c = fg_id effect \<and>
    l \<in> set (fg_consequence_of effect) \<and> rn_cause l = fg_check cause \<and> fst (relation_holds l effect cause) \<and>
    fv_via c = relation_terms l effect cause \<and>
    fg_id cause \<in> set (fv_id (iv_card v) # map fv_id (iv_consequences v))"
proof -
  let ?cards = "map (render_finding checks) fs"
  from assms obtain r i where r: "r \<in> set (roots fs)" and v: "v = incident_of fs ?cards r" and i: "i \<in> set (chain fs r)"
      and c: "c = (?cards ! i)\<lparr>fv_via := via_terms fs i, fv_related := []\<rparr>"
    by (auto simp: group_incidents_def incident_order_def incident_of_def)
  from i have root: "fst (root_of fs i) = r" and "i \<noteq> r" and bound: "i < length fs" by (auto simp: chain_def)
  then obtain j l where cause: "cause_of fs i = Some (j, l)"
    by (metis nested_has_cause)
  note j = cause_of_in [OF cause]
  have "j \<in> set (by_check fs (rn_cause l))"
    using cause admitted_cause_in by (fastforce simp: cause_of_def)
  then have check: "rn_cause l = fg_check (fs ! j)" by (simp add: by_check_def)
  have "fst (root_of fs j) = r" using root_of_cause [OF _ cause] root \<open>i \<noteq> r\<close> by simp
  then have "j \<in> set (r # chain fs r)" using j(2) by (auto simp: chain_def)
  moreover have "set (fv_id (iv_card v) # map fv_id (iv_consequences v)) = (\<lambda>k. fv_id (?cards ! k)) ` set (r # chain fs r)"
    by (simp add: v incident_of_def image_image)
  moreover have "fg_id (fs ! j) = fv_id (?cards ! j)"
    using j(2) by (simp add: render_finding_def)
  ultimately have "fg_id (fs ! j) \<in> set (fv_id (iv_card v) # map fv_id (iv_consequences v))"
    by (metis imageI)
  moreover have "fv_id c = fg_id (fs ! i)" "fv_via c = relation_terms l (fs ! i) (fs ! j)"
    using bound cause by (simp_all add: c render_finding_def via_terms_def)
  ultimately show ?thesis
    using j check bound by (intro exI [of _ "fs ! i"] exI [of _ "fs ! j"] exI [of _ l]) simp
qed

definition full_volume_run :: "finding list" where
  "full_volume_run =
     [no_finding\<lparr>fg_id := ''volume-full'', fg_check := ''volume-full''\<rparr>,
      no_finding\<lparr>fg_id := ''instance-restarts'', fg_check := ''instance-restarts'',
        fg_consequence_of :=
          [\<lparr>rn_cause = ''volume-full'', rn_scope = ScopeCluster, rn_within = 0, rn_strength = StrengthEstablished\<rparr>]\<rparr>]"

lemma nesting_rests_on_an_admitted_relation_witness:
  "\<exists>effect cause l. effect \<in> set full_volume_run \<and> cause \<in> set full_volume_run \<and>
     fg_id effect = ''instance-restarts'' \<and> rn_cause l = fg_check cause \<and> fst (relation_holds l effect cause)"
proof -
  let ?vs = "group_incidents full_volume_run (map (render_finding []) full_volume_run)"
  let ?c = "hd (iv_consequences (hd ?vs))"
  have shown: "length ?vs = 1" "length (iv_consequences (hd ?vs)) = 1" "fv_id ?c = ''instance-restarts''"
    by code_simp+
  then have "hd ?vs \<in> set ?vs" "?c \<in> set (iv_consequences (hd ?vs))" by (auto intro: hd_in_set)
  from nesting_rests_on_an_admitted_relation [OF this] shown(3) show ?thesis by metis
qed

end
