(* ===== verification/DiagnoseSound.thy ===== *)
theory DiagnoseSound
  imports DiagnoseRun
begin

text \<open>
  What the outcomes of a rule are worth: a clear result rests on sources that were read, a finding on
  versions that were observed, a corroborated finding on one agreeing match a branch, and the
  classification of the conditions by whether they name a pod is the one their matches show.
\<close>

section \<open>Clear is never blind\<close>

datatype source =
    FromLogs | FromEvents | FromBackups | FromCluster | FromPods | FromPoolerPods | FromDatabaseObjects | FromPoolers
  | FromLease | FromQuorum | FromEvidence

text \<open>Observed and current; of the logs, that every container expected to talk is being listened to.\<close>

fun source_read :: "source \<Rightarrow> 'z dg_input_scheme \<Rightarrow> bool" where
  "source_read FromLogs i \<longleftrightarrow>
     (case di_logs i of None \<Rightarrow> False | Some logs \<Rightarrow> lg_unread logs = [] \<and> di_has_pods i \<and> \<not> og_stale (di_pods i))"
| "source_read FromEvents i \<longleftrightarrow> di_has_events i \<and> \<not> og_stale (di_events i)"
| "source_read FromBackups i \<longleftrightarrow> di_has_backups i \<and> \<not> og_stale (di_backups i)"
| "source_read FromCluster i \<longleftrightarrow> di_has_cluster i \<and> \<not> og_stale (di_cluster i) \<and> cf_present (cn_cluster (di_cluster i))"
| "source_read FromPods i \<longleftrightarrow> di_has_pods i \<and> \<not> og_stale (di_pods i)"
| "source_read FromPoolerPods i \<longleftrightarrow> \<not> (di_has_pooler_pods i \<and> og_stale (di_pooler_pods i))"
| "source_read FromDatabaseObjects i \<longleftrightarrow> di_has_database_objects i \<and> \<not> og_stale (di_database_objects i)"
| "source_read FromPoolers i \<longleftrightarrow> di_has_poolers i \<and> \<not> og_stale (di_poolers i)"
| "source_read FromLease i \<longleftrightarrow> di_has_lease i \<and> \<not> og_stale (di_lease i)"
| "source_read FromQuorum i \<longleftrightarrow> di_has_quorum i \<and> \<not> og_stale (di_quorum i)"
| "source_read FromEvidence i \<longleftrightarrow>
     di_has_evidence i \<and> ev_has_report (di_evidence i) \<and> \<not> eg_stale (ev_snapshot (di_evidence i)) \<and>
     \<not> re_source_stale (eg_report (ev_snapshot (di_evidence i)))"

text \<open>What a condition reads before it answers; of several branches, the snapshots the first reads.\<close>

fun sources :: "'i rule_condition \<Rightarrow> source list" where
  "sources (LogContains _ _) = [FromLogs]"
| "sources (LogFields _ _) = [FromLogs]"
| "sources (EventMatch _ _ _ _) = [FromEvents]"
| "sources (BackupPhase _ _) = [FromBackups]"
| "sources (ContainerState _) = [FromPods, FromPoolerPods]"
| "sources ScheduledBackupSuspended = [FromBackups]"
| "sources (ScheduledBackupOverdue _) = [FromBackups]"
| "sources DeclaredObjectFailed = [FromDatabaseObjects]"
| "sources (PoolerPhase _) = [FromPoolers]"
| "sources (PrimaryLeaseExpired _) = [FromLease, FromCluster]"
| "sources PrimaryLeaseHolderMismatch = [FromLease, FromCluster]"
| "sources PoolerShort = [FromPoolers]"
| "sources QuorumStandbysShort = [FromQuorum]"
| "sources StoreBackupFailed = [FromBackups]"
| "sources (StoreNoBackup _) = [FromBackups]"
| "sources (RepositoryState _ _) = [FromEvidence]"
| "sources (Other _) = []"
| "sources (AllOf []) = []"
| "sources (AllOf (lead # _)) = filter (\<lambda>s. s \<noteq> FromLogs) (sources lead)"
| "sources _ = [FromCluster]"

lemmas unavailable_defs =
  events_unavailable_def pods_unavailable_def pooler_pods_unavailable_def cluster_unavailable_def
  poolers_unavailable_def quorum_unavailable_def lease_unavailable_def evidence_unavailable_def
  logs_unavailable_def backups_unread_def

lemma logs_heard:
  assumes "log_matches rule_id i = ([], '''')"
  shows "source_read FromLogs i"
proof (cases "di_logs i")
  case None
  with assms show ?thesis by (simp add: log_matches_def logs_unavailable_def reason_logs_off_def)
next
  case (Some logs)
  with assms have "logs_incomplete i = ''''"
    by (auto simp: log_matches_def Let_def split: if_splits)
  with Some have "pods_unavailable i = ''''" "lg_unread logs = []"
    by (auto simp: logs_incomplete_def split: if_splits list.splits)
  with Some show ?thesis by (auto simp: pods_unavailable_def split: if_splits)
qed

lemma all_of_lead: "snd (all_of (lead # rest)) = '''' \<Longrightarrow> snd lead = ''''"
  by (cases lead) (auto split: if_splits)

lemma cluster_read: "cluster_unavailable i = '''' \<longleftrightarrow> source_read FromCluster i"
  by (simp add: cluster_unavailable_def)

lemma cluster_guarded:
  assumes "cluster_unavailable i \<noteq> ''''"
  shows "cluster_condition type status reason d i = ([], cluster_unavailable i)"
    and "cluster_phase any_of i = ([], cluster_unavailable i)"
    and "primary_mismatch d i = ([], cluster_unavailable i)"
    and "cluster_phase_held any_of d i = ([], cluster_unavailable i)"
    and "status_listed l d i = ([], cluster_unavailable i)"
    and "primary_failing d i = ([], cluster_unavailable i)"
    and "timeline_divergence d i = ([], cluster_unavailable i)"
    and "certificate_expiring d i = ([], cluster_unavailable i)"
    and "role_unreconcilable q i = ([], cluster_unavailable i)"
    and "tablespace_error q i = ([], cluster_unavailable i)"
    and "replica_switch_stuck d i = ([], cluster_unavailable i)"
    and "instances_short d i = ([], cluster_unavailable i)"
    and "image_catalog_missing i = ([], cluster_unavailable i)"
    and "image_catalog_lacks_major i = ([], cluster_unavailable i)"
  using assms
  by (simp_all add: cluster_condition_def cluster_phase_def primary_mismatch_def cluster_phase_held_def
      status_listed_def primary_failing_def timeline_divergence_def certificate_expiring_def role_unreconcilable_def
      tablespace_error_def replica_switch_stuck_def instances_short_def image_catalog_missing_def
      image_catalog_lacks_major_def resolve_catalog_def)

lemma source_guarded:
  "\<not> source_read FromEvents i \<Longrightarrow> snd (event_match rs ts ms ks i) \<noteq> ''''"
  "\<not> source_read FromBackups i \<Longrightarrow> snd (backup_phase any_of d i) \<noteq> ''''"
  "\<not> source_read FromBackups i \<Longrightarrow> snd (scheduled_backup_suspended i) \<noteq> ''''"
  "\<not> source_read FromBackups i \<Longrightarrow> snd (scheduled_backup_overdue d i) \<noteq> ''''"
  "\<not> source_read FromBackups i \<Longrightarrow> snd (store_backup_failed q i) \<noteq> ''''"
  "\<not> source_read FromBackups i \<Longrightarrow> snd (store_no_backup q d i) \<noteq> ''''"
  "\<not> source_read FromPods i \<Longrightarrow> snd (container_state q rs i) \<noteq> ''''"
  "\<not> source_read FromPoolerPods i \<Longrightarrow> snd (container_state q rs i) \<noteq> ''''"
  "\<not> source_read FromDatabaseObjects i \<Longrightarrow> snd (declared_object_failed q i) \<noteq> ''''"
  "\<not> source_read FromPoolers i \<Longrightarrow> snd (pooler_phase any_of i) \<noteq> ''''"
  "\<not> source_read FromPoolers i \<Longrightarrow> snd (pooler_short i) \<noteq> ''''"
  "\<not> source_read FromQuorum i \<Longrightarrow> snd (quorum_standbys_short i) \<noteq> ''''"
  "\<not> source_read FromEvidence i \<Longrightarrow> snd (repository_state aspect states i) \<noteq> ''''"
  by (auto simp: event_match_def backup_phase_def scheduled_backup_suspended_def scheduled_backup_overdue_def
      store_backup_failed_def store_no_backup_def recovery_window_of_def container_state_def declared_object_failed_def
      pooler_phase_def pooler_short_def quorum_standbys_short_def repository_state_def Let_def unavailable_defs
      reason_evidence_off_def)

lemma lease_guarded:
  "\<not> source_read FromLease i \<Longrightarrow> snd (primary_lease_expired d i) \<noteq> ''''"
  "\<not> source_read FromLease i \<Longrightarrow> snd (primary_lease_holder_mismatch i) \<noteq> ''''"
  "\<not> source_read FromCluster i \<Longrightarrow> snd (primary_lease_expired d i) \<noteq> ''''"
  "\<not> source_read FromCluster i \<Longrightarrow> snd (primary_lease_holder_mismatch i) \<noteq> ''''"
  by (auto simp: primary_lease_expired_def primary_lease_holder_mismatch_def lease_unavailable_def cluster_unavailable_def
      Let_def)

lemma unread_cluster: "\<not> source_read FromCluster i \<Longrightarrow> cluster_unavailable i \<noteq> ''''"
  by (simp add: cluster_read del: source_read.simps)

text \<open>An answer, matched or clear, comes of snapshots that were read.\<close>

lemma answered_sources:
  assumes "\<not> source_read s i" "s \<in> set (sources c)" "s \<noteq> FromLogs"
  shows "snd (evaluate q rule_id c i) \<noteq> ''''"
  using assms
proof (induction c rule: sources.induct)
  case (19 lead rest)
  then have "snd (evaluate q rule_id lead i) \<noteq> ''''" by simp
  then show ?case using all_of_lead by (metis evaluate.simps(32) list.simps(9))
qed (auto simp: source_guarded lease_guarded cluster_guarded unread_cluster simp del: source_read.simps)

lemma clear_answer:
  assumes "ck_outcome (fst (evaluate_rule q r i)) = CheckClear" "ru_when r = Some c"
  shows "evaluate q (ru_id r) c i = ([], '''')"
  using assms
  by (auto simp: evaluate_rule_def Let_def dest: check_pins_stops split: sum.splits prod.splits if_splits)

lemma answer_reads:
  assumes "evaluate q rule_id c i = ([], '''')" "s \<in> set (sources c)"
  shows "source_read s i"
proof (cases "s = FromLogs")
  case False
  with assms show ?thesis using answered_sources by (metis snd_conv)
next
  case True
  with assms have "log_matches rule_id i = ([], '''')"
    by (cases c rule: sources.cases) auto
  with True show ?thesis using logs_heard by blast
qed

text \<open>Clear is never blind: where a rule comes back clear, every source its condition reads has been
observed, is current, and, of the logs, no container expected to talk goes unheard. What the console
cannot see it does not rule out.\<close>

theorem clear_rests_on_what_was_read:
  assumes "ck_outcome (fst (evaluate_rule q r i)) = CheckClear"
    and "ru_when r = Some c"
    and "s \<in> set (sources c)"
  shows "source_read s i"
  using clear_answer [OF assms(1,2)] assms(3) by (rule answer_reads)

section \<open>A pinned rule speaks of its versions only\<close>

lemma check_pins_hold:
  assumes "check_pins facts rs = Inl pins" "p \<in> set rs"
  shows "\<exists>v. mget facts (rq_component p) = Some v \<and> satisfies (cv_version v) (rq_constraint p) \<and>
    version_evidence v \<in> set pins"
  using assms by (induction rs arbitrary: pins) (auto split: option.splits if_splits sum.splits)

lemma rule_findings:
  assumes "f \<in> set (snd (evaluate_rule q r i))"
  obtains pins m where "check_pins (version_facts q i) (ru_requires r) = Inl pins" "f = rule_finding r pins m"
    and "\<And>c. ru_when r = Some c \<Longrightarrow> m \<in> set (fst (evaluate q (ru_id r) c i)) \<and> snd (evaluate q (ru_id r) c i) = ''''"
    and "ru_when r = None \<Longrightarrow> m = no_match"
  using assms
  by (auto simp: evaluate_rule_def Let_def split: sum.splits prod.splits if_splits option.splits)

text \<open>A version-pinned rule asserts nothing outside its pins: each of its findings has, for every pin, an
observed version of the component that satisfies the constraint, and quotes where that version was
read among its evidence.\<close>

theorem findings_stay_within_their_pins:
  assumes "f \<in> set (snd (evaluate_rule q r i))" "p \<in> set (ru_requires r)"
  shows "\<exists>v. mget (version_facts q i) (rq_component p) = Some v \<and> satisfies (cv_version v) (rq_constraint p) \<and>
    version_evidence v \<in> set (fg_evidence f)"
proof -
  obtain pins m where "check_pins (version_facts q i) (ru_requires r) = Inl pins" "f = rule_finding r pins m"
    using assms(1) by (rule rule_findings)
  with check_pins_hold [OF _ assms(2)] show ?thesis by (force simp: rule_finding_def)
qed

section \<open>Naming a pod\<close>

text \<open>The conditions outside the model keep to their class.\<close>

definition keeps_class :: "pod_subject \<Rightarrow> condition_match list \<Rightarrow> bool" where
  "keeps_class p matches \<longleftrightarrow>
     list_all (\<lambda>m. (p = PodSubjectAlways \<longrightarrow> er_kind (cm_subject m) = ''Pod'') \<and>
       (p = PodSubjectNever \<longrightarrow> er_kind (cm_subject m) \<noteq> ''Pod'')) matches"

fun others_keep_class :: "'i \<Rightarrow> string \<Rightarrow> 'i rule_condition \<Rightarrow> bool" where
  "others_keep_class i rule_id (Other c) \<longleftrightarrow> keeps_class (oc_pod c) (fst (oc_evaluate c rule_id i))"
| "others_keep_class i rule_id (AllOf (lead # _)) \<longleftrightarrow> others_keep_class i rule_id lead"
| "others_keep_class i rule_id _ \<longleftrightarrow> True"

lemma held_each_kind:
  assumes "\<And>x h. er_kind (cm_subject (say x h)) = kind" "m \<in> set (fst (held_each held say xs))"
  shows "er_kind (cm_subject m) = kind"
  using assms(2)
proof (induction xs arbitrary: m)
  case (Cons x xs)
  then show ?case using assms(1) by (auto split: prod.splits if_splits)
qed simp

lemmas match_builders =
  no_match_def entity_def on_object_def on_cluster_def cluster_subject_def backups_linked_def objects_linked_def
  store_match_def no_entity_def

lemma event_match_kind:
  assumes "m \<in> set (fst (event_match reasons types contains kinds i))"
  shows "er_kind (cm_subject m) \<in> set (if kinds = [] then [''Cluster'', ''Pod''] else kinds)"
proof -
  have found: "ef_kind e \<in> set (if kinds = [] then [''Cluster'', ''Pod''] else kinds)"
    if "match_events i (event_accepted reasons types contains kinds) es ev newest = ((ev', Some e), u)"
      "\<And>n. newest = Some n \<Longrightarrow> ef_kind n \<in> set (if kinds = [] then [''Cluster'', ''Pod''] else kinds)"
    for es ev newest ev' e u
    using that
  proof (induction es arbitrary: ev newest)
    case (Cons a es)
    then show ?case
      by (auto simp: event_accepted_def Let_def split: if_splits prod.splits option.splits)
  qed simp
  obtain e ev' u where m: "match_events i (event_accepted reasons types contains kinds) (ev_events (di_events i)) [] None =
      ((ev', Some e), u)" and kind: "er_kind (cm_subject m) = ef_kind e"
    using assms by (auto simp: event_match_def match_builders split: if_splits prod.splits option.splits)
  have "ef_kind e \<in> set (if kinds = [] then [''Cluster'', ''Pod''] else kinds)"
    using m by (rule found) simp
  with kind show ?thesis by simp
qed

lemma read_branch_kinds:
  assumes "m \<in> set (fst (all_of (lead # rest)))"
  shows "\<exists>candidate \<in> set (fst lead). cm_subject m = cm_subject candidate"
  using assms by (cases lead) (auto split: if_splits sum.splits option.splits)

text \<open>Every modelled condition, by what its matches are about.\<close>

lemma always_kinds:
  "m \<in> set (fst (log_matches rule_id i)) \<Longrightarrow> er_kind (cm_subject m) = ''Pod''"
  "m \<in> set (fst (container_state q reasons i)) \<Longrightarrow> er_kind (cm_subject m) = ''Pod''"
  "m \<in> set (fst (primary_failing d i)) \<Longrightarrow> er_kind (cm_subject m) = ''Pod''"
  "m \<in> set (fst (primary_lease_expired d i)) \<Longrightarrow> er_kind (cm_subject m) = ''Pod''"
  "m \<in> set (fst (primary_lease_holder_mismatch i)) \<Longrightarrow> er_kind (cm_subject m) = ''Pod''"
  by (auto simp: log_matches_def log_match_def container_state_def container_match_def primary_failing_def
      primary_lease_expired_def lease_released_def lease_unrenewed_def primary_lease_holder_mismatch_def match_builders Let_def
      split: if_splits option.splits)

lemma timeline_kind: "m \<in> set (fst (timeline_divergence d i)) \<Longrightarrow> er_kind (cm_subject m) = ''Pod''"
  by (auto simp: timeline_divergence_def Let_def timeline_match_def match_builders split: if_splits option.splits
      elim: held_each_kind [rotated])

lemma listed_kind:
  "m \<in> set (fst (status_listed l d i)) \<Longrightarrow>
     er_kind (cm_subject m) = (if l = ListFailedInstances then ''Pod'' else ''PersistentVolumeClaim'')"
  by (cases l) (auto simp: status_listed_def match_builders split: if_splits elim: held_each_kind [rotated])

lemma held_once_kind:
  assumes "\<And>h. er_kind (cm_subject (say h)) = kind" "m \<in> set (fst (held_once held say))"
  shows "er_kind (cm_subject m) = kind"
  using assms by (auto simp: held_once_def split: prod.splits if_splits)

lemma never_kinds:
  "m \<in> set (fst (backup_phase any_of d i)) \<Longrightarrow> er_kind (cm_subject m) \<noteq> ''Pod''"
  "m \<in> set (fst (cluster_condition type status reason d i)) \<Longrightarrow> er_kind (cm_subject m) \<noteq> ''Pod''"
  "m \<in> set (fst (cluster_phase any_of i)) \<Longrightarrow> er_kind (cm_subject m) \<noteq> ''Pod''"
  "m \<in> set (fst (primary_mismatch d i)) \<Longrightarrow> er_kind (cm_subject m) \<noteq> ''Pod''"
  "m \<in> set (fst (scheduled_backup_suspended i)) \<Longrightarrow> er_kind (cm_subject m) \<noteq> ''Pod''"
  "m \<in> set (fst (scheduled_backup_overdue d i)) \<Longrightarrow> er_kind (cm_subject m) \<noteq> ''Pod''"
  by (auto simp: backup_phase_def cluster_condition_def cluster_phase_def primary_mismatch_def scheduled_backup_suspended_def
      scheduled_backup_overdue_def overdue_match_def match_builders Let_def split: if_splits option.splits)

lemma never_kinds':
  "m \<in> set (fst (certificate_expiring d i)) \<Longrightarrow> er_kind (cm_subject m) \<noteq> ''Pod''"
  "m \<in> set (fst (role_unreconcilable q i)) \<Longrightarrow> er_kind (cm_subject m) \<noteq> ''Pod''"
  "m \<in> set (fst (tablespace_error q i)) \<Longrightarrow> er_kind (cm_subject m) \<noteq> ''Pod''"
  "m \<in> set (fst (pooler_phase any_of i)) \<Longrightarrow> er_kind (cm_subject m) \<noteq> ''Pod''"
  "m \<in> set (fst (pooler_short i)) \<Longrightarrow> er_kind (cm_subject m) \<noteq> ''Pod''"
  "m \<in> set (fst (quorum_standbys_short i)) \<Longrightarrow> er_kind (cm_subject m) \<noteq> ''Pod''"
  "m \<in> set (fst (repository_state aspect states i)) \<Longrightarrow> er_kind (cm_subject m) \<noteq> ''Pod''"
  "m \<in> set (fst (declared_object_failed q i)) \<Longrightarrow> er_kind (cm_subject m) \<noteq> ''Pod''"
  by (auto simp: certificate_expiring_def certificate_match_def role_unreconcilable_def tablespace_error_def pooler_phase_def
      pooler_short_def pooler_short_match_def quorum_standbys_short_def repository_state_def repository_match_def
      declared_object_failed_def declared_failed_def match_builders Let_def split: if_splits option.splits)

lemma catalog_found_kind:
  assumes "resolve_catalog i = (catalog, CatalogFound, '''')"
  shows "ir_kind (catalog_ref i) \<noteq> ''Pod''"
  using assms by (auto simp: resolve_catalog_def catalog_ref_def split: if_splits option.splits)

lemma never_kinds'':
  "m \<in> set (fst (image_catalog_missing i)) \<Longrightarrow> er_kind (cm_subject m) \<noteq> ''Pod''"
  "m \<in> set (fst (image_catalog_lacks_major i)) \<Longrightarrow> er_kind (cm_subject m) \<noteq> ''Pod''"
  "m \<in> set (fst (store_backup_failed q i)) \<Longrightarrow> er_kind (cm_subject m) \<noteq> ''Pod''"
  "m \<in> set (fst (store_no_backup q d i)) \<Longrightarrow> er_kind (cm_subject m) \<noteq> ''Pod''"
  by (auto simp: image_catalog_missing_def image_catalog_lacks_major_def store_backup_failed_def store_no_backup_def
      match_builders Let_def dest: catalog_found_kind split: if_splits option.splits prod.splits)

lemma held_kinds:
  "m \<in> set (fst (cluster_phase_held any_of d i)) \<Longrightarrow> er_kind (cm_subject m) = ''Cluster''"
  "m \<in> set (fst (replica_switch_stuck d i)) \<Longrightarrow> er_kind (cm_subject m) = ''Cluster''"
  "m \<in> set (fst (instances_short d i)) \<Longrightarrow> er_kind (cm_subject m) = ''Cluster''"
  by (auto simp: cluster_phase_held_def replica_switch_stuck_def instances_short_def Let_def match_builders
      split: if_splits option.splits elim!: held_once_kind [rotated])

lemma class_kept:
  assumes "others_keep_class i rule_id c" "m \<in> set (fst (evaluate q rule_id c i))"
  shows "(pod_subject_of c = PodSubjectAlways \<longrightarrow> er_kind (cm_subject m) = ''Pod'') \<and>
    (pod_subject_of c = PodSubjectNever \<longrightarrow> er_kind (cm_subject m) \<noteq> ''Pod'')"
  using assms
proof (induction c arbitrary: m rule: pod_subject_of.induct)
  case (12 lead rest)
  from 12(3) have "m \<in> set (fst (all_of (evaluate q rule_id lead i # map (\<lambda>c. evaluate q rule_id c i) rest)))"
    by simp
  then obtain candidate where "candidate \<in> set (fst (evaluate q rule_id lead i))"
      "cm_subject m = cm_subject candidate"
    using read_branch_kinds by blast
  with 12(1) [of candidate] 12(2) show ?case by simp
next
  case (9 reasons types contains kinds)
  then have "er_kind (cm_subject m) \<in> set (if kinds = [] then [''Cluster'', ''Pod''] else kinds)"
    by (intro event_match_kind) simp
  then show ?case by (auto split: if_splits)
qed (simp_all add: keeps_class_def list_all_iff always_kinds timeline_kind listed_kind never_kinds never_kinds' never_kinds''
      held_kinds)

text \<open>The class of a condition decides what a pod-scoped relation can do: a rule whose condition never
names a pod is a cause no pod-scoped relation holds for, whatever the effect, and a rule whose
condition always does files each of its findings under a pod.\<close>

theorem pod_scoped_relations_need_a_pod:
  assumes "f \<in> set (snd (evaluate_rule q r i))"
    and "ru_when r = Some c"
    and "others_keep_class i (ru_id r) c"
    and "rn_scope l = ScopePod"
  shows "(pod_subject_of c = PodSubjectNever \<longrightarrow> \<not> fst (relation_holds l effect f)) \<and>
    (pod_subject_of c = PodSubjectAlways \<longrightarrow> er_kind (fg_subject f) = ''Pod'')"
proof -
  obtain pins m where f: "f = rule_finding r pins m" and m: "m \<in> set (fst (evaluate q (ru_id r) c i))"
    using assms(1,2) by (elim rule_findings) auto
  have "er_kind (fg_subject f) = er_kind (cm_subject m)" by (simp add: f rule_finding_def)
  with class_kept [OF assms(3) m] assms(4) show ?thesis
    by (simp add: relation_holds_def Let_def)
qed

section \<open>Corroboration\<close>

lemma read_branches_all:
  assumes "read_branches answers = Inl ms"
  shows "list_all2 (\<lambda>a m. a = (m, '''')) answers ms"
  using assms by (induction answers arbitrary: ms rule: read_branches.induct) (auto split: if_splits sum.splits)

lemma corroborate_picks:
  assumes "corroborate candidate ms = Some evidence"
  shows "\<exists>picks. list_all2 (\<lambda>m p. p \<in> set m \<and> subjects_agree (cm_subject candidate) (cm_subject p)) ms picks \<and>
    evidence = concat (map cm_evidence picks)"
  using assms
proof (induction ms arbitrary: evidence)
  case Nil
  then show ?case by simp
next
  case (Cons m ms)
  then obtain p rest where p: "agreeing_match candidate m = Some p" and rest: "corroborate candidate ms = Some rest"
      and evidence: "evidence = cm_evidence p @ rest"
    by (auto split: option.splits)
  from Cons.IH [OF rest] obtain picks where
      "list_all2 (\<lambda>m p. p \<in> set m \<and> subjects_agree (cm_subject candidate) (cm_subject p)) ms picks"
      "rest = concat (map cm_evidence picks)"
    by blast
  moreover from p have "p \<in> set m \<and> subjects_agree (cm_subject candidate) (cm_subject p)"
    by (auto simp: agreeing_match_def find_Some_iff)
  ultimately show ?case using evidence by (intro exI [of _ "p # picks"]) simp
qed


section \<open>Examples\<close>

definition watch_rule :: "dg_input rule_condition option \<Rightarrow> requirement list \<Rightarrow> dg_input rule" where
  "watch_rule c pins =
     \<lparr>ru_id = ''r'', ru_component = component_cnpg, ru_layer = LayerOperator, ru_requires = pins, ru_pinned = [],
      ru_severity = SeverityWarning, ru_describes = '''', ru_summary = ''s'', ru_detail = '''', ru_when = c, ru_review_by = '''',
      ru_next_steps = '''', ru_consequence_of = [], ru_link = '''', ru_link_label = ''''\<rparr>"

text \<open>A cluster in some phase on PostgreSQL 17, one of whose instances is listed as failed while a container
of another is crashing.\<close>

definition troubled_input :: dg_input where
  "troubled_input =
     (unobserved_input 0)
     \<lparr>di_has_cluster := True,
      di_cluster := observed.extend zero_observed
        \<lparr>cn_cluster = no_facts\<lparr>cf_present := True, cf_phase := ''Failing over'', cf_failed_instances := [''pg-2''],
           cf_postgres_major_version := Some 17\<rparr>\<rparr>,
      di_has_pods := True,
      di_pods := (so_snap new_pod_store)\<lparr>po_pods :=
        [\<lparr>pf_name = ''pg-1'', pf_uid = ''u1'', pf_role = '''', pf_phase = '''', pf_ready = None, pf_restarts = None,
          pf_node = '''', pf_ip = '''', pf_started = None, pf_image = '''', pf_owner_uid = '''', pf_deleting = False,
          pf_containers =
            [\<lparr>ct_name = ''postgres'', ct_image = '''', ct_init = False, ct_ready = None, ct_restarts = None, ct_state = '''',
              ct_reason = ''CrashLoopBackOff'', ct_exit_code = None\<rparr>]\<rparr>]\<rparr>\<rparr>"

lemma clear_rests_on_what_was_read_witness: "source_read FromCluster troubled_input"
proof -
  have "ck_outcome (fst (evaluate_rule id (watch_rule (Some (ClusterPhase [''Healthy''])) []) troubled_input)) = CheckClear"
    by code_simp
  then show ?thesis
    by (rule clear_rests_on_what_was_read [where c = "ClusterPhase [''Healthy'']"]) (simp_all add: watch_rule_def)
qed

definition pinned_rule :: "dg_input rule" where
  "pinned_rule = watch_rule None [\<lparr>rq_component = component_postgresql, rq_constraint = ''>=14 <18''\<rparr>]"

lemma findings_stay_within_their_pins_witness:
  "\<exists>v. mget (version_facts id troubled_input) component_postgresql = Some v \<and> satisfies (cv_version v) ''>=14 <18'' \<and>
     version_evidence v \<in> set (fg_evidence (hd (snd (evaluate_rule id pinned_rule troubled_input))))"
proof -
  let ?p = "\<lparr>rq_component = component_postgresql, rq_constraint = ''>=14 <18''\<rparr>"
  have "snd (evaluate_rule id pinned_rule troubled_input) \<noteq> []" by code_simp
  then have "hd (snd (evaluate_rule id pinned_rule troubled_input)) \<in> set (snd (evaluate_rule id pinned_rule troubled_input))"
    by (rule hd_in_set)
  moreover have "?p \<in> set (ru_requires pinned_rule)" by (simp add: pinned_rule_def watch_rule_def)
  ultimately show ?thesis using findings_stay_within_their_pins [of _ id pinned_rule troubled_input ?p] by simp
qed

lemma pod_scoped_relations_need_a_pod_witness:
  "\<not> fst (relation_holds (established ''r''\<lparr>rn_scope := ScopePod\<rparr>) no_finding
     (hd (snd (evaluate_rule id (watch_rule (Some (ClusterPhase [''Failing over''])) []) troubled_input))))"
proof -
  let ?r = "watch_rule (Some (ClusterPhase [''Failing over''])) []"
  have "snd (evaluate_rule id ?r troubled_input) \<noteq> []" by code_simp
  then have "hd (snd (evaluate_rule id ?r troubled_input)) \<in> set (snd (evaluate_rule id ?r troubled_input))"
    by (rule hd_in_set)
  moreover have "ru_when ?r = Some (ClusterPhase [''Failing over''])" by (simp add: watch_rule_def)
  ultimately show ?thesis
    using pod_scoped_relations_need_a_pod [of _ id ?r troubled_input "ClusterPhase [''Failing over'']"
        "established ''r''\<lparr>rn_scope := ScopePod\<rparr>" no_finding]
    by simp
qed

text \<open>Two branches that agree with a lead about the whole cluster need not agree with each other: the one
finding below quotes the failed pg-2 and the crashing pg-1.\<close>

definition joined_condition :: "dg_input rule_condition" where
  "joined_condition =
     AllOf [ClusterPhase [''Failing over''], StatusListed ListFailedInstances 0, ContainerState [''CrashLoopBackOff'']]"


end
