(* ===== verification/DiagnosePage.thy ===== *)
theory DiagnosePage
  imports DiagnoseIncidents DiagnoseSound
begin

text \<open>
  The rest of the diagnostics page, \<open>internal/web/diagnostics.go\<close>: the input gathered from the published
  snapshots, the line of each layer, the checks grouped by outcome, the state of the cluster and the
  dated observations of an incident.
\<close>

section \<open>The input of a run\<close>

text \<open>
  The sources of the handler the diagnostics read, each absent where it is not wired. Stores answer with
  their snapshot and whether it exists; the log matcher with its observations and its blind windows.
\<close>

record page_sources =
  pg_backups :: "backups_snapshot store option"
  pg_events :: "events_snapshot store option"
  pg_pods :: "pods_snapshot store option"
  pg_cluster :: "cluster_snapshot store option"
  pg_infrastructure :: "infrastructure_snapshot store option"
  pg_kube_version :: "kube_version_snapshot store option"
  pg_quotas :: "quotas_snapshot store option"
  pg_poolers :: "poolers_snapshot store option"
  pg_pooler_pods :: "pods_snapshot store option"
  pg_quorum :: "failover_quorum_snapshot store option"
  pg_lease :: "primary_lease_snapshot store option"
  pg_image_catalogs :: "image_catalogs_snapshot store option"
  pg_database_objects :: "database_objects_snapshot store option"
  pg_evidence :: "evidence_store option"
  pg_logs :: "log_reading option"

definition gather :: "('a \<times> bool \<Rightarrow> 'i \<Rightarrow> 'i) \<Rightarrow> 'a store option \<Rightarrow> 'i \<Rightarrow> 'i" where
  "gather put source i = (case source of None \<Rightarrow> i | Some s \<Rightarrow> put (current s) i)"

definition diagnostics_input :: "page_sources \<Rightarrow> instant \<Rightarrow> dg_input" where
  "diagnostics_input p now =
     (let i = unobserved_input now;
          i = gather (\<lambda>(s, has) i. i\<lparr>di_backups := s, di_has_backups := has\<rparr>) (pg_backups p) i;
          i = gather (\<lambda>(s, has) i. i\<lparr>di_events := s, di_has_events := has\<rparr>) (pg_events p) i;
          i = gather (\<lambda>(s, has) i. i\<lparr>di_pods := s, di_has_pods := has\<rparr>) (pg_pods p) i;
          i = gather (\<lambda>(s, has) i. i\<lparr>di_cluster := s, di_has_cluster := has\<rparr>) (pg_cluster p) i;
          i = gather (\<lambda>(s, has) i. i\<lparr>di_infrastructure := s, di_has_infrastructure := has\<rparr>) (pg_infrastructure p) i;
          i = gather (\<lambda>(s, has) i. i\<lparr>di_kube_version := s, di_has_kube_version := has\<rparr>) (pg_kube_version p) i;
          i = gather (\<lambda>(s, has) i. i\<lparr>di_quotas := s, di_has_quotas := has\<rparr>) (pg_quotas p) i;
          i = gather (\<lambda>(s, has) i. i\<lparr>di_poolers := s, di_has_poolers := has\<rparr>) (pg_poolers p) i;
          i = gather (\<lambda>(s, has) i. i\<lparr>di_pooler_pods := s, di_has_pooler_pods := has\<rparr>) (pg_pooler_pods p) i;
          i = gather (\<lambda>(s, has) i. i\<lparr>di_quorum := s, di_has_quorum := has\<rparr>) (pg_quorum p) i;
          i = gather (\<lambda>(s, has) i. i\<lparr>di_lease := s, di_has_lease := has\<rparr>) (pg_lease p) i;
          i = gather (\<lambda>(s, has) i. i\<lparr>di_image_catalogs := s, di_has_image_catalogs := has\<rparr>) (pg_image_catalogs p) i;
          i = gather (\<lambda>(s, has) i. i\<lparr>di_database_objects := s, di_has_database_objects := has\<rparr>) (pg_database_objects p) i;
          i = (case pg_evidence p of None \<Rightarrow> i
               | Some s \<Rightarrow> i\<lparr>di_evidence := current_evidence s, di_has_evidence := True\<rparr>)
      in i\<lparr>di_logs := pg_logs p\<rparr>)"

section \<open>One line a layer\<close>

record layer_view =
  lv_name :: string
  lv_state :: string
  lv_worst :: string
  lv_matched :: nat
  lv_could_not_run :: nat
  lv_off :: nat
  lv_not_applicable :: nat
  lv_clear :: nat
  lv_summary :: string

definition count_check :: "layer_view \<Rightarrow> check \<Rightarrow> layer_view" where
  "count_check v c =
     (if ck_outcome c = CheckMatched then v\<lparr>lv_matched := lv_matched v + 1\<rparr>
      else if ck_outcome c = CheckUnavailable \<and> ck_source_off c then v\<lparr>lv_off := lv_off v + 1\<rparr>
      else if ck_outcome c = CheckUnavailable then v\<lparr>lv_could_not_run := lv_could_not_run v + 1\<rparr>
      else if ck_outcome c = CheckNotApplicable then v\<lparr>lv_not_applicable := lv_not_applicable v + 1\<rparr>
      else v\<lparr>lv_clear := lv_clear v + 1\<rparr>)"

definition layer_counts :: "check list \<Rightarrow> layer \<Rightarrow> layer_view" where
  "layer_counts checks l =
     foldl count_check
       \<lparr>lv_name = layer_string l, lv_state = '''', lv_worst = '''', lv_matched = 0, lv_could_not_run = 0, lv_off = 0,
        lv_not_applicable = 0, lv_clear = 0, lv_summary = ''''\<rparr>
       (filter (\<lambda>c. ck_layer c = l) checks)"

definition layer_worst :: "result \<Rightarrow> layer \<Rightarrow> severity" where
  "layer_worst r l =
     foldl (\<lambda>worst f. if check_layer (rs_checks r) (fg_check f) = Some l \<and>
                 severity_rank (fg_severity f) > severity_rank worst then fg_severity f else worst)
       SeverityNote (rs_findings r)"

definition count_word :: "nat \<Rightarrow> string \<Rightarrow> string list" where
  "count_word n what = (if n > 0 then [itoa (int n) @ '' '' @ what] else [])"

definition layer_line :: "result \<Rightarrow> layer \<Rightarrow> layer_view" where
  "layer_line r l =
     (let v = layer_counts (rs_checks r) l
      in v\<lparr>lv_state :=
             (if lv_matched v > 0 then (if layer_worst r l = SeverityNote then ''stale'' else ''degraded'')
              else if lv_could_not_run v > 0 then unknown_text
              else if lv_clear v > 0 then ''current'' else ''na''),
           lv_worst := (if lv_matched v > 0 then severity_string (layer_worst r l) else ''''),
           lv_summary := str_join dot
             (count_word (lv_matched v) ''matched'' @ count_word (lv_could_not_run v) ''could not run'' @
              count_word (lv_clear v) ''clear'' @ count_word (lv_off v) ''switched off'' @
              count_word (lv_not_applicable v) ''do not apply'')\<rparr>)"

definition layer_views :: "result \<Rightarrow> layer_view list" where
  "layer_views r =
     map (layer_line r) (filter (\<lambda>l. \<exists>c \<in> set (rs_checks r). ck_layer c = l) layers)"

section \<open>The checks by outcome\<close>

record check_view =
  kv_name :: string
  kv_describes :: string
  kv_outcome :: string
  kv_because :: string
  kv_state :: string

record check_group =
  kg_label :: string
  kg_explain :: string
  kg_state :: string
  kg_open :: bool
  kg_checks :: "check_view list"

type_synonym check_bucket = "check_outcome \<times> bool"

definition bucket_of :: "check \<Rightarrow> check_bucket" where "bucket_of c = (ck_outcome c, ck_source_off c)"

text \<open>The groups in reading order: the bucket, the label, the gloss, the token, and whether it is open.\<close>

definition group_specs :: "(check_bucket \<times> string \<times> string \<times> string \<times> bool) list" where
  "group_specs =
     [((CheckMatched, False), ''matched'', ''these found what they look for'' @ dash @ ''each match is a finding above'',
       ''degraded'', True),
      ((CheckUnavailable, False), ''could not run'',
       ''this deployment asked for their inputs and the console cannot read them'' @ dash @
       ''never observed, not permitted, or contact lost; they rule nothing out'', ''unknown'', True),
      ((CheckUnavailable, True), ''need a source that is switched off'',
       ''nothing is wrong with these: each names an input this deployment has not turned on. '' @
       ''They rule nothing out either, and turning one on is a decision rather than a repair'', ''na'', False),
      ((CheckNotApplicable, False), ''do not apply'',
       ''their version pins exclude the observed versions, so they make no claim here'', ''na'', False),
      ((CheckClear, False), ''clear'',
       ''ran against readable input and found nothing'' @ dash @
       ''which rules out exactly what each row describes, no more'', ''current'', False)]"

definition check_view_of :: "string \<Rightarrow> check \<Rightarrow> check_view" where
  "check_view_of state c =
     \<lparr>kv_name = ck_name c, kv_describes = ck_describes c, kv_outcome = check_outcome_string (ck_outcome c),
      kv_because = bound_message (ck_because c), kv_state = state\<rparr>"

definition check_groups :: "check list \<Rightarrow> check_group list" where
  "check_groups checks =
     concat (map (\<lambda>(bucket, label, explain, state, open).
         (let rows = filter (\<lambda>c. bucket_of c = bucket) checks
          in if rows = [] then []
             else [\<lparr>kg_label = itoa (int (length rows)) @ '' '' @ label, kg_explain = explain, kg_state = state,
                    kg_open = open, kg_checks = map (check_view_of state) rows\<rparr>])) group_specs)"

section \<open>The state of the cluster\<close>

record cluster_state_view =
  sv_observed :: bool
  sv_phase :: string
  sv_phase_reason :: string
  sv_instances :: string
  sv_primary :: string
  sv_state :: string

definition healthy_phase :: string where "healthy_phase = ''Cluster in healthy state''"

definition cluster_state_view_of :: "'z dg_input_scheme \<Rightarrow> cluster_state_view" where
  "cluster_state_view_of i =
     (let c = cn_cluster (di_cluster i)
      in if \<not> di_has_cluster i \<or> \<not> cf_present c
         then \<lparr>sv_observed = False, sv_phase = unknown_text, sv_phase_reason = '''', sv_instances = unknown_text,
               sv_primary = unknown_text, sv_state = unknown_text\<rparr>
         else
           \<lparr>sv_observed = True, sv_phase = or_unknown (cf_phase c), sv_phase_reason = bound_message (cf_phase_reason c),
            sv_instances =
              (case cf_desired_instances c of
                 None \<Rightarrow> unknown_text
               | Some desired \<Rightarrow>
                   itoa (case cf_ready_instances c of None \<Rightarrow> 0 | Some ready \<Rightarrow> ready) @ '' of '' @ itoa desired @ '' ready''),
            sv_primary = or_unknown (cf_current_primary c),
            sv_state = (if cf_phase c = healthy_phase then ''current''
                        else if cf_phase c = '''' then unknown_text else ''degraded'')\<rparr>)"

section \<open>The dated observations of an incident\<close>

definition finding_by_id :: "finding list \<Rightarrow> string \<Rightarrow> finding option" where
  "finding_by_id fs name = List.find (\<lambda>f. fg_id f = name) (rev fs)"

definition dated :: "finding list \<Rightarrow> card \<Rightarrow> sequence_view list" where
  "dated fs c =
     (case finding_by_id fs (fv_id c) of
        None \<Rightarrow> []
      | Some f \<Rightarrow>
          if is_zero (fg_at f) then []
          else [\<lparr>qv_at = stamp_of (Some (fg_at f)), qv_severity = fv_severity c, qv_summary = fv_summary c,
                 qv_origin = (case fg_evidence f of [] \<Rightarrow> ''console-derived'' | e # _ \<Rightarrow> ea_origin e)\<rparr>])"

definition cluster_clocks :: "'z dg_input_scheme \<Rightarrow> sequence_view list" where
  "cluster_clocks i =
     (let c = cn_cluster (di_cluster i);
          clock = (\<lambda>at origin summary. [\<lparr>qv_at = stamp_of (Some at), qv_severity = '''', qv_summary = summary, qv_origin = origin\<rparr>])
      in if \<not> di_has_cluster i \<or> \<not> cf_present c then []
         else
           (if cf_phase c \<noteq> '''' \<and> cf_phase c \<noteq> healthy_phase
            then (case facts_since c (''phase='' @ cf_phase c) of
                    None \<Rightarrow> []
                  | Some since \<Rightarrow>
                      clock since ''console-observed''
                        (''Phase '' @ cf_phase c @ '' first seen (the console'' @ [CHR 0x27] @ ''s clock; a floor)''))
            else []) @
           (case cf_primary_failing_since c of
              None \<Rightarrow> []
            | Some at \<Rightarrow> clock at ''operator-reported'' (''Primary '' @ cf_current_primary c @ '' detected failing'')) @
           (case cf_target_primary_timestamp c of
              None \<Rightarrow> []
            | Some at \<Rightarrow>
                if cf_target_primary c \<noteq> '''' \<and> cf_target_primary c \<noteq> cf_current_primary c
                then clock at ''operator-reported'' (''Primary move to '' @ cf_target_primary c @ '' requested'') else []))"

definition incident_sequence :: "incident_view \<Rightarrow> finding list \<Rightarrow> 'z dg_input_scheme \<Rightarrow> sequence_view list" where
  "incident_sequence v fs i =
     (let entries = concat (map (dated fs) (iv_card v # iv_consequences v));
          all = entries @ cluster_clocks i
      in if entries = [] then []
         else if length all < 2 then []
         else sort_by (\<lambda>a b. str_less (stm_iso (qv_at a)) (stm_iso (qv_at b))) all)"

section \<open>The page\<close>

record diagnostics_view =
  dv_cluster_name :: string
  dv_state :: cluster_state_view
  dv_layers :: "layer_view list"
  dv_findings :: "incident_view list"
  dv_groups :: "check_group list"
  dv_total :: nat

definition build_diagnostics_view :: "string \<Rightarrow> 'z dg_input_scheme \<Rightarrow> result \<Rightarrow> diagnostics_view" where
  "build_diagnostics_view cluster_name i r =
     \<lparr>dv_cluster_name = cluster_name, dv_state = cluster_state_view_of i, dv_layers = layer_views r,
      dv_findings =
        map (\<lambda>v. v\<lparr>iv_sequence := incident_sequence v (rs_findings r) i\<rparr>)
          (group_incidents (rs_findings r) (map (render_finding (rs_checks r)) (rs_findings r))),
      dv_groups = check_groups (rs_checks r), dv_total = length (rs_checks r)\<rparr>"

definition handle_diagnostics ::
  "(string \<Rightarrow> string) \<Rightarrow> dg_input rule list \<Rightarrow> string \<Rightarrow> page_sources \<Rightarrow> instant \<Rightarrow> diagnostics_view" where
  "handle_diagnostics q rules cluster_name p now =
     (let i = diagnostics_input p now in build_diagnostics_view cluster_name i (run q rules i))"

section \<open>Every check is on the page\<close>

lemma run_checks_off:
  assumes "c \<in> set (rs_checks (run q rules i))" "ck_source_off c"
  shows "ck_outcome c = CheckUnavailable"
  using assms
  by (auto simp: run_rows rows_def run_detector_def evaluate_rule_def Let_def split: if_splits prod.splits sum.splits)

lemma run_checks_bucket: "c \<in> set (rs_checks (run q rules i)) \<Longrightarrow> bucket_of c \<in> set (map fst group_specs)"
  using run_checks_off [of c q rules i]
  by (cases "ck_outcome c"; cases "ck_source_off c") (simp_all add: bucket_of_def group_specs_def)

lemma run_buckets: "set (map bucket_of (rs_checks (run q rules i))) \<subseteq> set (map fst group_specs)"
  unfolding set_map by (rule image_subsetI) (rule run_checks_bucket [unfolded set_map])

definition group_state :: "check \<Rightarrow> string" where
  "group_state c =
     (case map_of group_specs (bucket_of c) of None \<Rightarrow> '''' | Some (label, explain, state, open) \<Rightarrow> state)"

lemma distinct_specs: "distinct (map fst group_specs)"
  by code_simp

lemma group_state_spec:
  assumes "(b, label, explain, state, open) \<in> set group_specs" "bucket_of c = b"
  shows "group_state c = state"
  using map_of_is_SomeI [OF distinct_specs assms(1)] assms(2) by (simp add: group_state_def)

lemma concat_concat_map: "concat (map f (concat xss)) = concat (map (\<lambda>xs. concat (map f xs)) xss)"
  by (induction xss) simp_all

lemma check_groups_rows:
  "concat (map kg_checks (check_groups checks)) =
   concat (map (\<lambda>b. map (\<lambda>c. check_view_of (group_state c) c) (filter (\<lambda>c. bucket_of c = b) checks)) (map fst group_specs))"
  unfolding check_groups_def concat_concat_map map_map comp_def
  by (intro arg_cong [where f = concat] map_cong refl) (auto simp: Let_def group_state_spec)

lemma shown_checks:
  "mset (concat (map kg_checks (check_groups (rs_checks (run q rules i))))) =
   mset (map (\<lambda>c. check_view_of (group_state c) c) (rs_checks (run q rules i)))"
proof -
  let ?cs = "rs_checks (run q rules i)"
  let ?view = "\<lambda>c. check_view_of (group_state c) c"
  have "concat (map kg_checks (check_groups ?cs)) =
      map ?view (concat (map (\<lambda>b. filter (\<lambda>c. bucket_of c = b) ?cs) (map fst group_specs)))"
    by (simp only: check_groups_rows map_concat map_map comp_def)
  moreover have "mset (concat (map (\<lambda>b. filter (\<lambda>c. bucket_of c = b) ?cs) (map fst group_specs))) = mset ?cs"
    by (rule partition_mset [OF distinct_specs run_buckets])
  ultimately show ?thesis by (simp only: mset_map)
qed

text \<open>The page hides no check: every detector and every rule of the run is a row of exactly one group,
under its own outcome, and the reason a check could not run is on its row.\<close>

theorem every_check_is_a_row:
  "mset (map (\<lambda>k. (kv_name k, kv_outcome k, kv_because k))
      (concat (map kg_checks (dv_groups (handle_diagnostics q rules cluster_name p now))))) =
   mset (map (\<lambda>c. (ck_name c, check_outcome_string (ck_outcome c), bound_message (ck_because c)))
      (rs_checks (run q rules (diagnostics_input p now))))"
proof -
  let ?cs = "rs_checks (run q rules (diagnostics_input p now))"
  let ?row = "\<lambda>k. (kv_name k, kv_outcome k, kv_because k)"
  have "mset (map ?row (concat (map kg_checks (check_groups ?cs)))) =
      mset (map ?row (map (\<lambda>c. check_view_of (group_state c) c) ?cs))"
    by (simp only: mset_map shown_checks)
  then show ?thesis
    by (simp add: handle_diagnostics_def build_diagnostics_view_def check_view_of_def comp_def Let_def)
qed

section \<open>What a layer's line claims\<close>

lemma finding_filed:
  assumes "f \<in> set (rs_findings (run q rules i))"
  obtains c where "c \<in> set (rs_checks (run q rules i))" "ck_name c = fg_check f" "ck_outcome c = CheckMatched"
proof -
  from assms obtain v where v: "v \<in> set (rows q rules i)" "f \<in> set (snd v)" by (auto simp: run_rows)
  from rows_agree [OF v(1)] v(2) have "ck_outcome (fst v) = CheckMatched" "ck_name (fst v) = fg_check f"
    by (auto simp: row_agrees_def)
  moreover have "fst v \<in> set (rs_checks (run q rules i))" using v(1) by (simp add: run_rows)
  ultimately show ?thesis using that by blast
qed

lemma find_found: "List.find P xs = Some x \<Longrightarrow> x \<in> set xs \<and> P x"
  by (induction xs) (auto split: if_splits)

lemma check_layer_in:
  assumes "check_layer checks name = Some l"
  obtains c where "c \<in> set checks" "ck_name c = name" "ck_layer c = l"
proof -
  from assms obtain c where "List.find (\<lambda>c. ck_name c = name) (rev checks) = Some c" "ck_layer c = l"
    by (auto simp: check_layer_def)
  from find_found [OF this(1)] have "c \<in> set checks" "ck_name c = name" by simp_all
  with \<open>ck_layer c = l\<close> show ?thesis using that by blast
qed

lemma layer_string_inject [simp]: "layer_string a = layer_string b \<longleftrightarrow> a = b"
  by (cases a; cases b) simp_all

lemma count_step:
  "lv_matched (count_check v c) = lv_matched v + (if ck_outcome c = CheckMatched then 1 else 0)"
  "lv_off (count_check v c) = lv_off v + (if ck_outcome c = CheckUnavailable \<and> ck_source_off c then 1 else 0)"
  "lv_could_not_run (count_check v c) =
     lv_could_not_run v + (if ck_outcome c = CheckUnavailable \<and> \<not> ck_source_off c then 1 else 0)"
  "lv_not_applicable (count_check v c) = lv_not_applicable v + (if ck_outcome c = CheckNotApplicable then 1 else 0)"
  "lv_clear (count_check v c) = lv_clear v + (if ck_outcome c = CheckClear then 1 else 0)"
  "lv_name (count_check v c) = lv_name v"
  unfolding count_check_def by (cases "ck_outcome c"; simp)+

lemma counted_checks:
  "lv_matched (foldl count_check v cs) = lv_matched v + length (filter (\<lambda>c. ck_outcome c = CheckMatched) cs)"
  "lv_off (foldl count_check v cs) =
     lv_off v + length (filter (\<lambda>c. ck_outcome c = CheckUnavailable \<and> ck_source_off c) cs)"
  "lv_could_not_run (foldl count_check v cs) =
     lv_could_not_run v + length (filter (\<lambda>c. ck_outcome c = CheckUnavailable \<and> \<not> ck_source_off c) cs)"
  "lv_not_applicable (foldl count_check v cs) =
     lv_not_applicable v + length (filter (\<lambda>c. ck_outcome c = CheckNotApplicable) cs)"
  "lv_clear (foldl count_check v cs) = lv_clear v + length (filter (\<lambda>c. ck_outcome c = CheckClear) cs)"
  "lv_name (foldl count_check v cs) = lv_name v"
  by (induction cs arbitrary: v) (simp_all add: count_step)

lemma counts_total:
  "length (filter (\<lambda>c. ck_outcome c = CheckMatched) cs) +
   length (filter (\<lambda>c. ck_outcome c = CheckUnavailable \<and> \<not> ck_source_off c) cs) +
   length (filter (\<lambda>c. ck_outcome c = CheckUnavailable \<and> ck_source_off c) cs) +
   length (filter (\<lambda>c. ck_outcome c = CheckNotApplicable) cs) +
   length (filter (\<lambda>c. ck_outcome c = CheckClear) cs) = length cs"
proof (induction cs)
  case (Cons c cs)
  then show ?case by (cases "ck_outcome c"; cases "ck_source_off c") simp_all
qed simp

lemma layer_line_current:
  assumes "lv_state (layer_line r l) = ''current''" "c \<in> set (rs_checks r)" "ck_layer c = l"
  shows "ck_outcome c \<noteq> CheckMatched" and "ck_outcome c = CheckUnavailable \<Longrightarrow> ck_source_off c"
  using assms by (auto simp: layer_line_def layer_counts_def counted_checks filter_empty_conv Let_def unknown_text_def
      split: if_splits)

lemma layer_line_clear:
  assumes "lv_state (layer_line r l) = ''current''"
  shows "\<exists>c \<in> set (rs_checks r). ck_layer c = l \<and> ck_outcome c = CheckClear"
  using assms by (auto simp: layer_line_def layer_counts_def counted_checks filter_empty_conv Let_def unknown_text_def
      split: if_splits)

lemma current_layer_has_no_finding:
  assumes "lv_state (layer_line (run q rules i) l) = ''current''" "distinct (map ck_name (rs_checks (run q rules i)))"
    and "f \<in> set (rs_findings (run q rules i))"
  shows "check_layer (rs_checks (run q rules i)) (fg_check f) \<noteq> Some l"
proof
  assume "check_layer (rs_checks (run q rules i)) (fg_check f) = Some l"
  then obtain c where c: "c \<in> set (rs_checks (run q rules i))" "ck_name c = fg_check f" "ck_layer c = l"
    by (rule check_layer_in)
  obtain c' where c': "c' \<in> set (rs_checks (run q rules i))" "ck_name c' = fg_check f" "ck_outcome c' = CheckMatched"
    using assms(3) by (rule finding_filed)
  from assms(2) c(1,2) c'(1,2) have "c = c'" by (simp add: distinct_map inj_on_def)
  with c' layer_line_current(1) [OF assms(1) c(1,3)] show False by simp
qed

text \<open>C27. A layer of the stack reads current only where something in it was ruled out and nothing was left in
doubt: some check of it came back clear, none matched, none that this deployment asked for could not
run, and no finding of the run is of that layer. Its five counts add up to its checks.\<close>

theorem current_layer_is_ruled_out:
  assumes "distinct (map ck_name (rs_checks (run q rules i)))"
    and "v \<in> set (layer_views (run q rules i))"
    and "lv_state v = ''current''"
  shows "\<exists>l. lv_name v = layer_string l \<and>
    (\<exists>c \<in> set (rs_checks (run q rules i)). ck_layer c = l \<and> ck_outcome c = CheckClear) \<and>
    (\<forall>c \<in> set (rs_checks (run q rules i)). ck_layer c = l \<longrightarrow>
       ck_outcome c \<noteq> CheckMatched \<and> (ck_outcome c = CheckUnavailable \<longrightarrow> ck_source_off c)) \<and>
    (\<forall>f \<in> set (rs_findings (run q rules i)). check_layer (rs_checks (run q rules i)) (fg_check f) \<noteq> Some l) \<and>
    lv_matched v + lv_could_not_run v + lv_off v + lv_not_applicable v + lv_clear v =
      length (filter (\<lambda>c. ck_layer c = l) (rs_checks (run q rules i)))"
proof -
  from assms(2) obtain l where v: "v = layer_line (run q rules i) l" by (auto simp: layer_views_def)
  note current = assms(3) [unfolded v]
  have "lv_name v = layer_string l \<and>
      lv_matched v + lv_could_not_run v + lv_off v + lv_not_applicable v + lv_clear v =
      length (filter (\<lambda>c. ck_layer c = l) (rs_checks (run q rules i)))"
    using counts_total [of "filter (\<lambda>c. ck_layer c = l) (rs_checks (run q rules i))"]
    by (simp add: v layer_line_def layer_counts_def counted_checks Let_def)
  then show ?thesis
    using layer_line_clear [OF current] layer_line_current [OF current]
      current_layer_has_no_finding [OF current assms(1)] by blast
qed

section \<open>From the collectors to the page\<close>

context feed_contract
begin

text \<open>A loop that is not following has published nothing yet, or what it published is marked.\<close>

lemma blind_run:
  assumes "loop_run f (new_loop s) acts l" "\<not> so_has (fd_store f s)" "og_generation (so_snap (fd_store f s)) = 0"
    and "lo_phase l \<in> {AtTop, Seeding, Waiting}"
  shows "\<not> so_has (fd_store f (lo_feed l)) \<or> og_stale (so_snap (fd_store f (lo_feed l)))"
  using accounted_run [OF assms(1-3)] idle_run [OF assms(1,4)] by (auto simp: accounted_def Let_def)

end

definition not_followed :: "('q, 'c, 'e, 's, 'd) feed \<Rightarrow> 'd observed_scheme store option \<Rightarrow> bool" where
  "not_followed f source \<longleftrightarrow>
     source = None \<or>
     (\<exists>s acts l. \<not> so_has (fd_store f s) \<and> og_generation (so_snap (fd_store f s)) = 0 \<and>
        loop_run f (new_loop s) acts l \<and> lo_phase l \<in> {AtTop, Seeding, Waiting} \<and> source = Some (fd_store f (lo_feed l)))"

text \<open>
  The source is not wired, or what is wired is the store of a collector that, somewhere in its loop, is
  not following the API server; of the evidence, of a poller whose last poll failed; of the logs, no
  matcher or no current roster to judge it by. The pooler pods are optional, so theirs must exist.
\<close>

fun unfollowed :: "source \<Rightarrow> page_sources \<Rightarrow> bool" where
  "unfollowed FromLogs p \<longleftrightarrow> pg_logs p = None \<or> not_followed pod_feed (pg_pods p)"
| "unfollowed FromEvents p \<longleftrightarrow> not_followed event_feed (pg_events p)"
| "unfollowed FromBackups p \<longleftrightarrow> not_followed backup_feed (pg_backups p)"
| "unfollowed FromCluster p \<longleftrightarrow> not_followed cluster_feed (pg_cluster p)"
| "unfollowed FromPods p \<longleftrightarrow> not_followed pod_feed (pg_pods p)"
| "unfollowed FromPoolerPods p \<longleftrightarrow>
     not_followed pooler_pod_feed (pg_pooler_pods p) \<and> (\<exists>s. pg_pooler_pods p = Some s \<and> so_has s)"
| "unfollowed FromDatabaseObjects p \<longleftrightarrow> not_followed database_objects_feed (pg_database_objects p)"
| "unfollowed FromPoolers p \<longleftrightarrow> not_followed pooler_feed (pg_poolers p)"
| "unfollowed FromLease p \<longleftrightarrow> not_followed primary_lease_feed (pg_lease p)"
| "unfollowed FromQuorum p \<longleftrightarrow> not_followed failover_quorum_feed (pg_quorum p)"
| "unfollowed FromEvidence p \<longleftrightarrow>
     pg_evidence p = None \<or>
     (\<exists>(f :: (nat \<Rightarrow> string \<Rightarrow> http_answer) fetcher) acts pl.
        poll_run f acts pl \<and> lost_contact None acts \<noteq> None \<and> pg_evidence p = Some (pl_store pl))"

text \<open>A field passes through the sources it is not of.\<close>

lemma gather_field:
  "(\<And>v i. sel (put v i) = sel i) \<Longrightarrow> sel (gather put source i) = sel i"
  "(\<And>v i. sel (put v i) = pick v) \<Longrightarrow>
     sel (gather put source i) = (case source of None \<Rightarrow> sel i | Some s \<Rightarrow> pick (current s))"
  by (simp_all add: gather_def split: option.splits)

lemmas gather_fields =
  gather_field(1) [where sel = di_has_backups]
  gather_field(1) [where sel = di_backups]
  gather_field(1) [where sel = di_has_events]
  gather_field(1) [where sel = di_events]
  gather_field(1) [where sel = di_has_pods]
  gather_field(1) [where sel = di_pods]
  gather_field(1) [where sel = di_has_cluster]
  gather_field(1) [where sel = di_cluster]
  gather_field(1) [where sel = di_has_poolers]
  gather_field(1) [where sel = di_poolers]
  gather_field(1) [where sel = di_has_pooler_pods]
  gather_field(1) [where sel = di_pooler_pods]
  gather_field(1) [where sel = di_has_quorum]
  gather_field(1) [where sel = di_quorum]
  gather_field(1) [where sel = di_has_lease]
  gather_field(1) [where sel = di_lease]
  gather_field(1) [where sel = di_has_database_objects]
  gather_field(1) [where sel = di_database_objects]
  gather_field(1) [where sel = di_has_evidence]
  gather_field(1) [where sel = di_evidence]
  gather_field(2) [where sel = di_has_backups and pick = snd] gather_field(2) [where sel = di_backups and pick = fst]
  gather_field(2) [where sel = di_has_events and pick = snd] gather_field(2) [where sel = di_events and pick = fst]
  gather_field(2) [where sel = di_has_pods and pick = snd] gather_field(2) [where sel = di_pods and pick = fst]
  gather_field(2) [where sel = di_has_cluster and pick = snd] gather_field(2) [where sel = di_cluster and pick = fst]
  gather_field(2) [where sel = di_has_poolers and pick = snd] gather_field(2) [where sel = di_poolers and pick = fst]
  gather_field(2) [where sel = di_has_pooler_pods and pick = snd] gather_field(2) [where sel = di_pooler_pods and pick = fst]
  gather_field(2) [where sel = di_has_quorum and pick = snd] gather_field(2) [where sel = di_quorum and pick = fst]
  gather_field(2) [where sel = di_has_lease and pick = snd] gather_field(2) [where sel = di_lease and pick = fst]
  gather_field(2) [where sel = di_has_database_objects and pick = snd] gather_field(2) [where sel = di_database_objects and pick = fst]

lemma unobserved_flags:
  "\<not> di_has_backups (unobserved_input now)"
  "\<not> di_has_events (unobserved_input now)"
  "\<not> di_has_pods (unobserved_input now)"
  "\<not> di_has_cluster (unobserved_input now)"
  "\<not> di_has_poolers (unobserved_input now)"
  "\<not> di_has_pooler_pods (unobserved_input now)"
  "\<not> di_has_quorum (unobserved_input now)"
  "\<not> di_has_lease (unobserved_input now)"
  "\<not> di_has_database_objects (unobserved_input now)"
  "\<not> di_has_evidence (unobserved_input now)"
  by (simp_all add: unobserved_input_def)

lemma gathered [simp]:
  "di_has_events (diagnostics_input p now) = (case pg_events p of None \<Rightarrow> False | Some s \<Rightarrow> so_has s)"
  "pg_events p = Some s1 \<Longrightarrow> di_events (diagnostics_input p now) = so_snap s1"
  "di_has_backups (diagnostics_input p now) = (case pg_backups p of None \<Rightarrow> False | Some s \<Rightarrow> so_has s)"
  "pg_backups p = Some s2 \<Longrightarrow> di_backups (diagnostics_input p now) = so_snap s2"
  "di_has_cluster (diagnostics_input p now) = (case pg_cluster p of None \<Rightarrow> False | Some s \<Rightarrow> so_has s)"
  "pg_cluster p = Some s3 \<Longrightarrow> di_cluster (diagnostics_input p now) = so_snap s3"
  "di_has_pods (diagnostics_input p now) = (case pg_pods p of None \<Rightarrow> False | Some s \<Rightarrow> so_has s)"
  "pg_pods p = Some s4 \<Longrightarrow> di_pods (diagnostics_input p now) = so_snap s4"
  "di_has_pooler_pods (diagnostics_input p now) = (case pg_pooler_pods p of None \<Rightarrow> False | Some s \<Rightarrow> so_has s)"
  "pg_pooler_pods p = Some s5 \<Longrightarrow> di_pooler_pods (diagnostics_input p now) = so_snap s5"
  "di_has_database_objects (diagnostics_input p now) = (case pg_database_objects p of None \<Rightarrow> False | Some s \<Rightarrow> so_has s)"
  "pg_database_objects p = Some s6 \<Longrightarrow> di_database_objects (diagnostics_input p now) = so_snap s6"
  "di_has_poolers (diagnostics_input p now) = (case pg_poolers p of None \<Rightarrow> False | Some s \<Rightarrow> so_has s)"
  "pg_poolers p = Some s7 \<Longrightarrow> di_poolers (diagnostics_input p now) = so_snap s7"
  "di_has_lease (diagnostics_input p now) = (case pg_lease p of None \<Rightarrow> False | Some s \<Rightarrow> so_has s)"
  "pg_lease p = Some s8 \<Longrightarrow> di_lease (diagnostics_input p now) = so_snap s8"
  "di_has_quorum (diagnostics_input p now) = (case pg_quorum p of None \<Rightarrow> False | Some s \<Rightarrow> so_has s)"
  "pg_quorum p = Some s9 \<Longrightarrow> di_quorum (diagnostics_input p now) = so_snap s9"
  "di_has_evidence (diagnostics_input p now) \<longleftrightarrow> pg_evidence p \<noteq> None"
  "pg_evidence p = Some s10 \<Longrightarrow> di_evidence (diagnostics_input p now) = current_evidence s10"
  "di_logs (diagnostics_input p now) = pg_logs p"
  by (simp_all add: diagnostics_input_def gather_fields unobserved_flags current_def split_beta Let_def split: option.splits)

text \<open>What is not followed is not read: nothing was published, or the mark is on it.\<close>

lemma blind_source:
  assumes "feed_contract f" "not_followed f source" "source = Some s"
  shows "\<not> so_has s \<or> og_stale (so_snap s)"
  using assms feed_contract.blind_run [OF assms(1)] by (auto simp: not_followed_def)

lemmas blind_sources =
  blind_source [OF events.feed_contract_axioms] blind_source [OF backups.feed_contract_axioms]
  blind_source [OF cluster.feed_contract_axioms] blind_source [OF pods.feed_contract_axioms]
  blind_source [OF pooler_pods.feed_contract_axioms] blind_source [OF database_objects.feed_contract_axioms]
  blind_source [OF poolers.feed_contract_axioms] blind_source [OF primary_lease.feed_contract_axioms]
  blind_source [OF failover_quorum.feed_contract_axioms]

lemma blind_evidence:
  assumes "poll_run f acts pl" "lost_contact None acts \<noteq> None"
  shows "\<not> ev_has_report (current_evidence (pl_store pl)) \<or> eg_stale (ev_snapshot (current_evidence (pl_store pl)))"
  using status_ok_run [OF assms(1)] assms(2) by (auto simp: status_ok_def current_evidence_def)

lemma unfollowed_unread: "unfollowed s p \<Longrightarrow> \<not> source_read s (diagnostics_input p now)"
proof (cases s)
  case FromLogs
  assume "unfollowed s p"
  with FromLogs show ?thesis
    by (cases "pg_pods p") (auto split: option.splits dest: blind_sources(4))
next
  case FromPoolerPods
  assume "unfollowed s p"
  with FromPoolerPods show ?thesis by (auto dest: blind_sources(5))
next
  case FromEvidence
  assume "unfollowed s p"
  with FromEvidence show ?thesis by (auto dest: blind_evidence)
next
  case FromEvents
  assume "unfollowed s p"
  with FromEvents show ?thesis by (cases "pg_events p") (auto dest: blind_sources(1))
next
  case FromBackups
  assume "unfollowed s p"
  with FromBackups show ?thesis by (cases "pg_backups p") (auto dest: blind_sources(2))
next
  case FromCluster
  assume "unfollowed s p"
  with FromCluster show ?thesis by (cases "pg_cluster p") (auto dest: blind_sources(3))
next
  case FromPods
  assume "unfollowed s p"
  with FromPods show ?thesis by (cases "pg_pods p") (auto dest: blind_sources(4))
next
  case FromDatabaseObjects
  assume "unfollowed s p"
  with FromDatabaseObjects show ?thesis by (cases "pg_database_objects p") (auto dest: blind_sources(6))
next
  case FromPoolers
  assume "unfollowed s p"
  with FromPoolers show ?thesis by (cases "pg_poolers p") (auto dest: blind_sources(7))
next
  case FromLease
  assume "unfollowed s p"
  with FromLease show ?thesis by (cases "pg_lease p") (auto dest: blind_sources(8))
next
  case FromQuorum
  assume "unfollowed s p"
  with FromQuorum show ?thesis by (cases "pg_quorum p") (auto dest: blind_sources(9))
qed


section \<open>Examples\<close>

text \<open>A console that has just started: the cluster collector is at the head of its loop, nothing else is wired.\<close>

definition started_page :: page_sources where
  "started_page =
     \<lparr>pg_backups = None, pg_events = None, pg_pods = None,
      pg_cluster = Some (fd_store cluster_feed (lo_feed (new_loop new_cluster_collector :: (unit, cluster_state, cluster_collector) loop_state))),
      pg_infrastructure = None, pg_kube_version = None, pg_quotas = None, pg_poolers = None, pg_pooler_pods = None,
      pg_quorum = None, pg_lease = None, pg_image_catalogs = None, pg_database_objects = None, pg_evidence = None,
      pg_logs = None\<rparr>"

definition phase_rules :: "dg_input rule list" where
  "phase_rules = [watch_rule (Some (ClusterPhase [''Failing over''])) []]"

lemma started_page_unfollowed: "unfollowed FromCluster started_page"
proof -
  have "loop_run cluster_feed (new_loop new_cluster_collector) [] (new_loop new_cluster_collector)" by (rule no_steps)
  moreover have "\<not> so_has (fd_store cluster_feed new_cluster_collector)"
      "og_generation (so_snap (fd_store cluster_feed new_cluster_collector)) = 0"
    by (simp_all add: cluster_feed_def new_cluster_collector_def new_cluster_store_def)
  moreover have "lo_phase (new_loop new_cluster_collector :: (unit, cluster_state, cluster_collector) loop_state) = AtTop"
    by (simp add: new_loop_def)
  ultimately show ?thesis
    by (simp add: started_page_def not_followed_def) blast
qed

definition phase_row :: check_view where
  "phase_row =
     hd (filter (\<lambda>k. kv_name k = ''r'')
       (concat (map kg_checks (dv_groups (handle_diagnostics id phase_rules ''pg'' started_page 0)))))"


lemma current_layer_is_ruled_out_witness:
  "\<exists>l. layer_string l = ''Operator'' \<and>
     (\<exists>c \<in> set (rs_checks (run id [watch_rule (Some (ClusterPhase [''Healthy''])) []] troubled_input)).
        ck_layer c = l \<and> ck_outcome c = CheckClear)"
proof -
  let ?r = "run id [watch_rule (Some (ClusterPhase [''Healthy''])) []] troubled_input"
  have names: "distinct (map ck_name (rs_checks ?r))" by code_simp
  have "filter (\<lambda>v. lv_name v = ''Operator'' \<and> lv_state v = ''current'') (layer_views ?r) \<noteq> []" by code_simp
  then obtain v where v: "v \<in> set (layer_views ?r)" "lv_name v = ''Operator''" "lv_state v = ''current''"
    by (auto simp: filter_empty_conv)
  from current_layer_is_ruled_out [OF names v(1,3)] v(2) show ?thesis by metis
qed

end
