(* ===== verification/Scrape.thy ===== *)
theory Scrape
  imports Metrics ObservePods Redact GoDuration
begin

text \<open>
  The metrics scraper, \<open>internal/scrape/scrape.go\<close>: the parser of the exposition format, which folds a
  response into the entries of a catalog, and the sweep over the roster of running instances into the
  metrics window. The transport is an answer per address; \<open>strconv.ParseFloat\<close> is a parameter, with
  what it makes of a text that is no finite number as \<open>None\<close>.
\<close>

section \<open>The catalog as the parser reads it\<close>

datatype aggregate = Sum | Max

record scrape_def =
  cd_key :: string
  cd_aggregate :: aggregate
  cd_match :: "(string, string) gomap"
  cd_names :: "string list"

record scrape_catalog =
  sg_series :: "scrape_def list"
  sg_instants :: "scrape_def list"

record scrape_target =
  tg_key :: string
  tg_aggregate :: aggregate
  tg_match :: "(string, string) gomap"
  tg_instant :: bool

type_synonym target_index = "(string, scrape_target list) gomap \<times> (string, bool) gomap"

definition add_target :: "string \<Rightarrow> scrape_target \<Rightarrow> target_index \<Rightarrow> target_index" where
  "add_target name t ix =
     (case ix of (by_name, needs_labels) \<Rightarrow>
        (mput name ((case mget by_name name of None \<Rightarrow> [] | Some ts \<Rightarrow> ts) @ [t]) by_name,
         if tg_match t \<noteq> [] then mput name True needs_labels else needs_labels))"

definition def_targets :: "bool \<Rightarrow> scrape_def \<Rightarrow> (string \<times> scrape_target) list" where
  "def_targets inst d =
     map (\<lambda>name. (name, \<lparr>tg_key = cd_key d, tg_aggregate = cd_aggregate d, tg_match = cd_match d, tg_instant = inst\<rparr>)) (cd_names d)"

definition catalog_targets :: "scrape_catalog \<Rightarrow> (string \<times> scrape_target) list" where
  "catalog_targets c =
     concat (map (def_targets False) (sg_series c)) @ concat (map (def_targets True) (sg_instants c))"

definition targets :: "scrape_catalog \<Rightarrow> target_index" where
  "targets c = fold (\<lambda>(name, t). add_target name t) (catalog_targets c) ([], [])"

section \<open>Lines and labels\<close>

definition max_body :: int where "max_body = 2097152"
definition max_line :: int where "max_line = 262144"

text \<open>The scanner: lines without their end, and whether one did not fit its buffer.\<close>

definition strip_cr :: "string \<Rightarrow> string" where
  "strip_cr line = (if line \<noteq> [] \<and> last line = CHR 0x0D then butlast line else line)"

fun read_lines :: "string list \<Rightarrow> string list \<times> bool" where
  "read_lines [] = ([], False)"
| "read_lines [rest] = (if rest = [] then ([], False) else if int (length rest) \<ge> max_line then ([], True) else ([strip_cr rest], False))"
| "read_lines (line # later) =
     (if int (length line) \<ge> max_line then ([], True)
      else (case read_lines later of (lines, long) \<Rightarrow> (strip_cr line # lines, long)))"

definition scan_lines :: "string \<Rightarrow> string list \<times> bool" where
  "scan_lines body = read_lines (split_on (CHR 0x0A) body)"

text \<open>A quoted value: what it says, and what follows its closing quote.\<close>

fun quoted_value :: "string \<Rightarrow> (string \<times> string) option" where
  "quoted_value [] = None"
| "quoted_value (c # s) =
     (if c = CHR 0x22 then Some ([], s)
      else if c = CHR 0x5C then
        (case s of
           [] \<Rightarrow> None
         | d # s' \<Rightarrow> map_option (\<lambda>(v, r). ((if d = CHR ''n'' then CHR 0x0A else d) # v, r)) (quoted_value s'))
      else map_option (\<lambda>(v, r). (c # v, r)) (quoted_value s))"

lemma quoted_value_shorter: "quoted_value s = Some (v, r) \<Longrightarrow> length r < length s"
  by (induction s arbitrary: v r rule: quoted_value.induct) (force split: if_splits list.splits)+

definition label_separator :: "char \<Rightarrow> bool" where "label_separator c \<longleftrightarrow> c = CHR '','' \<or> c = CHR '' ''"

function lookup_label :: "string \<Rightarrow> string \<Rightarrow> string option" where
  "lookup_label labels want =
     (let s = dropWhile label_separator labels;
          name = trim_space (takeWhile (\<lambda>c. c \<noteq> CHR ''='') s)
      in (case dropWhile (\<lambda>c. c \<noteq> CHR ''='') s of
            eq # quote # rest \<Rightarrow>
              if quote \<noteq> CHR 0x22 then None
              else (case quoted_value rest of
                      None \<Rightarrow> None
                    | Some (v, rest') \<Rightarrow> if name = want then Some v else lookup_label rest' want)
          | _ \<Rightarrow> None))"
  by pat_completeness auto
termination
proof (relation "measure (\<lambda>(labels, want). length labels)", goal_cases)
  case (2 labels want s name eq list quote rest p v rest')
  from 2 have "length rest' < length rest" by (auto dest: quoted_value_shorter)
  moreover from 2 have "length rest < length (dropWhile (\<lambda>c. c \<noteq> CHR ''='') s)" by (metis length_Cons less_Suc_eq not_less_eq)
  moreover have "length (dropWhile (\<lambda>c. c \<noteq> CHR ''='') s) \<le> length labels"
    unfolding 2 by (meson le_trans length_dropWhile_le)
  ultimately show ?case by simp
qed simp

declare lookup_label.simps [simp del]

definition labels_match :: "string \<Rightarrow> (string, string) gomap \<Rightarrow> bool" where
  "labels_match labels m \<longleftrightarrow> list_all (\<lambda>(name, want). lookup_label labels name = Some want) m"

definition parse_line :: "(string \<Rightarrow> 'v option) \<Rightarrow> string \<Rightarrow> (string \<times> string \<times> 'v) option" where
  "parse_line pf line =
     (let split =
        (case index_byte line (CHR ''{'') of
           Some brace \<Rightarrow>
             (case last_index line (CHR ''}'') of
                None \<Rightarrow> None
              | Some end_at \<Rightarrow>
                  if end_at < brace then None
                  else Some (take brace line, take (end_at - (brace + 1)) (drop (brace + 1) line), trim_space (drop (end_at + 1) line)))
         | None \<Rightarrow>
             (case str_fields line of
                name # v # vs \<Rightarrow> Some (name, [], str_join '' '' (v # vs))
              | _ \<Rightarrow> None))
      in (case split of
            None \<Rightarrow> None
          | Some (name, labels, rest) \<Rightarrow>
              (case str_fields rest of
                 [] \<Rightarrow> None
               | word # _ \<Rightarrow> map_option (\<lambda>v. (name, labels, v)) (pf word))))"

section \<open>Folding a response into the catalog\<close>

type_synonym 'v folded = "(string, (string, 'v) gomap) gomap"

text \<open>An accumulator exists exactly when it has seen a value.\<close>

definition fold_value :: "'v float_ops \<Rightarrow> aggregate \<Rightarrow> 'v \<Rightarrow> 'v option \<Rightarrow> 'v" where
  "fold_value fl agg value acc =
     (case acc of
        None \<Rightarrow> value
      | Some a \<Rightarrow> if agg = Max then (if fl_less fl a value then value else a) else fl_add fl a value)"

definition fold_target :: "'v float_ops \<Rightarrow> string \<Rightarrow> string \<Rightarrow> 'v \<Rightarrow> scrape_target \<Rightarrow> 'v folded \<Rightarrow> 'v folded" where
  "fold_target fl name labels value t folded =
     (if \<not> labels_match labels (tg_match t) then folded
      else
        (let per_name = (case mget folded (tg_key t) of None \<Rightarrow> [] | Some m \<Rightarrow> m)
         in mput (tg_key t) (mput name (fold_value fl (tg_aggregate t) value (mget per_name name)) per_name) folded))"

definition fold_line :: "'v float_ops \<Rightarrow> (string \<Rightarrow> 'v option) \<Rightarrow> target_index \<Rightarrow> string \<Rightarrow> 'v folded \<Rightarrow> 'v folded" where
  "fold_line fl pf ix raw folded =
     (let line = trim_space raw
      in if line = [] \<or> has_prefix line ''#'' then folded
         else
           (case parse_line pf line of
              None \<Rightarrow> folded
            | Some (name, labels, value) \<Rightarrow>
                (case mget (fst ix) name of
                   None \<Rightarrow> folded
                 | Some wanted \<Rightarrow>
                     (let labels' = (if mget (snd ix) name = None then [] else labels)
                      in fold (fold_target fl name labels' value) wanted folded))))"

definition resolve_key :: "'v folded \<Rightarrow> string \<Rightarrow> string list \<Rightarrow> 'v option" where
  "resolve_key folded key names =
     (case mget folded key of
        None \<Rightarrow> None
      | Some per_name \<Rightarrow>
          (case find (\<lambda>n. mget per_name n \<noteq> None) names of None \<Rightarrow> None | Some n \<Rightarrow> mget per_name n))"

definition resolve_defs :: "'v folded \<Rightarrow> scrape_def list \<Rightarrow> (string, 'v) gomap" where
  "resolve_defs folded defs =
     fold (\<lambda>d values. case resolve_key folded (cd_key d) (cd_names d) of None \<Rightarrow> values | Some v \<Rightarrow> mput (cd_key d) v values) defs []"

text \<open>A body as the reader delivers it, and whether reading it ends in an error.\<close>

definition parse_catalog ::
  "'v float_ops \<Rightarrow> (string \<Rightarrow> 'v option) \<Rightarrow> scrape_catalog \<Rightarrow> string \<Rightarrow> bool \<Rightarrow>
     go_error + ((string, 'v) gomap \<times> (string, 'v) gomap)" where
  "parse_catalog fl pf c body broken =
     (case scan_lines body of
        (lines, too_long) \<Rightarrow>
          (let folded = fold (fold_line fl pf (targets c)) lines []
           in if too_long \<or> broken then Inl (new_error ''metrics parse'' CategoryInternal None)
              else Inr (resolve_defs folded (sg_series c), resolve_defs folded (sg_instants c))))"

section \<open>The sweep\<close>

definition instance_port :: string where "instance_port = ''9187''"
definition pooler_port :: string where "pooler_port = ''9127''"

datatype scrape_answer =
    BadRequest
  | Unanswered
  | Responded int string bool

record scrape_line =
  sl_recovered :: bool
  sl_instance :: string
  sl_category :: string

record 'v scraper =
  sq_catalog :: scrape_catalog
  sq_store :: "'v metric_store"
  sq_failing :: "(string, bool) gomap"
  sq_log :: "scrape_line list"

text \<open>\<open>io.LimitReader\<close>.\<close>

definition limit_reader :: "int \<Rightarrow> string \<Rightarrow> string" where
  "limit_reader n body = (if int (length body) \<le> n then body else take (nat n) body)"

definition scrape_one ::
  "'v float_ops \<Rightarrow> (string \<Rightarrow> 'v option) \<Rightarrow> scrape_catalog \<Rightarrow> scrape_answer \<Rightarrow>
     go_error + ((string, 'v) gomap \<times> (string, 'v) gomap)" where
  "scrape_one fl pf c answer =
     (case answer of
        BadRequest \<Rightarrow> Inl (new_error ''metrics scrape'' CategoryInternal None)
      | Unanswered \<Rightarrow> Inl (new_error ''metrics scrape'' CategoryUnavailable None)
      | Responded code body broken \<Rightarrow>
          if code \<noteq> 200 then Inl (new_error ''metrics scrape'' CategoryUnavailable None)
          else parse_catalog fl pf c (limit_reader max_body body) (broken \<and> int (length body) < max_body))"

definition scrape_pod ::
  "'v float_ops \<Rightarrow> (string \<Rightarrow> 'v option) \<Rightarrow> (string \<Rightarrow> scrape_answer) \<Rightarrow> instant \<Rightarrow> pod_facts \<Rightarrow> 'v scraper \<Rightarrow> 'v scraper" where
  "scrape_pod fl pf answers at pod s =
     (if pf_ip pod = [] \<or> pf_deleting pod then s
      else
        (case scrape_one fl pf (sq_catalog s) (answers (pf_ip pod)) of
           Inl err \<Rightarrow>
             if mget (sq_failing s) (pf_name pod) = None
             then s\<lparr>sq_failing := mput (pf_name pod) True (sq_failing s),
                    sq_log := sq_log s @ [\<lparr>sl_recovered = False, sl_instance = pf_name pod, sl_category = safe (Some err)\<rparr>]\<rparr>
             else s
         | Inr (values, instants) \<Rightarrow>
             (let s1 =
                (if mget (sq_failing s) (pf_name pod) \<noteq> None
                 then s\<lparr>sq_failing := mdel (pf_name pod) (sq_failing s),
                        sq_log := sq_log s @ [\<lparr>sl_recovered = True, sl_instance = pf_name pod, sl_category = []\<rparr>]\<rparr>
                 else s)
              in s1\<lparr>sq_store := metrics_observe fl (pf_name pod) at values instants (sq_store s1)\<rparr>)))"

definition sweep_roster ::
  "'v float_ops \<Rightarrow> (string \<Rightarrow> 'v option) \<Rightarrow> pods_snapshot store \<Rightarrow> (string \<Rightarrow> scrape_answer) \<Rightarrow> instant \<Rightarrow> 'v scraper \<Rightarrow> 'v scraper" where
  "sweep_roster fl pf source answers at s =
     (case current source of
        (snap, has) \<Rightarrow> if \<not> has then s else fold (scrape_pod fl pf answers at) (po_pods snap) s)"

section \<open>What a sweep reads\<close>

text \<open>The samples of a response: name, label block and value of each line that is one.\<close>

definition line_sample :: "(string \<Rightarrow> 'v option) \<Rightarrow> string \<Rightarrow> (string \<times> string \<times> 'v) option" where
  "line_sample pf raw =
     (let line = trim_space raw in if line = [] \<or> has_prefix line ''#'' then None else parse_line pf line)"

definition samples :: "(string \<Rightarrow> 'v option) \<Rightarrow> string \<Rightarrow> (string \<times> string \<times> 'v) list" where
  "samples pf body = List.map_filter (line_sample pf) (fst (scan_lines body))"

definition look :: "(string, 'a list) gomap \<Rightarrow> string \<Rightarrow> 'a list" where
  "look m name = (case mget m name of None \<Rightarrow> [] | Some ts \<Rightarrow> ts)"

lemma look_targets_from:
  "look (fst (fold (\<lambda>(name, t). add_target name t) ps ix)) name = look (fst ix) name @ map snd (filter (\<lambda>p. fst p = name) ps)"
  by (induction ps arbitrary: ix) (auto simp: add_target_def look_def split: prod.splits option.splits)

lemma look_targets: "look (fst (targets c)) name = map snd (filter (\<lambda>p. fst p = name) (catalog_targets c))"
  by (simp add: targets_def look_targets_from) (simp add: look_def mget_def)

lemma needs_labels_from:
  "mget (snd (fold (\<lambda>(name, t). add_target name t) ps ix)) name = None \<longleftrightarrow>
     mget (snd ix) name = None \<and> (\<forall>p \<in> set ps. fst p = name \<longrightarrow> tg_match (snd p) = [])"
  by (induction ps arbitrary: ix) (auto simp: add_target_def split: prod.splits option.splits)

lemma needs_labels:
  assumes "mget (snd (targets c)) name = None" "t \<in> set (look (fst (targets c)) name)"
  shows "tg_match t = []"
  using assms needs_labels_from [of "catalog_targets c" "([], [])" name]
  by (auto simp: targets_def [symmetric] look_targets mget_def)

lemma labels_match_any [simp]: "labels_match labels []"
  by (simp add: labels_match_def)

text \<open>Skipping the labels where no target of the name asks for any is invisible.\<close>

lemma fold_line_samples:
  "fold_line fl pf (targets c) raw folded =
     (case line_sample pf raw of
        None \<Rightarrow> folded
      | Some (name, labels, v) \<Rightarrow> fold (fold_target fl name labels v) (look (fst (targets c)) name) folded)"
proof (cases "line_sample pf raw")
  case None
  then show ?thesis by (auto simp: fold_line_def line_sample_def Let_def split: if_splits)
next
  case (Some sample)
  obtain name labels v where sample: "sample = (name, labels, v)" by (cases sample)
  let ?labels = "if mget (snd (targets c)) name = None then [] else labels"
  have "fold (fold_target fl name ?labels v) (look (fst (targets c)) name) folded =
      fold (fold_target fl name labels v) (look (fst (targets c)) name) folded"
    using needs_labels [of c name] by (intro fold_cong refl) (auto simp: fold_target_def)
  with Some sample show ?thesis
    by (auto simp: fold_line_def line_sample_def look_def Let_def split: if_splits option.splits)
qed

definition acc :: "'v folded \<Rightarrow> string \<Rightarrow> string \<Rightarrow> 'v option" where
  "acc folded key name = (case mget folded key of None \<Rightarrow> None | Some m \<Rightarrow> mget m name)"

lemma acc_fold_target:
  "acc (fold_target fl n labels v t folded) key name =
     (if labels_match labels (tg_match t) \<and> tg_key t = key \<and> n = name
      then Some (fold_value fl (tg_aggregate t) v (acc folded key name)) else acc folded key name)"
  by (auto simp: acc_def fold_target_def Let_def split: option.splits)

lemma acc_fold_targets:
  "acc (fold (fold_target fl n labels v) ts folded) key name =
     (if n = name
      then fold (\<lambda>t a. Some (fold_value fl (tg_aggregate t) v a))
             (filter (\<lambda>t. labels_match labels (tg_match t) \<and> tg_key t = key) ts) (acc folded key name)
      else acc folded key name)"
  by (induction ts arbitrary: folded) (auto simp: acc_fold_target)

lemma resolve_key_acc:
  "resolve_key folded key names =
     (case find (\<lambda>n. acc folded key n \<noteq> None) names of None \<Rightarrow> None | Some n \<Rightarrow> acc folded key n)"
proof (cases "mget folded key")
  case None
  then have "find (\<lambda>n. acc folded key n \<noteq> None) names = None" by (simp add: find_None_iff acc_def)
  with None show ?thesis by (simp add: resolve_key_def)
qed (auto simp: resolve_key_def acc_def split: option.splits)

text \<open>The values of one candidate name that an entry keeps, and what they add up to.\<close>

definition kept_values :: "(string, string) gomap \<Rightarrow> string \<Rightarrow> (string \<times> string \<times> 'v) list \<Rightarrow> 'v list" where
  "kept_values m n ss = map (\<lambda>(name, labels, v). v) (filter (\<lambda>(name, labels, v). name = n \<and> labels_match labels m) ss)"

definition aggregated :: "'v float_ops \<Rightarrow> aggregate \<Rightarrow> 'v list \<Rightarrow> 'v option" where
  "aggregated fl agg vs =
     (case vs of
        [] \<Rightarrow> None
      | v # rest \<Rightarrow> Some (foldl (\<lambda>a x. if agg = Max then (if fl_less fl a x then x else a) else fl_add fl a x) v rest))"

definition reading :: "'v float_ops \<Rightarrow> scrape_def \<Rightarrow> (string \<times> string \<times> 'v) list \<Rightarrow> 'v option" where
  "reading fl d ss =
     (case find (\<lambda>n. kept_values (cd_match d) n ss \<noteq> []) (cd_names d) of
        None \<Rightarrow> None
      | Some n \<Rightarrow> aggregated fl (cd_aggregate d) (kept_values (cd_match d) n ss))"

lemma aggregated_snoc:
  "aggregated fl agg (vs @ [v]) = Some (fold_value fl agg v (aggregated fl agg vs))"
  by (cases vs) (simp_all add: aggregated_def fold_value_def)

definition fold_sample :: "'v float_ops \<Rightarrow> scrape_catalog \<Rightarrow> string \<times> string \<times> 'v \<Rightarrow> 'v folded \<Rightarrow> 'v folded" where
  "fold_sample fl c s folded =
     (case s of (name, labels, v) \<Rightarrow> fold (fold_target fl name labels v) (look (fst (targets c)) name) folded)"

lemma fold_lines_samples:
  "fold (fold_line fl pf (targets c)) lines folded = fold (fold_sample fl c) (List.map_filter (line_sample pf) lines) folded"
  by (induction lines arbitrary: folded)
    (auto simp: fold_line_samples fold_sample_def map_filter_simps split: option.splits prod.splits)

lemma acc_empty [simp]: "acc [] key n = None"
  by (simp add: acc_def mget_def)

lemma acc_fold_sample:
  assumes "filter (\<lambda>t. tg_key t = key) (look (fst (targets c)) n) = [t]"
  shows "acc (fold_sample fl c (m, labels, v) folded) key n =
     (if m = n \<and> labels_match labels (tg_match t) then Some (fold_value fl (tg_aggregate t) v (acc folded key n))
      else acc folded key n)"
proof -
  have "filter (\<lambda>t. labels_match labels (tg_match t) \<and> tg_key t = key) (look (fst (targets c)) n) =
      filter (\<lambda>t. labels_match labels (tg_match t)) (filter (\<lambda>t. tg_key t = key) (look (fst (targets c)) n))"
    by (simp add: conj_commute)
  with assms show ?thesis by (simp add: fold_sample_def acc_fold_targets)
qed

lemma acc_samples:
  assumes "filter (\<lambda>t. tg_key t = key) (look (fst (targets c)) n) = [t]"
  shows "acc (fold (fold_sample fl c) ss []) key n = aggregated fl (tg_aggregate t) (kept_values (tg_match t) n ss)"
proof (induction ss rule: rev_induct)
  case Nil
  show ?case by (simp add: kept_values_def aggregated_def)
next
  case (snoc s ss)
  obtain m labels v where s: "s = (m, labels, v)" by (cases s)
  with snoc show ?case
    by (simp add: acc_fold_sample [OF assms] kept_values_def aggregated_snoc)
qed

lemma single_filter:
  "distinct (map f xs) \<Longrightarrow> x \<in> set xs \<Longrightarrow> filter (\<lambda>y. f y = f x) xs = [x]"
proof (induction xs)
  case (Cons y ys)
  show ?case
  proof (cases "x = y")
    case True
    with Cons.prems(1) have "filter (\<lambda>z. f z = f x) ys = []" by (auto simp: filter_empty_conv image_iff)
    with True show ?thesis by simp
  next
    case False
    with Cons.prems have "f y \<noteq> f x" "x \<in> set ys" by (auto simp: image_iff)
    with Cons show ?thesis by simp
  qed
qed simp

lemma filter_concat_map: "filter P (concat (map f xs)) = concat (map (\<lambda>x. filter P (f x)) xs)"
  by (induction xs) simp_all

lemma targets_of_def:
  "filter (\<lambda>p. fst p = n \<and> tg_key (snd p) = key) (def_targets b d) =
     (if cd_key d = key
      then map (\<lambda>name. (name, \<lparr>tg_key = cd_key d, tg_aggregate = cd_aggregate d, tg_match = cd_match d, tg_instant = b\<rparr>))
             (filter (\<lambda>name. name = n) (cd_names d))
      else [])"
  by (auto simp: def_targets_def filter_map comp_def)

lemma concat_single:
  assumes "distinct (map f xs)" "x \<in> set xs" "\<And>y. f y \<noteq> f x \<Longrightarrow> g y = []"
  shows "concat (map g xs) = g x"
proof -
  have "concat (map g xs) = concat (map g (filter (\<lambda>y. f y = f x) xs))"
    using assms(3) by (induction xs) auto
  then show ?thesis by (simp add: single_filter [OF assms(1,2)])
qed

text \<open>With no key used twice, an entry has one target at each of its names.\<close>

definition entries :: "scrape_catalog \<Rightarrow> (bool \<times> scrape_def) list" where
  "entries c = map (Pair False) (sg_series c) @ map (Pair True) (sg_instants c)"

lemma entries_keys: "map (cd_key \<circ> snd) (entries c) = map cd_key (sg_series c @ sg_instants c)"
  by (simp add: entries_def comp_def)

lemma catalog_entries: "catalog_targets c = concat (map (\<lambda>(b, d). def_targets b d) (entries c))"
  by (simp add: catalog_targets_def entries_def comp_def)

lemma one_target:
  assumes "distinct (map cd_key (sg_series c @ sg_instants c))" "(b, d) \<in> set (entries c)"
    and "distinct (cd_names d)" "n \<in> set (cd_names d)"
  shows "filter (\<lambda>t. tg_key t = cd_key d) (look (fst (targets c)) n) =
    [\<lparr>tg_key = cd_key d, tg_aggregate = cd_aggregate d, tg_match = cd_match d, tg_instant = b\<rparr>]"
proof -
  let ?P = "\<lambda>p. fst p = n \<and> tg_key (snd p) = cd_key d"
  let ?g = "\<lambda>e :: bool \<times> scrape_def. filter ?P (def_targets (fst e) (snd e))"
  have "filter ?P (catalog_targets c) = concat (map ?g (entries c))"
    by (simp add: catalog_entries filter_concat_map case_prod_beta)
  also have "\<dots> = ?g (b, d)"
  proof (rule concat_single [where f = "cd_key \<circ> snd"])
    show "distinct (map (cd_key \<circ> snd) (entries c))" using assms(1) by (simp only: entries_keys)
  qed (use assms(2) in \<open>simp_all add: targets_of_def\<close>)
  also have "\<dots> = [(n, \<lparr>tg_key = cd_key d, tg_aggregate = cd_aggregate d, tg_match = cd_match d, tg_instant = b\<rparr>)]"
    using single_filter [of "\<lambda>x. x" "cd_names d" n] assms(3,4) by (simp add: targets_of_def)
  finally have "map snd (filter ?P (catalog_targets c)) =
      [\<lparr>tg_key = cd_key d, tg_aggregate = cd_aggregate d, tg_match = cd_match d, tg_instant = b\<rparr>]" by simp
  moreover have "filter (\<lambda>t. tg_key t = cd_key d) (look (fst (targets c)) n) = map snd (filter ?P (catalog_targets c))"
    by (simp add: look_targets filter_map comp_def conj_commute)
  ultimately show ?thesis by simp
qed

lemma resolve_reading:
  assumes "distinct (map cd_key (sg_series c @ sg_instants c))" "(b, d) \<in> set (entries c)" "distinct (cd_names d)"
  shows "resolve_key (fold (fold_line fl pf (targets c)) (fst (scan_lines body)) []) (cd_key d) (cd_names d) =
    reading fl d (samples pf body)"
proof -
  let ?folded = "fold (fold_line fl pf (targets c)) (fst (scan_lines body)) []"
  have acc: "acc ?folded (cd_key d) n = aggregated fl (cd_aggregate d) (kept_values (cd_match d) n (samples pf body))"
    if "n \<in> set (cd_names d)" for n
    using acc_samples [OF one_target [OF assms that]] by (simp add: fold_lines_samples samples_def)
  have some: "acc ?folded (cd_key d) n \<noteq> None \<longleftrightarrow> kept_values (cd_match d) n (samples pf body) \<noteq> []"
    if "n \<in> set (cd_names d)" for n
    using acc [OF that] by (auto simp: aggregated_def split: list.splits)
  have "find (\<lambda>n. acc ?folded (cd_key d) n \<noteq> None) (cd_names d) =
      find (\<lambda>n. kept_values (cd_match d) n (samples pf body) \<noteq> []) (cd_names d)"
    using some by (intro find_cong refl) simp
  moreover have "n \<in> set (cd_names d)" if "find P (cd_names d) = Some n" for P n
    using that by (auto simp: find_Some_iff)
  ultimately show ?thesis
    unfolding resolve_key_acc reading_def
    by (simp add: acc split: option.splits)
qed

lemma mget_resolve_defs:
  assumes "distinct (map cd_key ds)" "d \<in> set ds"
  shows "mget (resolve_defs folded ds) (cd_key d) = resolve_key folded (cd_key d) (cd_names d)"
proof -
  let ?put = "\<lambda>d values. case resolve_key folded (cd_key d) (cd_names d) of None \<Rightarrow> values | Some v \<Rightarrow> mput (cd_key d) v values"
  have other: "mget (fold ?put es vals) key = mget vals key" if "key \<notin> cd_key ` set es" for es vals key
    using that by (induction es arbitrary: vals) (auto split: option.splits)
  have "mget (fold ?put ds vals) (cd_key d) = resolve_key folded (cd_key d) (cd_names d)"
    if "mget vals (cd_key d) = None" for vals
    using assms that
  proof (induction ds arbitrary: vals)
    case (Cons e es)
    show ?case
    proof (cases "e = d")
      case True
      with Cons.prems other [of "cd_key d" es] show ?thesis by (auto split: option.splits)
    next
      case False
      with Cons.prems have "cd_key e \<noteq> cd_key d" "d \<in> set es" "distinct (map cd_key es)" by (auto simp: image_iff)
      with Cons.prems(3) show ?thesis by (auto intro!: Cons.IH split: option.splits)
    qed
  qed simp
  then show ?thesis by (simp add: resolve_defs_def mget_def)
qed

text \<open>C36. A chart shows what the exporter said. Under a catalog no two entries of which share a key, the value
recorded for an entry is the aggregate, over exactly the well-formed sample lines of its first
candidate name that has one with matching labels, of their values, each counted once; nothing is
recorded where there is none, and a line that is no sample disturbs nothing.\<close>

theorem scraped_value_is_the_aggregate:
  assumes "parse_catalog fl pf c body broken = Inr (series, instants)"
    and "distinct (map cd_key (sg_series c @ sg_instants c))"
    and "d \<in> set (sg_series c @ sg_instants c)" and "distinct (cd_names d)"
  shows "mget (if d \<in> set (sg_series c) then series else instants) (cd_key d) = reading fl d (samples pf body)"
proof -
  let ?folded = "fold (fold_line fl pf (targets c)) (fst (scan_lines body)) []"
  from assms(1) have parts: "series = resolve_defs ?folded (sg_series c)" "instants = resolve_defs ?folded (sg_instants c)"
    by (auto simp: parse_catalog_def Let_def split: prod.splits if_splits)
  have keys: "distinct (map cd_key (sg_series c))" "distinct (map cd_key (sg_instants c))" using assms(2) by simp_all
  show ?thesis
  proof (cases "d \<in> set (sg_series c)")
    case True
    then have "(False, d) \<in> set (entries c)" by (simp add: entries_def)
    with True parts(1) keys(1) resolve_reading [OF assms(2) _ assms(4)] show ?thesis by (simp add: mget_resolve_defs)
  next
    case False
    with assms(3) have "d \<in> set (sg_instants c)" "(True, d) \<in> set (entries c)" by (auto simp: entries_def)
    with False parts(2) keys(2) resolve_reading [OF assms(2) _ assms(4)] show ?thesis by (simp add: mget_resolve_defs)
  qed
qed

section \<open>What a sweep records and logs\<close>

lemma scrape_pod_store:
  "\<exists>ws. sq_store (scrape_pod fl pf answers at pod s) = fold (sweep_into fl) ws (sq_store s) \<and>
     (\<forall>w \<in> set ws. sw_at w = at \<and> sw_instance w = pf_name pod)"
proof (cases "pf_ip pod = [] \<or> pf_deleting pod")
  case True
  then show ?thesis by (intro exI [of _ "[]"]) (simp add: scrape_pod_def)
next
  case False
  show ?thesis
  proof (cases "scrape_one fl pf (sq_catalog s) (answers (pf_ip pod))")
    case (Inl err)
    with False show ?thesis by (intro exI [of _ "[]"]) (simp add: scrape_pod_def)
  next
    case (Inr r)
    obtain vals instants where r: "r = (vals, instants)" by (cases r)
    show ?thesis
      by (rule exI [of _ "[\<lparr>sw_instance = pf_name pod, sw_at = at, sw_values = vals, sw_instants = instants\<rparr>]"])
        (use False Inr r in \<open>simp add: scrape_pod_def sweep_into_def Let_def\<close>)
  qed
qed

lemma sweep_store:
  "\<exists>ws. sq_store (sweep_roster fl pf source answers at s) = fold (sweep_into fl) ws (sq_store s) \<and> (\<forall>w \<in> set ws. sw_at w = at)"
proof -
  have "\<exists>ws. sq_store (fold (scrape_pod fl pf answers at) pods s) = fold (sweep_into fl) ws (sq_store s) \<and>
      (\<forall>w \<in> set ws. sw_at w = at)" for pods
  proof (induction pods arbitrary: s)
    case Nil
    show ?case by (intro exI [of _ "[]"]) simp
  next
    case (Cons pod pods)
    obtain ws where first: "sq_store (scrape_pod fl pf answers at pod s) = fold (sweep_into fl) ws (sq_store s)"
        "\<forall>w \<in> set ws. sw_at w = at"
      using scrape_pod_store [of fl pf answers at pod s] by blast
    obtain vs where "sq_store (fold (scrape_pod fl pf answers at) pods (scrape_pod fl pf answers at pod s)) =
        fold (sweep_into fl) vs (sq_store (scrape_pod fl pf answers at pod s))" "\<forall>w \<in> set vs. sw_at w = at"
      using Cons.IH by blast
    with first show ?case by (intro exI [of _ "ws @ vs"]) auto
  qed
  then show ?thesis by (auto simp: sweep_roster_def current_def intro!: exI [of _ "[] :: 'a sweep list"])
qed

text \<open>The reachability lines of one instance, in order: whether each says it recovered.\<close>

definition log_of :: "string \<Rightarrow> 'v scraper \<Rightarrow> bool list" where
  "log_of name s = map sl_recovered (filter (\<lambda>l. sl_instance l = name) (sq_log s))"

fun alternating :: "bool \<Rightarrow> bool list \<Rightarrow> bool" where
  "alternating b [] \<longleftrightarrow> True"
| "alternating b (x # xs) \<longleftrightarrow> x = b \<and> alternating (\<not> b) xs"

lemma alternating_snoc: "alternating b (xs @ [x]) \<longleftrightarrow> alternating b xs \<and> x = (if even (length xs) then b else \<not> b)"
  by (induction xs arbitrary: b) auto

definition log_ok :: "string \<Rightarrow> 'v scraper \<Rightarrow> bool" where
  "log_ok name s \<longleftrightarrow> alternating False (log_of name s) \<and> (mget (sq_failing s) name = None \<longleftrightarrow> even (length (log_of name s)))"

lemma scrape_pod_log: "log_ok name s \<Longrightarrow> log_ok name (scrape_pod fl pf answers at pod s)"
  by (auto simp: log_ok_def log_of_def scrape_pod_def alternating_snoc Let_def split: sum.splits prod.splits)

lemma sweep_log: "log_ok name s \<Longrightarrow> log_ok name (sweep_roster fl pf source answers at s)"
proof -
  have "log_ok name s \<Longrightarrow> log_ok name (fold (scrape_pod fl pf answers at) pods s)" for pods s
    by (induction pods arbitrary: s) (simp_all add: scrape_pod_log)
  then show "log_ok name s \<Longrightarrow> log_ok name (sweep_roster fl pf source answers at s)"
    by (simp add: sweep_roster_def current_def)
qed

text \<open>The log of the scraper is bounded by what changes: over any sequence of sweeps, whatever the
rosters and the answers, the lines about one instance alternate between a failure and a recovery,
the first being a failure.\<close>

theorem scrape_logs_changes_only:
  assumes "sq_log s = []" and "sq_failing s = []"
  shows "alternating False (log_of name (fold (\<lambda>(source, answers, at). sweep_roster fl pf source answers at) sweeps s))"
proof -
  have "log_ok name (fold (\<lambda>(source, answers, at). sweep_roster fl pf source answers at) sweeps s)"
    if "log_ok name s" for s
    using that by (induction sweeps arbitrary: s) (auto simp: sweep_log)
  moreover have "log_ok name s" using assms by (simp add: log_ok_def log_of_def)
  ultimately show ?thesis by (simp add: log_ok_def)
qed

section \<open>Examples\<close>

definition whole_number :: "string \<Rightarrow> int option" where "whole_number s = map_option int (parse_unsigned s)"

definition wal_def :: "string \<Rightarrow> string \<Rightarrow> scrape_def" where
  "wal_def key which = \<lparr>cd_key = key, cd_aggregate = Sum, cd_match = [(''value'', which)], cd_names = [''wal'']\<rparr>"

definition wal_catalog :: scrape_catalog where
  "wal_catalog = \<lparr>sg_series = [wal_def ''size'' ''size''], sg_instants = [wal_def ''count'' ''count'']\<rparr>"

definition wal_body :: string where
  "wal_body = ''# a comment'' @ [CHR 0x0A] @ ''wal{value='' @ [CHR 0x22] @ ''size'' @ [CHR 0x22] @ ''} 40 1700000000'' @ [CHR 0x0A] @
     ''odd{'' @ [CHR 0x0A] @ ''wal{value='' @ [CHR 0x22] @ ''count'' @ [CHR 0x22] @ ''} 3'' @ [CHR 0x0A] @
     ''wal{value='' @ [CHR 0x22] @ ''size'' @ [CHR 0x22] @ '',slot='' @ [CHR 0x22] @ ''a'' @ [CHR 0x22] @ ''} 2''"

lemma wal_parsed: "parse_catalog int_ops whole_number wal_catalog wal_body False = Inr ([(''size'', 42)], [(''count'', 3)])"
  by code_simp

lemma scraped_value_is_the_aggregate_witness:
  "reading int_ops (wal_def ''size'' ''size'') (samples whole_number wal_body) = Some 42 \<and>
   reading int_ops (wal_def ''count'' ''count'') (samples whole_number wal_body) = Some 3"
proof -
  have keys: "distinct (map cd_key (sg_series wal_catalog @ sg_instants wal_catalog))" by code_simp
  have "wal_def ''size'' ''size'' \<in> set (sg_series wal_catalog)" "wal_def ''count'' ''count'' \<in> set (sg_instants wal_catalog)"
    "wal_def ''count'' ''count'' \<notin> set (sg_series wal_catalog)"
    by (simp_all add: wal_catalog_def wal_def_def)
  with scraped_value_is_the_aggregate [OF wal_parsed keys, of "wal_def ''size'' ''size''"]
    scraped_value_is_the_aggregate [OF wal_parsed keys, of "wal_def ''count'' ''count''"]
  show ?thesis by (simp add: wal_def_def mget_def)
qed

text \<open>Where a series and a tile share a key, each sample is counted once for either of them: the
accumulators are kept by key and name only.\<close>

lemma shared_key_counts_twice:
  "parse_catalog int_ops whole_number \<lparr>sg_series = [wal_def ''wal'' ''size''], sg_instants = [wal_def ''wal'' ''size'']\<rparr>
     wal_body False = Inr ([(''wal'', 84)], [(''wal'', 84)])"
  by code_simp

text \<open>A response over the bound is cut inside a line, and what is left of that line is read as a sample.\<close>

lemma split_on_newlines: "split_on c (replicate n c @ s) = replicate n [] @ split_on c s"
  by (induction n) simp_all

lemma read_empty_lines: "ls \<noteq> [] \<Longrightarrow> fst (read_lines (replicate n [] @ ls)) = replicate n [] @ fst (read_lines ls)"
proof (induction n)
  case (Suc n)
  then obtain l ls' where "replicate n [] @ ls = l # ls'" by (cases "replicate n [] @ ls") auto
  with Suc show ?case by (simp add: max_line_def strip_cr_def case_prod_beta)
qed simp

lemma samples_after_newlines: "samples pf (replicate n (CHR 0x0A) @ s) = samples pf s"
proof -
  have "line_sample pf [] = None" by (simp add: line_sample_def trim_space_def)
  then have "List.map_filter (line_sample pf) (replicate n [] @ ls) = List.map_filter (line_sample pf) ls" for ls
    by (induction n) (simp_all add: map_filter_simps)
  then show ?thesis by (simp add: samples_def scan_lines_def split_on_newlines read_empty_lines)
qed

lemma cut_sample_is_recorded:
  assumes "body = replicate (nat max_body - 6) (CHR 0x0A) @ ''wal 1234'' @ [CHR 0x0A]"
  shows "samples whole_number body = [(''wal'', [], 1234)]" and "samples whole_number (limit_reader max_body body) = [(''wal'', [], 12)]"
proof -
  have "samples whole_number (''wal 1234'' @ [CHR 0x0A]) = [(''wal'', [], 1234)]" by code_simp
  then show "samples whole_number body = [(''wal'', [], 1234)]" by (simp only: assms samples_after_newlines)
  have "limit_reader max_body body = replicate (nat max_body - 6) (CHR 0x0A) @ ''wal 12''" by (simp add: assms max_body_def limit_reader_def)
  moreover have "samples whole_number ''wal 12'' = [(''wal'', [], 12)]" by code_simp
  ultimately show "samples whole_number (limit_reader max_body body) = [(''wal'', [], 12)]" by (simp only: samples_after_newlines)
qed

text \<open>An instance that fails twice and comes back.\<close>

definition lone_pod :: "pods_snapshot store" where
  "lone_pod =
     \<lparr>so_snap = (so_snap new_pod_store)\<lparr>po_pods :=
        [\<lparr>pf_name = ''pg-1'', pf_uid = ''u1'', pf_role = [], pf_phase = [], pf_ready = None, pf_restarts = None, pf_node = [],
          pf_ip = ''10.0.0.1'', pf_started = None, pf_image = [], pf_owner_uid = [], pf_deleting = False, pf_containers = []\<rparr>]\<rparr>,
      so_has = True\<rparr>"

definition three_sweeps :: "(pods_snapshot store \<times> (string \<Rightarrow> scrape_answer) \<times> instant) list" where
  "three_sweeps =
     [(lone_pod, \<lambda>ip. Unanswered, second), (lone_pod, \<lambda>ip. Responded 503 [] False, 2 * second),
      (lone_pod, \<lambda>ip. Responded 200 wal_body False, 3 * second)]"

definition new_scraper :: "int scraper" where
  "new_scraper =
     \<lparr>sq_catalog = wal_catalog, sq_store = new_metric_store \<lparr>mc_series = [\<lparr>sd_key = ''size'', sd_kind = Gauge\<rparr>], mc_instants = [''count'']\<rparr> small_limits,
      sq_failing = [], sq_log = []\<rparr>"

abbreviation "swept_three \<equiv>
  fold (\<lambda>(source, answers, at). sweep_roster int_ops whole_number source answers at) three_sweeps new_scraper"

lemma scrape_logs_changes_only_witness:
  "log_of ''pg-1'' swept_three = [False, True] \<and> alternating False (log_of ''pg-1'' swept_three)"
proof -
  have "log_of ''pg-1'' swept_three = [False, True]" by code_simp
  moreover have "sq_log new_scraper = []" "sq_failing new_scraper = []" by (simp_all add: new_scraper_def)
  ultimately show ?thesis using scrape_logs_changes_only by blast
qed

end
