(* ===== verification/KubeRecord.thy ===== *)
theory KubeRecord
  imports HistoryDiff Redact
begin

text \<open>
  What the Kubernetes client records of the objects it reads, \<open>internal/kube/record.go\<close>, and the paged
  listings that feed it (\<open>infrastructure.go\<close>, \<open>databases.go\<close>): an object becomes an observation with its
  identity, its actor, the owners of its fields, and a manifest from which the churning and the secret
  parts are gone; a listing becomes a seed only where it is complete. The decoders and encoders are the
  record \<open>codec\<close>; an object is the association list of its decoded fields.
\<close>

section \<open>Reading an object\<close>

type_synonym 'n object = "(string \<times> 'n json) list"

record 'n codec =
  ky_int64 :: "'n \<Rightarrow> int option"
  ky_group_version :: "string \<Rightarrow> (string \<times> string) option"
  ky_time :: "string \<Rightarrow> instant option"
  ky_decode :: "string \<Rightarrow> 'n json option"
  ky_encode :: "'n json \<Rightarrow> string option"
  ky_hash :: "string \<Rightarrow> string"

definition str_at :: "'n object \<Rightarrow> string \<Rightarrow> string" where
  "str_at m k = (case mget m k of Some (JString s) \<Rightarrow> s | _ \<Rightarrow> '''')"

definition object_at :: "'n object \<Rightarrow> string \<Rightarrow> 'n object option" where
  "object_at m k = (case mget m k of Some (JObject f) \<Rightarrow> Some f | _ \<Rightarrow> None)"

definition array_at :: "'n object \<Rightarrow> string \<Rightarrow> 'n json list option" where
  "array_at m k = (case mget m k of Some (JArray xs) \<Rightarrow> Some xs | _ \<Rightarrow> None)"

section \<open>What is never stored\<close>

definition last_applied_annotation :: string where
  "last_applied_annotation = ''kubectl.kubernetes.io/last-applied-configuration''"

definition redacted_env_value :: string where "redacted_env_value = ''[redacted]''"

definition scrub_entry :: "'n json \<Rightarrow> 'n json" where
  "scrub_entry item =
     (case item of
        JObject e \<Rightarrow>
          (case mget e ''value'' of
             Some (JString v) \<Rightarrow>
               if v \<noteq> '''' then JObject (mput ''value'' (JString redacted_env_value) e) else item
           | _ \<Rightarrow> item)
      | _ \<Rightarrow> item)"

function scrub_env_values :: "'n json \<Rightarrow> 'n json" where
  "scrub_env_values node =
     (case node of
        JObject m \<Rightarrow>
          JObject (map (\<lambda>kv. (fst kv,
            if fst kv = ''env'' then
              (case snd kv of JArray items \<Rightarrow> JArray (map scrub_entry items) | _ \<Rightarrow> scrub_env_values (snd kv))
            else scrub_env_values (snd kv))) m)
      | JArray xs \<Rightarrow> JArray (map scrub_env_values xs)
      | _ \<Rightarrow> node)"
  by auto
termination
  by (relation "measure size") (auto simp: element_size dest: field_size)

declare scrub_env_values.simps [simp del]

definition strip_meta :: "'n object \<Rightarrow> 'n object" where
  "strip_meta meta =
     (let m = mdel ''resourceVersion'' (mdel ''managedFields'' meta)
      in case object_at m ''annotations'' of
           None \<Rightarrow> m
         | Some annotations \<Rightarrow>
             (let left = mdel last_applied_annotation annotations
              in if left = [] then mdel ''annotations'' m else mput ''annotations'' (JObject left) m))"

definition normalize_manifest :: "'n object \<Rightarrow> 'n json" where
  "normalize_manifest content =
     (let copied =
        (case object_at content ''metadata'' of
           None \<Rightarrow> content
         | Some meta \<Rightarrow> mput ''metadata'' (JObject (strip_meta meta)) content)
      in scrub_env_values (JObject copied))"

definition digest :: "'n codec \<Rightarrow> 'n json \<Rightarrow> (string \<times> string \<times> string) option" where
  "digest ky manifest =
     (let m = (case manifest of JObject m \<Rightarrow> m | _ \<Rightarrow> [])
      in case ky_encode ky manifest of
           None \<Rightarrow> None
         | Some encoded \<Rightarrow>
             (case (case mget m ''status'' of None \<Rightarrow> Some '''' | Some status \<Rightarrow> map_option (ky_hash ky) (ky_encode ky status)) of
                None \<Rightarrow> None
              | Some status_hash \<Rightarrow>
                  map_option (\<lambda>spec. (ky_hash ky spec, status_hash, encoded))
                    (ky_encode ky (JObject (filter (\<lambda>kv. fst kv \<noteq> ''status'') m)))))"

section \<open>Who touched it\<close>

definition actor_step :: "'n codec \<Rightarrow> 'n json \<Rightarrow> actor \<times> instant \<Rightarrow> actor \<times> instant" where
  "actor_step ky field st =
     (case field of
        JObject f \<Rightarrow>
          (let at = (case mget f ''time'' of Some (JString raw) \<Rightarrow> (case ky_time ky raw of Some t \<Rightarrow> t | None \<Rightarrow> zero_time) | _ \<Rightarrow> zero_time)
           in if ac_manager (fst st) \<noteq> '''' \<and> \<not> time_after at (snd st) then st
              else if str_at f ''manager'' = '''' then st
              else (\<lparr>ac_manager = str_at f ''manager'', ac_operation = str_at f ''operation''\<rparr>, at))
      | _ \<Rightarrow> st)"

definition no_actor :: actor where "no_actor = \<lparr>ac_manager = '''', ac_operation = ''''\<rparr>"

definition record_actor :: "'n codec \<Rightarrow> 'n object \<Rightarrow> actor" where
  "record_actor ky meta =
     (case array_at meta ''managedFields'' of
        None \<Rightarrow> no_actor
      | Some managed \<Rightarrow> fst (fold (actor_step ky) managed (no_actor, zero_time)))"

section \<open>Who owns its fields\<close>

definition max_owned_paths :: int where "max_owned_paths = 128"

type_synonym owned = "string list \<times> int"

definition claim_path :: "string \<Rightarrow> owned \<Rightarrow> owned" where
  "claim_path path st = (fst st @ [path], snd st - 1)"

definition key_fields :: "'n codec \<Rightarrow> string \<Rightarrow> 'n object option" where
  "key_fields ky raw = (case ky_decode ky raw of Some (JObject m) \<Rightarrow> Some m | Some JNull \<Rightarrow> Some [] | _ \<Rightarrow> None)"

definition associative_segment :: "'n codec \<Rightarrow> string \<Rightarrow> string" where
  "associative_segment ky raw =
     (case key_fields ky raw of
        None \<Rightarrow> ''['' @ raw @ '']''
      | Some m \<Rightarrow>
          (let rendered = ''['' @ str_join '','' (List.map_filter (\<lambda>key.
                 map_option (\<lambda>encoded. key @ ''='' @ encoded) (Option.bind (mget m key) (ky_encode ky))) (sort_strings (mkeys m))) @ '']''
           in case mget m ''name'' of
                Some (JString name) \<Rightarrow> if length m = 1 then field_path_named '''' name else rendered
              | _ \<Rightarrow> rendered))"

text \<open>The path a key of the tree descends to, if it descends.\<close>

definition owned_child :: "'n codec \<Rightarrow> string \<Rightarrow> string \<Rightarrow> string option" where
  "owned_child ky path key =
     (if has_prefix key ''f:'' then Some (field_path_key path (drop 2 key))
      else if has_prefix key ''k:'' then Some (path @ associative_segment ky (drop 2 key)) else None)"

function collect_owned :: "'n codec \<Rightarrow> string \<Rightarrow> 'n object \<Rightarrow> owned \<Rightarrow> owned" where
  "collect_owned ky path m st =
     fold (\<lambda>key st.
       (if snd st \<le> 0 then st
        else if key = ''.'' \<or> has_prefix key ''v:'' then (if path \<noteq> '''' then claim_path path st else st)
        else
          (case owned_child ky path key of
             None \<Rightarrow> st
           | Some p \<Rightarrow>
               (case mget m key of
                  Some (JObject sub) \<Rightarrow> if sub = [] then claim_path p st else collect_owned ky p sub st
                | _ \<Rightarrow> claim_path p st))))
       (sort_strings (mkeys m)) st"
  by pat_completeness auto
termination
proof (relation "measure (\<lambda>(ky, path, m, st). size_list (size_prod (\<lambda>k. 0) size) m)", goal_cases)
  case (2 ky path m st key st' p v sub)
  then have "mget m key = Some (JObject sub)" by simp
  from mget_size [OF this] show ?case by simp
qed simp

declare collect_owned.simps [simp del]

definition owner_entry ::
  "'n codec \<Rightarrow> 'n json \<Rightarrow> (string, string list) gomap \<times> int \<Rightarrow> (string, string list) gomap \<times> int" where
  "owner_entry ky field st =
     (case field of
        JObject f \<Rightarrow>
          (case (str_at f ''manager'', object_at f ''fieldsV1'') of
             (manager, Some tree) \<Rightarrow>
               if manager = '''' then st
               else
                 (case collect_owned ky '''' tree ([], snd st) of
                    (paths, budget) \<Rightarrow>
                      if paths = [] then (fst st, budget)
                      else (mput manager ((case mget (fst st) manager of None \<Rightarrow> [] | Some ps \<Rightarrow> ps) @ paths) (fst st), budget))
           | _ \<Rightarrow> st)
      | _ \<Rightarrow> st)"

definition owners_of :: "'n codec \<Rightarrow> 'n object \<Rightarrow> field_owner list" where
  "owners_of ky meta =
     (case array_at meta ''managedFields'' of
        None \<Rightarrow> []
      | Some managed \<Rightarrow>
          (let by_manager = fst (fold (owner_entry ky) managed ([], max_owned_paths))
           in map (\<lambda>manager. \<lparr>fo_manager = manager,
                 fo_paths = remdups_adj (sort_strings (case mget by_manager manager of None \<Rightarrow> [] | Some ps \<Rightarrow> ps))\<rparr>)
               (sort_strings (mkeys by_manager))))"

section \<open>The observation\<close>

definition capture_error :: go_error where
  "capture_error = new_error ''history capture'' CategoryInternal None"

definition observation_from :: "'n codec \<Rightarrow> string \<Rightarrow> 'n object \<Rightarrow> bool \<Rightarrow> go_error + observation" where
  "observation_from ky scope content deleted =
     (let gv = (case mget content ''apiVersion'' of Some (JString v) \<Rightarrow> ky_group_version ky v | _ \<Rightarrow> None)
      in case object_at content ''metadata'' of
           None \<Rightarrow> Inl capture_error
         | Some meta \<Rightarrow>
             (let obs = \<lparr>obs_scope = scope,
                   obs_group = (case gv of None \<Rightarrow> '''' | Some (g, v) \<Rightarrow> g),
                   obs_version = (case gv of None \<Rightarrow> '''' | Some (g, v) \<Rightarrow> v),
                   obs_kind = str_at content ''kind'', obs_namespace = str_at meta ''namespace'',
                   obs_name = str_at meta ''name'', obs_uid = str_at meta ''uid'',
                   obs_generation =
                     (case mget meta ''generation'' of Some (JNumber n) \<Rightarrow> (case ky_int64 ky n of Some i \<Rightarrow> i | None \<Rightarrow> 0) | _ \<Rightarrow> 0),
                   obs_manifest = None, obs_spec_hash = '''', obs_status_hash = '''',
                   obs_actor = record_actor ky meta, obs_owners = [], obs_deleted = deleted\<rparr>
              in if obs_uid obs = '''' then Inl capture_error
                 else if deleted then Inr obs
                 else
                   (case digest ky (normalize_manifest content) of
                      None \<Rightarrow> Inl capture_error
                    | Some (spec_hash, status_hash, encoded) \<Rightarrow>
                        Inr (obs\<lparr>obs_owners := owners_of ky meta, obs_manifest := Some encoded, obs_spec_hash := spec_hash,
                          obs_status_hash := status_hash\<rparr>))))"

section \<open>The recorder\<close>

datatype recorder_call =
    CallObserve observation
  | CallSeed string "observation list"

text \<open>The client's side of the capture: whether a recorder is wired, what it was told, and what was logged.\<close>

record capture =
  kp_enabled :: bool
  kp_calls :: "recorder_call list"
  kp_log :: "(string \<times> string) list"
  kp_excluded :: "string list"
  kp_unobservable :: "(string \<times> string) list"
  kp_refused :: "(string \<times> string) list"

definition tell :: "recorder_call \<Rightarrow> capture \<Rightarrow> capture" where
  "tell call s = s\<lparr>kp_calls := kp_calls s @ [call]\<rparr>"

definition log_capture_failed :: "string \<Rightarrow> go_error \<Rightarrow> capture \<Rightarrow> capture" where
  "log_capture_failed scope err s = s\<lparr>kp_log := kp_log s @ [(scope, safe (Some err))]\<rparr>"

definition log_excluded :: "string option \<Rightarrow> capture \<Rightarrow> capture" where
  "log_excluded name s = (case name of None \<Rightarrow> s | Some n \<Rightarrow> s\<lparr>kp_excluded := kp_excluded s @ [n]\<rparr>)"

definition record_observation :: "'n codec \<Rightarrow> string \<Rightarrow> 'n object \<Rightarrow> bool \<Rightarrow> capture \<Rightarrow> capture" where
  "record_observation ky scope content deleted s =
     (case observation_from ky scope content deleted of
        Inl err \<Rightarrow> log_capture_failed scope err s
      | Inr obs \<Rightarrow> tell (CallObserve obs) s)"

definition record_object :: "'n codec \<Rightarrow> string \<Rightarrow> 'n object \<Rightarrow> capture \<Rightarrow> capture" where
  "record_object ky scope content s = (if \<not> kp_enabled s then s else record_observation ky scope content False s)"

text \<open>A watch event as the pumps see it: its type, and the object if it carries one.\<close>

datatype event_type = EventAdded | EventModified | EventDeleted | EventBookmark | EventError | EventOther string

record 'n watch_event =
  wv_type :: event_type
  wv_object :: "'n object option"

definition record_event :: "'n codec \<Rightarrow> string \<Rightarrow> 'n watch_event \<Rightarrow> capture \<Rightarrow> capture" where
  "record_event ky scope ev s =
     (case wv_object ev of None \<Rightarrow> s | Some content \<Rightarrow> record_observation ky scope content (wv_type ev = EventDeleted) s)"

text \<open>A pump answers the item, whether it accepted the event, and whether the stream has to end; it may log.\<close>

type_synonym ('n, 'e) pump = "'n watch_event \<Rightarrow> capture \<Rightarrow> ('e \<times> bool \<times> bool) \<times> capture"

definition tap :: "'n codec \<Rightarrow> string \<Rightarrow> ('n, 'e) pump \<Rightarrow> ('n, 'e) pump" where
  "tap ky scope pump ev s =
     (case pump ev s of ((item, accepted, fatal), s') \<Rightarrow>
        ((item, accepted, fatal), if kp_enabled s \<and> accepted then record_event ky scope ev s' else s'))"

section \<open>Seeds\<close>

text \<open>The seed recorder of one listing; \<open>None\<close> is the disabled one.\<close>

record seed_recorder =
  sx_scope :: string
  sx_obs :: "observation list"
  sx_degraded :: bool

definition seed_record :: "string \<Rightarrow> capture \<Rightarrow> seed_recorder option" where
  "seed_record scope s = (if \<not> kp_enabled s then None else Some \<lparr>sx_scope = scope, sx_obs = [], sx_degraded = False\<rparr>)"

definition seed_add :: "'n codec \<Rightarrow> 'n object \<Rightarrow> seed_recorder option \<times> capture \<Rightarrow> seed_recorder option \<times> capture" where
  "seed_add ky content st =
     (case st of
        (None, s) \<Rightarrow> st
      | (Some r, s) \<Rightarrow>
          (case observation_from ky (sx_scope r) content False of
             Inl err \<Rightarrow> (Some (r\<lparr>sx_degraded := True\<rparr>), log_capture_failed (sx_scope r) err s)
           | Inr obs \<Rightarrow> (Some (r\<lparr>sx_obs := sx_obs r @ [obs]\<rparr>), s)))"

definition seed_commit :: "bool \<Rightarrow> seed_recorder option \<times> capture \<Rightarrow> capture" where
  "seed_commit complete st =
     (case st of
        (None, s) \<Rightarrow> s
      | (Some r, s) \<Rightarrow>
          if complete \<and> \<not> sx_degraded r then tell (CallSeed (sx_scope r) (sx_obs r)) s
          else fold (\<lambda>obs. tell (CallObserve obs)) (sx_obs r) s)"

section \<open>Paged listings\<close>

text \<open>The answers of the API server to the pages of one listing, in order: a failed one, or its items, whether
it continues, and the resource version of the list. Where none is left the deadline of the request has passed.\<close>

datatype 'n page =
    PageFailed go_error
  | Page "'n object list" bool string

fun page_items ::
  "'n codec \<Rightarrow> ('n object \<Rightarrow> go_error + ('t \<times> bool)) \<Rightarrow> ('t \<Rightarrow> string option) \<Rightarrow> 'n object list \<Rightarrow> 't list \<Rightarrow>
     seed_recorder option \<times> capture \<Rightarrow> (go_error + 't list) \<times> (seed_recorder option \<times> capture)" where
  "page_items ky convert excluded [] kept st = (Inr kept, st)"
| "page_items ky convert excluded (content # rest) kept st =
     (case convert content of
        Inl err \<Rightarrow> (Inl err, st)
      | Inr (facts, member) \<Rightarrow>
          if member then page_items ky convert excluded rest (kept @ [facts]) (seed_add ky content st)
          else page_items ky convert excluded rest kept (fst st, log_excluded (excluded facts) (snd st)))"

text \<open>The loop shared by \<open>FetchPods\<close>, \<open>listOwned\<close>, \<open>listDeclared\<close>, \<open>listBackups\<close> and \<open>listScheduledBackups\<close>:
they differ in whom they exclude aloud and in where they stop before the last page. The answer is what
is kept, the resource version of the last list, and whether the listing was walked to its end.\<close>

fun list_pages ::
  "'n codec \<Rightarrow> ('n object \<Rightarrow> go_error + ('t \<times> bool)) \<Rightarrow> ('t \<Rightarrow> string option) \<Rightarrow> (int \<Rightarrow> int \<Rightarrow> bool) \<Rightarrow> 'n page list \<Rightarrow>
     't list \<Rightarrow> int \<Rightarrow> seed_recorder option \<times> capture \<Rightarrow> (go_error + ('t list \<times> string \<times> bool)) \<times> capture" where
  "list_pages ky convert excluded enough [] kept examined st =
     (Inl (new_error ''list'' CategoryTimeout (Some ContextDeadlineExceeded)), snd st)"
| "list_pages ky convert excluded enough (PageFailed err # pages) kept examined st = (Inl err, snd st)"
| "list_pages ky convert excluded enough (Page items continues rv # pages) kept examined st =
     (case page_items ky convert excluded items kept st of
        (Inl err, st') \<Rightarrow> (Inl err, snd st')
      | (Inr kept', st') \<Rightarrow>
          (let examined' = examined + int (length items)
           in if \<not> continues then (Inr (kept', rv, True), seed_commit True st')
              else if enough (int (length kept')) examined' then (Inr (kept', rv, False), seed_commit False st')
              else list_pages ky convert excluded enough pages kept' examined' st'))"

definition run_listing ::
  "'n codec \<Rightarrow> ('n object \<Rightarrow> go_error + ('t \<times> bool)) \<Rightarrow> ('t \<Rightarrow> string option) \<Rightarrow> (int \<Rightarrow> int \<Rightarrow> bool) \<Rightarrow> bool \<Rightarrow> string \<Rightarrow>
     'n page list \<Rightarrow> capture \<Rightarrow> (go_error + ('t list \<times> string \<times> bool)) \<times> capture" where
  "run_listing ky convert excluded enough keep scope pages s =
     list_pages ky convert excluded enough pages [] 0 (if keep then seed_record scope s else None, s)"

text \<open>\<open>listOwned\<close>, \<open>listDeclared\<close>, \<open>listBackups\<close> and \<open>listScheduledBackups\<close>: the two bounds are on what is kept and
on what was looked at; what is kept beyond its bound, or a listing left early, is truncated.\<close>

definition list_kind ::
  "'n codec \<Rightarrow> ('n object \<Rightarrow> go_error + ('t \<times> bool)) \<Rightarrow> bool \<Rightarrow> int \<Rightarrow> int \<Rightarrow> string \<Rightarrow> 'n page list \<Rightarrow> capture \<Rightarrow>
     (go_error + ('t list \<times> string \<times> bool)) \<times> capture" where
  "list_kind ky convert keep max_kept max_scan scope pages s =
     (case run_listing ky convert (\<lambda>_. None) (\<lambda>kept examined. kept > max_kept \<or> examined \<ge> max_scan) keep scope pages s of
        (Inl err, s') \<Rightarrow> (Inl err, s')
      | (Inr (kept, rv, complete), s') \<Rightarrow> (Inr (kept, rv, \<not> complete \<or> int (length kept) > max_kept), s'))"

text \<open>The recorder is the history store.\<close>

fun recorded :: "instant \<Rightarrow> recorder_call \<Rightarrow> hstore \<Rightarrow> hstore" where
  "recorded now (CallObserve obs) s = store_observe obs now s"
| "recorded now (CallSeed scope obs) s = store_seed scope obs now s"

section \<open>Environment values do not leak\<close>

text \<open>The object with every inline environment value replaced, through the walk of the scrubber.\<close>

definition env_entry :: "(string \<Rightarrow> string) \<Rightarrow> 'n json \<Rightarrow> 'n json" where
  "env_entry f item =
     (case item of
        JObject e \<Rightarrow> (case mget e ''value'' of Some (JString v) \<Rightarrow> JObject (mput ''value'' (JString (f v)) e) | _ \<Rightarrow> item)
      | _ \<Rightarrow> item)"

function env_subst :: "(string \<Rightarrow> string) \<Rightarrow> 'n json \<Rightarrow> 'n json" where
  "env_subst f node =
     (case node of
        JObject m \<Rightarrow>
          JObject (map (\<lambda>kv. (fst kv,
            if fst kv = ''env'' then
              (case snd kv of JArray items \<Rightarrow> JArray (map (env_entry f) items) | _ \<Rightarrow> env_subst f (snd kv))
            else env_subst f (snd kv))) m)
      | JArray xs \<Rightarrow> JArray (map (env_subst f) xs)
      | _ \<Rightarrow> node)"
  by pat_completeness auto
termination
  by (relation "measure (size \<circ> snd)") (auto simp: element_size dest: field_size)

declare env_subst.simps [simp del]

definition env_field :: "(string \<Rightarrow> string) \<Rightarrow> string \<Rightarrow> 'n json \<Rightarrow> 'n json" where
  "env_field f k v =
     (if k = ''env'' then (case v of JArray items \<Rightarrow> JArray (map (env_entry f) items) | _ \<Rightarrow> env_subst f v) else env_subst f v)"

definition env_fields :: "(string \<Rightarrow> string) \<Rightarrow> 'n object \<Rightarrow> 'n object" where
  "env_fields f m = map (\<lambda>kv. (fst kv, env_field f (fst kv) (snd kv))) m"

lemma env_subst_cases [simp]:
  "env_subst f (JObject m) = JObject (env_fields f m)"
  "env_subst f (JArray xs) = JArray (map (env_subst f) xs)"
  "env_subst f JNull = JNull" "env_subst f (JBool b) = JBool b" "env_subst f (JNumber n) = JNumber n"
  "env_subst f (JString s) = JString s"
  by (simp_all add: env_subst.simps [of f] env_fields_def env_field_def)

lemma update_same: "map_of m k = Some v \<Longrightarrow> AList.update k v m = m"
  by (induction m) auto

lemma update_twice: "AList.update k v (AList.update k w m) = AList.update k v m"
  by (induction m) auto

definition blanked :: "string \<Rightarrow> string" where "blanked v = (if v = '''' then '''' else redacted_env_value)"

lemma scrub_entry_env: "scrub_entry item = env_entry blanked item"
  by (auto simp: scrub_entry_def env_entry_def blanked_def mput_def mget_def update_same split: json.splits option.splits)

definition scrub_field :: "string \<Rightarrow> 'n json \<Rightarrow> 'n json" where
  "scrub_field k v =
     (if k = ''env'' then (case v of JArray items \<Rightarrow> JArray (map scrub_entry items) | _ \<Rightarrow> scrub_env_values v)
      else scrub_env_values v)"

lemma scrub_cases:
  "scrub_env_values (JObject m) = JObject (map (\<lambda>kv. (fst kv, scrub_field (fst kv) (snd kv))) m)"
  "scrub_env_values (JArray xs) = JArray (map scrub_env_values xs)"
  "scrub_env_values JNull = JNull" "scrub_env_values (JBool b) = JBool b" "scrub_env_values (JNumber n) = JNumber n"
  "scrub_env_values (JString s) = JString s"
  by (simp_all add: scrub_env_values.simps scrub_field_def)

lemma scrub_field_env: "scrub_env_values v = env_subst blanked v \<Longrightarrow> scrub_field k v = env_field blanked k v"
  by (cases v) (auto simp: scrub_field_def env_field_def scrub_entry_env)

lemma scrub_env: "scrub_env_values j = env_subst blanked j"
proof (induction j)
  case (JObject m)
  have "scrub_field (fst kv) (snd kv) = env_field blanked (fst kv) (snd kv)" if "kv \<in> set m" for kv
    using JObject [OF that] by (intro scrub_field_env) (cases kv, simp)
  then show ?case by (simp add: scrub_cases env_fields_def)
qed (simp_all add: scrub_cases)

lemma env_entry_entry: "env_entry g (env_entry f item) = env_entry (\<lambda>v. g (f v)) item"
  by (auto simp: env_entry_def mput_def mget_def update_twice update_conv' split: json.splits option.splits)

lemma env_field_field:
  "env_subst g (env_subst f v) = env_subst (\<lambda>v. g (f v)) v \<Longrightarrow> env_field g k (env_field f k v) = env_field (\<lambda>v. g (f v)) k v"
  by (cases v) (auto simp: env_field_def env_entry_entry)

lemma env_subst_subst: "env_subst g (env_subst f j) = env_subst (\<lambda>v. g (f v)) j"
proof (induction j)
  case (JObject m)
  have "env_field g (fst kv) (env_field f (fst kv) (snd kv)) = env_field (\<lambda>v. g (f v)) (fst kv) (snd kv)" if "kv \<in> set m" for kv
    using JObject [OF that] by (intro env_field_field) (cases kv, simp)
  then show ?case by (simp add: env_fields_def)
qed simp_all

lemma mget_env_fields: "mget (env_fields f m) k = map_option (env_field f k) (mget m k)"
  by (induction m) (auto simp: env_fields_def mget_def)

lemma mkeys_env_fields [simp]: "mkeys (env_fields f m) = mkeys m"
  by (simp add: mkeys_def env_fields_def comp_def)

lemma mdel_env_fields: "mdel k (env_fields f m) = env_fields f (mdel k m)"
  by (simp add: mdel_def env_fields_def AList.delete_eq filter_map comp_def case_prod_unfold)

lemma mput_env_fields: "k \<noteq> ''env'' \<Longrightarrow> mput k (env_subst f v) (env_fields f m) = env_fields f (mput k v m)"
  by (induction m) (auto simp: mput_def env_fields_def env_field_def)

lemma object_at_env: "k \<noteq> ''env'' \<Longrightarrow> object_at (env_fields f m) k = map_option (env_fields f) (object_at m k)"
  by (auto simp: object_at_def mget_env_fields env_field_def split: option.splits json.splits)

lemma array_at_env: "k \<noteq> ''env'' \<Longrightarrow> array_at (env_fields f m) k = map_option (map (env_subst f)) (array_at m k)"
  by (auto simp: array_at_def mget_env_fields env_field_def split: option.splits json.splits)

lemma env_subst_scalar:
  "(env_subst f v = JString s) = (v = JString s)" "(env_subst f v = JNumber n) = (v = JNumber n)"
  by (cases v; simp)+

lemma scalar_at_env:
  assumes "k \<noteq> ''env''"
  shows "(mget (env_fields f m) k = Some (JString s)) = (mget m k = Some (JString s))"
    and "(mget (env_fields f m) k = Some (JNumber n)) = (mget m k = Some (JNumber n))"
  using assms by (auto simp: mget_env_fields env_field_def env_subst_scalar)

lemma str_at_env:
  assumes "k \<noteq> ''env''"
  shows "str_at (env_fields f m) k = str_at m k"
proof (cases "mget m k")
  case (Some v)
  with assms show ?thesis by (cases v) (simp_all add: str_at_def mget_env_fields env_field_def)
qed (simp add: str_at_def mget_env_fields)

lemma env_fields_empty [simp]: "env_fields f m = [] \<longleftrightarrow> m = []"
  by (simp add: env_fields_def)

lemma strip_meta_env: "strip_meta (env_fields f meta) = env_fields f (strip_meta meta)"
proof -
  define m where "m = mdel ''resourceVersion'' (mdel ''managedFields'' meta)"
  have "object_at (env_fields f m) ''annotations'' = map_option (env_fields f) (object_at m ''annotations'')"
    by (simp add: object_at_env)
  moreover have "mput ''annotations'' (JObject (env_fields f a)) (env_fields f m) = env_fields f (mput ''annotations'' (JObject a) m)" for a
    using mput_env_fields [of "''annotations''" f "JObject a" m] by simp
  ultimately show ?thesis
    by (cases "object_at m ''annotations''") (simp_all add: strip_meta_def mdel_env_fields Let_def flip: m_def)
qed

lemma normalize_env:
  assumes "\<forall>v. f v = '''' \<longleftrightarrow> v = ''''"
  shows "normalize_manifest (env_fields f content) = normalize_manifest content"
proof -
  have "blanked (f v) = blanked v" for v using assms by (simp add: blanked_def)
  then have scrubbed: "scrub_env_values (JObject (env_fields f m)) = scrub_env_values (JObject m)" for m
    using env_subst_subst [of blanked f "JObject m"] by (simp add: scrub_env)
  have "mput ''metadata'' (JObject (env_fields f m)) (env_fields f content) = env_fields f (mput ''metadata'' (JObject m) content)" for m
    using mput_env_fields [of "''metadata''" f "JObject m" content] by simp
  then show ?thesis
    by (cases "object_at content ''metadata''") (simp_all add: normalize_manifest_def object_at_env strip_meta_env scrubbed Let_def)
qed

lemma actor_step_env: "actor_step ky (env_subst f field) = actor_step ky field"
proof (cases field)
  case (JObject m)
  have "(case mget (env_fields f m) ''time'' of Some (JString raw) \<Rightarrow> (case ky_time ky raw of Some t \<Rightarrow> t | None \<Rightarrow> zero_time) | _ \<Rightarrow> zero_time) =
      (case mget m ''time'' of Some (JString raw) \<Rightarrow> (case ky_time ky raw of Some t \<Rightarrow> t | None \<Rightarrow> zero_time) | _ \<Rightarrow> zero_time)"
  proof (cases "mget m ''time''")
    case (Some v)
    then show ?thesis by (cases v) (simp_all add: mget_env_fields env_field_def)
  qed (simp add: mget_env_fields)
  with JObject show ?thesis by (simp add: actor_step_def str_at_env fun_eq_iff Let_def)
qed (simp_all add: actor_step_def fun_eq_iff)

lemma record_actor_env: "record_actor ky (env_fields f meta) = record_actor ky meta"
proof -
  have "fold (actor_step ky) (map (env_subst f) xs) = fold (actor_step ky) xs" for xs
    by (induction xs) (simp_all add: actor_step_env)
  then show ?thesis by (simp add: record_actor_def array_at_env split: option.splits)
qed

lemma collect_owned_env: "collect_owned ky path (env_fields f m) st = collect_owned ky path m st"
proof (induction ky path m st rule: collect_owned.induct)
  case (1 ky path m st)
  have same: "(case mget (env_fields f m) key of
        Some (JObject sub) \<Rightarrow> if sub = [] then claim_path p st else collect_owned ky p sub st | _ \<Rightarrow> claim_path p st) =
      (case mget m key of
        Some (JObject sub) \<Rightarrow> if sub = [] then claim_path p st else collect_owned ky p sub st | _ \<Rightarrow> claim_path p st)"
    if key: "key \<in> set (sort_strings (mkeys m))" and here: "owned_child ky path key = Some p"
      "\<not> snd st \<le> 0" "\<not> (key = ''.'' \<or> has_prefix key ''v:'')" for key p st
  proof (cases "mget m key")
    case (Some v)
    have "key \<noteq> ''env''" using here(1) by (auto simp: owned_child_def has_prefix_def split: if_splits)
    moreover have "collect_owned ky p (env_fields f sub) st = collect_owned ky p sub st" if "v = JObject sub" "sub \<noteq> []" for sub
      by (rule 1 [OF key here(2,3,1) Some that])
    ultimately show ?thesis using Some by (cases v) (auto simp: mget_env_fields env_field_def)
  qed (simp add: mget_env_fields)
  show ?case
    unfolding collect_owned.simps [of ky path "env_fields f m"] collect_owned.simps [of ky path m] mkeys_env_fields
    by (intro fold_cong refl ext) (auto simp: same split: option.splits)
qed

lemma owner_entry_env: "owner_entry ky (env_subst f field) = owner_entry ky field"
proof (cases field)
  case (JObject m)
  then show ?thesis
    by (cases "object_at m ''fieldsV1''") (simp_all add: owner_entry_def str_at_env object_at_env collect_owned_env fun_eq_iff)
qed (simp_all add: owner_entry_def fun_eq_iff)

lemma owners_of_env: "owners_of ky (env_fields f meta) = owners_of ky meta"
proof -
  have "fold (owner_entry ky) (map (env_subst f) xs) = fold (owner_entry ky) xs" for xs
    by (induction xs) (simp_all add: owner_entry_env)
  then show ?thesis by (simp add: owners_of_def array_at_env split: option.splits)
qed

text \<open>C7. Inline environment values, the classic place of a secret in a pod definition, reach nothing that is
recorded: replacing every such value in an object, wherever its containers are nested, by any other
that is empty just where it was, leaves the whole observation as it is: the manifest, both hashes, the
actor and the owners of its fields.\<close>

theorem environment_values_do_not_leak:
  assumes "\<forall>v. f v = '''' \<longleftrightarrow> v = ''''"
  shows "observation_from ky scope (env_fields f content) deleted = observation_from ky scope content deleted"
proof -
  have version: "(case mget (env_fields f content) ''apiVersion'' of Some (JString v) \<Rightarrow> ky_group_version ky v | _ \<Rightarrow> None) =
      (case mget content ''apiVersion'' of Some (JString v) \<Rightarrow> ky_group_version ky v | _ \<Rightarrow> None)"
  proof (cases "mget content ''apiVersion''")
    case (Some v)
    then show ?thesis by (cases v) (simp_all add: mget_env_fields env_field_def)
  qed (simp add: mget_env_fields)
  have generation: "(case mget (env_fields f meta) ''generation'' of
        Some (JNumber n) \<Rightarrow> (case ky_int64 ky n of Some i \<Rightarrow> i | None \<Rightarrow> 0) | _ \<Rightarrow> 0) =
      (case mget meta ''generation'' of Some (JNumber n) \<Rightarrow> (case ky_int64 ky n of Some i \<Rightarrow> i | None \<Rightarrow> 0) | _ \<Rightarrow> 0)" for meta
  proof (cases "mget meta ''generation''")
    case (Some v)
    then show ?thesis by (cases v) (simp_all add: mget_env_fields env_field_def)
  qed (simp add: mget_env_fields)
  show ?thesis
    by (cases "object_at content ''metadata''")
      (simp_all add: observation_from_def version generation object_at_env str_at_env record_actor_env owners_of_env
        normalize_env [OF assms] Let_def cong: option.case_cong)
qed

section \<open>The bound on owned paths\<close>

lemma fold_invariant: "P s \<Longrightarrow> (\<And>x s. x \<in> set xs \<Longrightarrow> P s \<Longrightarrow> P (f x s)) \<Longrightarrow> P (fold f xs s)"
  by (induction xs arbitrary: s) auto

definition owned_from :: "owned \<Rightarrow> owned \<Rightarrow> bool" where
  "owned_from st st' \<longleftrightarrow> int (length (fst st')) + snd st' = int (length (fst st)) + snd st \<and> (0 \<le> snd st \<longrightarrow> 0 \<le> snd st')"

lemma owned_from_refl [simp]: "owned_from st st"
  by (simp add: owned_from_def)

lemma owned_from_claim: "0 < snd st \<Longrightarrow> owned_from st0 st \<Longrightarrow> owned_from st0 (claim_path p st)"
  by (auto simp: owned_from_def claim_path_def)

lemma owned_from_trans: "owned_from a b \<Longrightarrow> owned_from b c \<Longrightarrow> owned_from a c"
  by (auto simp: owned_from_def)

lemma collect_owned_from: "owned_from st (collect_owned ky path m st)"
proof (induction ky path m st rule: collect_owned.induct)
  case (1 ky path m st)
  show ?case
    unfolding collect_owned.simps [of ky path m]
  proof (rule fold_invariant)
    fix key s assume key: "key \<in> set (sort_strings (mkeys m))" and s: "owned_from st s"
    have "owned_from st (collect_owned ky p sub s)"
      if "owned_child ky path key = Some p" "\<not> snd s \<le> 0" "\<not> (key = ''.'' \<or> has_prefix key ''v:'')"
        "mget m key = Some (JObject sub)" "sub \<noteq> []" for p sub
      using owned_from_trans [OF s 1 [OF key that(2,3,1,4) refl that(5)]] .
    with s show "owned_from st
        (if snd s \<le> 0 then s
         else if key = ''.'' \<or> has_prefix key ''v:'' then (if path \<noteq> '''' then claim_path path s else s)
         else case owned_child ky path key of None \<Rightarrow> s
              | Some p \<Rightarrow> (case mget m key of
                   Some (JObject sub) \<Rightarrow> if sub = [] then claim_path p s else collect_owned ky p sub s | _ \<Rightarrow> claim_path p s))"
      by (auto simp: owned_from_claim split: option.splits json.splits)
  qed simp
qed

definition held_paths :: "(string, string list) gomap \<Rightarrow> nat" where
  "held_paths m = sum_list (map (\<lambda>p. length (snd p)) m)"

lemma held_paths_mput: "held_paths (mput k ((case mget m k of None \<Rightarrow> [] | Some ps \<Rightarrow> ps) @ paths) m) = held_paths m + length paths"
  by (induction m) (auto simp: held_paths_def mput_def mget_def)

lemma owner_entry_budget:
  assumes "map_ok (fst st)" "int (held_paths (fst st)) + snd st \<le> max_owned_paths" "0 \<le> snd st"
  shows "map_ok (fst (owner_entry ky field st)) \<and>
    int (held_paths (fst (owner_entry ky field st))) + snd (owner_entry ky field st) \<le> max_owned_paths \<and>
    0 \<le> snd (owner_entry ky field st)"
proof (cases "\<exists>m tree. field = JObject m \<and> str_at m ''manager'' \<noteq> '''' \<and> object_at m ''fieldsV1'' = Some tree")
  case False
  then have "owner_entry ky field st = st" by (auto simp: owner_entry_def split: json.splits option.splits)
  with assms show ?thesis by simp
next
  case True
  then obtain m tree where field: "field = JObject m" "str_at m ''manager'' \<noteq> ''''" "object_at m ''fieldsV1'' = Some tree" by blast
  obtain paths budget where walk: "collect_owned ky '''' tree ([], snd st) = (paths, budget)" by fastforce
  have "int (length paths) + budget = snd st" "0 \<le> budget"
    using collect_owned_from [of "([], snd st)" ky "''''" tree] assms(3) by (simp_all add: walk owned_from_def)
  with assms field walk show ?thesis
    by (auto simp: owner_entry_def held_paths_mput)
qed

lemma sum_over_keys:
  assumes "map_ok m"
  shows "sum_list (map (\<lambda>k. length (case mget m k of None \<Rightarrow> [] | Some ps \<Rightarrow> ps)) (mkeys m)) = held_paths m"
proof -
  have "(case mget m (fst p) of None \<Rightarrow> [] | Some ps \<Rightarrow> ps) = snd p" if "p \<in> set m" for p
    using mget_of_set [OF assms, of "fst p" "snd p"] that by simp
  then have "map ((\<lambda>k. length (case mget m k of None \<Rightarrow> [] | Some ps \<Rightarrow> ps)) \<circ> fst) m = map (\<lambda>p. length (snd p)) m" by simp
  then show ?thesis unfolding mkeys_def held_paths_def by (simp only: map_map)
qed

text \<open>What is kept of the ownership of an object is bounded: over all its managers an observation holds at
most 128 paths, whatever managed fields the object carries.\<close>

theorem owned_paths_are_bounded:
  "sum_list (map (\<lambda>o'. length (fo_paths o')) (owners_of ky meta)) \<le> 128"
proof (cases "array_at meta ''managedFields''")
  case None
  then show ?thesis by (simp add: owners_of_def)
next
  case (Some managed)
  define m where "m = fst (fold (owner_entry ky) managed ([], max_owned_paths))"
  define paths where "paths k = (case mget m k of None \<Rightarrow> [] | Some ps \<Rightarrow> ps)" for k
  let ?ok = "\<lambda>st. map_ok (fst st) \<and> int (held_paths (fst st)) + snd st \<le> max_owned_paths \<and> 0 \<le> snd st"
  have "?ok (fold (owner_entry ky) managed ([], max_owned_paths))"
  proof (rule fold_invariant)
    show "?ok ([] :: (string, string list) gomap, max_owned_paths)"
      by (simp add: held_paths_def max_owned_paths_def map_ok_def mkeys_def)
  next
    fix field and st :: "(string, string list) gomap \<times> int"
    assume "?ok st"
    then show "?ok (owner_entry ky field st)" using owner_entry_budget by blast
  qed
  then have m: "map_ok m" "held_paths m \<le> 128" by (auto simp: m_def max_owned_paths_def)
  have "sum_list (map (\<lambda>o'. length (fo_paths o')) (owners_of ky meta)) =
      sum_list (map (\<lambda>k. length (remdups_adj (sort_strings (paths k)))) (sort_strings (mkeys m)))"
    using Some by (simp add: owners_of_def Let_def m_def paths_def comp_def)
  also have "\<dots> \<le> sum_list (map (\<lambda>k. length (paths k)) (sort_strings (mkeys m)))"
    by (rule sum_list_mono) (metis length_sort_by remdups_adj_length sort_strings_def)
  also have "\<dots> = sum_list (map (\<lambda>k. length (paths k)) (mkeys m))"
    by (simp add: sort_strings_def flip: sum_mset_sum_list)
  also have "\<dots> = held_paths m" using sum_over_keys [OF m(1)] by (simp add: paths_def)
  finally show ?thesis using m(2) by simp
qed

section \<open>A seed is a whole listing\<close>

definition is_member :: "('n object \<Rightarrow> go_error + ('t \<times> bool)) \<Rightarrow> 'n object \<Rightarrow> bool" where
  "is_member convert content \<longleftrightarrow> (case convert content of Inl err \<Rightarrow> False | Inr (facts, member) \<Rightarrow> member)"

definition converts :: "('n object \<Rightarrow> go_error + ('t \<times> bool)) \<Rightarrow> 'n object \<Rightarrow> bool" where
  "converts convert content \<longleftrightarrow> (\<exists>facts member. convert content = Inr (facts, member))"

text \<open>The items of a listing that is walked to its end.\<close>

fun whole_listing :: "'n page list \<Rightarrow> 'n object list option" where
  "whole_listing [] = None"
| "whole_listing (PageFailed err # pages) = None"
| "whole_listing (Page items continues rv # pages) =
     (if continues then map_option (\<lambda>rest. items @ rest) (whole_listing pages) else Some items)"

definition object_uid :: "'n object \<Rightarrow> string" where
  "object_uid content = (case object_at content ''metadata'' of None \<Rightarrow> '''' | Some meta \<Rightarrow> str_at meta ''uid'')"

lemma observation_from_uid:
  "observation_from ky scope content deleted = Inr obs \<Longrightarrow> obs_uid obs = object_uid content \<and> obs_deleted obs = deleted \<and> obs_scope obs = scope"
  by (auto simp: observation_from_def object_uid_def Let_def split: option.splits if_splits prod.splits)

lemma seed_add_calls [simp]: "kp_calls (snd (seed_add ky c st)) = kp_calls (snd st)"
  by (auto simp: seed_add_def log_capture_failed_def split: prod.splits option.splits sum.splits)

lemma seed_adds_calls [simp]: "kp_calls (snd (fold (seed_add ky) cs st)) = kp_calls (snd st)"
  by (induction cs arbitrary: st) simp_all

lemma seed_add_recorder: "fst (seed_add ky c st) = fst (seed_add ky c (fst st, t))"
  by (cases st) (simp add: seed_add_def split: option.splits sum.splits)

lemma seed_adds_recorder: "fst (fold (seed_add ky) cs st) = fst (fold (seed_add ky) cs (fst st, t))"
proof (induction cs arbitrary: st t)
  case (Cons c cs)
  have "fst (fold (seed_add ky) cs (seed_add ky c (fst st, t))) =
      fst (fold (seed_add ky) cs (fst (seed_add ky c (fst st, t)), snd (seed_add ky c st)))"
    using Cons.IH by blast
  also have "(fst (seed_add ky c (fst st, t)), snd (seed_add ky c st)) = seed_add ky c st"
    unfolding seed_add_recorder [of ky c st t, symmetric] by (rule prod.collapse)
  finally show ?case by simp
qed simp

lemma log_excluded_calls [simp]: "kp_calls (log_excluded name s) = kp_calls s"
  by (simp add: log_excluded_def split: option.split)

lemma page_items_adds:
  "page_items ky convert excluded items kept st = (res, st') \<Longrightarrow>
   kp_calls (snd st') = kp_calls (snd st) \<and>
   (\<forall>kept'. res = Inr kept' \<longrightarrow> fst st' = fst (fold (seed_add ky) (filter (is_member convert) items) st) \<and>
     (\<forall>c \<in> set items. converts convert c))"
proof (induction items arbitrary: kept st)
  case (Cons content rest)
  show ?case
  proof (cases "convert content")
    case (Inr v)
    obtain facts member where v: "v = (facts, member)" by (cases v)
    have members: "filter (is_member convert) (content # rest) = (if member then content # filter (is_member convert) rest else filter (is_member convert) rest)"
      using Inr v by (simp add: is_member_def)
    let ?st = "if member then seed_add ky content st else (fst st, log_excluded (excluded facts) (snd st))"
    from Inr v Cons.prems
    have "page_items ky convert excluded rest (if member then kept @ [facts] else kept) ?st = (res, st')"
      by (simp split: if_splits)
    from Cons.IH [OF this] show ?thesis unfolding members
      using seed_adds_recorder [of ky "filter (is_member convert) rest" st "log_excluded (excluded facts) (snd st)"]
      by (auto simp: converts_def Inr v split: if_splits)
  qed (use Cons.prems in auto)
qed auto

lemma commit_calls:
  "kp_calls (seed_commit complete (r, s)) = kp_calls s @
     (case r of None \<Rightarrow> [] | Some r \<Rightarrow> if complete \<and> \<not> sx_degraded r then [CallSeed (sx_scope r) (sx_obs r)] else map CallObserve (sx_obs r))"
proof -
  have "kp_calls (fold (\<lambda>obs. tell (CallObserve obs)) xs s) = kp_calls s @ map CallObserve xs" for xs
    by (induction xs arbitrary: s) (simp_all add: tell_def)
  then show ?thesis by (simp add: seed_commit_def tell_def split: option.split)
qed

text \<open>What one listing tells the recorder: nothing, the collected members one by one, or their seed, and
the last of these where the pages were walked to their end.\<close>

lemma list_pages_calls:
  assumes "list_pages ky convert excluded enough pages kept examined st = (res, s')"
  shows "kp_calls s' = kp_calls (snd st) \<or> (\<exists>r t. kp_calls t = kp_calls (snd st) \<and> kp_calls s' = kp_calls (seed_commit False (r, t))) \<or>
    (\<exists>items t. whole_listing pages = Some items \<and> kp_calls t = kp_calls (snd st) \<and>
      s' = seed_commit True (fst (fold (seed_add ky) (filter (is_member convert) items) st), t) \<and>
      (\<forall>c \<in> set items. converts convert c))"
  using assms
proof (induction ky convert excluded enough pages kept examined st rule: list_pages.induct)
  case (3 ky convert excluded enough items continues rv pages kept examined st)
  obtain out st' where step: "page_items ky convert excluded items kept st = (out, st')"
    by (cases "page_items ky convert excluded items kept st") blast
  note adds = page_items_adds [OF step]
  show ?case
  proof (cases out)
    case (Inl err)
    with 3 step adds show ?thesis by auto
  next
    case (Inr kept')
    then have st': "fst st' = fst (fold (seed_add ky) (filter (is_member convert) items) st)"
      and calls: "kp_calls (snd st') = kp_calls (snd st)" and conv: "\<forall>c \<in> set items. converts convert c" using adds by blast+
    let ?ex = "examined + int (length items)"
    consider (last_page) "\<not> continues" | (bounded) "continues" "enough (int (length kept')) ?ex"
      | (next_page) "continues" "\<not> enough (int (length kept')) ?ex" by blast
    then show ?thesis
    proof cases
      case last_page
      with 3(2) step Inr have "s' = seed_commit True st'" by auto
      then have "s' = seed_commit True (fst (fold (seed_add ky) (filter (is_member convert) items) st), snd st')"
        using st' by (metis prod.collapse)
      with last_page calls conv show ?thesis by auto
    next
      case bounded
      with 3(2) step Inr have "s' = seed_commit False st'" by auto
      with calls show ?thesis by (metis prod.collapse)
    next
      case next_page
      with 3(2) step Inr have rest: "list_pages ky convert excluded enough pages kept' ?ex st' = (res, s')" by simp
      have same: "fst (fold (seed_add ky) cs st') = fst (fold (seed_add ky) cs (fold (seed_add ky) (filter (is_member convert) items) st))" for cs
        using seed_adds_recorder [of ky cs "fold (seed_add ky) (filter (is_member convert) items) st" "snd st'"] unfolding st' [symmetric] by simp
      from 3(1) [OF step [symmetric] Inr refl _ next_page(2) rest] next_page(1)
      consider (none) "kp_calls s' = kp_calls (snd st')"
        | (part) q t where "kp_calls t = kp_calls (snd st')" "kp_calls s' = kp_calls (seed_commit False (q, t))"
        | (whole) its t where "whole_listing pages = Some its" "kp_calls t = kp_calls (snd st')"
            "s' = seed_commit True (fst (fold (seed_add ky) (filter (is_member convert) its) st'), t)" "\<forall>c \<in> set its. converts convert c"
        by blast
      then show ?thesis
      proof cases
        case whole
        let ?all = "items @ its"
        have "whole_listing (Page items continues rv # pages) = Some ?all" using whole(1) next_page(1) by simp
        moreover have "s' = seed_commit True (fst (fold (seed_add ky) (filter (is_member convert) ?all) st), t)"
          using whole(3) same by simp
        moreover have "\<forall>c \<in> set ?all. converts convert c" using conv whole(4) by auto
        moreover have "kp_calls t = kp_calls (snd st)" using whole(2) calls by simp
        ultimately show ?thesis by blast
      qed (use calls in \<open>simp_all, blast\<close>)
    qed
  qed
qed auto

lemma seed_adds_none [simp]: "fold (seed_add ky) cs (None, s) = (None, s)"
  by (induction cs) (simp_all add: seed_add_def)

text \<open>A recorder that is not degraded holds the observation of each object it was given, in order.\<close>

lemma seed_adds_some:
  "\<exists>r' s'. fold (seed_add ky) cs (Some r, s) = (Some r', s') \<and> sx_scope r' = sx_scope r \<and>
     (\<not> sx_degraded r' \<longrightarrow> \<not> sx_degraded r \<and>
       map Inr (sx_obs r') = map Inr (sx_obs r) @ map (\<lambda>c. observation_from ky (sx_scope r) c False) cs)"
proof (induction cs arbitrary: r s)
  case (Cons c cs)
  show ?case
  proof (cases "observation_from ky (sx_scope r) c False")
    case (Inl err)
    from Cons.IH [of "r\<lparr>sx_degraded := True\<rparr>" "log_capture_failed (sx_scope r) err s"] Inl
    show ?thesis by (auto simp: seed_add_def)
  next
    case (Inr obs)
    from Cons.IH [of "r\<lparr>sx_obs := sx_obs r @ [obs]\<rparr>" s] Inr
    show ?thesis by (auto simp: seed_add_def)
  qed
qed simp

lemma seed_of_listing:
  assumes "run_listing ky convert excluded enough keep scope pages s = (res, s')"
    and new: "CallSeed sc obs \<in> set (drop (length (kp_calls s)) (kp_calls s'))"
  obtains items where "whole_listing pages = Some items" "sc = scope"
    "map Inr obs = map (\<lambda>c. observation_from ky scope c False) (filter (is_member convert) items)"
    "\<forall>c \<in> set items. converts convert c"
proof -
  define r where "r = (if keep then seed_record scope s else None)"
  have run: "list_pages ky convert excluded enough pages [] 0 (r, s) = (res, s')"
    using assms(1) by (simp add: run_listing_def r_def)
  have partial: False if "kp_calls t = kp_calls s" "kp_calls s' = kp_calls (seed_commit False (q, t))" for q t
    using new that by (auto simp: commit_calls split: option.splits)
  from list_pages_calls [OF run] new partial obtain items t where items: "whole_listing pages = Some items"
    "s' = seed_commit True (fst (fold (seed_add ky) (filter (is_member convert) items) (r, s)), t)" "kp_calls t = kp_calls s"
    "\<forall>c \<in> set items. converts convert c"
    by (auto simp: drop_all)
  let ?st = "fold (seed_add ky) (filter (is_member convert) items) (r, s)"
  have calls: "kp_calls s' = kp_calls s @ (case fst ?st of None \<Rightarrow> []
      | Some r \<Rightarrow> if \<not> sx_degraded r then [CallSeed (sx_scope r) (sx_obs r)] else map CallObserve (sx_obs r))"
    using commit_calls [of True "fst ?st" t] items(2,3) by (simp cong: option.case_cong)
  with new obtain r' where r': "fst ?st = Some r'" "\<not> sx_degraded r'" "sc = sx_scope r'" "obs = sx_obs r'"
    by (auto split: option.splits if_splits)
  then have "r \<noteq> None" by (cases r) simp_all
  then have r: "r = Some \<lparr>sx_scope = scope, sx_obs = [], sx_degraded = False\<rparr>"
    by (auto simp: r_def seed_record_def split: if_splits)
  from seed_adds_some [of ky "filter (is_member convert) items" "\<lparr>sx_scope = scope, sx_obs = [], sx_degraded = False\<rparr>" s] r r'
  have "sc = scope \<and> map Inr obs = map (\<lambda>c. observation_from ky scope c False) (filter (is_member convert) items)"
    by auto
  with that items(1,4) show thesis by blast
qed

lemma alive_after_observe: "mget (hs_objects s) u \<noteq> None \<Longrightarrow> \<not> obs_deleted o' \<Longrightarrow> mget (hs_objects (observe o' now sd s)) u \<noteq> None"
  by (rule present.observe_P) simp_all

lemma observed_is_alive: "\<not> obs_deleted o' \<Longrightarrow> mget (hs_objects (observe o' now sd s)) (obs_uid o') \<noteq> None"
  using hashes_observed [of o' now sd s] by (auto simp: hashes_def)

lemma seeded_are_alive:
  assumes "o' \<in> set obs" "\<forall>x \<in> set obs. \<not> obs_deleted x"
  shows "mget (hs_objects (store_seed scope obs now s)) (obs_uid o') \<noteq> None"
proof -
  have keep: "mget (hs_objects (fold (\<lambda>x. observe x now True) xs t)) u \<noteq> None"
    if "mget (hs_objects t) u \<noteq> None" "\<forall>x \<in> set xs. \<not> obs_deleted x" for xs t u
    using that by (induction xs arbitrary: t) (simp_all add: alive_after_observe del: not_None_eq)
  have "mget (hs_objects (fold (\<lambda>x. observe x now True) xs t)) (obs_uid o') \<noteq> None"
    if "o' \<in> set xs" "\<forall>x \<in> set xs. \<not> obs_deleted x" for xs t
    using that
  proof (induction xs arbitrary: t)
    case (Cons x xs)
    show ?case
    proof (cases "o' \<in> set xs")
      case False
      with Cons.prems have "mget (hs_objects (observe x now True t)) (obs_uid o') \<noteq> None"
        using observed_is_alive [of o' now True t] by auto
      with keep Cons.prems(2) show ?thesis by simp
    qed (use Cons in simp)
  qed simp
  then show ?thesis using assms by (simp add: store_seed_def)
qed

text \<open>C6. Absence implies deletion only where nothing is absent by accident. Whatever the pages of a listing
answer, a seed reaches the recorder only if the pages were walked to their end, none failed, and every
object of the listing, member or not, was converted and every member observed; it is then, for the listing's own scope, exactly the observations of the
members of the whole listing, in order. So a history that takes it in marks no listed member as gone:
after the seed every one of them is live in the store, and the scope holds no other object.\<close>

theorem seeds_are_whole_listings:
  assumes "run_listing ky convert excluded enough keep scope pages s = (res, s')"
    and "CallSeed sc obs \<in> set (drop (length (kp_calls s)) (kp_calls s'))"
    and "history_ok hist"
  shows "\<exists>items. whole_listing pages = Some items \<and> sc = scope \<and>
    (\<forall>content \<in> set items. \<exists>facts member. convert content = Inr (facts, member)) \<and>
    map Inr obs = map (\<lambda>c. observation_from ky scope c False) (filter (is_member convert) items) \<and>
    (\<forall>c \<in> set (filter (is_member convert) items).
      mget (hs_objects (recorded now (CallSeed sc obs) hist)) (object_uid c) \<noteq> None) \<and>
    set (scope_set (recorded now (CallSeed sc obs) hist) scope) \<subseteq> object_uid ` set (filter (is_member convert) items)"
proof -
  from assms(1,2) obtain items where items: "whole_listing pages = Some items" "sc = scope"
    and obs: "map Inr obs = map (\<lambda>c. observation_from ky scope c False) (filter (is_member convert) items)"
    and conv: "\<forall>c \<in> set items. converts convert c"
    by (rule seed_of_listing)
  let ?members = "filter (is_member convert) items"
  have of_member: "\<exists>o' \<in> set obs. observation_from ky scope c False = Inr o'" if "c \<in> set ?members" for c
  proof -
    have "observation_from ky scope c False \<in> set (map Inr obs)" unfolding obs using that by simp
    then show ?thesis by auto
  qed
  have of_obs: "\<exists>c \<in> set ?members. observation_from ky scope c False = Inr o'" if "o' \<in> set obs" for o'
  proof -
    have "Inr o' \<in> set (map (\<lambda>c. observation_from ky scope c False) ?members)" unfolding obs [symmetric] using that by simp
    then show ?thesis by force
  qed
  have alive: "\<forall>x \<in> set obs. \<not> obs_deleted x"
    using of_obs observation_from_uid by fastforce
  have "mget (hs_objects (store_seed scope obs now hist)) (object_uid c) \<noteq> None" if "c \<in> set ?members" for c
    using of_member [OF that] seeded_are_alive [OF _ alive] observation_from_uid by metis
  moreover have "obs_uid ` set obs \<subseteq> object_uid ` set ?members"
    using of_obs observation_from_uid by fastforce
  then have "set (scope_set (store_seed scope obs now hist) scope) \<subseteq> object_uid ` set ?members"
    using seeded_scope [OF assms(3), of scope obs now scope] by auto
  moreover have "\<forall>content \<in> set items. \<exists>facts member. convert content = Inr (facts, member)"
    using conv by (simp add: converts_def)
  ultimately show ?thesis using items obs by auto
qed

section \<open>Churn is not a change\<close>

text \<open>The object as the API server returns it later when nothing but its bookkeeping changed: other managed
fields, another resource version, another last-applied annotation.\<close>

definition reapplied :: "'n json \<Rightarrow> 'n object \<Rightarrow> 'n object" where
  "reapplied applied meta =
     (case mget meta ''annotations'' of
        None \<Rightarrow> mput ''annotations'' (JObject [(last_applied_annotation, applied)]) meta
      | Some (JObject annotations) \<Rightarrow> mput ''annotations'' (JObject (mput last_applied_annotation applied annotations)) meta
      | _ \<Rightarrow> meta)"

definition churned :: "'n json \<Rightarrow> 'n json \<Rightarrow> 'n json \<Rightarrow> 'n object \<Rightarrow> 'n object" where
  "churned managed version applied content =
     (case object_at content ''metadata'' of
        None \<Rightarrow> content
      | Some meta \<Rightarrow>
          mput ''metadata'' (JObject (reapplied applied (mput ''resourceVersion'' version (mput ''managedFields'' managed meta)))) content)"

lemma mdel_mput: "mdel k (mput j v m) = (if j = k then mdel k m else mput j v (mdel k m))"
  by (simp add: mdel_def mput_def delete_update delete_update_same)

lemma put_twice: "mput k v (mput k w m) = mput k v m"
  by (simp add: mput_def update_twice)

lemma del_absent: "mget m k = None \<Longrightarrow> mdel k m = m"
  by (simp add: mget_def mdel_def map_of_eq_None_iff)

lemma strip_reapplied: "strip_meta (reapplied applied meta) = strip_meta meta"
proof -
  define m where "m = mdel ''resourceVersion'' (mdel ''managedFields'' meta)"
  have bare: "mget m ''annotations'' = mget meta ''annotations''" by (simp add: m_def mget_mdel)
  have same: "mdel ''resourceVersion'' (mdel ''managedFields'' (mput ''annotations'' v meta)) = mput ''annotations'' v m" for v
    by (simp add: m_def mdel_mput)
  show ?thesis
  proof (cases "mget meta ''annotations''")
    case None
    moreover have "mdel last_applied_annotation [(last_applied_annotation, applied)] = []" by (simp add: mdel_def)
    ultimately show ?thesis
      by (simp add: strip_meta_def reapplied_def object_at_def same bare mdel_mput del_absent flip: m_def)
  next
    case (Some v)
    then show ?thesis
      by (cases v) (simp_all add: strip_meta_def reapplied_def object_at_def same bare mdel_mput put_twice Let_def flip: m_def)
  qed
qed

lemma strip_churn: "strip_meta (mput ''resourceVersion'' version (mput ''managedFields'' managed meta)) = strip_meta meta"
  by (simp add: strip_meta_def mdel_mput)

lemma object_at_mput: "object_at (mput k (JObject f) m) k = Some f"
  by (simp add: object_at_def)

lemma normalize_churn: "normalize_manifest (churned managed version applied content) = normalize_manifest content"
  by (cases "object_at content ''metadata''")
    (simp_all add: normalize_manifest_def churned_def object_at_mput strip_reapplied strip_churn put_twice)

lemma str_at_churn:
  "k \<noteq> ''annotations'' \<Longrightarrow> k \<noteq> ''resourceVersion'' \<Longrightarrow> k \<noteq> ''managedFields'' \<Longrightarrow>
   mget (reapplied applied (mput ''resourceVersion'' version (mput ''managedFields'' managed meta))) k = mget meta k"
  by (auto simp: reapplied_def split: option.split json.split)

lemma observation_churn:
  assumes "observation_from ky scope content deleted = Inr o1"
  shows "\<exists>o2. observation_from ky scope (churned managed version applied content) deleted = Inr o2 \<and>
    obs_uid o2 = obs_uid o1 \<and> obs_deleted o2 = obs_deleted o1 \<and> obs_manifest o2 = obs_manifest o1 \<and>
    obs_spec_hash o2 = obs_spec_hash o1 \<and> obs_status_hash o2 = obs_status_hash o1"
proof (cases "object_at content ''metadata''")
  case None
  with assms show ?thesis by (simp add: observation_from_def)
next
  case (Some meta)
  have norm: "normalize_manifest (churned managed version applied content) = normalize_manifest content" by (rule normalize_churn)
  let ?meta = "reapplied applied (mput ''resourceVersion'' version (mput ''managedFields'' managed meta))"
  have "object_at (churned managed version applied content) ''metadata'' = Some ?meta"
    using Some by (simp add: churned_def object_at_def)
  moreover have "str_at ?meta ''uid'' = str_at meta ''uid''" by (simp add: str_at_def str_at_churn)
  ultimately show ?thesis
    using assms Some norm by (auto simp: observation_from_def Let_def split: if_splits option.splits prod.splits)
qed

text \<open>C8. Bookkeeping is not history. An object whose managed fields, resource version and last-applied
annotation are replaced by any others gives an observation with the same manifest and the same
hashes, and the store that takes it in after the first one keeps its timeline as it is: no revision,
no sequence number, no eviction.\<close>

theorem churn_records_no_revision:
  assumes "observation_from ky scope content False = Inr o1"
  shows "\<exists>o2. observation_from ky scope (churned managed version applied content) False = Inr o2 \<and>
    obs_manifest o2 = obs_manifest o1 \<and>
    timeline (recorded later (CallObserve o2) (recorded now (CallObserve o1) s)) = timeline (recorded now (CallObserve o1) s)"
proof -
  from observation_churn [OF assms, of managed version applied] obtain o2
    where o2: "observation_from ky scope (churned managed version applied content) False = Inr o2"
      "obs_uid o2 = obs_uid o1" "obs_deleted o2 = obs_deleted o1" "obs_manifest o2 = obs_manifest o1"
      "obs_spec_hash o2 = obs_spec_hash o1" "obs_status_hash o2 = obs_status_hash o1" by blast
  have alive: "\<not> obs_deleted o1" using observation_from_uid [OF assms] by simp
  have "hashes (obs_uid o2) (store_observe o1 now s) = Some (obs_spec_hash o2, obs_status_hash o2)"
    using hashes_observed [OF alive, of now False s] o2 by (simp add: store_observe_def)
  with observe_unchanged [of o2 "store_observe o1 now s" later False] o2 alive
  have "timeline (store_observe o2 later (store_observe o1 now s)) = timeline (store_observe o1 now s)"
    by (simp add: timeline_def store_observe_def)
  with o2 show ?thesis by auto
qed

section \<open>Witnesses\<close>

definition sample_codec :: "int codec" where
  "sample_codec =
     \<lparr>ky_int64 = Some, ky_group_version = (\<lambda>v. Some ('''', v)), ky_time = (\<lambda>s. Some (int (length s))), ky_decode = (\<lambda>_. None),
      ky_encode = (\<lambda>j. Some (case j of JObject m \<Rightarrow> str_join '','' (mkeys m) | JString s \<Rightarrow> s | _ \<Rightarrow> ''null'')), ky_hash = (\<lambda>s. s)\<rparr>"

definition sample_pod :: "string \<Rightarrow> string \<Rightarrow> int object" where
  "sample_pod uid password =
     [(''apiVersion'', JString ''v1''), (''kind'', JString ''Pod''),
      (''metadata'', JObject [(''name'', JString uid), (''uid'', JString uid), (''resourceVersion'', JString ''7''),
         (''managedFields'', JArray [JObject [(''manager'', JString ''kubelet''), (''operation'', JString ''Update'')]])]),
      (''spec'', JObject [(''containers'', JArray [JObject [(''env'', JArray [JObject [(''name'', JString ''PGPASSWORD''),
         (''value'', JString password)]])]])])]"

definition swapped :: "string \<Rightarrow> string" where "swapped v = (if v = '''' then '''' else ''hunter2'')"

theorem environment_values_do_not_leak_witness:
  "observation_from sample_codec ''pods'' (env_fields swapped (sample_pod ''u1'' ''s3cret'')) False =
     observation_from sample_codec ''pods'' (sample_pod ''u1'' ''s3cret'') False \<and>
   mget (env_fields swapped (sample_pod ''u1'' ''s3cret'')) ''spec'' \<noteq> mget (sample_pod ''u1'' ''s3cret'') ''spec''"
proof
  show "observation_from sample_codec ''pods'' (env_fields swapped (sample_pod ''u1'' ''s3cret'')) False =
      observation_from sample_codec ''pods'' (sample_pod ''u1'' ''s3cret'') False"
    by (rule environment_values_do_not_leak) (simp add: swapped_def)
  show "mget (env_fields swapped (sample_pod ''u1'' ''s3cret'')) ''spec'' \<noteq> mget (sample_pod ''u1'' ''s3cret'') ''spec''"
    by code_simp
qed

definition sample_convert :: "int object \<Rightarrow> go_error + (string \<times> bool)" where
  "sample_convert content = Inr (object_uid content, object_uid content \<noteq> ''other'')"

definition sample_capture :: capture where "sample_capture = \<lparr>kp_enabled = True, kp_calls = [], kp_log = [], kp_excluded = [], kp_unobservable = [], kp_refused = []\<rparr>"

definition sample_pages :: "int page list" where
  "sample_pages = [Page [sample_pod ''u1'' ''a'', sample_pod ''other'' ''b''] True ''7'', Page [sample_pod ''u2'' ''c''] False ''9'']"

definition seeded_obs :: "recorder_call \<Rightarrow> observation list" where
  "seeded_obs call = (case call of CallSeed sc obs \<Rightarrow> obs | CallObserve o' \<Rightarrow> [])"

definition sample_seed :: recorder_call where
  "sample_seed = hd (kp_calls (snd (run_listing sample_codec sample_convert Some (\<lambda>_ _. False) True ''pods'' sample_pages sample_capture)))"

theorem seeds_are_whole_listings_witness:
  "map obs_uid (seeded_obs sample_seed) = [''u1'', ''u2''] \<and>
   set (scope_set (recorded 9 sample_seed (new_store sample_limits)) ''pods'') \<subseteq> {''u1'', ''u2''}"
proof -
  have run: "kp_calls (snd (run_listing sample_codec sample_convert Some (\<lambda>_ _. False) True ''pods'' sample_pages sample_capture)) =
      [CallSeed ''pods'' (seeded_obs sample_seed)]" and uids: "map obs_uid (seeded_obs sample_seed) = [''u1'', ''u2'']"
    by code_simp+
  have seed: "sample_seed = CallSeed ''pods'' (seeded_obs sample_seed)" by code_simp
  have whole: "map object_uid (filter (is_member sample_convert) (the (whole_listing sample_pages))) = [''u1'', ''u2'']" by code_simp
  have "CallSeed ''pods'' (seeded_obs sample_seed) \<in> set (drop (length (kp_calls sample_capture))
      (kp_calls (snd (run_listing sample_codec sample_convert Some (\<lambda>_ _. False) True ''pods'' sample_pages sample_capture))))"
    unfolding run by (simp add: sample_capture_def)
  from seeds_are_whole_listings [OF prod.collapse [symmetric] this new_store_ok, of 9 sample_limits]
  obtain items where items: "whole_listing sample_pages = Some items"
    "set (scope_set (recorded 9 sample_seed (new_store sample_limits)) ''pods'') \<subseteq>
       object_uid ` set (filter (is_member sample_convert) items)"
    using seed by auto
  from items(1) whole have "set (map object_uid (filter (is_member sample_convert) items)) = set [''u1'', ''u2'']" by simp
  then have "object_uid ` set (filter (is_member sample_convert) items) = {''u1'', ''u2''}" by simp
  with items(2) uids show ?thesis by simp
qed

definition sample_observation :: observation where
  "sample_observation = (case observation_from sample_codec ''pods'' (sample_pod ''u1'' ''a'') False of Inr o' \<Rightarrow> o' | Inl _ \<Rightarrow> sample_obs '''' '''' '''')"

theorem churn_records_no_revision_witness:
  "\<exists>o2. observation_from sample_codec ''pods''
      (churned (JArray []) (JString ''8'') (JString ''applied'') (sample_pod ''u1'' ''a'')) False = Inr o2 \<and>
    timeline (recorded 9 (CallObserve o2) (recorded 4 (CallObserve sample_observation) (new_store sample_limits))) =
      timeline (recorded 4 (CallObserve sample_observation) (new_store sample_limits))"
proof -
  have "observation_from sample_codec ''pods'' (sample_pod ''u1'' ''a'') False = Inr sample_observation"
    by code_simp
  from churn_records_no_revision [OF this, of "JArray []" "JString ''8''" "JString ''applied''" 9 4 "new_store sample_limits"]
  show ?thesis by blast
qed

end
