(* ===== verification/KubeConvert.thy ===== *)
theory KubeConvert
  imports KubeRecord ObserveSingle ObservePods ObserveInfra
begin

text \<open>
  What the Kubernetes client makes of the objects it reads (\<open>kube/convert.go\<close>, \<open>pods.go\<close>,
  \<open>infrastructure.go\<close>, \<open>children.go\<close>): the proof that an object belongs to the cluster, and the reduction of an
  object to facts, bounded and sorted. The decoding of an object into its Kubernetes type, and the readers of the
  unstructured form, are the record \<open>decoders\<close>; a decoded type is a record of the fields the code reads.
\<close>

section \<open>Decoded objects\<close>

record owner_reference =
  rf_api_version :: string
  rf_kind :: string
  rf_name :: string
  rf_uid :: string
  rf_controller :: "bool option"

record object_meta =
  me_name :: string
  me_namespace :: string
  me_uid :: string
  me_labels :: "(string, string) gomap"
  me_owners :: "owner_reference list"
  me_created :: instant
  me_deleting :: bool

record container_status =
  xs_name :: string
  xs_ready :: bool
  xs_restarts :: int
  xs_running :: bool
  xs_waiting :: "string option"
  xs_terminated :: "(string \<times> int) option"

record container_spec =
  xn_name :: string
  xn_image :: string

record kube_pod =
  xp_meta :: object_meta
  xp_node :: string
  xp_ip :: string
  xp_phase :: string
  xp_started :: "instant option"
  xp_conditions :: "(string \<times> string) list"
  xp_init_containers :: "container_spec list"
  xp_containers :: "container_spec list"
  xp_init_statuses :: "container_status list"
  xp_statuses :: "container_status list"

record kube_service =
  xv_meta :: object_meta
  xv_type :: string
  xv_cluster_ip :: string
  xv_ports :: "int list"
  xv_selector :: "(string, string) gomap"

record kube_claim =
  xc_meta :: object_meta
  xc_phase :: string
  xc_volume_name :: string
  xc_storage_class :: "string option"
  xc_capacity :: "string option"
  xc_request :: "string option"

record kube_budget =
  xb_meta :: object_meta
  xb_min_available :: "string option"
  xb_max_unavailable :: "string option"
  xb_allowed :: int

record kube_role =
  xr_meta :: object_meta
  xr_rules :: nat

record kube_role_binding =
  xi_meta :: object_meta
  xi_role_ref :: string
  xi_subjects :: nat

record kube_job =
  xj_meta :: object_meta
  xj_active :: int
  xj_succeeded :: int
  xj_failed :: int
  xj_init_containers :: "container_spec list"

record kube_condition =
  xd_type :: string
  xd_status :: string
  xd_reason :: string
  xd_message :: string
  xd_transition :: instant

record kube_cluster =
  xl_uid :: string
  xl_phase :: string
  xl_phase_reason :: string
  xl_current_primary :: string
  xl_target_primary :: string
  xl_target_primary_timestamp :: string
  xl_image :: string
  xl_catalog_ref :: "image_catalog_ref option"
  xl_spec_instances :: int
  xl_instances :: int
  xl_ready_instances :: int
  xl_timeline_id :: int
  xl_image_major :: "int option"
  xl_conditions :: "kube_condition list"
  xl_failed_instances :: "string list"
  xl_unusable_pvc :: "string list"
  xl_dangling_pvc :: "string list"
  xl_resizing_pvc :: "string list"
  xl_initializing_pvc :: "string list"
  xl_primary_failing_since :: string
  xl_replica_switch :: bool
  xl_expirations :: "(string, string) gomap"
  xl_cannot_reconcile :: "(string, string list) gomap"
  xl_tablespaces :: "(string \<times> string \<times> string) list"
  xl_reported_state :: "(string, int \<times> bool) gomap"

text \<open>The libraries the conversions call.\<close>

record 'n decoders =
  kd_group_version :: "string \<Rightarrow> (string \<times> string) option"
  kd_controller :: "owner_reference list \<Rightarrow> owner_reference option"
  kd_instant :: "string \<Rightarrow> instant option"
  kd_meta :: "'n object \<Rightarrow> object_meta"
  kd_nested :: "'n object \<Rightarrow> string list \<Rightarrow> 'n json option"
  kd_pod :: "'n object \<Rightarrow> kube_pod option"
  kd_service :: "'n object \<Rightarrow> kube_service option"
  kd_claim :: "'n object \<Rightarrow> kube_claim option"
  kd_budget :: "'n object \<Rightarrow> kube_budget option"
  kd_role :: "'n object \<Rightarrow> kube_role option"
  kd_role_binding :: "'n object \<Rightarrow> kube_role_binding option"
  kd_job :: "'n object \<Rightarrow> kube_job option"
  kd_cluster :: "'n object \<Rightarrow> kube_cluster option"

record client_options =
  ko_namespace :: string
  ko_cluster :: string
  ko_tail_lines :: int
  ko_tail_bytes :: int
  ko_cluster_catalogs :: bool

definition convert_error :: "string \<Rightarrow> go_error" where
  "convert_error op = new_error op CategoryInternal (Some (OtherError '''' []))"

section \<open>Membership\<close>

definition cluster_group :: string where "cluster_group = ''postgresql.cnpg.io''"
definition cluster_label :: string where "cluster_label = ''cnpg.io/cluster''"

definition split_api_version :: "'n decoders \<Rightarrow> string \<Rightarrow> string \<times> string \<times> bool" where
  "split_api_version kd v = (case kd_group_version kd v of None \<Rightarrow> ('''', '''', False) | Some (g, w) \<Rightarrow> (g, w, True))"

definition names_cluster :: "'n decoders \<Rightarrow> client_options \<Rightarrow> owner_reference \<Rightarrow> bool" where
  "names_cluster kd opts ref =
     (case split_api_version kd (rf_api_version ref) of (g, _, known) \<Rightarrow>
        if \<not> known \<or> g \<noteq> cluster_group then False
        else rf_kind ref = ''Cluster'' \<and> rf_name ref = ko_cluster opts)"

definition pod_is_member :: "'n decoders \<Rightarrow> client_options \<Rightarrow> kube_pod \<Rightarrow> bool" where
  "pod_is_member kd opts pod =
     (case kd_controller kd (me_owners (xp_meta pod)) of None \<Rightarrow> False | Some ref \<Rightarrow> names_cluster kd opts ref)"

fun owned_refs :: "'n decoders \<Rightarrow> client_options \<Rightarrow> owner_reference list \<Rightarrow> bool" where
  "owned_refs kd opts [] = False"
| "owned_refs kd opts (ref # refs) =
     (if rf_controller ref \<noteq> Some True then owned_refs kd opts refs else names_cluster kd opts ref)"

definition owned_by_cluster :: "'n decoders \<Rightarrow> client_options \<Rightarrow> object_meta \<Rightarrow> bool" where
  "owned_by_cluster kd opts meta = owned_refs kd opts (me_owners meta)"

fun controlling_cluster_uid :: "owner_reference list \<Rightarrow> string" where
  "controlling_cluster_uid [] = ''''"
| "controlling_cluster_uid (ref # refs) =
     (if rf_controller ref = Some True \<and> rf_kind ref = ''Cluster'' then rf_uid ref else controlling_cluster_uid refs)"

section \<open>Bounds on operator text\<close>

definition max_conditions :: nat where "max_conditions = 32"
definition max_condition_message :: nat where "max_condition_message = 1024"
definition max_status_names :: nat where "max_status_names = 64"
definition max_role_problems :: nat where "max_role_problems = 32"
definition max_role_errors :: nat where "max_role_errors = 4"

definition bound_operator_message :: "string \<Rightarrow> string" where
  "bound_operator_message s = (if length s > max_condition_message then take max_condition_message s else s)"

definition bound_names :: "string list \<Rightarrow> string list" where
  "bound_names names =
     (if names = [] then []
      else let sorted = sort_strings (map bound_operator_message names)
           in if length sorted > max_status_names then take max_status_names sorted else sorted)"

definition sorted_keys :: "(string, 'v) gomap \<Rightarrow> string list" where
  "sorted_keys m =
     (let keys = sort_strings (mkeys m)
      in if length keys > max_status_names then take max_status_names keys else keys)"

definition operator_instant :: "'n decoders \<Rightarrow> string \<Rightarrow> instant option" where
  "operator_instant kd raw = (if raw = '''' then None else kd_instant kd raw)"

section \<open>Pods\<close>

definition role_label :: string where "role_label = ''cnpg.io/instanceRole''"
definition postgres_container :: string where "postgres_container = ''postgres''"

definition kubelet_state :: "container_status \<Rightarrow> string \<times> string \<times> int option" where
  "kubelet_state cs =
     (if xs_running cs then (''running'', '''', None)
      else case xs_waiting cs of
             Some reason \<Rightarrow> (''waiting'', reason, None)
           | None \<Rightarrow>
               (case xs_terminated cs of
                  Some (reason, code) \<Rightarrow> (''terminated'', reason, Some code)
                | None \<Rightarrow> ('''', '''', None)))"

definition status_index :: "kube_pod \<Rightarrow> (string, container_status) gomap" where
  "status_index pod =
     fold (\<lambda>cs. mput (''run/'' @ xs_name cs) cs) (xp_statuses pod)
       (fold (\<lambda>cs. mput (''init/'' @ xs_name cs) cs) (xp_init_statuses pod) [])"

definition add_container :: "(string, container_status) gomap \<Rightarrow> bool \<Rightarrow> container_spec \<Rightarrow> container_facts" where
  "add_container status init spec =
     (let key = (if init then ''init/'' else ''run/'');
          container = \<lparr>ct_name = xn_name spec, ct_image = xn_image spec, ct_init = init, ct_ready = None,
            ct_restarts = None, ct_state = '''', ct_reason = '''', ct_exit_code = None\<rparr>
      in case mget status (key @ xn_name spec) of
           None \<Rightarrow> container
         | Some cs \<Rightarrow>
             (case kubelet_state cs of (state, reason, code) \<Rightarrow>
                container\<lparr>ct_ready := Some (xs_ready cs), ct_restarts := Some (xs_restarts cs), ct_state := state,
                  ct_reason := reason, ct_exit_code := code\<rparr>))"

definition convert_containers :: "kube_pod \<Rightarrow> container_facts list" where
  "convert_containers pod =
     map (add_container (status_index pod) True) (xp_init_containers pod) @
     map (add_container (status_index pod) False) (xp_containers pod)"

definition convert_pod :: "'n decoders \<Rightarrow> client_options \<Rightarrow> 'n object \<Rightarrow> go_error + (pod_facts \<times> bool)" where
  "convert_pod kd opts content =
     (case kd_pod kd content of
        None \<Rightarrow> Inl (convert_error ''pod convert'')
      | Some pod \<Rightarrow>
          (let meta = xp_meta pod;
               containers = convert_containers pod;
               postgres = List.find (\<lambda>c. ct_name c = postgres_container \<and> \<not> ct_init c) containers;
               image = (case postgres of None \<Rightarrow> '''' | Some c \<Rightarrow> ct_image c)
           in Inr (\<lparr>pf_name = me_name meta, pf_uid = me_uid meta,
                 pf_role = (case mget (me_labels meta) role_label of None \<Rightarrow> '''' | Some r \<Rightarrow> r),
                 pf_phase = xp_phase pod,
                 pf_ready = map_option (\<lambda>c. snd c = ''True'') (List.find (\<lambda>c. fst c = ''Ready'') (xp_conditions pod)),
                 pf_restarts = (case postgres of None \<Rightarrow> None | Some c \<Rightarrow> ct_restarts c),
                 pf_node = xp_node pod, pf_ip = xp_ip pod, pf_started = xp_started pod,
                 pf_image =
                   (if image = '''' then (case List.find (\<lambda>c. \<not> ct_init c) containers of None \<Rightarrow> '''' | Some c \<Rightarrow> ct_image c)
                    else image),
                 pf_owner_uid = controlling_cluster_uid (me_owners meta), pf_deleting = me_deleting meta,
                 pf_containers = containers\<rparr>, pod_is_member kd opts pod)))"

section \<open>Services, claims and snapshots\<close>

definition service_role :: "string \<Rightarrow> string \<Rightarrow> string" where
  "service_role name cluster =
     (if name = cluster @ ''-rw'' then ''read-write''
      else if name = cluster @ ''-ro'' then ''read-only''
      else if name = cluster @ ''-r'' then ''any instance'' else '''')"

definition convert_service :: "'n decoders \<Rightarrow> client_options \<Rightarrow> 'n object \<Rightarrow> go_error + (service_facts \<times> bool)" where
  "convert_service kd opts content =
     (case kd_service kd content of
        None \<Rightarrow> Inl (convert_error ''service convert'')
      | Some svc \<Rightarrow>
          (let meta = xv_meta svc; headless = (xv_cluster_ip svc = ''None'')
           in Inr (\<lparr>vf_name = me_name meta, vf_uid = me_uid meta, vf_role = service_role (me_name meta) (ko_cluster opts),
                 vf_type = xv_type svc, vf_cluster_ip = (if headless then '''' else xv_cluster_ip svc), vf_headless = headless,
                 vf_port = (case xv_ports svc of [] \<Rightarrow> None | p # _ \<Rightarrow> Some p),
                 vf_target_selector = sort_strings (map (\<lambda>kv. fst kv @ ''='' @ snd kv) (xv_selector svc))\<rparr>,
               owned_by_cluster kd opts meta)))"

definition pvc_role_label :: string where "pvc_role_label = ''cnpg.io/pvcRole''"
definition pvc_instance_label :: string where "pvc_instance_label = ''cnpg.io/instanceName''"

definition convert_volume :: "'n decoders \<Rightarrow> client_options \<Rightarrow> 'n object \<Rightarrow> go_error + (volume_facts \<times> bool)" where
  "convert_volume kd opts content =
     (case kd_claim kd content of
        None \<Rightarrow> Inl (convert_error ''volume convert'')
      | Some pvc \<Rightarrow>
          (let meta = xc_meta pvc;
               label = (\<lambda>k. case mget (me_labels meta) k of None \<Rightarrow> '''' | Some v \<Rightarrow> v)
           in Inr (\<lparr>vo_name = me_name meta, vo_uid = me_uid meta,
                 vo_instance = (if label pvc_instance_label = '''' then me_name meta else label pvc_instance_label),
                 vo_role = label pvc_role_label, vo_phase = xc_phase pvc,
                 vo_capacity =
                   (case xc_capacity pvc of Some c \<Rightarrow> c | None \<Rightarrow> (case xc_request pvc of Some c \<Rightarrow> c | None \<Rightarrow> '''')),
                 vo_storage_class = (case xc_storage_class pvc of None \<Rightarrow> '''' | Some c \<Rightarrow> c),
                 vo_volume_name = xc_volume_name pvc\<rparr>,
               owned_by_cluster kd opts meta)))"

definition nested_string :: "'n decoders \<Rightarrow> 'n object \<Rightarrow> string list \<Rightarrow> string" where
  "nested_string kd content path = (case kd_nested kd content path of Some (JString s) \<Rightarrow> s | _ \<Rightarrow> '''')"

definition convert_snapshot :: "'n decoders \<Rightarrow> client_options \<Rightarrow> 'n object \<Rightarrow> go_error + (snapshot_facts \<times> bool)" where
  "convert_snapshot kd opts content =
     (let meta = kd_meta kd content; stamp = nested_string kd content [''status'', ''creationTime'']
      in Inr (\<lparr>sp_name = me_name meta, sp_uid = me_uid meta,
            sp_source_claim = nested_string kd content [''spec'', ''source'', ''persistentVolumeClaimName''],
            sp_ready = (case kd_nested kd content [''status'', ''readyToUse''] of Some (JBool b) \<Rightarrow> Some b | _ \<Rightarrow> None),
            sp_restore_size = nested_string kd content [''status'', ''restoreSize''],
            sp_created_at = (if stamp = '''' then None else kd_instant kd stamp)\<rparr>,
          (case mget (me_labels meta) cluster_label of None \<Rightarrow> '''' | Some v \<Rightarrow> v) = ko_cluster opts))"

section \<open>The other children\<close>

definition child_base :: "string \<Rightarrow> object_meta \<Rightarrow> child_facts" where
  "child_base kind meta =
     \<lparr>ch_kind = kind, ch_name = me_name meta, ch_uid = me_uid meta,
      ch_created_at = (if is_zero (me_created meta) then None else Some (me_created meta - me_created meta mod second)),
      ch_secret_type = '''', ch_keys = None, ch_min_available = '''', ch_max_unavailable = '''',
      ch_disruptions_allowed = None, ch_rules = None, ch_subjects = None, ch_role_ref = '''', ch_active = None,
      ch_succeeded = None, ch_failed = None, ch_bootstrap_image = ''''\<rparr>"

definition convert_secret :: "'n decoders \<Rightarrow> client_options \<Rightarrow> 'n object \<Rightarrow> go_error + (child_facts \<times> bool)" where
  "convert_secret kd opts content =
     (let meta = kd_meta kd content
      in Inr ((child_base ''Secret'' meta)
          \<lparr>ch_secret_type := nested_string kd content [''type''],
           ch_keys := map_option (\<lambda>m. int (length m)) (object_at content ''data'')\<rparr>,
        owned_refs kd opts (me_owners meta)))"

definition object_entries :: "'n object \<Rightarrow> string \<Rightarrow> int" where
  "object_entries content k = (case object_at content k of None \<Rightarrow> 0 | Some m \<Rightarrow> int (length m))"

definition convert_config_map :: "'n decoders \<Rightarrow> client_options \<Rightarrow> 'n object \<Rightarrow> go_error + (child_facts \<times> bool)" where
  "convert_config_map kd opts content =
     (let meta = kd_meta kd content
      in Inr ((child_base ''ConfigMap'' meta)\<lparr>ch_keys := Some (object_entries content ''data'' + object_entries content ''binaryData'')\<rparr>,
        owned_refs kd opts (me_owners meta)))"

definition convert_disruption_budget :: "'n decoders \<Rightarrow> client_options \<Rightarrow> 'n object \<Rightarrow> go_error + (child_facts \<times> bool)" where
  "convert_disruption_budget kd opts content =
     (case kd_budget kd content of
        None \<Rightarrow> Inl (convert_error ''disruption budget convert'')
      | Some pdb \<Rightarrow>
          Inr ((child_base ''PodDisruptionBudget'' (xb_meta pdb))
            \<lparr>ch_min_available := (case xb_min_available pdb of None \<Rightarrow> '''' | Some v \<Rightarrow> v),
             ch_max_unavailable := (case xb_max_unavailable pdb of None \<Rightarrow> '''' | Some v \<Rightarrow> v),
             ch_disruptions_allowed := Some (xb_allowed pdb)\<rparr>, owned_by_cluster kd opts (xb_meta pdb)))"

definition convert_service_account :: "'n decoders \<Rightarrow> client_options \<Rightarrow> 'n object \<Rightarrow> go_error + (child_facts \<times> bool)" where
  "convert_service_account kd opts content =
     Inr (child_base ''ServiceAccount'' (kd_meta kd content), owned_refs kd opts (me_owners (kd_meta kd content)))"

definition convert_role :: "'n decoders \<Rightarrow> client_options \<Rightarrow> 'n object \<Rightarrow> go_error + (child_facts \<times> bool)" where
  "convert_role kd opts content =
     (case kd_role kd content of
        None \<Rightarrow> Inl (convert_error ''role convert'')
      | Some role \<Rightarrow>
          Inr ((child_base ''Role'' (xr_meta role))\<lparr>ch_rules := Some (int (xr_rules role))\<rparr>, owned_by_cluster kd opts (xr_meta role)))"

definition convert_role_binding :: "'n decoders \<Rightarrow> client_options \<Rightarrow> 'n object \<Rightarrow> go_error + (child_facts \<times> bool)" where
  "convert_role_binding kd opts content =
     (case kd_role_binding kd content of
        None \<Rightarrow> Inl (convert_error ''role binding convert'')
      | Some b \<Rightarrow>
          Inr ((child_base ''RoleBinding'' (xi_meta b))\<lparr>ch_role_ref := xi_role_ref b, ch_subjects := Some (int (xi_subjects b))\<rparr>,
            owned_by_cluster kd opts (xi_meta b)))"

definition bootstrap_init_container :: string where "bootstrap_init_container = ''bootstrap-controller''"

definition convert_job :: "'n decoders \<Rightarrow> client_options \<Rightarrow> 'n object \<Rightarrow> go_error + (child_facts \<times> bool)" where
  "convert_job kd opts content =
     (case kd_job kd content of
        None \<Rightarrow> Inl (convert_error ''job convert'')
      | Some job \<Rightarrow>
          Inr ((child_base ''Job'' (xj_meta job))
            \<lparr>ch_active := Some (xj_active job), ch_succeeded := Some (xj_succeeded job), ch_failed := Some (xj_failed job),
             ch_bootstrap_image :=
               (case List.find (\<lambda>c. xn_name c = bootstrap_init_container) (xj_init_containers job) of
                  None \<Rightarrow> '''' | Some c \<Rightarrow> xn_image c)\<rparr>, owned_by_cluster kd opts (xj_meta job)))"

definition child_converter :: "'n decoders \<Rightarrow> client_options \<Rightarrow> string \<Rightarrow> 'n object \<Rightarrow> go_error + (child_facts \<times> bool)" where
  "child_converter kd opts kind =
     (if kind = ''Secret'' then convert_secret kd opts
      else if kind = ''ConfigMap'' then convert_config_map kd opts
      else if kind = ''PodDisruptionBudget'' then convert_disruption_budget kd opts
      else if kind = ''ServiceAccount'' then convert_service_account kd opts
      else if kind = ''Role'' then convert_role kd opts
      else if kind = ''RoleBinding'' then convert_role_binding kd opts
      else convert_job kd opts)"

text \<open>The child kinds and the names of their listings.\<close>

definition child_kinds :: "(string \<times> string) list" where
  "child_kinds = [(''Secret'', ''secrets''), (''ConfigMap'', ''configmaps''), (''PodDisruptionBudget'', ''disruption budgets''),
     (''ServiceAccount'', ''service accounts''), (''Role'', ''roles''), (''RoleBinding'', ''role bindings''), (''Job'', ''jobs'')]"

section \<open>The cluster\<close>

definition convert_condition :: "kube_condition \<Rightarrow> condition" where
  "convert_condition c =
     \<lparr>cd_type = xd_type c, cd_status = xd_status c, cd_reason = xd_reason c, cd_message = bound_operator_message (xd_message c),
      cd_last_transition = (if is_zero (xd_transition c) then None else Some (xd_transition c))\<rparr>"

definition certificate_expirations :: "'n decoders \<Rightarrow> (string, string) gomap \<Rightarrow> certificate_expiry list" where
  "certificate_expirations kd expirations =
     List.map_filter (\<lambda>secret.
         map_option (\<lambda>at. \<lparr>ce_secret = bound_operator_message secret, ce_expires_at = at\<rparr>)
           (operator_instant kd (case mget expirations secret of None \<Rightarrow> '''' | Some v \<Rightarrow> v)))
       (sorted_keys expirations)"

definition role_problems :: "(string, string list) gomap \<Rightarrow> role_problem list" where
  "role_problems cannot =
     (let roles = sorted_keys cannot;
          roles = (if length roles > max_role_problems then take max_role_problems roles else roles)
      in map (\<lambda>role. \<lparr>rp_role = bound_operator_message role,
           rp_errors = map bound_operator_message (take max_role_errors (case mget cannot role of None \<Rightarrow> [] | Some es \<Rightarrow> es))\<rparr>) roles)"

definition less_tablespace :: "tablespace_facts \<Rightarrow> tablespace_facts \<Rightarrow> bool" where
  "less_tablespace a b = str_less (tf_name a) (tf_name b)"

definition convert_tablespaces :: "(string \<times> string \<times> string) list \<Rightarrow> tablespace_facts list" where
  "convert_tablespaces ts =
     (let sorted = sort_by less_tablespace
           (map (\<lambda>(name, state, err). \<lparr>tf_name = bound_operator_message name, tf_state = state, tf_error = bound_operator_message err\<rparr>) ts)
      in if length sorted > max_status_names then take max_status_names sorted else sorted)"

definition instance_timelines :: "(string, int \<times> bool) gomap \<Rightarrow> instance_timeline list" where
  "instance_timelines reported =
     map (\<lambda>name. (case mget reported name of
          None \<Rightarrow> \<lparr>it_instance = bound_operator_message name, it_timeline_id = 0, it_is_primary = False\<rparr>
        | Some (line_id, primary) \<Rightarrow>
            \<lparr>it_instance = bound_operator_message name, it_timeline_id = line_id, it_is_primary = primary\<rparr>))
       (sorted_keys reported)"

definition convert_status_lists :: "'n decoders \<Rightarrow> kube_cluster \<Rightarrow> cluster_facts \<Rightarrow> cluster_facts" where
  "convert_status_lists kd c facts =
     facts\<lparr>cf_reported_instances := (if xl_instances c > 0 then Some (xl_instances c) else None),
       cf_failed_instances := bound_names (xl_failed_instances c),
       cf_unusable_pvcs := bound_names (xl_unusable_pvc c),
       cf_dangling_pvcs := bound_names (xl_dangling_pvc c),
       cf_resizing_pvcs := bound_names (xl_resizing_pvc c),
       cf_initializing_pvcs := bound_names (xl_initializing_pvc c),
       cf_primary_failing_since := operator_instant kd (xl_primary_failing_since c),
       cf_replica_switch_in_progress := xl_replica_switch c,
       cf_certificate_expirations := certificate_expirations kd (xl_expirations c),
       cf_unreconcilable_roles := role_problems (xl_cannot_reconcile c),
       cf_tablespaces := convert_tablespaces (xl_tablespaces c),
       cf_instance_timelines := instance_timelines (xl_reported_state c)\<rparr>"

definition positive :: "int \<Rightarrow> int option" where
  "positive v = (if v > 0 then Some v else None)"

definition scalar_facts :: "'n decoders \<Rightarrow> kube_cluster \<Rightarrow> cluster_facts" where
  "scalar_facts kd c =
     no_facts\<lparr>cf_present := True, cf_uid := xl_uid c, cf_phase := xl_phase c, cf_phase_reason := xl_phase_reason c,
       cf_current_primary := xl_current_primary c, cf_target_primary := xl_target_primary c, cf_image := xl_image c,
       cf_target_primary_timestamp :=
         (if xl_target_primary_timestamp c = '''' then None else kd_instant kd (xl_target_primary_timestamp c)),
       cf_image_catalog_ref := xl_catalog_ref c,
       cf_desired_instances := positive (xl_spec_instances c),
       cf_ready_instances := (if xl_ready_instances c > 0 \<or> xl_instances c > 0 then Some (xl_ready_instances c) else None),
       cf_timeline_id := positive (xl_timeline_id c),
       cf_postgres_major_version := Option.bind (xl_image_major c) positive,
       cf_conditions := map convert_condition (take max_conditions (xl_conditions c))\<rparr>"

definition convert_cluster :: "'n decoders \<Rightarrow> 'n object \<Rightarrow> go_error + cluster_facts" where
  "convert_cluster kd content =
     (case kd_cluster kd content of
        None \<Rightarrow> Inl (convert_error ''cluster convert'')
      | Some c \<Rightarrow> Inr (convert_status_lists kd c (scalar_facts kd c)))"

section \<open>One proof of membership\<close>

definition controls :: "owner_reference \<Rightarrow> bool" where "controls ref \<longleftrightarrow> rf_controller ref = Some True"

lemma owned_refs_find:
  "owned_refs kd opts refs = (case List.find controls refs of None \<Rightarrow> False | Some ref \<Rightarrow> names_cluster kd opts ref)"
  by (induction refs) (simp_all add: controls_def)

lemma names_cluster_iff:
  "names_cluster kd opts ref \<longleftrightarrow>
   (\<exists>v. kd_group_version kd (rf_api_version ref) = Some (cluster_group, v)) \<and> rf_kind ref = ''Cluster'' \<and> rf_name ref = ko_cluster opts"
  by (auto simp: names_cluster_def split_api_version_def split: option.split)

lemma controlling_uid_of_find:
  "List.find controls refs = Some ref \<Longrightarrow> rf_kind ref = ''Cluster'' \<Longrightarrow> controlling_cluster_uid refs = rf_uid ref"
  by (induction refs) (auto simp: controls_def split: if_splits)

text \<open>The pods of the roster and every other object prove their membership by the same reference. Where the
library's controller of an object is its first controlling reference, a pod is a member exactly when its
owner references are the cluster's as they are read for a service, a claim or a secret; and the owner
identifier shown for a member is that of the very reference that proved it.\<close>

theorem one_proof_of_membership:
  assumes "kd_controller kd (me_owners (xp_meta pod)) = List.find controls (me_owners (xp_meta pod))"
  shows "pod_is_member kd opts pod = owned_by_cluster kd opts (xp_meta pod) \<and>
    (owned_by_cluster kd opts (xp_meta pod) \<longrightarrow>
      (\<exists>ref \<in> set (me_owners (xp_meta pod)). controls ref \<and> names_cluster kd opts ref \<and>
        controlling_cluster_uid (me_owners (xp_meta pod)) = rf_uid ref))"
proof (intro conjI impI)
  show "pod_is_member kd opts pod = owned_by_cluster kd opts (xp_meta pod)"
    using assms by (simp add: pod_is_member_def owned_by_cluster_def owned_refs_find)
next
  assume "owned_by_cluster kd opts (xp_meta pod)"
  then obtain ref where ref: "List.find controls (me_owners (xp_meta pod)) = Some ref" "names_cluster kd opts ref"
    by (auto simp: owned_by_cluster_def owned_refs_find split: option.splits)
  then have "ref \<in> set (me_owners (xp_meta pod))" "controls ref" by (auto simp: find_Some_iff)
  with ref show "\<exists>ref \<in> set (me_owners (xp_meta pod)). controls ref \<and> names_cluster kd opts ref \<and>
      controlling_cluster_uid (me_owners (xp_meta pod)) = rf_uid ref"
    by (auto simp: names_cluster_iff controlling_uid_of_find)
qed

section \<open>The facts are bounded, and do not depend on the order they are written in\<close>

lemma bounded_message [simp]: "length (bound_operator_message s) \<le> 1024"
  by (simp add: bound_operator_message_def max_condition_message_def)

lemma bound_names_take: "bound_names names = take 64 (sort_strings (map bound_operator_message names))"
  by (simp add: bound_names_def max_status_names_def sort_strings_def Let_def)

lemma sorted_keys_take: "sorted_keys m = take 64 (sort_strings (mkeys m))"
  by (simp add: sorted_keys_def max_status_names_def Let_def)

lemma bound_names_bounded: "length (bound_names names) \<le> 64" "n \<in> set (bound_names names) \<Longrightarrow> length n \<le> 1024"
  by (auto simp: bound_names_take sort_strings_def dest!: in_set_takeD)

lemma map_filter_length: "length (List.map_filter f xs) \<le> length xs"
  by (simp add: map_filter_def)

text \<open>What the operator may write without limit is cut at the boundary: whatever the status holds, the facts carry
at most 32 conditions, 64 names of each kind, 64 expirations, tablespaces and timelines, and 32 roles with
4 errors each, and each of their names and messages is at most 1024 bytes.\<close>

theorem cluster_facts_are_bounded:
  assumes "convert_cluster kd content = Inr facts"
  shows "length (cf_conditions facts) \<le> 32 \<and> (\<forall>c \<in> set (cf_conditions facts). length (cd_message c) \<le> 1024) \<and>
    (\<forall>names \<in> {cf_failed_instances facts, cf_unusable_pvcs facts, cf_dangling_pvcs facts, cf_resizing_pvcs facts,
        cf_initializing_pvcs facts}. length names \<le> 64 \<and> (\<forall>n \<in> set names. length n \<le> 1024)) \<and>
    length (cf_certificate_expirations facts) \<le> 64 \<and>
    length (cf_unreconcilable_roles facts) \<le> 32 \<and>
    (\<forall>r \<in> set (cf_unreconcilable_roles facts). length (rp_errors r) \<le> 4 \<and> (\<forall>m \<in> set (rp_errors r). length m \<le> 1024)) \<and>
    length (cf_tablespaces facts) \<le> 64 \<and>
    (\<forall>t \<in> set (cf_tablespaces facts). length (tf_name t) \<le> 1024 \<and> length (tf_error t) \<le> 1024) \<and>
    length (cf_instance_timelines facts) \<le> 64"
proof -
  from assms obtain c base where facts: "facts = convert_status_lists kd c base"
    and conds: "cf_conditions base = map convert_condition (take max_conditions (xl_conditions c))"
    by (auto simp: convert_cluster_def scalar_facts_def split: option.splits)
  have "length (certificate_expirations kd m) \<le> 64" for m
    using map_filter_length [of _ "sorted_keys m"] order.trans
    by (fastforce simp: certificate_expirations_def sorted_keys_take)
  moreover have "length (role_problems m) \<le> 32" "\<forall>r \<in> set (role_problems m). length (rp_errors r) \<le> 4 \<and> (\<forall>e \<in> set (rp_errors r). length e \<le> 1024)" for m
    by (auto simp: role_problems_def max_role_problems_def max_role_errors_def Let_def)
  moreover have "length (convert_tablespaces ts) \<le> 64"
    "\<forall>t \<in> set (convert_tablespaces ts). length (tf_name t) \<le> 1024 \<and> length (tf_error t) \<le> 1024" for ts
    by (auto simp: convert_tablespaces_def max_status_names_def Let_def dest!: in_set_takeD)
  moreover have "length (instance_timelines m) \<le> 64" for m
    by (simp add: instance_timelines_def sorted_keys_take)
  moreover have "length (cf_conditions base) \<le> 32" "\<forall>d \<in> set (cf_conditions base). length (cd_message d) \<le> 1024"
    by (auto simp: conds max_conditions_def convert_condition_def)
  ultimately show ?thesis
    by (simp add: facts convert_status_lists_def bound_names_bounded)
qed

lemma sort_strings_perm: "mset xs = mset ys \<Longrightarrow> sort_strings xs = sort_strings ys"
  unfolding sort_strings_def by (rule strings.sort_by_unique)

lemma bound_names_perm: "mset xs = mset ys \<Longrightarrow> bound_names xs = bound_names ys"
  by (simp add: bound_names_take sort_strings_perm [of "map bound_operator_message xs" "map bound_operator_message ys"])

lemma sorted_keys_perm: "mset m = mset m' \<Longrightarrow> sorted_keys m = sorted_keys m'"
  by (simp add: sorted_keys_take mkeys_def sort_strings_perm [of "map fst m" "map fst m'"])

lemma mget_perm:
  assumes "map_ok m" "mset m = mset m'"
  shows "mget m k = mget m' k"
proof -
  have "map_ok m'" using assms by (metis map_ok_def mset_eq_imp_distinct_iff mset_map)
  moreover have "set m = set m'" using assms(2) by (rule mset_eq_setD)
  ultimately show ?thesis using assms(1) unfolding mget_def map_ok_def by (metis map_of_inject_set)
qed

interpretation tablespaces: strict_weak_order less_tablespace
  by unfold_locales (auto simp: less_tablespace_def str_less_def)

text \<open>A status written again with its lists and maps in another order.\<close>

definition rearranged :: "kube_cluster \<Rightarrow> kube_cluster \<Rightarrow> bool" where
  "rearranged c c' \<longleftrightarrow>
     (\<exists>failed unusable dangling resizing initializing expirations cannot tablespaces reported.
        c' = c\<lparr>xl_failed_instances := failed, xl_unusable_pvc := unusable, xl_dangling_pvc := dangling,
          xl_resizing_pvc := resizing, xl_initializing_pvc := initializing, xl_expirations := expirations,
          xl_cannot_reconcile := cannot, xl_tablespaces := tablespaces, xl_reported_state := reported\<rparr>) \<and>
     mset (xl_failed_instances c) = mset (xl_failed_instances c') \<and> mset (xl_unusable_pvc c) = mset (xl_unusable_pvc c') \<and>
     mset (xl_dangling_pvc c) = mset (xl_dangling_pvc c') \<and> mset (xl_resizing_pvc c) = mset (xl_resizing_pvc c') \<and>
     mset (xl_initializing_pvc c) = mset (xl_initializing_pvc c') \<and> mset (xl_expirations c) = mset (xl_expirations c') \<and>
     mset (xl_cannot_reconcile c) = mset (xl_cannot_reconcile c') \<and> mset (xl_tablespaces c) = mset (xl_tablespaces c') \<and>
     mset (xl_reported_state c) = mset (xl_reported_state c')"

definition status_maps_ok :: "kube_cluster \<Rightarrow> bool" where
  "status_maps_ok c \<longleftrightarrow> map_ok (xl_expirations c) \<and> map_ok (xl_cannot_reconcile c) \<and> map_ok (xl_reported_state c) \<and>
     distinct (map (\<lambda>t. bound_operator_message (fst t)) (xl_tablespaces c))"

lemma certificate_perm:
  assumes "map_ok m" "mset m = mset m'"
  shows "certificate_expirations kd m = certificate_expirations kd m'"
  by (simp add: certificate_expirations_def sorted_keys_perm [OF assms(2)] mget_perm [OF assms])

lemma role_problems_perm:
  assumes "map_ok m" "mset m = mset m'"
  shows "role_problems m = role_problems m'"
  by (simp add: role_problems_def sorted_keys_perm [OF assms(2)] mget_perm [OF assms])

lemma timelines_perm:
  assumes "map_ok m" "mset m = mset m'"
  shows "instance_timelines m = instance_timelines m'"
  by (simp add: instance_timelines_def sorted_keys_perm [OF assms(2)] mget_perm [OF assms])

lemma tablespaces_perm:
  assumes "distinct (map (\<lambda>t. bound_operator_message (fst t)) ts)" "mset ts = mset ts'"
  shows "convert_tablespaces ts = convert_tablespaces ts'"
proof -
  let ?f = "\<lambda>(name, state, err). \<lparr>tf_name = bound_operator_message name, tf_state = state, tf_error = bound_operator_message err\<rparr>"
  have names: "map tf_name (map ?f ts) = map (\<lambda>t. bound_operator_message (fst t)) ts" by (simp add: case_prod_unfold)
  have "sort_by less_tablespace (map ?f ts) = sort_by less_tablespace (map ?f ts')"
  proof (rule tablespaces.sort_by_unique_on)
    show "mset (map ?f ts) = mset (map ?f ts')" using assms(2) by simp
  next
    fix a b assume ab: "a \<in> set (map ?f ts)" "b \<in> set (map ?f ts)" "a \<noteq> b"
    have "distinct (map tf_name (map ?f ts))" unfolding names by (rule assms(1))
    then have inj: "inj_on tf_name (set (map ?f ts))" unfolding distinct_map by (rule conjunct2)
    have "tf_name a \<noteq> tf_name b" using inj_onD [OF inj _ ab(1,2)] ab(3) by blast
    then show "less_tablespace a b \<or> less_tablespace b a" by (auto simp: less_tablespace_def str_less_def)
  qed
  then show ?thesis by (simp add: convert_tablespaces_def)
qed

lemma since_published:
  "facts_since (cn_cluster (so_snap (cluster_store_publish facts now s))) k =
     (if k \<in> set (held_keys facts)
      then Some (case facts_since (cn_cluster (so_snap s)) k of Some a \<Rightarrow> if so_has s then a else now | None \<Rightarrow> now) else None)"
  "so_has (cluster_store_publish facts now s)"
  by (simp_all add: cluster_store_publish_def facts_since_def mget_hold_keys Let_def)

text \<open>C14. The order the operator writes its names in is not a change. The status with its five lists of instances and
volumes, its tablespaces and its three maps in any other order, with whatever is cut at a bound, gives the same facts;
so a store that publishes them again, at any later time, keeps the clock of every state that is held. The keys of a
map are distinct and the names of the tablespaces are, as they are cut; the conditions, and the errors of one role,
are facts in the order the operator lists them in and stay as they are.\<close>

theorem reordered_status_keeps_its_clocks:
  assumes "kd_cluster kd content = Some c" "kd_cluster kd content' = Some c'"
    and "rearranged c c'" "status_maps_ok c"
    and "convert_cluster kd content = Inr facts"
  shows "convert_cluster kd content' = Inr facts \<and>
    facts_since (cn_cluster (so_snap (cluster_store_publish facts later (cluster_store_publish facts now s)))) k =
      facts_since (cn_cluster (so_snap (cluster_store_publish facts now s))) k"
proof
  have same: "convert_status_lists kd c' base = convert_status_lists kd c base" for base
  proof -
    from assms(3) have perms: "mset (xl_failed_instances c) = mset (xl_failed_instances c')" "mset (xl_unusable_pvc c) = mset (xl_unusable_pvc c')"
        "mset (xl_dangling_pvc c) = mset (xl_dangling_pvc c')" "mset (xl_resizing_pvc c) = mset (xl_resizing_pvc c')"
        "mset (xl_initializing_pvc c) = mset (xl_initializing_pvc c')" "mset (xl_expirations c) = mset (xl_expirations c')"
        "mset (xl_cannot_reconcile c) = mset (xl_cannot_reconcile c')" "mset (xl_tablespaces c) = mset (xl_tablespaces c')"
        "mset (xl_reported_state c) = mset (xl_reported_state c')"
      and rest: "xl_instances c' = xl_instances c" "xl_primary_failing_since c' = xl_primary_failing_since c"
        "xl_replica_switch c' = xl_replica_switch c"
      unfolding rearranged_def by auto
    from assms(4) have ok: "map_ok (xl_expirations c)" "map_ok (xl_cannot_reconcile c)" "map_ok (xl_reported_state c)"
        "distinct (map (\<lambda>t. bound_operator_message (fst t)) (xl_tablespaces c))"
      unfolding status_maps_ok_def by simp_all
    note same = bound_names_perm [OF perms(1)] bound_names_perm [OF perms(2)] bound_names_perm [OF perms(3)]
      bound_names_perm [OF perms(4)] bound_names_perm [OF perms(5)] certificate_perm [OF ok(1) perms(6)]
      role_problems_perm [OF ok(2) perms(7)] tablespaces_perm [OF ok(4) perms(8)] timelines_perm [OF ok(3) perms(9)]
    show ?thesis unfolding convert_status_lists_def rest same by (rule refl)
  qed
  moreover have "scalar_facts kd c' = scalar_facts kd c"
  proof -
    from assms(3) obtain failed unusable dangling resizing initializing expirations cannot tablespaces reported where
      "c' = c\<lparr>xl_failed_instances := failed, xl_unusable_pvc := unusable, xl_dangling_pvc := dangling,
        xl_resizing_pvc := resizing, xl_initializing_pvc := initializing, xl_expirations := expirations,
        xl_cannot_reconcile := cannot, xl_tablespaces := tablespaces, xl_reported_state := reported\<rparr>"
      unfolding rearranged_def by blast
    then show ?thesis by (simp add: scalar_facts_def)
  qed
  ultimately show "convert_cluster kd content' = Inr facts"
    using assms(1,2,5) by (simp add: convert_cluster_def)
  show "facts_since (cn_cluster (so_snap (cluster_store_publish facts later (cluster_store_publish facts now s)))) k =
      facts_since (cn_cluster (so_snap (cluster_store_publish facts now s))) k"
    by (auto simp: since_published)
qed

section \<open>Witnesses\<close>

definition sample_owner :: owner_reference where
  "sample_owner = \<lparr>rf_api_version = ''postgresql.cnpg.io/v1'', rf_kind = ''Cluster'', rf_name = ''pg'', rf_uid = ''c1'', rf_controller = Some True\<rparr>"

definition sample_meta :: "string \<Rightarrow> object_meta" where
  "sample_meta uid =
     \<lparr>me_name = uid, me_namespace = ''db'', me_uid = uid, me_labels = [], me_owners = (if uid = ''other'' then [] else [sample_owner]),
      me_created = 0, me_deleting = False\<rparr>"

definition sample_kube_pod :: "string \<Rightarrow> kube_pod" where
  "sample_kube_pod uid =
     \<lparr>xp_meta = sample_meta uid, xp_node = ''n1'', xp_ip = ''10.0.0.1'', xp_phase = ''Running'', xp_started = None,
      xp_conditions = [(''Ready'', ''True'')], xp_init_containers = [],
      xp_containers = [\<lparr>xn_name = ''postgres'', xn_image = ''pg:17''\<rparr>], xp_init_statuses = [],
      xp_statuses = [\<lparr>xs_name = ''postgres'', xs_ready = True, xs_restarts = 2, xs_running = True, xs_waiting = None, xs_terminated = None\<rparr>]\<rparr>"

definition sample_status :: "string list \<Rightarrow> (string, int \<times> bool) gomap \<Rightarrow> kube_cluster" where
  "sample_status failed reported =
     \<lparr>xl_uid = ''c1'', xl_phase = ''Healthy'', xl_phase_reason = '''', xl_current_primary = ''pg-1'', xl_target_primary = ''pg-1'',
      xl_target_primary_timestamp = '''', xl_image = ''pg:17'', xl_catalog_ref = None, xl_spec_instances = 3, xl_instances = 3,
      xl_ready_instances = 1, xl_timeline_id = 1, xl_image_major = Some 17, xl_conditions = [], xl_failed_instances = failed,
      xl_unusable_pvc = [], xl_dangling_pvc = [], xl_resizing_pvc = [], xl_initializing_pvc = [], xl_primary_failing_since = '''',
      xl_replica_switch = False, xl_expirations = [], xl_cannot_reconcile = [], xl_tablespaces = [], xl_reported_state = reported\<rparr>"

definition sample_decoders :: "int decoders" where
  "sample_decoders =
     \<lparr>kd_group_version = (\<lambda>v. if v = ''postgresql.cnpg.io/v1'' then Some (''postgresql.cnpg.io'', ''v1'') else Some ('''', v)),
      kd_controller = List.find controls, kd_instant = (\<lambda>_. None), kd_meta = (\<lambda>c. sample_meta (object_uid c)),
      kd_nested = (\<lambda>c path. case path of [k] \<Rightarrow> mget c k | _ \<Rightarrow> None),
      kd_pod = (\<lambda>c. Some (sample_kube_pod (object_uid c))),
      kd_service = (\<lambda>c. Some \<lparr>xv_meta = sample_meta (object_uid c), xv_type = ''ClusterIP'', xv_cluster_ip = ''None'', xv_ports = [5432], xv_selector = []\<rparr>),
      kd_claim = (\<lambda>_. None), kd_budget = (\<lambda>_. None), kd_role = (\<lambda>_. None), kd_role_binding = (\<lambda>_. None), kd_job = (\<lambda>_. None),
      kd_cluster = (\<lambda>c. Some (if c = [] then sample_status [''pg-2'', ''pg-3''] [(''pg-1'', 1, True), (''pg-2'', 1, False)]
        else sample_status [''pg-3'', ''pg-2''] [(''pg-2'', 1, False), (''pg-1'', 1, True)]))\<rparr>"

definition sample_options :: client_options where
  "sample_options = \<lparr>ko_namespace = ''db'', ko_cluster = ''pg'', ko_tail_lines = 100, ko_tail_bytes = 3, ko_cluster_catalogs = True\<rparr>"

theorem one_proof_of_membership_witness:
  "owned_by_cluster sample_decoders sample_options (sample_meta ''u1'') \<and>
   controlling_cluster_uid (me_owners (sample_meta ''u1'')) = ''c1''"
proof -
  have member: "owned_by_cluster sample_decoders sample_options (xp_meta (sample_kube_pod ''u1''))" by code_simp
  have "kd_controller sample_decoders (me_owners (xp_meta (sample_kube_pod ''u1''))) = List.find controls (me_owners (xp_meta (sample_kube_pod ''u1'')))"
    by (simp add: sample_decoders_def)
  from one_proof_of_membership [OF this, of sample_options] member
  show ?thesis by (auto simp: sample_kube_pod_def sample_meta_def sample_owner_def)
qed

definition sample_facts :: cluster_facts where
  "sample_facts = (case convert_cluster sample_decoders [] of Inr f \<Rightarrow> f | Inl _ \<Rightarrow> no_facts)"

lemma sample_conversion: "convert_cluster sample_decoders [] = Inr sample_facts"
  by (simp add: sample_facts_def convert_cluster_def sample_decoders_def)

theorem cluster_facts_are_bounded_witness:
  "cf_failed_instances sample_facts = [''pg-2'', ''pg-3''] \<and> length (cf_failed_instances sample_facts) \<le> 64 \<and>
   length (cf_instance_timelines sample_facts) \<le> 64"
proof -
  have "cf_failed_instances sample_facts = [''pg-2'', ''pg-3'']" by code_simp
  with cluster_facts_are_bounded [OF sample_conversion] show ?thesis by simp
qed

theorem reordered_status_keeps_its_clocks_witness:
  "convert_cluster sample_decoders [(''x'', JNull)] = Inr sample_facts \<and>
   facts_since (cn_cluster (so_snap (cluster_store_publish sample_facts 9 (cluster_store_publish sample_facts 4 new_cluster_store))))
     ''failedInstance=pg-2'' = Some 4"
proof -
  let ?c = "sample_status [''pg-2'', ''pg-3''] [(''pg-1'', 1, True), (''pg-2'', 1, False)]"
  let ?c' = "sample_status [''pg-3'', ''pg-2''] [(''pg-2'', 1, False), (''pg-1'', 1, True)]"
  have c: "kd_cluster sample_decoders [] = Some ?c" "kd_cluster sample_decoders [(''x'', JNull)] = Some ?c'"
    by (simp_all add: sample_decoders_def)
  have "?c' = ?c\<lparr>xl_failed_instances := [''pg-3'', ''pg-2''], xl_unusable_pvc := [], xl_dangling_pvc := [], xl_resizing_pvc := [],
      xl_initializing_pvc := [], xl_expirations := [], xl_cannot_reconcile := [], xl_tablespaces := [],
      xl_reported_state := [(''pg-2'', 1, False), (''pg-1'', 1, True)]\<rparr>" by (simp add: sample_status_def)
  moreover have "mset (xl_failed_instances ?c) = mset (xl_failed_instances ?c')" "mset (xl_reported_state ?c) = mset (xl_reported_state ?c')"
    by (simp_all add: sample_status_def)
  ultimately have "rearranged ?c ?c'" unfolding rearranged_def by (auto simp: sample_status_def)
  moreover have "status_maps_ok ?c" by (simp add: status_maps_ok_def sample_status_def map_ok_def)
  moreover have "facts_since (cn_cluster (so_snap (cluster_store_publish sample_facts 4 new_cluster_store))) ''failedInstance=pg-2'' = Some 4"
    by code_simp
  ultimately show ?thesis
    using reordered_status_keeps_its_clocks [OF c _ _ sample_conversion, of 9 4 new_cluster_store "''failedInstance=pg-2''"] by simp
qed

end
