(* ===== verification/KubeWatch.thy ===== *)
theory KubeWatch
  imports KubeConvert
begin

text \<open>
  The reads of the Kubernetes client (\<open>kube/pods.go\<close>, \<open>infrastructure.go\<close>, \<open>children.go\<close>, \<open>stream.go\<close>,
  \<open>logs.go\<close>, \<open>logstream.go\<close>): the listings that seed the collectors of pods and infrastructure, the pumps that turn
  the events of a watch into items, the merging of several watches into one stream, and the live check before a
  log is read. The API server is what it answers: pages, events and objects are arguments.
\<close>

section \<open>Listings\<close>

definition fetch_pods :: "'n codec \<Rightarrow> 'n decoders \<Rightarrow> client_options \<Rightarrow> 'n page list \<Rightarrow> capture \<Rightarrow>
    (go_error + (pod_facts list \<times> string)) \<times> capture" where
  "fetch_pods ky kd opts pages s =
     (case run_listing ky (convert_pod kd opts) (\<lambda>facts. Some (pf_name facts)) (\<lambda>kept _. kept > max_pods) True ''pods'' pages s of
        (Inl err, s') \<Rightarrow> (Inl err, s')
      | (Inr (pods, rv, _), s') \<Rightarrow> (Inr (pods, rv), s'))"

definition infrastructure_page_size :: int where "infrastructure_page_size = 100"

definition list_owned :: "'n codec \<Rightarrow> ('n object \<Rightarrow> go_error + ('t \<times> bool)) \<Rightarrow> bool \<Rightarrow> string \<Rightarrow> 'n page list \<Rightarrow> capture \<Rightarrow>
    (go_error + ('t list \<times> string \<times> bool)) \<times> capture" where
  "list_owned ky convert keep scope pages s =
     list_kind ky convert keep max_infrastructure_objects (10 * infrastructure_page_size) scope pages s"

text \<open>An API that is not installed, or not granted, is not observed; any other failure is one.\<close>

definition tolerated :: "go_error \<Rightarrow> bool" where
  "tolerated err \<longleftrightarrow> categorize err = CategoryNotFound \<or> categorize err = CategoryForbidden"

definition log_unobservable :: "string \<Rightarrow> go_error \<Rightarrow> capture \<Rightarrow> capture" where
  "log_unobservable what err s = s\<lparr>kp_unobservable := kp_unobservable s @ [(what, safe (Some err))]\<rparr>"

fun fetch_children :: "'n codec \<Rightarrow> 'n decoders \<Rightarrow> client_options \<Rightarrow> (string \<Rightarrow> 'n page list) \<Rightarrow> (string \<times> string) list \<Rightarrow>
    infrastructure_state \<Rightarrow> capture \<Rightarrow> (go_error + infrastructure_state) \<times> capture" where
  "fetch_children ky kd opts pages [] state s = (Inr state, s)"
| "fetch_children ky kd opts pages ((kind, op) # kinds) state s =
     (case list_owned ky (child_converter kd opts kind) False op (pages op) s of
        (Inr (facts, rv, truncated), s') \<Rightarrow>
          fetch_children ky kd opts pages kinds
            (state\<lparr>in_children := in_children state @ facts,
              in_child_resource_versions := mput kind rv (in_child_resource_versions state),
              in_truncated := in_truncated state \<or> truncated\<rparr>) s'
      | (Inl err, s') \<Rightarrow>
          if tolerated err
          then fetch_children ky kd opts pages kinds
            (state\<lparr>in_children_unobserved := in_children_unobserved state @ [kind]\<rparr>) (log_unobservable op err s')
          else (Inl err, s'))"

definition no_infrastructure :: infrastructure_state where
  "no_infrastructure =
     \<lparr>in_services = [], in_volumes = [], in_snapshots = [], in_children = [], in_snapshots_observable = False,
      in_children_unobserved = [], in_truncated = False, in_service_resource_version = '''',
      in_volume_resource_version = '''', in_snapshot_resource_version = '''', in_child_resource_versions = []\<rparr>"

definition fetch_snapshots :: "'n codec \<Rightarrow> 'n decoders \<Rightarrow> client_options \<Rightarrow> (string \<Rightarrow> 'n page list) \<Rightarrow>
    infrastructure_state \<Rightarrow> capture \<Rightarrow> (go_error + infrastructure_state) \<times> capture" where
  "fetch_snapshots ky kd opts pages state s =
     (case list_owned ky (convert_snapshot kd opts) True ''snapshots'' (pages ''snapshots'') s of
        (Inr (snapshots, rv, truncated), s') \<Rightarrow>
          (Inr (state\<lparr>in_snapshots := snapshots, in_snapshot_resource_version := rv, in_snapshots_observable := True,
             in_truncated := in_truncated state \<or> truncated\<rparr>), s')
      | (Inl err, s') \<Rightarrow>
          if tolerated err then (Inr state, log_unobservable ''volume snapshots'' err s') else (Inl err, s'))"

definition fetch_infrastructure :: "'n codec \<Rightarrow> 'n decoders \<Rightarrow> client_options \<Rightarrow> (string \<Rightarrow> 'n page list) \<Rightarrow> capture \<Rightarrow>
    (go_error + infrastructure_state) \<times> capture" where
  "fetch_infrastructure ky kd opts pages s =
     (case list_owned ky (convert_service kd opts) True ''services'' (pages ''services'') s of
        (Inl err, s1) \<Rightarrow> (Inl err, s1)
      | (Inr (services, service_rv, cut1), s1) \<Rightarrow>
          (case list_owned ky (convert_volume kd opts) True ''volumes'' (pages ''volumes'') s1 of
             (Inl err, s2) \<Rightarrow> (Inl err, s2)
           | (Inr (volumes, volume_rv, cut2), s2) \<Rightarrow>
               (case fetch_snapshots ky kd opts pages
                   (no_infrastructure\<lparr>in_services := services, in_service_resource_version := service_rv,
                     in_volumes := volumes, in_volume_resource_version := volume_rv, in_truncated := cut1 \<or> cut2\<rparr>) s2 of
                  (Inl err, s3) \<Rightarrow> (Inl err, s3)
                | (Inr state, s3) \<Rightarrow> fetch_children ky kd opts pages child_kinds state s3)))"

section \<open>Pumps\<close>

definition no_pod_event :: pod_event where "no_pod_event = \<lparr>ch_put = None, ch_delete = None\<rparr>"

definition pump_pod :: "'n decoders \<Rightarrow> client_options \<Rightarrow> ('n, pod_event) pump" where
  "pump_pod kd opts ev s =
     (case wv_object ev of
        None \<Rightarrow> ((no_pod_event, False, wv_type ev = EventError), s)
      | Some content \<Rightarrow>
          (case convert_pod kd opts content of
             Inl err \<Rightarrow> ((no_pod_event, False, True), s)
           | Inr (facts, member) \<Rightarrow>
               if wv_type ev = EventAdded \<or> wv_type ev = EventModified then
                 (if \<not> member then ((no_pod_event, False, False), log_excluded (Some (pf_name facts)) s)
                  else ((\<lparr>ch_put = Some facts, ch_delete = None\<rparr>, True, False), s))
               else if wv_type ev = EventDeleted then
                 ((\<lparr>ch_put = None, ch_delete = Some \<lparr>dl_name = pf_name facts, dl_uid = pf_uid facts\<rparr>\<rparr>, True, False), s)
               else if wv_type ev = EventBookmark then ((no_pod_event, False, False), s)
               else ((no_pod_event, False, True), s)))"

definition no_change :: infrastructure_change where
  "no_change = \<lparr>ig_service = None, ig_volume = None, ig_snapshot = None, ig_child = None, ig_deleted = None\<rparr>"

definition infrastructure_pump :: "string \<Rightarrow> ('n object \<Rightarrow> go_error + ('t \<times> bool)) \<Rightarrow> ('t \<Rightarrow> infrastructure_change) \<Rightarrow>
    ('t \<Rightarrow> string \<times> string) \<Rightarrow> ('n, infrastructure_change) pump" where
  "infrastructure_pump kind convert put ident ev s =
     (case wv_object ev of
        None \<Rightarrow> ((no_change, False, True), s)
      | Some content \<Rightarrow>
          (case convert content of
             Inl err \<Rightarrow> ((no_change, False, True), s)
           | Inr (facts, member) \<Rightarrow>
               if \<not> member then ((no_change, False, False), s)
               else if wv_type ev = EventAdded \<or> wv_type ev = EventModified then ((put facts, True, False), s)
               else if wv_type ev = EventDeleted then
                 (case ident facts of (name, uid) \<Rightarrow>
                    ((no_change\<lparr>ig_deleted := Some \<lparr>id_kind = kind, id_name = name, id_uid = uid\<rparr>\<rparr>, True, False), s))
               else if wv_type ev = EventBookmark then ((no_change, False, False), s)
               else ((no_change, False, True), s)))"

definition pump_service :: "'n decoders \<Rightarrow> client_options \<Rightarrow> ('n, infrastructure_change) pump" where
  "pump_service kd opts =
     infrastructure_pump ''Service'' (convert_service kd opts) (\<lambda>f. no_change\<lparr>ig_service := Some f\<rparr>) (\<lambda>f. (vf_name f, vf_uid f))"

definition pump_volume :: "'n decoders \<Rightarrow> client_options \<Rightarrow> ('n, infrastructure_change) pump" where
  "pump_volume kd opts =
     infrastructure_pump ''PersistentVolumeClaim'' (convert_volume kd opts) (\<lambda>f. no_change\<lparr>ig_volume := Some f\<rparr>)
       (\<lambda>f. (vo_name f, vo_uid f))"

definition pump_snapshot :: "'n decoders \<Rightarrow> client_options \<Rightarrow> ('n, infrastructure_change) pump" where
  "pump_snapshot kd opts =
     infrastructure_pump ''VolumeSnapshot'' (convert_snapshot kd opts) (\<lambda>f. no_change\<lparr>ig_snapshot := Some f\<rparr>)
       (\<lambda>f. (sp_name f, sp_uid f))"

definition child_pump :: "'n decoders \<Rightarrow> client_options \<Rightarrow> string \<Rightarrow> ('n, infrastructure_change) pump" where
  "child_pump kd opts kind =
     infrastructure_pump kind (child_converter kd opts kind) (\<lambda>f. no_change\<lparr>ig_child := Some f\<rparr>) (\<lambda>f. (ch_name f, ch_uid f))"

text \<open>The watches of the infrastructure: services and claims always, snapshots where the seed observed them, and the
child kinds whose listing answered a resource version; the children untapped.\<close>

definition infrastructure_watches :: "'n codec \<Rightarrow> 'n decoders \<Rightarrow> client_options \<Rightarrow> infrastructure_state \<Rightarrow>
    (string \<times> string \<times> ('n, infrastructure_change) pump) list" where
  "infrastructure_watches ky kd opts state =
     [(''services watch'', in_service_resource_version state, tap ky ''services'' (pump_service kd opts)),
      (''volumes watch'', in_volume_resource_version state, tap ky ''volumes'' (pump_volume kd opts))] @
     (if in_snapshots_observable state
      then [(''snapshots watch'', in_snapshot_resource_version state, tap ky ''snapshots'' (pump_snapshot kd opts))] else []) @
     List.map_filter (\<lambda>(kind, op). map_option (\<lambda>rv. (op @ '' watch'', rv, child_pump kd opts kind))
       (mget (in_child_resource_versions state) kind)) child_kinds"

section \<open>Only proven pods are shown\<close>

lemma page_items_kept:
  "page_items ky convert excluded items kept st = (Inr kept', st') \<Longrightarrow>
   \<forall>f \<in> set kept'. f \<in> set kept \<or> (\<exists>content. convert content = Inr (f, True))"
proof (induction items arbitrary: kept st)
  case (Cons content rest)
  from Cons.prems obtain facts member where v: "convert content = Inr (facts, member)"
    by (auto split: sum.splits prod.splits)
  show ?case
  proof (cases member)
    case True
    with Cons.prems v have "page_items ky convert excluded rest (kept @ [facts]) (seed_add ky content st) = (Inr kept', st')" by simp
    from Cons.IH [OF this] v True show ?thesis by auto
  next
    case False
    with Cons.prems v
    have "page_items ky convert excluded rest kept (fst st, log_excluded (excluded facts) (snd st)) = (Inr kept', st')" by simp
    from Cons.IH [OF this] show ?thesis by blast
  qed
qed simp

lemma list_pages_kept:
  "list_pages ky convert excluded enough pages kept examined st = (Inr (kept', rv, complete), s') \<Longrightarrow>
   \<forall>f \<in> set kept'. f \<in> set kept \<or> (\<exists>content. convert content = Inr (f, True))"
proof (induction ky convert excluded enough pages kept examined st rule: list_pages.induct)
  case (3 ky convert excluded enough items continues rv' pages kept examined st)
  obtain out st' where step: "page_items ky convert excluded items kept st = (out, st')"
    by (cases "page_items ky convert excluded items kept st") blast
  with "3.prems" obtain k where out: "out = Inr k" by (cases out) auto
  note page = page_items_kept [OF step [unfolded out]]
  show ?case
  proof (cases "continues \<and> \<not> enough (int (length k)) (examined + int (length items))")
    case True
    with "3.prems" step out
    have "list_pages ky convert excluded enough pages k (examined + int (length items)) st' = (Inr (kept', rv, complete), s')" by simp
    from "3.IH" [OF step [symmetric] out refl _ _ this] True page show ?thesis by blast
  next
    case False
    with "3.prems" step out have "kept' = k" by (auto simp: Let_def split: if_splits)
    with page show ?thesis by simp
  qed
qed auto

lemma fetch_pods_proven:
  "fetch_pods ky kd opts pages s = (Inr (pods, rv), s') \<Longrightarrow> p \<in> set pods \<Longrightarrow> \<exists>content. convert_pod kd opts content = Inr (p, True)"
  using list_pages_kept [of ky "convert_pod kd opts" _ _ pages "[]" 0]
  by (fastforce simp: fetch_pods_def run_listing_def split: prod.splits sum.splits)

lemma pump_pod_put:
  "pump_pod kd opts ev s = ((e, True, fatal), s') \<Longrightarrow> ch_put e = Some p \<Longrightarrow>
   \<exists>content. wv_object ev = Some content \<and> convert_pod kd opts content = Inr (p, True)"
  by (auto simp: pump_pod_def split: option.splits sum.splits prod.splits if_splits)

lemma pod_members_source:
  "pod_members Map.empty acts name = Some p \<Longrightarrow>
   (\<exists>pods rv t. Seeded (pods, rv) t \<in> set acts \<and> p \<in> set pods) \<or> (\<exists>e t. Folded e t \<in> set acts \<and> ch_put e = Some p)"
proof (induction acts arbitrary: name rule: rev_induct)
  case (snoc a acts)
  have puts: "fold member_put pods m name = Some p \<Longrightarrow> p \<in> set pods \<or> m name = Some p" for pods m name
  proof (induction pods arbitrary: m)
    case (Cons q pods)
    then have "p \<in> set pods \<or> member_put q m name = Some p" by simp
    then show ?case by (auto simp: member_put_def split: if_splits)
  qed simp
  show ?case
  proof (cases a)
    case (Seeded q t)
    then have "p \<in> set (fst q)" using snoc.prems puts [of "fst q" Map.empty name] by auto
    with Seeded show ?thesis by (cases q) auto
  next
    case (Folded e t)
    with snoc.prems have "ch_put e = Some p \<or> pod_members Map.empty acts name = Some p"
      by (auto simp: member_put_def member_delete_def split: option.splits if_splits)
    then show ?thesis using snoc.IH [of name] Folded by (elim disjE) auto
  qed (use snoc in auto)
qed simp

text \<open>A run of the collector of pods on this client: every seed is an answer of \<open>FetchPods\<close>, and every item folded
one its tapped pump accepted.\<close>

definition reads_server :: "'n codec \<Rightarrow> 'n decoders \<Rightarrow> client_options \<Rightarrow> (pod_facts list \<times> string, pod_event) loop_act list \<Rightarrow> bool" where
  "reads_server ky kd opts acts \<longleftrightarrow>
     (\<forall>q t. Seeded q t \<in> set acts \<longrightarrow> (\<exists>pages s s'. fetch_pods ky kd opts pages s = (Inr q, s'))) \<and>
     (\<forall>e t. Folded e t \<in> set acts \<longrightarrow> (\<exists>ev s s'. tap ky ''pods'' (pump_pod kd opts) ev s = ((e, True, False), s')))"

text \<open>C9. No pod is shown that has not proven its membership. From the listing and the watch through the loop to the
published roster: for every pod shown, whatever was listed, relabelled, replaced or deleted, some object
read from the API server decodes to a pod whose controller is a reference to a Cluster of the CloudNativePG
group with the configured name, and the pod is shown with that object's facts.\<close>

theorem only_proven_pods_are_shown:
  assumes "loop_run pod_feed (new_loop new_pod_collector) acts l" and "so_has (pd_store (lo_feed l))"
    and "reads_server ky kd opts acts" and "p \<in> set (po_pods (so_snap (pd_store (lo_feed l))))"
  shows "\<exists>content pod ref v. convert_pod kd opts content = Inr (p, True) \<and> kd_pod kd content = Some pod \<and>
    kd_controller kd (me_owners (xp_meta pod)) = Some ref \<and>
    kd_group_version kd (rf_api_version ref) = Some (''postgresql.cnpg.io'', v) \<and>
    rf_kind ref = ''Cluster'' \<and> rf_name ref = ko_cluster opts"
proof -
  from pods_shown_run [OF assms(1)] have shown: "pods_shown acts (lo_feed l)" .
  then have "p \<in> set (fst (bounded less_pod_name max_pods (keyed_list (pd_state (lo_feed l)))))"
    using assms(2,4) unfolding pods_shown_def by (metis fst_conv)
  then have "p \<in> set (keyed_list (pd_state (lo_feed l)))"
    by (auto simp: bounded_def Let_def dest!: in_set_takeD split: if_splits)
  then have "\<exists>name. pod_members Map.empty acts name = Some p"
    using shown set_keyed_list [of pod_retention "pd_state (lo_feed l)" p] by (auto simp: pods_shown_def)
  then obtain name where "pod_members Map.empty acts name = Some p" by blast
  from pod_members_source [OF this] have "\<exists>content. convert_pod kd opts content = Inr (p, True)"
  proof (elim disjE exE conjE)
    fix pods rv t assume "Seeded (pods, rv) t \<in> set acts" "p \<in> set pods"
    then show ?thesis using assms(3) fetch_pods_proven unfolding reads_server_def by blast
  next
    fix e t assume "Folded e t \<in> set acts" and put: "ch_put e = Some p"
    then obtain ev s s' where "tap ky ''pods'' (pump_pod kd opts) ev s = ((e, True, False), s')"
      using assms(3) unfolding reads_server_def by blast
    then obtain s1 where "pump_pod kd opts ev s = ((e, True, False), s1)"
      by (auto simp: tap_def split: prod.splits)
    from pump_pod_put [OF this put] show ?thesis by blast
  qed
  then obtain content where content: "convert_pod kd opts content = Inr (p, True)" by blast
  then obtain pod where "kd_pod kd content = Some pod" "pod_is_member kd opts pod"
    by (auto simp: convert_pod_def Let_def split: option.splits)
  with content show ?thesis
    by (auto simp: pod_is_member_def names_cluster_iff cluster_group_def split: option.splits)
qed

section \<open>The payload of a secret goes nowhere\<close>

text \<open>The readers of the unstructured form read what they are named after: the metadata, and the first step of a path.\<close>

definition readers_read_fields :: "'n decoders \<Rightarrow> bool" where
  "readers_read_fields kd \<longleftrightarrow>
     (\<forall>c c'. mget c ''metadata'' = mget c' ''metadata'' \<longrightarrow> kd_meta kd c = kd_meta kd c') \<and>
     (\<forall>c c' k path. mget c k = mget c' k \<longrightarrow> kd_nested kd c (k # path) = kd_nested kd c' (k # path))"

text \<open>Two secrets alike but for their payload: the same metadata and type, and as many keys.\<close>

definition alike :: "'n object \<Rightarrow> 'n object \<Rightarrow> bool" where
  "alike c c' \<longleftrightarrow> mget c ''metadata'' = mget c' ''metadata'' \<and> mget c ''type'' = mget c' ''type'' \<and>
     map_option length (object_at c ''data'') = map_option length (object_at c' ''data'')"

definition alike_pages :: "'n page \<Rightarrow> 'n page \<Rightarrow> bool" where
  "alike_pages p p' \<longleftrightarrow>
     (case p of
        PageFailed err \<Rightarrow> p' = PageFailed err
      | Page items continues rv \<Rightarrow> (\<exists>items'. p' = Page items' continues rv \<and> list_all2 alike items items'))"

lemma convert_secret_alike:
  assumes "readers_read_fields kd" "alike c c'"
  shows "child_converter kd opts ''Secret'' c = child_converter kd opts ''Secret'' c'"
proof -
  have "kd_meta kd c = kd_meta kd c'" "kd_nested kd c [''type''] = kd_nested kd c' [''type'']"
    using assms unfolding readers_read_fields_def alike_def by blast+
  moreover have "map_option (\<lambda>m. int (length m)) (object_at c ''data'') = map_option (\<lambda>m. int (length m)) (object_at c' ''data'')"
    using assms(2) by (cases "object_at c ''data''"; cases "object_at c' ''data''") (auto simp: alike_def)
  ultimately show ?thesis by (simp add: child_converter_def convert_secret_def nested_string_def)
qed

lemma page_items_alike:
  assumes "list_all2 R items items'" and "\<And>c c'. R c c' \<Longrightarrow> convert c = convert c'"
  shows "page_items ky convert excluded items kept (None, s) = page_items ky convert excluded items' kept (None, s)"
  using assms(1)
proof (induction arbitrary: kept s rule: list_all2_induct)
  case (Cons c cs c' cs')
  have "convert c = convert c'" by (rule assms(2)) (rule Cons.hyps)
  then show ?case using Cons.IH by (auto simp: seed_add_def split: sum.split)
qed simp

lemma page_items_unrecorded:
  "page_items ky convert excluded items kept (None, s) = (out, st') \<Longrightarrow> fst st' = None"
proof (induction items arbitrary: kept s)
  case (Cons c cs)
  then show ?case by (auto simp: seed_add_def split: sum.splits if_splits prod.splits)
qed auto

lemma list_pages_alike:
  assumes "list_all2 alike_pages pages pages'" and "\<And>c c'. alike c c' \<Longrightarrow> convert c = convert c'"
  shows "list_pages ky convert excluded enough pages kept examined (None, s) =
    list_pages ky convert excluded enough pages' kept examined (None, s)"
  using assms(1)
proof (induction arbitrary: kept examined s rule: list_all2_induct)
  case (Cons p ps p' ps')
  show ?case
  proof (cases p)
    case (PageFailed err)
    with Cons.hyps show ?thesis by (simp add: alike_pages_def)
  next
    case (Page items continues rv)
    then obtain items' where p': "p' = Page items' continues rv" "list_all2 alike items items'"
      using Cons.hyps by (auto simp: alike_pages_def)
    have len: "length items' = length items" using p'(2) by (simp add: list_all2_lengthD)
    obtain out st' where step: "page_items ky convert excluded items kept (None, s) = (out, st')"
      by (cases "page_items ky convert excluded items kept (None, s)") blast
    have "page_items ky convert excluded items kept (None, s) = page_items ky convert excluded items' kept (None, s)"
      by (rule page_items_alike [OF p'(2)]) (rule assms(2))
    with step have "page_items ky convert excluded items' kept (None, s) = (out, st')" by simp
    moreover have "st' = (None, snd st')" using page_items_unrecorded [OF step] by (metis prod.collapse)
    ultimately show ?thesis
      using Cons.IH [of _ "examined + int (length items)" "snd st'"] step
      by (cases out) (simp_all add: Page p'(1) len Let_def)
  qed
qed simp

lemma children_alike:
  assumes "readers_read_fields kd" "list_all2 alike_pages (pages ''secrets'') (pages' ''secrets'')"
    and "\<And>op. op \<noteq> ''secrets'' \<Longrightarrow> pages op = pages' op" and "\<forall>k \<in> set kinds. snd k = ''secrets'' \<longrightarrow> fst k = ''Secret''"
  shows "fetch_children ky kd opts pages kinds state s = fetch_children ky kd opts pages' kinds state s"
  using assms(4)
proof (induction kinds arbitrary: state s)
  case (Cons k kinds)
  obtain kind op where k: "k = (kind, op)" by (cases k)
  have "list_owned ky (child_converter kd opts kind) False op (pages op) s =
      list_owned ky (child_converter kd opts kind) False op (pages' op) s"
  proof (cases "op = ''secrets''")
    case True
    with Cons.prems k have "kind = ''Secret''" by simp
    then show ?thesis
      using True list_pages_alike [OF assms(2) convert_secret_alike [OF assms(1), of _ _ opts]]
      by (simp add: list_owned_def list_kind_def run_listing_def)
  qed (simp add: assms(3))
  with Cons k show ?case by (auto split: prod.split sum.split)
qed simp

lemma secret_watch:
  assumes "w \<in> set (infrastructure_watches ky kd opts state)" "fst w = ''secrets watch''"
  shows "snd (snd w) = child_pump kd opts ''Secret''"
proof -
  let ?child = "\<lambda>(kind, op). map_option (\<lambda>rv. (op @ '' watch'', rv, child_pump kd opts kind)) (mget (in_child_resource_versions state) kind)"
  have own: "fst v \<noteq> ''secrets watch''" if "v \<in> {(''services watch'', a, p), (''volumes watch'', b, q), (''snapshots watch'', c, r)}"
    for v :: "string \<times> string \<times> ('a, infrastructure_change) pump" and a p b q c r
    using that by auto
  have "w \<in> set (List.map_filter ?child child_kinds)"
    using assms own unfolding infrastructure_watches_def by (auto split: if_splits)
  then obtain k where k: "k \<in> set child_kinds" "?child k = Some w" unfolding map_filter_def by force
  obtain kind op where ko: "k = (kind, op)" by (cases k)
  with k(2) assms(2) have "op @ '' watch'' = ''secrets'' @ '' watch''" and w: "snd (snd w) = child_pump kd opts kind" by auto
  then have "op = ''secrets''" by (simp only: append_same_eq)
  with k(1) ko have "kind = ''Secret''" by (simp add: child_kinds_def)
  with w show ?thesis by simp
qed

text \<open>C10. The console lists Secrets and keeps nothing of what they hold. Two API servers whose Secrets differ in their
payload only (same metadata and type, as many keys, any keys and values) give the same fetch of the
infrastructure: the same facts, the same errors, and the same capture, down to what is recorded and
logged; and in the stream that follows, the pump that the merge runs for the watch of the Secrets, capture
included where one is wired, answers an event on either Secret with the same item and leaves the same
capture behind, so nothing of a payload is recorded there either.\<close>

theorem secret_payload_goes_nowhere:
  assumes "readers_read_fields kd" and "list_all2 alike_pages (pages ''secrets'') (pages' ''secrets'')"
    and "\<forall>op. op \<noteq> ''secrets'' \<longrightarrow> pages op = pages' op" and "alike content content'"
  shows "fetch_infrastructure ky kd opts pages s = fetch_infrastructure ky kd opts pages' s \<and>
    (\<forall>w \<in> set (infrastructure_watches ky kd opts state). fst w = ''secrets watch'' \<longrightarrow>
      snd (snd w) \<lparr>wv_type = ty, wv_object = Some content\<rparr> s = snd (snd w) \<lparr>wv_type = ty, wv_object = Some content'\<rparr> s)"
proof
  have "fetch_children ky kd opts pages child_kinds state s = fetch_children ky kd opts pages' child_kinds state s" for state s
    using assms by (intro children_alike) (auto simp: child_kinds_def)
  moreover have "pages ''services'' = pages' ''services''" "pages ''volumes'' = pages' ''volumes''" "pages ''snapshots'' = pages' ''snapshots''"
    using assms(3) by simp_all
  ultimately show "fetch_infrastructure ky kd opts pages s = fetch_infrastructure ky kd opts pages' s"
    by (simp add: fetch_infrastructure_def fetch_snapshots_def cong: sum.case_cong prod.case_cong)
  have same: "child_pump kd opts ''Secret'' \<lparr>wv_type = ty, wv_object = Some content\<rparr> s =
      child_pump kd opts ''Secret'' \<lparr>wv_type = ty, wv_object = Some content'\<rparr> s"
    using convert_secret_alike [OF assms(1,4), of opts]
    by (cases "child_converter kd opts ''Secret'' content'") (auto simp: child_pump_def infrastructure_pump_def)
  have secrets: "snd (snd w) = child_pump kd opts ''Secret''"
    if "w \<in> set (infrastructure_watches ky kd opts state)" "fst w = ''secrets watch''" for w
    by (rule secret_watch [OF that])
  show "\<forall>w \<in> set (infrastructure_watches ky kd opts state). fst w = ''secrets watch'' \<longrightarrow>
      snd (snd w) \<lparr>wv_type = ty, wv_object = Some content\<rparr> s = snd (snd w) \<lparr>wv_type = ty, wv_object = Some content'\<rparr> s"
    using secrets same by simp
qed

text \<open>An object that stops being the cluster's is not taken off the page: its last update is skipped, and so is its
deletion, where the pump of the pods forwards the deletion whoever the pod belongs to.\<close>

lemma disowned_deletion_is_dropped:
  assumes "convert content = Inr (facts, False)"
  shows "infrastructure_pump kind convert put ident \<lparr>wv_type = EventModified, wv_object = Some content\<rparr> s = ((no_change, False, False), s)"
    and "infrastructure_pump kind convert put ident \<lparr>wv_type = EventDeleted, wv_object = Some content\<rparr> s = ((no_change, False, False), s)"
  using assms by (simp_all add: infrastructure_pump_def)

lemma disowned_pod_lingers:
  assumes "convert_pod kd opts content = Inr (facts, False)"
  shows "fst (pump_pod kd opts \<lparr>wv_type = EventModified, wv_object = Some content\<rparr> s) = (no_pod_event, False, False)"
    and "fst (pump_pod kd opts \<lparr>wv_type = EventDeleted, wv_object = Some content\<rparr> s) =
      (\<lparr>ch_put = None, ch_delete = Some \<lparr>dl_name = pf_name facts, dl_uid = pf_uid facts\<rparr>\<rparr>, True, False)"
  using assms by (simp_all add: pump_pod_def)

section \<open>Several watches as one stream\<close>

text \<open>\<open>fanIn\<close>: one goroutine a watch, and one that closes the channel of items. Of each watch: the events received, the
converted item its goroutine is trying to send, whether \<open>Stop\<close> was called on it, whether its result channel is
closed, and whether its goroutine has returned. Of the stream: whether its context is done, whether \<open>stop\<close> has
run, whether the items are closed, and what was delivered.\<close>

record ('n, 'e) fan_source =
  fs_received :: "'n watch_event list"
  fs_pending :: "'e option"
  fs_stopped :: bool
  fs_closed :: bool
  fs_done :: bool

record ('n, 'e) fan =
  fa_sources :: "('n, 'e) fan_source list"
  fa_cancelled :: bool
  fa_stopped :: bool
  fa_closed :: bool
  fa_delivered :: "(nat \<times> 'e) list"
  fa_capture :: capture

definition new_fan :: "nat \<Rightarrow> capture \<Rightarrow> ('n, 'e) fan" where
  "new_fan n s =
     \<lparr>fa_sources = replicate n \<lparr>fs_received = [], fs_pending = None, fs_stopped = False, fs_closed = False, fs_done = False\<rparr>,
      fa_cancelled = False, fa_stopped = False, fa_closed = False, fa_delivered = [], fa_capture = s\<rparr>"

text \<open>What happens: an event is received of a watch, an item is taken by the reader, a goroutine gives up its send or
finds its watch drained, a stopped watch closes its result channel, one closes it unasked, the stream is stopped
by its reader, its parent context ends, and the items are closed.\<close>

datatype ('n, 'e) fan_act =
    Received nat "'n watch_event"
  | Sent nat 'e
  | GaveUp nat
  | Drained nat
  | StopEnded nat
  | ServerEnded nat
  | StopCalled
  | ContextDone
  | ItemsClosed

definition source_of :: "('n, 'e) fan \<Rightarrow> nat \<Rightarrow> ('n, 'e) fan_source" where
  "source_of f i = fa_sources f ! i"

definition open_source :: "('n, 'e) fan \<Rightarrow> nat \<Rightarrow> bool" where
  "open_source f i \<longleftrightarrow> i < length (fa_sources f) \<and> \<not> fs_done (source_of f i)"

definition set_source :: "nat \<Rightarrow> ('n, 'e) fan_source \<Rightarrow> ('n, 'e) fan \<Rightarrow> ('n, 'e) fan" where
  "set_source i src f = f\<lparr>fa_sources := (fa_sources f)[i := src]\<rparr>"

definition note_event :: "'n watch_event \<Rightarrow> ('n, 'e) fan_source \<Rightarrow> ('n, 'e) fan_source" where
  "note_event ev src = src\<lparr>fs_received := fs_received src @ [ev]\<rparr>"

text \<open>\<open>stop\<close>, once: the context is cancelled and every watch is stopped. A goroutine that returns calls it first.\<close>

definition stop_stream :: "('n, 'e) fan \<Rightarrow> ('n, 'e) fan" where
  "stop_stream f =
     (if fa_stopped f then f
      else f\<lparr>fa_stopped := True, fa_cancelled := True, fa_sources := map (\<lambda>src. src\<lparr>fs_stopped := True\<rparr>) (fa_sources f)\<rparr>)"

definition returned :: "nat \<Rightarrow> ('n, 'e) fan \<Rightarrow> ('n, 'e) fan" where
  "returned i f = (let f' = stop_stream f in set_source i ((source_of f' i)\<lparr>fs_done := True\<rparr>) f')"

definition all_returned :: "('n, 'e) fan \<Rightarrow> bool" where
  "all_returned f \<longleftrightarrow> (\<forall>src \<in> set (fa_sources f). fs_done src)"

inductive fan_step :: "('n, 'e) pump list \<Rightarrow> ('n, 'e) fan \<Rightarrow> ('n, 'e) fan_act \<Rightarrow> ('n, 'e) fan \<Rightarrow> bool" for pumps where
  receives_fatal: "open_source f i \<Longrightarrow> fs_pending (source_of f i) = None \<Longrightarrow> \<not> fs_closed (source_of f i) \<Longrightarrow>
    (pumps ! i) ev (fa_capture f) = ((item, accepted, True), s') \<Longrightarrow>
    fan_step pumps f (Received i ev) (returned i (set_source i (note_event ev (source_of f i)) f\<lparr>fa_capture := s'\<rparr>))"
| skips: "open_source f i \<Longrightarrow> fs_pending (source_of f i) = None \<Longrightarrow> \<not> fs_closed (source_of f i) \<Longrightarrow>
    (pumps ! i) ev (fa_capture f) = ((item, False, False), s') \<Longrightarrow>
    fan_step pumps f (Received i ev) (set_source i (note_event ev (source_of f i)) f\<lparr>fa_capture := s'\<rparr>)"
| holds: "open_source f i \<Longrightarrow> fs_pending (source_of f i) = None \<Longrightarrow> \<not> fs_closed (source_of f i) \<Longrightarrow>
    (pumps ! i) ev (fa_capture f) = ((item, True, False), s') \<Longrightarrow>
    fan_step pumps f (Received i ev)
      (set_source i ((note_event ev (source_of f i))\<lparr>fs_pending := Some item\<rparr>) f\<lparr>fa_capture := s'\<rparr>)"
| sends: "open_source f i \<Longrightarrow> fs_pending (source_of f i) = Some item \<Longrightarrow>
    fan_step pumps f (Sent i item)
      (set_source i ((source_of f i)\<lparr>fs_pending := None\<rparr>) f\<lparr>fa_delivered := fa_delivered f @ [(i, item)]\<rparr>)"
| gives_up: "open_source f i \<Longrightarrow> fs_pending (source_of f i) = Some item \<Longrightarrow> fa_cancelled f \<Longrightarrow>
    fan_step pumps f (GaveUp i) (returned i f)"
| drained: "open_source f i \<Longrightarrow> fs_pending (source_of f i) = None \<Longrightarrow> fs_closed (source_of f i) \<Longrightarrow>
    fan_step pumps f (Drained i) (returned i f)"
| stop_ends: "i < length (fa_sources f) \<Longrightarrow> fs_stopped (source_of f i) \<Longrightarrow> \<not> fs_closed (source_of f i) \<Longrightarrow>
    fan_step pumps f (StopEnded i) (set_source i ((source_of f i)\<lparr>fs_closed := True\<rparr>) f)"
| server_ends: "i < length (fa_sources f) \<Longrightarrow> \<not> fs_closed (source_of f i) \<Longrightarrow>
    fan_step pumps f (ServerEnded i) (set_source i ((source_of f i)\<lparr>fs_closed := True\<rparr>) f)"
| stops: "fan_step pumps f StopCalled (stop_stream f)"
| context_ends: "fan_step pumps f ContextDone (f\<lparr>fa_cancelled := True\<rparr>)"
| closes_items: "all_returned f \<Longrightarrow> \<not> fa_closed f \<Longrightarrow> fan_step pumps f ItemsClosed (f\<lparr>fa_closed := True\<rparr>)"

inductive_cases fan_stepE: "fan_step pumps f a f'"
inductive_cases sentE: "fan_step pumps f (Sent i item) f'"

inductive fan_run :: "('n, 'e) pump list \<Rightarrow> ('n, 'e) fan \<Rightarrow> ('n, 'e) fan_act list \<Rightarrow> ('n, 'e) fan \<Rightarrow> bool" for pumps f where
  fan_idle: "fan_run pumps f [] f"
| fan_more: "fan_run pumps f acts f' \<Longrightarrow> fan_step pumps f' a f'' \<Longrightarrow> fan_run pumps f (acts @ [a]) f''"

lemma one_fan_step: "fan_step pumps f a f' \<Longrightarrow> fan_run pumps f [a] f'"
  using fan_run.fan_more [OF fan_idle] by fastforce

text \<open>A pump's answer is its own: what it logs does not change it.\<close>

definition steady :: "('n, 'e) pump \<Rightarrow> bool" where
  "steady pump \<longleftrightarrow> (\<forall>ev s t. fst (pump ev s) = fst (pump ev t))"

definition idle_capture :: capture where
  "idle_capture = \<lparr>kp_enabled = False, kp_calls = [], kp_log = [], kp_excluded = [], kp_unobservable = [], kp_refused = []\<rparr>"

fun accepted_items :: "('n, 'e) pump \<Rightarrow> 'n watch_event list \<Rightarrow> 'e list" where
  "accepted_items pump [] = []"
| "accepted_items pump (ev # evs) =
     (case fst (pump ev idle_capture) of (item, accepted, fatal) \<Rightarrow>
        if accepted \<and> \<not> fatal then item # accepted_items pump evs else accepted_items pump evs)"

lemma accepted_append [simp]: "accepted_items pump (xs @ ys) = accepted_items pump xs @ accepted_items pump ys"
  by (induction xs) (auto split: prod.split)

lemma steady_answer: "steady pump \<Longrightarrow> pump ev s = (answer, s') \<Longrightarrow> fst (pump ev idle_capture) = answer"
  unfolding steady_def by (metis fst_conv)

definition delivered_of :: "nat \<Rightarrow> ('n, 'e) fan \<Rightarrow> 'e list" where
  "delivered_of i f = map snd (filter (\<lambda>d. fst d = i) (fa_delivered f))"

text \<open>What has been received of a source is delivered in order, but for the item it holds; a goroutine that has
returned has stopped the stream, a stopped stream has stopped every watch, and the items are closed only after
every goroutine has returned.\<close>

definition fan_ok :: "('n, 'e) pump list \<Rightarrow> ('n, 'e) fan \<Rightarrow> bool" where
  "fan_ok pumps f \<longleftrightarrow> length (fa_sources f) = length pumps \<and>
     (\<forall>i < length pumps.
        accepted_items (pumps ! i) (fs_received (source_of f i)) =
          delivered_of i f @ (case fs_pending (source_of f i) of None \<Rightarrow> [] | Some item \<Rightarrow> [item])) \<and>
     (\<forall>i < length pumps. fs_done (source_of f i) \<longrightarrow> fa_stopped f) \<and>
     (\<forall>i < length pumps. fa_stopped f \<longrightarrow> fs_stopped (source_of f i)) \<and>
     (fa_stopped f \<longrightarrow> fa_cancelled f) \<and> (fa_closed f \<longrightarrow> (\<forall>i < length pumps. fs_done (source_of f i)))"

lemma source_frame [simp]:
  "length (fa_sources (set_source i src f)) = length (fa_sources f)"
  "source_of (f\<lparr>fa_cancelled := b\<rparr>) j = source_of f j" "source_of (f\<lparr>fa_capture := s\<rparr>) j = source_of f j"
  "source_of (f\<lparr>fa_delivered := ds\<rparr>) j = source_of f j" "source_of (f\<lparr>fa_closed := b\<rparr>) j = source_of f j"
  "fa_cancelled (set_source i src f) = fa_cancelled f" "fa_delivered (set_source i src f) = fa_delivered f"
  "fa_stopped (set_source i src f) = fa_stopped f" "fa_closed (set_source i src f) = fa_closed f"
  "fs_pending (note_event ev src) = fs_pending src" "fs_done (note_event ev src) = fs_done src"
  "fs_stopped (note_event ev src) = fs_stopped src" "fs_closed (note_event ev src) = fs_closed src"
  "fs_received (note_event ev src) = fs_received src @ [ev]"
  by (simp_all add: set_source_def source_of_def note_event_def)

lemma source_of_set: "i < length (fa_sources f) \<Longrightarrow> source_of (set_source i src f) j = (if j = i then src else source_of f j)"
  by (simp add: source_of_def set_source_def nth_list_update)

lemma stop_frame [simp]:
  "length (fa_sources (stop_stream f)) = length (fa_sources f)" "fa_delivered (stop_stream f) = fa_delivered f"
  "fa_stopped (stop_stream f)" "fa_closed (stop_stream f) = fa_closed f"
  by (simp_all add: stop_stream_def)

lemma stop_source:
  "j < length (fa_sources f) \<Longrightarrow> source_of (stop_stream f) j = (if fa_stopped f then source_of f j else (source_of f j)\<lparr>fs_stopped := True\<rparr>)"
  by (simp add: stop_stream_def source_of_def)

lemma stop_cancels: "fa_cancelled (stop_stream f) = (fa_cancelled f \<or> \<not> fa_stopped f)"
  by (simp add: stop_stream_def)

lemma stop_again: "fa_stopped f \<Longrightarrow> stop_stream f = f"
  by (simp add: stop_stream_def)

lemma delivered_frame [simp]:
  "delivered_of j (f\<lparr>fa_cancelled := b\<rparr>) = delivered_of j f" "delivered_of j (f\<lparr>fa_capture := s\<rparr>) = delivered_of j f"
  "delivered_of j (f\<lparr>fa_closed := b\<rparr>) = delivered_of j f" "delivered_of j (stop_stream f) = delivered_of j f"
  "delivered_of j (set_source i src f) = delivered_of j f"
  "delivered_of j (g\<lparr>fa_delivered := fa_delivered f @ [(i, item)]\<rparr>) = delivered_of j f @ (if j = i then [item] else [])"
  by (auto simp: delivered_of_def set_source_def)

lemma all_returned_iff: "all_returned f \<longleftrightarrow> (\<forall>i < length (fa_sources f). fs_done (source_of f i))"
  by (simp add: all_returned_def source_of_def all_set_conv_all_nth)

lemma stop_ok: "fan_ok pumps f \<Longrightarrow> fan_ok pumps (stop_stream f)"
  by (auto simp: fan_ok_def stop_source stop_cancels)

lemma returned_ok:
  assumes "fan_ok pumps f" "i < length pumps"
  shows "fan_ok pumps (returned i f)"
proof -
  from stop_ok [OF assms(1)] have "fan_ok pumps (stop_stream f)" .
  with assms(2) show ?thesis by (auto simp: returned_def Let_def fan_ok_def source_of_set stop_cancels)
qed

lemma received_ok:
  assumes "fan_ok pumps f" "i < length pumps" "fs_pending (source_of f i) = None" "\<not> fs_done (source_of f i)"
    and "accepted_items (pumps ! i) [ev] = (case held of None \<Rightarrow> [] | Some item \<Rightarrow> [item])"
  shows "fan_ok pumps (set_source i ((note_event ev (source_of f i))\<lparr>fs_pending := held\<rparr>) f\<lparr>fa_capture := s\<rparr>)"
  using assms by (auto simp: fan_ok_def source_of_set simp del: accepted_items.simps)

lemma keep_pending: "fs_pending (source_of f i) = None \<Longrightarrow>
    (note_event ev (source_of f i))\<lparr>fs_pending := None\<rparr> = note_event ev (source_of f i)"
  by (simp add: note_event_def)

lemma fan_ok_step:
  assumes "fan_step pumps f a f'" "fan_ok pumps f" "\<forall>pump \<in> set pumps. steady pump"
  shows "fan_ok pumps f'"
proof -
  have answer: "fst ((pumps ! i) ev idle_capture) = answer" if "open_source f i" "(pumps ! i) ev (fa_capture f) = (answer, s')" for i ev answer s'
    using steady_answer [of "pumps ! i", OF _ that(2)] assms(2,3) that(1) by (simp add: open_source_def fan_ok_def)
  have len: "length (fa_sources f) = length pumps" using assms(2) by (simp add: fan_ok_def)
  show ?thesis using assms(1)
  proof cases
    case (receives_fatal i ev item accepted s')
    have i: "i < length pumps" "\<not> fs_done (source_of f i)" using receives_fatal(3) len by (simp_all add: open_source_def)
    have "accepted_items (pumps ! i) [ev] = []" using answer [OF receives_fatal(3,6)] by simp
    with received_ok [OF assms(2) i(1) receives_fatal(4) i(2), of ev None s']
    have "fan_ok pumps (set_source i (note_event ev (source_of f i)) f\<lparr>fa_capture := s'\<rparr>)"
      by (simp add: keep_pending [OF receives_fatal(4)])
    then show ?thesis unfolding receives_fatal(2) by (rule returned_ok [OF _ i(1)])
  next
    case (skips i ev item s')
    have i: "i < length pumps" "\<not> fs_done (source_of f i)" using skips(3) len by (simp_all add: open_source_def)
    have "accepted_items (pumps ! i) [ev] = []" using answer [OF skips(3,6)] by simp
    with received_ok [OF assms(2) i(1) skips(4) i(2), of ev None s'] show ?thesis
      unfolding skips(2) by (simp add: keep_pending [OF skips(4)])
  next
    case (holds i ev item s')
    have i: "i < length pumps" "\<not> fs_done (source_of f i)" using holds(3) len by (simp_all add: open_source_def)
    have "accepted_items (pumps ! i) [ev] = [item]" using answer [OF holds(3,6)] by simp
    with received_ok [OF assms(2) i(1) holds(4) i(2), of ev "Some item" s'] show ?thesis unfolding holds(2) by simp
  next
    case (gives_up i item)
    then have "i < length pumps" using len by (simp add: open_source_def)
    then show ?thesis unfolding gives_up(2) by (rule returned_ok [OF assms(2)])
  next
    case (drained i)
    then have "i < length pumps" using len by (simp add: open_source_def)
    then show ?thesis unfolding drained(2) by (rule returned_ok [OF assms(2)])
  next
    case stops
    with stop_ok [OF assms(2)] show ?thesis by simp
  qed (use assms(2) in \<open>auto simp: fan_ok_def open_source_def source_of_set all_returned_iff\<close>)
qed

lemma new_fan_ok: "fan_ok pumps (new_fan (length pumps) s)"
  by (simp add: fan_ok_def new_fan_def source_of_def delivered_of_def)

lemma fan_run_ok:
  assumes "fan_run pumps f acts f'" "fan_ok pumps f" "\<forall>pump \<in> set pumps. steady pump"
  shows "fan_ok pumps f'"
  using assms by (induction rule: fan_run.induct) (auto intro: fan_ok_step)

lemma tap_answer [simp]: "fst (tap ky scope pump ev s) = fst (pump ev s)"
  by (simp add: tap_def split: prod.split)

lemma tap_steady: "steady pump \<Longrightarrow> steady (tap ky scope pump)"
  by (simp add: steady_def tap_answer)

lemma pump_pod_steady: "steady (pump_pod kd opts)"
  by (auto simp: steady_def pump_pod_def split: option.split sum.split prod.split)

lemma infrastructure_pump_steady: "steady (infrastructure_pump kind convert put ident)"
  by (auto simp: steady_def infrastructure_pump_def split: option.split sum.split prod.split)

lemma watches_steady: "w \<in> set (infrastructure_watches ky kd opts state) \<Longrightarrow> steady (snd (snd w))"
  by (auto simp: infrastructure_watches_def pump_service_def pump_volume_def pump_snapshot_def child_pump_def map_filter_def
      intro!: tap_steady infrastructure_pump_steady split: if_splits)

text \<open>C12. A merged stream is never a partial one. In every run of the merge of the infrastructure's watches, under
any interleaving of their events, of the reader, of \<open>Stop\<close> and of the contexts: what has been delivered of each watch is what
its pump accepted of the events received, in order and without a gap, but for the one item it may still
hold; and until the stream has been stopped, with every watch of it, each watch is still being read, so a collector never goes on
publishing with one of its kinds silently gone.\<close>

theorem merged_stream_is_whole:
  assumes "fan_run pumps (new_fan (length pumps) s) acts f"
    and "pumps = map (\<lambda>w. snd (snd w)) (infrastructure_watches ky kd opts state)" and "i < length pumps"
  shows "accepted_items (pumps ! i) (fs_received (source_of f i)) =
      delivered_of i f @ (case fs_pending (source_of f i) of None \<Rightarrow> [] | Some item \<Rightarrow> [item]) \<and>
    (fa_cancelled f \<and> fa_stopped f \<and> fs_stopped (source_of f i) \<or> open_source f i)"
proof -
  have "\<forall>pump \<in> set pumps. steady pump" using assms(2) watches_steady by auto
  from fan_run_ok [OF assms(1) new_fan_ok this] assms(3) show ?thesis
    by (auto simp: fan_ok_def open_source_def)
qed

text \<open>The steps that need neither the reader nor the API server: those of the goroutines, and of a watch that has
been stopped, which closes its result channel.\<close>

fun own_step :: "('n, 'e) fan_act \<Rightarrow> bool" where
  "own_step (GaveUp i) = True"
| "own_step (Drained i) = True"
| "own_step (StopEnded i) = True"
| "own_step ItemsClosed = True"
| "own_step act = False"

definition source_weight :: "('n, 'e) fan_source \<Rightarrow> nat" where
  "source_weight src = (if fs_closed src then 0 else 1) + (if fs_done src then 0 else 1)"

definition fan_weight :: "('n, 'e) fan \<Rightarrow> nat" where
  "fan_weight f = sum_list (map source_weight (fa_sources f)) + (if fa_closed f then 0 else 1)"

lemma weight_le: "fan_weight f \<le> 2 * length (fa_sources f) + 1"
proof -
  have "sum_list (map source_weight xs) \<le> 2 * length xs" for xs :: "('c, 'd) fan_source list"
    by (induction xs) (auto simp: source_weight_def)
  from this [of "fa_sources f"] show ?thesis by (auto simp: fan_weight_def)
qed

lemma weight_set:
  assumes "i < length (fa_sources f)"
  shows "fan_weight (set_source i src f) + source_weight (source_of f i) = fan_weight f + source_weight src"
proof -
  have "sum_list (map source_weight (xs[j := x])) + source_weight (xs ! j) = sum_list (map source_weight xs) + source_weight x"
    if "j < length xs" for xs :: "('c, 'd) fan_source list" and j x
    using that by (induction xs arbitrary: j) (auto simp: nth_Cons split: nat.splits)
  from this [OF assms, of src] show ?thesis by (simp add: fan_weight_def set_source_def source_of_def)
qed

lemma weight_frame [simp]:
  "fan_weight (f\<lparr>fa_cancelled := b\<rparr>) = fan_weight f" "fan_weight (f\<lparr>fa_capture := s\<rparr>) = fan_weight f"
  "fan_weight (f\<lparr>fa_delivered := ds\<rparr>) = fan_weight f"
  "source_weight (src\<lparr>fs_pending := p\<rparr>) = source_weight src" "source_weight (note_event ev src) = source_weight src"
  by (simp_all add: fan_weight_def source_weight_def)

text \<open>Once the stream is stopped every step of its own takes weight off, and no other step puts any on.\<close>

lemma weight_step:
  assumes "fan_step pumps f a f'" "fa_stopped f"
  shows "fa_stopped f' \<and> length (fa_sources f') = length (fa_sources f) \<and>
    fan_weight f' + (if own_step a then 1 else 0) \<le> fan_weight f"
  using assms(1)
proof cases
  case (receives_fatal i ev item accepted s')
  let ?g = "set_source i (note_event ev (source_of f i)) f\<lparr>fa_capture := s'\<rparr>"
  have i: "i < length (fa_sources f)" "\<not> fs_done (source_of f i)" using receives_fatal(3) by (simp_all add: open_source_def)
  have g: "fa_stopped ?g" using assms(2) by simp
  then have "returned i ?g = set_source i ((source_of ?g i)\<lparr>fs_done := True\<rparr>) ?g" by (simp add: returned_def stop_again)
  then have f': "f' = set_source i ((note_event ev (source_of f i))\<lparr>fs_done := True\<rparr>) ?g"
    using receives_fatal(2) i by (simp add: source_of_set)
  have "fan_weight ?g = fan_weight f" using weight_set [OF i(1), of "note_event ev (source_of f i)"] by simp
  moreover have "fan_weight f' + source_weight (source_of ?g i) = fan_weight ?g + source_weight ((note_event ev (source_of f i))\<lparr>fs_done := True\<rparr>)"
    unfolding f' by (rule weight_set) (simp add: i)
  moreover have "source_weight ((note_event ev (source_of f i))\<lparr>fs_done := True\<rparr>) \<le> source_weight (source_of ?g i)"
    using i by (simp add: source_of_set source_weight_def)
  ultimately show ?thesis using g f' receives_fatal(1) by simp
next
  case (gives_up i item)
  with weight_set [of i f "(source_of f i)\<lparr>fs_done := True\<rparr>"] assms(2) show ?thesis
    by (auto simp: open_source_def returned_def stop_again source_weight_def)
next
  case (drained i)
  with weight_set [of i f "(source_of f i)\<lparr>fs_done := True\<rparr>"] assms(2) show ?thesis
    by (auto simp: open_source_def returned_def stop_again source_weight_def)
next
  case (stop_ends i)
  with weight_set [of i f "(source_of f i)\<lparr>fs_closed := True\<rparr>"] assms(2) show ?thesis
    by (auto simp: source_weight_def)
next
  case (server_ends i)
  with weight_set [of i f "(source_of f i)\<lparr>fs_closed := True\<rparr>"] assms(2) show ?thesis
    by (auto simp: source_weight_def)
next
  case (skips i ev item s')
  with weight_set [of i f "note_event ev (source_of f i)"] assms(2) show ?thesis by (simp add: open_source_def)
next
  case (holds i ev item s')
  with weight_set [of i f "(note_event ev (source_of f i))\<lparr>fs_pending := Some item\<rparr>"] assms(2) show ?thesis
    by (simp add: open_source_def)
next
  case (sends i item)
  with weight_set [of i f "(source_of f i)\<lparr>fs_pending := None\<rparr>"] assms(2) show ?thesis by (simp add: open_source_def)
qed (use assms(2) in \<open>auto simp: stop_again fan_weight_def\<close>)

lemma weight_run:
  assumes "fan_run pumps f acts f'" "fa_stopped f"
  shows "fa_stopped f' \<and> length (fa_sources f') = length (fa_sources f) \<and> fan_weight f' + length (filter own_step acts) \<le> fan_weight f"
  using assms
proof (induction rule: fan_run.induct)
  case (fan_more acts f' a f'')
  with weight_step [OF fan_more.hyps(2)] show ?case by auto
qed simp

lemma own_step_possible:
  assumes "fan_ok pumps f" "fa_stopped f" "\<not> fa_closed f"
  shows "\<exists>a f'. own_step a \<and> fan_step pumps f a f'"
proof (cases "all_returned f")
  case True
  with closes_items [OF this assms(3), of pumps] show ?thesis by (metis own_step.simps(4))
next
  case False
  then obtain i where i: "open_source f i" "i < length (fa_sources f)" "fs_stopped (source_of f i)"
    using assms(1,2) by (auto simp: all_returned_iff open_source_def fan_ok_def)
  have cancelled: "fa_cancelled f" using assms(1,2) by (simp add: fan_ok_def)
  show ?thesis
  proof (cases "fs_pending (source_of f i)")
    case (Some item)
    from gives_up [OF i(1) Some cancelled, of pumps] show ?thesis by (metis own_step.simps(1))
  next
    case None
    show ?thesis
    proof (cases "fs_closed (source_of f i)")
      case True
      from drained [OF i(1) None True, of pumps] show ?thesis by (metis own_step.simps(2))
    next
      case False
      from stop_ends [OF i(2,3) False, of pumps] show ?thesis by (metis own_step.simps(3))
    qed
  qed
qed

lemma closed_is_silent: "fan_ok pumps f \<Longrightarrow> fa_closed f \<Longrightarrow> \<not> fan_step pumps f (Sent i item) f'"
  by (auto simp: fan_ok_def open_source_def elim!: sentE)

text \<open>C13. A stopped stream always closes, read or not. Take any run of the merge of the infrastructure's watches
in which the stream has been stopped (by its reader, or by a watch that ended or failed), at any point of it, and let it go
on in any way: of the steps that need neither the reader nor the API server, at most two a watch and one more
happen, whatever else is received, sent or cancelled in between; as long as the channel of items is not closed one of
them can be taken, even where every goroutine is blocked sending an item nobody will read; and after it is closed nothing is sent on it.\<close>

theorem stopped_streams_close:
  fixes f f' :: "('n, infrastructure_change) fan"
  assumes "fan_run pumps (new_fan (length pumps) s) before f" and "fa_stopped f"
    and "fan_run pumps f acts f'"
    and "pumps = map (\<lambda>w. snd (snd w)) (infrastructure_watches ky kd opts state)"
  shows "length (filter own_step acts) \<le> 2 * length pumps + 1 \<and>
    (fa_closed f' \<or> (\<exists>a f''. own_step a \<and> fan_step pumps f' a f'')) \<and>
    (fa_closed f' \<longrightarrow> \<not> (\<exists>i item f''. fan_step pumps f' (Sent i item) f''))"
proof -
  have steady: "\<forall>pump \<in> set pumps. steady pump" using assms(4) watches_steady by auto
  have ok: "fan_ok pumps f" by (rule fan_run_ok [OF assms(1) new_fan_ok steady])
  have ok': "fan_ok pumps f'" by (rule fan_run_ok [OF assms(3) ok steady])
  note run = weight_run [OF assms(3,2)]
  have "length (filter own_step acts) \<le> 2 * length pumps + 1"
    using run weight_le [of f] ok by (simp add: fan_ok_def)
  moreover have "fa_closed f' \<or> (\<exists>a f''. own_step a \<and> fan_step pumps f' a f'')"
    using own_step_possible [OF ok'] run by blast
  moreover have "fa_closed f' \<longrightarrow> \<not> (\<exists>i item f''. fan_step pumps f' (Sent i item) f'')"
    using closed_is_silent [OF ok'] by blast
  ultimately show ?thesis by blast
qed

section \<open>Reading a log\<close>

text \<open>An error of the API server as client-go answers it, and the categories it is translated into at this boundary.\<close>

record api_error =
  ae_forbidden :: bool
  ae_not_found :: bool
  ae_timeout :: bool
  ae_error :: go_error

definition categorize_api :: "string \<Rightarrow> api_error \<Rightarrow> go_error" where
  "categorize_api op e =
     (if ae_forbidden e then new_error op CategoryForbidden (Some (ae_error e))
      else if ae_not_found e then new_error op CategoryNotFound (Some (ae_error e))
      else if ae_timeout e then new_error op CategoryTimeout (Some (ae_error e))
      else if categorize (ae_error e) \<noteq> CategoryInternal then new_error op (categorize (ae_error e)) (Some (ae_error e))
      else new_error op CategoryInternal (Some (ae_error e)))"

definition declares_container :: "container_facts list \<Rightarrow> string \<Rightarrow> bool" where
  "declares_container containers name = list_ex (\<lambda>c. ct_name c = name) containers"

definition log_excluded_container :: "string \<Rightarrow> string \<Rightarrow> capture \<Rightarrow> capture" where
  "log_excluded_container pod container s = s\<lparr>kp_refused := kp_refused s @ [(pod, container)]\<rparr>"

definition verify_member_container :: "'n decoders \<Rightarrow> client_options \<Rightarrow> (string \<Rightarrow> api_error + 'n object) \<Rightarrow> string \<Rightarrow> string \<Rightarrow>
    capture \<Rightarrow> (go_error + string) \<times> capture" where
  "verify_member_container kd opts get_pod pod container s =
     (case get_pod pod of
        Inl e \<Rightarrow>
          (if ae_not_found e then (Inl (new_error ''log tail'' CategoryNotFound (Some (ae_error e))), s)
           else (Inl (categorize_api ''log tail pod get'' e), s))
      | Inr content \<Rightarrow>
          (case convert_pod kd opts content of
             Inl err \<Rightarrow> (Inl err, s)
           | Inr (facts, member) \<Rightarrow>
               if \<not> member then (Inl (new_error ''log tail'' CategoryNotFound None), log_excluded (Some (pf_name facts)) s)
               else
                 (let wanted = (if container = '''' then postgres_container else container)
                  in if \<not> declares_container (pf_containers facts) wanted
                     then (Inl (new_error ''log tail'' CategoryNotFound None), log_excluded_container (pf_name facts) wanted s)
                     else (Inr wanted, s))))"

record log_request =
  lr_pod :: string
  lr_container :: string
  lr_follow :: bool
  lr_tail_lines :: int
  lr_limit_bytes :: "int option"

record log_tail =
  lt_content :: string
  lt_truncated_by_bytes :: bool
  lt_line_limit :: int
  lt_byte_limit :: int

text \<open>The server's answer to a log request: refused, or the bytes it serves and how reading them ends.\<close>

type_synonym log_answer = "api_error + (string \<times> api_error option)"

definition tail_logs :: "'n decoders \<Rightarrow> client_options \<Rightarrow> (string \<Rightarrow> api_error + 'n object) \<Rightarrow> (log_request \<Rightarrow> log_answer) \<Rightarrow>
    string \<Rightarrow> string \<Rightarrow> capture \<Rightarrow> (go_error + log_tail) \<times> log_request list \<times> capture" where
  "tail_logs kd opts get_pod serve pod container s =
     (case verify_member_container kd opts get_pod pod container s of
        (Inl err, s') \<Rightarrow> (Inl err, [], s')
      | (Inr wanted, s') \<Rightarrow>
          (let limit = ko_tail_bytes opts;
               req = \<lparr>lr_pod = pod, lr_container = wanted, lr_follow = False, lr_tail_lines = ko_tail_lines opts, lr_limit_bytes = Some limit\<rparr>
           in (case serve req of
                 Inl e \<Rightarrow> (Inl (categorize_api ''log tail'' e), [req], s')
               | Inr (served, failure) \<Rightarrow>
                   (case (if int (length served) < limit then failure else None) of
                      Some e \<Rightarrow> (Inl (categorize_api ''log tail read'' e), [req], s')
                    | None \<Rightarrow>
                        (let data = take (nat limit) served
                         in (Inr \<lparr>lt_content = data, lt_truncated_by_bytes = (int (length data) \<ge> limit),
                               lt_line_limit = ko_tail_lines opts, lt_byte_limit = limit\<rparr>, [req], s'))))))"

definition follow_from_now :: int where "follow_from_now = 0"

definition follow_log_options :: "string \<Rightarrow> string \<Rightarrow> log_request" where
  "follow_log_options pod container =
     \<lparr>lr_pod = pod, lr_container = container, lr_follow = True, lr_tail_lines = follow_from_now, lr_limit_bytes = None\<rparr>"

text \<open>The error of an opened follow is the client's own, not a category of this boundary.\<close>

definition follow_logs :: "'n decoders \<Rightarrow> client_options \<Rightarrow> (string \<Rightarrow> api_error + 'n object) \<Rightarrow> (log_request \<Rightarrow> log_answer) \<Rightarrow>
    string \<Rightarrow> string \<Rightarrow> capture \<Rightarrow> (go_error + (string \<times> api_error option)) \<times> log_request list \<times> capture" where
  "follow_logs kd opts get_pod serve pod container s =
     (case verify_member_container kd opts get_pod pod container s of
        (Inl err, s') \<Rightarrow> (Inl err, [], s')
      | (Inr wanted, s') \<Rightarrow>
          (case serve (follow_log_options pod wanted) of
             Inl e \<Rightarrow> (Inl (ae_error e), [follow_log_options pod wanted], s')
           | Inr served \<Rightarrow> (Inr served, [follow_log_options pod wanted], s')))"

definition declared_names :: "kube_pod \<Rightarrow> string set" where
  "declared_names p = xn_name ` (set (xp_init_containers p) \<union> set (xp_containers p))"

lemma converted_names: "ct_name ` set (convert_containers p) = declared_names p"
proof -
  have name: "ct_name (add_container idx init spec) = xn_name spec" for idx init spec
    by (simp add: add_container_def Let_def split: option.split prod.split)
  show ?thesis by (simp add: convert_containers_def declared_names_def image_Un image_image name)
qed

lemma verified_container:
  assumes "verify_member_container kd opts get_pod pod container s = (Inr wanted, s')"
  shows "\<exists>content p. get_pod pod = Inr content \<and> kd_pod kd content = Some p \<and> pod_is_member kd opts p \<and>
    wanted = (if container = '''' then ''postgres'' else container) \<and> wanted \<in> declared_names p \<and> s' = s"
proof -
  from assms obtain content facts where r: "get_pod pod = Inr content" "convert_pod kd opts content = Inr (facts, True)"
    "wanted = (if container = '''' then ''postgres'' else container)" "declares_container (pf_containers facts) wanted" "s' = s"
    by (auto simp: verify_member_container_def Let_def postgres_container_def split: sum.splits prod.splits if_splits)
  from r(2) obtain p where p: "kd_pod kd content = Some p" "pod_is_member kd opts p" "pf_containers facts = convert_containers p"
    by (auto simp: convert_pod_def Let_def split: option.splits)
  have "wanted \<in> ct_name ` set (convert_containers p)"
    using r(4) unfolding p(3) by (auto simp: declares_container_def list_ex_iff)
  with r p show ?thesis by (auto simp: converted_names)
qed

text \<open>C11. A log is read of a proven member only. For the tail of a page and for the follower alike: a request for a log
goes out only after the pod was read again, live, and its controller reference proved it the cluster's; it
names that pod and a container the pod declares, the PostgreSQL one where none was asked for; the follower
asks for nothing written before; and what a tail returns is within its byte bound and flagged exactly when
it reaches it.\<close>

theorem logs_are_read_of_members_only:
  assumes "tail_logs kd opts get_pod serve pod container s = (tail, reqs, s1)"
    and "follow_logs kd opts get_pod serve pod container s = (stream, reqs', s2)"
    and "req \<in> set reqs \<union> set reqs'" and "0 \<le> ko_tail_bytes opts"
  shows "(\<exists>content p. get_pod pod = Inr content \<and> kd_pod kd content = Some p \<and> pod_is_member kd opts p \<and>
      lr_pod req = pod \<and> lr_container req = (if container = '''' then ''postgres'' else container) \<and>
      lr_container req \<in> declared_names p) \<and>
    (lr_follow req \<longrightarrow> lr_tail_lines req = 0) \<and>
    (\<forall>t. tail = Inr t \<longrightarrow> int (length (lt_content t)) \<le> ko_tail_bytes opts \<and>
      (lt_truncated_by_bytes t \<longleftrightarrow> int (length (lt_content t)) = ko_tail_bytes opts))"
proof -
  obtain answer s' where step: "verify_member_container kd opts get_pod pod container s = (answer, s')"
    by (cases "verify_member_container kd opts get_pod pod container s") blast
  with assms(1-3) obtain wanted where wanted: "answer = Inr wanted"
    by (cases answer) (auto simp: tail_logs_def follow_logs_def)
  note member = verified_container [OF step [unfolded wanted]]
  have reqs: "lr_pod r = pod \<and> lr_container r = wanted \<and> (lr_follow r \<longrightarrow> lr_tail_lines r = 0)" if "r \<in> set reqs \<union> set reqs'" for r
    using that assms(1,2) step wanted
    by (auto simp: tail_logs_def follow_logs_def follow_log_options_def follow_from_now_def Let_def
        split: sum.splits prod.splits option.splits if_splits)
  have "int (length (lt_content t)) \<le> ko_tail_bytes opts \<and>
      (lt_truncated_by_bytes t \<longleftrightarrow> int (length (lt_content t)) = ko_tail_bytes opts)" if "tail = Inr t" for t
    using that assms(1,4) step wanted
    by (auto simp: tail_logs_def Let_def min_def split: sum.splits prod.splits option.splits if_splits)
  with reqs [OF assms(3)] member show ?thesis by auto
qed

section \<open>Witnesses\<close>

definition fetched_pods :: "pod_facts list \<times> string" where
  "fetched_pods = (case fst (fetch_pods sample_codec sample_decoders sample_options sample_pages idle_capture) of Inr q \<Rightarrow> q | Inl _ \<Rightarrow> ([], ''''))"

definition seeded_pods :: "(string, pod_event, pod_collector) loop_state" where
  "seeded_pods =
     published pod_feed 5 ((new_loop new_pod_collector)\<lparr>lo_phase := Following (snd fetched_pods),
       lo_feed := fst (pod_seed fetched_pods new_pod_collector)\<rparr>)"

lemma seeded_pods_run: "loop_run pod_feed (new_loop new_pod_collector) [Silent, Seeded fetched_pods 5] seeded_pods"
proof -
  have "loop_run pod_feed (new_loop new_pod_collector) [Silent] ((new_loop new_pod_collector)\<lparr>lo_phase := Seeding\<rparr>)"
    by (rule one_more_step [OF no_steps top_goes]) (simp_all add: new_loop_def)
  note r = this
  have "fd_seed pod_feed fetched_pods new_pod_collector = (fst (pod_seed fetched_pods new_pod_collector), snd fetched_pods)"
    by (simp add: pod_feed_def pod_seed_def case_prod_unfold)
  then show ?thesis
    by (intro one_more_step [OF r seeds]) (simp_all add: new_loop_def seeded_pods_def)
qed

theorem only_proven_pods_are_shown_witness:
  "map pf_name (po_pods (so_snap (pd_store (lo_feed seeded_pods)))) = [''u1'', ''u2''] \<and>
   (\<exists>content pod ref v. pf_name (hd (po_pods (so_snap (pd_store (lo_feed seeded_pods))))) = ''u1'' \<and>
     kd_pod sample_decoders content = Some pod \<and> kd_controller sample_decoders (me_owners (xp_meta pod)) = Some ref \<and>
     kd_group_version sample_decoders (rf_api_version ref) = Some (''postgresql.cnpg.io'', v) \<and> rf_name ref = ''pg'')"
proof -
  let ?pods = "po_pods (so_snap (pd_store (lo_feed seeded_pods)))"
  have names: "map pf_name ?pods = [''u1'', ''u2'']" by code_simp
  then have "hd ?pods \<in> set ?pods" by (cases ?pods) auto
  moreover have "so_has (pd_store (lo_feed seeded_pods))" by code_simp
  moreover have fetched: "fst (fetch_pods sample_codec sample_decoders sample_options sample_pages idle_capture) = Inr fetched_pods"
    by code_simp
  have "reads_server sample_codec sample_decoders sample_options [Silent, Seeded fetched_pods 5]"
    unfolding reads_server_def using fetched by (auto simp: prod_eq_iff)
  ultimately obtain content pod ref v where
    "kd_pod sample_decoders content = Some pod" "kd_controller sample_decoders (me_owners (xp_meta pod)) = Some ref"
    "kd_group_version sample_decoders (rf_api_version ref) = Some (''postgresql.cnpg.io'', v)" "rf_name ref = ko_cluster sample_options"
    using only_proven_pods_are_shown [OF seeded_pods_run] by blast
  moreover have "pf_name (hd ?pods) = ''u1''" using names by (cases ?pods) auto
  ultimately show ?thesis using names by (auto simp: sample_options_def)
qed

definition sample_secret :: "string \<Rightarrow> int object" where
  "sample_secret password =
     [(''kind'', JString ''Secret''), (''type'', JString ''Opaque''), (''metadata'', JObject [(''uid'', JString ''s1'')]),
      (''data'', JObject [(''password'', JString password)])]"

definition secret_pages :: "string \<Rightarrow> string \<Rightarrow> int page list" where
  "secret_pages password op = (if op = ''secrets'' then [Page [sample_secret password] False ''7''] else [Page [] False ''3''])"

theorem secret_payload_goes_nowhere_witness:
  "fetch_infrastructure sample_codec sample_decoders sample_options (secret_pages ''hunter2'') sample_capture =
     fetch_infrastructure sample_codec sample_decoders sample_options (secret_pages ''s3cret'') sample_capture \<and>
   secret_pages ''hunter2'' ''secrets'' \<noteq> secret_pages ''s3cret'' ''secrets''"
proof
  have readers: "readers_read_fields sample_decoders"
    by (auto simp: readers_read_fields_def sample_decoders_def object_uid_def object_at_def split: list.split)
  have secrets: "alike (sample_secret ''hunter2'') (sample_secret ''s3cret'')"
    by (simp add: alike_def sample_secret_def mget_def object_at_def)
  then have pages: "list_all2 alike_pages (secret_pages ''hunter2'' ''secrets'') (secret_pages ''s3cret'' ''secrets'')"
    by (simp add: secret_pages_def alike_pages_def)
  have rest: "\<forall>op. op \<noteq> ''secrets'' \<longrightarrow> secret_pages ''hunter2'' op = secret_pages ''s3cret'' op" by (simp add: secret_pages_def)
  show "fetch_infrastructure sample_codec sample_decoders sample_options (secret_pages ''hunter2'') sample_capture =
      fetch_infrastructure sample_codec sample_decoders sample_options (secret_pages ''s3cret'') sample_capture"
    by (rule secret_payload_goes_nowhere [OF readers pages rest secrets, THEN conjunct1])
  show "secret_pages ''hunter2'' ''secrets'' \<noteq> secret_pages ''s3cret'' ''secrets''"
    by (simp add: secret_pages_def sample_secret_def)
qed

definition added_service :: "int watch_event" where
  "added_service = \<lparr>wv_type = EventAdded, wv_object = Some (sample_pod ''u1'' ''a'')\<rparr>"

definition service_item :: infrastructure_change where
  "service_item = fst (fst (pump_service sample_decoders sample_options added_service idle_capture))"

theorem merged_stream_is_whole_witness:
  "\<exists>pumps f. fan_run pumps (new_fan 2 idle_capture) [Received 0 added_service] f \<and> fs_pending (source_of f 0) = Some service_item \<and>
     delivered_of 0 f = [] \<and> accepted_items (pumps ! 0) [added_service] = [service_item] \<and> open_source f 0"
proof -
  define pumps where "pumps = map (\<lambda>w. snd (snd w)) (infrastructure_watches sample_codec sample_decoders sample_options no_infrastructure)"
  define f where "f = (new_fan (length pumps) idle_capture :: (int, infrastructure_change) fan)"
  have two: "length pumps = 2"
    by (simp add: pumps_def infrastructure_watches_def no_infrastructure_def child_kinds_def map_filter_def)
  have idle: "open_source f 0" "fs_pending (source_of f 0) = None" "fa_capture f = idle_capture" "\<not> fs_closed (source_of f 0)"
    using two by (simp_all add: f_def open_source_def source_of_def new_fan_def)
  have first: "pumps ! 0 = tap sample_codec ''services'' (pump_service sample_decoders sample_options)"
    by (simp add: pumps_def infrastructure_watches_def)
  have "snd (fst (pump_service sample_decoders sample_options added_service idle_capture)) = (True, False)" by code_simp
  then have "fst (pump_service sample_decoders sample_options added_service idle_capture) = (service_item, True, False)"
    by (simp add: service_item_def prod_eq_iff)
  then have "fst ((pumps ! 0) added_service (fa_capture f)) = (service_item, True, False)"
    unfolding first idle(3) by simp
  then have pumped: "(pumps ! 0) added_service (fa_capture f) = ((service_item, True, False), snd ((pumps ! 0) added_service (fa_capture f)))"
    by (metis prod.collapse)
  define g where "g = set_source 0 ((note_event added_service (source_of f 0))\<lparr>fs_pending := Some service_item\<rparr>) f
    \<lparr>fa_capture := snd ((pumps ! 0) added_service (fa_capture f))\<rparr>"
  have run: "fan_run pumps f [Received 0 added_service] g"
    unfolding g_def by (rule one_fan_step) (rule holds [OF idle(1,2,4) pumped])
  have src: "source_of g 0 = (note_event added_service (source_of f 0))\<lparr>fs_pending := Some service_item\<rparr>"
    using two by (simp add: g_def source_of_set f_def new_fan_def)
  have none: "delivered_of 0 g = []" "fs_received (source_of f 0) = []" "\<not> fa_cancelled g"
    using two by (simp_all add: g_def f_def delivered_of_def new_fan_def source_of_def set_source_def)
  from merged_stream_is_whole [OF run [unfolded f_def] pumps_def, of 0] two none src
  have "accepted_items (pumps ! 0) [added_service] = [service_item] \<and> open_source g 0" by simp
  with run src none(1) two show ?thesis unfolding f_def by (intro exI [of _ pumps] exI [of _ g]) simp
qed

definition sample_pumps :: "(int, infrastructure_change) pump list" where
  "sample_pumps = map (\<lambda>w. snd (snd w)) (infrastructure_watches sample_codec sample_decoders sample_options no_infrastructure)"

theorem stopped_streams_close_witness:
  "fa_stopped (stop_stream (new_fan (length sample_pumps) idle_capture :: (int, infrastructure_change) fan)) \<and>
   (\<exists>a f''. own_step a \<and> fan_step sample_pumps (stop_stream (new_fan (length sample_pumps) idle_capture)) a f'')"
proof -
  let ?f = "stop_stream (new_fan (length sample_pumps) idle_capture) :: (int, infrastructure_change) fan"
  have run: "fan_run sample_pumps (new_fan (length sample_pumps) idle_capture) [StopCalled] ?f"
    by (rule one_fan_step [OF stops])
  have "fa_stopped ?f" "\<not> fa_closed ?f" by (simp_all add: new_fan_def)
  with stopped_streams_close [OF run _ fan_idle sample_pumps_def] show ?thesis by blast
qed

definition live_pod :: "string \<Rightarrow> api_error + int object" where "live_pod pod = Inr (sample_pod ''u1'' ''a'')"
definition one_line :: "log_request \<Rightarrow> log_answer" where "one_line req = Inr (''line'', None)"

definition tail_requests :: "log_request list" where
  "tail_requests = fst (snd (tail_logs sample_decoders sample_options live_pod one_line ''u1'' '''' idle_capture))"

theorem logs_are_read_of_members_only_witness:
  "lr_container (hd tail_requests) = ''postgres'' \<and> lr_container (hd tail_requests) \<in> declared_names (sample_kube_pod ''u1'') \<and>
   (\<exists>t. fst (tail_logs sample_decoders sample_options live_pod one_line ''u1'' '''' idle_capture) = Inr t \<and>
     lt_content t = ''lin'' \<and> lt_truncated_by_bytes t)"
proof -
  let ?tail = "tail_logs sample_decoders sample_options live_pod one_line ''u1'' '''' idle_capture"
  let ?follow = "follow_logs sample_decoders sample_options live_pod one_line ''u1'' '''' idle_capture"
  have one: "length tail_requests = 1" by code_simp
  then have "tail_requests \<noteq> []" by auto
  then have req: "hd tail_requests \<in> set tail_requests" by (rule hd_in_set)
  define t where "t = (case fst ?tail of Inr t \<Rightarrow> t | Inl _ \<Rightarrow> undefined)"
  have out: "isl (fst ?tail) = False" and content: "map_sum (\<lambda>_. ()) lt_content (fst ?tail) = Inr ''lin''" by code_simp+
  then have t: "fst ?tail = Inr t" by (cases "fst ?tail") (simp_all add: t_def)
  with content have lin: "lt_content t = ''lin''" by simp
  have all: "?tail = (Inr t, tail_requests, snd (snd ?tail))" using t by (simp add: tail_requests_def prod_eq_iff)
  have follow: "?follow = (fst ?follow, fst (snd ?follow), snd (snd ?follow))" by simp
  have pod: "live_pod ''u1'' = Inr c \<Longrightarrow> kd_pod sample_decoders c = Some p \<Longrightarrow> p = sample_kube_pod ''u1''" for c p
    by (auto simp: live_pod_def sample_decoders_def object_uid_def object_at_def mget_def sample_pod_def str_at_def)
  have limit: "0 \<le> ko_tail_bytes sample_options" "ko_tail_bytes sample_options = 3" by (simp_all add: sample_options_def)
  have "hd tail_requests \<in> set tail_requests \<union> set (fst (snd ?follow))" using req by (rule UnI1)
  note read = logs_are_read_of_members_only [OF all follow this limit(1)]
  from read obtain c p where "live_pod ''u1'' = Inr c" "kd_pod sample_decoders c = Some p"
    "lr_container (hd tail_requests) = ''postgres''" "lr_container (hd tail_requests) \<in> declared_names p" by auto
  moreover from read have "lt_truncated_by_bytes t" by (simp add: lin limit(2))
  ultimately show ?thesis using pod t lin by blast
qed

end
