(* ===== verification/KubePoolers.thy ===== *)
theory KubePoolers
  imports KubeWatch
begin

text \<open>
  The pods of the connection poolers (\<open>kube/poolerpods.go\<close>): membership is proved by walking Pod, ReplicaSet,
  Deployment, Pooler, each link read once and remembered; the conversion, the pump and the log tail rest on
  that walk. The API server's answers to the two reads of a walk are the record \<open>owner_api\<close>, one for each pod checked.
\<close>

section \<open>The ownership walk\<close>

definition pooler_name_label :: string where "pooler_name_label = ''cnpg.io/poolerName''"
definition pgbouncer_container :: string where "pgbouncer_container = ''pgbouncer''"
definition apps_group :: string where "apps_group = ''apps''"

record 'n owner_api =
  oa_replica_set :: "string \<Rightarrow> api_error + 'n object"
  oa_deployment :: "string \<Rightarrow> api_error + 'n object"
  oa_partial :: "'n object \<Rightarrow> object_meta option"

record pooler_ownership =
  ow_replica_sets :: "(string, string) gomap"
  ow_deployments :: "(string, string) gomap"

definition new_pooler_ownership :: pooler_ownership where
  "new_pooler_ownership = \<lparr>ow_replica_sets = [], ow_deployments = []\<rparr>"

type_synonym walk_state = "pooler_ownership \<times> capture"

definition owner_ref_of :: "'n decoders \<Rightarrow> 'n owner_api \<Rightarrow> 'n object \<Rightarrow> owner_reference option" where
  "owner_ref_of kd api content =
     (case oa_partial api content of None \<Rightarrow> None | Some meta \<Rightarrow> kd_controller kd (me_owners meta))"

definition log_ownership_unavailable :: "string \<Rightarrow> api_error \<Rightarrow> capture \<Rightarrow> capture" where
  "log_ownership_unavailable op e s = log_unobservable ''pooler ownership'' (categorize_api op e) s"

text \<open>The name of the controlling object, where the controller is of the kind and group.\<close>

definition controller_named :: "'n decoders \<Rightarrow> 'n owner_api \<Rightarrow> string \<Rightarrow> string \<Rightarrow> 'n object \<Rightarrow> string" where
  "controller_named kd api kind g content =
     (case owner_ref_of kd api content of
        None \<Rightarrow> ''''
      | Some ref \<Rightarrow>
          if rf_kind ref \<noteq> kind then ''''
          else (case split_api_version kd (rf_api_version ref) of (g', _, known) \<Rightarrow>
             if \<not> known \<or> g' \<noteq> g then '''' else rf_name ref))"

definition deployment_of :: "'n decoders \<Rightarrow> 'n owner_api \<Rightarrow> string \<Rightarrow> walk_state \<Rightarrow> string \<times> walk_state" where
  "deployment_of kd api replica_set st =
     (case st of (own, s) \<Rightarrow>
        (case mget (ow_replica_sets own) replica_set of
           Some name \<Rightarrow> (name, st)
         | None \<Rightarrow>
             (let own1 = own\<lparr>ow_replica_sets := mput replica_set '''' (ow_replica_sets own)\<rparr>
              in case oa_replica_set api replica_set of
                   Inl e \<Rightarrow> ('''', own1, log_ownership_unavailable ''replicaset get'' e s)
                 | Inr content \<Rightarrow>
                     (let name = controller_named kd api ''Deployment'' apps_group content
                      in if name = '''' then ('''', own1, s)
                         else (name, own1\<lparr>ow_replica_sets := mput replica_set name (ow_replica_sets own1)\<rparr>, s)))))"

definition pooler_of :: "'n decoders \<Rightarrow> 'n owner_api \<Rightarrow> string \<Rightarrow> walk_state \<Rightarrow> string \<times> walk_state" where
  "pooler_of kd api deployment st =
     (case st of (own, s) \<Rightarrow>
        (case mget (ow_deployments own) deployment of
           Some name \<Rightarrow> (name, st)
         | None \<Rightarrow>
             (let own1 = own\<lparr>ow_deployments := mput deployment '''' (ow_deployments own)\<rparr>
              in case oa_deployment api deployment of
                   Inl e \<Rightarrow> ('''', own1, log_ownership_unavailable ''deployment get'' e s)
                 | Inr content \<Rightarrow>
                     (let name = controller_named kd api ''Pooler'' cluster_group content
                      in if name = '''' then ('''', own1, s)
                         else (name, own1\<lparr>ow_deployments := mput deployment name (ow_deployments own1)\<rparr>, s)))))"

definition pooler_pod_is_member :: "'n decoders \<Rightarrow> 'n owner_api \<Rightarrow> kube_pod \<Rightarrow> walk_state \<Rightarrow> bool \<times> walk_state" where
  "pooler_pod_is_member kd api pod st =
     (case kd_controller kd (me_owners (xp_meta pod)) of
        None \<Rightarrow> (False, st)
      | Some ref \<Rightarrow>
          if rf_kind ref \<noteq> ''ReplicaSet'' then (False, st)
          else (case split_api_version kd (rf_api_version ref) of (g, _, known) \<Rightarrow>
            if \<not> known \<or> g \<noteq> apps_group then (False, st)
            else (case deployment_of kd api (rf_name ref) st of (deployment, st1) \<Rightarrow>
              if deployment = '''' then (False, st1)
              else (case pooler_of kd api deployment st1 of (pooler, st2) \<Rightarrow>
                if pooler = '''' then (False, st2)
                else ((case mget (me_labels (xp_meta pod)) pooler_name_label of None \<Rightarrow> '''' | Some l \<Rightarrow> l) = pooler, st2)))))"

section \<open>Conversion, listing and pump\<close>

definition convert_pooler_pod :: "'n decoders \<Rightarrow> 'n owner_api \<Rightarrow> 'n object \<Rightarrow> walk_state \<Rightarrow>
    (go_error + (pod_facts \<times> bool)) \<times> walk_state" where
  "convert_pooler_pod kd api content st =
     (case kd_pod kd content of
        None \<Rightarrow> (Inl (convert_error ''pooler pod convert''), st)
      | Some pod \<Rightarrow>
          (let meta = xp_meta pod;
               image = (case List.find (\<lambda>c. xn_name c = pgbouncer_container) (xp_containers pod) of
                 None \<Rightarrow> '''' | Some c \<Rightarrow> xn_image c)
           in case pooler_pod_is_member kd api pod st of (member, st') \<Rightarrow>
             (Inr (\<lparr>pf_name = me_name meta, pf_uid = me_uid meta,
                pf_role = (case mget (me_labels meta) pooler_name_label of None \<Rightarrow> '''' | Some l \<Rightarrow> l),
                pf_phase = xp_phase pod,
                pf_ready = map_option (\<lambda>c. snd c = ''True'') (List.find (\<lambda>c. fst c = ''Ready'') (xp_conditions pod)),
                pf_restarts = (if xp_statuses pod = [] then None else Some (sum_list (map xs_restarts (xp_statuses pod)))),
                pf_node = xp_node pod, pf_ip = xp_ip pod, pf_started = xp_started pod,
                pf_image = (if image = '''' then (case xp_containers pod of [] \<Rightarrow> '''' | c # _ \<Rightarrow> xn_image c) else image),
                pf_owner_uid = '''', pf_deleting = me_deleting meta, pf_containers = []\<rparr>, member), st')))"


text \<open>\<open>FetchPoolerPods\<close>: one list, each item answered for by the reads of its own walk; the cache is the list's.\<close>

fun pooler_items :: "'n codec \<Rightarrow> 'n decoders \<Rightarrow> ('n object \<times> 'n owner_api) list \<Rightarrow> pod_facts list \<Rightarrow> pooler_ownership \<Rightarrow>
    seed_recorder option \<times> capture \<Rightarrow> (go_error + pod_facts list) \<times> (seed_recorder option \<times> capture)" where
  "pooler_items ky kd [] pods own st = (Inr pods, st)"
| "pooler_items ky kd ((content, api) # items) pods own st =
     (case convert_pooler_pod kd api content (own, snd st) of
        (Inl err, _, s') \<Rightarrow> (Inl err, (fst st, s'))
      | (Inr (facts, member), own', s') \<Rightarrow>
          if \<not> member then pooler_items ky kd items pods own' (fst st, log_excluded (Some (pf_name facts)) s')
          else pooler_items ky kd items (pods @ [facts]) own' (seed_add ky content (fst st, s')))"

definition fetch_pooler_pods :: "'n codec \<Rightarrow> 'n decoders \<Rightarrow> api_error + (('n object \<times> 'n owner_api) list \<times> string) \<Rightarrow>
    capture \<Rightarrow> (go_error + (pod_facts list \<times> string)) \<times> capture" where
  "fetch_pooler_pods ky kd listed s =
     (case listed of
        Inl e \<Rightarrow> (Inl (categorize_api ''pooler pods list'' e), s)
      | Inr (items, rv) \<Rightarrow>
          (case pooler_items ky kd items [] new_pooler_ownership (seed_record ''pooler pods'' s, s) of
             (Inl err, st) \<Rightarrow> (Inl err, snd st)
           | (Inr pods, st) \<Rightarrow> (Inr (pods, rv), seed_commit True st)))"

text \<open>The pump of a watch keeps its cache between the events; tapped, it feeds the history like any other.\<close>

definition pump_pooler_pod :: "'n decoders \<Rightarrow> 'n owner_api \<Rightarrow> 'n watch_event \<Rightarrow> walk_state \<Rightarrow> (pod_event \<times> bool \<times> bool) \<times> walk_state" where
  "pump_pooler_pod kd api ev st =
     (case wv_object ev of
        None \<Rightarrow> ((no_pod_event, False, wv_type ev = EventError), st)
      | Some content \<Rightarrow>
          (case convert_pooler_pod kd api content st of
             (Inl err, st') \<Rightarrow> ((no_pod_event, False, True), st')
           | (Inr (facts, member), own, s) \<Rightarrow>
               if wv_type ev = EventAdded \<or> wv_type ev = EventModified then
                 (if \<not> member then ((no_pod_event, False, False), own, log_excluded (Some (pf_name facts)) s)
                  else ((\<lparr>ch_put = Some facts, ch_delete = None\<rparr>, True, False), own, s))
               else if wv_type ev = EventDeleted then
                 ((\<lparr>ch_put = None, ch_delete = Some \<lparr>dl_name = pf_name facts, dl_uid = pf_uid facts\<rparr>\<rparr>, True, False), own, s)
               else if wv_type ev = EventBookmark then ((no_pod_event, False, False), own, s)
               else ((no_pod_event, False, True), own, s)))"

fun watch_pooler_pods :: "'n codec \<Rightarrow> 'n decoders \<Rightarrow> ('n watch_event \<times> 'n owner_api) list \<Rightarrow> walk_state \<Rightarrow>
    (pod_event \<times> bool \<times> bool) list \<times> walk_state" where
  "watch_pooler_pods ky kd [] st = ([], st)"
| "watch_pooler_pods ky kd ((ev, api) # evs) st =
     (case pump_pooler_pod kd api ev st of (_, own, _) \<Rightarrow>
      (case tap ky ''pooler pods'' (\<lambda>ev' s. case pump_pooler_pod kd api ev' (fst st, s) of (answer, _, s') \<Rightarrow> (answer, s')) ev (snd st) of
         (answer, s') \<Rightarrow> (case watch_pooler_pods ky kd evs (own, s') of (answers, st') \<Rightarrow> (answer # answers, st'))))"

section \<open>The log of a pooler\<close>

definition tail_pooler_logs :: "'n decoders \<Rightarrow> client_options \<Rightarrow> (string \<Rightarrow> api_error + 'n object) \<Rightarrow> 'n owner_api \<Rightarrow>
    (log_request \<Rightarrow> log_answer) \<Rightarrow> string \<Rightarrow> string \<Rightarrow> capture \<Rightarrow> (go_error + log_tail) \<times> log_request list \<times> capture" where
  "tail_pooler_logs kd opts get_pod api serve pod container s =
     (case get_pod pod of
        Inl e \<Rightarrow>
          (if ae_not_found e then (Inl (new_error ''pooler log tail'' CategoryNotFound (Some (ae_error e))), [], s)
           else (Inl (categorize_api ''pooler log tail pod get'' e), [], s))
      | Inr content \<Rightarrow>
          (case convert_pooler_pod kd api content (new_pooler_ownership, s) of
             (Inl err, _, s') \<Rightarrow> (Inl err, [], s')
           | (Inr (facts, member), _, s') \<Rightarrow>
               if \<not> member then (Inl (new_error ''pooler log tail'' CategoryNotFound None), [], log_excluded (Some (pf_name facts)) s')
               else
                 (let wanted = (if container = '''' then pgbouncer_container else container)
                  in if \<not> declares_container (pf_containers facts) wanted
                     then (Inl (new_error ''pooler log tail'' CategoryNotFound None), [], log_excluded_container (pf_name facts) wanted s')
                     else
                       (let limit = ko_tail_bytes opts;
                            req = \<lparr>lr_pod = pod, lr_container = wanted, lr_follow = False, lr_tail_lines = ko_tail_lines opts, lr_limit_bytes = Some limit\<rparr>
                        in (case serve req of
                              Inl e \<Rightarrow> (Inl (categorize_api ''pooler log tail'' e), [req], s')
                            | Inr (served, failure) \<Rightarrow>
                                (case (if int (length served) < limit then failure else None) of
                                   Some e \<Rightarrow> (Inl (categorize_api ''pooler log tail read'' e), [req], s')
                                 | None \<Rightarrow>
                                     (let data = take (nat limit) served
                                      in (Inr \<lparr>lt_content = data, lt_truncated_by_bytes = (int (length data) \<ge> limit),
                                            lt_line_limit = ko_tail_lines opts, lt_byte_limit = limit\<rparr>, [req], s'))))))))"

lemma converted_pooler_pod:
  assumes "convert_pooler_pod kd api content st = (Inr (facts, member), st')"
  shows "\<exists>pod. kd_pod kd content = Some pod \<and> pooler_pod_is_member kd api pod st = (member, st') \<and>
    pf_name facts = me_name (xp_meta pod) \<and> pf_uid facts = me_uid (xp_meta pod) \<and>
    pf_role facts = (case mget (me_labels (xp_meta pod)) pooler_name_label of None \<Rightarrow> '''' | Some l \<Rightarrow> l) \<and> pf_containers facts = []"
proof -
  from assms obtain pod where pod: "kd_pod kd content = Some pod" by (cases "kd_pod kd content") (auto simp: convert_pooler_pod_def)
  with assms show ?thesis
    by (cases "pooler_pod_is_member kd api pod st") (auto simp: convert_pooler_pod_def Let_def)
qed


section \<open>A verified chain\<close>

text \<open>What the answers of the API server show: an object controlled by a named object of a kind and group.\<close>

definition controlled_by :: "'n decoders \<Rightarrow> 'n owner_api \<Rightarrow> 'n object \<Rightarrow> string \<Rightarrow> string \<Rightarrow> string \<Rightarrow> bool" where
  "controlled_by kd api content kind g name \<longleftrightarrow>
     (\<exists>meta ref v. oa_partial api content = Some meta \<and> kd_controller kd (me_owners meta) = Some ref \<and>
        kd_group_version kd (rf_api_version ref) = Some (g, v) \<and> rf_kind ref = kind \<and> rf_name ref = name)"

definition deployment_shown :: "'n decoders \<Rightarrow> 'n owner_api set \<Rightarrow> string \<Rightarrow> string \<Rightarrow> bool" where
  "deployment_shown kd apis replica_set deployment \<longleftrightarrow>
     (\<exists>api \<in> apis. \<exists>content. oa_replica_set api replica_set = Inr content \<and> controlled_by kd api content ''Deployment'' ''apps'' deployment)"

definition pooler_shown :: "'n decoders \<Rightarrow> 'n owner_api set \<Rightarrow> string \<Rightarrow> string \<Rightarrow> bool" where
  "pooler_shown kd apis deployment pooler \<longleftrightarrow>
     (\<exists>api \<in> apis. \<exists>content. oa_deployment api deployment = Inr content \<and> controlled_by kd api content ''Pooler'' ''postgresql.cnpg.io'' pooler)"

text \<open>The whole chain of a pod, the last link naming what the pod's label says.\<close>

definition chain_shown :: "'n decoders \<Rightarrow> 'n owner_api set \<Rightarrow> kube_pod \<Rightarrow> string \<Rightarrow> bool" where
  "chain_shown kd apis pod pooler \<longleftrightarrow>
     pooler \<noteq> '''' \<and> mget (me_labels (xp_meta pod)) ''cnpg.io/poolerName'' = Some pooler \<and>
     (\<exists>ref v deployment. kd_controller kd (me_owners (xp_meta pod)) = Some ref \<and> rf_kind ref = ''ReplicaSet'' \<and>
        kd_group_version kd (rf_api_version ref) = Some (''apps'', v) \<and>
        deployment_shown kd apis (rf_name ref) deployment \<and> pooler_shown kd apis deployment pooler)"

definition walks_shown :: "'n decoders \<Rightarrow> 'n owner_api set \<Rightarrow> pooler_ownership \<Rightarrow> bool" where
  "walks_shown kd apis own \<longleftrightarrow>
     (\<forall>rs d. mget (ow_replica_sets own) rs = Some d \<longrightarrow> d \<noteq> '''' \<longrightarrow> deployment_shown kd apis rs d) \<and>
     (\<forall>d p. mget (ow_deployments own) d = Some p \<longrightarrow> p \<noteq> '''' \<longrightarrow> pooler_shown kd apis d p)"

lemma new_walks_shown [simp]: "walks_shown kd apis new_pooler_ownership"
  by (simp add: walks_shown_def new_pooler_ownership_def mget_def)

lemma shown_more:
  "deployment_shown kd apis rs d \<Longrightarrow> apis \<subseteq> apis' \<Longrightarrow> deployment_shown kd apis' rs d"
  "pooler_shown kd apis d p \<Longrightarrow> apis \<subseteq> apis' \<Longrightarrow> pooler_shown kd apis' d p"
  "walks_shown kd apis own \<Longrightarrow> apis \<subseteq> apis' \<Longrightarrow> walks_shown kd apis' own"
  unfolding deployment_shown_def pooler_shown_def walks_shown_def by blast+

lemma chain_more: "chain_shown kd apis pod pooler \<Longrightarrow> apis \<subseteq> apis' \<Longrightarrow> chain_shown kd apis' pod pooler"
  unfolding chain_shown_def by (blast intro: shown_more)

lemma controller_named_shown:
  "controller_named kd api kind g content = name \<Longrightarrow> name \<noteq> '''' \<Longrightarrow> controlled_by kd api content kind g name"
  by (auto simp: controller_named_def controlled_by_def owner_ref_of_def split_api_version_def
      split: option.splits if_splits prod.splits)

lemma deployment_of_shown:
  assumes "deployment_of kd api rs (own, s) = (d, own', s')" "walks_shown kd apis own" "api \<in> apis"
  shows "walks_shown kd apis own' \<and> (d \<noteq> '''' \<longrightarrow> deployment_shown kd apis rs d)"
proof (cases "mget (ow_replica_sets own) rs")
  case None
  show ?thesis
  proof (cases "oa_replica_set api rs")
    case (Inl e)
    with None assms show ?thesis by (auto simp: deployment_of_def Let_def walks_shown_def mget_mput split: if_splits)
  next
    case (Inr content)
    have "deployment_shown kd apis rs name" if "controller_named kd api ''Deployment'' apps_group content = name" "name \<noteq> ''''" for name
      using controller_named_shown [OF that] Inr assms(3) unfolding deployment_shown_def apps_group_def by blast
    with None Inr assms show ?thesis
      by (auto simp: deployment_of_def Let_def walks_shown_def mget_mput split: if_splits)
  qed
qed (use assms in \<open>auto simp: deployment_of_def walks_shown_def\<close>)

lemma pooler_of_shown:
  assumes "pooler_of kd api d (own, s) = (p, own', s')" "walks_shown kd apis own" "api \<in> apis"
  shows "walks_shown kd apis own' \<and> (p \<noteq> '''' \<longrightarrow> pooler_shown kd apis d p)"
proof (cases "mget (ow_deployments own) d")
  case None
  show ?thesis
  proof (cases "oa_deployment api d")
    case (Inl e)
    with None assms show ?thesis by (auto simp: pooler_of_def Let_def walks_shown_def mget_mput split: if_splits)
  next
    case (Inr content)
    have "pooler_shown kd apis d name" if "controller_named kd api ''Pooler'' cluster_group content = name" "name \<noteq> ''''" for name
      using controller_named_shown [OF that] Inr assms(3) unfolding pooler_shown_def cluster_group_def by blast
    with None Inr assms show ?thesis
      by (auto simp: pooler_of_def Let_def walks_shown_def mget_mput split: if_splits)
  qed
qed (use assms in \<open>auto simp: pooler_of_def walks_shown_def\<close>)

lemma member_walk_shown:
  assumes "pooler_pod_is_member kd api pod (own, s) = (member, own', s')" "walks_shown kd apis own" "api \<in> apis"
  shows "walks_shown kd apis own' \<and>
    (member \<longrightarrow> (\<exists>pooler. chain_shown kd apis pod pooler \<and> mget (me_labels (xp_meta pod)) pooler_name_label = Some pooler))"
proof (cases "own' = own \<and> \<not> member")
  case False
  with assms(1) obtain ref v where ref: "kd_controller kd (me_owners (xp_meta pod)) = Some ref" "rf_kind ref = ''ReplicaSet''"
    "kd_group_version kd (rf_api_version ref) = Some (''apps'', v)"
    by (auto simp: pooler_pod_is_member_def split_api_version_def apps_group_def split: option.splits if_splits prod.splits)
  obtain d own1 s1 where one: "deployment_of kd api (rf_name ref) (own, s) = (d, own1, s1)"
    by (cases "deployment_of kd api (rf_name ref) (own, s)") auto
  note first = deployment_of_shown [OF one assms(2,3)]
  obtain p own2 s2 where two: "pooler_of kd api d (own1, s1) = (p, own2, s2)"
    by (cases "pooler_of kd api d (own1, s1)") auto
  note second = pooler_of_shown [OF two conjunct1 [OF first] assms(3)]
  show ?thesis
  proof (cases "d = '''' \<or> p = ''''")
    case True
    with assms(1) ref one two first second show ?thesis
      by (auto simp: pooler_pod_is_member_def split_api_version_def apps_group_def split: if_splits)
  next
    case False
    then have "own' = own2" and "member \<longleftrightarrow> (case mget (me_labels (xp_meta pod)) pooler_name_label of None \<Rightarrow> '''' | Some l \<Rightarrow> l) = p"
      using assms(1) ref one two by (auto simp: pooler_pod_is_member_def split_api_version_def apps_group_def)
    moreover have "chain_shown kd apis pod p" if "mget (me_labels (xp_meta pod)) pooler_name_label = Some p"
      using that False ref first second unfolding chain_shown_def pooler_name_label_def by blast
    ultimately show ?thesis using False second by (auto split: option.splits)
  qed
qed (use assms(2) in simp)


text \<open>Facts whose pod has the whole chain, named as its role.\<close>

definition proven_pooler_pod :: "'n decoders \<Rightarrow> 'n owner_api set \<Rightarrow> pod_facts \<Rightarrow> bool" where
  "proven_pooler_pod kd apis facts \<longleftrightarrow>
     (\<exists>content pod. kd_pod kd content = Some pod \<and> pf_name facts = me_name (xp_meta pod) \<and> pf_uid facts = me_uid (xp_meta pod) \<and>
        chain_shown kd apis pod (pf_role facts))"

lemma proven_more: "proven_pooler_pod kd apis facts \<Longrightarrow> apis \<subseteq> apis' \<Longrightarrow> proven_pooler_pod kd apis' facts"
  unfolding proven_pooler_pod_def by (blast intro: chain_more)

lemma conversion_shown:
  assumes "convert_pooler_pod kd api content (own, s) = (Inr (facts, member), own', s')" "walks_shown kd apis own" "api \<in> apis"
  shows "walks_shown kd apis own' \<and> (member \<longrightarrow> proven_pooler_pod kd apis facts)"
proof -
  from converted_pooler_pod [OF assms(1)] obtain pod where pod: "kd_pod kd content = Some pod"
    "pooler_pod_is_member kd api pod (own, s) = (member, own', s')"
    "pf_name facts = me_name (xp_meta pod)" "pf_uid facts = me_uid (xp_meta pod)"
    "pf_role facts = (case mget (me_labels (xp_meta pod)) pooler_name_label of None \<Rightarrow> '''' | Some l \<Rightarrow> l)" by blast
  from member_walk_shown [OF pod(2) assms(2,3)] pod show ?thesis unfolding proven_pooler_pod_def by fastforce
qed

lemma failed_conversion: "convert_pooler_pod kd api content st = (Inl err, st') \<Longrightarrow> st' = st"
  by (auto simp: convert_pooler_pod_def Let_def split: option.splits prod.splits)

lemma pooler_items_shown:
  assumes "pooler_items ky kd items pods own st = (Inr pods', st')" "walks_shown kd apis own" "snd ` set items \<subseteq> apis" "f \<in> set pods'"
  shows "f \<in> set pods \<or> proven_pooler_pod kd apis f"
  using assms
proof (induction items arbitrary: pods own st)
  case (Cons item items)
  obtain content api where item: "item = (content, api)" by (cases item)
  obtain out own' s' where step: "convert_pooler_pod kd api content (own, snd st) = (out, own', s')"
    by (cases "convert_pooler_pod kd api content (own, snd st)") auto
  with Cons.prems(1) item obtain facts member where out: "out = Inr (facts, member)" by (cases out) auto
  have "api \<in> apis" using Cons.prems(3) item by simp
  note shown = conversion_shown [OF step [unfolded out] Cons.prems(2) this]
  show ?case
  proof (cases member)
    case True
    with Cons.prems(1) item step out
    have "pooler_items ky kd items (pods @ [facts]) own' (seed_add ky content (fst st, s')) = (Inr pods', st')" by simp
    from Cons.IH [OF this] shown True Cons.prems(3,4) show ?thesis by auto
  next
    case False
    with Cons.prems(1) item step out
    have "pooler_items ky kd items pods own' (fst st, log_excluded (Some (pf_name facts)) s') = (Inr pods', st')" by simp
    from Cons.IH [OF this] shown Cons.prems(3,4) show ?thesis by simp
  qed
qed simp

lemma pump_pooler_shown:
  assumes "pump_pooler_pod kd api ev (own, s) = (answer, own', s')" "walks_shown kd apis own" "api \<in> apis"
  shows "walks_shown kd apis own' \<and> (\<forall>e f. answer = (e, True, False) \<longrightarrow> ch_put e = Some f \<longrightarrow> proven_pooler_pod kd apis f)"
proof (cases "wv_object ev")
  case (Some content)
  obtain out own1 s1 where step: "convert_pooler_pod kd api content (own, s) = (out, own1, s1)"
    by (cases "convert_pooler_pod kd api content (own, s)") auto
  show ?thesis
  proof (cases out)
    case (Inl err)
    with assms Some step failed_conversion [OF step [unfolded Inl]] show ?thesis by (auto simp: pump_pooler_pod_def)
  next
    case (Inr fm)
    then obtain facts member where out: "out = Inr (facts, member)" by (cases fm) blast
    from conversion_shown [OF step [unfolded out] assms(2,3)] assms(1) Some step out show ?thesis
      by (auto simp: pump_pooler_pod_def split: if_splits)
  qed
qed (use assms in \<open>auto simp: pump_pooler_pod_def\<close>)

lemma watch_pooler_shown:
  assumes "watch_pooler_pods ky kd evs st = (answers, st')" "walks_shown kd apis (fst st)" "snd ` set evs \<subseteq> apis"
    and "(e, True, False) \<in> set answers" "ch_put e = Some f"
  shows "proven_pooler_pod kd apis f"
  using assms(1-4)
proof (induction evs arbitrary: st answers)
  case (Cons item evs)
  obtain ev api where item: "item = (ev, api)" by (cases item)
  obtain own s where st: "st = (own, s)" by (cases st)
  obtain answer own' s' where pump: "pump_pooler_pod kd api ev (own, s) = (answer, own', s')"
    by (cases "pump_pooler_pod kd api ev (own, s)") auto
  have "api \<in> apis" using Cons.prems(3) item by simp
  note shown = pump_pooler_shown [OF pump _ this]
  let ?pump = "\<lambda>ev' s. case pump_pooler_pod kd api ev' (own, s) of (answer, _, s') \<Rightarrow> (answer, s')"
  obtain s2 where "tap ky ''pooler pods'' ?pump ev s = (answer, s2)"
    using tap_answer [of ky "''pooler pods''" ?pump ev s] pump by (cases "tap ky ''pooler pods'' ?pump ev s") simp
  then obtain answers' where rest: "watch_pooler_pods ky kd evs (own', s2) = (answers', st')" and a: "answers = answer # answers'"
    using Cons.prems(1) item st pump by (auto split: prod.splits)
  show ?case
  proof (cases "answer = (e, True, False)")
    case True
    then show ?thesis using shown Cons.prems(2) assms(5) st by auto
  next
    case False
    then show ?thesis using Cons.IH [OF rest] shown Cons.prems st a by auto
  qed
qed simp

text \<open>A label is not a membership. Every pooler pod that is listed, or put by the watch that follows, has the
whole chain proven by answers of the API server to this fetch or this watch, with whatever caching in
between: the pod is controlled by a ReplicaSet of the apps group, that ReplicaSet was read and is
controlled by a Deployment of that group, that Deployment was read and is controlled by a Pooler of the
CloudNativePG group, and the name of that Pooler is the one the pod's label claims and its facts show.\<close>

theorem pooler_pods_have_a_verified_chain:
  assumes "fetch_pooler_pods ky kd (Inr (items, rv)) s = (Inr (pods, rv'), s')"
    and "watch_pooler_pods ky kd evs (new_pooler_ownership, s') = (answers, st)"
    and "facts \<in> set pods \<or> (e, True, False) \<in> set answers \<and> ch_put e = Some facts"
  shows "\<exists>content pod. kd_pod kd content = Some pod \<and> pf_name facts = me_name (xp_meta pod) \<and>
    pf_uid facts = me_uid (xp_meta pod) \<and> chain_shown kd (snd ` set items \<union> snd ` set evs) pod (pf_role facts)"
proof -
  let ?apis = "snd ` set items \<union> snd ` set evs"
  have "proven_pooler_pod kd ?apis facts"
    using assms(3)
  proof
    assume kept: "facts \<in> set pods"
    obtain out t where run: "pooler_items ky kd items [] new_pooler_ownership (seed_record ''pooler pods'' s, s) = (out, t)"
      by (cases "pooler_items ky kd items [] new_pooler_ownership (seed_record ''pooler pods'' s, s)") auto
    with assms(1) have "out = Inr pods" by (cases out) (auto simp: fetch_pooler_pods_def)
    with pooler_items_shown [OF run [unfolded this], of ?apis] kept show ?thesis by simp
  next
    assume "(e, True, False) \<in> set answers \<and> ch_put e = Some facts"
    with watch_pooler_shown [OF assms(2), of ?apis e facts] show ?thesis by simp
  qed
  then show ?thesis unfolding proven_pooler_pod_def .
qed

section \<open>What the walk leaves\<close>

text \<open>A failed read is remembered like a read that found nothing: for as long as the watch lives, the pods of that
ReplicaSet are refused, whatever the API server answers later.\<close>

lemma failed_walk_is_final:
  assumes "mget (ow_replica_sets own) rs = None" "oa_replica_set api rs = Inl e"
  shows "fst (deployment_of kd api' rs (snd (deployment_of kd api rs (own, s)))) = ''''"
  using assms by (simp add: deployment_of_def Let_def mget_mput)

text \<open>The log of a pooler is never served. Whatever the API server answers, and for a pod whose whole chain is
proven as for any other, the tail of a pooler's log is an error and no log is ever asked for: the check
that the pod declares the container reads the containers of the converted facts, which the conversion of
a pooler's pod does not fill. For a proven member it is the not-found of a stranger.\<close>

theorem pooler_logs_are_never_served:
  "\<exists>err s'. tail_pooler_logs kd opts get_pod api serve pod container s = (Inl err, [], s') \<and>
    (\<forall>content p. get_pod pod = Inr content \<longrightarrow> kd_pod kd content = Some p \<longrightarrow>
       fst (pooler_pod_is_member kd api p (new_pooler_ownership, s)) \<longrightarrow>
       categorize err = CategoryNotFound \<and>
       kp_refused s' = kp_refused (snd (snd (pooler_pod_is_member kd api p (new_pooler_ownership, s)))) @
         [(me_name (xp_meta p), if container = '''' then ''pgbouncer'' else container)])"
proof (cases "get_pod pod")
  case (Inr content)
  obtain out own' s' where step: "convert_pooler_pod kd api content (new_pooler_ownership, s) = (out, own', s')"
    by (cases "convert_pooler_pod kd api content (new_pooler_ownership, s)") auto
  show ?thesis
  proof (cases out)
    case (Inl err)
    moreover have "kd_pod kd content = None"
      using step Inl by (auto simp: convert_pooler_pod_def Let_def split: option.splits prod.splits)
    ultimately show ?thesis using Inr step by (simp add: tail_pooler_logs_def)
  next
    case (Inr fm)
    then obtain facts member where out: "out = Inr (facts, member)" by (cases fm) blast
    from converted_pooler_pod [OF step [unfolded out]] obtain p where p: "kd_pod kd content = Some p"
      "pooler_pod_is_member kd api p (new_pooler_ownership, s) = (member, own', s')"
      "pf_name facts = me_name (xp_meta p)" "pf_containers facts = []" by blast
    with \<open>get_pod pod = Inr content\<close> step out show ?thesis
      by (auto simp: tail_pooler_logs_def Let_def declares_container_def log_excluded_container_def pgbouncer_container_def
          new_error_def categorize_def)
  qed
qed (simp add: tail_pooler_logs_def)


section \<open>Witnesses\<close>

definition chain_owner :: "string \<Rightarrow> string \<Rightarrow> string \<Rightarrow> owner_reference" where
  "chain_owner api_version kind name =
     \<lparr>rf_api_version = api_version, rf_kind = kind, rf_name = name, rf_uid = name, rf_controller = Some True\<rparr>"

definition chain_meta :: "string \<Rightarrow> owner_reference \<Rightarrow> object_meta" where
  "chain_meta name owner =
     \<lparr>me_name = name, me_namespace = ''db'', me_uid = name, me_labels = [(''cnpg.io/poolerName'', ''pool'')], me_owners = [owner],
      me_created = 0, me_deleting = False\<rparr>"

definition pooler_pod :: kube_pod where
  "pooler_pod = (sample_kube_pod ''b1'')\<lparr>xp_meta := chain_meta ''b1'' (chain_owner ''apps/v1'' ''ReplicaSet'' ''rs''),
     xp_containers := [\<lparr>xn_name = ''pgbouncer'', xn_image = ''bouncer:1''\<rparr>]\<rparr>"

definition pooler_decoders :: "int decoders" where
  "pooler_decoders = sample_decoders\<lparr>
     kd_group_version := (\<lambda>v. if v = ''apps/v1'' then Some (''apps'', ''v1'') else if v = ''postgresql.cnpg.io/v1'' then Some (''postgresql.cnpg.io'', ''v1'') else None),
     kd_pod := (\<lambda>_. Some pooler_pod)\<rparr>"

definition pooler_api :: "int owner_api" where
  "pooler_api =
     \<lparr>oa_replica_set = (\<lambda>_. Inr [(''kind'', JString ''ReplicaSet'')]), oa_deployment = (\<lambda>_. Inr [(''kind'', JString ''Deployment'')]),
      oa_partial = (\<lambda>c. Some (if mget c ''kind'' = Some (JString ''ReplicaSet'')
        then chain_meta ''rs'' (chain_owner ''apps/v1'' ''Deployment'' ''dep'')
        else chain_meta ''dep'' (chain_owner ''postgresql.cnpg.io/v1'' ''Pooler'' ''pool'')))\<rparr>"

definition fetched_poolers :: "pod_facts list" where
  "fetched_poolers =
     (case fst (fetch_pooler_pods sample_codec pooler_decoders (Inr ([(sample_pod ''b1'' ''a'', pooler_api)], ''7'')) idle_capture) of
        Inr (pods, _) \<Rightarrow> pods | Inl _ \<Rightarrow> [])"

theorem pooler_pods_have_a_verified_chain_witness:
  "map pf_role fetched_poolers = [''pool''] \<and>
   (\<exists>pod. me_name (xp_meta pod) = ''b1'' \<and> chain_shown pooler_decoders {pooler_api} pod ''pool'')"
proof -
  let ?fetch = "fetch_pooler_pods sample_codec pooler_decoders (Inr ([(sample_pod ''b1'' ''a'', pooler_api)], ''7'')) idle_capture"
  have answer: "r = Inr ((case r of Inr (pods, _) \<Rightarrow> pods | Inl _ \<Rightarrow> []), ''7'')" if "map_sum id snd r = Inr ''7''"
    for r :: "go_error + (pod_facts list \<times> string)"
    using that by (cases r) auto
  have "map_sum id snd (fst ?fetch) = Inr ''7''" by code_simp
  from answer [OF this] have "fst ?fetch = Inr (fetched_poolers, ''7'')" unfolding fetched_poolers_def .
  then have fetch: "?fetch = (Inr (fetched_poolers, ''7''), snd ?fetch)" by (metis prod.collapse)
  have roles: "map pf_role fetched_poolers = [''pool'']" and names: "map pf_name fetched_poolers = [''b1'']" by code_simp+
  have one: "hd xs \<in> set xs \<and> pf_role (hd xs) = r \<and> pf_name (hd xs) = n" if "map pf_role xs = [r]" "map pf_name xs = [n]" for xs r n
    using that by auto
  note one = one [OF roles names]
  have "watch_pooler_pods sample_codec pooler_decoders [] (new_pooler_ownership, snd ?fetch) = ([], (new_pooler_ownership, snd ?fetch))"
    by simp
  from pooler_pods_have_a_verified_chain [OF fetch this disjI1 [OF conjunct1 [OF one]]] one roles show ?thesis by auto
qed

theorem pooler_logs_are_never_served_witness:
  "fst (pooler_pod_is_member pooler_decoders pooler_api pooler_pod (new_pooler_ownership, idle_capture)) \<and>
   fst (snd (tail_pooler_logs pooler_decoders sample_options (\<lambda>_. Inr []) pooler_api one_line ''b1'' '''' idle_capture)) = []"
proof
  show "fst (pooler_pod_is_member pooler_decoders pooler_api pooler_pod (new_pooler_ownership, idle_capture))" by code_simp
  from pooler_logs_are_never_served [of pooler_decoders sample_options "\<lambda>_. Inr []" pooler_api one_line "''b1''" "''''" idle_capture]
  show "fst (snd (tail_pooler_logs pooler_decoders sample_options (\<lambda>_. Inr []) pooler_api one_line ''b1'' '''' idle_capture)) = []"
    by auto
qed

end
