(* ===== verification/Spec2Isabelle.thy ===== *)
theory Spec2Isabelle
  imports WebGate HistoryBolt HistoryDiff LogRunner Config MetricsPersist
    ObserveSingle ObservePods ObserveKinds ObserveBackups ObserveInfra CrossCheck DiagnosePage Scrape KubePoolers
begin

text \<open>
  A verification library of pgConsole, a read-mostly web console for one CloudNativePG cluster.

  \<^bold>\<open>The program.\<close> A Go process that watches the objects of one cluster (\<open>internal/kube\<close>,
  \<open>internal/observe\<close>), keeps bounded stores of what it saw (\<open>internal/history\<close>,
  \<open>internal/metrics\<close>, \<open>internal/logstream\<close>), correlates them (\<open>internal/diagnose\<close>), and serves pages
  (\<open>internal/web\<close>) to users whose identity and level a trusted proxy asserts. It changes the cluster
  in two ways only: the catalog of day-2 operations (\<open>internal/ops\<close>) and the review of access
  requests (\<open>internal/review\<close>). \<open>internal/config\<close> decides at startup what of this is on.

  \<^bold>\<open>Theories and the code they model.\<close>
    \<^item> \<open>Prelude\<close>: Go's 64-bit integers, durations and instants, strings as bytes, maps as association
      lists (\<open>mget\<close>, \<open>mput\<close>, \<open>mdel\<close>), \<open>sort.Slice\<close>, \<open>sort.Search\<close>, UTF-8 validity, decoded JSON.
    \<^item> \<open>Redact\<close> (\<open>redact/redact.go\<close>, \<open>evidence/client.go\<close> \<open>KindOf\<close>): errors and what is safe to log.
    \<^item> \<open>Authz\<close> (\<open>authz/authz.go\<close>, \<open>identity/identity.go\<close>), \<open>Ops\<close> (\<open>ops/ops.go\<close>, \<open>ops/csrf.go\<close>),
      \<open>Review\<close> (\<open>review/review.go\<close>), \<open>WebGate\<close> (\<open>web/handler.go\<close>, \<open>web/ops.go\<close>,
      \<open>web/accessreview.go\<close>): the chain from a request to a change of the cluster. The cluster and
      the log are a state that handlers return updated.
    \<^item> \<open>History\<close> (\<open>history/history.go\<close>, \<open>history/store.go\<close>): the store of revisions as a record; one
      definition per method. \<open>HistoryStore\<close> holds its invariant and behaviour, \<open>HistoryJournal\<close> the
      mirrored calls and priming, \<open>HistoryBolt\<close> (\<open>history/bolt/bolt.go\<close>) the write-behind file,
      \<open>HistoryDiff\<close> (\<open>history/diff.go\<close>) the comparison of two definitions.
    \<^item> \<open>LogBuffer\<close> (\<open>logstream/buffer.go\<close>), \<open>LogMatcher\<close> (\<open>logstream/logstream.go\<close>), \<open>LogRunner\<close>
      (\<open>logstream/runner.go\<close>): the sinks of followed log lines, and the followers as an inductive step
      relation under an arbitrary scheduler.
    \<^item> \<open>GoDuration\<close>: \<open>time.ParseDuration\<close> (with its double arithmetic), \<open>Duration.String\<close> and
      \<open>net.SplitHostPort\<close>. \<open>Config\<close> (\<open>config/config.go\<close>): the configuration contract as a list of
      stages over a configuration and the errors so far, in the order of \<open>Load\<close>.
    \<^item> \<open>Metrics\<close> (\<open>metrics/store.go\<close>, the types of \<open>metrics/metrics.go\<close>) and \<open>MetricsPersist\<close>
      (\<open>metrics/persist.go\<close>): the metrics window, its reads, and its snapshot file. \<open>Scrape\<close>
      (\<open>scrape/scrape.go\<close>): the parser of the exposition format and the sweep that fills the window.
    \<^item> \<open>Observe\<close> (\<open>observe/keyed.go\<close>, \<open>observe/store.go\<close>): retained item sets, and the store as a
      snapshot and whether there is one; a collector's snapshot extends the record \<open>observed\<close>.
      \<open>ObserveLoop\<close> (\<open>observe/loop.go\<close>): the loop as an inductive step relation over its program
      points, over a record \<open>feed\<close> of the operations of one collector. The collectors:
      \<open>ObserveSingle\<close> (\<open>observe.go\<close>, \<open>collector.go\<close>, \<open>failoverquorum.go\<close>, \<open>primarylease.go\<close>,
      \<open>kubeversion.go\<close>), \<open>ObservePods\<close> (\<open>pods.go\<close>, \<open>poolerpods.go\<close>, \<open>events.go\<close>), \<open>ObserveKinds\<close>
      (\<open>quotas.go\<close>, \<open>poolers.go\<close>, \<open>imagecatalogs.go\<close>, \<open>databases.go\<close>), \<open>ObserveBackups\<close>
      (\<open>backups.go\<close>, \<open>accessreview.go\<close>), \<open>ObserveInfra\<close> (\<open>infrastructure.go\<close>).
    \<^item> \<open>Evidence\<close> (\<open>evidence/evidence.go\<close>, \<open>evidence/client.go\<close>): the projection of a repository report, the
      token file, the validation of answers, and the assembly of a collection page by page.
      \<open>EvidencePoller\<close> (\<open>evidence/store.go\<close>, \<open>evidence/poller.go\<close>): the poller as a step relation over a
      record \<open>fetcher\<close>. \<open>CrossCheck\<close> (\<open>web/crosscheck.go\<close>): the operator's backups beside the
      repository's, over the stores of three components; \<open>GoTime\<close> holds the layouts of instants it prints.
    \<^item> \<open>Diagnose\<close> (\<open>diagnose/diagnose.go\<close>, \<open>layer.go\<close>, \<open>stale.go\<close>): findings, the relations between them,
      the input of a run as the snapshots of the collectors, and why a source cannot be read.
      \<open>DiagnoseVersion\<close> (\<open>version.go\<close>): versions and constraints. \<open>DiagnoseConditions\<close> (\<open>rule.go\<close>),
      \<open>DiagnoseStatus\<close> (\<open>status.go\<close>), \<open>DiagnoseResources\<close> (\<open>resources.go\<close>, \<open>objectstore.go\<close>,
      \<open>repository.go\<close>): the conditions, each a function from the input to its matches or the reason it
      cannot answer. \<open>DiagnoseDetectors\<close> (\<open>eventbacked.go\<close>, \<open>quotaexhausted.go\<close>,
      \<open>backupcadence.go\<close>): the detectors. \<open>DiagnoseRun\<close> (\<open>rule.go\<close>, \<open>subject.go\<close>, \<open>Run\<close>): the conditions as
      one datatype with its evaluator, rules, and the run; \<open>DiagnoseSound\<close> what the outcomes are worth.
    \<^item> \<open>DiagnoseIncidents\<close>, \<open>DiagnosePage\<close> (\<open>web/diagnostics.go\<close>): the page of a run: the input read off the stores
      of the collectors, findings grouped into incidents by their relations, a line for each layer of the
      stack, the checks by outcome, the cluster's state and the dated sequence of an incident.

    \<^item> \<open>KubeRecord\<close> (\<open>kube/record.go\<close>, the paged listings of \<open>kube\<close>): what the client records of an object it
      reads, as an observation of the history, and a listing as a seed where it is complete. \<open>KubeConvert\<close>
      (\<open>kube/convert.go\<close>, and the conversions of \<open>pods.go\<close>, \<open>infrastructure.go\<close>, \<open>children.go\<close>): membership and
      the reduction of decoded objects to facts. \<open>KubeWatch\<close> (the rest of these files, \<open>stream.go\<close>, \<open>logs.go\<close>,
      \<open>logstream.go\<close>): listings, pumps, the merge of several watches as a step relation, and the reading of logs.
      \<open>KubePoolers\<close> (\<open>kube/poolerpods.go\<close>): the ownership walk of the pooler pods, with its cache, and what rests on it.

  \<^bold>\<open>Interfaces.\<close> Locales state what one part relies on of another, and are interpreted on the model:
  \<open>strict_total_order\<close> (sorting, on string order), \<open>store_invariant\<close> (what every operation of the
  history store keeps, on six components of its invariant and on what the persister was told), \<open>sink\<close> (the events of one container do not
  disturb what a sink holds of another, on the buffer, the matcher and their fan-out), \<open>window\<close>
  (pushing keeps the newest entries, on the ring), \<open>feed_contract\<close> (what the collector loop relies on
  of a collector, on all thirteen), \<open>named_kind\<close> (a bounded set shown and evicted by name, on
  eight kinds), \<open>evidence_fetcher\<close> (what the poller relies on of a fetcher, on the client), and
  \<open>strict_weak_order\<close> (sorting by a key, on versions, findings, backups and schedules).

  \<^bold>\<open>What the lemmas show.\<close> Access: a change needs the whole chain of same-origin POST, level, identity,
  enabled capability and bound token, and happens once (\<open>WebGate\<close>, \<open>Ops\<close>, \<open>Review\<close>); what is logged of an
  error is its category (\<open>Redact\<close>). History: an invariant of the store and its bounds under every
  sequence of observations and seeds, exact lookup, seeds that account for the missing, restarts that
  resume exactly, and a journal file that is a prefix of the history whatever fails; diffs that are
  empty only for equal definitions. Logs: a bounded buffer with a contiguous tail, observations that
  account for exactly the matching lines, followers that stop, back off, and coverage that follows the streams, its two unreported moments included.
  Configuration: loaded values are valid, errors never echo a value, only named variables are read.
  Observation: a snapshot is never fresh while its watch is broken, its generation counts the
  publications, items are handed on in the order of their arrival and every watch is released once, a page shows exactly what the watch told of within its
  bound and says when it does not, and a state's clock is its unbroken presence.
  Evidence: what is shown of the repository is of the configured identity and whole for its generation,
  its status follows the contact, and the cross-check concludes no more than both sides prove.
  Diagnosis: a clear result rests on sources that were read, a pinned rule speaks of the versions it
  names, a run accounts for every check, a corroborated finding quotes one agreeing match a branch,
  and a held state is judged by the store's own clock. On the page every finding is shown once and nested on an
  admitted relation only, a layer reads current only where it was ruled out, and, from the loops of the
  collectors through the run to the page, nothing is clear on a source the console has lost.
  Metrics: a scraped value is the aggregate of exactly the samples of its entry, the log of a sweep says what
  changes; structural bounds, rates from counters, explicit outages, restarts that draw the same.
  Capture: a seed is a whole listing and the history it reaches keeps what was listed, inline environment values
  reach nothing recorded, bookkeeping of the API server makes no revision, and ownership is bounded. Reads: no pod
  is shown and no log read that did not prove its membership, the payload of a Secret goes nowhere, facts are
  bounded and do not depend on the order of the names in a status, a merged stream is whole, and once stopped it closes
  whether anyone reads it or not; a pooler's pod is shown only where its whole chain of owners was read.

  \<^bold>\<open>Bounds and fuel.\<close> \<open>LogBuffer.drop_total\<close> takes as fuel the number of retained entries, and each
  round drops one; \<open>DiagnoseIncidents.climb\<close> takes the number of findings, and \<open>root_of_fuel\<close> shows it enough;
  \<open>Prelude.trim_left_words\<close> and \<open>valid_utf8_from\<close> take the length of the string, and
  each round shortens it; every other loop is structural or has its measure proved. Integers are unbounded
  where the code cannot overflow and wrapped by \<open>wrap64\<close> where it relies on 64 bits.

  \<^bold>\<open>Parameters.\<close> The message authentication of tokens, \<open>bbolt\<close> and the encodings of the journal, \<open>gob\<close>,
  \<open>json.Unmarshal\<close>, \<open>json.Marshal\<close>, \<open>url.Parse\<close>, the verb \<open>%q\<close>, \<open>strconv.ParseFloat\<close> and the operations of \<open>float64\<close> are arguments of
  the definitions that use them, and so are the sidecar's answers, the decoding of its JSON and the
  producer's \<open>Validate\<close>; what is assumed of one is a hypothesis of the theorem that needs it.
  Go leaves the order of a range over a map open: the order of the association list stands for it. \<open>sort.Slice\<close> may
  exchange equal elements; the model's sort is stable, and where elements can be equal under the order of a
  sort (two repository items of one identifier) the theory says so.

  \<^bold>\<open>Not modelled.\<close> Rendering into HTML (\<open>web/viewmodel.go\<close> and the wiring files) and the process wiring
  (\<open>application\<close>, \<open>cmd\<close>) project or connect what is modelled. The prose and rule tables of
  \<open>metrics.go\<close> and \<open>diagnose/catalog\<close> are data. The conditions over the metrics window, the instance reports
  and the history timeline are the constructor \<open>Other\<close> of the conditions. Of \<open>internal/kube\<close>, the
  calls into client-go and the decoding of objects are parameters, and the listings and conversions of the kinds
  other than pods, pooler pods and infrastructure are not modelled. The model of \<open>logstream/runner.go\<close> merges the end of the
  context of \<open>Run\<close> with \<open>stopAll\<close>.
\<close>

end
